(* ===== verification/Prelude.thy ===== *)
theory Prelude
  imports Main "HOL-Library.Word" "HOL-Library.Monad_Syntax"
begin

text \<open>
  Shared vocabulary of the development: the machine integer types of the i386 build, byte
  order conversions, bounded copies between C buffers and the generic list and word lemmas
  that the component theories use.

  Undefined behaviour is a value of the model. An operation that may read or write outside the
  object a C pointer points to, or may dereference a null pointer, returns an \<open>option\<close>;
  \<open>None\<close> stands for the undefined access, so a theorem that such an operation returns
  \<open>Some\<close> is also a memory-safety theorem.
\<close>

unbundle bit_operations_syntax

type_synonym u8 = "8 word"
type_synonym u16 = "16 word"
type_synonym u32 = "32 word"
type_synonym u64 = "64 word"

named_theorems word_bits \<open>bitwise facts about casts, shifts and masks\<close>
named_theorems c_bounds \<open>facts that discharge buffer bounds\<close>

section \<open>C buffers\<close>

text \<open>A read of one array element, undefined outside the array.\<close>

definition rd :: "'a list \<Rightarrow> nat \<Rightarrow> 'a option" where
  "rd xs i = (if i < length xs then Some (xs ! i) else None)"

text \<open>A write of one array element, undefined outside the array.\<close>

definition wr :: "'a list \<Rightarrow> nat \<Rightarrow> 'a \<Rightarrow> 'a list option" where
  "wr xs i v = (if i < length xs then Some (xs[i := v]) else None)"

text \<open>
  The loop \<open>for (i = 0; i < n; i++) dst[d + i] = src[s + i];\<close> between two arrays that do not
  overlap, as the hash functions and the measurement code write it.
\<close>

primrec copy_loop :: "'a list \<Rightarrow> nat \<Rightarrow> 'a list \<Rightarrow> nat \<Rightarrow> nat \<Rightarrow> 'a list option" where
  "copy_loop dst d src s 0 = Some dst"
| "copy_loop dst d src s (Suc n) =
     do { v \<leftarrow> rd src s;
          dst' \<leftarrow> wr dst d v;
          copy_loop dst' (Suc d) src (Suc s) n }"

text \<open>What the loop computes: the copied slice replaces the slice of the destination.\<close>

definition overlay :: "'a list \<Rightarrow> nat \<Rightarrow> 'a list \<Rightarrow> 'a list" where
  "overlay dst d xs = take d dst @ xs @ drop (d + length xs) dst"

lemma rd_Some_iff: "rd xs i = Some v \<longleftrightarrow> i < length xs \<and> xs ! i = v"
  by (auto simp: rd_def)

lemma wr_Some_iff: "wr xs i v = Some ys \<longleftrightarrow> i < length xs \<and> ys = xs[i := v]"
  by (auto simp: wr_def)

lemma rd_in [simp]: "i < length xs \<Longrightarrow> rd xs i = Some (xs ! i)"
  by (simp add: rd_def)

lemma wr_in [simp]: "i < length xs \<Longrightarrow> wr xs i v = Some (xs[i := v])"
  by (simp add: wr_def)

lemma length_overlay [simp]: "d + length xs \<le> length dst \<Longrightarrow> length (overlay dst d xs) = length dst"
  by (simp add: overlay_def)

lemma overlay_Nil [simp]: "overlay dst d [] = dst"
  by (simp add: overlay_def)

lemma overlay_Cons:
  "d < length dst \<Longrightarrow> overlay (dst[d := x]) (Suc d) xs = overlay dst d (x # xs)"
  by (simp add: overlay_def upd_conv_take_nth_drop take_Suc_conv_app_nth add.commute)

lemma take_overlay_same:
  "d + length xs \<le> length dst \<Longrightarrow> take (d + length xs) (overlay dst d xs) = take d dst @ xs"
  by (simp add: overlay_def)

lemma overlay_overlay:
  "p + length xs + length ys \<le> length c
     \<Longrightarrow> overlay (overlay c p xs) (p + length xs) ys = overlay c p (xs @ ys)"
  by (simp add: overlay_def add_ac)

lemma length_le_concat: "xs \<in> set xss \<Longrightarrow> length xs \<le> length (concat xss)"
  by (induction xss) auto

lemma take_drop_Suc: "s < length xs \<Longrightarrow> take (Suc n) (drop s xs) = xs ! s # take n (drop (Suc s) xs)"
  by (simp add: Cons_nth_drop_Suc [symmetric])

lemma copy_loop_overlay:
  assumes "s + n \<le> length src" and "d + n \<le> length dst"
  shows "copy_loop dst d src s n = Some (overlay dst d (take n (drop s src)))"
  using assms
proof (induction n arbitrary: dst d s)
  case 0
  then show ?case by simp
next
  case (Suc n)
  then have "copy_loop (dst[d := src ! s]) (Suc d) src (Suc s) n
      = Some (overlay (dst[d := src ! s]) (Suc d) (take n (drop (Suc s) src)))"
    by simp
  with Suc.prems show ?case
    by (simp add: overlay_Cons take_drop_Suc)
qed

lemma copy_loop_None:
  assumes "length src < s + n \<or> length dst < d + n" and "s \<le> length src" and "d \<le> length dst"
  shows "copy_loop dst d src s n = None"
  using assms
proof (induction n arbitrary: dst d s)
  case 0
  then show ?case by simp
next
  case (Suc n)
  show ?case
  proof (cases "s < length src \<and> d < length dst")
    case True
    with Suc.prems have "copy_loop (dst[d := src ! s]) (Suc d) src (Suc s) n = None"
      by (intro Suc.IH) auto
    with True show ?thesis by simp
  next
    case False
    then show ?thesis by (auto simp: rd_def wr_def)
  qed
qed

section \<open>Byte order\<close>

text \<open>The four bytes of the low 32 bits of a word, most significant byte first.\<close>

definition be_bytes32 :: "'w::len word \<Rightarrow> u8 list" where
  "be_bytes32 w = [ucast (drop_bit 24 w), ucast (drop_bit 16 w), ucast (drop_bit 8 w), ucast w]"

lemma length_be_bytes32 [simp]: "length (be_bytes32 w) = 4"
  by (simp add: be_bytes32_def)

lemma bit_ucast_word [word_bits]:
  "bit (ucast (w :: 'a::len word) :: 'b::len word) n \<longleftrightarrow> n < LENGTH('b) \<and> bit w n"
  by (auto simp: bit_simps dest: bit_imp_le_length)

lemma be_bytes32_ucast:
  assumes "32 \<le> LENGTH('w::len)"
  shows "be_bytes32 (ucast (w :: 'w word) :: u32) = be_bytes32 w"
  unfolding be_bytes32_def list.inject
  by (auto intro!: bit_word_eqI simp: word_bits bit_drop_bit_eq)

lemma be_bytes32_cong:
  assumes "32 \<le> LENGTH('a::len)" and "32 \<le> LENGTH('b::len)"
    and "(ucast (x :: 'a word) :: u32) = ucast (y :: 'b word)"
  shows "be_bytes32 x = be_bytes32 y"
  using assms be_bytes32_ucast by metis

section \<open>Words\<close>

lemma ucast_add32:
  assumes "32 \<le> LENGTH('w::len)"
  shows "(ucast (x + y :: 'w word) :: u32) = ucast x + ucast y"
proof -
  have tb: "take_bit 32 (take_bit LENGTH('w) i + take_bit LENGTH('w) j) = take_bit 32 (i + j)" for i j :: int
    using assms by (metis (no_types) min.absorb1 take_bit_add take_bit_take_bit)
  show ?thesis
    using assms by transfer (simp add: tb min.absorb1)
qed

lemma ucast_bitwise [word_bits]:
  fixes x y :: "'w::len word"
  shows "(ucast (x AND y) :: 'b::len word) = ucast x AND ucast y"
    and "(ucast (x OR y) :: 'b word) = ucast x OR ucast y"
    and "(ucast (x XOR y) :: 'b word) = ucast x XOR ucast y"
  by (rule bit_word_eqI; auto simp: bit_ucast_word bit_simps)+

lemma mask32: "(0xFFFFFFFF :: 'w::len word) = mask 32"
  by (simp add: mask_eq_exp_minus_1)

lemma unat_and_3F: "unat (x AND 0x3F :: 'w::len word) = unat x mod 64" if "6 \<le> LENGTH('w)"
proof -
  have "x AND 0x3F = take_bit 6 x" by (simp add: take_bit_eq_mask mask_eq_exp_minus_1)
  then show ?thesis by (simp only: unsigned_take_bit_eq) (simp add: take_bit_nat_def)
qed

lemma unat_add_mask32:
  fixes x y :: "'w::len word"
  assumes "32 \<le> LENGTH('w)"
  shows "unat ((x + y) AND 0xFFFFFFFF) = (unat x + unat y) mod 2 ^ 32"
proof -
  have "(2::nat) ^ 32 dvd 2 ^ LENGTH('w)" using assms by (rule le_imp_power_dvd)
  then show ?thesis
    unfolding mask32 by (simp add: unsigned_take_bit_eq take_bit_nat_def unat_word_ariths mod_mod_cancel flip: take_bit_eq_mask)
qed

lemma div_carry:
  fixes k n N :: nat
  assumes "n < N"
  shows "(k + n) div N = k div N + (if N \<le> k mod N + n then 1 else 0)"
proof -
  define q r where "q = k div N" and "r = k mod N"
  have k: "k = N * q + r" and r: "r < N"
    using assms by (simp_all add: q_def r_def)
  have "(N * q + r + n) div N = q + (if N \<le> r + n then 1 else 0)"
    using assms r by (intro div_nat_eqI) (simp_all add: algebra_simps)
  then have "(k + n) div N = q + (if N \<le> r + n then 1 else 0)"
    using k by simp
  then show ?thesis
    by (simp add: q_def r_def)
qed

lemma bit_of_nat_word: "bit (of_nat k :: 'w::len word) n \<longleftrightarrow> n < LENGTH('w) \<and> bit k n"
  by (auto simp: bit_simps)

lemma take_bit_num32:
  assumes "32 \<le> n" "(numeral k :: nat) < 2 ^ 32"
  shows "take_bit n (numeral k) = (numeral k :: nat)"
proof -
  have "(numeral k :: nat) < 2 ^ n"
    using assms by (meson less_le_trans one_le_numeral power_increasing)
  then show ?thesis by (simp add: take_bit_nat_eq_self)
qed

lemma unat_of_nat_below:
  assumes "32 \<le> LENGTH('w::len)" and "k < 2 ^ 32"
  shows "unat (of_nat k :: 'w word) = k"
proof -
  have "k < 2 ^ LENGTH('w)"
    using assms by (meson less_le_trans one_le_numeral power_increasing)
  then show ?thesis by (simp add: unsigned_of_nat take_bit_nat_eq_self)
qed

lemma unat_of_nat_below32: "k < 2 ^ 32 \<Longrightarrow> unat (of_nat k :: u32) = k"
  by (simp add: unat_of_nat_below)

section \<open>Lists cut into blocks\<close>

text \<open>The complete 64-byte blocks of a list and the rest after them.\<close>

definition whole :: "'a list \<Rightarrow> 'a list" where
  "whole xs = take (64 * (length xs div 64)) xs"

definition rest :: "'a list \<Rightarrow> 'a list" where
  "rest xs = drop (64 * (length xs div 64)) xs"

lemma whole_rest: "whole xs @ rest xs = xs"
  by (simp add: whole_def rest_def)

lemma length_rest [simp]: "length (rest xs) = length xs mod 64"
  by (simp add: rest_def minus_mult_div_eq_mod)

lemma length_whole: "length (whole xs) = 64 * (length xs div 64)"
  by (simp add: whole_def)

lemma dvd_length_whole [simp]: "64 dvd length (whole xs)"
  by (simp add: length_whole)

lemma whole_append_dvd:
  assumes "64 dvd length xs"
  shows "whole (xs @ ys) = xs @ whole ys" and "rest (xs @ ys) = rest ys"
proof -
  from assms obtain k where k: "length xs = 64 * k" by (rule dvdE)
  then have "64 * (length (xs @ ys) div 64) = length xs + 64 * (length ys div 64)" by simp
  then show "whole (xs @ ys) = xs @ whole ys" and "rest (xs @ ys) = rest ys"
    by (simp_all only: whole_def rest_def take_append drop_append) simp_all
qed

lemma whole_rest_append: "whole (xs @ ys) = whole xs @ whole (rest xs @ ys)"
  and rest_rest_append: "rest (xs @ ys) = rest (rest xs @ ys)"
  using whole_append_dvd [of "whole xs" "rest xs @ ys"] by (simp_all add: whole_rest flip: append_assoc)

lemma whole_short [simp]: "length xs < 64 \<Longrightarrow> whole xs = []"
  and rest_short [simp]: "length xs < 64 \<Longrightarrow> rest xs = xs"
  by (simp_all add: whole_def rest_def)


text \<open>
  The iteration of a compression function over the complete 64-byte blocks of a message, as
  every hash function of the Merkle-Damgard family performs it.
\<close>

function md_blocks :: "('h \<Rightarrow> u8 list \<Rightarrow> 'h) \<Rightarrow> 'h \<Rightarrow> u8 list \<Rightarrow> 'h" where
  "md_blocks f h bs =
     (if length bs < 64 then h else md_blocks f (f h (take 64 bs)) (drop 64 bs))"
  by pat_completeness auto
termination
  by (relation "measure (\<lambda>(f, h, bs). length bs)") auto

declare md_blocks.simps [simp del]

lemma md_blocks_short [simp]: "length bs < 64 \<Longrightarrow> md_blocks f h bs = h"
  by (simp add: md_blocks.simps)

lemma md_blocks_block: "length b = 64 \<Longrightarrow> md_blocks f h (b @ bs) = md_blocks f (f h b) bs"
  by (subst md_blocks.simps) simp

lemma md_blocks_append:
  "64 dvd length xs \<Longrightarrow> md_blocks f h (xs @ ys) = md_blocks f (md_blocks f h xs) ys"
proof (induction f h xs rule: md_blocks.induct)
  case (1 f h xs)
  show ?case
  proof (cases "length xs < 64")
    case True
    with "1.prems" have "xs = []" by (auto dest!: dvd_imp_le)
    then show ?thesis by simp
  next
    case False
    let ?b = "take 64 xs" and ?r = "drop 64 xs"
    from False "1.prems" have "64 dvd length ?r" by (simp add: dvd_minus_self)
    with "1.IH" False have "md_blocks f (f h ?b) (?r @ ys) = md_blocks f (md_blocks f (f h ?b) ?r) ys"
      by simp
    moreover have "md_blocks f h (?b @ (?r @ ys)) = md_blocks f (f h ?b) (?r @ ys)"
      using False by (intro md_blocks_block) simp
    moreover have "md_blocks f h (?b @ ?r) = md_blocks f (f h ?b) ?r"
      using False by (intro md_blocks_block) simp
    ultimately show ?thesis by (simp flip: append_assoc)
  qed
qed

lemma md_blocks_whole: "md_blocks f h (whole xs) = md_blocks f h xs"
  using md_blocks_append [of "whole xs" f h "rest xs"] by (simp add: whole_rest)

lemma md_blocks_rest_append: "md_blocks f h (xs @ ys) = md_blocks f (md_blocks f h xs) (rest xs @ ys)"
  using md_blocks_append [of "whole xs" f h "rest xs @ ys"]
  by (simp add: md_blocks_whole whole_rest flip: append_assoc)

section \<open>Streaming hashes\<close>

text \<open>Feeding a list of chunks to an update operation, until one fails.\<close>

primrec feed :: "('c \<Rightarrow> u8 list \<Rightarrow> 'c option) \<Rightarrow> 'c \<Rightarrow> u8 list list \<Rightarrow> 'c option" where
  "feed upd c [] = Some c"
| "feed upd c (xs # xss) = do { c' \<leftarrow> upd c xs; feed upd c' xss }"

text \<open>
  The contract of a streaming hash: a context represents the message fed to it so far, an
  update appends its chunk, and finishing yields the hash of the whole message. Chunks are
  non-empty and shorter than the limit of the length parameter.
\<close>

locale stream_hash =
  fixes repr :: "'c \<Rightarrow> u8 list \<Rightarrow> bool"
    and upd :: "'c \<Rightarrow> u8 list \<Rightarrow> 'c option"
    and fin :: "'c \<Rightarrow> 'h option"
    and hash :: "u8 list \<Rightarrow> 'h"
    and limit :: nat
  assumes upd_repr: "repr c m \<Longrightarrow> xs \<noteq> [] \<Longrightarrow> length xs < limit
      \<Longrightarrow> \<exists>c'. upd c xs = Some c' \<and> repr c' (m @ xs)"
    and fin_hash: "repr c m \<Longrightarrow> fin c = Some (hash m)"
begin

lemma feed_repr:
  assumes "repr c m" and "\<And>xs. xs \<in> set xss \<Longrightarrow> xs \<noteq> [] \<and> length xs < limit"
  shows "\<exists>c'. feed upd c xss = Some c' \<and> repr c' (m @ concat xss)"
  using assms
proof (induction xss arbitrary: c m)
  case Nil
  then show ?case by simp
next
  case (Cons xs xss)
  from upd_repr [OF Cons.prems(1)] Cons.prems(2)
  obtain c1 where c1: "upd c xs = Some c1" "repr c1 (m @ xs)" by auto
  from Cons.IH [OF c1(2)] Cons.prems(2) c1(1) show ?case by auto
qed

lemma feed_fin:
  assumes "repr c m" and "\<And>xs. xs \<in> set xss \<Longrightarrow> xs \<noteq> [] \<and> length xs < limit"
  shows "Option.bind (feed upd c xss) fin = Some (hash (m @ concat xss))"
  using feed_repr [OF assms(1), of xss] assms(2) fin_hash by auto

text \<open>How a message is cut into chunks does not matter.\<close>

lemma feed_chunking:
  assumes "repr c m"
    and "\<And>xs. xs \<in> set xss \<union> set yss \<Longrightarrow> xs \<noteq> [] \<and> length xs < limit"
    and "concat xss = concat yss"
  shows "Option.bind (feed upd c xss) fin = Option.bind (feed upd c yss) fin"
  using feed_fin [OF assms(1), of xss] feed_fin [OF assms(1), of yss] assms(2,3) by simp

end

end
