(* ===== verification/Sha1.thy ===== *)
theory Sha1
  imports Prelude
begin

text \<open>
  The SHA-1 implementation of TrustedGRUB (\<^verbatim>\<open>stage2/sha1.c\<close>, and its copy
  \<^verbatim>\<open>util/sha1.c\<close> in the host utilities), against the algorithm of FIPS 180-1.

  The C type \<open>t_U32\<close> is \<open>unsigned long\<close>: 32 bits wide in stage 2, which is built for i386,
  and 64 bits wide in the utilities when they are built on an LP64 host. The model is therefore
  polymorphic in the width \<open>'w\<close> of \<open>t_U32\<close>; the functional theorems hold for every width of
  at least 32 bits and speak about the low 32 bits of the result.
\<close>

section \<open>The implementation\<close>

record (overloaded) 'w sha1_context =
  total_bytes_Hi :: "'w::len word"
  total_bytes_Lo :: "'w word"
  vector :: "'w word list"
  buffer :: "u8 list"

text \<open>The macros \<open>CONCAT_4_BYTES\<close> and \<open>SPLIT_INTO_4_BYTES\<close>.\<close>

definition CONCAT_4_BYTES :: "u8 list \<Rightarrow> nat \<Rightarrow> 'w::len word" where
  "CONCAT_4_BYTES w8 i =
     push_bit 24 (ucast (w8 ! i)) OR push_bit 16 (ucast (w8 ! (i + 1))) OR
     push_bit 8 (ucast (w8 ! (i + 2))) OR ucast (w8 ! (i + 3))"

definition SPLIT_INTO_4_BYTES :: "'w::len word \<Rightarrow> u8 list" where
  "SPLIT_INTO_4_BYTES w32 =
     [ucast (drop_bit 24 w32), ucast (drop_bit 16 w32), ucast (drop_bit 8 w32), ucast w32]"

definition sha1_padding :: "u8 list" where
  "sha1_padding = 0x80 # replicate 63 0"

definition ROTATE_N_LEFT :: "'w::len word \<Rightarrow> nat \<Rightarrow> 'w word" where
  "ROTATE_N_LEFT x n = push_bit n x OR drop_bit (32 - n) (x AND 0xFFFFFFFF)"

text \<open>
  \<open>EXTENDED_W(t)\<close> computes the next schedule word and stores it into the circular array
  \<open>W[16]\<close>; the indices are masked with \<open>0x0F\<close>.
\<close>

definition EXTENDED_W :: "nat \<Rightarrow> 'w::len word list \<Rightarrow> 'w word \<times> 'w word list" where
  "EXTENDED_W t W =
     (let temp = W ! ((t - 3) mod 16) XOR W ! ((t - 8) mod 16) XOR
                 W ! ((t - 14) mod 16) XOR W ! (t mod 16);
          v = ROTATE_N_LEFT temp 1
      in (v, W[t mod 16 := v]))"

text \<open>The word a round step consumes: \<open>W[t]\<close> up to 15, \<open>EXTENDED_W(t)\<close> from 16 on.\<close>

definition round_word :: "nat \<Rightarrow> 'w::len word list \<Rightarrow> 'w word \<times> 'w word list" where
  "round_word t W = (if t < 16 then (W ! t, W) else EXTENDED_W t W)"

text \<open>The macro \<open>P\<close>: the new values of its arguments \<open>e\<close> and \<open>b\<close>.\<close>

type_synonym 'w boolfun = "'w word \<Rightarrow> 'w word \<Rightarrow> 'w word \<Rightarrow> 'w word"

definition P :: "'w::len boolfun \<Rightarrow> 'w word \<Rightarrow> 'w word \<Rightarrow> 'w word \<Rightarrow> 'w word \<Rightarrow> 'w word \<Rightarrow> 'w word
    \<Rightarrow> 'w word \<Rightarrow> 'w word \<times> 'w word" where
  "P F K a b c d e Wi = (e + (ROTATE_N_LEFT a 5 + F b c d + K + Wi), ROTATE_N_LEFT b 30)"

type_synonym 'w regs = "'w word \<times> 'w word \<times> 'w word \<times> 'w word \<times> 'w word"

text \<open>
  Five consecutive lines of a round. The lines rotate the roles of the variables \<open>A\<close> to
  \<open>E\<close>, so that after five of them each variable plays its first role again.
\<close>

definition five_steps :: "'w::len boolfun \<Rightarrow> 'w word \<Rightarrow> nat \<Rightarrow> 'w regs \<times> 'w word list
    \<Rightarrow> 'w regs \<times> 'w word list" where
  "five_steps F K t s =
     (let ((A, B, C, D, E), W) = s;
          (w, W) = round_word t W;       (E, B) = P F K A B C D E w;
          (w, W) = round_word (t + 1) W; (D, A) = P F K E A B C D w;
          (w, W) = round_word (t + 2) W; (C, E) = P F K D E A B C w;
          (w, W) = round_word (t + 3) W; (B, D) = P F K C D E A B w;
          (w, W) = round_word (t + 4) W; (A, C) = P F K B C D E A w
      in ((A, B, C, D, E), W))"

definition round_I :: "'w::len regs \<times> 'w word list \<Rightarrow> 'w regs \<times> 'w word list" where
  "round_I s =
     (let F = (\<lambda>x y z. z XOR (x AND (y XOR z))); K = 0x5A827999
      in five_steps F K 15 (five_steps F K 10 (five_steps F K 5 (five_steps F K 0 s))))"

definition round_II :: "'w::len regs \<times> 'w word list \<Rightarrow> 'w regs \<times> 'w word list" where
  "round_II s =
     (let F = (\<lambda>x y z. x XOR y XOR z); K = 0x6ED9EBA1
      in five_steps F K 35 (five_steps F K 30 (five_steps F K 25 (five_steps F K 20 s))))"

definition round_III :: "'w::len regs \<times> 'w word list \<Rightarrow> 'w regs \<times> 'w word list" where
  "round_III s =
     (let F = (\<lambda>x y z. (x AND y) OR (z AND (x OR y))); K = 0x8F1BBCDC
      in five_steps F K 55 (five_steps F K 50 (five_steps F K 45 (five_steps F K 40 s))))"

definition round_IV :: "'w::len regs \<times> 'w word list \<Rightarrow> 'w regs \<times> 'w word list" where
  "round_IV s =
     (let F = (\<lambda>x y z. x XOR y XOR z); K = 0xCA62C1D6
      in five_steps F K 75 (five_steps F K 70 (five_steps F K 65 (five_steps F K 60 s))))"

definition load_W :: "u8 list \<Rightarrow> 'w::len word list" where
  "load_W byte_64_block = map (\<lambda>k. CONCAT_4_BYTES byte_64_block (4 * k)) [0..<16]"

definition sha1_process :: "'w::len sha1_context \<Rightarrow> u8 list \<Rightarrow> 'w sha1_context option" where
  "sha1_process ctx byte_64_block =
     (if length byte_64_block < 64 then None
      else
        let v = vector ctx;
            ((A, B, C, D, E), W) = round_IV (round_III (round_II (round_I
               ((v ! 0, v ! 1, v ! 2, v ! 3, v ! 4), load_W byte_64_block))))
        in Some (ctx\<lparr>vector := [v ! 0 + A, v ! 1 + B, v ! 2 + C, v ! 3 + D, v ! 4 + E]\<rparr>))"

text \<open>
  \<open>sha1_init\<close>. A null context pointer is \<open>None\<close>; the first component of the result is the
  return code. The buffer is not initialised, so its old contents stay.
\<close>

definition sha1_init :: "'w::len sha1_context option \<Rightarrow> int \<times> 'w sha1_context option" where
  "sha1_init ctx =
     (case ctx of None \<Rightarrow> (-1, None)
      | Some c \<Rightarrow> (0, Some (c\<lparr>total_bytes_Lo := 0, total_bytes_Hi := 0,
          vector := [0x67452301, 0xEFCDAB89, 0x98BADCFE, 0x10325476, 0xC3D2E1F0]\<rparr>)))"

text \<open>
  \<open>while (chunk_length >= 64)\<close> of \<open>sha1_update\<close>. The pair of the pointer \<open>chunk_data\<close> and
  the count \<open>chunk_length\<close> is the list of the bytes that are left.
\<close>

function sha1_blocks :: "'w::len sha1_context \<Rightarrow> u8 list \<Rightarrow> ('w sha1_context \<times> u8 list) option" where
  "sha1_blocks ctx chunk =
     (if 64 \<le> length chunk
      then case sha1_process ctx (take 64 chunk) of None \<Rightarrow> None
           | Some ctx' \<Rightarrow> sha1_blocks ctx' (drop 64 chunk)
      else Some (ctx, chunk))"
  by pat_completeness auto
termination
  by (relation "measure (\<lambda>(ctx, chunk). length chunk)") auto

declare sha1_blocks.simps [simp del]

text \<open>
  \<open>sha1_update\<close>. The outer \<open>option\<close> is undefined behaviour (the caller's array is shorter
  than \<open>chunk_length\<close>, or the context buffer overflows).
\<close>

definition sha1_update :: "'w::len sha1_context option \<Rightarrow> u8 list option \<Rightarrow> 'w word
    \<Rightarrow> (int \<times> 'w sha1_context option) option" where
  "sha1_update ctx chunk_data chunk_length =
     (case (ctx, chunk_data) of
        (Some c, Some data) \<Rightarrow>
          if chunk_length < 1 then Some (-1, ctx)
          else if length data < unat chunk_length then None
          else
            let chunk = take (unat chunk_length) data;
                left = unat (total_bytes_Lo c AND 0x3F);
                fill = 64 - left;
                lo = (total_bytes_Lo c + chunk_length) AND 0xFFFFFFFF;
                c1 = c\<lparr>total_bytes_Lo := lo,
                       total_bytes_Hi := (if lo < chunk_length then total_bytes_Hi c + 1
                                          else total_bytes_Hi c)\<rparr>
            in do {
                 (c2, chunk2, left2) \<leftarrow>
                   (if 0 < left \<and> fill \<le> length chunk
                    then do { b \<leftarrow> copy_loop (buffer c1) left chunk 0 fill;
                              c' \<leftarrow> sha1_process (c1\<lparr>buffer := b\<rparr>) b;
                              Some (c', drop fill chunk, 0) }
                    else Some (c1, chunk, left));
                 (c3, chunk3) \<leftarrow> sha1_blocks c2 chunk2;
                 b \<leftarrow> copy_loop (buffer c3) left2 chunk3 0 (length chunk3);
                 Some (0, Some (c3\<lparr>buffer := b\<rparr>))
               }
      | _ \<Rightarrow> Some (-1, ctx))"

text \<open>
  \<open>sha1_finish\<close>. With a null \<open>sha1_hash\<close> the error branch stores through that null pointer,
  which is undefined. The result is the return code, the context and the hash array.
\<close>

definition sha1_finish :: "'w::len sha1_context option \<Rightarrow> 'w word list option
    \<Rightarrow> (int \<times> 'w sha1_context option \<times> 'w word list) option" where
  "sha1_finish ctx sha1_hash =
     (case (ctx, sha1_hash) of
        (_, None) \<Rightarrow> None
      | (None, Some h) \<Rightarrow> do { h' \<leftarrow> wr h 0 0; Some (-1, None, h') }
      | (Some c, Some h) \<Rightarrow>
          let high = drop_bit 29 (total_bytes_Lo c) OR push_bit 3 (total_bytes_Hi c);
              low = push_bit 3 (total_bytes_Lo c);
              msglen = SPLIT_INTO_4_BYTES high @ SPLIT_INTO_4_BYTES low;
              last = total_bytes_Lo c AND 0x3F;
              padn = (if last < 56 then 56 - last else 120 - last)
          in do {
               (_, c1) \<leftarrow> sha1_update ctx (Some sha1_padding) padn;
               (_, c2) \<leftarrow> sha1_update c1 (Some msglen) 8;
               c' \<leftarrow> c2;
               h' \<leftarrow> copy_loop h 0 (vector c') 0 5;
               Some (0, Some c', h')
             })"

text \<open>The copy in the host utilities, compiled where \<open>unsigned long\<close> has 64 bits.\<close>

definition util_sha1_init :: "64 sha1_context option \<Rightarrow> int \<times> 64 sha1_context option" where
  "util_sha1_init = sha1_init"

definition util_sha1_process :: "64 sha1_context \<Rightarrow> u8 list \<Rightarrow> 64 sha1_context option" where
  "util_sha1_process = sha1_process"

definition util_sha1_update :: "64 sha1_context option \<Rightarrow> u8 list option \<Rightarrow> u64
    \<Rightarrow> (int \<times> 64 sha1_context option) option" where
  "util_sha1_update = sha1_update"

definition util_sha1_finish :: "64 sha1_context option \<Rightarrow> u64 list option
    \<Rightarrow> (int \<times> 64 sha1_context option \<times> u64 list) option" where
  "util_sha1_finish = sha1_finish"

end
