(* ===== verification/Sha1_Fips.thy ===== *)
theory Sha1_Fips
  imports Sha1
begin

text \<open>
  The algorithm of FIPS 180-1 over byte strings, and the proof that the streaming
  implementation of \<^verbatim>\<open>sha1.c\<close> computes it: the unrolled rounds on a circular schedule of
  sixteen words agree with the eighty steps of the standard, and the buffering of
  \<open>sha1_update\<close> and the padding of \<open>sha1_finish\<close> agree with the padded message.
\<close>

section \<open>FIPS 180-1\<close>

definition fips_f :: "nat \<Rightarrow> u32 \<Rightarrow> u32 \<Rightarrow> u32 \<Rightarrow> u32" where
  "fips_f t x y z =
     (if t < 20 then (x AND y) OR (NOT x AND z)
      else if t < 40 then x XOR y XOR z
      else if t < 60 then (x AND y) OR (x AND z) OR (y AND z)
      else x XOR y XOR z)"

definition fips_K :: "nat \<Rightarrow> u32" where
  "fips_K t =
     (if t < 20 then 0x5A827999 else if t < 40 then 0x6ED9EBA1
      else if t < 60 then 0x8F1BBCDC else 0xCA62C1D6)"

definition fips_H0 :: "32 regs" where
  "fips_H0 = (0x67452301, 0xEFCDAB89, 0x98BADCFE, 0x10325476, 0xC3D2E1F0)"

primrec fips_schedule :: "u32 list \<Rightarrow> nat \<Rightarrow> u32 list" where
  "fips_schedule M 0 = M"
| "fips_schedule M (Suc n) =
     (let W = fips_schedule M n; t = 16 + n
      in W @ [word_rotl 1 (W ! (t - 3) XOR W ! (t - 8) XOR W ! (t - 14) XOR W ! (t - 16))])"

definition fips_step :: "u32 list \<Rightarrow> nat \<Rightarrow> 32 regs \<Rightarrow> 32 regs" where
  "fips_step W t s =
     (let (a, b, c, d, e) = s
      in (word_rotl 5 a + fips_f t b c d + e + W ! t + fips_K t, a, word_rotl 30 b, c, d))"

definition fips_add :: "32 regs \<Rightarrow> 32 regs \<Rightarrow> 32 regs" where
  "fips_add s r =
     (let (a, b, c, d, e) = s; (a', b', c', d', e') = r
      in (a + a', b + b', c + c', d + d', e + e'))"

definition be_word :: "u8 list \<Rightarrow> nat \<Rightarrow> u32" where
  "be_word bs k =
     ucast (bs ! (4 * k)) * 2 ^ 24 + ucast (bs ! (4 * k + 1)) * 2 ^ 16
     + ucast (bs ! (4 * k + 2)) * 2 ^ 8 + ucast (bs ! (4 * k + 3))"

definition fips_compress :: "32 regs \<Rightarrow> u8 list \<Rightarrow> 32 regs" where
  "fips_compress H blk =
     fips_add H (fold (fips_step (fips_schedule (map (be_word blk) [0..<16]) 64)) [0..<80] H)"

definition fips_pad :: "u8 list \<Rightarrow> u8 list" where
  "fips_pad msg =
     (let bits = of_nat (8 * length msg) :: u64
      in msg @ 0x80 # replicate ((119 - length msg mod 64) mod 64) 0
         @ be_bytes32 (drop_bit 32 bits) @ be_bytes32 bits)"

definition fips_sha1 :: "u8 list \<Rightarrow> u32 list" where
  "fips_sha1 msg = (let (a, b, c, d, e) = md_blocks fips_compress fips_H0 (fips_pad msg) in [a, b, c, d, e])"





lemma bit_ROTATE:
  "k < 32 \<Longrightarrow> n < 32 \<Longrightarrow> 32 \<le> LENGTH('w) \<Longrightarrow> bit (ROTATE_N_LEFT (x::'w::len word) n) k \<longleftrightarrow> bit x (if k < n then k + 32 - n else k - n)"
  by (auto simp: ROTATE_N_LEFT_def mask32 bit_simps add.commute dest: bit_imp_le_length)

lemma ucast_rotl:
  assumes "32 \<le> LENGTH('w::len)" "n < 32"
  shows "(ucast (ROTATE_N_LEFT (x::'w word) n) :: u32) = word_rotl n (ucast x)"
proof (rule bit_word_eqI)
  fix k assume "k < LENGTH(32)"
  then have k: "k < 32" by simp
  have "(k + (32 - n)) mod 32 = (if k < n then k + 32 - n else k - n)"
    using k assms by (auto simp: mod_if)
  with k assms show "bit (ucast (ROTATE_N_LEFT x n) :: u32) k = bit (word_rotl n (ucast x :: u32)) k"
    by (auto simp: bit_ucast_word bit_ROTATE bit_word_rotl_iff)
qed


lemma bytes_disjunctive:
  fixes a b c d :: u8
  shows "ucast a * 2 ^ 24 + ucast b * 2 ^ 16 + ucast c * 2 ^ 8 + (ucast d :: u32)
    = push_bit 24 (ucast a) OR push_bit 16 (ucast b) OR push_bit 8 (ucast c) OR ucast d"
proof -
  let ?a = "push_bit 24 (ucast a) :: u32" and ?b = "push_bit 16 (ucast b) :: u32"
    and ?c = "push_bit 8 (ucast c) :: u32" and ?d = "ucast d :: u32"
  have "?a AND ?b = 0" and "(?a OR ?b) AND ?c = 0" and "(?a OR ?b OR ?c) AND ?d = 0"
    by (rule bit_word_eqI; auto simp: bit_simps bit_ucast_word dest!: bit_imp_le_length)+
  then have "?a + ?b + ?c + ?d = ?a OR ?b OR ?c OR ?d"
    by (simp add: disjunctive_add_eq_or or.assoc)
  then show ?thesis
    by (simp add: push_bit_eq_mult)
qed

lemma concat_be:
  assumes "32 \<le> LENGTH('w::len)"
  shows "(ucast (CONCAT_4_BYTES bs (4 * k) :: 'w word) :: u32) = be_word bs k"
  unfolding be_word_def bytes_disjunctive CONCAT_4_BYTES_def using assms
  by (intro bit_word_eqI) (auto simp: bit_simps bit_ucast_word)


definition ureg :: "'w::len regs \<Rightarrow> 32 regs" where
  "ureg s = (let (a, b, c, d, e) = s in (ucast a, ucast b, ucast c, ucast d, ucast e))"

lemma length_fips_schedule [simp]: "length M = 16 \<Longrightarrow> length (fips_schedule M n) = 16 + n"
  by (induction n) (simp_all add: Let_def)

lemma fips_schedule_nth_mono:
  "length M = 16 \<Longrightarrow> t < 16 + n \<Longrightarrow> n \<le> m \<Longrightarrow> fips_schedule M m ! t = fips_schedule M n ! t"
proof (induction m)
  case (Suc m)
  then show ?case by (cases "n = Suc m") (auto simp: Let_def nth_append)
qed simp

lemma fips_schedule_rec:
  assumes "length M = 16" "16 \<le> t" "t < 80"
  defines "S \<equiv> fips_schedule M 64"
  shows "S ! t = word_rotl 1 (S ! (t - 3) XOR S ! (t - 8) XOR S ! (t - 14) XOR S ! (t - 16))"
proof -
  let ?n = "t - 16"
  have eq: "S ! s = fips_schedule M ?n ! s" if "s < t" for s
    unfolding S_def using that assms(1-3) by (intro fips_schedule_nth_mono) auto
  have "S ! t = fips_schedule M (Suc ?n) ! t"
    unfolding S_def using assms(1-3) by (intro fips_schedule_nth_mono) auto
  with assms(1-3) show ?thesis
    by (simp add: Let_def nth_append eq)
qed

lemma fips_schedule_first: "length M = 16 \<Longrightarrow> t < 16 \<Longrightarrow> fips_schedule M 64 ! t = M ! t"
  using fips_schedule_nth_mono [of M t 0 64] by simp

text \<open>The circular array holds the last sixteen schedule words.\<close>

definition sched_inv :: "u32 list \<Rightarrow> nat \<Rightarrow> 'w::len word list \<Rightarrow> bool" where
  "sched_inv S t W \<longleftrightarrow> length W = 16 \<and>
     (\<forall>s. max t 16 - 16 \<le> s \<longrightarrow> s < max t 16 \<longrightarrow> ucast (W ! (s mod 16)) = S ! s)"

lemma mod16_window:
  fixes t s :: nat
  assumes "16 \<le> t" "t - 16 \<le> s" "s < t" shows "s mod 16 = t mod 16 \<longleftrightarrow> s = t - 16"
proof
  assume "s mod 16 = t mod 16"
  moreover have "q * 16 + r = p * 16 + r - 16"
    if "16 \<le> p * 16 + r" "p * 16 + r - 16 \<le> q * 16 + r" "q * 16 + r < p * 16 + r" for p q r :: nat
    using that by presburger
  ultimately show "s = t - 16"
    using assms div_mult_mod_eq [of s 16] div_mult_mod_eq [of t 16] by metis
next
  assume "s = t - 16" with assms show "s mod 16 = t mod 16" by (simp add: le_mod_geq)
qed

lemma round_word_sched:
  assumes w: "32 \<le> LENGTH('w::len)" and M: "length M = 16" and t: "t < 80"
    and inv: "sched_inv (fips_schedule M 64) t (W :: 'w word list)"
    and rw: "round_word t W = (v, W')" and u: "u = Suc t"
  shows "ucast v = fips_schedule M 64 ! t" and "sched_inv (fips_schedule M 64) u W'"
proof -
  have "ucast v = fips_schedule M 64 ! t \<and> sched_inv (fips_schedule M 64) (Suc t) W'"
proof (cases "t < 16")
  case True
  with inv rw show ?thesis
    by (auto simp: round_word_def sched_inv_def max_def)
next
  case False
  let ?S = "fips_schedule M 64"
  from inv have len: "length W = 16" by (simp add: sched_inv_def)
  from inv False have old: "\<And>s. t - 16 \<le> s \<Longrightarrow> s < t \<Longrightarrow> ucast (W ! (s mod 16)) = ?S ! s"
    by (simp add: sched_inv_def max_def)
  have m16: "t mod 16 = (t - 16) mod 16" using False by (simp add: le_mod_geq)
  from rw False have v: "v = ROTATE_N_LEFT (W ! ((t - 3) mod 16) XOR W ! ((t - 8) mod 16) XOR
                 W ! ((t - 14) mod 16) XOR W ! ((t - 16) mod 16)) 1" and W': "W' = W[t mod 16 := v]"
    by (auto simp: round_word_def EXTENDED_W_def Let_def m16)
  have uv: "ucast v = ?S ! t"
    unfolding v using False w fips_schedule_rec [OF M, of t] t
    by (simp add: ucast_rotl ucast_bitwise old)
  have "ucast (W' ! (s mod 16)) = ?S ! s" if "Suc t - 16 \<le> s" "s < Suc t" for s
  proof (cases "s = t")
    case True with uv len show ?thesis by (simp add: W')
  next
    case neq: False
    with that False have "s mod 16 \<noteq> t mod 16" "t - 16 \<le> s" "s < t"
      using mod16_window [of t s] by auto
    with old show ?thesis by (simp add: W')
  qed
  with uv len W' False show ?thesis by (simp add: sched_inv_def max_def)
qed
  then show "ucast v = fips_schedule M 64 ! t" and "sched_inv (fips_schedule M 64) u W'"
    by (simp_all add: u)
qed


text \<open>A line of the code does what a step of the standard does.\<close>

definition rounds_ok :: "'w::len boolfun \<Rightarrow> 'w word \<Rightarrow> nat \<Rightarrow> nat \<Rightarrow> bool" where
  "rounds_ok F K lo hi \<longleftrightarrow>
     (\<forall>j x y z. lo \<le> j \<longrightarrow> j < hi \<longrightarrow>
        ucast (F x y z) = fips_f j (ucast x) (ucast y) (ucast z) \<and> ucast K = fips_K j)"

lemma P_fips_step:
  assumes w: "32 \<le> LENGTH('w::len)" and ok: "rounds_ok F (K :: 'w word) lo hi" "lo \<le> j" "j < hi"
    and Wi: "ucast Wi = S ! j" and P: "P F K a b c d e Wi = (e', b')"
  shows "fips_step S j (ucast a, ucast b, ucast c, ucast d, ucast e)
    = (ucast e', ucast a, ucast b', ucast c, ucast d)"
proof -
  from ok have "ucast (F b c d) = fips_f j (ucast b) (ucast c) (ucast d)" "ucast K = fips_K j"
    by (auto simp: rounds_ok_def)
  with P w Wi show ?thesis
    by (auto simp: P_def fips_step_def ucast_add32 ucast_rotl add_ac)
qed

lemma five_steps_fips:
  assumes w: "32 \<le> LENGTH('w::len)" and M: "length M = 16"
    and ok: "rounds_ok F (K :: 'w word) lo hi" "lo \<le> t" "t + 5 \<le> hi" "hi \<le> 80"
    and inv: "sched_inv (fips_schedule M 64) t W"
    and five: "five_steps F K t (R, W) = (R', W')"
  shows "ureg R' = fold (fips_step (fips_schedule M 64)) [t..<t+5] (ureg R)
       \<and> sched_inv (fips_schedule M 64) (t + 5) W'"
proof -
  let ?S = "fips_schedule M 64"
  note step = round_word_sched [OF w M] and line = P_fips_step [OF w ok(1), where S = ?S]
  obtain A B C D E where R: "R = (A, B, C, D, E)" by (cases R)
  obtain w0 W0 where r0: "round_word t W = (w0, W0)" by fastforce
  obtain E1 B1 where p0: "P F K A B C D E w0 = (E1, B1)" by fastforce
  obtain w1 W1 where r1: "round_word (t + 1) W0 = (w1, W1)" by fastforce
  obtain D1 A1 where p1: "P F K E1 A B1 C D w1 = (D1, A1)" by fastforce
  obtain w2 W2 where r2: "round_word (t + 2) W1 = (w2, W2)" by fastforce
  obtain C1 E2 where p2: "P F K D1 E1 A1 B1 C w2 = (C1, E2)" by fastforce
  obtain w3 W3 where r3: "round_word (t + 3) W2 = (w3, W3)" by fastforce
  obtain B2 D2 where p3: "P F K C1 D1 E2 A1 B1 w3 = (B2, D2)" by fastforce
  obtain w4 W4 where r4: "round_word (t + 4) W3 = (w4, W4)" by fastforce
  obtain A2 C2 where p4: "P F K B2 C1 D2 E2 A1 w4 = (A2, C2)" by fastforce
  from five have res: "R' = (A2, B2, C2, D2, E2)" "W' = W4"
    by (simp_all add: five_steps_def R r0 p0 r1 [simplified] p1 r2 [simplified] p2 r3 p3 r4 p4 Let_def)
  from step [OF _ inv r0, of "t + 1"] ok have s0: "ucast w0 = ?S ! t" "sched_inv ?S (t + 1) W0"
    by simp_all
  from step [OF _ s0(2) r1, of "t + 2"] ok have s1: "ucast w1 = ?S ! (t + 1)" "sched_inv ?S (t + 2) W1"
    by simp_all
  from step [OF _ s1(2) r2, of "t + 3"] ok have s2: "ucast w2 = ?S ! (t + 2)" "sched_inv ?S (t + 3) W2"
    by simp_all
  from step [OF _ s2(2) r3, of "t + 4"] ok have s3: "ucast w3 = ?S ! (t + 3)" "sched_inv ?S (t + 4) W3"
    by simp_all
  from step [OF _ s3(2) r4, of "t + 5"] ok have s4: "ucast w4 = ?S ! (t + 4)" "sched_inv ?S (t + 5) W4"
    by simp_all
  have upt: "[t..<t+5] = [t, t+1, t+2, t+3, t+4]"
    by (simp add: upt_rec)
  show ?thesis
    using ok s4(2) line [OF _ _ s0(1) p0] line [OF _ _ s1(1) p1] line [OF _ _ s2(1) p2]
      line [OF _ _ s3(1) p3] line [OF _ _ s4(1) p4]
    unfolding upt by (simp add: res R ureg_def)
qed

lemma twenty_steps_fips:
  assumes w: "32 \<le> LENGTH('w::len)" and M: "length M = 16"
    and ok: "rounds_ok F (K :: 'w word) t (t + 20)" "t + 20 \<le> 80"
    and inv: "sched_inv (fips_schedule M 64) t W"
    and tw: "five_steps F K (t + 15) (five_steps F K (t + 10) (five_steps F K (t + 5)
       (five_steps F K t (R, W)))) = (R', W')"
  shows "ureg R' = fold (fips_step (fips_schedule M 64)) [t..<t+20] (ureg R)
       \<and> sched_inv (fips_schedule M 64) (t + 20) W'"
proof -
  note five = five_steps_fips [OF w M ok(1)]
  obtain R1 W1 where 1: "five_steps F K t (R, W) = (R1, W1)" by fastforce
  obtain R2 W2 where 2: "five_steps F K (t + 5) (R1, W1) = (R2, W2)" by fastforce
  obtain R3 W3 where 3: "five_steps F K (t + 10) (R2, W2) = (R3, W3)" by fastforce
  from tw 1 2 3 have 4: "five_steps F K (t + 15) (R3, W3) = (R', W')" by simp
  have upt: "[t..<t+20] = [t..<t+5] @ [t+5..<t+5+5] @ [t+10..<t+10+5] @ [t+15..<t+15+5]"
    by (simp add: upt_rec)
  from five [OF _ _ _ inv 1] ok have a1: "sched_inv (fips_schedule M 64) (t + 5) W1"
    and b1: "ureg R1 = fold (fips_step (fips_schedule M 64)) [t..<t+5] (ureg R)"
    by (auto simp: add_ac)
  from five [OF _ _ _ a1 2] ok have a2: "sched_inv (fips_schedule M 64) (t + 10) W2"
    and b2: "ureg R2 = fold (fips_step (fips_schedule M 64)) [t+5..<t+5+5] (ureg R1)"
    by (auto simp: add_ac)
  from five [OF _ _ _ a2 3] ok have a3: "sched_inv (fips_schedule M 64) (t + 15) W3"
    and b3: "ureg R3 = fold (fips_step (fips_schedule M 64)) [t+10..<t+10+5] (ureg R2)"
    by (auto simp: add_ac)
  from five [OF _ _ _ a3 4] ok have a4: "sched_inv (fips_schedule M 64) (t + 20) W'"
    and b4: "ureg R' = fold (fips_step (fips_schedule M 64)) [t+15..<t+15+5] (ureg R3)"
    by (auto simp: add_ac)
  show ?thesis
    unfolding upt using a4 by (simp add: b1 b2 b3 b4)
qed



lemma rounds_ok_I: "rounds_ok (\<lambda>x y z. z XOR (x AND (y XOR z))) (0x5A827999 :: 'w::len word) 0 20"
  and rounds_ok_II: "rounds_ok (\<lambda>x y z. x XOR y XOR z) (0x6ED9EBA1 :: 'w word) 20 40"
  and rounds_ok_III: "rounds_ok (\<lambda>x y z. (x AND y) OR (z AND (x OR y))) (0x8F1BBCDC :: 'w word) 40 60"
  and rounds_ok_IV: "rounds_ok (\<lambda>x y z. x XOR y XOR z) (0xCA62C1D6 :: 'w word) 60 80"
  if "32 \<le> LENGTH('w)"
  unfolding rounds_ok_def fips_f_def fips_K_def using that
  by (intro allI impI conjI bit_word_eqI; auto simp: bit_ucast_word bit_simps)+

text \<open>The hash words of a context as registers of the standard.\<close>

definition regs32 :: "'w::len word list \<Rightarrow> 32 regs" where
  "regs32 v = (ucast (v ! 0), ucast (v ! 1), ucast (v ! 2), ucast (v ! 3), ucast (v ! 4))"

lemma sched_inv_load:
  assumes "32 \<le> LENGTH('w::len)"
  shows "sched_inv (fips_schedule (map (be_word blk) [0..<16]) 64) 0 (load_W blk :: 'w word list)"
  using assms by (simp add: sched_inv_def load_W_def concat_be fips_schedule_first)

lemma round_I_fips:
  assumes "32 \<le> LENGTH('w::len)" "length M = 16" "sched_inv (fips_schedule M 64) 0 W"
    and "round_I (R, W :: 'w word list) = (R', W')"
  shows "ureg R' = fold (fips_step (fips_schedule M 64)) [0..<20] (ureg R)
       \<and> sched_inv (fips_schedule M 64) 20 W'"
  using twenty_steps_fips [OF assms(1,2), of "\<lambda>x y z. z XOR (x AND (y XOR z))" "0x5A827999" 0 W R R' W'] rounds_ok_I [OF assms(1)] assms(3,4)
  by (simp add: round_I_def Let_def)

lemma round_II_fips:
  assumes "32 \<le> LENGTH('w::len)" "length M = 16" "sched_inv (fips_schedule M 64) 20 W"
    and "round_II (R, W :: 'w word list) = (R', W')"
  shows "ureg R' = fold (fips_step (fips_schedule M 64)) [20..<40] (ureg R)
       \<and> sched_inv (fips_schedule M 64) 40 W'"
  using twenty_steps_fips [OF assms(1,2), of "\<lambda>x y z. x XOR y XOR z" "0x6ED9EBA1" 20 W R R' W'] rounds_ok_II [OF assms(1)] assms(3,4)
  by (simp add: round_II_def Let_def)

lemma round_III_fips:
  assumes "32 \<le> LENGTH('w::len)" "length M = 16" "sched_inv (fips_schedule M 64) 40 W"
    and "round_III (R, W :: 'w word list) = (R', W')"
  shows "ureg R' = fold (fips_step (fips_schedule M 64)) [40..<60] (ureg R)
       \<and> sched_inv (fips_schedule M 64) 60 W'"
  using twenty_steps_fips [OF assms(1,2), of "\<lambda>x y z. (x AND y) OR (z AND (x OR y))" "0x8F1BBCDC" 40 W R R' W'] rounds_ok_III [OF assms(1)] assms(3,4)
  by (simp add: round_III_def Let_def)

lemma round_IV_fips:
  assumes "32 \<le> LENGTH('w::len)" "length M = 16" "sched_inv (fips_schedule M 64) 60 W"
    and "round_IV (R, W :: 'w word list) = (R', W')"
  shows "ureg R' = fold (fips_step (fips_schedule M 64)) [60..<80] (ureg R)
       \<and> sched_inv (fips_schedule M 64) 80 W'"
  using twenty_steps_fips [OF assms(1,2), of "\<lambda>x y z. x XOR y XOR z" "0xCA62C1D6" 60 W R R' W'] rounds_ok_IV [OF assms(1)] assms(3,4)
  by (simp add: round_IV_def Let_def)

lemma sha1_process_fips:
  assumes w: "32 \<le> LENGTH('w::len)" and blk: "64 \<le> length blk"
  obtains v where "sha1_process (c :: 'w sha1_context) blk = Some (c\<lparr>vector := v\<rparr>)"
    and "length v = 5" and "regs32 v = fips_compress (regs32 (vector c)) blk"
proof -
  let ?M = "map (be_word blk) [0..<16]" and ?v = "vector c"
  let ?S = "fips_schedule ?M 64" and ?R = "(?v ! 0, ?v ! 1, ?v ! 2, ?v ! 3, ?v ! 4)"
  have M: "length ?M = 16" by simp
  obtain R1 W1 where 1: "round_I (?R, load_W blk) = (R1, W1)" by fastforce
  obtain R2 W2 where 2: "round_II (R1, W1) = (R2, W2)" by fastforce
  obtain R3 W3 where 3: "round_III (R2, W2) = (R3, W3)" by fastforce
  obtain A B C D E W4 where 4: "round_IV (R3, W3) = ((A, B, C, D, E), W4)"
    by (metis prod_cases5 prod.exhaust)
  note r1 = round_I_fips [OF w M sched_inv_load [OF w] 1]
  note r2 = round_II_fips [OF w M r1 [THEN conjunct2] 2]
  note r3 = round_III_fips [OF w M r2 [THEN conjunct2] 3]
  note r4 = round_IV_fips [OF w M r3 [THEN conjunct2] 4]
  have "[0..<80] = [0..<20] @ [20..<40] @ [40..<60] @ [60..<80]"
    by (simp add: upt_rec)
  with r1 r2 r3 r4 have all: "ureg (A, B, C, D, E) = fold (fips_step ?S) [0..<80] (ureg ?R)"
    by (simp only: fold_append o_apply)
  show thesis
  proof (rule that)
    show "sha1_process c blk = Some (c\<lparr>vector := [?v ! 0 + A, ?v ! 1 + B, ?v ! 2 + C, ?v ! 3 + D, ?v ! 4 + E]\<rparr>)"
      using blk 1 [simplified] by (simp add: sha1_process_def Let_def 2 3 4)
    show "regs32 [?v ! 0 + A, ?v ! 1 + B, ?v ! 2 + C, ?v ! 3 + D, ?v ! 4 + E] = fips_compress (regs32 ?v) blk"
      using w all [symmetric, unfolded ureg_def, simplified]
      by (simp add: fips_compress_def fips_add_def regs32_def ucast_add32)
  qed simp
qed


lemma sha1_blocks_fips:
  fixes c :: "'w::len sha1_context"
  assumes w: "32 \<le> LENGTH('w)" and len: "length (vector c) = 5"
  shows "\<exists>v. sha1_blocks c xs = Some (c\<lparr>vector := v\<rparr>, rest xs) \<and> length v = 5
       \<and> regs32 v = md_blocks fips_compress (regs32 (vector c)) xs"
  using len
proof (induction c xs rule: sha1_blocks.induct)
  case (1 c xs)
  show ?case
  proof (cases "64 \<le> length xs")
    case True
    obtain v where v: "sha1_process c (take 64 xs) = Some (c\<lparr>vector := v\<rparr>)" "length v = 5"
      "regs32 v = fips_compress (regs32 (vector c)) (take 64 xs)"
      using sha1_process_fips [OF w, of "take 64 xs" c] True by auto
    have split: "md_blocks fips_compress h xs = md_blocks fips_compress (fips_compress h (take 64 xs)) (drop 64 xs)"
      "rest (drop 64 xs) = rest xs" for h
      using md_blocks_block [of "take 64 xs" fips_compress h "drop 64 xs"]
        whole_append_dvd(2) [of "take 64 xs" "drop 64 xs"] True by simp_all
    show ?thesis
      using "1.IH" [OF True v(1)] True v by (simp add: sha1_blocks.simps [of c xs] split)
  next
    case False
    then show ?thesis
      using "1.prems" by (auto simp: sha1_blocks.simps [of c xs] intro!: exI [of _ "vector c"])
  qed
qed

text \<open>\<open>c\<close> has consumed the message \<open>msg\<close>.\<close>

definition sha1_repr :: "'w::len sha1_context \<Rightarrow> u8 list \<Rightarrow> bool" where
  "sha1_repr c msg \<longleftrightarrow>
     length (vector c) = 5 \<and> length (buffer c) = 64
     \<and> regs32 (vector c) = md_blocks fips_compress fips_H0 msg
     \<and> take (length msg mod 64) (buffer c) = rest msg
     \<and> unat (total_bytes_Lo c) = length msg mod 2 ^ 32
     \<and> ucast (total_bytes_Hi c) = (of_nat (length msg div 2 ^ 32) :: u32)"

lemma carry_iff:
  fixes a b :: nat
  assumes "a < 2 ^ 32" "b < 2 ^ 32"
  shows "(a + b) mod 2 ^ 32 < b \<longleftrightarrow> 2 ^ 32 \<le> a + b"
  using assms by (auto simp: mod_if)

lemma counter_step:
  fixes c :: "'w::len sha1_context"
  assumes w: "32 \<le> LENGTH('w)" and n: "unat n < 2 ^ 32"
    and lo: "unat (total_bytes_Lo c) = k mod 2 ^ 32"
    and hi: "ucast (total_bytes_Hi c) = (of_nat (k div 2 ^ 32) :: u32)"
  defines "lo' \<equiv> (total_bytes_Lo c + n) AND 0xFFFFFFFF"
  defines "hi' \<equiv> (if lo' < n then total_bytes_Hi c + 1 else total_bytes_Hi c)"
  shows "unat lo' = (k + unat n) mod 2 ^ 32"
    and "ucast hi' = (of_nat ((k + unat n) div 2 ^ 32) :: u32)"
proof -
  show lo'': "unat lo' = (k + unat n) mod 2 ^ 32"
    unfolding lo'_def using w lo by (simp add: unat_add_mask32 mod_simps)
  have c: "lo' < n \<longleftrightarrow> 2 ^ 32 \<le> k mod 2 ^ 32 + unat n"
    unfolding word_less_nat_alt lo'' using carry_iff [of "k mod 2 ^ 32" "unat n"] n by (simp add: mod_simps)
  have d: "(k + unat n) div 2 ^ 32 = k div 2 ^ 32 + (if 2 ^ 32 \<le> k mod 2 ^ 32 + unat n then 1 else 0)"
    using n by (rule div_carry)
  show "ucast hi' = (of_nat ((k + unat n) div 2 ^ 32) :: u32)"
    unfolding hi'_def c d using hi w by (simp add: ucast_add32)
qed


lemma sha1_update_tail:
  fixes c :: "'w::len sha1_context"
  assumes w: "32 \<le> LENGTH('w)" and vec: "length (vector c) = 5" and buf: "length (buffer c) = 64"
    and q: "take (length q) (buffer c) = q" and short: "q = [] \<or> length (q @ ys) < 64"
  shows "\<exists>v b. (do { (c3, zs) \<leftarrow> sha1_blocks c ys;
                     b \<leftarrow> copy_loop (buffer c3) (length q) zs 0 (length zs);
                     Some (0 :: int, Some (c3\<lparr>buffer := b\<rparr>)) })
       = Some (0, Some (c\<lparr>vector := v, buffer := b\<rparr>)) \<and> length v = 5 \<and> length b = 64
       \<and> regs32 v = md_blocks fips_compress (regs32 (vector c)) (q @ ys)
       \<and> take (length (q @ ys) mod 64) b = rest (q @ ys)"
proof -
  obtain v where v: "sha1_blocks c ys = Some (c\<lparr>vector := v\<rparr>, rest ys)" "length v = 5"
    "regs32 v = md_blocks fips_compress (regs32 (vector c)) ys"
    using sha1_blocks_fips [OF w vec] by blast
  have room: "length q + length (rest ys) \<le> 64" using short by auto
  define b where "b = overlay (buffer c) (length q) (rest ys)"
  have cp: "copy_loop (buffer c) (length q) (rest ys) 0 (length (rest ys)) = Some b"
    using copy_loop_overlay [of 0 "length (rest ys)" "rest ys" "length q" "buffer c"] room buf
    by (simp add: b_def)
  have tb: "take (length q + length (rest ys)) b = q @ rest ys" and lb: "length b = 64"
    using room buf q by (simp_all add: b_def take_overlay_same del: length_rest)
  from short have "md_blocks fips_compress h (q @ ys) = md_blocks fips_compress h ys"
    and "rest (q @ ys) = q @ rest ys" for h by auto
  moreover from this(2) have "length (q @ ys) mod 64 = length q + length (rest ys)"
    by (metis length_append length_rest)
  ultimately show ?thesis
    using v cp tb lb by auto
qed

text \<open>
  The state after the counters are advanced, and the rest of \<open>sha1_update\<close> from it, with
  \<open>l\<close> bytes in the buffer and the chunk \<open>xs\<close> to absorb.
\<close>

definition advance :: "'w::len sha1_context \<Rightarrow> 'w word \<Rightarrow> 'w sha1_context" where
  "advance c n =
     (let lo = (total_bytes_Lo c + n) AND 0xFFFFFFFF
      in c\<lparr>total_bytes_Lo := lo,
           total_bytes_Hi := (if lo < n then total_bytes_Hi c + 1 else total_bytes_Hi c)\<rparr>)"

definition absorb :: "'w::len sha1_context \<Rightarrow> nat \<Rightarrow> u8 list \<Rightarrow> (int \<times> 'w sha1_context option) option" where
  "absorb c l xs = do {
      (c2, ys, left2) \<leftarrow>
         (if 0 < l \<and> 64 - l \<le> length xs
          then do { b \<leftarrow> copy_loop (buffer c) l xs 0 (64 - l);
                    c' \<leftarrow> sha1_process (c\<lparr>buffer := b\<rparr>) b;
                    Some (c', drop (64 - l) xs, 0) }
          else Some (c, xs, l));
      (c3, zs) \<leftarrow> sha1_blocks c2 ys;
      b \<leftarrow> copy_loop (buffer c3) left2 zs 0 (length zs);
      Some (0, Some (c3\<lparr>buffer := b\<rparr>)) }"

lemma sha1_update_absorb:
  assumes "0 < unat n" and "unat n \<le> length data"
  shows "sha1_update (Some c) (Some data) n
       = absorb (advance c n) (unat (total_bytes_Lo c AND 0x3F)) (take (unat n) data)"
proof -
  have "\<not> n < 1" using assms by (simp add: word_less_nat_alt)
  with assms show ?thesis by (simp add: sha1_update_def absorb_def advance_def Let_def)
qed

lemma absorb_fips:
  fixes c :: "'w::len sha1_context"
  assumes w: "32 \<le> LENGTH('w)" and vec: "length (vector c) = 5" and buf: "length (buffer c) = 64"
    and reg: "regs32 (vector c) = md_blocks fips_compress h msg"
    and l: "l = length msg mod 64" and tk: "take l (buffer c) = rest msg"
  shows "\<exists>v b. absorb c l xs = Some (0, Some (c\<lparr>vector := v, buffer := b\<rparr>)) \<and> length v = 5
       \<and> length b = 64 \<and> regs32 v = md_blocks fips_compress h (msg @ xs)
       \<and> take (length (msg @ xs) mod 64) b = rest (msg @ xs)"
proof (cases "0 < l \<and> 64 - l \<le> length xs")
  case True
  have l64: "l < 64" and lr: "length (rest msg) = l" by (simp_all add: l)
  let ?ys = "drop (64 - l) xs"
  define b where "b = rest msg @ take (64 - l) xs"
  have lb: "length b = 64" using True l64 lr by (simp add: b_def del: length_rest)
  have cp: "copy_loop (buffer c) l xs 0 (64 - l) = Some b"
    using True buf l64 tk copy_loop_overlay [of 0 "64 - l" xs l "buffer c"]
    by (simp add: b_def overlay_def)
  obtain v where v: "sha1_process (c\<lparr>buffer := b\<rparr>) b = Some (c\<lparr>buffer := b, vector := v\<rparr>)"
    "length v = 5" "regs32 v = fips_compress (regs32 (vector c)) b"
    using sha1_process_fips [OF w, of b "c\<lparr>buffer := b\<rparr>"] lb by auto
  have split: "rest msg @ xs = b @ ?ys" by (simp add: b_def)
  have r: "rest (msg @ xs) = rest ?ys"
    using whole_append_dvd(2) [of b ?ys] lb by (simp add: rest_rest_append [of msg xs] split)
  moreover have "md_blocks fips_compress h (msg @ xs) = md_blocks fips_compress (regs32 v) ?ys"
    by (simp add: md_blocks_rest_append [of _ _ msg xs] split md_blocks_block lb v(3) reg)
  moreover have "length (msg @ xs) mod 64 = length ?ys mod 64"
    using r by (metis length_rest)
  moreover note sha1_update_tail [OF w, of "c\<lparr>buffer := b, vector := v\<rparr>" "[]" ?ys]
  ultimately show ?thesis
    using True cp v lb by (fastforce simp: absorb_def)
next
  case False
  have l64: "l < 64" and lr: "length (rest msg) = l" by (simp_all add: l)
  from False have short: "rest msg = [] \<or> length (rest msg @ xs) < 64"
    using lr l64 by (auto simp del: length_rest simp flip: length_0_conv)
  have "absorb c l xs = do {
      (c3, zs) \<leftarrow> sha1_blocks c xs;
      b \<leftarrow> copy_loop (buffer c3) (length (rest msg)) zs 0 (length zs);
      Some (0, Some (c3\<lparr>buffer := b\<rparr>)) }"
    by (simp only: absorb_def if_not_P [OF False] lr) simp
  moreover have "length (msg @ xs) mod 64 = length (rest msg @ xs) mod 64"
    by (metis length_rest rest_rest_append)
  moreover have "take (length (rest msg)) (buffer c) = rest msg" using tk lr by simp
  note sha1_update_tail [OF w vec buf this short]
  ultimately show ?thesis
    by (simp add: md_blocks_rest_append [of _ _ msg xs] rest_rest_append [of msg xs] flip: reg)
qed

lemma sha1_update_fips:
  fixes c :: "'w::len sha1_context"
  assumes w: "32 \<le> LENGTH('w)" and r: "sha1_repr c msg"
    and n: "0 < unat n" "unat n < 2 ^ 32" "unat n \<le> length data"
  shows "\<exists>c'. sha1_update (Some c) (Some data) n = Some (0, Some c')
       \<and> sha1_repr c' (msg @ take (unat n) data)"
proof -
  define xs where "xs = take (unat n) data"
  have lxs: "length xs = unat n" using n by (simp add: xs_def)
  from r have cnt: "unat (total_bytes_Lo (advance c n)) = length (msg @ xs) mod 2 ^ 32"
    "ucast (total_bytes_Hi (advance c n)) = (of_nat (length (msg @ xs) div 2 ^ 32) :: u32)"
    using counter_step [OF w n(2), of c "length msg"]
    by (simp_all add: sha1_repr_def advance_def Let_def lxs)
  have left: "unat (total_bytes_Lo c AND 0x3F) = length msg mod 64"
    using r w by (simp add: sha1_repr_def unat_and_3F mod_mod_cancel)
  from r obtain v b where
    "absorb (advance c n) (length msg mod 64) xs = Some (0, Some ((advance c n)\<lparr>vector := v, buffer := b\<rparr>))"
    "length v = 5" "length b = 64" "regs32 v = md_blocks fips_compress fips_H0 (msg @ xs)"
    "take (length (msg @ xs) mod 64) b = rest (msg @ xs)"
    using absorb_fips [OF w, of "advance c n" fips_H0 msg "length msg mod 64" xs]
    by (auto simp: sha1_repr_def advance_def Let_def)
  with cnt show ?thesis
    using sha1_update_absorb [OF n(1,3), of c] by (simp add: left sha1_repr_def flip: xs_def)
qed

lemma ucast_eq_of_nat:
  assumes "unat (x :: 'w::len word) = k mod 2 ^ 32"
  shows "ucast x = (of_nat k :: u32)"
proof -
  have "ucast x = (of_nat (unat x) :: u32)" by simp
  also have "\<dots> = of_nat k"
    unfolding assms by (simp add: word_of_nat_eq_iff take_bit_nat_def)
  finally show ?thesis .
qed

lemma msglen_bytes:
  fixes lo hi :: "'w::len word"
  assumes w: "32 \<le> LENGTH('w)" and lo: "unat lo = k mod 2 ^ 32"
    and hi: "ucast hi = (of_nat (k div 2 ^ 32) :: u32)"
  shows "SPLIT_INTO_4_BYTES (drop_bit 29 lo OR push_bit 3 hi) @ SPLIT_INTO_4_BYTES (push_bit 3 lo)
    = be_bytes32 (drop_bit 32 (of_nat (8 * k) :: u64)) @ be_bytes32 (of_nat (8 * k) :: u64)"
proof -
  have blo: "bit lo j \<longleftrightarrow> j < 32 \<and> bit k j" for j
  proof -
    have "bit lo j \<longleftrightarrow> bit (unat lo) j" by (simp add: bit_unsigned_iff)
    also have "unat lo = take_bit 32 k" by (simp add: lo take_bit_nat_def)
    finally show ?thesis by (simp add: bit_take_bit_iff)
  qed
  have bhi: "bit hi (j - 3) \<longleftrightarrow> bit k (j + 29)" if "3 \<le> j" "j < 32" for j
  proof -
    have "bit (ucast hi :: u32) (j - 3) \<longleftrightarrow> bit (drop_bit 32 k) (j - 3)"
      unfolding hi using that by (auto simp: bit_of_nat_word drop_bit_nat_def)
    moreover have "32 + (j - 3) = j + 29" using that by simp
    ultimately show ?thesis using that by (simp add: bit_ucast_word bit_drop_bit_eq)
  qed
  define m where "m = 8 * k"
  have bm: "bit m j \<longleftrightarrow> 3 \<le> j \<and> bit k (j - 3)" for j
    using bit_push_bit_iff [of 3 k j] by (simp add: push_bit_nat_def mult.commute m_def)
  have "(ucast (drop_bit 29 lo OR push_bit 3 hi) :: u32) = ucast (drop_bit 32 (of_nat m :: u64))"
  proof (rule bit_word_eqI)
    fix n
    assume "n < LENGTH(32)"
    then have "n < 32" by simp
    with w show "bit (ucast (drop_bit 29 lo OR push_bit 3 hi) :: u32) n
        = bit (ucast (drop_bit 32 (of_nat m :: u64)) :: u32) n"
      by (cases "n < 3") (simp_all add: bit_ucast_word bit_simps blo bhi bm bit_of_nat_word add.commute)
  qed
  moreover have "(ucast (push_bit 3 lo) :: u32) = ucast (of_nat m :: u64)"
    using w by (intro bit_word_eqI) (auto simp: bit_ucast_word bit_simps blo bm bit_of_nat_word)
  ultimately have "be_bytes32 (drop_bit 29 lo OR push_bit 3 hi) = be_bytes32 (drop_bit 32 (of_nat m :: u64))"
    and "be_bytes32 (push_bit 3 lo) = be_bytes32 (of_nat m :: u64)"
    using w by (simp_all add: be_bytes32_cong)
  then show ?thesis
    by (simp only: SPLIT_INTO_4_BYTES_def m_def flip: be_bytes32_def)
qed


lemma padn_nat:
  fixes x :: "'w::len word"
  assumes w: "32 \<le> LENGTH('w)" and x: "unat x < 64"
  shows "unat (if x < 56 then 56 - x else 120 - x) = Suc ((119 - unat x) mod 64)"
proof -
  note num = take_bit_num32 [OF w]
  have "unat (56 - x) = 56 - unat x" if "x < 56"
    using that by (simp add: unat_sub word_less_nat_alt word_le_nat_alt num)
  moreover have "unat (120 - x) = 120 - unat x"
    using x by (simp add: unat_sub word_le_nat_alt num)
  ultimately show ?thesis
    using x by (auto simp: word_less_nat_alt num mod_if)
qed

lemma sha1_finish_fips:
  fixes c :: "'w::len sha1_context"
  assumes w: "32 \<le> LENGTH('w)" and r: "sha1_repr c msg" and h: "5 \<le> length h"
  shows "\<exists>c' h'. sha1_finish (Some c) (Some h) = Some (0, Some c', h') \<and> length h' = length h
       \<and> map ucast (take 5 h') = fips_sha1 msg"
proof -
  define l where "l = total_bytes_Lo c AND 0x3F"
  define padn where "padn = (if l < 56 then 56 - l else 120 - l)"
  define z where "z = (119 - length msg mod 64) mod 64"
  define bits where "bits = (of_nat (8 * length msg) :: u64)"
  let ?len = "be_bytes32 (drop_bit 32 bits) @ be_bytes32 bits"
  have l: "unat l = length msg mod 64"
    using r w by (simp add: sha1_repr_def unat_and_3F l_def mod_mod_cancel)
  have pn: "unat padn = Suc z"
    using padn_nat [OF w, of l] l by (simp add: padn_def z_def)
  have z: "z < 64" by (simp add: z_def)
  have pad: "take (Suc z) sha1_padding = 0x80 # replicate z 0"
    using z by (simp add: sha1_padding_def)
  have msglen: "SPLIT_INTO_4_BYTES (drop_bit 29 (total_bytes_Lo c) OR push_bit 3 (total_bytes_Hi c))
      @ SPLIT_INTO_4_BYTES (push_bit 3 (total_bytes_Lo c)) = ?len"
    using msglen_bytes [OF w] r by (simp add: sha1_repr_def bits_def)
  obtain c1 where c1: "sha1_update (Some c) (Some sha1_padding) padn = Some (0, Some c1)"
    "sha1_repr c1 (msg @ 0x80 # replicate z 0)"
    using sha1_update_fips [OF w r, of padn sha1_padding] z by (auto simp: pn pad sha1_padding_def)
  have u8: "unat (8 :: 'w word) = 8" using w by (simp add: take_bit_num32)
  obtain c2 where c2: "sha1_update (Some c1) (Some ?len) 8 = Some (0, Some c2)"
    "sha1_repr c2 (fips_pad msg)"
    using sha1_update_fips [OF w c1(2), of 8 ?len, unfolded u8]
    by (auto simp: fips_pad_def Let_def bits_def z_def)
  have v2: "length (vector c2) = 5" "regs32 (vector c2) = md_blocks fips_compress fips_H0 (fips_pad msg)"
    using c2(2) by (auto simp: sha1_repr_def)
  let ?h' = "overlay h 0 (vector c2)"
  have "copy_loop h 0 (vector c2) 0 5 = Some ?h'"
    using copy_loop_overlay [of 0 5 "vector c2" 0 h] v2 h by simp
  then have fin: "sha1_finish (Some c) (Some h) = Some (0, Some c2, ?h')"
    using c1(1) c2(1) by (simp add: sha1_finish_def Let_def msglen flip: l_def padn_def)
  moreover have "map ucast (take 5 ?h') = fips_sha1 msg"
  proof -
    have "vector c2 = map ((!) (vector c2)) [0..<5]" using v2 by (metis map_nth)
    then have "take 5 ?h' = map ((!) (vector c2)) [0..<5]"
      using v2 by (simp add: overlay_def)
    then show ?thesis
      by (simp add: fips_sha1_def upt_rec flip: v2(2)) (simp add: regs32_def numeral_eq_Suc)
  qed
  ultimately show ?thesis using h v2 by auto
qed

section \<open>The streaming contract\<close>

text \<open>One chunk through \<open>sha1_update\<close>, and the hash array that \<open>sha1_finish\<close> fills.\<close>

definition sha1_absorb :: "'w::len sha1_context \<Rightarrow> u8 list \<Rightarrow> 'w sha1_context option" where
  "sha1_absorb c xs = do { (_, c') \<leftarrow> sha1_update (Some c) (Some xs) (of_nat (length xs)); c' }"

definition sha1_digest :: "'w::len sha1_context \<Rightarrow> 'w word list option" where
  "sha1_digest c = do { (_, _, h) \<leftarrow> sha1_finish (Some c) (Some (replicate 5 0)); Some h }"

lemma sha1_absorb_repr:
  fixes c :: "'w::len sha1_context"
  assumes "32 \<le> LENGTH('w)" and "sha1_repr c m" and "xs \<noteq> []" and "length xs < 2 ^ 32"
  shows "\<exists>c'. sha1_absorb c xs = Some c' \<and> sha1_repr c' (m @ xs)"
  using sha1_update_fips [OF assms(1,2), of "of_nat (length xs)" xs] assms
  by (auto simp: sha1_absorb_def unat_of_nat_below simp flip: length_greater_0_conv)

lemma sha1_digest_fips:
  fixes c :: "'w::len sha1_context"
  assumes "32 \<le> LENGTH('w)" and "sha1_repr c m"
  shows "map_option (map ucast) (sha1_digest c) = Some (fips_sha1 m)"
  using sha1_finish_fips [OF assms, of "replicate 5 0"] by (auto simp: sha1_digest_def)

lemma sha1_init_repr:
  assumes "32 \<le> LENGTH('w::len)" and "length (buffer c) = 64"
  shows "\<exists>c'. sha1_init (Some (c :: 'w sha1_context)) = (0, Some c') \<and> sha1_repr c' []"
proof -
  have "(ucast (numeral k :: 'w word) :: u32) = numeral k" for k
    using assms(1) by (intro bit_word_eqI) (auto simp: bit_ucast_word bit_simps)
  with assms(2) show ?thesis
    by (simp add: sha1_init_def sha1_repr_def regs32_def fips_H0_def)
qed

interpretation sha1_ilp32: stream_hash "sha1_repr :: 32 sha1_context \<Rightarrow> u8 list \<Rightarrow> bool"
    sha1_absorb sha1_digest fips_sha1 "2 ^ 32"
proof
  show "sha1_digest c = Some (fips_sha1 m)" if "sha1_repr c m" for c :: "32 sha1_context" and m
  proof -
    have id: "(ucast :: u32 \<Rightarrow> u32) = id" by (simp add: fun_eq_iff)
    show ?thesis using sha1_digest_fips [OF _ that] by (auto simp: id)
  qed
qed (simp add: sha1_absorb_repr)

interpretation sha1_lp64: stream_hash "sha1_repr :: 64 sha1_context \<Rightarrow> u8 list \<Rightarrow> bool"
    sha1_absorb "\<lambda>c. map_option (map ucast) (sha1_digest c)" fips_sha1 "2 ^ 32"
  by unfold_locales (simp_all add: sha1_absorb_repr sha1_digest_fips)

text \<open>A whole run: initialise, absorb the chunks, finish.\<close>

definition sha1_run :: "'w::len sha1_context \<Rightarrow> u8 list list \<Rightarrow> 'w word list option" where
  "sha1_run c0 chunks = do { c \<leftarrow> snd (sha1_init (Some c0)); c' \<leftarrow> feed sha1_absorb c chunks; sha1_digest c' }"

text \<open>
  C1. In stage 2, initialising a context, absorbing any sequence of non-empty chunks and
  finishing yields the FIPS 180-1 hash of the concatenated chunks, however the message is cut
  and whatever the uninitialised context held before; no array is accessed out of bounds.
\<close>

theorem sha1_stage2_fips:
  assumes "length (buffer c0) = 64"
    and "list_all (\<lambda>xs. xs \<noteq> [] \<and> length xs < 2 ^ 32) chunks"
  shows "sha1_run (c0 :: 32 sha1_context) chunks = Some (fips_sha1 (concat chunks))"
proof -
  obtain c where "sha1_init (Some c0) = (0, Some c)" and "sha1_repr c []"
    using sha1_init_repr [of c0] assms(1) by auto
  with sha1_ilp32.feed_fin [of c "[]" chunks] assms(2) show ?thesis
    by (simp add: sha1_run_def list_all_iff)
qed

lemma sha1_stage2_fips_witness:
  "sha1_run \<lparr>total_bytes_Hi = 9, total_bytes_Lo = 9, vector = [], buffer = replicate 64 7\<rparr> [[0x61, 0x62], [0x63]]
     = Some (fips_sha1 [0x61, 0x62, 0x63])"
  using sha1_stage2_fips
    [of "\<lparr>total_bytes_Hi = 9, total_bytes_Lo = 9, vector = [], buffer = replicate 64 7\<rparr>" "[[0x61, 0x62], [0x63]]"]
  by simp

text \<open>
  A call of \<open>sha1_update\<close> without data (a null pointer or length zero) fails with \<open>-1\<close>
  and leaves the context as it was, and \<open>sha1_finish\<close> without a context fails with \<open>-1\<close>
  after clearing the first hash word; but \<open>sha1_finish\<close> with a null result pointer stores
  through that pointer instead of reporting the error.
\<close>

theorem sha1_error_paths:
  "sha1_init (None :: 'w::len sha1_context option) = (-1, None)
   \<and> sha1_update ctx None n = Some (-1, ctx)
   \<and> sha1_update ctx data (0 :: 'w word) = Some (-1, ctx)
   \<and> sha1_update None data n = Some (-1, None)
   \<and> sha1_finish None (Some (h # hs)) = Some (-1, None, 0 # hs)
   \<and> sha1_finish ctx None = None"
  by (cases ctx; cases data; simp add: sha1_init_def sha1_update_def sha1_finish_def)

end
