(* ===== verification/Measure.thy ===== *)
theory Measure
  imports Sha1_Fips
begin

text \<open>
  The measurement code of TrustedGRUB: \<open>update_pcr\<close> of \<^verbatim>\<open>stage2/boot.c\<close>, which builds the
  TPM command that extends a platform configuration register, the measurement of command lines
  (\<^verbatim>\<open>stage2/cmdline.c\<close>), and the host utilities \<^verbatim>\<open>util/verify_pcr.c\<close> and
  \<^verbatim>\<open>util/create_sha1.c\<close> that recompute the same values from the files.

  The TCG BIOS and the TPM behind it are not code of the repository: they are the parameter
  \<open>int1a\<close> of the model, which maps the memory of the TCG segment and the state of the TPM at
  the interrupt to the memory and the state after it.
\<close>

section \<open>The TCG segment and \<open>update_pcr\<close>\<close>

text \<open>Memory of the segment at \<open>TCG_BUFFER_ADDR\<close>, by offset.\<close>

type_synonym tcg_mem = "nat \<Rightarrow> u8"

primrec poke :: "tcg_mem \<Rightarrow> nat \<Rightarrow> u8 list \<Rightarrow> tcg_mem" where
  "poke m a [] = m"
| "poke m a (b # bs) = poke (m(a := b)) (Suc a) bs"

definition peek :: "tcg_mem \<Rightarrow> nat \<Rightarrow> nat \<Rightarrow> u8 list" where
  "peek m a n = map m [a..<a + n]"

type_synonym 'tpm bios = "tcg_mem \<Rightarrow> 'tpm \<Rightarrow> tcg_mem \<times> 'tpm"

text \<open>
  \<open>update_pcr\<close>: the registers 8 to 15 are accepted; the input parameter block and the TPM
  command are written from offset \<open>0xF012\<close> on, then the interrupt is called. The result of the
  TPM is not looked at.
\<close>

primrec store_hash :: "tcg_mem \<Rightarrow> nat \<Rightarrow> u32 list \<Rightarrow> tcg_mem" where
  "store_hash m i [] = m"
| "store_hash m i (h # hs) =
     store_hash (m(0xF028 + 0 + 4 * i := ucast (drop_bit 24 h AND 0xff),
                   0xF028 + 1 + 4 * i := ucast (drop_bit 16 h AND 0xff),
                   0xF028 + 2 + 4 * i := ucast (drop_bit 8 h AND 0xff),
                   0xF028 + 3 + 4 * i := ucast (h AND 0xff))) (Suc i) hs"

definition update_pcr :: "'tpm bios \<Rightarrow> u8 \<Rightarrow> u32 list \<Rightarrow> tcg_mem \<times> 'tpm \<Rightarrow> int \<times> tcg_mem \<times> 'tpm" where
  "update_pcr int1a pcr hash_result s =
     (let (m, tpm) = s
      in if pcr < 8 \<or> 15 < pcr then (-1, m, tpm)
         else
           let m1 = poke m 0xF012
                 [0x2a, 0x0, 0x0, 0x0, 0x22, 0x0, 0x0, 0x0,
                  0x0, 0xc1, 0x0, 0x0, 0x0, 0x22, 0x0, 0x0, 0x0, 0x14,
                  0, 0, 0, pcr];
               m2 = store_hash m1 0 (take 5 hash_result)
           in (0, int1a m2 tpm))"

text \<open>\<open>extend_cmdline_into_pcr\<close>, where \<open>tpm_present\<close> returns 0 when there is a TPM.\<close>

definition PCR_CMDLINE :: u8 where "PCR_CMDLINE = 12"
definition PCR_CHECKFILE :: u8 where "PCR_CHECKFILE = 13"
definition PCR_KERNEL :: u8 where "PCR_KERNEL = 14"

definition extend_cmdline_into_pcr ::
    "'tpm bios \<Rightarrow> u32 \<Rightarrow> 32 sha1_context \<Rightarrow> u8 list \<Rightarrow> tcg_mem \<times> 'tpm \<Rightarrow> (tcg_mem \<times> 'tpm) option" where
  "extend_cmdline_into_pcr int1a tpm_present cmdline_sha1 grub_cmdline s =
     do { c \<leftarrow> snd (sha1_init (Some cmdline_sha1));
          (_, c1) \<leftarrow> sha1_update (Some c) (Some grub_cmdline) (of_nat (length grub_cmdline));
          (_, _, hash_result) \<leftarrow> sha1_finish c1 (Some (replicate 5 0));
          Some (if tpm_present = 0 then snd (update_pcr int1a PCR_CMDLINE hash_result s) else s) }"

section \<open>The utilities\<close>

text \<open>
  \<open>calculate_sha1\<close> of \<^verbatim>\<open>util/sha1.c\<close>. The files of the host are the parameter
  \<open>files\<close>; \<open>read\<close> on a regular file delivers the bytes it is asked for, up to the end. The
  file size is the \<open>int\<close> that the \<open>off_t\<close> of \<open>stat\<close> is assigned to.
\<close>

definition UTIL_TCG_BUFFER_SIZE :: nat where "UTIL_TCG_BUFFER_SIZE = 0xEFFF"

type_synonym host_files = "string \<Rightarrow> u8 list option"

text \<open>\<open>read (fd, buf, n)\<close>: the new buffer and the rest of the file.\<close>

definition host_read :: "u8 list \<Rightarrow> u8 list \<Rightarrow> nat \<Rightarrow> u8 list \<times> u8 list" where
  "host_read fd buf n = (overlay buf 0 (take n fd), drop n fd)"

text \<open>The loop over full buffers; \<open>Inl\<close> is the early return of an error code.\<close>

function util_rounds :: "int \<Rightarrow> u8 list \<Rightarrow> u8 list \<Rightarrow> 64 sha1_context option
    \<Rightarrow> (int + int \<times> u8 list \<times> 64 sha1_context option) option" where
  "util_rounds bytes_to_copy fd tcgbuffer ctx =
     (if int UTIL_TCG_BUFFER_SIZE < bytes_to_copy
      then
        let (tcgbuffer', fd') = host_read fd tcgbuffer UTIL_TCG_BUFFER_SIZE
        in case util_sha1_update ctx (Some tcgbuffer') (of_nat UTIL_TCG_BUFFER_SIZE) of
             None \<Rightarrow> None
           | Some (result, ctx') \<Rightarrow>
               if result \<noteq> 0 then Some (Inl (-1))
               else util_rounds (bytes_to_copy - int UTIL_TCG_BUFFER_SIZE) fd' tcgbuffer' ctx'
      else Some (Inr (bytes_to_copy, fd, ctx)))"
  by pat_completeness auto
termination
  by (relation "measure (\<lambda>(n, _). nat n)") (auto simp: UTIL_TCG_BUFFER_SIZE_def)

declare util_rounds.simps [simp del]

definition util_calculate_sha1 :: "host_files \<Rightarrow> 64 sha1_context \<Rightarrow> string \<Rightarrow> u64 list
    \<Rightarrow> (int \<times> u64 list) option" where
  "util_calculate_sha1 files my_sha1_context filename sha1_result =
     (case files filename of
        None \<Rightarrow> Some (-1, sha1_result)
      | Some content \<Rightarrow>
          let filesize = sint (of_nat (length content) :: u32);
              (result, ctx) = util_sha1_init (Some my_sha1_context)
          in if result \<noteq> 0 then Some (-1, sha1_result)
             else
               case util_rounds filesize content (replicate UTIL_TCG_BUFFER_SIZE 0) ctx of
                 None \<Rightarrow> None
               | Some (Inl e) \<Rightarrow> Some (e, sha1_result)
               | Some (Inr (bytes_to_copy, fd, ctx1)) \<Rightarrow>
                   let (tcgbuffer, fd') =
                         host_read fd (replicate UTIL_TCG_BUFFER_SIZE 0) (nat bytes_to_copy)
                   in do {
                        (result, ctx2) \<leftarrow> util_sha1_update ctx1 (Some tcgbuffer) (of_int bytes_to_copy);
                        if result \<noteq> 0 then Some (-1, sha1_result)
                        else do {
                          (result, _, sha1_result') \<leftarrow> util_sha1_finish ctx2 (Some sha1_result);
                          Some (if result \<noteq> 0 then -1 else 0, sha1_result') } })"

text \<open>\<open>main\<close> of \<^verbatim>\<open>create_sha1.c\<close>: the exit code and the words it prints with \<open>%08lx\<close>.\<close>

definition create_sha1_main :: "host_files \<Rightarrow> 64 sha1_context \<Rightarrow> u64 list \<Rightarrow> string list
    \<Rightarrow> (int \<times> u64 list) option" where
  "create_sha1_main files ctx hash_result argv =
     (if length argv = 1 then Some (-1, [])
      else do {
        (r, hash_result') \<leftarrow> util_calculate_sha1 files ctx (argv ! 1) hash_result;
        if r \<noteq> 0 then Some (-1, []) else Some (0, take 5 hash_result') })"

text \<open>The switch over one hexadecimal digit of \<^verbatim>\<open>verify_pcr.c\<close>.\<close>

definition hex_digit :: "char \<Rightarrow> u8 option" where
  "hex_digit = map_of (zip ''0123456789abcdef'' [0, 1, 2, 3, 4, 5, 6, 7, 8, 9, 0xa, 0xb, 0xc, 0xd, 0xe, 0xf])"

text \<open>
  The loop over the 40 digits: \<open>n\<close> digits are left. The string ends with a NUL, which is no
  digit, so a short string ends in the error branch before it is overrun.
\<close>

fun parse_pcr :: "nat \<Rightarrow> string \<Rightarrow> u8 list option" where
  "parse_pcr 0 s = Some []"
| "parse_pcr (Suc n) [] = None"
| "parse_pcr (Suc n) (c # s) =
     do { d \<leftarrow> hex_digit c; ds \<leftarrow> parse_pcr n s; Some (d # ds) }"

fun pair_digits :: "u8 list \<Rightarrow> u8 list" where
  "pair_digits (a # b # ds) = (push_bit 4 a OR b) # pair_digits ds"
| "pair_digits _ = []"

definition initial_pcr :: "string \<Rightarrow> u8 list option" where
  "initial_pcr arg =
     (if arg = ''NULL'' then Some (replicate 20 0) else map_option pair_digits (parse_pcr 40 arg))"

text \<open>The body of the loop over the files after the hash of the file is known.\<close>

definition hash_bytes :: "u64 list \<Rightarrow> u8 list" where
  "hash_bytes hash_result =
     concat (map (\<lambda>h. [ucast (drop_bit 24 h AND 0xff), ucast (drop_bit 16 h AND 0xff),
                        ucast (drop_bit 8 h AND 0xff), ucast (h AND 0xff)]) (take 5 hash_result))"

definition extend_pcr_step :: "64 sha1_context \<Rightarrow> u8 list \<Rightarrow> u64 list \<Rightarrow> (u8 list \<times> u64 list) option" where
  "extend_pcr_step my_sha1 pcr hash_result =
     (let pcr2 = pcr @ hash_bytes hash_result
      in do { c \<leftarrow> snd (util_sha1_init (Some my_sha1));
              (_, c1) \<leftarrow> util_sha1_update (Some c) (Some pcr2) 40;
              (_, _, hash_result') \<leftarrow> util_sha1_finish c1 (Some hash_result);
              Some (hash_bytes hash_result', hash_result') })"

primrec verify_files :: "host_files \<Rightarrow> 64 sha1_context \<Rightarrow> u8 list \<Rightarrow> u64 list \<Rightarrow> string list
    \<Rightarrow> (int \<times> u8 list) option" where
  "verify_files files my_sha1 pcr hash_result [] = Some (0, pcr)"
| "verify_files files my_sha1 pcr hash_result (f # fs) =
     do { (r, hash_result1) \<leftarrow> util_calculate_sha1 files my_sha1 f hash_result;
          if r \<noteq> 0 then Some (-1, pcr)
          else do { (pcr', hash_result2) \<leftarrow> extend_pcr_step my_sha1 pcr hash_result1;
                    verify_files files my_sha1 pcr' hash_result2 fs } }"

text \<open>
  \<open>main\<close> of \<^verbatim>\<open>verify_pcr.c\<close>: the exit code and, on success, the register it prints. Every
  file name is first checked with \<open>system ("test -e <name>")\<close>, the command cut to 1023
  characters; the shell is the parameter \<open>sh\<close>.
\<close>

definition verify_pcr_main :: "(string \<Rightarrow> int) \<Rightarrow> host_files \<Rightarrow> 64 sha1_context \<Rightarrow> u64 list
    \<Rightarrow> string list \<Rightarrow> (int \<times> u8 list option) option" where
  "verify_pcr_main sh files my_sha1 hash_result argv =
     (if length argv < 3 then Some (-1, None)
      else
        case initial_pcr (argv ! 1) of
          None \<Rightarrow> Some (-1, None)
        | Some pcr \<Rightarrow>
            if list_ex (\<lambda>f. sh (take 1023 (''test -e '' @ f)) \<noteq> 0) (drop 2 argv) then Some (-1, None)
            else do {
              (r, pcr') \<leftarrow> verify_files files my_sha1 pcr hash_result (drop 2 argv);
              Some (r, if r = 0 then Some pcr' else None) })"

section \<open>The contract of the TPM\<close>

text \<open>
  What the TPM specification promises of \<open>TPM_Extend\<close>: the register becomes the SHA-1 hash of
  its old value followed by the digest. The command is the input parameter block of
  \<open>TCG_PassThroughToTPM\<close>: the two lengths, the tag \<open>0x00c1\<close>, the command size, the ordinal
  \<open>0x14\<close>, the register and the digest, all of them big-endian.
\<close>

definition digest_bytes :: "'w::len word list \<Rightarrow> u8 list" where
  "digest_bytes hs = concat (map be_bytes32 hs)"

definition tpm_extend :: "u8 list \<Rightarrow> u8 list \<Rightarrow> u8 list" where
  "tpm_extend p d = digest_bytes (fips_sha1 (p @ d))"

definition extend_cmd :: "u8 \<Rightarrow> u8 list \<Rightarrow> u8 list" where
  "extend_cmd n d =
     [0x2a, 0, 0, 0, 0x22, 0, 0, 0] @ [0x00, 0xc1] @ be_bytes32 (0x22 :: u32) @ be_bytes32 (0x14 :: u32)
     @ be_bytes32 (ucast n :: u32) @ d"

lemma length_digest_bytes [simp]: "length (digest_bytes hs) = 4 * length hs"
  by (induction hs) (simp_all add: digest_bytes_def)

lemma length_fips_sha1 [simp]: "length (fips_sha1 m) = 5"
  by (simp add: fips_sha1_def split: prod.split)

lemma length_tpm_extend [simp]: "length (tpm_extend p d) = 20"
  by (simp add: tpm_extend_def)

lemma ucast_mask_byte: "(ucast (w AND 0xff :: 'w::len word) :: u8) = ucast w"
proof -
  have "w AND 0xff = take_bit 8 w" by (simp add: take_bit_eq_mask mask_eq_exp_minus_1)
  then show ?thesis by (auto intro!: bit_word_eqI simp: word_bits bit_take_bit_iff)
qed

lemma poke_above: "k < a \<Longrightarrow> poke m a bs k = m k"
  by (induction bs arbitrary: m a) auto

lemma peek_poke: "peek (poke m a bs) a (length bs) = bs"
proof (induction bs arbitrary: m a)
  case Nil
  then show ?case by (simp add: peek_def)
next
  case (Cons b bs)
  have "[a..<a + length (b # bs)] = a # [Suc a..<Suc a + length bs]"
    by (simp add: upt_conv_Cons del: upt_Suc)
  with Cons.IH [of "m(a := b)" "Suc a"] show ?case
    by (simp add: peek_def poke_above del: fun_upd_apply upt_Suc) simp
qed

lemma poke_append: "poke m a (xs @ ys) = poke (poke m a xs) (a + length xs) ys"
  by (induction xs arbitrary: m a) auto

lemma poke_four:
  "poke m a (b0 # b1 # b2 # b3 # bs) = poke (m(a := b0, a + 1 := b1, a + 2 := b2, a + 3 := b3)) (a + 4) bs"
  by (simp add: numeral_eq_Suc)

lemma store_hash_poke: "store_hash m i hs = poke m (0xF028 + 4 * i) (digest_bytes hs)"
proof (induction hs arbitrary: m i)
  case Nil
  then show ?case by (simp add: digest_bytes_def)
next
  case (Cons h hs)
  have bytes: "digest_bytes (h # hs) = ucast (drop_bit 24 h AND 0xff) # ucast (drop_bit 16 h AND 0xff)
      # ucast (drop_bit 8 h AND 0xff) # ucast (h AND 0xff) # digest_bytes hs"
    by (simp add: digest_bytes_def be_bytes32_def ucast_mask_byte)
  show ?case unfolding bytes poke_four by (simp add: Cons.IH add.commute del: fun_upd_apply)
qed

lemma update_pcr_command:
  assumes "8 \<le> n" "n \<le> 15" "length h = 5"
  shows "update_pcr int1a n h (m, t) = (0, int1a (poke m 0xF012 (extend_cmd n (digest_bytes h))) t)"
proof -
  have len: "\<not> bit n (24 + k)" "\<not> bit n (16 + k)" "\<not> bit n (8 + k)" for k
    using bit_imp_le_length [of n "24 + k"] bit_imp_le_length [of n "16 + k"]
      bit_imp_le_length [of n "8 + k"] by auto
  have n: "be_bytes32 (ucast n :: u32) = [0, 0, 0, n]"
    by (simp add: be_bytes32_def) (auto intro!: bit_word_eqI simp: word_bits bit_simps len)
  let ?hd = "[0x2a, 0, 0, 0, 0x22, 0, 0, 0] @ [0x00, 0xc1] @ be_bytes32 (0x22 :: u32) @ be_bytes32 (0x14 :: u32)
     @ be_bytes32 (ucast n :: u32)"
  have "poke m 0xF012 (extend_cmd n (digest_bytes h)) = poke (poke m 0xF012 ?hd) 0xF028 (digest_bytes h)"
    using poke_append [of m "0xF012" ?hd "digest_bytes h"] by (simp add: extend_cmd_def)
  moreover have "?hd = [0x2a, 0, 0, 0, 0x22, 0, 0, 0, 0, 0xc1, 0, 0, 0, 0x22, 0, 0, 0, 0x14, 0, 0, 0, n]"
    by (simp add: n) (simp add: be_bytes32_def)
  ultimately show ?thesis
    using assms by (simp add: update_pcr_def store_hash_poke word_less_nat_alt word_le_nat_alt)
qed

locale tcg_bios =
  fixes int1a :: "'tpm bios" and pcr :: "'tpm \<Rightarrow> u8 \<Rightarrow> u8 list"
  assumes pass_through_extend:
    "peek m 0xF012 42 = extend_cmd n d \<Longrightarrow> length d = 20
       \<Longrightarrow> pcr (snd (int1a m t)) = (pcr t)(n := tpm_extend (pcr t n) d)"
begin

lemma update_pcr_law:
  assumes "8 \<le> n" "n \<le> 15" "length h = 5"
  shows "fst (update_pcr int1a n h s) = 0"
    and "pcr (snd (snd (update_pcr int1a n h s)))
           = (pcr (snd s))(n := tpm_extend (pcr (snd s) n) (digest_bytes h))"
proof -
  let ?m = "poke (fst s) 0xF012 (extend_cmd n (digest_bytes h))"
  have "length (extend_cmd n (digest_bytes h)) = 42"
    using assms by (simp add: extend_cmd_def)
  with peek_poke [of "fst s" "0xF012" "extend_cmd n (digest_bytes h)"]
  have cmd: "peek ?m 0xF012 42 = extend_cmd n (digest_bytes h)" by simp
  from assms have up: "update_pcr int1a n h s = (0, int1a ?m (snd s))"
    using update_pcr_command [of n h int1a "fst s" "snd s"] by simp
  show "fst (update_pcr int1a n h s) = 0" by (simp add: up)
  show "pcr (snd (snd (update_pcr int1a n h s)))
           = (pcr (snd s))(n := tpm_extend (pcr (snd s) n) (digest_bytes h))"
    using pass_through_extend [OF cmd] assms by (simp add: up)
qed

lemma update_pcr_sequence:
  assumes "8 \<le> n" "n \<le> 15" "\<And>h. h \<in> set hs \<Longrightarrow> length h = 5"
  shows "pcr (snd (fold (\<lambda>h s. snd (update_pcr int1a n h s)) hs s))
       = (pcr (snd s))(n := fold (\<lambda>h p. tpm_extend p (digest_bytes h)) hs (pcr (snd s) n))"
  using assms(3)
proof (induction hs arbitrary: s)
  case Nil
  then show ?case by simp
next
  case (Cons h hs)
  from Cons.prems update_pcr_law(2) [OF assms(1,2), of h s] Cons.IH [of "snd (update_pcr int1a n h s)"]
  show ?case by (simp add: fun_upd_def) (auto simp: fun_eq_iff)
qed

end

section \<open>A TPM in software\<close>

text \<open>
  The interrupt served by the SHA-1 code of the repository: it decodes the command in memory and
  extends one of the registers. It shows that the contract can be met.
\<close>

type_synonym soft_pcrs = "u8 \<Rightarrow> u8 list"

definition blank_context :: "'w::len sha1_context" where
  "blank_context = \<lparr>total_bytes_Hi = 0, total_bytes_Lo = 0, vector = [], buffer = replicate 64 0\<rparr>"

definition soft_int1a :: "soft_pcrs bios" where
  "soft_int1a m t =
     (let n = m 0xF027; d = peek m 0xF028 20
      in if peek m 0xF012 42 = extend_cmd n d
         then case sha1_run (blank_context :: 32 sha1_context) [take 20 (t n) @ d] of
                Some h \<Rightarrow> (m, t(n := digest_bytes h)) | None \<Rightarrow> (m, t)
         else (m, t))"

definition soft_pcr :: "soft_pcrs \<Rightarrow> u8 \<Rightarrow> u8 list" where
  "soft_pcr t n = take 20 (t n)"

lemma soft_pcr_const: "soft_pcr (\<lambda>_. p) = (\<lambda>_. take 20 p)"
  by (simp add: soft_pcr_def fun_eq_iff)

lemma peek_append: "peek m a (k + l) = peek m a k @ peek m (a + k) l"
  using upt_add_eq_append [of a "a + k" l] by (simp add: peek_def add.assoc)

lemma length_peek [simp]: "length (peek m a k) = k"
  by (simp add: peek_def)

lemma soft_decode:
  assumes cmd: "peek m 0xF012 42 = extend_cmd n d" and d: "length d = 20"
  shows "m 0xF027 = n" and "peek m 0xF028 20 = d"
proof -
  have "peek m 0xF012 (22 + 20) = peek m 0xF012 22 @ peek m (0xF012 + 22) 20" by (rule peek_append)
  then have sp: "extend_cmd n d = peek m 0xF012 22 @ peek m 0xF028 20" using cmd by simp
  have "drop 22 (extend_cmd n d) = d" by (simp add: extend_cmd_def be_bytes32_def)
  with sp show "peek m 0xF028 20 = d" by simp
  have "m 0xF027 = peek m 0xF012 42 ! 21" by (simp add: peek_def)
  also have "\<dots> = ucast (ucast n :: u32)"
    unfolding cmd by (simp add: extend_cmd_def be_bytes32_def)
  finally show "m 0xF027 = n" by (auto intro!: bit_word_eqI simp: word_bits)
qed

lemma sha1_run_once:
  assumes "xs \<noteq> []" and "length xs < 2 ^ 32"
  shows "sha1_run (blank_context :: 32 sha1_context) [xs] = Some (fips_sha1 xs)"
proof -
  obtain c where "sha1_init (Some (blank_context :: 32 sha1_context)) = (0, Some c)" and "sha1_repr c []"
    using sha1_init_repr [of "blank_context :: 32 sha1_context"] by (auto simp: blank_context_def)
  with sha1_ilp32.feed_fin [of c "[]" "[xs]"] assms show ?thesis
    by (simp add: sha1_run_def)
qed

interpretation soft_tpm: tcg_bios soft_int1a soft_pcr
proof
  fix m n d t
  assume cmd: "peek m 0xF012 42 = extend_cmd n d" and d: "length d = 20"
  have "sha1_run (blank_context :: 32 sha1_context) [take 20 (t n) @ d] = Some (fips_sha1 (take 20 (t n) @ d))"
    using d by (intro sha1_run_once) auto
  with cmd soft_decode [OF cmd d]
  show "soft_pcr (snd (soft_int1a m t)) = (soft_pcr t)(n := tpm_extend (soft_pcr t n) d)"
    by (auto simp: soft_int1a_def soft_pcr_def tpm_extend_def fun_eq_iff)
qed

section \<open>What the boot loader measures\<close>

text \<open>
  C2. \<open>update_pcr\<close> with a register from 8 to 15 makes the TPM extend exactly that register by
  the five hash words, most significant byte first, and touches no other register.
\<close>

theorem update_pcr_extends:
  assumes "tcg_bios int1a pcr" and "8 \<le> n" and "n \<le> 15" and "length h = 5"
  shows "fst (update_pcr int1a n h s) = 0
    \<and> pcr (snd (snd (update_pcr int1a n h s)))
        = (pcr (snd s))(n := tpm_extend (pcr (snd s) n) (digest_bytes h))"
  using tcg_bios.update_pcr_law [OF assms] by simp

lemma update_pcr_extends_witness:
  "soft_pcr (snd (snd (update_pcr soft_int1a 14 [1, 2, 3, 4, 5] (\<lambda>_. 0, \<lambda>_. replicate 20 0)))) 14
     = tpm_extend (replicate 20 0) [0, 0, 0, 1, 0, 0, 0, 2, 0, 0, 0, 3, 0, 0, 0, 4, 0, 0, 0, 5]"
  using update_pcr_extends [OF soft_tpm.tcg_bios_axioms, of 14 "[1, 2, 3, 4, 5]" "(\<lambda>_. 0, \<lambda>_. replicate 20 0)"]
  by (simp add: soft_pcr_def digest_bytes_def be_bytes32_def)

text \<open>
  \<open>update_pcr\<close> refuses every register below 8, which belong to the BIOS, and above 15:
  it returns \<open>-1\<close> and neither writes to the TCG segment nor calls the BIOS.
\<close>

theorem update_pcr_rejects: "fst (update_pcr int1a n h s) = -1 \<and> snd (update_pcr int1a n h s) = s
    \<or> 8 \<le> n \<and> n \<le> 15"
  by (cases s) (auto simp: update_pcr_def not_less)

text \<open>
  The three calls that hash one buffer, \<open>sha1_init\<close>, \<open>sha1_update\<close> and \<open>sha1_finish\<close>, with
  the results of the first two ignored: an empty buffer is refused by \<open>sha1_update\<close>, which
  leaves the context alone, so that the hash is that of the empty message all the same.
\<close>

lemma hash_one_buffer:
  fixes c0 :: "'w::len sha1_context"
  assumes w: "32 \<le> LENGTH('w)" and buf: "length (buffer c0) = 64" and h: "5 \<le> length h"
    and xs: "length xs < 2 ^ 32"
  obtains c r c1 c2 h' where "sha1_init (Some c0) = (0, Some c)"
    and "sha1_update (Some c) (Some xs) (of_nat (length xs)) = Some (r, Some c1)"
    and "sha1_finish (Some c1) (Some h) = Some (0, Some c2, h')"
    and "length h' = length h" and "map ucast (take 5 h') = fips_sha1 xs"
proof -
  obtain c where c: "sha1_init (Some c0) = (0, Some c)" "sha1_repr c []"
    using sha1_init_repr [OF w buf] by auto
  have "\<exists>r c1. sha1_update (Some c) (Some xs) (of_nat (length xs)) = Some (r, Some c1) \<and> sha1_repr c1 xs"
  proof (cases "xs = []")
    case True
    with c(2) show ?thesis by (simp add: sha1_update_def)
  next
    case False
    with sha1_update_fips [OF w c(2), of "of_nat (length xs)" xs] xs w show ?thesis
      by (auto simp: unat_of_nat_below simp flip: length_greater_0_conv)
  qed
  then obtain r c1 where c1: "sha1_update (Some c) (Some xs) (of_nat (length xs)) = Some (r, Some c1)"
    "sha1_repr c1 xs" by auto
  from sha1_finish_fips [OF w c1(2) h] c(1) c1(1) that show ?thesis by blast
qed

lemma map_ucast_u32 [simp]: "map ucast (h :: u32 list) = h"
  by (simp add: map_idI)

lemma extend_cmdline_law:
  assumes "tcg_bios int1a pcr" and "length (buffer ctx) = 64" and "length cmdline < 2 ^ 32"
  shows "\<exists>s'. extend_cmdline_into_pcr int1a 0 ctx cmdline s = Some s'
    \<and> pcr (snd s') = (pcr (snd s))(12 := tpm_extend (pcr (snd s) 12) (digest_bytes (fips_sha1 cmdline)))"
proof -
  obtain c r c1 c2 h' where run: "sha1_init (Some ctx) = (0, Some c)"
    "sha1_update (Some c) (Some cmdline) (of_nat (length cmdline)) = Some (r, Some c1)"
    "sha1_finish (Some c1) (Some (replicate 5 0)) = Some (0, Some c2, h')"
    "length h' = length (replicate 5 (0 :: u32))" "map ucast (take 5 h') = fips_sha1 cmdline"
    by (rule hash_one_buffer [OF _ assms(2), of "replicate 5 0" cmdline])
      ((rule that, assumption+) | use assms(3) in simp)+
  with tcg_bios.update_pcr_law(2) [OF assms(1), of 12 h' s] show ?thesis
    by (simp add: extend_cmdline_into_pcr_def PCR_CMDLINE_def)
qed

text \<open>
  C3. Every command line, the empty one included, is measured into register 12, and only there:
  with a TPM present \<open>extend_cmdline_into_pcr\<close> extends that register by the SHA-1 hash of the
  characters of the command line, without their terminating NUL.
\<close>

theorem extend_cmdline_extends_12:
  assumes "tcg_bios int1a pcr" and "length (buffer ctx) = 64" and "length cmdline < 2 ^ 32"
  shows "\<exists>s'. extend_cmdline_into_pcr int1a 0 ctx cmdline s = Some s'
    \<and> pcr (snd s') = (pcr (snd s))(12 := tpm_extend (pcr (snd s) 12) (digest_bytes (fips_sha1 cmdline)))"
  by (rule extend_cmdline_law [OF assms])

lemma extend_cmdline_extends_12_witness:
  "\<exists>s'. extend_cmdline_into_pcr soft_int1a 0 blank_context [0x62, 0x6f, 0x6f, 0x74] (\<lambda>_. 0, \<lambda>_. replicate 20 0) = Some s'
    \<and> soft_pcr (snd s') 12 = tpm_extend (replicate 20 0) (digest_bytes (fips_sha1 [0x62, 0x6f, 0x6f, 0x74]))
    \<and> soft_pcr (snd s') 14 = replicate 20 0"
  using extend_cmdline_extends_12 [OF soft_tpm.tcg_bios_axioms, of blank_context "[0x62, 0x6f, 0x6f, 0x74]"
      "(\<lambda>_. 0, \<lambda>_. replicate 20 0)"]
  by (auto simp: soft_pcr_const blank_context_def)

section \<open>What the utilities compute\<close>

lemma util_rounds_repr:
  assumes "sha1_repr c msg"
  shows "\<exists>xs fd' c'. util_rounds (int (length fd)) fd buf (Some c)
           = Some (Inr (int (length fd'), fd', Some c'))
         \<and> fd = xs @ fd' \<and> sha1_repr c' (msg @ xs) \<and> length fd' \<le> UTIL_TCG_BUFFER_SIZE
         \<and> (fd \<noteq> [] \<longrightarrow> fd' \<noteq> [])"
  using assms
proof (induction "length fd" arbitrary: fd buf c msg rule: less_induct)
  case less
  let ?n = UTIL_TCG_BUFFER_SIZE
  show ?case
  proof (cases "?n < length fd")
    case False
    with less.prems show ?thesis by (intro exI [of _ "[]"] exI [of _ fd] exI [of _ c]) (auto simp: util_rounds.simps)
  next
    case True
    have n: "0 < ?n" "?n < 2 ^ 32" by (simp_all add: UTIL_TCG_BUFFER_SIZE_def)
    let ?b = "overlay buf 0 (take ?n fd)"
    have tk: "take ?n ?b = take ?n fd" "?n \<le> length ?b" using True by (simp_all add: overlay_def)
    obtain c1 where c1: "sha1_update (Some c) (Some ?b) (of_nat ?n) = Some (0, Some c1)"
      "sha1_repr c1 (msg @ take ?n fd)"
      using sha1_update_fips [OF _ less.prems, of "of_nat ?n" ?b] n tk by (auto simp: unat_of_nat_below)
    have lt: "length (drop ?n fd) < length fd" using True n by simp
    obtain xs fd' c' where rest: "util_rounds (int (length (drop ?n fd))) (drop ?n fd) ?b (Some c1)
        = Some (Inr (int (length fd'), fd', Some c'))" "drop ?n fd = xs @ fd'"
      "sha1_repr c' ((msg @ take ?n fd) @ xs)" "length fd' \<le> ?n" "drop ?n fd \<noteq> [] \<longrightarrow> fd' \<noteq> []"
      using less.hyps [OF lt c1(2), of ?b] by blast
    have "int (length fd) - int ?n = int (length (drop ?n fd))" using True by simp
    with True c1(1) rest(1) have "util_rounds (int (length fd)) fd buf (Some c)
        = Some (Inr (int (length fd'), fd', Some c'))"
      by (subst util_rounds.simps) (simp add: host_read_def util_sha1_update_def del: length_drop)
    moreover have "fd = (take ?n fd @ xs) @ fd'" using rest(2) by (metis append.assoc append_take_drop_id)
    moreover have "fd' \<noteq> []" using rest(5) True by simp
    ultimately show ?thesis using rest(3,4) by (metis append.assoc)
  qed
qed

lemma sint_small: "n < 2 ^ 31 \<Longrightarrow> sint (of_nat n :: u32) = int n"
  by (simp add: signed_of_nat signed_take_bit_int_eq_self)

lemma util_calculate_sha1_hash:
  assumes f: "files f = Some content" and ne: "content \<noteq> []" and len: "length content < 2 ^ 31"
    and buf: "length (buffer c0) = 64" and h: "5 \<le> length h"
  shows "\<exists>h'. util_calculate_sha1 files c0 f h = Some (0, h') \<and> length h' = length h
       \<and> map ucast (take 5 h') = fips_sha1 content"
proof -
  let ?n = UTIL_TCG_BUFFER_SIZE and ?z = "replicate UTIL_TCG_BUFFER_SIZE (0 :: u8)"
  obtain c where c: "sha1_init (Some c0) = (0, Some c)" "sha1_repr c []"
    using sha1_init_repr [OF _ buf] by auto
  obtain xs fd' c1 where r: "util_rounds (int (length content)) content ?z (Some c)
      = Some (Inr (int (length fd'), fd', Some c1))" "content = xs @ fd'" "sha1_repr c1 xs"
    "length fd' \<le> ?n" "fd' \<noteq> []"
    using util_rounds_repr [OF c(2), of content ?z] ne by (metis append_Nil)
  let ?b = "overlay ?z 0 fd'"
  have n: "?n < 2 ^ 32" by (simp add: UTIL_TCG_BUFFER_SIZE_def)
  have "length fd' < 2 ^ 32" using r(4) n by linarith
  moreover have "take (length fd') ?b = fd'" "length fd' \<le> length ?b" by (simp_all add: overlay_def)
  ultimately obtain c2 where c2: "sha1_update (Some c1) (Some ?b) (of_nat (length fd')) = Some (0, Some c2)"
    "sha1_repr c2 content"
    using sha1_update_fips [OF _ r(3), of "of_nat (length fd')" ?b] r(2,5)
    by (auto simp: unat_of_nat_below simp flip: length_greater_0_conv)
  obtain c3 h' where fin: "sha1_finish (Some c2) (Some h) = Some (0, Some c3, h')" "length h' = length h"
    "map ucast (take 5 h') = fips_sha1 content"
    using sha1_finish_fips [OF _ c2(2) h] by auto
  have "util_calculate_sha1 files c0 f h = Some (0, h')"
    using f c(1) r(1) c2(1) fin(1) sint_small [OF len]
    by (simp add: util_calculate_sha1_def util_sha1_init_def util_sha1_update_def util_sha1_finish_def host_read_def)
  with fin show ?thesis by blast
qed

text \<open>
  C18. \<open>calculate_sha1\<close> of the utilities, on a host with a 64-bit \<open>long\<close>, returns 0 with the
  FIPS 180-1 hash of the file in the low halves of the five words, for every non-empty file below
  2 GB, however many buffers it takes; a missing and an empty file are errors.
\<close>

theorem util_calculate_sha1_correct:
  assumes "length (buffer c0) = 64" and "5 \<le> length h"
    and "case files f of None \<Rightarrow> True | Some content \<Rightarrow> length content < 2 ^ 31"
  shows "case files f of
      Some content \<Rightarrow>
        (if content = [] then util_calculate_sha1 files c0 f h = Some (-1, h)
         else \<exists>h'. util_calculate_sha1 files c0 f h = Some (0, h') \<and> map ucast (take 5 h') = fips_sha1 content)
    | None \<Rightarrow> util_calculate_sha1 files c0 f h = Some (-1, h)"
proof (cases "files f")
  case None
  then show ?thesis by (simp add: util_calculate_sha1_def)
next
  case (Some content)
  then show ?thesis
    using util_calculate_sha1_hash [of files f content c0 h] assms
    by (auto simp: util_calculate_sha1_def util_sha1_init_def util_sha1_update_def sha1_init_def
        util_rounds.simps host_read_def sha1_update_def)
qed

lemma util_calculate_sha1_correct_witness:
  "\<exists>h'. util_calculate_sha1 (\<lambda>_. Some [0x61, 0x62, 0x63]) blank_context ''kernel'' (replicate 5 0) = Some (0, h')
     \<and> map ucast (take 5 h') = fips_sha1 [0x61, 0x62, 0x63]"
  using util_calculate_sha1_correct [of blank_context "replicate 5 0" "\<lambda>_. Some [0x61, 0x62, 0x63]" "''kernel''"]
  by (simp add: blank_context_def)

lemma hash_bytes_digest:
  assumes "length h = 5"
  shows "hash_bytes h = digest_bytes (map ucast h :: u32 list)"
proof -
  have "[ucast (drop_bit 24 w AND 0xff), ucast (drop_bit 16 w AND 0xff), ucast (drop_bit 8 w AND 0xff),
      ucast (w AND 0xff)] = be_bytes32 (ucast w :: u32)" for w :: u64
    using be_bytes32_ucast [of w] by (simp add: ucast_mask_byte be_bytes32_def)
  with assms show ?thesis by (simp add: hash_bytes_def digest_bytes_def comp_def)
qed

lemma extend_pcr_step_tpm:
  assumes "length (buffer c0) = 64" and "length h = 5" and "length p = 20"
  shows "\<exists>h'. extend_pcr_step c0 p h = Some (tpm_extend p (digest_bytes (map ucast h :: u32 list)), h') \<and> length h' = 5"
proof -
  let ?d = "digest_bytes (map ucast h :: u32 list)"
  have forty: "(40 :: u64) = of_nat (length (p @ ?d))" using assms by simp
  obtain c r c1 c2 h' where run: "sha1_init (Some c0) = (0, Some c)"
    "sha1_update (Some c) (Some (p @ ?d)) (of_nat (length (p @ ?d))) = Some (r, Some c1)"
    "sha1_finish (Some c1) (Some h) = Some (0, Some c2, h')"
    "length h' = length h" "map ucast (take 5 h') = fips_sha1 (p @ ?d)"
    by (rule hash_one_buffer [OF _ assms(1), of h "p @ ?d"])
      ((rule that, assumption+) | use assms in simp)+
  with assms(2) show ?thesis
    unfolding extend_pcr_step_def Let_def hash_bytes_digest [OF assms(2)] forty
    by (simp add: util_sha1_init_def util_sha1_update_def util_sha1_finish_def hash_bytes_digest tpm_extend_def)
qed

text \<open>The register that \<^verbatim>\<open>verify_pcr\<close> computes, as a specification over the contents of the files.\<close>

definition measured_pcr :: "u8 list \<Rightarrow> u8 list list \<Rightarrow> u8 list" where
  "measured_pcr p contents = fold (\<lambda>x p. tpm_extend p (digest_bytes (fips_sha1 x))) contents p"

lemma verify_files_measured:
  assumes "length (buffer c0) = 64" and "length h = 5" and "length p = 20"
    and "list_all (\<lambda>f. case files f of None \<Rightarrow> False | Some x \<Rightarrow> x \<noteq> [] \<and> length x < 2 ^ 31) fs"
  shows "verify_files files c0 p h fs = Some (0, measured_pcr p (map (the \<circ> files) fs))"
  using assms(2-4)
proof (induction fs arbitrary: p h)
  case Nil
  then show ?case by (simp add: measured_pcr_def)
next
  case (Cons f fs)
  from Cons.prems(3) obtain x where x: "files f = Some x" "x \<noteq> []" "length x < 2 ^ 31"
    by (auto split: option.splits)
  obtain h1 where h1: "util_calculate_sha1 files c0 f h = Some (0, h1)" "length h1 = 5"
    "map ucast h1 = fips_sha1 x"
    using util_calculate_sha1_hash [of files f x c0 h] x assms(1) Cons.prems(1) by auto
  obtain h2 where h2: "extend_pcr_step c0 p h1 = Some (tpm_extend p (digest_bytes (fips_sha1 x)), h2)" "length h2 = 5"
    using extend_pcr_step_tpm [OF assms(1) h1(2) Cons.prems(2)] h1(3) by auto
  from Cons.IH [OF h2(2) length_tpm_extend] Cons.prems(3) h1(1) h2(1) x(1)
  show ?case by (simp add: measured_pcr_def)
qed

text \<open>Hexadecimal digits, as the tool expects them on its command line.\<close>

definition hex_char :: "u8 \<Rightarrow> char" where
  "hex_char d = (''0123456789abcdef'' ! unat d)"

definition hex_string :: "u8 list \<Rightarrow> string" where
  "hex_string bs = concat (map (\<lambda>b. [hex_char (drop_bit 4 b), hex_char (b AND 0xf)]) bs)"

lemma hex_digit_char:
  assumes "unat d < 16"
  shows "hex_digit (hex_char d) = Some d"
proof -
  have "d = word_of_nat (unat d)" by simp
  moreover have "unat d \<in> set [0..<16]" using assms by simp
  ultimately have "d \<in> set (map word_of_nat [0..<16])" by (metis image_eqI list.set_map)
  then show ?thesis by (auto simp: hex_char_def hex_digit_def upt_rec)
qed

lemma hex_nibbles:
  "unat (drop_bit 4 (b :: u8)) < 16" "unat (b AND 0xf) < 16"
  "push_bit 4 (drop_bit 4 b) OR (b AND 0xf) = b"
proof -
  have "unat b < 2 ^ LENGTH(8)" by (rule unsigned_less)
  then show "unat (drop_bit 4 b) < 16" by (simp add: unsigned_drop_bit_eq drop_bit_nat_def take_bit_nat_def)
  have m: "b AND 0xf = take_bit 4 b" by (simp add: take_bit_eq_mask mask_eq_exp_minus_1)
  then show "unat (b AND 0xf) < 16" by (simp only: unsigned_take_bit_eq) (simp add: take_bit_nat_def)
  show "push_bit 4 (drop_bit 4 b) OR (b AND 0xf) = b"
    unfolding m by (rule bit_word_eqI) (auto simp: bit_simps)
qed

lemma parse_hex_string:
  "parse_pcr (2 * length bs) (hex_string bs @ s)
     = Some (concat (map (\<lambda>b. [drop_bit 4 b, b AND 0xf]) bs))"
  by (induction bs) (simp_all add: hex_string_def hex_digit_char hex_nibbles)

lemma pair_nibbles: "pair_digits (concat (map (\<lambda>b. [drop_bit 4 b, b AND 0xf]) bs)) = bs"
  by (induction bs) (simp_all add: hex_nibbles)

lemma initial_pcr_text:
  assumes "length p = 20"
  shows "initial_pcr (hex_string p @ s) = Some p"
proof -
  from assms obtain b bs where p: "p = b # bs" by (cases p) auto
  have "hex_char (drop_bit 4 b) \<noteq> CHR ''N''"
    using hex_digit_char [OF hex_nibbles(1), of b] by (auto simp: hex_digit_def split: if_splits)
  then have "hex_string p @ s \<noteq> ''NULL''" by (simp add: p hex_string_def)
  with parse_hex_string [of p s] assms show ?thesis
    by (simp add: initial_pcr_def pair_nibbles)
qed

text \<open>
  Parsing the lower-case hexadecimal text of a 20-byte register, the initial value on the
  command line of \<^verbatim>\<open>verify_pcr\<close>, yields that register; text after the first 40 digits is
  ignored.
\<close>

theorem initial_pcr_hex:
  assumes "length p = 20"
  shows "initial_pcr (hex_string p @ s) = Some p"
  using assms by (rule initial_pcr_text)

lemma initial_pcr_hex_witness: "initial_pcr (hex_string (replicate 20 0xa5)) = Some (replicate 20 0xa5)"
  using initial_pcr_hex [of "replicate 20 0xa5" "[]"] by simp

lemma verify_pcr_main_measured:
  assumes "length (buffer c0) = 64" and "length h = 5" and "length p = 20"
    and "initial_pcr arg = Some p" and "fs \<noteq> []"
    and "list_all (\<lambda>f. sh (take 1023 (''test -e '' @ f)) = 0) fs"
    and "list_all (\<lambda>f. case files f of None \<Rightarrow> False | Some x \<Rightarrow> x \<noteq> [] \<and> length x < 2 ^ 31) fs"
  shows "verify_pcr_main sh files c0 h (prog # arg # fs)
    = Some (0, Some (measured_pcr p (map (the \<circ> files) fs)))"
  using verify_files_measured [OF assms(1-3,7)] assms
  by (cases fs) (auto simp: verify_pcr_main_def list_ex_iff list_all_iff)

text \<open>
  C17. \<^verbatim>\<open>verify_pcr\<close> predicts the boot loader: if the register \<open>n\<close> held \<open>p\<close> and the boot loader
  extended it by the hashes of the files in the given order through \<open>update_pcr\<close>, then
  \<^verbatim>\<open>verify_pcr\<close>, started with the hexadecimal text of \<open>p\<close> and those files, exits with 0 and
  prints the value the TPM now holds in register \<open>n\<close>.
\<close>

theorem verify_pcr_predicts_tpm:
  assumes "tcg_bios int1a pcr" and "8 \<le> n" and "n \<le> 15" and "length (pcr (snd s) n) = 20"
    and "length (buffer c0) = 64" and "length h = 5" and "fs \<noteq> []"
    and "list_all (\<lambda>f. sh (take 1023 (''test -e '' @ f)) = 0) fs"
    and "list_all (\<lambda>f. case files f of None \<Rightarrow> False | Some x \<Rightarrow> x \<noteq> [] \<and> length x < 2 ^ 31) fs"
  shows "verify_pcr_main sh files c0 h (''verify_pcr'' # hex_string (pcr (snd s) n) # fs)
    = Some (0, Some (pcr (snd (fold (\<lambda>f s. snd (update_pcr int1a n (fips_sha1 (the (files f))) s)) fs s)) n))"
proof -
  let ?hs = "map (fips_sha1 \<circ> the \<circ> files) fs"
  have "pcr (snd (fold (\<lambda>h s. snd (update_pcr int1a n h s)) ?hs s)) n
      = measured_pcr (pcr (snd s) n) (map (the \<circ> files) fs)"
    by (subst tcg_bios.update_pcr_sequence [OF assms(1-3)]) (auto simp: measured_pcr_def fold_map comp_def)
  moreover have "initial_pcr (hex_string (pcr (snd s) n)) = Some (pcr (snd s) n)"
    using initial_pcr_text [OF assms(4), of "[]"] by simp
  ultimately show ?thesis
    using verify_pcr_main_measured [OF assms(5,6,4) _ assms(7-9)] by (simp add: fold_map comp_def)
qed

lemma verify_pcr_predicts_tpm_witness:
  "verify_pcr_main (\<lambda>_. 0) (\<lambda>_. Some [0x61, 0x62, 0x63]) blank_context (replicate 5 0)
      [''verify_pcr'', hex_string (replicate 20 0), ''/kernel'', ''/initrd'']
    = Some (0, Some (soft_pcr (snd (snd (update_pcr soft_int1a 14 (fips_sha1 [0x61, 0x62, 0x63])
        (snd (update_pcr soft_int1a 14 (fips_sha1 [0x61, 0x62, 0x63]) (\<lambda>_. 0, \<lambda>_. replicate 20 0)))))) 14))"
  using verify_pcr_predicts_tpm [OF soft_tpm.tcg_bios_axioms, of 14 "(\<lambda>_. 0, \<lambda>_. replicate 20 0)"
      blank_context "replicate 5 0" "[''/kernel'', ''/initrd'']" "\<lambda>_. 0" "\<lambda>_. Some [0x61, 0x62, 0x63]"]
  by (simp add: blank_context_def soft_pcr_const)

end
