(* ===== verification/CString.thy ===== *)
theory CString
  imports Prelude "HOL-Library.Sublist"
begin

text \<open>
  The string and memory functions of \<^verbatim>\<open>stage2/char_io.c\<close> and the error codes they set.

  A \<open>char\<close> is a byte of type \<open>u8\<close>; where the code compares or promotes characters it does so
  as \<open>signed char\<close>, the type of \<open>char\<close> on i386. A pointer that is only read through is the list
  of the bytes from it to the end of the array it points into; reading behind that list is
  undefined. A pointer that is written through is the array together with an index.
\<close>

section \<open>Error codes\<close>

datatype grub_error_t =
    ERR_NONE | ERR_BAD_FILENAME | ERR_BAD_FILETYPE | ERR_BAD_GZIP_DATA | ERR_BAD_GZIP_HEADER
  | ERR_BAD_PART_TABLE | ERR_BAD_VERSION | ERR_BELOW_1MB | ERR_BOOT_COMMAND | ERR_BOOT_FAILURE
  | ERR_BOOT_FEATURES | ERR_DEV_FORMAT | ERR_DEV_VALUES | ERR_EXEC_FORMAT | ERR_FILELENGTH
  | ERR_FILE_NOT_FOUND | ERR_FSYS_CORRUPT | ERR_FSYS_MOUNT | ERR_GEOM | ERR_NEED_LX_KERNEL
  | ERR_NEED_MB_KERNEL | ERR_NO_DISK | ERR_NO_PART | ERR_NUMBER_PARSING | ERR_OUTSIDE_PART
  | ERR_READ | ERR_SYMLINK_LOOP | ERR_UNRECOGNIZED | ERR_WONT_FIT | ERR_WRITE
  | ERR_BAD_ARGUMENT | ERR_UNALIGNED | ERR_PRIVILEGED | ERR_DEV_NEED_INIT | ERR_NO_DISK_SPACE
  | ERR_NUMBER_OVERFLOW | ERR_BADMODADDR

section \<open>Characters\<close>

definition grub_tolower :: "int \<Rightarrow> int" where
  "grub_tolower c = (if 65 \<le> c \<and> c \<le> 90 then c + (97 - 65) else c)"

text \<open>The cases are blank, tab, carriage return and newline.\<close>

definition grub_isspace :: "int \<Rightarrow> bool" where
  "grub_isspace c \<longleftrightarrow> c = 32 \<or> c = 9 \<or> c = 13 \<or> c = 10"

section \<open>Reading strings\<close>

fun grub_strlen :: "u8 list \<Rightarrow> nat option" where
  "grub_strlen [] = None"
| "grub_strlen (c # str) = (if c \<noteq> 0 then map_option Suc (grub_strlen str) else Some 0)"

fun grub_memcmp :: "u8 list \<Rightarrow> u8 list \<Rightarrow> nat \<Rightarrow> int option" where
  "grub_memcmp s1 s2 0 = Some 0"
| "grub_memcmp (a # s1) (b # s2) (Suc n) =
     (if sint a < sint b then Some (-1)
      else if sint b < sint a then Some 1
      else grub_memcmp s1 s2 n)"
| "grub_memcmp _ _ (Suc n) = None"

fun grub_strcmp :: "u8 list \<Rightarrow> u8 list \<Rightarrow> int option" where
  "grub_strcmp (a # s1) (b # s2) =
     (if a \<noteq> 0 \<or> b \<noteq> 0
      then if sint a < sint b then Some (-1)
           else if sint b < sint a then Some 1
           else grub_strcmp s1 s2
      else Some 0)"
| "grub_strcmp _ _ = None"

fun substring :: "u8 list \<Rightarrow> u8 list \<Rightarrow> int option" where
  "substring (a # s1) (b # s2) =
     (if a = b then (if a = 0 then Some 0 else substring s1 s2)
      else if a = 0 then Some (-1) else Some 1)"
| "substring _ _ = None"

text \<open>
  The inner loop of \<open>grub_strstr\<close>: whether it stops at the end of \<open>s2\<close>, and the outer loop with
  the number \<open>k\<close> of characters it has passed. \<open>Some None\<close> is the null pointer, \<open>Some (Some k)\<close>
  the pointer \<open>s1 + k\<close>.
\<close>

fun strstr_match :: "u8 list \<Rightarrow> u8 list \<Rightarrow> bool option" where
  "strstr_match ptr [] = None"
| "strstr_match ptr (t # tmp) =
     (if t = 0 then Some True
      else case ptr of [] \<Rightarrow> None
           | p # ptr' \<Rightarrow> if p = t then strstr_match ptr' tmp else Some False)"

fun strstr_from :: "nat \<Rightarrow> u8 list \<Rightarrow> u8 list \<Rightarrow> nat option option" where
  "strstr_from k [] s2 = None"
| "strstr_from k (a # s1) s2 =
     (if a = 0 then Some None
      else do { c \<leftarrow> rd s2 0;
                m \<leftarrow> strstr_match (a # s1) s2;
                if c \<noteq> 0 \<and> m then Some (Some k) else strstr_from (Suc k) s1 s2 })"

definition grub_strstr :: "u8 list \<Rightarrow> u8 list \<Rightarrow> nat option option" where
  "grub_strstr s1 s2 = strstr_from 0 s1 s2"

section \<open>Numbers\<close>

definition MAXINT :: u32 where "MAXINT = 0x7FFFFFFF"

text \<open>The conversion of a character, promoted to \<open>int\<close>, to the \<open>unsigned int\<close> \<open>digit\<close>.\<close>

definition char_digit :: "u8 \<Rightarrow> u32" where
  "char_digit c = of_int (grub_tolower (sint c)) - 0x30"

text \<open>
  The loop of \<open>safe_parse_maxint\<close> over the characters from \<open>ptr\<close> on. The result is the error
  that is stored to \<open>errnum\<close> or the rest of the string with the number.
\<close>

fun parse_digits :: "u32 \<Rightarrow> u32 \<Rightarrow> bool \<Rightarrow> u8 list \<Rightarrow> (grub_error_t + u8 list \<times> u32) option" where
  "parse_digits mult myint found [] = None"
| "parse_digits mult myint found (c # ptr) =
     (let digit = char_digit c;
          digit' = (if 9 < digit then digit - (0x61 - 0x30) else digit)
      in if 9 < digit \<and> (mult = 10 \<or> 5 < digit')
         then Some (if found then Inr (c # ptr, myint) else Inl ERR_NUMBER_PARSING)
         else
           let digit = (if 9 < digit then digit' + 10 else digit)
           in if (MAXINT - digit) div mult < myint then Some (Inl ERR_NUMBER_OVERFLOW)
              else parse_digits mult (myint * mult + digit) True ptr)"

definition safe_parse_maxint :: "u8 list \<Rightarrow> (grub_error_t + u8 list \<times> u32) option" where
  "safe_parse_maxint ptr =
     do { c0 \<leftarrow> rd ptr 0;
          hex \<leftarrow> (if c0 = 0x30 then do { c1 \<leftarrow> rd ptr 1; Some (grub_tolower (sint c1) = 0x78) }
                  else Some False);
          if hex then parse_digits 16 0 False (drop 2 ptr) else parse_digits 10 0 False ptr }"

text \<open>
  \<open>convert_to_ascii\<close>: the loop that stores the digits from the least significant one on, and the
  loop that swaps them into place. \<open>buf\<close> is an array, \<open>ptr\<close> an index into it. The base \<open>mult\<close>
  is 10 or 16; the test that it exceeds 1 makes the loop terminate for every argument.
\<close>

function store_digits :: "u8 list \<Rightarrow> nat \<Rightarrow> u32 \<Rightarrow> u32 \<Rightarrow> (u8 list \<times> nat) option" where
  "store_digits buf ptr num mult =
     (let dig = num mod mult
      in case wr buf ptr (if 9 < dig then ucast dig + 0x61 - 10 else 0x30 + ucast dig) of
           None \<Rightarrow> None
         | Some buf' \<Rightarrow>
             (if num div mult \<noteq> 0 \<and> 1 < mult then store_digits buf' (Suc ptr) (num div mult) mult
              else Some (buf', Suc ptr)))"
  by pat_completeness auto
termination
proof (relation "measure (\<lambda>(buf, ptr, num, mult). unat num)", simp, clarsimp)
  fix num mult :: u32
  assume "num div mult \<noteq> 0" "1 < mult"
  then have "num \<noteq> 0" "1 < unat mult" by (auto simp: word_less_nat_alt)
  then show "unat (num div mult) < unat num" by (simp add: unat_div unat_gt_0)
qed

declare store_digits.simps [simp del]

function swap_digits :: "u8 list \<Rightarrow> nat \<Rightarrow> nat \<Rightarrow> u8 list option" where
  "swap_digits buf ptr1 ptr2 =
     (if ptr2 < ptr1
      then case (rd buf ptr1, rd buf ptr2) of
             (Some tmp, Some c) \<Rightarrow> swap_digits (buf[ptr1 := c, ptr2 := tmp]) (ptr1 - 1) (ptr2 + 1)
           | _ \<Rightarrow> None
      else Some buf)"
  by pat_completeness auto
termination
  by (relation "measure (\<lambda>(buf, ptr1, ptr2). ptr1 - ptr2)") auto

declare swap_digits.simps [simp del]

definition convert_to_ascii :: "u8 list \<Rightarrow> char \<Rightarrow> u32 \<Rightarrow> (u8 list \<times> nat) option" where
  "convert_to_ascii buf c num =
     (let mult = (if c = CHR ''x'' \<or> c = CHR ''X'' then 16 else 10);
          neg = (num AND 0x80000000 \<noteq> 0 \<and> c = CHR ''d'')
      in do { (buf1, start) \<leftarrow> (if neg then do { b \<leftarrow> wr buf 0 0x2d; Some (b, 1) } else Some (buf, 0));
              (buf2, ptr) \<leftarrow> store_digits buf1 start (if neg then NOT num + 1 else num) mult;
              buf3 \<leftarrow> swap_digits buf2 (ptr - 1) start;
              Some (buf3, ptr) })"

section \<open>Writing strings\<close>

text \<open>\<open>nul_terminate\<close> on the array \<open>s\<close> from index \<open>p\<close> on: the old character and the array.\<close>

fun word_end :: "u8 list \<Rightarrow> nat option" where
  "word_end [] = None"
| "word_end (c # str) =
     (if c \<noteq> 0 \<and> \<not> grub_isspace (sint c) then map_option Suc (word_end str) else Some 0)"

definition nul_terminate :: "u8 list \<Rightarrow> nat \<Rightarrow> (u8 \<times> u8 list) option" where
  "nul_terminate s p =
     do { k \<leftarrow> word_end (drop p s);
          c \<leftarrow> rd s (p + k);
          s' \<leftarrow> wr s (p + k) 0;
          Some (c, s') }"

text \<open>The two loops of \<open>grub_strncat\<close>, from index \<open>i\<close> on.\<close>

function strncat_end :: "u8 list \<Rightarrow> nat \<Rightarrow> nat \<Rightarrow> nat option" where
  "strncat_end s1 i n =
     (if i < n
      then case rd s1 i of None \<Rightarrow> None
           | Some c \<Rightarrow> if c \<noteq> 0 then strncat_end s1 (Suc i) n else Some i
      else Some i)"
  by pat_completeness auto
termination
  by (relation "measure (\<lambda>(s1, i, n). n - i)") auto

declare strncat_end.simps [simp del]

function strncat_copy :: "u8 list \<Rightarrow> u8 list \<Rightarrow> nat \<Rightarrow> nat \<Rightarrow> (u8 list \<times> nat) option" where
  "strncat_copy s1 s2 i n =
     (if i < n
      then case rd s2 0 of None \<Rightarrow> None
           | Some c \<Rightarrow>
               (case wr s1 i c of None \<Rightarrow> None
                | Some s1' \<Rightarrow> if c \<noteq> 0 then strncat_copy s1' (drop 1 s2) (Suc i) n else Some (s1', Suc i))
      else Some (s1, i))"
  by pat_completeness auto
termination
  by (relation "measure (\<lambda>(s1, s2, i, n). n - i)") auto

declare strncat_copy.simps [simp del]

definition grub_strncat :: "u8 list \<Rightarrow> u8 list \<Rightarrow> nat \<Rightarrow> (int \<times> u8 list) option" where
  "grub_strncat s1 s2 n =
     (if n = 0 then None
      else do { i0 \<leftarrow> strncat_end s1 0 n;
                (s1', i) \<leftarrow> strncat_copy s1 s2 i0 n;
                s1'' \<leftarrow> wr s1' (n - 1) 0;
                if n \<le> i then Some (0, s1'')
                else do { r \<leftarrow> wr s1'' i 0; Some (1, r) } })"

section \<open>Physical memory\<close>

text \<open>
  \<open>memcheck\<close> with the multiboot fields \<open>mem_lower\<close> and \<open>mem_upper\<close> in KB. The addresses are
  \<open>int\<close>; the comparisons with the memory sizes are unsigned.
\<close>

definition memcheck :: "u32 \<Rightarrow> u32 \<Rightarrow> grub_error_t \<Rightarrow> u32 \<Rightarrow> u32 \<Rightarrow> bool \<times> grub_error_t" where
  "memcheck mem_lower mem_upper errnum addr len =
     (let errnum' =
        (if sint addr < 0x1000
            \<or> sint addr < 0x100000 \<and> mem_lower * 1024 < addr + len
            \<or> 0x100000 \<le> sint addr \<and> mem_upper * 1024 < (addr - 0x100000) + len
         then ERR_WONT_FIT else errnum)
      in (errnum' = ERR_NONE, errnum'))"

type_synonym memory = "nat \<Rightarrow> u8"

text \<open>The string instructions of \<open>grub_memmove\<close> with the direction flag clear and set.\<close>

primrec movsb_up :: "memory \<Rightarrow> nat \<Rightarrow> nat \<Rightarrow> nat \<Rightarrow> memory" where
  "movsb_up m dest src 0 = m"
| "movsb_up m dest src (Suc n) = movsb_up (m(dest := m src)) (Suc dest) (Suc src) n"

primrec movsb_down :: "memory \<Rightarrow> nat \<Rightarrow> nat \<Rightarrow> nat \<Rightarrow> memory" where
  "movsb_down m dest src 0 = m"
| "movsb_down m dest src (Suc n) = movsb_down (m(dest + n := m (src + n))) dest src n"

definition grub_memmove :: "u32 \<Rightarrow> u32 \<Rightarrow> nat \<Rightarrow> nat \<Rightarrow> nat \<Rightarrow> memory \<times> grub_error_t \<Rightarrow> memory \<times> grub_error_t" where
  "grub_memmove mem_lower mem_upper dest src len s =
     (let (m, errnum) = s;
          (ok, errnum') = memcheck mem_lower mem_upper errnum (of_nat dest) (of_nat len)
      in (if ok then (if dest < src then movsb_up m dest src len else movsb_down m dest src len) else m,
          errnum'))"

primrec set_loop :: "memory \<Rightarrow> nat \<Rightarrow> u8 \<Rightarrow> nat \<Rightarrow> memory" where
  "set_loop m p c 0 = m"
| "set_loop m p c (Suc len) = set_loop (m(p := c)) (Suc p) c len"

definition grub_memset :: "u32 \<Rightarrow> u32 \<Rightarrow> nat \<Rightarrow> int \<Rightarrow> nat \<Rightarrow> memory \<times> grub_error_t \<Rightarrow> memory \<times> grub_error_t" where
  "grub_memset mem_lower mem_upper start c len s =
     (let (m, errnum) = s;
          (ok, errnum') = memcheck mem_lower mem_upper errnum (of_nat start) (of_nat len)
      in (if ok then set_loop m start (of_int c) len else m, errnum'))"

text \<open>
  \<open>grub_strcpy\<close>; the length of the source string in memory is found by \<open>mem_strlen\<close>, whose
  argument bounds the search (there is no string if no NUL follows within it).
\<close>

primrec mem_strlen :: "nat \<Rightarrow> memory \<Rightarrow> nat \<Rightarrow> nat option" where
  "mem_strlen 0 m p = None"
| "mem_strlen (Suc bound) m p = (if m p \<noteq> 0 then map_option Suc (mem_strlen bound m (Suc p)) else Some 0)"

definition grub_strcpy :: "u32 \<Rightarrow> u32 \<Rightarrow> nat \<Rightarrow> nat \<Rightarrow> nat \<Rightarrow> memory \<times> grub_error_t
    \<Rightarrow> (memory \<times> grub_error_t) option" where
  "grub_strcpy mem_lower mem_upper bound dest src s =
     do { n \<leftarrow> mem_strlen bound (fst s) src;
          Some (grub_memmove mem_lower mem_upper dest src (n + 1) s) }"

section \<open>What the string functions compute\<close>

text \<open>A string in an array: its characters, the NUL, and whatever follows.\<close>

definition str_at :: "u8 list \<Rightarrow> u8 list \<Rightarrow> bool" where
  "str_at s a \<longleftrightarrow> 0 \<notin> set a \<and> prefix (a @ [0]) s"

lemma str_atE:
  assumes "str_at s a"
  obtains r where "s = a @ 0 # r" and "0 \<notin> set a"
  using assms by (auto simp: str_at_def prefix_def)

lemma str_at_append [simp]: "0 \<notin> set a \<Longrightarrow> str_at (a @ 0 # r) a"
  by (simp add: str_at_def)

lemma grub_strlen_append: "0 \<notin> set a \<Longrightarrow> grub_strlen (a @ 0 # r) = Some (length a)"
  by (induction a) auto

lemma grub_strlen_str: "str_at s a \<Longrightarrow> grub_strlen s = Some (length a)"
  by (elim str_atE) (simp add: grub_strlen_append)

lemma grub_strlen_None: "grub_strlen s = None \<longleftrightarrow> 0 \<notin> set s"
  by (induction s) auto

text \<open>The order of \<open>signed char\<close> strings, the NUL included.\<close>

definition chars_less :: "u8 list \<Rightarrow> u8 list \<Rightarrow> bool" where
  "chars_less a b \<longleftrightarrow> (map sint a, map sint b) \<in> lexord {(x, y). x < y}"

lemma sint_eq_iff [simp]: "sint (a :: u8) = sint b \<longleftrightarrow> a = b"
  using signed_word_eqI by auto

lemma sint_eq_0_iff [simp]: "sint (a :: u8) = 0 \<longleftrightarrow> a = 0"
  using sint_eq_iff [of a 0] by simp

lemma chars_less_Cons [simp]:
  "chars_less (x # a) (y # b) \<longleftrightarrow> sint x < sint y \<or> x = y \<and> chars_less a b"
  by (auto simp: chars_less_def)

lemma chars_less_Nil [simp]: "\<not> chars_less a []"
  by (simp add: chars_less_def)

lemma grub_strcmp_append:
  "0 \<notin> set a \<Longrightarrow> 0 \<notin> set b \<Longrightarrow> grub_strcmp (a @ 0 # r) (b @ 0 # q)
     = Some (if a = b then 0 else if chars_less (a @ [0]) (b @ [0]) then -1 else 1)"
proof (induction a arbitrary: b)
  case Nil
  then show ?case by (cases b) auto
next
  case (Cons x a)
  then show ?case by (cases b) (auto simp: not_less)
qed

text \<open>
  \<open>grub_strcmp\<close> on two strings is 0 exactly for equal strings, and otherwise -1 or 1 by the
  lexicographic order of their characters as \<open>signed char\<close>, the NUL included; it reads no
  character behind the NUL of either string.
\<close>

theorem grub_strcmp_correct:
  assumes "str_at s1 a" and "str_at s2 b"
  shows "grub_strcmp s1 s2
    = Some (if a = b then 0 else if chars_less (a @ [0]) (b @ [0]) then -1 else 1)"
  using assms grub_strcmp_append by (auto elim!: str_atE)

lemma grub_strcmp_correct_witness:
  "grub_strcmp [0x62, 0x6f, 0] [0x62, 0, 7] = Some 1 \<and> grub_strcmp [0xe9, 0] [0] = Some (-1)"
  using grub_strcmp_correct [of "[0x62, 0x6f, 0]" "[0x62, 0x6f]" "[0x62, 0, 7]" "[0x62]"]
    grub_strcmp_correct [of "[0xe9, 0]" "[0xe9]" "[0]" "[]"]
  by (simp add: str_at_def)

lemma grub_memcmp_take:
  "n \<le> length s1 \<Longrightarrow> n \<le> length s2 \<Longrightarrow> grub_memcmp s1 s2 n
     = Some (if take n s1 = take n s2 then 0 else if chars_less (take n s1) (take n s2) then -1 else 1)"
proof (induction s1 s2 n rule: grub_memcmp.induct)
  case (2 a s1 b s2 n)
  then show ?case by (auto simp: not_less)
qed auto

lemma substring_append:
  "0 \<notin> set a \<Longrightarrow> 0 \<notin> set b \<Longrightarrow> substring (a @ 0 # r) (b @ 0 # q)
     = Some (if a = b then 0 else if prefix a b then -1 else 1)"
proof (induction a arbitrary: b)
  case Nil
  then show ?case by (cases b) auto
next
  case (Cons x a)
  then show ?case by (cases b) auto
qed

text \<open>
  \<open>substring\<close>, by which commands and file names are completed and looked up, returns 0 for
  equal strings, -1 if the first is a proper prefix of the second, and 1 otherwise.
\<close>

theorem substring_correct:
  assumes "str_at s1 a" and "str_at s2 b"
  shows "substring s1 s2 = Some (if a = b then 0 else if prefix a b then -1 else 1)"
  using assms substring_append by (auto elim!: str_atE)

lemma substring_correct_witness:
  "substring [0x62, 0] [0x62, 0x6f, 0] = Some (-1) \<and> substring [0x62, 0x6f, 0] [0x62, 0] = Some 1"
  using substring_correct [of "[0x62, 0]" "[0x62]" "[0x62, 0x6f, 0]" "[0x62, 0x6f]"]
    substring_correct [of "[0x62, 0x6f, 0]" "[0x62, 0x6f]" "[0x62, 0]" "[0x62]"]
  by (simp add: str_at_def)

lemma strstr_match_prefix:
  "0 \<notin> set a \<Longrightarrow> 0 \<notin> set b \<Longrightarrow> strstr_match (a @ 0 # r) (b @ 0 # q) = Some (prefix b a)"
proof (induction b arbitrary: a)
  case Nil
  then show ?case by simp
next
  case (Cons x b)
  then show ?case by (cases a) auto
qed

definition first_match :: "u8 list \<Rightarrow> u8 list \<Rightarrow> nat \<Rightarrow> bool" where
  "first_match a b k \<longleftrightarrow> k < length a \<and> prefix b (drop k a) \<and> (\<forall>j<k. \<not> prefix b (drop j a))"

lemma strstr_from_first:
  assumes "0 \<notin> set a" "0 \<notin> set b" "b \<noteq> []"
  shows "strstr_from k (a @ 0 # r) (b @ 0 # q) = Some None \<and> (\<forall>j. \<not> prefix b (drop j a))
       \<or> (\<exists>j. strstr_from k (a @ 0 # r) (b @ 0 # q) = Some (Some (k + j)) \<and> first_match a b j)"
  using assms(1)
proof (induction a arbitrary: k)
  case Nil
  with assms show ?case by auto
next
  case (Cons x a)
  have m: "strstr_match (x # a @ 0 # r) (b @ 0 # q) = Some (prefix b (x # a))"
    using strstr_match_prefix [OF Cons.prems assms(2), of r q] by simp
  have hd: "rd (b @ 0 # q) 0 = Some (hd b)" "hd b \<noteq> 0" using assms by (cases b; auto)+
  show ?case
  proof (cases "prefix b (x # a)")
    case True
    with m hd Cons.prems show ?thesis by (auto simp: first_match_def intro!: disjI2 exI [of _ 0])
  next
    case False
    have step: "strstr_from k ((x # a) @ 0 # r) (b @ 0 # q) = strstr_from (Suc k) (a @ 0 # r) (b @ 0 # q)"
      using False m hd Cons.prems by simp
    have sh: "(\<forall>j. \<not> prefix b (drop j (x # a))) \<longleftrightarrow> (\<forall>j. \<not> prefix b (drop j a))"
      using False by (auto simp: drop_Cons split: nat.splits)
    have "first_match (x # a) b (Suc j) \<longleftrightarrow> first_match a b j" for j
      using False by (auto simp: first_match_def less_Suc_eq_0_disj)
    with Cons.IH [of "Suc k"] Cons.prems show ?thesis unfolding step sh by auto
  qed
qed

text \<open>
  \<open>grub_strstr\<close> with a non-empty needle returns the first position at which the needle
  occurs, or the null pointer if it occurs nowhere; an empty needle is never found.
\<close>

theorem grub_strstr_correct:
  assumes "str_at s1 a" and "str_at s2 b"
  shows "(grub_strstr s1 s2 = Some None \<and> (b = [] \<or> (\<forall>j. \<not> prefix b (drop j a))))
    \<or> (\<exists>k. grub_strstr s1 s2 = Some (Some k) \<and> b \<noteq> [] \<and> first_match a b k)"
proof (cases "b = []")
  case True
  have "strstr_from k (a @ 0 # r) (0 # q) = Some None" if "0 \<notin> set a" for k r q
    using that by (induction a arbitrary: k) auto
  with True assms show ?thesis by (auto simp: grub_strstr_def elim!: str_atE)
next
  case False
  with assms strstr_from_first [of a b 0] show ?thesis
    by (auto simp: grub_strstr_def elim!: str_atE)
qed

lemma grub_strstr_correct_witness:
  "grub_strstr [1, 2, 1, 3, 0] [1, 3, 0] = Some (Some 2)"
  using grub_strstr_correct [of "[1, 2, 1, 3, 0]" "[1, 2, 1, 3]" "[1, 3, 0]" "[1, 3]"]
  by (simp add: str_at_def grub_strstr_def)

section \<open>Parsing numbers\<close>

definition digit_val :: "nat \<Rightarrow> u8 \<Rightarrow> nat option" where
  "digit_val base c =
     (let n = unat c;
          d = (if 48 \<le> n \<and> n \<le> 57 then n - 48
               else if 97 \<le> n \<and> n \<le> 102 then n - 87
               else if 65 \<le> n \<and> n \<le> 70 then n - 55 else 99)
      in if d < base then Some d else None)"

definition number_from :: "nat \<Rightarrow> nat \<Rightarrow> u8 list \<Rightarrow> nat" where
  "number_from base v ds = foldl (\<lambda>v c. v * base + the (digit_val base c)) v ds"

text \<open>The classification of one character by the code.\<close>

lemma uint_of_int_small:
  "\<bar>k\<bar> < 1000 \<Longrightarrow> uint (of_int k :: u32) = (if k < 0 then k + 2 ^ 32 else k)"
proof -
  assume k: "\<bar>k\<bar> < 1000"
  have "uint (of_int k :: u32) = k mod 2 ^ 32" by (simp add: uint_word_of_int_eq take_bit_int_def)
  also have "\<dots> = (if k < 0 then k + 2 ^ 32 else k)"
  proof (cases "k < 0")
    case True
    have "k mod 2 ^ 32 = (k + 2 ^ 32) mod 2 ^ 32" by (rule mod_add_self2 [symmetric])
    also have "\<dots> = k + 2 ^ 32" using k True by (intro mod_pos_pos_trivial) auto
    finally show ?thesis using True by simp
  qed (use k in simp)
  finally show ?thesis .
qed

lemma less_of_int_small:
  assumes "0 \<le> m" "m < 1000" "\<bar>k\<bar> < 1000"
  shows "(of_int m :: u32) < of_int k \<longleftrightarrow> k < 0 \<or> m < k"
  using assms by (auto simp: word_less_def uint_of_int_small)

lemma sint_unat8:
  assumes "unat (c :: u8) = n"
  shows "sint c = (if n < 128 then int n else int n - 256)" and "n < 256"
proof -
  have "unat c < 2 ^ LENGTH(8)" by (rule unsigned_less)
  with assms show n: "n < 256" by simp
  have "sint c = signed_take_bit 7 (int n)" by (simp add: sint_uint flip: assms)
  also have "\<dots> = (int n + 128) mod 256 - 128"
    by (simp add: signed_take_bit_eq_take_bit_shift take_bit_int_def)
  also have "\<dots> = (if n < 128 then int n else int n - 256)"
  proof (cases "n < 128")
    case False
    have "(int n + 128) mod 256 = (int n + 128 - 256) mod 256" by (rule minus_mod_self2 [symmetric])
    also have "\<dots> = int n - 128" using n False by (subst mod_pos_pos_trivial) auto
    finally show ?thesis using False by simp
  qed simp
  finally show "sint c = (if n < 128 then int n else int n - 256)" .
qed

lemma parse_classify:
  fixes c :: u8
  defines "e \<equiv> char_digit c"
  shows "digit_val 10 c = None \<longleftrightarrow> 9 < e"
    and "digit_val 10 c = Some d \<Longrightarrow> e = of_nat d"
    and "digit_val 16 c = None \<longleftrightarrow> 9 < e \<and> 5 < e - 0x31"
    and "digit_val 16 c = Some d \<Longrightarrow> (if 9 < e then e - 0x31 + 10 else e) = of_nat d"
proof -
  define t where "t = grub_tolower (sint c)"
  define n where "n = unat c"
  note n = sint_unat8 [OF n_def [symmetric]]
  have t: "\<bar>t\<bar> < 200" using n(2) by (auto simp: t_def grub_tolower_def n(1))
  have e: "e = of_int (t - 48)" "e - 0x31 = of_int (t - 97)"
    by (simp_all add: e_def char_digit_def t_def algebra_simps)
  have nine: "9 < e \<longleftrightarrow> t < 48 \<or> 57 < t"
    using less_of_int_small [of 9 "t - 48"] t by (auto simp: e)
  have five: "5 < e - 0x31 \<longleftrightarrow> t < 97 \<or> 102 < t"
    using less_of_int_small [of 5 "t - 97"] t by (auto simp: e)
  have v10: "digit_val 10 c = (if 48 \<le> t \<and> t \<le> 57 then Some (nat (t - 48)) else None)"
    using n(2) by (auto simp: digit_val_def t_def grub_tolower_def n(1) Let_def nat_diff_distrib' simp flip: n_def)
  have v16: "digit_val 16 c = (if 48 \<le> t \<and> t \<le> 57 then Some (nat (t - 48))
      else if 97 \<le> t \<and> t \<le> 102 then Some (nat (t - 87)) else None)"
    using n(2) by (auto simp: digit_val_def t_def grub_tolower_def n(1) Let_def nat_diff_distrib' simp flip: n_def)
  show "digit_val 10 c = None \<longleftrightarrow> 9 < e" unfolding v10 nine by auto
  show "digit_val 16 c = None \<longleftrightarrow> 9 < e \<and> 5 < e - 0x31" unfolding v16 nine five by auto
  show "digit_val 10 c = Some d \<Longrightarrow> e = of_nat d" unfolding v10 by (auto simp: e split: if_splits)
  show "digit_val 16 c = Some d \<Longrightarrow> (if 9 < e then e - 0x31 + 10 else e) = of_nat d"
    unfolding v16 nine by (auto simp: e split: if_splits)
qed

lemma number_from_mono: "0 < base \<Longrightarrow> v \<le> number_from base v ds"
proof (induction ds arbitrary: v)
  case (Cons c ds)
  then have "v * base + the (digit_val base c) \<le> number_from base (v * base + the (digit_val base c)) ds"
    by simp
  moreover have "v \<le> v * base" using Cons.prems by simp
  ultimately have "v \<le> number_from base (v * base + the (digit_val base c)) ds" by linarith
  then show ?case by (simp add: number_from_def)
qed (simp add: number_from_def)

text \<open>The test before the multiplication detects exactly the overflow.\<close>

lemma overflow_test:
  assumes "v \<le> 0x7FFFFFFF" and "d < 16" and "base = 10 \<or> base = 16"
  shows "(MAXINT - of_nat d) div of_nat base < (of_nat v :: u32) \<longleftrightarrow> 0x7FFFFFFF < v * base + d"
proof -
  have b: "unat (of_nat base :: u32) = base" "0 < base" using assms(3) by auto
  have v: "unat (of_nat v :: u32) = v" using assms by (intro unat_of_nat_below32) simp
  have d: "unat (of_nat d :: u32) = d" using assms by (intro unat_of_nat_below32) simp
  have "unat (MAXINT - of_nat d) = 0x7FFFFFFF - d"
    using assms d by (subst unat_sub) (simp_all add: MAXINT_def word_le_nat_alt)
  then have "(MAXINT - of_nat d) div of_nat base < (of_nat v :: u32) \<longleftrightarrow> (0x7FFFFFFF - d) div base < v"
    by (simp add: word_less_nat_alt unat_div b v)
  also have "\<dots> \<longleftrightarrow> 0x7FFFFFFF - d < v * base" using b(2) by (simp add: div_less_iff_less_mult)
  finally show ?thesis using assms by auto
qed

lemma parse_digits_correct:
  assumes base: "base = 10 \<or> base = 16" and stop: "digit_val base c = None"
  shows "list_all (\<lambda>x. digit_val base x \<noteq> None) xs \<Longrightarrow> v \<le> 0x7FFFFFFF
    \<Longrightarrow> parse_digits (of_nat base) (of_nat v) found (xs @ c # r)
      = Some (if \<not> found \<and> xs = [] then Inl ERR_NUMBER_PARSING
              else if number_from base v xs \<le> 0x7FFFFFFF then Inr (c # r, of_nat (number_from base v xs))
              else Inl ERR_NUMBER_OVERFLOW)"
proof (induction xs arbitrary: v found)
  case Nil
  from base stop parse_classify(1,3) [of c] have "9 < char_digit c"
    "(of_nat base :: u32) = 10 \<or> 5 < char_digit c - 0x31" by auto
  with Nil show ?case by (simp add: number_from_def Let_def)
next
  case (Cons x xs)
  then obtain d where d: "digit_val base x = Some d" by auto
  then have d16: "d < 16" using base by (auto simp: digit_val_def Let_def split: if_splits)
  have go: "\<not> (9 < char_digit x \<and> ((of_nat base :: u32) = 10 \<or> 5 < char_digit x - 0x31))"
    and dig: "(if 9 < char_digit x then char_digit x - 0x31 + 10 else char_digit x) = of_nat d"
    using base d parse_classify [of x] by (auto simp: not_less [symmetric])
  note test = overflow_test [OF Cons.prems(2) d16 base]
  have step: "number_from base v (x # xs) = number_from base (v * base + d) xs"
    by (simp add: number_from_def d)
  have pd: "parse_digits (of_nat base) (of_nat v) found ((x # xs) @ c # r)
      = (if 0x7FFFFFFF < v * base + d then Some (Inl ERR_NUMBER_OVERFLOW)
         else parse_digits (of_nat base) (of_nat (v * base + d)) True (xs @ c # r))"
    using go dig test by (auto simp: Let_def)
  have mono: "v * base + d \<le> number_from base (v * base + d) xs"
    using number_from_mono base by auto
  from Cons.IH [of "v * base + d" True] Cons.prems show ?case
    unfolding pd step using mono by (auto simp: not_less)
qed

text \<open>The prefix of a hexadecimal number.\<close>

definition hex_prefix :: "u8 list \<Rightarrow> bool" where
  "hex_prefix s \<longleftrightarrow> take 2 s = [0x30, 0x78] \<or> take 2 s = [0x30, 0x58]"

lemma tolower_x: "grub_tolower (sint (c :: u8)) = 0x78 \<longleftrightarrow> c = 0x78 \<or> c = 0x58"
proof -
  define n where "n = unat c"
  note n = sint_unat8 [OF n_def [symmetric]]
  have c: "c = 0x78 \<longleftrightarrow> n = 0x78" "c = 0x58 \<longleftrightarrow> n = 0x58"
    by (simp_all add: n_def word_unat_eq_iff)
  show ?thesis unfolding c using n(2) by (auto simp: grub_tolower_def n(1))
qed

lemma safe_parse_maxint_split:
  assumes "2 \<le> length s \<or> \<not> prefix [0x30] s" and "s \<noteq> []"
  shows "safe_parse_maxint s
    = (if hex_prefix s then parse_digits 16 0 False (drop 2 s) else parse_digits 10 0 False s)"
proof (cases s)
  case (Cons a t)
  with assms show ?thesis
    by (cases t) (auto simp: safe_parse_maxint_def hex_prefix_def tolower_x)
qed (use assms in simp)

lemma safe_parse_number:
  assumes "list_all (\<lambda>x. digit_val base x \<noteq> None) xs" and "digit_val base c = None"
    and "(pre, base) = ([], 10) \<and> \<not> hex_prefix (xs @ c # r)
       \<or> (pre, base) = ([0x30, 0x78], 16) \<or> (pre, base) = ([0x30, 0x58], 16)"
  shows "safe_parse_maxint (pre @ xs @ c # r)
    = Some (if xs = [] then Inl ERR_NUMBER_PARSING
            else if number_from base 0 xs \<le> 0x7FFFFFFF then Inr (c # r, of_nat (number_from base 0 xs))
            else Inl ERR_NUMBER_OVERFLOW)"
proof -
  have base: "base = 10 \<or> base = 16" using assms(3) by auto
  have c: "c \<noteq> 0x30" using assms(2) base by (auto simp: digit_val_def)
  have "2 \<le> length (pre @ xs @ c # r) \<or> \<not> prefix [0x30] (pre @ xs @ c # r)"
    using c by (cases xs) (auto simp: Suc_le_eq)
  then have "safe_parse_maxint (pre @ xs @ c # r)
      = parse_digits (of_nat base) (of_nat 0) False (xs @ c # r)"
    using assms(3) by (subst safe_parse_maxint_split) (auto simp: hex_prefix_def)
  then show ?thesis
    using parse_digits_correct [OF base assms(2,1), of 0 False r] by simp
qed

text \<open>
  C39. \<open>safe_parse_maxint\<close> reads the longest run of digits, hexadecimal ones after the prefix
  \<open>0x\<close> and decimal ones otherwise. It yields their value and the rest of the string exactly if
  the value fits into a positive \<open>int\<close>; a run without a digit and a larger value are the two
  errors.
\<close>

theorem safe_parse_maxint_correct:
  assumes "list_all (\<lambda>x. digit_val base x \<noteq> None) xs" and "digit_val base c = None"
    and "(pre, base) = ([], 10) \<and> \<not> hex_prefix (xs @ c # r)
       \<or> (pre, base) = ([0x30, 0x78], 16) \<or> (pre, base) = ([0x30, 0x58], 16)"
  shows "safe_parse_maxint (pre @ xs @ c # r)
    = Some (if xs = [] then Inl ERR_NUMBER_PARSING
            else if number_from base 0 xs \<le> 0x7FFFFFFF then Inr (c # r, of_nat (number_from base 0 xs))
            else Inl ERR_NUMBER_OVERFLOW)"
  using assms by (rule safe_parse_number)

lemma safe_parse_maxint_correct_witness:
  "safe_parse_maxint [0x30, 0x78, 0x31, 0x46, 0x2c, 0] = Some (Inr ([0x2c, 0], 31))"
  using safe_parse_maxint_correct [of 16 "[0x31, 0x46]" "0x2c" "[0x30, 0x78]" "[0]"]
  by (simp add: digit_val_def number_from_def)

section \<open>Printing numbers\<close>

fun nat_digits :: "nat \<Rightarrow> nat \<Rightarrow> nat list" where
  "nat_digits base n =
     (if n < base \<or> base < 2 then [n] else nat_digits base (n div base) @ [n mod base])"

declare nat_digits.simps [simp del]

definition digit_char :: "nat \<Rightarrow> u8" where
  "digit_char d = of_nat (if 9 < d then d + 0x61 - 10 else 0x30 + d)"

lemma nat_digits_not_Nil [simp]: "nat_digits base n \<noteq> []"
  by (subst nat_digits.simps) simp

lemma nat_digits_range: "2 \<le> base \<Longrightarrow> d \<in> set (nat_digits base n) \<Longrightarrow> d < base"
  by (induction base n rule: nat_digits.induct) (subst (asm) (2) nat_digits.simps, auto split: if_splits)

lemma length_nat_digits:
  "2 \<le> base \<Longrightarrow> n < base ^ Suc k \<Longrightarrow> length (nat_digits base n) \<le> Suc k"
proof (induction k arbitrary: n)
  case 0
  then show ?case by (subst nat_digits.simps) simp
next
  case (Suc k)
  show ?case
  proof (cases "n < base")
    case True
    then show ?thesis by (subst nat_digits.simps) simp
  next
    case False
    have "n div base < base ^ Suc k"
      using Suc.prems by (simp add: less_mult_imp_div_less mult.commute)
    with Suc.IH [of "n div base"] Suc.prems False show ?thesis by (subst nat_digits.simps) simp
  qed
qed

lemma digit_val_char: "d < 16 \<Longrightarrow> d < base \<Longrightarrow> digit_val base (digit_char d) = Some d"
  by (auto simp: digit_val_def digit_char_def Let_def unsigned_of_nat take_bit_nat_def)

lemma number_from_snoc:
  "number_from base v (xs @ [c]) = number_from base v xs * base + the (digit_val base c)"
  by (simp add: number_from_def)

lemma number_from_digits:
  "2 \<le> base \<Longrightarrow> base \<le> 16 \<Longrightarrow> number_from base 0 (map digit_char (nat_digits base n)) = n"
proof (induction base n rule: nat_digits.induct)
  case (1 base n)
  show ?case
  proof (cases "n < base")
    case True
    with "1.prems" show ?thesis
      by (subst nat_digits.simps) (simp add: number_from_def digit_val_char)
  next
    case False
    moreover have "n mod base < base" using "1.prems" by simp
    moreover from this have "n mod base < 16" using "1.prems" by linarith
    ultimately show ?thesis
      using "1.IH" "1.prems"
      by (subst nat_digits.simps) (simp add: number_from_snoc digit_val_char)
  qed
qed

lemma store_one_digit:
  fixes n mult :: nat
  assumes "mult = 10 \<or> mult = 16" and "n < 2 ^ 32"
  defines "dig \<equiv> (of_nat n :: u32) mod of_nat mult"
  shows "(if 9 < dig then ucast dig + 0x61 - 10 else 0x30 + ucast dig) = digit_char (n mod mult)"
    and "(of_nat n :: u32) div of_nat mult = of_nat (n div mult)"
proof -
  have n: "unat (of_nat n :: u32) = n" using assms(2) by (rule unat_of_nat_below32)
  have m: "unat (of_nat mult :: u32) = mult" "mult \<le> 16" using assms(1) by auto
  have "unat dig = n mod mult" by (simp add: dig_def unat_mod n m(1))
  moreover from this have "(ucast dig :: u8) = of_nat (n mod mult)"
    by (metis of_nat_unat)
  ultimately show "(if 9 < dig then ucast dig + 0x61 - 10 else 0x30 + ucast dig) = digit_char (n mod mult)"
    by (simp add: digit_char_def word_less_nat_alt)
  have "n div mult < 2 ^ 32" using assms(2) by (meson div_le_dividend le_less_trans)
  then show "(of_nat n :: u32) div of_nat mult = of_nat (n div mult)"
    by (simp add: word_unat_eq_iff unat_div n m(1) unat_of_nat_below32)
qed

lemma store_digits_correct:
  assumes m: "mult = 10 \<or> mult = 16"
    and "p + length (nat_digits mult n) \<le> length buf" and "n < 2 ^ 32"
  shows "store_digits buf p (of_nat n) (of_nat mult)
    = Some (overlay buf p (rev (map digit_char (nat_digits mult n))), p + length (nat_digits mult n))"
  using assms(2,3)
proof (induction n arbitrary: buf p rule: less_induct)
  case (less n)
  note one = store_one_digit [OF m less.prems(2)]
  let ?c = "digit_char (n mod mult)"
  have "p + 1 \<le> p + length (nat_digits mult n)" by (simp add: Suc_le_eq)
  then have p: "p < length buf" using less.prems(1) by linarith
  have m1: "1 < (of_nat mult :: u32)" using m by auto
  have z: "(of_nat (n div mult) :: u32) \<noteq> 0 \<longleftrightarrow> mult \<le> n"
  proof -
    have "n div mult < 2 ^ 32" using less.prems(2) by (meson div_le_dividend le_less_trans)
    then have "unat (of_nat (n div mult) :: u32) = n div mult" by (rule unat_of_nat_below32)
    then have "(of_nat (n div mult) :: u32) = 0 \<longleftrightarrow> n div mult = 0" by (simp add: word_unat_eq_iff)
    also have "\<dots> \<longleftrightarrow> n < mult" using m by (auto simp: div_eq_0_iff)
    finally show ?thesis by auto
  qed
  have st: "store_digits buf p (of_nat n) (of_nat mult)
      = (if mult \<le> n then store_digits (buf[p := ?c]) (Suc p) (of_nat (n div mult)) (of_nat mult)
         else Some (buf[p := ?c], Suc p))"
    using p m1 by (subst store_digits.simps) (simp add: one Let_def z)
  show ?case
  proof (cases "mult \<le> n")
    case False
    then show ?thesis using p by (simp add: st nat_digits.simps [of mult n] overlay_Cons [where xs = "[]", simplified])
  next
    case True
    then have ds: "nat_digits mult n = nat_digits mult (n div mult) @ [n mod mult]"
      using m by (subst nat_digits.simps) auto
    have "n div mult < n" using True m by auto
    moreover from this have "n div mult < 2 ^ 32" using less.prems(2) by linarith
    ultimately show ?thesis
      using less.IH [of "n div mult" "Suc p" "buf[p := ?c]"] less.prems True p
      by (simp add: st ds overlay_Cons)
  qed
qed

lemma swap_digits_rev:
  "swap_digits (pre @ xs @ post) (length pre + length xs - 1) (length pre) = Some (pre @ rev xs @ post)"
proof (induction "length xs" arbitrary: xs pre post rule: less_induct)
  case less
  show ?case
  proof (cases "length xs < 2")
    case True
    then have "xs = [] \<or> (\<exists>x. xs = [x])" by (cases xs; cases "tl xs") auto
    then show ?thesis by (subst swap_digits.simps) auto
  next
    case False
    then obtain x ys y where xs: "xs = x # ys @ [y]"
      by (cases xs; cases "tl xs" rule: rev_cases) auto
    have "swap_digits (pre @ xs @ post) (length pre + length xs - 1) (length pre)
        = swap_digits ((pre @ [y]) @ ys @ (x # post)) (length (pre @ [y]) + length ys - 1) (length (pre @ [y]))"
      by (subst swap_digits.simps) (simp add: xs nth_append list_update_append)
    then show ?thesis using less [of ys "pre @ [y]" "x # post"] by (simp add: xs)
  qed
qed

definition conv_base :: "char \<Rightarrow> nat" where
  "conv_base c = (if c = CHR ''x'' \<or> c = CHR ''X'' then 16 else 10)"

lemma convert_unsigned:
  assumes "num AND 0x80000000 = 0 \<or> c \<noteq> CHR ''d''"
    and "length (nat_digits (conv_base c) (unat num)) \<le> length buf"
  shows "convert_to_ascii buf c num
    = Some (overlay buf 0 (map digit_char (nat_digits (conv_base c) (unat num))),
            length (nat_digits (conv_base c) (unat num)))"
proof -
  define ds where "ds = map digit_char (nat_digits (conv_base c) (unat num))"
  have b: "conv_base c = 10 \<or> conv_base c = 16" by (simp add: conv_base_def)
  have m: "(if c = CHR ''x'' \<or> c = CHR ''X'' then 16 else 10) = (of_nat (conv_base c) :: u32)"
    by (simp add: conv_base_def)
  have ds: "ds \<noteq> []" "length ds \<le> length buf" "length ds = length (nat_digits (conv_base c) (unat num))"
    using assms(2) by (simp_all add: ds_def)
  have "unat num < 2 ^ LENGTH(32)" by (rule unsigned_less)
  then have "store_digits buf 0 num (of_nat (conv_base c)) = Some (overlay buf 0 (rev ds), length ds)"
    using store_digits_correct [OF b, of 0 "unat num" buf] ds by (simp add: ds_def)
  moreover have "swap_digits (overlay buf 0 (rev ds)) (length ds - 1) 0 = Some (overlay buf 0 ds)"
    using swap_digits_rev [of "[]" "rev ds" "drop (length ds) buf"] by (simp add: overlay_def)
  ultimately show ?thesis
    using assms(1) by (auto simp: convert_to_ascii_def Let_def m ds(3) simp flip: ds_def)
qed

lemma conv_digits_bound:
  "length (nat_digits (conv_base c) (unat (num :: u32))) \<le> (if c = CHR ''x'' \<or> c = CHR ''X'' then 8 else 10)"
proof -
  have "unat num < 2 ^ LENGTH(32)" by (rule unsigned_less)
  then show ?thesis
    using length_nat_digits [of 10 "unat num" 9] length_nat_digits [of 16 "unat num" 7]
    by (simp add: conv_base_def)
qed

lemma high_bit_clear:
  assumes "num \<le> (0x7FFFFFFF :: u32)"
  shows "num AND 0x80000000 = 0"
proof -
  have "unat num < 2 ^ 31" using assms by (simp add: word_le_nat_alt)
  then have "\<not> bit (unat num) 31" by (simp add: bit_iff_odd)
  then have "\<not> bit num 31" by (simp add: bit_unsigned_iff)
  then show ?thesis using and_exp_eq_0_iff_not_bit [of num 31] by simp
qed

lemma no_hex_prefix: "list_all (\<lambda>x. digit_val 10 x \<noteq> None) ds \<Longrightarrow> \<not> hex_prefix (ds @ [0])"
  by (cases ds; cases "tl ds") (auto simp: hex_prefix_def digit_val_def)

text \<open>
  \<open>convert_to_ascii\<close>, the conversion behind \<open>%d\<close>, \<open>%u\<close> and \<open>%x\<close>, never overruns the
  16-byte buffer of its callers: the end pointer leaves room for the terminating NUL. What it
  writes for an unsigned conversion is parsed back by \<open>safe_parse_maxint\<close> to the same number.
\<close>

theorem convert_parse_roundtrip:
  assumes "length buf = 16" and "num \<le> 0x7FFFFFFF" and "c = CHR ''u'' \<or> c = CHR ''d'' \<or> c = CHR ''x''"
  shows "\<exists>b p. convert_to_ascii buf c num = Some (b, p) \<and> p < 16 \<and> length b = 16
    \<and> safe_parse_maxint ((if c = CHR ''x'' then [0x30, 0x78] else []) @ take p b @ [0]) = Some (Inr ([0], num))"
proof -
  define n where "n = unat num"
  define ds where "ds = map digit_char (nat_digits (conv_base c) n)"
  have n: "n \<le> 0x7FFFFFFF" using assms(2) by (simp add: n_def word_le_nat_alt)
  have len: "length ds \<le> 10"
    using conv_digits_bound [of c num] by (auto simp: ds_def n_def split: if_splits)
  have "convert_to_ascii buf c num = Some (overlay buf 0 ds, length ds)"
    using convert_unsigned [OF disjI1, OF high_bit_clear [OF assms(2)], of c buf] assms(1) len
    by (simp add: ds_def n_def)
  moreover have "safe_parse_maxint ((if c = CHR ''x'' then [0x30, 0x78] else []) @ ds @ [0]) = Some (Inr ([0], num))"
  proof -
    have digits: "list_all (\<lambda>x. digit_val (conv_base c) x \<noteq> None) ds"
      using nat_digits_range [of "conv_base c" _ n]
      by (force simp: ds_def list_all_iff conv_base_def digit_val_char split: if_splits)
    have "number_from (conv_base c) 0 ds = n"
      unfolding ds_def by (rule number_from_digits) (simp_all add: conv_base_def)
    moreover have "ds \<noteq> []" by (simp add: ds_def)
    moreover have "\<not> hex_prefix (ds @ [0])" if "conv_base c = 10"
      using no_hex_prefix [of ds] digits that by simp
    ultimately show ?thesis
      using safe_parse_number [OF digits, of 0 "if c = CHR ''x'' then [0x30, 0x78] else []" "[]"] n assms(3)
      by (auto simp: conv_base_def digit_val_def n_def)
  qed
  ultimately show ?thesis
    using assms(1) len by (intro exI [of _ "overlay buf 0 ds"] exI [of _ "length ds"]) (simp add: overlay_def)
qed

lemma convert_parse_roundtrip_witness:
  "\<exists>b p. convert_to_ascii (replicate 16 0) CHR ''u'' 1600 = Some (b, p) \<and> p < 16
     \<and> safe_parse_maxint (take p b @ [0]) = Some (Inr ([0], 1600))"
  using convert_parse_roundtrip [of "replicate 16 0" 1600 "CHR ''u''"] by auto

lemma strncat_end_str:
  assumes "str_at s1 a" and "length s1 = n" and "i \<le> length a"
  shows "strncat_end s1 i n = Some (length a)"
  using assms(3)
proof (induction "length a - i" arbitrary: i)
  case 0
  with assms show ?case by (subst strncat_end.simps) (auto elim!: str_atE)
next
  case (Suc k)
  obtain r where s1: "s1 = a @ 0 # r" "0 \<notin> set a" using assms(1) by (rule str_atE)
  from Suc.hyps(2) have i: "i < length a" by simp
  then have "a ! i \<noteq> 0" using s1(2) nth_mem by metis
  with i have "s1 ! i \<noteq> 0" "i < n" using s1 assms(2) by (auto simp: nth_append)
  with Suc.hyps(1) [of "Suc i"] Suc.hyps(2) i assms(2) show ?case by (subst strncat_end.simps) simp
qed

lemma strncat_copy_str:
  "0 \<notin> set b \<Longrightarrow> i \<le> length s1 \<Longrightarrow> strncat_copy s1 (b @ 0 # q) i (length s1)
     = Some (overlay s1 i (take (length s1 - i) (b @ [0])), min (length s1) (i + length b + 1))"
proof (induction b arbitrary: s1 i)
  case Nil
  then show ?case
    by (subst strncat_copy.simps) (auto simp: overlay_def upd_conv_take_nth_drop)
next
  case (Cons x b)
  show ?case
  proof (cases "i < length s1")
    case False
    with Cons.prems show ?thesis by (subst strncat_copy.simps) simp
  next
    case True
    then have "length s1 - i = Suc (length s1 - Suc i)" by simp
    with Cons.IH [of "Suc i" "s1[i := x]"] Cons.prems True show ?thesis
      by (subst strncat_copy.simps) (simp add: overlay_Cons)
  qed
qed

text \<open>
  \<open>grub_strncat\<close> with the size \<open>n\<close> of the array appends the second string and terminates
  the result. It returns 1 if the result with its NUL leaves at least one byte of the array
  unused, and otherwise cuts the result to \<open>n - 1\<close> characters and returns 0, also when the
  result would just have fit; it never writes outside the array.
\<close>

theorem grub_strncat_correct:
  assumes "str_at s1 a" and "str_at s2 b" and "length s1 = n" 
  shows "\<exists>r. grub_strncat s1 s2 n = Some (if length (a @ b) + 1 < n then 1 else 0, r)
    \<and> length r = n \<and> str_at r (take (n - 1) (a @ b))"
proof -
  obtain r1 where s1: "s1 = a @ 0 # r1" "0 \<notin> set a" using assms(1) by (rule str_atE)
  obtain q where s2: "s2 = b @ 0 # q" "0 \<notin> set b" using assms(2) by (rule str_atE)
  have n: "length a < n" using s1 assms(3) by simp
  define y where "y = overlay s1 (length a) (take (n - length a) (b @ [0]))"
  define i where "i = min n (length a + length b + 1)"
  have ly: "length y = n" using assms(3) n by (simp add: y_def)
  have cat: "grub_strncat s1 s2 n = (if n \<le> i then Some (0, y[n - 1 := 0])
      else Some (1, y[n - 1 := 0, i := 0]))"
    using strncat_end_str [OF assms(1,3), of 0] strncat_copy_str [OF s2(2), of "length a" s1 q] n assms(3) ly
    by (auto simp: grub_strncat_def y_def i_def s2(1))
  have y: "y = a @ take (n - length a) (b @ [0]) @ drop (length a + length (take (n - length a) (b @ [0]))) s1"
    by (simp add: y_def overlay_def s1)
  show ?thesis
  proof (cases "length (a @ b) + 1 < n")
    case True
    then have "y = (a @ b) @ 0 # drop (length (a @ b) + 1) s1" and "i = length (a @ b) + 1"
      using y by (simp_all add: i_def)
    with True have "str_at (y[n - 1 := 0, i := 0]) (a @ b)"
      using s1(2) s2(2) by (auto simp: str_at_def prefix_def list_update_append split: nat.splits)
    with True cat ly show ?thesis by (auto simp: i_def)
  next
    case False
    then have "take (n - 1) y = take (n - 1) (a @ b)" using n by (simp add: y)
    then have "y[n - 1 := 0] = take (n - 1) (a @ b) @ [0]"
      using ly n upd_conv_take_nth_drop [of "n - 1" y 0] by simp
    moreover have "0 \<notin> set (take (n - 1) (a @ b))" using s1(2) s2(2) by (auto dest: in_set_takeD)
    ultimately have "str_at (y[n - 1 := 0]) (take (n - 1) (a @ b))" by (simp add: str_at_def)
    with False cat ly show ?thesis by (auto simp: i_def)
  qed
qed

lemma grub_strncat_correct_witness:
  "\<exists>r. grub_strncat [0x61, 0, 9, 9] [0x62, 0x63, 0] 4 = Some (0, r) \<and> str_at r [0x61, 0x62, 0x63]"
  using grub_strncat_correct [of "[0x61, 0, 9, 9]" "[0x61]" "[0x62, 0x63, 0]" "[0x62, 0x63]" 4]
  by (auto simp: str_at_def)

section \<open>What the memory functions do\<close>

lemma movsb_up_spec:
  "dest < src \<Longrightarrow> movsb_up m dest src n k = (if dest \<le> k \<and> k < dest + n then m (src + (k - dest)) else m k)"
proof (induction n arbitrary: m dest src)
  case (Suc n)
  then have "movsb_up (m(dest := m src)) (Suc dest) (Suc src) n k
      = (if Suc dest \<le> k \<and> k < Suc dest + n then (m(dest := m src)) (Suc src + (k - Suc dest)) else (m(dest := m src)) k)"
    by simp
  moreover have "Suc src + (k - Suc dest) = src + (k - dest)" if "Suc dest \<le> k" using that by simp
  ultimately show ?case using Suc.prems by (cases "k = dest") (auto simp del: add_Suc)
qed auto

lemma movsb_down_spec:
  "src \<le> dest \<Longrightarrow> movsb_down m dest src n k = (if dest \<le> k \<and> k < dest + n then m (src + (k - dest)) else m k)"
  by (induction n arbitrary: m) (auto simp: not_less le_less_Suc_eq)

lemma set_loop_spec: "set_loop m p c n k = (if p \<le> k \<and> k < p + n then c else m k)"
  by (induction n arbitrary: m p) auto

lemma memmove_spec:
  assumes "memcheck lower upper errnum (of_nat dest) (of_nat len) = (True, e)"
  shows "snd (grub_memmove lower upper dest src len (m, errnum)) = ERR_NONE
    \<and> fst (grub_memmove lower upper dest src len (m, errnum)) k
        = (if dest \<le> k \<and> k < dest + len then m (src + (k - dest)) else m k)"
proof -
  have "e = ERR_NONE" using assms by (auto simp: memcheck_def Let_def)
  with assms movsb_up_spec [of dest src m len k] movsb_down_spec [of src dest m len k] show ?thesis
    by (simp add: grub_memmove_def not_less)
qed

text \<open>
  \<open>grub_memmove\<close> copies overlapping ranges correctly in both directions: if no error is
  pending and the destination lies in usable memory, every byte of the destination becomes the
  byte the source held before the call, and no other byte changes.
\<close>

lemma grub_memmove_correct:
  assumes "memcheck lower upper errnum (of_nat dest) (of_nat len) = (True, e)"
  shows "snd (grub_memmove lower upper dest src len (m, errnum)) = ERR_NONE
    \<and> fst (grub_memmove lower upper dest src len (m, errnum)) k
        = (if dest \<le> k \<and> k < dest + len then m (src + (k - dest)) else m k)"
  using assms by (rule memmove_spec)

lemma grub_memmove_correct_witness:
  "fst (grub_memmove 640 1024 0x2001 0x2000 3 (\<lambda>a. of_nat a, ERR_NONE)) 0x2003 = 2"
  using grub_memmove_correct [of 640 1024 ERR_NONE "0x2001" 3 ERR_NONE "0x2000" "\<lambda>a. of_nat a" "0x2003"]
  by (simp add: memcheck_def)

text \<open>
  Once \<open>errnum\<close> is set, \<open>grub_memmove\<close> and \<open>grub_memset\<close> do nothing at all: they change no
  byte and the error stays. The same holds for a destination below \<open>0x1000\<close> or beyond the
  memory size, for which they set \<open>ERR_WONT_FIT\<close>.
\<close>

theorem memory_error_is_noop:
  assumes "fst (memcheck lower upper errnum (of_nat dest) (of_nat len)) = False"
  shows "fst (grub_memmove lower upper dest src len (m, errnum)) = m
    \<and> fst (grub_memset lower upper dest c len (m, errnum)) = m
    \<and> snd (grub_memmove lower upper dest src len (m, errnum)) \<in> {errnum, ERR_WONT_FIT} - {ERR_NONE}
    \<and> snd (grub_memset lower upper dest c len (m, errnum)) \<in> {errnum, ERR_WONT_FIT} - {ERR_NONE}"
  using assms by (auto simp: grub_memmove_def grub_memset_def memcheck_def Let_def)

lemma memory_error_is_noop_witness:
  "fst (grub_memset 640 1024 0x500 7 16 (\<lambda>_. 0, ERR_NONE)) = (\<lambda>_. 0)
   \<and> snd (grub_memmove 640 1024 0x3000 0 4 (\<lambda>_. 0, ERR_READ)) \<in> {ERR_READ, ERR_WONT_FIT} - {ERR_NONE}"
  using memory_error_is_noop [of 640 1024 ERR_NONE "0x500" 16 0 "\<lambda>_. 0" 7]
    memory_error_is_noop [of 640 1024 ERR_READ "0x3000" 4 0 "\<lambda>_. 0" 0]
  by (simp add: memcheck_def)

lemma memset_spec:
  assumes "memcheck lower upper errnum (of_nat start) (of_nat len) = (True, e)"
  shows "grub_memset lower upper start c len (m, errnum)
    = ((\<lambda>k. if start \<le> k \<and> k < start + len then of_int c else m k), ERR_NONE)"
  using assms by (auto simp: grub_memset_def set_loop_spec memcheck_def Let_def fun_eq_iff)

definition mem_str :: "memory \<Rightarrow> nat \<Rightarrow> u8 list \<Rightarrow> bool" where
  "mem_str m p a \<longleftrightarrow> 0 \<notin> set a \<and> (\<forall>k<length a. m (p + k) = a ! k) \<and> m (p + length a) = 0"

lemma mem_strlen_str: "mem_str m p a \<Longrightarrow> length a < bound \<Longrightarrow> mem_strlen bound m p = Some (length a)"
proof (induction bound arbitrary: p a)
  case (Suc bound)
  show ?case
  proof (cases a)
    case Nil
    with Suc.prems show ?thesis by (simp add: mem_str_def)
  next
    case (Cons c b)
    then have "mem_str m (Suc p) b" "m p = c" "c \<noteq> 0"
      using Suc.prems(1) by (auto simp: mem_str_def)
    with Suc Cons show ?thesis by auto
  qed
qed auto

lemma strcpy_copies:
  assumes "mem_str m src a" and "length a < bound"
    and "memcheck lower upper errnum (of_nat dest) (of_nat (length a + 1)) = (True, e)"
  shows "\<exists>m'. grub_strcpy lower upper bound dest src (m, errnum) = Some (m', ERR_NONE) \<and> mem_str m' dest a"
proof -
  let ?s' = "grub_memmove lower upper dest src (length a + 1) (m, errnum)"
  have "snd ?s' = ERR_NONE" "fst ?s' k = (if dest \<le> k \<and> k < dest + (length a + 1) then m (src + (k - dest)) else m k)" for k
    using memmove_spec [OF assms(3)] by simp_all
  moreover have "grub_strcpy lower upper bound dest src (m, errnum) = Some ?s'"
    using mem_strlen_str [OF assms(1,2)] by (simp add: grub_strcpy_def)
  ultimately show ?thesis
    using assms(1) by (intro exI [of _ "fst ?s'"]) (simp add: mem_str_def prod_eq_iff)
qed

lemma word_end_spec:
  "0 \<in> set s \<Longrightarrow> word_end s = Some (length (takeWhile (\<lambda>c. c \<noteq> 0 \<and> \<not> grub_isspace (sint c)) s))"
  by (induction s) auto

end
