(* ===== verification/Md5.thy ===== *)
theory Md5
  imports CString
begin

text \<open>
  MD5 and the MD5 password hash of \<^verbatim>\<open>stage2/md5.c\<close>, against RFC 1321 and the algorithm of
  the crypt function with the prefix \<open>$1$\<close>. The static variables \<open>state\<close>, \<open>length\<close> and
  \<open>buffer\<close> of the file are a record that every operation threads.
\<close>

section \<open>The implementation\<close>

definition md5_F :: "u32 \<Rightarrow> u32 \<Rightarrow> u32 \<Rightarrow> u32" where
  "md5_F x y z = (x AND y) OR (NOT x AND z)"

definition md5_G :: "u32 \<Rightarrow> u32 \<Rightarrow> u32 \<Rightarrow> u32" where
  "md5_G x y z = (x AND z) OR (y AND NOT z)"

definition md5_H :: "u32 \<Rightarrow> u32 \<Rightarrow> u32 \<Rightarrow> u32" where
  "md5_H x y z = x XOR y XOR z"

definition md5_I :: "u32 \<Rightarrow> u32 \<Rightarrow> u32 \<Rightarrow> u32" where
  "md5_I x y z = y XOR (x OR NOT z)"

definition ROTATE_LEFT :: "u32 \<Rightarrow> nat \<Rightarrow> u32" where
  "ROTATE_LEFT x n = push_bit n x OR drop_bit (32 - n) x"

definition initstate :: "u32 list" where
  "initstate = [0x67452301, 0xefcdab89, 0x98badcfe, 0x10325476]"

definition md5_s1 :: "nat list" where "md5_s1 = [7, 12, 17, 22]"
definition md5_s2 :: "nat list" where "md5_s2 = [5, 9, 14, 20]"
definition md5_s3 :: "nat list" where "md5_s3 = [4, 11, 16, 23]"
definition md5_s4 :: "nat list" where "md5_s4 = [6, 10, 15, 21]"

definition md5_T :: "u32 list" where
  "md5_T = [
    0xd76aa478, 0xe8c7b756, 0x242070db, 0xc1bdceee,
    0xf57c0faf, 0x4787c62a, 0xa8304613, 0xfd469501,
    0x698098d8, 0x8b44f7af, 0xffff5bb1, 0x895cd7be,
    0x6b901122, 0xfd987193, 0xa679438e, 0x49b40821,
    0xf61e2562, 0xc040b340, 0x265e5a51, 0xe9b6c7aa,
    0xd62f105d, 0x02441453, 0xd8a1e681, 0xe7d3fbc8,
    0x21e1cde6, 0xc33707d6, 0xf4d50d87, 0x455a14ed,
    0xa9e3e905, 0xfcefa3f8, 0x676f02d9, 0x8d2a4c8a,
    0xfffa3942, 0x8771f681, 0x6d9d6122, 0xfde5380c,
    0xa4beea44, 0x4bdecfa9, 0xf6bb4b60, 0xbebfbc70,
    0x289b7ec6, 0xeaa127fa, 0xd4ef3085, 0x04881d05,
    0xd9d4d039, 0xe6db99e5, 0x1fa27cf8, 0xc4ac5665,
    0xf4292244, 0x432aff97, 0xab9423a7, 0xfc93a039,
    0x655b59c3, 0x8f0ccc92, 0xffeff47d, 0x85845dd1,
    0x6fa87e4f, 0xfe2ce6e0, 0xa3014314, 0x4e0811a1,
    0xf7537e82, 0xbd3af235, 0x2ad7d2bb, 0xeb86d391]"

definition b64t :: "u8 list" where
  "b64t = map (of_char :: char \<Rightarrow> u8) ''./0123456789ABCDEFGHIJKLMNOPQRSTUVWXYZabcdefghijklmnopqrstuvwxyz''"

record md5_vars =
  state :: "u32 list"
  length_counter :: u32
  md5_buffer :: "u8 list"

text \<open>The \<open>i\<close>-th word of the block as the little-endian processor loads it.\<close>

definition le_word :: "u8 list \<Rightarrow> nat \<Rightarrow> u32" where
  "le_word bs i =
     ucast (bs ! (4 * i)) OR push_bit 8 (ucast (bs ! (4 * i + 1)))
     OR push_bit 16 (ucast (bs ! (4 * i + 2))) OR push_bit 24 (ucast (bs ! (4 * i + 3)))"

type_synonym md5_regs = "u32 \<times> u32 \<times> u32 \<times> u32"

text \<open>One iteration of a round; the four rounds differ in the function, the word and the rotation.\<close>

definition md5_iter :: "(u32 \<Rightarrow> u32 \<Rightarrow> u32 \<Rightarrow> u32) \<Rightarrow> (nat \<Rightarrow> u32) \<Rightarrow> nat list \<Rightarrow> nat \<Rightarrow> nat
    \<Rightarrow> md5_regs \<Rightarrow> md5_regs" where
  "md5_iter f x s t i r =
     (let (a, b, c, d) = r;
          tmp = a + f b c d + x i + md5_T ! (i + t);
          tmp = ROTATE_LEFT tmp (s ! (i mod 4));
          tmp = tmp + b
      in (d, tmp, b, c))"

definition md5_transform :: "md5_vars \<Rightarrow> u8 list \<Rightarrow> md5_vars option" where
  "md5_transform v block =
     (if length block < 64 then None
      else
        let x = le_word block;
            r0 = (state v ! 0, state v ! 1, state v ! 2, state v ! 3);
            r1 = fold (md5_iter md5_F (\<lambda>i. x i) md5_s1 0) [0..<16] r0;
            r2 = fold (md5_iter md5_G (\<lambda>i. x ((1 + 5 * i) mod 16)) md5_s2 16) [0..<16] r1;
            r3 = fold (md5_iter md5_H (\<lambda>i. x ((5 + 3 * i) mod 16)) md5_s3 32) [0..<16] r2;
            (a, b, c, d) = fold (md5_iter md5_I (\<lambda>i. x ((7 * i) mod 16)) md5_s4 48) [0..<16] r3
        in Some (v\<lparr>state := [state v ! 0 + a, state v ! 1 + b, state v ! 2 + c, state v ! 3 + d]\<rparr>))"

definition md5_init :: "md5_vars \<Rightarrow> md5_vars" where
  "md5_init v = v\<lparr>state := initstate, length_counter := 0\<rparr>"

text \<open>The loop over full blocks of \<open>md5_update\<close>; the pointer and the count are one list.\<close>

function md5_blocks :: "md5_vars \<Rightarrow> u8 list \<Rightarrow> (md5_vars \<times> u8 list) option" where
  "md5_blocks v input =
     (if 64 \<le> length input
      then case md5_transform v (take 64 input) of None \<Rightarrow> None
           | Some v' \<Rightarrow> md5_blocks v' (drop 64 input)
      else Some (v, input))"
  by pat_completeness auto
termination
  by (relation "measure (\<lambda>(v, input). length input)") auto

declare md5_blocks.simps [simp del]

text \<open>
  \<open>md5_update (data, inputlen)\<close>; reading beyond the array \<open>data\<close> is undefined. Its \<open>memcpy\<close>, like those of \<open>md5_init\<close> and \<open>md5_final\<close> and their
  \<open>memset\<close>, would do nothing while \<open>errnum\<close> is set: the definitions are for a call without a pending error.
\<close>

definition md5_update :: "md5_vars \<Rightarrow> u8 list \<Rightarrow> nat \<Rightarrow> md5_vars option" where
  "md5_update v data inputlen =
     (if length data < inputlen then None
      else
        let input = take inputlen data;
            buflen = unat (length_counter v AND 63);
            v1 = v\<lparr>length_counter := length_counter v + of_nat inputlen\<rparr>
        in if buflen + inputlen < 64
           then do { b \<leftarrow> copy_loop (md5_buffer v1) buflen input 0 inputlen;
                     Some (v1\<lparr>md5_buffer := b\<rparr>) }
           else do { b \<leftarrow> copy_loop (md5_buffer v1) buflen input 0 (64 - buflen);
                     v2 \<leftarrow> md5_transform (v1\<lparr>md5_buffer := b\<rparr>) b;
                     (v3, input') \<leftarrow> md5_blocks v2 (drop (64 - buflen) input);
                     b' \<leftarrow> copy_loop (md5_buffer v3) 0 input' 0 (length input');
                     Some (v3\<lparr>md5_buffer := b'\<rparr>) })"

text \<open>The store of a little-endian word, and \<open>md5_final\<close> with the 16 bytes of the digest.\<close>

definition le_bytes32 :: "u32 \<Rightarrow> u8 list" where
  "le_bytes32 w = [ucast w, ucast (drop_bit 8 w), ucast (drop_bit 16 w), ucast (drop_bit 24 w)]"

definition md5_final :: "md5_vars \<Rightarrow> (md5_vars \<times> u8 list) option" where
  "md5_final v =
     (let buflen = unat (length_counter v AND 63)
      in do {
           b1 \<leftarrow> wr (md5_buffer v) buflen 0x80;
           b2 \<leftarrow> copy_loop b1 (buflen + 1) (replicate 64 0) 0 (64 - (buflen + 1));
           v1 \<leftarrow> (if 56 < buflen + 1
                  then do { v' \<leftarrow> md5_transform (v\<lparr>md5_buffer := b2\<rparr>) b2;
                            b3 \<leftarrow> copy_loop b2 0 (replicate 64 0) 0 64;
                            Some (v'\<lparr>md5_buffer := b3\<rparr>) }
                  else Some (v\<lparr>md5_buffer := b2\<rparr>));
           b4 \<leftarrow> copy_loop (md5_buffer v1) 56 (le_bytes32 (8 * length_counter v1)) 0 4;
           b5 \<leftarrow> copy_loop b4 60 (le_bytes32 0) 0 4;
           v2 \<leftarrow> md5_transform (v1\<lparr>md5_buffer := b5\<rparr>) b5;
           Some (v2, concat (map le_bytes32 (state v2))) })"

section \<open>MD5 passwords\<close>

text \<open>The loop that feeds the first digest once per 16 characters of the key.\<close>

function alt_rounds :: "md5_vars \<Rightarrow> u8 list \<Rightarrow> nat \<Rightarrow> md5_vars option" where
  "alt_rounds v alt_result i =
     (if 16 < i
      then case md5_update v alt_result 16 of None \<Rightarrow> None
           | Some v' \<Rightarrow> alt_rounds v' alt_result (i - 16)
      else md5_update v alt_result i)"
  by pat_completeness auto
termination
  by (relation "measure (\<lambda>(v, alt_result, i). i)") auto

declare alt_rounds.simps [simp del]

text \<open>
  The loop over the bits of the length: a one bit feeds the NUL behind the key, a zero bit its
  first character. \<open>key\<close> is the array with the terminating NUL.
\<close>

fun bit_rounds :: "md5_vars \<Rightarrow> u8 list \<Rightarrow> nat \<Rightarrow> nat \<Rightarrow> md5_vars option" where
  "bit_rounds v key keylen i =
     (if 0 < i
      then case md5_update v (drop (if odd i then keylen else 0) key) 1 of None \<Rightarrow> None
           | Some v' \<Rightarrow> bit_rounds v' key keylen (i div 2)
      else Some v)"

declare bit_rounds.simps [simp del]

text \<open>\<open>n\<close> more of the thousand rounds, from round \<open>i\<close> on.\<close>

primrec crypt_rounds :: "nat \<Rightarrow> nat \<Rightarrow> md5_vars \<Rightarrow> u8 list \<Rightarrow> u8 list \<Rightarrow> nat \<Rightarrow> u8 list \<Rightarrow> nat
    \<Rightarrow> (md5_vars \<times> u8 list) option" where
  "crypt_rounds 0 i v digest key keylen salt saltlen = Some (v, digest)"
| "crypt_rounds (Suc n) i v digest key keylen salt saltlen =
     do { let alt_result = digest;
          v1 \<leftarrow> (if odd i then md5_update (md5_init v) key keylen else md5_update (md5_init v) alt_result 16);
          v2 \<leftarrow> (if i mod 3 \<noteq> 0 then md5_update v1 salt saltlen else Some v1);
          v3 \<leftarrow> (if i mod 7 \<noteq> 0 then md5_update v2 key keylen else Some v2);
          v4 \<leftarrow> (if odd i then md5_update v3 alt_result 16 else md5_update v3 key keylen);
          (v5, digest') \<leftarrow> md5_final v4;
          crypt_rounds n (Suc i) v5 digest' key keylen salt saltlen }"

text \<open>\<open>n\<close> characters of the base-64 text of \<open>w\<close>, compared or stored at index \<open>p\<close> of \<open>crypted\<close>.\<close>

primrec b64_out :: "bool \<Rightarrow> nat \<Rightarrow> u32 \<Rightarrow> nat \<Rightarrow> u8 list \<Rightarrow> (int + nat \<times> u8 list) option" where
  "b64_out check 0 w p crypted = Some (Inr (p, crypted))"
| "b64_out check (Suc n) w p crypted =
     (let c = b64t ! unat (w AND 0x3f)
      in if check
         then do { x \<leftarrow> rd crypted p;
                   if x \<noteq> c then Some (Inl 1) else b64_out check n (drop_bit 6 w) (Suc p) crypted }
         else do { crypted' \<leftarrow> wr crypted p c; b64_out check n (drop_bit 6 w) (Suc p) crypted' })"

definition digest_word :: "u8 list \<Rightarrow> nat \<Rightarrow> u32" where
  "digest_word digest i =
     ucast (digest ! (if i = 4 then 5 else 12 + i)) OR push_bit 8 (ucast (digest ! (6 + i)))
     OR push_bit 16 (ucast (digest ! i))"

fun b64_groups :: "bool \<Rightarrow> (nat \<times> u32) list \<Rightarrow> nat \<Rightarrow> u8 list \<Rightarrow> (int + nat \<times> u8 list) option" where
  "b64_groups check [] p crypted = Some (Inr (p, crypted))"
| "b64_groups check ((n, w) # ws) p crypted =
     (case b64_out check n w p crypted of
        Some (Inr (p', crypted')) \<Rightarrow> b64_groups check ws p' crypted'
      | r \<Rightarrow> r)"

text \<open>
  \<open>md5_password (key, crypted, check)\<close>: the return value, the static variables and the array
  \<open>crypted\<close>. Without a second \<open>$\<close> in a password to check, the difference with the null pointer
  that \<open>strstr\<close> returns is undefined.
\<close>

definition salt_length :: "u8 list \<Rightarrow> bool \<Rightarrow> (nat \<times> u8 list) option" where
  "salt_length crypted check =
     (let salt = drop 3 crypted
      in do { end \<leftarrow> grub_strstr salt [0x24, 0];
              if check then (case end of Some k \<Rightarrow> Some (k, crypted) | None \<Rightarrow> None)
              else let saltlen = (case end of Some k \<Rightarrow> if k < 8 then k else 8 | None \<Rightarrow> 8)
                   in do { crypted' \<leftarrow> wr crypted (3 + saltlen) 0x24; Some (saltlen, crypted') } })"

definition md5_password :: "md5_vars \<Rightarrow> u8 list \<Rightarrow> u8 list \<Rightarrow> bool \<Rightarrow> (int \<times> md5_vars \<times> u8 list) option" where
  "md5_password v key crypted check =
     do { keylen \<leftarrow> grub_strlen key;
          short \<leftarrow> (if check then map_option (\<lambda>n. n \<le> 3) (grub_strlen crypted) else Some False);
          if short then Some (1, v, crypted)
          else do {
            (saltlen, crypted) \<leftarrow> salt_length crypted check;
            let salt = drop 3 crypted;
            v1 \<leftarrow> md5_update (md5_init v) key keylen;
            v2 \<leftarrow> md5_update v1 salt saltlen;
            v3 \<leftarrow> md5_update v2 key keylen;
            (v4, alt_result) \<leftarrow> md5_final v3;
            v5 \<leftarrow> md5_update (md5_init v4) key keylen;
            v6 \<leftarrow> md5_update v5 crypted (3 + saltlen);
            v7 \<leftarrow> alt_rounds v6 alt_result keylen;
            v8 \<leftarrow> bit_rounds v7 key keylen keylen;
            (v9, digest0) \<leftarrow> md5_final v8;
            (v10, digest) \<leftarrow> crypt_rounds 1000 0 v9 digest0 key keylen salt saltlen;
            r \<leftarrow> b64_groups check (map (\<lambda>i. (4, digest_word digest i)) [0..<5] @ [(2, ucast (digest ! 11))])
                   (3 + saltlen + 1) crypted;
            case r of
              Inl e \<Rightarrow> Some (e, v10, crypted)
            | Inr (p, crypted') \<Rightarrow>
                do { crypted'' \<leftarrow> (if check then Some crypted' else wr crypted' p 0);
                     c \<leftarrow> rd crypted'' p;
                     Some (sint c, v10, crypted'') } } }"

section \<open>RFC 1321\<close>

definition rfc_f :: "nat \<Rightarrow> u32 \<Rightarrow> u32 \<Rightarrow> u32 \<Rightarrow> u32" where
  "rfc_f t x y z =
     (if t < 16 then (x AND y) OR (NOT x AND z)
      else if t < 32 then (x AND z) OR (y AND NOT z)
      else if t < 48 then x XOR y XOR z
      else y XOR (x OR NOT z))"

text \<open>The words and the rotations of the 64 operations, in the order in which the RFC lists them.\<close>

definition rfc_k :: "nat list" where
  "rfc_k =
     [0, 1, 2, 3, 4, 5, 6, 7, 8, 9, 10, 11, 12, 13, 14, 15,
      1, 6, 11, 0, 5, 10, 15, 4, 9, 14, 3, 8, 13, 2, 7, 12,
      5, 8, 11, 14, 1, 4, 7, 10, 13, 0, 3, 6, 9, 12, 15, 2,
      0, 7, 14, 5, 12, 3, 10, 1, 8, 15, 6, 13, 4, 11, 2, 9]"

definition rfc_s :: "nat list" where
  "rfc_s =
     [7, 12, 17, 22, 7, 12, 17, 22, 7, 12, 17, 22, 7, 12, 17, 22,
      5, 9, 14, 20, 5, 9, 14, 20, 5, 9, 14, 20, 5, 9, 14, 20,
      4, 11, 16, 23, 4, 11, 16, 23, 4, 11, 16, 23, 4, 11, 16, 23,
      6, 10, 15, 21, 6, 10, 15, 21, 6, 10, 15, 21, 6, 10, 15, 21]"

definition rfc_step :: "(nat \<Rightarrow> u32) \<Rightarrow> nat \<Rightarrow> md5_regs \<Rightarrow> md5_regs" where
  "rfc_step X t r =
     (let (a, b, c, d) = r
      in (d, b + word_rotl (rfc_s ! t) (a + rfc_f t b c d + X (rfc_k ! t) + md5_T ! t), b, c))"

definition rfc_compress :: "md5_regs \<Rightarrow> u8 list \<Rightarrow> md5_regs" where
  "rfc_compress r blk =
     (let (a, b, c, d) = r;
          (a', b', c', d') = fold (rfc_step (\<lambda>k. le_word blk k)) [0..<64] r
      in (a + a', b + b', c + c', d + d'))"

definition rfc_init :: md5_regs where
  "rfc_init = (0x67452301, 0xefcdab89, 0x98badcfe, 0x10325476)"

definition rfc_pad :: "u8 list \<Rightarrow> u8 list" where
  "rfc_pad msg =
     (let bits = of_nat (8 * length msg) :: u64
      in msg @ 0x80 # replicate ((119 - length msg mod 64) mod 64) 0
         @ le_bytes32 (ucast bits) @ le_bytes32 (ucast (drop_bit 32 bits)))"

definition rfc_md5 :: "u8 list \<Rightarrow> u8 list" where
  "rfc_md5 msg =
     (let (a, b, c, d) = md_blocks rfc_compress rfc_init (rfc_pad msg)
      in concat (map le_bytes32 [a, b, c, d]))"

section \<open>The rounds\<close>

lemma ROTATE_LEFT_rotl: "n < 32 \<Longrightarrow> ROTATE_LEFT x n = word_rotl n x"
proof (rule bit_word_eqI)
  fix k assume "n < 32" "k < LENGTH(32)"
  then have k: "k < 32" by simp
  have "(k + (32 - n)) mod 32 = (if k < n then k + 32 - n else k - n)"
    using k \<open>n < 32\<close> by (auto simp: mod_if)
  moreover have "bit (ROTATE_LEFT x n) k \<longleftrightarrow> bit x (if k < n then k + 32 - n else k - n)"
    using k \<open>n < 32\<close> by (auto simp: ROTATE_LEFT_def bit_simps add.commute dest: bit_imp_le_length)
  ultimately show "bit (ROTATE_LEFT x n) k = bit (word_rotl n x) k"
    using k \<open>n < 32\<close> by (auto simp: bit_word_rotl_iff)
qed

text \<open>The index and rotation arithmetic of a round agrees with the lists of the RFC.\<close>

definition round_tables :: "nat \<Rightarrow> nat list \<Rightarrow> (nat \<Rightarrow> nat) \<Rightarrow> bool" where
  "round_tables t s k \<longleftrightarrow> list_all (\<lambda>i. s ! (i mod 4) = rfc_s ! (t + i) \<and> k i = rfc_k ! (t + i) \<and> rfc_s ! (t + i) < 32) [0..<16]"

lemma round_tables_all:
  "round_tables 0 md5_s1 (\<lambda>i. i)"
  "round_tables 16 md5_s2 (\<lambda>i. (1 + 5 * i) mod 16)"
  "round_tables 32 md5_s3 (\<lambda>i. (5 + 3 * i) mod 16)"
  "round_tables 48 md5_s4 (\<lambda>i. (7 * i) mod 16)"
  by (simp_all add: round_tables_def rfc_s_def rfc_k_def md5_s1_def md5_s2_def md5_s3_def md5_s4_def upt_rec)

lemma md5_iter_rfc:
  assumes "round_tables t s k" and "i < 16" and "f = rfc_f (t + i)"
  shows "md5_iter f (\<lambda>i. X (k i)) s t i r = rfc_step X (t + i) r"
  using assms
  by (auto simp: md5_iter_def rfc_step_def round_tables_def list_all_iff ROTATE_LEFT_rotl add_ac
      split: prod.split)

lemma md5_round_rfc:
  assumes "round_tables t s k" and "\<And>i. i < 16 \<Longrightarrow> f = rfc_f (t + i)"
  shows "fold (md5_iter f (\<lambda>i. X (k i)) s t) [0..<16] r = fold (rfc_step X) [t..<t + 16] r"
proof -
  have "[t..<t + 16] = map (\<lambda>i. t + i) [0..<16]"
    using map_add_upt [of t 16] by (simp add: add.commute)
  then have "fold (rfc_step X) [t..<t + 16] r = fold (\<lambda>i. rfc_step X (t + i)) [0..<16] r"
    by (simp only: fold_map comp_def)
  also have "\<dots> = fold (md5_iter f (\<lambda>i. X (k i)) s t) [0..<16] r"
    using assms by (intro fold_cong) (auto simp: md5_iter_rfc)
  finally show ?thesis by simp
qed

lemma md5_funs_rfc:
  "i < 16 \<Longrightarrow> md5_F = rfc_f (0 + i)" "i < 16 \<Longrightarrow> md5_G = rfc_f (16 + i)"
  "i < 16 \<Longrightarrow> md5_H = rfc_f (32 + i)" "i < 16 \<Longrightarrow> md5_I = rfc_f (48 + i)"
  by (auto simp: fun_eq_iff rfc_f_def md5_F_def md5_G_def md5_H_def md5_I_def)

definition md5_regs_of :: "u32 list \<Rightarrow> md5_regs" where
  "md5_regs_of s = (s ! 0, s ! 1, s ! 2, s ! 3)"

lemma md5_transform_rfc:
  assumes "64 \<le> length block"
  shows "\<exists>s. md5_transform v block = Some (v\<lparr>state := s\<rparr>) \<and> length s = 4
       \<and> md5_regs_of s = rfc_compress (md5_regs_of (state v)) block"
proof -
  let ?X = "le_word block" and ?r = "md5_regs_of (state v)"
  note rounds = md5_round_rfc [OF round_tables_all(1) md5_funs_rfc(1), where X = ?X]
    md5_round_rfc [OF round_tables_all(2) md5_funs_rfc(2), where X = ?X]
    md5_round_rfc [OF round_tables_all(3) md5_funs_rfc(3), where X = ?X]
    md5_round_rfc [OF round_tables_all(4) md5_funs_rfc(4), where X = ?X]
  have "[0..<64::nat] = [0..<0 + 16] @ [16..<16 + 16] @ [32..<32 + 16] @ [48..<48 + 16]" by code_simp
  then have "fold (rfc_step ?X) [0..<64] ?r
      = fold (rfc_step ?X) ([0..<0 + 16] @ [16..<16 + 16] @ [32..<32 + 16] @ [48..<48 + 16]) ?r"
    by (simp only:)
  also have "\<dots> = fold (md5_iter md5_I (\<lambda>i. ?X ((7 * i) mod 16)) md5_s4 48) [0..<16]
      (fold (md5_iter md5_H (\<lambda>i. ?X ((5 + 3 * i) mod 16)) md5_s3 32) [0..<16]
        (fold (md5_iter md5_G (\<lambda>i. ?X ((1 + 5 * i) mod 16)) md5_s2 16) [0..<16]
          (fold (md5_iter md5_F (\<lambda>i. ?X i) md5_s1 0) [0..<16] ?r)))"
    unfolding fold_append comp_def
    by (simp only: rounds)
  finally show ?thesis
    using assms by (auto simp: md5_transform_def rfc_compress_def md5_regs_of_def Let_def split: prod.split)
qed

lemma md5_blocks_rfc:
  "length (state v) = 4 \<Longrightarrow> \<exists>s. md5_blocks v xs = Some (v\<lparr>state := s\<rparr>, rest xs) \<and> length s = 4
     \<and> md5_regs_of s = md_blocks rfc_compress (md5_regs_of (state v)) xs"
proof (induction v xs rule: md5_blocks.induct)
  case (1 v xs)
  show ?case
  proof (cases "64 \<le> length xs")
    case False
    with "1.prems" show ?thesis by (intro exI [of _ "state v"]) (simp add: md5_blocks.simps [of v xs])
  next
    case True
    then obtain s where s: "md5_transform v (take 64 xs) = Some (v\<lparr>state := s\<rparr>)" "length s = 4"
      "md5_regs_of s = rfc_compress (md5_regs_of (state v)) (take 64 xs)"
      using md5_transform_rfc [of "take 64 xs" v] by auto
    have r: "rest xs = rest (drop 64 xs)"
      using whole_append_dvd(2) [of "take 64 xs" "drop 64 xs"] True by simp
    have "md_blocks rfc_compress (md5_regs_of (state v)) xs = md_blocks rfc_compress (md5_regs_of s) (drop 64 xs)"
      using True s(3) by (simp add: md_blocks.simps [of _ _ xs])
    with "1.IH" [OF True s(1)] s show ?thesis
      using True by (simp add: md5_blocks.simps [of v xs] r)
  qed
qed

section \<open>The streaming contract\<close>

definition md5_repr :: "md5_vars \<Rightarrow> u8 list \<Rightarrow> bool" where
  "md5_repr v msg \<longleftrightarrow>
     length (state v) = 4 \<and> length (md5_buffer v) = 64
     \<and> md5_regs_of (state v) = md_blocks rfc_compress rfc_init msg
     \<and> take (length msg mod 64) (md5_buffer v) = rest msg
     \<and> length_counter v = of_nat (length msg)"

lemma md5_buflen: "unat (of_nat n AND 63 :: u32) = n mod 64"
  using unat_and_3F [of "of_nat n :: u32"] by (simp add: unsigned_of_nat take_bit_nat_def mod_mod_cancel)

lemma md5_init_repr: "length (md5_buffer v) = 64 \<Longrightarrow> md5_repr (md5_init v) []"
  by (simp add: md5_repr_def md5_init_def md5_regs_of_def initstate_def rfc_init_def)

lemma md5_update_short:
  assumes r: "md5_repr v msg" and n: "n \<le> length data" and short: "length msg mod 64 + n < 64"
  shows "\<exists>v'. md5_update v data n = Some v' \<and> md5_repr v' (msg @ take n data)"
proof -
  let ?xs = "take n data" and ?l = "length msg mod 64"
  let ?b = "overlay (md5_buffer v) ?l ?xs"
  from r have v: "length (state v) = 4" "length (md5_buffer v) = 64" "length_counter v = of_nat (length msg)"
    "md5_regs_of (state v) = md_blocks rfc_compress rfc_init msg" "take ?l (md5_buffer v) = rest msg"
    by (simp_all add: md5_repr_def)
  have cp: "copy_loop (md5_buffer v) ?l ?xs 0 n = Some ?b"
    using copy_loop_overlay [of 0 n ?xs ?l "md5_buffer v"] short n v by simp
  have rs: "rest (msg @ ?xs) = rest msg @ ?xs" "md_blocks rfc_compress rfc_init (msg @ ?xs) = md_blocks rfc_compress rfc_init msg"
    using short n by (simp_all add: rest_rest_append [of msg ?xs] md_blocks_rest_append [of _ _ msg ?xs])
  have "length (msg @ ?xs) mod 64 = ?l + n"
    using rs(1) n by (metis length_append length_rest length_take min.absorb2)
  with take_overlay_same [of ?l ?xs "md5_buffer v"] have "take (length (msg @ ?xs) mod 64) ?b = rest (msg @ ?xs)"
    using short n v rs by simp
  with cp rs v short n show ?thesis
    by (auto simp: md5_update_def md5_repr_def md5_buflen Let_def)
qed

lemma md5_update_long:
  assumes r: "md5_repr v msg" and n: "n \<le> length data" and long: "64 \<le> length msg mod 64 + n"
  shows "\<exists>v'. md5_update v data n = Some v' \<and> md5_repr v' (msg @ take n data)"
proof -
  define xs l where "xs = take n data" and "l = length msg mod 64"
  define b ys where "b = rest msg @ take (64 - l) xs" and "ys = drop (64 - l) xs"
  let ?v1 = "v\<lparr>length_counter := length_counter v + of_nat n\<rparr>"
  from r have v: "length (state v) = 4" "length (md5_buffer v) = 64" "length_counter v = of_nat (length msg)"
    "md5_regs_of (state v) = md_blocks rfc_compress rfc_init msg" "take l (md5_buffer v) = rest msg"
    by (simp_all add: md5_repr_def l_def)
  have l: "l < 64" "64 - l \<le> n" "length xs = n" using long n by (auto simp: l_def xs_def)
  have lb: "length b = 64" using l by (simp add: b_def flip: l_def)
  have cp: "copy_loop (md5_buffer v) l xs 0 (64 - l) = Some b"
    using copy_loop_overlay [of 0 "64 - l" xs l "md5_buffer v"] l v by (simp add: overlay_def b_def)
  obtain s where s: "md5_transform (?v1\<lparr>md5_buffer := b\<rparr>) b = Some (?v1\<lparr>md5_buffer := b, state := s\<rparr>)"
    "length s = 4" "md5_regs_of s = rfc_compress (md5_regs_of (state v)) b"
    using md5_transform_rfc [of b "?v1\<lparr>md5_buffer := b\<rparr>"] lb by auto
  obtain s' where s': "md5_blocks (?v1\<lparr>md5_buffer := b, state := s\<rparr>) ys
      = Some (?v1\<lparr>md5_buffer := b, state := s'\<rparr>, rest ys)" "length s' = 4"
    "md5_regs_of s' = md_blocks rfc_compress (md5_regs_of s) ys"
    using md5_blocks_rfc [of "?v1\<lparr>md5_buffer := b, state := s\<rparr>" ys] s(2) by auto
  define b' where "b' = overlay b 0 (rest ys)"
  have lr: "length (rest ys) \<le> 64" by simp
  have cp': "copy_loop b 0 (rest ys) 0 (length (rest ys)) = Some b'"
    using copy_loop_overlay [of 0 "length (rest ys)" "rest ys" 0 b] lb lr by (simp add: b'_def)
  have upd: "md5_update v data n = Some (?v1\<lparr>state := s', md5_buffer := b'\<rparr>)"
    using long n cp s(1) s'(1) cp' by (simp add: md5_update_def md5_buflen v(3) Let_def flip: xs_def l_def ys_def)
  have split: "rest msg @ xs = b @ ys" by (simp add: b_def ys_def)
  have rs: "rest (msg @ xs) = rest ys"
    using whole_append_dvd(2) [of b ys] lb by (simp add: rest_rest_append [of msg xs] split)
  have "md_blocks rfc_compress rfc_init (msg @ xs) = md5_regs_of s'"
    by (simp add: md_blocks_rest_append [of _ _ msg xs] split md_blocks_block [OF lb] s'(3) s(3) v(4))
  moreover have "length (msg @ xs) mod 64 = length (rest ys)"
    using rs by (metis length_rest)
  moreover have "take (length (rest ys)) b' = rest ys" "length b' = 64"
    using lb lr by (simp_all add: b'_def overlay_def del: length_rest)
  ultimately show ?thesis
    using upd s'(2) rs l(3) by (auto simp: md5_repr_def v(3) simp flip: xs_def)
qed

lemma md5_update_rfc:
  assumes "md5_repr v msg" and "n \<le> length data"
  shows "\<exists>v'. md5_update v data n = Some v' \<and> md5_repr v' (msg @ take n data)"
  using md5_update_short [OF assms] md5_update_long [OF assms]
  by (cases "length msg mod 64 + n < 64") auto

text \<open>
  The length field of the code has 32 bits and the upper half is always 0; for messages below 512
  megabytes this is the padding of the RFC.
\<close>

definition md5_pad32 :: "u8 list \<Rightarrow> u8 list" where
  "md5_pad32 msg =
     msg @ 0x80 # replicate ((119 - length msg mod 64) mod 64) 0
     @ le_bytes32 (8 * of_nat (length msg)) @ le_bytes32 0"

definition md5_hash32 :: "u8 list \<Rightarrow> u8 list" where
  "md5_hash32 msg =
     (let (a, b, c, d) = md_blocks rfc_compress rfc_init (md5_pad32 msg) in concat (map le_bytes32 [a, b, c, d]))"

lemma md5_hash32_rfc:
  assumes "length msg < 2 ^ 29"
  shows "md5_hash32 msg = rfc_md5 msg"
proof -
  define m where "m = 8 * length msg"
  have m: "m < 2 ^ 32" using assms by (simp add: m_def)
  then have "unat (drop_bit 32 (of_nat m :: u64)) = 0"
    by (simp add: unsigned_drop_bit_eq drop_bit_nat_def take_bit_nat_def unsigned_of_nat)
  then have "drop_bit 32 (of_nat m :: u64) = 0" by (simp only: unsigned_eq_0_iff)
  moreover have "(ucast (of_nat m :: u64) :: u32) = of_nat m"
    by (rule bit_word_eqI) (simp add: bit_ucast_word bit_of_nat_word)
  then have "(ucast (of_nat m :: u64) :: u32) = 8 * of_nat (length msg)" by (simp add: m_def)
  ultimately have "md5_pad32 msg = rfc_pad msg"
    by (simp add: md5_pad32_def rfc_pad_def Let_def flip: m_def)
  then show ?thesis by (simp add: md5_hash32_def rfc_md5_def)
qed

lemma md5_final_buffer:
  assumes "length b = 64" and "l < 64"
  shows "copy_loop (b[l := 0x80]) (l + 1) (replicate 64 0) 0 (64 - (l + 1))
       = Some (take l b @ 0x80 # replicate (63 - l) 0)"
  using assms copy_loop_overlay [of 0 "63 - l" "replicate 64 0" "Suc l" "b[l := 0x80]"]
  by (simp add: overlay_def take_Suc_conv_app_nth)

lemma md5_final_length:
  assumes "length b = 64"
  shows "copy_loop b 56 (le_bytes32 x) 0 4 = Some (take 56 b @ le_bytes32 x @ drop 60 b)"
    and "copy_loop (take 56 b @ le_bytes32 x @ drop 60 b) 60 (le_bytes32 y) 0 4
       = Some (take 56 b @ le_bytes32 x @ le_bytes32 y)"
  using copy_loop_overlay [of 0 4 "le_bytes32 x" 56 b] assms
    copy_loop_overlay [of 0 4 "le_bytes32 y" 60 "take 56 b @ le_bytes32 x @ drop 60 b"]
  by (simp_all add: overlay_def le_bytes32_def)

text \<open>The last blocks: one if the length field still fits behind the padding byte, else two.\<close>

lemma md5_pad32_blocks:
  fixes msg :: "u8 list"
  defines "l \<equiv> length msg mod 64"
  defines "len \<equiv> le_bytes32 (8 * of_nat (length msg)) @ le_bytes32 0"
  shows "l < 56 \<Longrightarrow> md_blocks f h (md5_pad32 msg)
      = f (md_blocks f h msg) (rest msg @ 0x80 # replicate (55 - l) 0 @ len)"
    and "56 \<le> l \<Longrightarrow> md_blocks f h (md5_pad32 msg)
      = f (f (md_blocks f h msg) (rest msg @ 0x80 # replicate (63 - l) 0)) (replicate 56 0 @ len)"
proof -
  have l: "length (rest msg) = l" "l < 64" by (simp_all add: l_def)
  have len: "length len = 8" by (simp add: len_def le_bytes32_def)
  define tail where "tail = 0x80 # replicate ((119 - l) mod 64) 0 @ len"
  have pad: "md_blocks f h (md5_pad32 msg) = md_blocks f (md_blocks f h msg) (rest msg @ tail)"
    using md_blocks_rest_append [of f h msg tail] by (simp add: md5_pad32_def tail_def l_def len_def)
  show "md_blocks f h (md5_pad32 msg) = f (md_blocks f h msg) (rest msg @ 0x80 # replicate (55 - l) 0 @ len)"
    if "l < 56"
  proof -
    from that have "(119 - l) mod 64 = 55 - l" by (simp add: mod_if)
    with that l len md_blocks_block [of "rest msg @ tail" f "md_blocks f h msg" "[]"] show ?thesis
      by (simp add: pad tail_def del: length_rest)
  qed
  show "md_blocks f h (md5_pad32 msg)
      = f (f (md_blocks f h msg) (rest msg @ 0x80 # replicate (63 - l) 0)) (replicate 56 0 @ len)"
    if "56 \<le> l"
  proof -
    let ?b = "rest msg @ 0x80 # replicate (63 - l) 0" and ?b' = "replicate 56 0 @ len"
    have "(119 - l) mod 64 = (63 - l) + 56" using that l by (simp add: mod_if)
    then have tail: "rest msg @ tail = ?b @ ?b' @ []"
      by (simp only: tail_def replicate_add append_assoc append_Cons append_Nil append_Nil2)
    have "length ?b = 64" "length ?b' = 64" using that l len by (simp_all del: length_rest)
    then show ?thesis by (simp only: pad tail md_blocks_block) simp
  qed
qed

lemma md5_final_rfc:
  assumes r: "md5_repr v msg"
  shows "\<exists>v'. md5_final v = Some (v', md5_hash32 msg) \<and> length (md5_buffer v') = 64"
proof -
  define l where "l = length msg mod 64"
  define len where "len = le_bytes32 (8 * of_nat (length msg)) @ le_bytes32 0"
  define b2 where "b2 = rest msg @ 0x80 # replicate (63 - l) 0"
  from r have v: "length (md5_buffer v) = 64" "length_counter v = of_nat (length msg)"
    "md5_regs_of (state v) = md_blocks rfc_compress rfc_init msg" "take l (md5_buffer v) = rest msg"
    by (simp_all add: md5_repr_def l_def)
  have l: "l < 64" "length (rest msg) = l" by (simp_all add: l_def)
  have lb2: "length b2 = 64" using l by (simp add: b2_def del: length_rest)
  have "\<exists>v1. (if 56 < l + 1
        then do { v' \<leftarrow> md5_transform (v\<lparr>md5_buffer := b2\<rparr>) b2;
                  b3 \<leftarrow> copy_loop b2 0 (replicate 64 0) 0 64;
                  Some (v'\<lparr>md5_buffer := b3\<rparr>) }
        else Some (v\<lparr>md5_buffer := b2\<rparr>)) = Some v1
      \<and> length (md5_buffer v1) = 64 \<and> length_counter v1 = of_nat (length msg)
      \<and> rfc_compress (md5_regs_of (state v1)) (take 56 (md5_buffer v1) @ len)
        = md_blocks rfc_compress rfc_init (md5_pad32 msg)"
  proof (cases "l < 56")
    case True
    then have "take 56 b2 = rest msg @ 0x80 # replicate (55 - l) 0"
      using l by (simp add: b2_def take_Cons' del: length_rest)
    with True v lb2 show ?thesis
      using md5_pad32_blocks(1) [of msg rfc_compress rfc_init] by (simp add: l_def len_def)
  next
    case False
    obtain s where s: "md5_transform (v\<lparr>md5_buffer := b2\<rparr>) b2 = Some (v\<lparr>md5_buffer := b2, state := s\<rparr>)"
      "md5_regs_of s = rfc_compress (md5_regs_of (state v)) b2"
      using md5_transform_rfc [of b2 "v\<lparr>md5_buffer := b2\<rparr>"] lb2 by auto
    have "copy_loop b2 0 (replicate 64 0) 0 64 = Some (replicate 64 0)"
      using copy_loop_overlay [of 0 64 "replicate 64 (0 :: u8)" 0 b2] lb2 by (simp add: overlay_def)
    with False v s show ?thesis
      using md5_pad32_blocks(2) [of msg rfc_compress rfc_init] by (simp add: l_def len_def b2_def)
  qed
  then obtain v1 where v1: "(if 56 < l + 1
        then do { v' \<leftarrow> md5_transform (v\<lparr>md5_buffer := b2\<rparr>) b2;
                  b3 \<leftarrow> copy_loop b2 0 (replicate 64 0) 0 64;
                  Some (v'\<lparr>md5_buffer := b3\<rparr>) }
        else Some (v\<lparr>md5_buffer := b2\<rparr>)) = Some v1"
    "length (md5_buffer v1) = 64" "length_counter v1 = of_nat (length msg)"
    "rfc_compress (md5_regs_of (state v1)) (take 56 (md5_buffer v1) @ len)
        = md_blocks rfc_compress rfc_init (md5_pad32 msg)" by blast
  define b5 where "b5 = take 56 (md5_buffer v1) @ len"
  have "length b5 = 64" using v1(2) by (simp add: b5_def len_def le_bytes32_def)
  then obtain s where s: "md5_transform (v1\<lparr>md5_buffer := b5\<rparr>) b5 = Some (v1\<lparr>md5_buffer := b5, state := s\<rparr>)"
    "length s = 4" "md5_regs_of s = md_blocks rfc_compress rfc_init (md5_pad32 msg)"
    using md5_transform_rfc [of b5 "v1\<lparr>md5_buffer := b5\<rparr>"] v1(4) by (auto simp: b5_def)
  from s(2) obtain a b c d where abcd: "s = [a, b, c, d]" by (auto simp: length_Suc_conv numeral_eq_Suc)
  have "concat (map le_bytes32 s) = md5_hash32 msg"
    by (simp add: md5_hash32_def flip: s(3)) (simp add: abcd md5_regs_of_def)
  moreover have "copy_loop ((md5_buffer v)[l := 0x80]) (l + 1) (replicate 64 0) 0 (64 - (l + 1)) = Some b2"
    using md5_final_buffer [OF v(1) l(1)] by (simp only: b2_def v(4))
  ultimately have "md5_final v = Some (v1\<lparr>md5_buffer := b5, state := s\<rparr>, md5_hash32 msg)"
    unfolding md5_final_def Let_def v(2) md5_buflen l_def [symmetric]
    using v(1) v1 md5_final_length [OF v1(2)] s(1) l(1)
    by (simp add: b5_def len_def split del: if_split)
  with \<open>length b5 = 64\<close> show ?thesis by simp
qed

interpretation md5_stream: stream_hash md5_repr "\<lambda>v xs. md5_update v xs (length xs)"
    "\<lambda>v. map_option snd (md5_final v)" md5_hash32 "2 ^ 32"
proof
  show "\<exists>c'. md5_update c xs (length xs) = Some c' \<and> md5_repr c' (m @ xs)" if "md5_repr c m" for c m xs
    using md5_update_rfc [OF that, of "length xs" xs] by simp
  show "map_option snd (md5_final c) = Some (md5_hash32 m)" if "md5_repr c m" for c m
    using md5_final_rfc [OF that] by auto
qed

text \<open>
  C35. Initialising the MD5 variables, feeding any sequence of non-empty chunks and finishing
  yields the RFC 1321 digest of the concatenated chunks, for messages below 512 megabytes, beyond
  which the 32-bit length field of the code is not the one of the RFC.
\<close>

theorem md5_stream_rfc:
  assumes "length (md5_buffer v) = 64" and "list_all (\<lambda>xs. xs \<noteq> []) chunks"
    and "length (concat chunks) < 2 ^ 29"
  shows "Option.bind (feed (\<lambda>v xs. md5_update v xs (length xs)) (md5_init v) chunks)
      (\<lambda>v. map_option snd (md5_final v)) = Some (rfc_md5 (concat chunks))"
proof -
  have "length xs < 2 ^ 32" if "xs \<in> set chunks" for xs
  proof -
    have "length xs \<le> length (concat chunks)"
      using that by (rule length_le_concat)
    with assms(3) show ?thesis by simp
  qed
  with assms md5_stream.feed_fin [OF md5_init_repr [OF assms(1)], of chunks] show ?thesis
    by (simp add: list_all_iff md5_hash32_rfc)
qed

lemma md5_stream_rfc_witness:
  "Option.bind (feed (\<lambda>v xs. md5_update v xs (length xs))
      (md5_init \<lparr>state = [], length_counter = 5, md5_buffer = replicate 64 3\<rparr>) [[0x61, 0x62], [0x63]])
      (\<lambda>v. map_option snd (md5_final v)) = Some (rfc_md5 [0x61, 0x62, 0x63])"
  using md5_stream_rfc [of "\<lparr>state = [], length_counter = 5, md5_buffer = replicate 64 3\<rparr>" "[[0x61, 0x62], [0x63]]"]
  by simp

section \<open>The crypt algorithm\<close>

text \<open>The algorithm over a hash function \<open>H\<close>; \<open>hdr\<close> is the prefix \<open>$1$\<close>.\<close>

definition crypt_round_msg :: "nat \<Rightarrow> u8 list \<Rightarrow> u8 list \<Rightarrow> u8 list \<Rightarrow> u8 list" where
  "crypt_round_msg i d key salt =
     (if odd i then key else d) @ (if i mod 3 \<noteq> 0 then salt else [])
     @ (if i mod 7 \<noteq> 0 then key else []) @ (if odd i then d else key)"

primrec crypt_iter :: "(u8 list \<Rightarrow> u8 list) \<Rightarrow> u8 list \<Rightarrow> u8 list \<Rightarrow> nat \<Rightarrow> nat \<Rightarrow> u8 list \<Rightarrow> u8 list" where
  "crypt_iter H key salt 0 i d = d"
| "crypt_iter H key salt (Suc n) i d = crypt_iter H key salt n (Suc i) (H (crypt_round_msg i d key salt))"

fun length_bits :: "u8 \<Rightarrow> nat \<Rightarrow> u8 list" where
  "length_bits c i = (if i = 0 then [] else (if odd i then 0 else c) # length_bits c (i div 2))"

declare length_bits.simps [simp del]

definition crypt_first_msg :: "u8 list \<Rightarrow> u8 list \<Rightarrow> u8 list \<Rightarrow> u8 list \<Rightarrow> u8 list" where
  "crypt_first_msg alt key hdr salt =
     key @ hdr @ salt @ take (length key) (concat (replicate (length key) alt))
     @ length_bits (hd key) (length key)"

definition crypt_digest :: "(u8 list \<Rightarrow> u8 list) \<Rightarrow> u8 list \<Rightarrow> u8 list \<Rightarrow> u8 list \<Rightarrow> u8 list" where
  "crypt_digest H key hdr salt =
     crypt_iter H key salt 1000 0 (H (crypt_first_msg (H (key @ salt @ key)) key hdr salt))"

definition b64_text :: "nat \<Rightarrow> u32 \<Rightarrow> u8 list" where
  "b64_text n w = map (\<lambda>k. b64t ! unat (drop_bit (6 * k) w AND 0x3f)) [0..<n]"

definition crypt_text :: "u8 list \<Rightarrow> u8 list" where
  "crypt_text d = concat (map (\<lambda>i. b64_text 4 (digest_word d i)) [0..<5]) @ b64_text 2 (ucast (d ! 11))"

lemma length_md5_hash32 [simp]: "length (md5_hash32 m) = 16"
  by (simp add: md5_hash32_def le_bytes32_def split: prod.split)

lemma md5_run:
  assumes "md5_repr v m" and "n \<le> length data"
  obtains v' where "md5_update v data n = Some v'" and "md5_repr v' (m @ take n data)"
  using md5_update_rfc [OF assms] by blast

lemma md5_end:
  assumes "md5_repr v m"
  obtains v' where "md5_final v = Some (v', md5_hash32 m)" and "length (md5_buffer v') = 64"
  using md5_final_rfc [OF assms] by blast

lemma alt_rounds_spec:
  assumes "length alt = 16"
  shows "md5_repr v m \<Longrightarrow> \<exists>v'. alt_rounds v alt i = Some v' \<and> md5_repr v' (m @ take i (concat (replicate i alt)))"
proof (induction i arbitrary: v m rule: less_induct)
  case (less i)
  show ?case
  proof (cases "16 < i")
    case False
    have "take i (concat (replicate i alt)) = take i alt"
    proof (cases i)
      case (Suc k)
      then have "take i (concat (replicate i alt)) = take i (alt @ concat (replicate k alt))" by simp
      then show ?thesis using False assms by simp
    qed simp
    with False assms md5_update_rfc [OF less.prems, of i alt] show ?thesis
      by (subst alt_rounds.simps) simp
  next
    case True
    obtain v1 where v1: "md5_update v alt 16 = Some v1" "md5_repr v1 (m @ alt)"
      using md5_run [OF less.prems, of 16 alt] assms by auto
    have "concat (replicate i alt) = alt @ concat (replicate (i - 16) alt) @ concat (replicate 15 alt)"
    proof -
      have "i = Suc ((i - 16) + 15)" using True by simp
      then have "replicate i alt = alt # replicate (i - 16) alt @ replicate 15 alt"
        by (metis replicate_Suc replicate_add)
      then show ?thesis by simp
    qed
    moreover have "i - 16 \<le> length (concat (replicate (i - 16) alt))"
      using assms by (simp add: length_concat sum_list_replicate)
    ultimately have "take i (concat (replicate i alt)) = alt @ take (i - 16) (concat (replicate (i - 16) alt))"
      using True assms by simp
    with less.IH [of "i - 16" v1 "m @ alt"] v1 True show ?thesis
      by (subst alt_rounds.simps) auto
  qed
qed

lemma bit_rounds_spec:
  assumes "key = k @ 0 # r" and "k \<noteq> []"
  shows "md5_repr v m \<Longrightarrow> \<exists>v'. bit_rounds v key (length k) i = Some v' \<and> md5_repr v' (m @ length_bits (hd k) i)"
proof (induction i arbitrary: v m rule: less_induct)
  case (less i)
  show ?case
  proof (cases "i = 0")
    case True
    with less.prems show ?thesis by (subst bit_rounds.simps, subst length_bits.simps) simp
  next
    case False
    let ?d = "drop (if odd i then length k else 0) key"
    have d: "take 1 ?d = [if odd i then 0 else hd k]" "1 \<le> length ?d"
      using assms by (cases k; simp)+
    obtain v1 where v1: "md5_update v ?d 1 = Some v1" "md5_repr v1 (m @ [if odd i then 0 else hd k])"
      using md5_run [OF less.prems d(2)] d(1) by metis
    from less.IH [of "i div 2" v1 "m @ [if odd i then 0 else hd k]"] False v1 show ?thesis
      by (subst bit_rounds.simps, subst length_bits.simps) auto
  qed
qed

lemma md5_run_either:
  assumes "md5_repr v m" and "P \<Longrightarrow> n1 \<le> length d1" and "\<not> P \<Longrightarrow> n2 \<le> length d2"
  obtains v' where "(if P then md5_update v d1 n1 else md5_update v d2 n2) = Some v'"
    and "md5_repr v' (m @ (if P then take n1 d1 else take n2 d2))"
  using md5_update_rfc [OF assms(1)] assms(2,3) by (cases P) auto

lemma md5_run_if:
  assumes "md5_repr v m" and "n \<le> length d"
  obtains v' where "(if P then md5_update v d n else Some v) = Some v'"
    and "md5_repr v' (m @ (if P then take n d else []))"
  using md5_update_rfc [OF assms] assms(1) by (cases P) auto

lemma crypt_rounds_spec:
  assumes key: "key = k @ 0 # r" and salt: "saltlen \<le> length salt"
  shows "length (md5_buffer v) = 64 \<Longrightarrow> length d = 16
    \<Longrightarrow> \<exists>v'. crypt_rounds n i v d key (length k) salt saltlen
          = Some (v', crypt_iter md5_hash32 k (take saltlen salt) n i d) \<and> length (md5_buffer v') = 64"
proof (induction n arbitrary: i v d)
  case 0
  then show ?case by simp
next
  case (Suc n)
  have k: "take (length k) key = k" "length k \<le> length key" by (simp_all add: key)
  obtain v1 where v1: "(if odd i then md5_update (md5_init v) key (length k) else md5_update (md5_init v) d 16) = Some v1"
    "md5_repr v1 ([] @ (if odd i then take (length k) key else take 16 d))"
    by (rule md5_run_either [OF md5_init_repr [OF Suc.prems(1)], of "odd i" "length k" key 16 d])
      ((rule that, assumption+) | use k(2) Suc.prems(2) in simp)+
  obtain v2 where v2: "(if i mod 3 \<noteq> 0 then md5_update v1 salt saltlen else Some v1) = Some v2"
    "md5_repr v2 (([] @ (if odd i then take (length k) key else take 16 d)) @ (if i mod 3 \<noteq> 0 then take saltlen salt else []))"
    by (rule md5_run_if [OF v1(2) salt, of "i mod 3 \<noteq> 0"]) (rule that)
  obtain v3 where v3: "(if i mod 7 \<noteq> 0 then md5_update v2 key (length k) else Some v2) = Some v3"
    "md5_repr v3 ((([] @ (if odd i then take (length k) key else take 16 d)) @ (if i mod 3 \<noteq> 0 then take saltlen salt else []))
       @ (if i mod 7 \<noteq> 0 then take (length k) key else []))"
    by (rule md5_run_if [OF v2(2) k(2), of "i mod 7 \<noteq> 0"]) (rule that)
  obtain v4 where v4: "(if odd i then md5_update v3 d 16 else md5_update v3 key (length k)) = Some v4"
    "md5_repr v4 (crypt_round_msg i d k (take saltlen salt))"
  proof (rule md5_run_either [OF v3(2), of "odd i" 16 d "length k" key])
    fix v' assume "(if odd i then md5_update v3 d 16 else md5_update v3 key (length k)) = Some v'"
      "md5_repr v' (((([] @ (if odd i then take (length k) key else take 16 d)) @ (if i mod 3 \<noteq> 0 then take saltlen salt else []))
       @ (if i mod 7 \<noteq> 0 then take (length k) key else [])) @ (if odd i then take 16 d else take (length k) key))"
    with Suc.prems(2) k(1) show thesis by (intro that) (auto simp: crypt_round_msg_def split: if_splits)
  qed (use Suc.prems k in auto)
  obtain v5 where v5: "md5_final v4 = Some (v5, md5_hash32 (crypt_round_msg i d k (take saltlen salt)))"
    "length (md5_buffer v5) = 64" using md5_end [OF v4(2)] by blast
  have "crypt_rounds (Suc n) i v d key (length k) salt saltlen
      = crypt_rounds n (Suc i) v5 (md5_hash32 (crypt_round_msg i d k (take saltlen salt))) key (length k) salt saltlen"
    by (simp only: crypt_rounds.simps Let_def v1(1) v2(1) v3(1) v4(1) v5(1) Option.bind.bind_lunit prod.case)
  with Suc.IH [OF v5(2), of "md5_hash32 (crypt_round_msg i d k (take saltlen salt))" "Suc i"] show ?case by simp
qed

lemma b64_text_Suc: "b64_text (Suc n) w = b64t ! unat (w AND 0x3f) # b64_text n (drop_bit 6 w)"
  by (simp add: b64_text_def upt_conv_Cons map_Suc_upt [symmetric] comp_def drop_bit_drop_bit add.commute del: upt_Suc map_Suc_upt)

lemma b64_out_store:
  "p + n \<le> length c \<Longrightarrow> b64_out False n w p c = Some (Inr (p + n, overlay c p (b64_text n w)))"
proof (induction n arbitrary: w p c)
  case 0
  then show ?case by (simp add: b64_text_def)
next
  case (Suc n)
  then show ?case by (simp add: b64_text_Suc overlay_Cons)
qed

lemma b64_nonzero: "0 \<notin> set (b64_text n w)"
proof -
  have "\<forall>c \<in> set b64t. c \<noteq> 0" by (simp add: b64t_def)
  moreover have "length b64t = 64" by (simp add: b64t_def)
  moreover have "unat (x AND 0x3f :: u32) < 64" for x by (simp add: unat_and_3F)
  ultimately show ?thesis by (auto simp: b64_text_def)
qed

lemma b64_out_check:
  "drop p c = a @ 0 # r \<Longrightarrow> b64_out True n w p c
     = Some (if prefix (b64_text n w) a then Inr (p + n, c) else Inl 1)"
proof (induction n arbitrary: w p a)
  case 0
  then show ?case by (simp add: b64_text_def)
next
  case (Suc n)
  have p: "p < length c" using Suc.prems by (metis append_is_Nil_conv drop_eq_Nil list.discI not_le)
  have hd: "c ! p = hd (a @ 0 # r)" "drop (Suc p) c = tl (a @ 0 # r)"
    using Suc.prems p by (metis hd_drop_conv_nth, metis drop_Suc tl_drop)
  have nz: "b64t ! unat (w AND 0x3f) \<noteq> 0"
    using b64_nonzero [of "Suc n" w] by (simp add: b64_text_Suc)
  show ?case
  proof (cases a)
    case Nil
    with p hd nz show ?thesis by (simp add: b64_text_Suc)
  next
    case (Cons x a')
    with Suc.IH [of "Suc p" a' "drop_bit 6 w"] p hd show ?thesis by (auto simp: b64_text_Suc)
  qed
qed

lemma length_b64_text [simp]: "length (b64_text n w) = n"
  by (simp add: b64_text_def)

lemma b64_groups_store:
  "p + sum_list (map fst ws) \<le> length c \<Longrightarrow> b64_groups False ws p c
     = Some (Inr (p + sum_list (map fst ws), overlay c p (concat (map (\<lambda>(n, w). b64_text n w) ws))))"
proof (induction ws arbitrary: p c)
  case (Cons nw ws)
  obtain n w where nw: "nw = (n, w)" by (cases nw)
  have "length (concat (map (\<lambda>(n, w). b64_text n w) ws)) = sum_list (map fst ws)"
    by (simp add: length_concat comp_def case_prod_unfold)
  with Cons.IH [of "p + n" "overlay c p (b64_text n w)"] Cons.prems
    overlay_overlay [of p "b64_text n w" "concat (map (\<lambda>(n, w). b64_text n w) ws)" c]
  show ?case by (simp add: nw b64_out_store add.assoc)
qed simp

lemma b64_groups_check:
  "drop p c = a @ 0 # r \<Longrightarrow> b64_groups True ws p c
     = Some (if prefix (concat (map (\<lambda>(n, w). b64_text n w) ws)) a
             then Inr (p + sum_list (map fst ws), c) else Inl 1)"
proof (induction ws arbitrary: p a)
  case (Cons nw ws)
  obtain n w where nw: "nw = (n, w)" by (cases nw)
  show ?case
  proof (cases "prefix (b64_text n w) a")
    case True
    then obtain a' where a: "a = b64_text n w @ a'" by (rule prefixE)
    have "drop (p + n) c = a' @ 0 # r"
      using Cons.prems by (simp add: a add.commute flip: drop_drop)
    from Cons.IH [OF this] b64_out_check [OF Cons.prems, of n w] True show ?thesis
      by (simp add: nw a add.assoc)
  next
    case False
    then have "\<not> prefix (concat (map (\<lambda>(n, w). b64_text n w) (nw # ws))) a"
      by (auto simp: nw dest: append_prefixD)
    with b64_out_check [OF Cons.prems, of n w] False show ?thesis by (simp add: nw)
  qed
qed simp

text \<open>The digest that \<open>md5_password\<close> computes once the salt is known.\<close>

lemma md5_password_digest:
  assumes buf: "length (md5_buffer v) = 64" and key: "key = k @ 0 # r" and salt: "3 + saltlen \<le> length c"
  obtains v1 v2 v3 v4 v5 v6 v7 v8 v9 v10 alt d0 where
    "md5_update (md5_init v) key (length k) = Some v1" "md5_update v1 (drop 3 c) saltlen = Some v2"
    "md5_update v2 key (length k) = Some v3" "md5_final v3 = Some (v4, alt)"
    "md5_update (md5_init v4) key (length k) = Some v5" "md5_update v5 c (3 + saltlen) = Some v6"
    "alt_rounds v6 alt (length k) = Some v7" "bit_rounds v7 key (length k) (length k) = Some v8"
    "md5_final v8 = Some (v9, d0)"
    "crypt_rounds 1000 0 v9 d0 key (length k) (drop 3 c) saltlen
       = Some (v10, crypt_digest md5_hash32 k (take 3 c) (take saltlen (drop 3 c)))"
    "length (md5_buffer v10) = 64"
proof -
  have k: "take (length k) key = k" "length k \<le> length key" by (simp_all add: key)
  have s: "saltlen \<le> length (drop 3 c)" "take (3 + saltlen) c = take 3 c @ take saltlen (drop 3 c)"
    using salt by (simp_all add: take_add)
  let ?salt = "take saltlen (drop 3 c)"
  obtain v1 where v1: "md5_update (md5_init v) key (length k) = Some v1" "md5_repr v1 k"
    using md5_run [OF md5_init_repr [OF buf] k(2)] k(1) by auto
  obtain v2 where v2: "md5_update v1 (drop 3 c) saltlen = Some v2" "md5_repr v2 (k @ ?salt)"
    by (rule md5_run [OF v1(2) s(1)])
  obtain v3 where v3: "md5_update v2 key (length k) = Some v3" "md5_repr v3 ((k @ ?salt) @ k)"
    using md5_run [OF v2(2) k(2)] k(1) by auto
  let ?alt = "md5_hash32 ((k @ ?salt) @ k)"
  obtain v4 where v4: "md5_final v3 = Some (v4, ?alt)" "length (md5_buffer v4) = 64"
    by (rule md5_end [OF v3(2)])
  obtain v5 where v5: "md5_update (md5_init v4) key (length k) = Some v5" "md5_repr v5 k"
    using md5_run [OF md5_init_repr [OF v4(2)] k(2)] k(1) by auto
  obtain v6 where v6: "md5_update v5 c (3 + saltlen) = Some v6" "md5_repr v6 (k @ take 3 c @ ?salt)"
    using md5_run [OF v5(2) salt] s(2) by auto
  let ?rep = "take (length k) (concat (replicate (length k) ?alt))"
  obtain v7 where v7: "alt_rounds v6 ?alt (length k) = Some v7" "md5_repr v7 ((k @ take 3 c @ ?salt) @ ?rep)"
    using alt_rounds_spec [OF _ v6(2), of ?alt "length k"] by auto
  obtain v8 where v8: "bit_rounds v7 key (length k) (length k) = Some v8"
    "md5_repr v8 (((k @ take 3 c @ ?salt) @ ?rep) @ length_bits (hd k) (length k))"
  proof (cases "k = []")
    case True
    with v7 that show ?thesis by (simp add: bit_rounds.simps [of _ _ _ 0] length_bits.simps [of _ 0])
  next
    case False
    with bit_rounds_spec [OF key False v7(2), of "length k"] that show ?thesis by auto
  qed
  obtain v9 where v9: "md5_final v8 = Some (v9, md5_hash32 (crypt_first_msg ?alt k (take 3 c) ?salt))"
    "length (md5_buffer v9) = 64"
    using md5_end [OF v8(2)] by (auto simp: crypt_first_msg_def)
  obtain v10 where v10: "crypt_rounds 1000 0 v9 (md5_hash32 (crypt_first_msg ?alt k (take 3 c) ?salt)) key (length k) (drop 3 c) saltlen
      = Some (v10, crypt_digest md5_hash32 k (take 3 c) ?salt)" "length (md5_buffer v10) = 64"
    using crypt_rounds_spec [OF key s(1) v9(2)
        length_md5_hash32 [of "crypt_first_msg ?alt k (take 3 c) ?salt"], of 1000 0]
    by (auto simp: crypt_digest_def)
  show thesis by (rule that [OF v1(1) v2(1) v3(1) v4(1) v5(1) v6(1) v7(1) v8(1) v9(1) v10])
qed

lemma crypt_groups:
  "concat (map (\<lambda>(n, w). b64_text n w) (map (\<lambda>i. (4, digest_word d i)) [0..<5] @ [(2, ucast (d ! 11))])) = crypt_text d"
  "sum_list (map fst (map (\<lambda>i. (4 :: nat, digest_word d i)) [0..<5] @ [(2, ucast (d ! 11))])) = 22"
  by (simp_all add: crypt_text_def comp_def upt_rec)

lemma length_crypt_text [simp]: "length (crypt_text d) = 22"
  by (simp add: crypt_text_def upt_rec)

lemma crypt_text_nonzero: "0 \<notin> set (crypt_text d)"
  using b64_nonzero by (auto simp: crypt_text_def)

lemma strstr_dollar:
  assumes "0 \<notin> set a" and "0x24 \<notin> set a"
  shows "grub_strstr (a @ 0x24 # r) [0x24, 0] = Some (Some (length a))"
    and "grub_strstr (a @ 0 # r) [0x24, 0] = Some None"
proof -
  have "strstr_from n (a @ 0x24 # r) [0x24, 0] = Some (Some (n + length a))" for n
    using assms by (induction a arbitrary: n) (auto split: list.splits)
  then show "grub_strstr (a @ 0x24 # r) [0x24, 0] = Some (Some (length a))" by (simp add: grub_strstr_def)
  have "strstr_from n (a @ 0 # r) [0x24, 0] = Some None" for n
    using assms by (induction a arbitrary: n) (auto split: list.splits)
  then show "grub_strstr (a @ 0 # r) [0x24, 0] = Some None" by (simp add: grub_strstr_def)
qed

text \<open>The whole function, after the salt has been found in \<open>c\<close>.\<close>

lemma md5_password_tail:
  assumes "length (md5_buffer v) = 64" and "0 \<notin> set k" and "3 + saltlen \<le> length c"
    and "check \<Longrightarrow> \<exists>n > 3. grub_strlen c0 = Some n" and "salt_length c0 check = Some (saltlen, c)"
  defines "d \<equiv> crypt_digest md5_hash32 k (take 3 c) (take saltlen (drop 3 c))"
  shows "\<exists>v'. length (md5_buffer v') = 64 \<and> md5_password v (k @ 0 # r) c0 check = do {
      res \<leftarrow> b64_groups check (map (\<lambda>i. (4, digest_word d i)) [0..<5] @ [(2, ucast (d ! 11))]) (3 + saltlen + 1) c;
      case res of
        Inl e \<Rightarrow> Some (e, v', c)
      | Inr (p, c') \<Rightarrow> do { c'' \<leftarrow> (if check then Some c' else wr c' p 0);
                          x \<leftarrow> rd c'' p;
                          Some (sint x, v', c'') } }"
proof -
  obtain v1 v2 v3 v4 v5 v6 v7 v8 v9 v10 alt d0 where run:
    "md5_update (md5_init v) (k @ 0 # r) (length k) = Some v1" "md5_update v1 (drop 3 c) saltlen = Some v2"
    "md5_update v2 (k @ 0 # r) (length k) = Some v3" "md5_final v3 = Some (v4, alt)"
    "md5_update (md5_init v4) (k @ 0 # r) (length k) = Some v5" "md5_update v5 c (3 + saltlen) = Some v6"
    "alt_rounds v6 alt (length k) = Some v7" "bit_rounds v7 (k @ 0 # r) (length k) (length k) = Some v8"
    "md5_final v8 = Some (v9, d0)"
    "crypt_rounds 1000 0 v9 d0 (k @ 0 # r) (length k) (drop 3 c) saltlen
       = Some (v10, crypt_digest md5_hash32 k (take 3 c) (take saltlen (drop 3 c)))"
    "length (md5_buffer v10) = 64"
    by (rule md5_password_digest [OF assms(1) refl assms(3)])
  have short: "(if check then map_option (\<lambda>n. n \<le> 3) (grub_strlen c0) else Some False) = Some False"
    using assms(4) by auto
  show ?thesis
    unfolding md5_password_def d_def
    by (intro exI [of _ v10]) (simp only: run grub_strlen_append [OF assms(2)] short assms(5) Let_def
        Option.bind.bind_lunit prod.case if_False simp_thms)
qed

lemma md5_password_check_hash32:
  assumes "length (md5_buffer v) = 64" and "0 \<notin> set k"
    and "length hdr = 3" and "0 \<notin> set hdr" and "0 \<notin> set salt" and "0x24 \<notin> set salt" and "0 \<notin> set tail"
  shows "\<exists>e v'. md5_password v (k @ 0 # r) (hdr @ salt @ 0x24 # tail @ 0 # q) True
      = Some (e, v', hdr @ salt @ 0x24 # tail @ 0 # q)
    \<and> (e = 0 \<longleftrightarrow> tail = crypt_text (crypt_digest md5_hash32 k hdr salt))"
proof -
  define c where "c = hdr @ salt @ 0x24 # tail @ 0 # q"
  define d where "d = crypt_digest md5_hash32 k hdr salt"
  have s: "take 3 c = hdr" "take (length salt) (drop 3 c) = salt"
    "3 + length salt \<le> length c" "drop (3 + length salt + 1) c = tail @ 0 # q"
    using assms(3) by (simp_all add: c_def)
  have len: "\<exists>n > 3. grub_strlen c = Some n"
    using grub_strlen_append [of "hdr @ salt @ 0x24 # tail" q] assms by (simp add: c_def)
  have sl: "salt_length c True = Some (length salt, c)"
    using strstr_dollar(1) [OF assms(5,6)] assms(3) by (simp add: salt_length_def c_def)
  obtain v' where pw: "md5_password v (k @ 0 # r) c True = do {
      res \<leftarrow> b64_groups True (map (\<lambda>i. (4, digest_word d i)) [0..<5] @ [(2, ucast (d ! 11))]) (3 + length salt + 1) c;
      case res of
        Inl e \<Rightarrow> Some (e, v', c)
      | Inr (p, c') \<Rightarrow> do { c'' \<leftarrow> (if True then Some c' else wr c' p 0);
                          x \<leftarrow> rd c'' p;
                          Some (sint x, v', c'') } }"
    using md5_password_tail [OF assms(1,2) s(3) len sl, of r] unfolding s(1,2) d_def [symmetric] by blast
  have grp: "b64_groups True (map (\<lambda>i. (4, digest_word d i)) [0..<5] @ [(2, ucast (d ! 11))]) (3 + length salt + 1) c
      = Some (if prefix (crypt_text d) tail then Inr (3 + length salt + 1 + 22, c) else Inl 1)"
    unfolding b64_groups_check [OF s(4)] crypt_groups ..
  show ?thesis
  proof (cases "prefix (crypt_text d) tail")
    case False
    with pw grp show ?thesis by (auto simp: c_def d_def)
  next
    case True
    then obtain t where t: "tail = crypt_text d @ t" by (rule prefixE)
    have x: "rd c (3 + length salt + 1 + 22) = Some (hd (t @ 0 # q))"
      using assms(3) by (cases t) (simp_all add: c_def t nth_append)
    have "sint (hd (t @ 0 # q)) = 0 \<longleftrightarrow> t = []" using assms(7) by (cases t) (auto simp: t)
    with pw grp x True t show ?thesis by (auto simp: c_def d_def)
  qed
qed

lemma length_rfc_md5 [simp]: "length (rfc_md5 m) = 16"
  by (simp add: rfc_md5_def le_bytes32_def split: prod.split)

lemma length_length_bits: "length (length_bits c i) \<le> i"
  by (induction c i rule: length_bits.induct) (subst length_bits.simps, auto)

lemma crypt_iter_rfc:
  "length k < 2 ^ 26 \<Longrightarrow> length salt < 2 ^ 26 \<Longrightarrow> length d = 16
     \<Longrightarrow> crypt_iter md5_hash32 k salt n i d = crypt_iter rfc_md5 k salt n i d"
proof (induction n arbitrary: i d)
  case (Suc n)
  then have "md5_hash32 (crypt_round_msg i d k salt) = rfc_md5 (crypt_round_msg i d k salt)"
    by (intro md5_hash32_rfc) (auto simp: crypt_round_msg_def)
  with Suc.IH [of "md5_hash32 (crypt_round_msg i d k salt)" "Suc i"] Suc.prems show ?case
    by simp
qed simp

lemma crypt_digest_rfc:
  assumes "length k < 2 ^ 26" and "length salt < 2 ^ 26" and "length hdr = 3"
  shows "crypt_digest md5_hash32 k hdr salt = crypt_digest rfc_md5 k hdr salt"
proof -
  have alt: "md5_hash32 (k @ salt @ k) = rfc_md5 (k @ salt @ k)"
    using assms by (intro md5_hash32_rfc) simp
  let ?m = "crypt_first_msg (rfc_md5 (k @ salt @ k)) k hdr salt"
  have "length ?m \<le> 4 * length k + 3 + length salt"
    using length_length_bits [of "hd k" "length k"] assms(3) by (simp add: crypt_first_msg_def)
  then have first: "md5_hash32 ?m = rfc_md5 ?m"
    using assms by (intro md5_hash32_rfc) simp
  show ?thesis
    using crypt_iter_rfc [OF assms(1,2), of "md5_hash32 ?m" 1000 0] first by (simp add: crypt_digest_def alt)
qed

lemma md5_password_make_hash32:
  assumes "length (md5_buffer v) = 64" and "0 \<notin> set k"
    and "length hdr = 3" and "0 \<notin> set salt" and "0x24 \<notin> set salt" and "length salt \<le> 8"
    and "23 \<le> length q"
  shows "\<exists>v'. length (md5_buffer v') = 64 \<and> md5_password v (k @ 0 # r) (hdr @ salt @ 0x24 # q) False
      = Some (0, v', hdr @ salt @ 0x24 # crypt_text (crypt_digest md5_hash32 k hdr salt) @ 0 # drop 23 q)"
proof -
  define c where "c = hdr @ salt @ 0x24 # q"
  define d where "d = crypt_digest md5_hash32 k hdr salt"
  have s: "take 3 c = hdr" "take (length salt) (drop 3 c) = salt" "3 + length salt \<le> length c"
    using assms(3) by (simp_all add: c_def)
  have "(if length salt < 8 then length salt else 8) = length salt" using assms(6) by auto
  moreover have "c[3 + length salt := 0x24] = c"
    using assms(3) by (simp add: c_def list_update_append)
  ultimately have sl: "salt_length c False = Some (length salt, c)"
    using strstr_dollar(1) [OF assms(4,5)] s(3) assms(3) by (simp add: salt_length_def c_def)
  obtain v' where v': "length (md5_buffer v') = 64" and pw: "md5_password v (k @ 0 # r) c False = do {
      res \<leftarrow> b64_groups False (map (\<lambda>i. (4, digest_word d i)) [0..<5] @ [(2, ucast (d ! 11))]) (3 + length salt + 1) c;
      case res of
        Inl e \<Rightarrow> Some (e, v', c)
      | Inr (p, c') \<Rightarrow> do { c'' \<leftarrow> (if False then Some c' else wr c' p 0);
                          x \<leftarrow> rd c'' p;
                          Some (sint x, v', c'') } }"
    using md5_password_tail [OF assms(1,2) s(3) _ sl, of r] unfolding s(1,2) d_def [symmetric] by blast
  have room: "3 + length salt + 1 + 22 < length c" using assms(3,7) by (simp add: c_def)
  then have "b64_groups False (map (\<lambda>i. (4, digest_word d i)) [0..<5] @ [(2, ucast (d ! 11))]) (3 + length salt + 1) c
      = Some (Inr (3 + length salt + 1 + 22, overlay c (3 + length salt + 1) (crypt_text d)))"
    by (subst b64_groups_store) (simp_all only: crypt_groups)
  moreover have "(overlay c (3 + length salt + 1) (crypt_text d))[3 + length salt + 1 + 22 := 0]
      = hdr @ salt @ 0x24 # crypt_text d @ 0 # drop 23 q"
    using assms(3,7) by (simp add: overlay_def c_def list_update_append drop_Suc_Cons)
      (metis Cons_nth_drop_Suc Suc_le_lessD eval_nat_numeral(3) list_update_code(2))
  moreover have "rd (hdr @ salt @ 0x24 # crypt_text d @ 0 # drop 23 q) (3 + length salt + 1 + 22) = Some 0"
    using assms(3) by (simp add: nth_append)
  ultimately have "md5_password v (k @ 0 # r) c False = Some (0, v', hdr @ salt @ 0x24 # crypt_text d @ 0 # drop 23 q)"
    using room assms(3) by (simp add: pw)
  with v' show ?thesis unfolding c_def d_def by blast
qed

text \<open>
  C33. The check of a stored MD5 password is exact: against \<open>hdr salt $ tail\<close> with \<open>hdr\<close> the three
  characters \<open>$1$\<close>, \<open>md5_password\<close> returns 0 for the key \<open>k\<close> if and only if \<open>tail\<close> is the
  base-64 text that the crypt algorithm over RFC 1321 computes from the key and the salt. The
  comparison stays inside both strings, whatever they contain, and changes neither.
\<close>

theorem md5_password_check_exact:
  assumes "length (md5_buffer v) = 64" and "0 \<notin> set k" and "length k < 2 ^ 26"
    and "length hdr = 3" and "0 \<notin> set hdr" and "0 \<notin> set salt" and "0x24 \<notin> set salt"
    and "length salt < 2 ^ 26" and "0 \<notin> set tail"
  shows "\<exists>e v'. md5_password v (k @ 0 # r) (hdr @ salt @ 0x24 # tail @ 0 # q) True
      = Some (e, v', hdr @ salt @ 0x24 # tail @ 0 # q)
    \<and> (e = 0 \<longleftrightarrow> tail = crypt_text (crypt_digest rfc_md5 k hdr salt))"
  using md5_password_check_hash32 [OF assms(1,2,4-7,9), of r q] crypt_digest_rfc [OF assms(3,8,4)]
  by simp

lemma md5_password_check_exact_witness:
  "\<exists>e v'. md5_password \<lparr>state = [], length_counter = 0, md5_buffer = replicate 64 0\<rparr> [0x70, 0x77, 0]
      [0x24, 0x31, 0x24, 0x61, 0x62, 0x24, 0x63, 0] True = Some (e, v', [0x24, 0x31, 0x24, 0x61, 0x62, 0x24, 0x63, 0])
    \<and> (e = 0 \<longleftrightarrow> [0x63] = crypt_text (crypt_digest rfc_md5 [0x70, 0x77] [0x24, 0x31, 0x24] [0x61, 0x62]))"
  using md5_password_check_exact [of "\<lparr>state = [], length_counter = 0, md5_buffer = replicate 64 0\<rparr>" "[0x70, 0x77]"
      "[0x24, 0x31, 0x24]" "[0x61, 0x62]" "[0x63]" "[]" "[]"]
  by simp

text \<open>
  C34. A password made by \<open>md5_password\<close> (with a salt of up to eight characters and room for the
  result) is accepted by the check with the same key, and the array holds the terminated text
  \<open>hdr salt $ hash\<close>; no byte behind it changes.
\<close>

theorem md5_password_make_check:
  assumes "length (md5_buffer v) = 64" and "0 \<notin> set k" and "length k < 2 ^ 26"
    and "length hdr = 3" and "0 \<notin> set hdr" and "0 \<notin> set salt" and "0x24 \<notin> set salt"
    and "length salt \<le> 8" and "23 \<le> length q"
  shows "\<exists>v' v'' c. md5_password v (k @ 0 # r) (hdr @ salt @ 0x24 # q) False = Some (0, v', c)
    \<and> c = hdr @ salt @ 0x24 # crypt_text (crypt_digest rfc_md5 k hdr salt) @ 0 # drop 23 q
    \<and> md5_password v' (k @ 0 # r) c True = Some (0, v'', c)"
proof -
  let ?t = "crypt_text (crypt_digest md5_hash32 k hdr salt)"
  have rfc: "crypt_digest md5_hash32 k hdr salt = crypt_digest rfc_md5 k hdr salt"
    using assms by (intro crypt_digest_rfc) auto
  obtain v' where v': "length (md5_buffer v') = 64"
    "md5_password v (k @ 0 # r) (hdr @ salt @ 0x24 # q) False = Some (0, v', hdr @ salt @ 0x24 # ?t @ 0 # drop 23 q)"
    using md5_password_make_hash32 [OF assms(1,2,4,6-9), of r] by blast
  with md5_password_check_hash32 [OF v'(1) assms(2,4-7) crypt_text_nonzero, of r _ "drop 23 q"]
  show ?thesis unfolding rfc by blast
qed

lemma md5_password_make_check_witness:
  "\<exists>v' v'' c. md5_password \<lparr>state = [], length_counter = 0, md5_buffer = replicate 64 0\<rparr> [0x70, 0x77, 0]
      ([0x24, 0x31, 0x24, 0x61, 0x62, 0x24] @ replicate 24 0) False = Some (0, v', c)
    \<and> md5_password v' [0x70, 0x77, 0] c True = Some (0, v'', c)"
  using md5_password_make_check [of "\<lparr>state = [], length_counter = 0, md5_buffer = replicate 64 0\<rparr>" "[0x70, 0x77]"
      "[0x24, 0x31, 0x24]" "[0x61, 0x62]" "replicate 24 0" "[]"]
  by auto

end
