(* ===== verification/Bios.thy ===== *)
theory Bios
  imports CString
begin

text \<open>
  Disk access through the BIOS, \<^verbatim>\<open>stage2/bios.c\<close>: the choice between the LBA extensions and
  the CHS calls of INT 13, the fall-back from the first to the second, and the probing of the
  geometry. The INT 13 calls themselves (assembler in \<^verbatim>\<open>asm.S\<close>, then the firmware) are the
  parameter \<open>int13\<close>, whose functions take the state \<open>'w\<close> of the disks.
\<close>

section \<open>Geometry and the INT 13 interface\<close>

text \<open>The fields are \<open>unsigned long\<close>; the two flags are booleans.\<close>

record geometry =
  cylinders :: int
  heads :: int
  sectors :: int
  total_sectors :: int
  sector_size :: int
  lba_flag :: bool
  cdrom_flag :: bool

definition SECTOR_SIZE :: int where "SECTOR_SIZE = 0x200"

definition BIOSDISK_ERROR_GEOMETRY :: int where "BIOSDISK_ERROR_GEOMETRY = 0x100"

record drive_parameters =
  drp_cylinders :: u32
  drp_heads :: u32
  drp_sectors :: u32
  drp_total_sectors :: u64

record iso_spec_packet =
  cd_media_type :: u8
  cd_drive_no :: u8
  cd_cylinders :: u8
  cd_sectors :: u8
  cd_heads :: u8

text \<open>
  A call yields an error code that is not 0 (\<open>Inl\<close>) or its result: the bytes read or the
  changed disks.
\<close>

record 'w int13 =
  ext_read :: "'w \<Rightarrow> int \<Rightarrow> int \<Rightarrow> int \<Rightarrow> int + u8 list"
  ext_write :: "'w \<Rightarrow> int \<Rightarrow> int \<Rightarrow> int \<Rightarrow> u8 list \<Rightarrow> int + 'w"
  chs_read :: "'w \<Rightarrow> int \<Rightarrow> int \<Rightarrow> int \<Rightarrow> int \<Rightarrow> int \<Rightarrow> int + u8 list"
  chs_write :: "'w \<Rightarrow> int \<Rightarrow> int \<Rightarrow> int \<Rightarrow> int \<Rightarrow> int \<Rightarrow> u8 list \<Rightarrow> int + 'w"
  check_int13_extensions :: "'w \<Rightarrow> int \<Rightarrow> int"
  ext_parameters :: "'w \<Rightarrow> int \<Rightarrow> int + drive_parameters"
  cd_status :: "'w \<Rightarrow> int \<Rightarrow> int + iso_spec_packet"
  get_diskinfo_standard :: "'w \<Rightarrow> int \<Rightarrow> int + int \<times> int \<times> int"

section \<open>Access\<close>

text \<open>The product \<open>cylinders * heads * sectors\<close> in 32 bits.\<close>

definition chs_total :: "geometry \<Rightarrow> int" where
  "chs_total g = (cylinders g * heads g * sectors g) mod 2 ^ 32"

text \<open>
  The branch of \<open>biosdisk\<close> for CHS access, over the call \<open>std\<close> at a cylinder, head, sector and
  count. A geometry with no sectors or heads divides by zero, which is undefined (\<open>None\<close>).
\<close>

definition biosdisk_chs :: "(int \<Rightarrow> int \<Rightarrow> int \<Rightarrow> int \<Rightarrow> int + 'r) \<Rightarrow> geometry \<Rightarrow> int \<Rightarrow> int \<Rightarrow> (int + 'r) option" where
  "biosdisk_chs std g sector nsec =
     (if sectors g = 0 \<or> heads g = 0 then None
      else
        let sector_offset = sector mod sectors g + 1;
            head = sector div sectors g;
            head_offset = head mod heads g;
            cylinder_offset = head div heads g
        in Some (if cylinder_offset \<ge> cylinders g then Inl BIOSDISK_ERROR_GEOMETRY
                 else std cylinder_offset head_offset sector_offset nsec))"

text \<open>
  \<open>biosdisk\<close> over the two calls; the result also has the geometry, which the fall-back from LBA
  to CHS changes. The count is 16 bits wide in the disk address packet.
\<close>

definition biosdisk :: "(int \<Rightarrow> int \<Rightarrow> int + 'r) \<Rightarrow> (int \<Rightarrow> int \<Rightarrow> int \<Rightarrow> int \<Rightarrow> int + 'r) \<Rightarrow> geometry
    \<Rightarrow> int \<Rightarrow> int \<Rightarrow> ((int + 'r) \<times> geometry) option" where
  "biosdisk ext std g sector nsec =
     (if lba_flag g
      then case ext sector (nsec mod 2 ^ 16) of
             Inr r \<Rightarrow> Some (Inr r, g)
           | Inl err \<Rightarrow>
               if cdrom_flag g then Some (Inl err, g)
               else let g' = g\<lparr>lba_flag := False, total_sectors := chs_total g\<rparr>
                    in map_option (\<lambda>r. (r, g')) (biosdisk_chs std g' sector nsec)
      else map_option (\<lambda>r. (r, g)) (biosdisk_chs std g sector nsec))"

definition biosdisk_read :: "'w int13 \<Rightarrow> 'w \<Rightarrow> int \<Rightarrow> geometry \<Rightarrow> int \<Rightarrow> int
    \<Rightarrow> ((int + u8 list) \<times> geometry) option" where
  "biosdisk_read b w drive = biosdisk (ext_read b w drive) (chs_read b w drive)"

definition biosdisk_write :: "'w int13 \<Rightarrow> 'w \<Rightarrow> int \<Rightarrow> u8 list \<Rightarrow> geometry \<Rightarrow> int \<Rightarrow> int
    \<Rightarrow> ((int + 'w) \<times> geometry) option" where
  "biosdisk_write b w drive bytes =
     biosdisk (\<lambda>s n. ext_write b w drive s n bytes) (\<lambda>c h s n. chs_write b w drive c h s n bytes)"

section \<open>Probing\<close>

text \<open>
  \<open>get_cdinfo\<close>: 1 for a CD-ROM without emulation, -1 for an emulated disk, 0 otherwise.
\<close>

definition get_cdinfo :: "'w int13 \<Rightarrow> 'w \<Rightarrow> int \<Rightarrow> geometry \<Rightarrow> int \<times> geometry" where
  "get_cdinfo b w drive g =
     (case cd_status b w drive of
        Inl _ \<Rightarrow> (0, g)
      | Inr cdrp \<Rightarrow>
          if uint (cd_drive_no cdrp) \<noteq> drive then (0, g)
          else if cd_media_type cdrp AND 0x0F = 0
          then (1, g\<lparr>lba_flag := True, cdrom_flag := True, cylinders := 0, heads := 1, sectors := 15,
                     sector_size := 2048, total_sectors := 0x7FFFFFFF\<rparr>)
          else
            let g1 = g\<lparr>cylinders := uint (cd_cylinders cdrp) + 4 * uint (cd_sectors cdrp AND 0xC0),
                       heads := uint (cd_heads cdrp), sectors := uint (cd_sectors cdrp AND 0x3F),
                       sector_size := SECTOR_SIZE\<rparr>
            in (-1, g1\<lparr>total_sectors := chs_total g1\<rparr>))"

text \<open>
  \<open>get_diskinfo\<close> with the old contents \<open>g\<close> of the geometry structure: the error code (0 for
  success) and the new contents.
\<close>

definition get_diskinfo :: "'w int13 \<Rightarrow> 'w \<Rightarrow> int \<Rightarrow> geometry \<Rightarrow> int \<times> geometry" where
  "get_diskinfo b w drive g =
     (let g0 = g\<lparr>lba_flag := False, cdrom_flag := False\<rparr>
      in if bit drive 7
         then
           let version = check_int13_extensions b w drive;
               (cd, g1) = (if drive \<ge> 0x88 \<or> version \<noteq> 0 then get_cdinfo b w drive g0 else (0, g0))
           in if cd \<noteq> 0 then (0, g1)
              else
                let (total, g2) =
                  (if version \<noteq> 0
                   then case ext_parameters b w drive of
                          Inl _ \<Rightarrow> (0, g1)
                        | Inr drp \<Rightarrow>
                            (if drp_total_sectors drp \<noteq> 0 then uint (drp_total_sectors drp) mod 2 ^ 32
                             else uint (drp_cylinders drp * drp_heads drp * drp_sectors drp),
                             g1\<lparr>lba_flag := True\<rparr>)
                   else (0, g1))
                in case get_diskinfo_standard b w drive of
                     Inl err \<Rightarrow> (err, g2)
                   | Inr (c, h, s) \<Rightarrow>
                       let g3 = g2\<lparr>cylinders := c, heads := h, sectors := s\<rparr>
                       in (0, g3\<lparr>total_sectors := (if total = 0 then chs_total g3 else total),
                                 sector_size := SECTOR_SIZE\<rparr>)
         else case get_diskinfo_standard b w drive of
                Inl err \<Rightarrow> (err, g0)
              | Inr (c, h, s) \<Rightarrow>
                  let g1 = g0\<lparr>cylinders := c, heads := h, sectors := s\<rparr>
                  in (0, g1\<lparr>total_sectors := chs_total g1, sector_size := SECTOR_SIZE\<rparr>))"

section \<open>Properties\<close>

text \<open>The sector that a CHS address denotes.\<close>

definition chs_lba :: "geometry \<Rightarrow> int \<Rightarrow> int \<Rightarrow> int \<Rightarrow> int" where
  "chs_lba g c h s = (c * heads g + h) * sectors g + (s - 1)"

lemma le_zdiv_iff:
  assumes "0 < (b :: int)"
  shows "k \<le> a div b \<longleftrightarrow> k * b \<le> a"
proof
  assume "k \<le> a div b"
  then have "k * b \<le> a div b * b" using assms by (intro mult_right_mono) auto
  also have "\<dots> \<le> a" using assms pos_mod_sign [of b a] div_mult_mod_eq [of a b] by linarith
  finally show "k * b \<le> a" .
next
  assume "k * b \<le> a"
  then have "k * b div b \<le> a div b" using assms by (intro zdiv_mono1) auto
  then show "k \<le> a div b" using assms by simp
qed

lemma chs_split:
  assumes "0 < sectors g" and "0 < heads g" and "0 \<le> sector"
  shows "chs_lba g (sector div sectors g div heads g) (sector div sectors g mod heads g) (sector mod sectors g + 1) = sector"
  using assms by (simp add: chs_lba_def)

text \<open>
  The CHS branch of \<open>biosdisk\<close> addresses the sector it is asked for: it calls INT 13 with a
  cylinder, head and one-based sector inside the geometry that denote exactly this sector, and it
  reports a geometry error exactly if the sector lies behind the last cylinder.
\<close>

theorem biosdisk_chs_address:
  assumes "0 < sectors g" and "0 < heads g" and "0 \<le> sector"
  shows "\<exists>c h s. chs_lba g c h s = sector \<and> 0 \<le> c \<and> 0 \<le> h \<and> h < heads g \<and> 1 \<le> s \<and> s \<le> sectors g
    \<and> biosdisk_chs std g sector nsec
        = Some (if sector \<ge> cylinders g * heads g * sectors g then Inl BIOSDISK_ERROR_GEOMETRY
                else std c h s nsec)"
proof -
  let ?c = "sector div sectors g div heads g" and ?h = "sector div sectors g mod heads g"
    and ?s = "sector mod sectors g + 1"
  have "cylinders g \<le> ?c \<longleftrightarrow> cylinders g * heads g * sectors g \<le> sector"
  proof -
    have "?c = sector div (sectors g * heads g)"
      using assms by (simp add: zdiv_zmult2_eq)
    moreover have "cylinders g \<le> sector div (sectors g * heads g)
        \<longleftrightarrow> cylinders g * (sectors g * heads g) \<le> sector"
      using assms by (intro le_zdiv_iff) simp
    ultimately show ?thesis by (simp add: ac_simps)
  qed
  moreover have "?s \<le> sectors g" using pos_mod_bound [OF assms(1), of sector] by linarith
  ultimately show ?thesis
    using assms chs_split [OF assms]
    by - (rule exI [of _ ?c], rule exI [of _ ?h], rule exI [of _ ?s],
      simp add: biosdisk_chs_def Let_def pos_imp_zdiv_nonneg_iff)
qed

lemma biosdisk_chs_address_witness:
  "\<exists>c h s. chs_lba \<lparr>cylinders = 80, heads = 2, sectors = 18, total_sectors = 2880, sector_size = 512,
      lba_flag = False, cdrom_flag = False\<rparr> c h s = 100 \<and> 1 \<le> s \<and> s \<le> 18
    \<and> biosdisk_chs (\<lambda>c h s n. Inr [c, h, s, n]) \<lparr>cylinders = 80, heads = 2, sectors = 18, total_sectors = 2880,
        sector_size = 512, lba_flag = False, cdrom_flag = False\<rparr> 100 1 = Some (Inr [c, h, s, 1])"
  using biosdisk_chs_address [of "\<lparr>cylinders = 80, heads = 2, sectors = 18, total_sectors = 2880,
      sector_size = 512, lba_flag = False, cdrom_flag = False\<rparr>" 100 "\<lambda>c h s n. Inr [c, h, s, n]" 1]
  by auto

text \<open>
  If an LBA access to a hard disk fails, \<open>biosdisk\<close> switches the drive to CHS access for
  good, with the size that the CHS geometry gives, and retries once: the result is that of the CHS
  access. For a CD-ROM the error is returned and the geometry kept.
\<close>

theorem biosdisk_lba_fallback:
  assumes "lba_flag g" and "ext sector (nsec mod 2 ^ 16) = Inl err"
    and "0 < sectors g" and "0 < heads g"
  shows "biosdisk ext std g sector nsec
    = (if cdrom_flag g then Some (Inl err, g)
       else Some (the (biosdisk_chs std g sector nsec), g\<lparr>lba_flag := False, total_sectors := chs_total g\<rparr>))"
  using assms by (simp add: biosdisk_def biosdisk_chs_def Let_def)

lemma biosdisk_lba_fallback_witness:
  "biosdisk (\<lambda>s n. Inl 1) (\<lambda>c h s n. Inr [c, h, s]) \<lparr>cylinders = 80, heads = 2, sectors = 18, total_sectors = 9999,
      sector_size = 512, lba_flag = True, cdrom_flag = False\<rparr> 100 1
    = Some (Inr [2, 1, 11], \<lparr>cylinders = 80, heads = 2, sectors = 18, total_sectors = 2880,
        sector_size = 512, lba_flag = False, cdrom_flag = False\<rparr>)"
  using biosdisk_lba_fallback [of "\<lparr>cylinders = 80, heads = 2, sectors = 18, total_sectors = 9999,
      sector_size = 512, lba_flag = True, cdrom_flag = False\<rparr>" "\<lambda>s n. Inl 1" 100 1 1 "\<lambda>c h s n. Inr [c, h, s]"]
  by (simp add: biosdisk_chs_def chs_total_def)

end
