(* ===== verification/DiskIo.thy ===== *)
theory DiskIo
  imports Bios
begin

text \<open>
  The disk layer of \<^verbatim>\<open>stage2/disk_io.c\<close>: raw sector reads through the track buffer, reads
  relative to a partition, and writes with their cache invalidation.

  The buffer at \<open>BUFFERADDR\<close> is the list \<open>dbuf\<close>, the sector at \<open>SCRATCHADDR\<close> the list \<open>scratch\<close>.
  What a read delivers to its caller's pointer \<open>buf\<close> is a list of bytes; whether \<open>memcheck\<close>
  accepts a part of that destination is the parameter \<open>fits\<close>. Sector numbers and lengths are
  integers; the C code computes them as \<open>int\<close>, which does not overflow for the sizes of an
  \<open>int\<close> file offset. \<open>None\<close> is a division by zero, an access outside the buffer or a loop
  that does not end.
\<close>

section \<open>State\<close>

record 'w disk_state =
  errnum :: grub_error_t
  buf_drive :: int
  buf_track :: int
  buf_geom :: geometry
  dbuf :: "u8 list"
  scratch :: "u8 list"
  hook_on :: bool
  hook_log :: "(int \<times> int \<times> int) list"
  world :: 'w

definition BUFFERLEN :: int where "BUFFERLEN = 0x7e00"

text \<open>The \<open>bsf\<close> instruction: the number of the lowest bit that is set.\<close>

fun grub_log2 :: "nat \<Rightarrow> nat" where
  "grub_log2 w = (if w = 0 \<or> odd w then 0 else Suc (grub_log2 (w div 2)))"

declare grub_log2.simps [simp del]

definition ss_bits :: "'w disk_state \<Rightarrow> nat" where
  "ss_bits st = grub_log2 (nat (sector_size (buf_geom st)))"

definition PC_SLICE_TYPE :: "u8 list \<Rightarrow> nat \<Rightarrow> u8" where
  "PC_SLICE_TYPE mbr part = mbr ! (446 + 4 + 16 * part)"

definition is_ezd :: "u8 list \<Rightarrow> bool" where
  "is_ezd b \<longleftrightarrow>
     PC_SLICE_TYPE b 0 = 0x55 \<or> PC_SLICE_TYPE b 1 = 0x55 \<or> PC_SLICE_TYPE b 2 = 0x55 \<or> PC_SLICE_TYPE b 3 = 0x55"

section \<open>Reading\<close>

text \<open>A read of sectors into the track buffer.\<close>

definition read_buffer :: "'w int13 \<Rightarrow> int \<Rightarrow> int \<Rightarrow> int \<Rightarrow> 'w disk_state \<Rightarrow> (int \<times> 'w disk_state) option" where
  "read_buffer b drive start n st =
     (case biosdisk_read b (world st) drive (buf_geom st) start n of
        None \<Rightarrow> None
      | Some (Inl err, g) \<Rightarrow> Some (err, st\<lparr>buf_geom := g\<rparr>)
      | Some (Inr data, g) \<Rightarrow> Some (0, st\<lparr>buf_geom := g, dbuf := overlay (dbuf st) 0 data\<rparr>))"

text \<open>
  The part of the loop of \<open>rawread\<close> that fills the track buffer if another track is in it. The
  result is the state and the offset of \<open>bufaddr\<close> in the buffer.
\<close>

definition fetch_track :: "'w int13 \<Rightarrow> int \<Rightarrow> int \<Rightarrow> int \<Rightarrow> int \<Rightarrow> int \<Rightarrow> int \<Rightarrow> int \<Rightarrow> 'w disk_state
    \<Rightarrow> ('w disk_state \<times> int) option" where
  "fetch_track b drive sector slen sectors_per_vtrack track num_sect byte_offset st =
     (let soff = sector - track;
          partial = slen > num_sect;
          (read_start, read_len, bufaddr) =
            (if partial then (sector, num_sect, byte_offset)
             else (track, sectors_per_vtrack, push_bit (ss_bits st) soff + byte_offset))
      in do {
           (bios_err, st1) \<leftarrow> read_buffer b drive read_start read_len st;
           if bios_err = 0 then Some (st1\<lparr>buf_track := track\<rparr>, bufaddr)
           else if bios_err = BIOSDISK_ERROR_GEOMETRY
           then Some (st1\<lparr>buf_track := -1, errnum := ERR_GEOM\<rparr>, bufaddr)
           else if partial then Some (st1\<lparr>buf_track := -1, errnum := ERR_READ\<rparr>, byte_offset)
           else do {
             (bios_err', st2) \<leftarrow> read_buffer b drive sector slen (st1\<lparr>buf_track := -1\<rparr>);
             Some (if bios_err' \<noteq> 0 then st2\<lparr>errnum := ERR_READ\<rparr> else st2, byte_offset) } })"

text \<open>The sector map of EZ-Drive disks: sector 0 is replaced by sector 1 in the buffer.\<close>

definition remap_ezd :: "'w int13 \<Rightarrow> int \<Rightarrow> int \<Rightarrow> int \<Rightarrow> 'w disk_state \<Rightarrow> 'w disk_state option" where
  "remap_ezd b drive sector slen st =
     (let ss = nat (sector_size (buf_geom st))
      in if (buf_track st = 0 \<or> sector = 0) \<and> is_ezd (dbuf st)
         then if buf_track st = 0 \<or> 2 \<le> slen
              then Some (if errnum st = ERR_NONE
                         then st\<lparr>dbuf := overlay (dbuf st) 0 (take ss (drop ss (dbuf st)))\<rparr> else st)
              else do { (err, st1) \<leftarrow> read_buffer b drive 1 1 st;
                        Some (if err \<noteq> 0 then st1\<lparr>errnum := ERR_READ\<rparr> else st1) }
         else Some st)"

definition load_track :: "'w int13 \<Rightarrow> int \<Rightarrow> int \<Rightarrow> int \<Rightarrow> int \<Rightarrow> int \<Rightarrow> int \<Rightarrow> int \<Rightarrow> 'w disk_state
    \<Rightarrow> ('w disk_state \<times> int) option" where
  "load_track b drive sector slen sectors_per_vtrack track num_sect byte_offset st =
     (if track \<noteq> buf_track st
      then do { (st1, bufaddr) \<leftarrow>
                  fetch_track b drive sector slen sectors_per_vtrack track num_sect byte_offset st;
                st2 \<leftarrow> remap_ezd b drive sector slen st1;
                Some (st2, bufaddr) }
      else Some (st, push_bit (ss_bits st) (sector - track) + byte_offset))"

text \<open>The geometry and the track buffer are reset when another drive is read.\<close>

definition select_drive :: "'w int13 \<Rightarrow> int \<Rightarrow> 'w disk_state \<Rightarrow> bool \<times> 'w disk_state" where
  "select_drive b drive st =
     (if buf_drive st \<noteq> drive
      then let (err, g) = get_diskinfo b (world st) drive (buf_geom st)
           in if err \<noteq> 0 then (False, st\<lparr>buf_geom := g, errnum := ERR_NO_DISK\<rparr>)
              else (True, st\<lparr>buf_geom := g, buf_drive := drive, buf_track := -1\<rparr>)
      else (True, st))"

text \<open>The number of sectors of a track that fit into the buffer.\<close>

definition vtrack :: "'w disk_state \<Rightarrow> int" where
  "vtrack st =
     (if push_bit (ss_bits st) (sectors (buf_geom st)) > BUFFERLEN
      then drop_bit (ss_bits st) BUFFERLEN else sectors (buf_geom st))"

text \<open>The calls of \<open>disk_read_func\<close> for one piece of a read.\<close>

function hook_rest :: "int \<Rightarrow> int \<Rightarrow> int \<Rightarrow> (int \<times> int \<times> int) list" where
  "hook_rest ss sector_num len =
     (if 0 < ss \<and> ss < len then (sector_num, 0, ss) # hook_rest ss (sector_num + 1) (len - ss)
      else [(sector_num, 0, len)])"
  by pat_completeness auto
termination
  by (relation "measure (\<lambda>(ss, n, len). nat len)") auto

declare hook_rest.simps [simp del]

definition hook_calls :: "int \<Rightarrow> int \<Rightarrow> int \<Rightarrow> int \<Rightarrow> (int \<times> int \<times> int) list" where
  "hook_calls ss sector byte_offset sz =
     (let len = (if ss - byte_offset > sz then sz else ss - byte_offset)
      in (sector, byte_offset, len) # (if 0 < sz - len then hook_rest ss (sector + 1) (sz - len) else []))"

text \<open>
  The loop of \<open>rawread\<close>. \<open>out\<close> is what has been stored at the caller's pointer so far. A read
  from behind the buffer is undefined, and a piece of size 0 would loop forever: neither is a
  result.
\<close>

partial_function (option) rawread_loop :: "'w int13 \<Rightarrow> (nat \<Rightarrow> nat \<Rightarrow> bool) \<Rightarrow> int \<Rightarrow> int \<Rightarrow> int \<Rightarrow> int
    \<Rightarrow> u8 list \<Rightarrow> 'w disk_state \<Rightarrow> (bool \<times> u8 list \<times> 'w disk_state) option" where
  "rawread_loop b fits drive sector byte_offset byte_len out st =
     (if 0 < byte_len \<and> errnum st = ERR_NONE
      then
        let (ok, st1) = select_drive b drive st
        in if \<not> ok then Some (False, out, st1)
           else if sector < 0 \<or> sector \<ge> total_sectors (buf_geom st1)
           then Some (False, out, st1\<lparr>errnum := ERR_GEOM\<rparr>)
           else
             let bits = ss_bits st1;
                 ss = sector_size (buf_geom st1);
                 slen = drop_bit bits (byte_offset + byte_len + ss - 1);
                 sectors_per_vtrack = vtrack st1;
                 soff = sector mod sectors_per_vtrack;
                 track = sector - soff;
                 num_sect = sectors_per_vtrack - soff
             in if sectors_per_vtrack = 0 then None
                else Option.bind
                  (load_track b drive sector slen sectors_per_vtrack track num_sect byte_offset st1)
                  (\<lambda>(st2, bufaddr).
                     let sz = min byte_len (push_bit bits num_sect - byte_offset);
                         st3 = (if hook_on st2
                                then st2\<lparr>hook_log := hook_log st2 @ hook_calls ss sector byte_offset sz\<rparr>
                                else st2)
                     in if sz \<le> 0 \<or> bufaddr < 0 \<or> int (length (dbuf st3)) < bufaddr + sz then None
                        else if errnum st3 = ERR_NONE \<and> \<not> fits (length out) (nat sz)
                        then Some (False, out, st3\<lparr>errnum := ERR_WONT_FIT\<rparr>)
                        else
                          rawread_loop b fits drive (sector + num_sect) 0 (byte_len - sz)
                            (if errnum st3 = ERR_NONE
                             then out @ take (nat sz) (drop (nat bufaddr) (dbuf st3)) else out)
                            st3)
      else Some (errnum st = ERR_NONE, out, st))"

definition rawread :: "'w int13 \<Rightarrow> (nat \<Rightarrow> nat \<Rightarrow> bool) \<Rightarrow> int \<Rightarrow> int \<Rightarrow> int \<Rightarrow> int
    \<Rightarrow> 'w disk_state \<Rightarrow> (bool \<times> u8 list \<times> 'w disk_state) option" where
  "rawread b fits drive sector byte_offset byte_len st =
     (if byte_len \<le> 0 then Some (True, [], st)
      else rawread_loop b fits drive sector byte_offset byte_len [] st)"

text \<open>
  \<open>devread\<close> in the partition that starts at sector \<open>part_start\<close> and has \<open>part_length\<close> sectors. Both
  are \<open>unsigned long\<close>, so the bound is compared in 32 bits without sign, and the sum passed to
  \<open>rawread\<close> is converted back to \<open>int\<close>.
\<close>

definition c_int :: "int \<Rightarrow> int" where
  "c_int x = (x + 2 ^ 31) mod 2 ^ 32 - 2 ^ 31"

definition devread :: "'w int13 \<Rightarrow> (nat \<Rightarrow> nat \<Rightarrow> bool) \<Rightarrow> int \<Rightarrow> int \<Rightarrow> int \<Rightarrow> int \<Rightarrow> int \<Rightarrow> int
    \<Rightarrow> 'w disk_state \<Rightarrow> (bool \<times> u8 list \<times> 'w disk_state) option" where
  "devread b fits current_drive part_start part_length sector byte_offset byte_len st =
     (if sector < 0 \<or> (sector + drop_bit 9 (byte_offset + byte_len - 1)) mod 2 ^ 32 \<ge> part_length
      then Some (False, [], st\<lparr>errnum := ERR_OUTSIDE_PART\<rparr>)
      else rawread b fits current_drive (c_int (part_start + (sector + drop_bit 9 byte_offset)))
             (byte_offset AND (SECTOR_SIZE - 1)) byte_len st)"

section \<open>Writing\<close>

definition rawwrite :: "'w int13 \<Rightarrow> int \<Rightarrow> int \<Rightarrow> u8 list \<Rightarrow> 'w disk_state \<Rightarrow> (bool \<times> 'w disk_state) option" where
  "rawwrite b drive sector buf st =
     do { (ok, sector', st1) \<leftarrow>
            (if sector = 0
             then (case biosdisk_read b (world st) drive (buf_geom st) 0 1 of
                     None \<Rightarrow> None
                   | Some (Inl _, g) \<Rightarrow> Some (False, sector, st\<lparr>buf_geom := g, errnum := ERR_WRITE\<rparr>)
                   | Some (Inr data, g) \<Rightarrow>
                       Some (True, if is_ezd data then 1 else 0, st\<lparr>buf_geom := g, scratch := data\<rparr>))
             else Some (True, sector, st));
          if \<not> ok then Some (False, st1)
          else
            let st2 = (if errnum st1 = ERR_NONE then st1\<lparr>scratch := take (nat SECTOR_SIZE) buf\<rparr> else st1)
            in case biosdisk_write b (world st2) drive (scratch st2) (buf_geom st2) sector' 1 of
                 None \<Rightarrow> None
               | Some (Inl _, g) \<Rightarrow> Some (False, st2\<lparr>buf_geom := g, errnum := ERR_WRITE\<rparr>)
               | Some (Inr w, g) \<Rightarrow>
                   let st3 = st2\<lparr>world := w, buf_geom := g\<rparr>
                   in if sectors g = 0 then None
                      else Some (True, if sector' - sector' mod sectors g = buf_track st3
                                       then st3\<lparr>buf_track := -1\<rparr> else st3) }"

primrec devwrite_loop :: "'w int13 \<Rightarrow> int \<Rightarrow> int \<Rightarrow> nat \<Rightarrow> u8 list \<Rightarrow> 'w disk_state \<Rightarrow> (bool \<times> 'w disk_state) option" where
  "devwrite_loop b drive sector 0 buf st = Some (True, st)"
| "devwrite_loop b drive sector (Suc n) buf st =
     do { (ok, st') \<leftarrow> rawwrite b drive sector buf st;
          if ok then devwrite_loop b drive (sector + 1) n (drop (nat SECTOR_SIZE) buf) st'
          else Some (False, st') }"

definition devwrite :: "'w int13 \<Rightarrow> int \<Rightarrow> int \<Rightarrow> int \<Rightarrow> nat \<Rightarrow> u8 list \<Rightarrow> 'w disk_state
    \<Rightarrow> (bool \<times> 'w disk_state) option" where
  "devwrite b current_drive part_start sector sector_count buf st =
     devwrite_loop b current_drive (part_start + sector) sector_count buf st"

section \<open>Slices of a disk\<close>

definition slice :: "'a list \<Rightarrow> int \<Rightarrow> int \<Rightarrow> 'a list" where
  "slice xs s n = take (nat n) (drop (nat s) xs)"

lemma slice_slice:
  assumes "0 \<le> s" and "0 \<le> a" and "a + n \<le> m"
  shows "slice (slice xs s m) a n = slice xs (s + a) n"
proof (cases "0 \<le> n")
  case True
  then have "min (nat n) (nat m - nat a) = nat n" using assms by linarith
  moreover have "nat (s + a) = nat a + nat s" using assms by linarith
  ultimately show ?thesis by (simp add: slice_def drop_take)
qed (simp add: slice_def)

lemma slice_overlay:
  assumes "0 \<le> a" and "a + n \<le> int (length xs)"
  shows "slice (overlay buf 0 xs) a n = slice xs a n"
proof -
  have "nat a + nat n \<le> length xs \<or> n \<le> 0" using assms by linarith
  then show ?thesis by (auto simp: slice_def overlay_def)
qed

lemma slice_append:
  assumes "0 \<le> s" and "0 \<le> m" and "0 \<le> n"
  shows "slice xs s m @ slice xs (s + m) n = slice xs s (m + n)"
proof -
  have "nat (m + n) = nat m + nat n" "nat (s + m) = nat m + nat s" using assms by linarith+
  then show ?thesis by (simp add: slice_def take_add)
qed

lemma length_slice_le: "length (slice xs s n) \<le> nat n"
  by (simp add: slice_def)

lemma length_slice_part:
  assumes "int (length (slice xs s m)) = m" and "0 \<le> s" and "0 \<le> a" and "0 \<le> n" and "a + n \<le> m"
  shows "int (length (slice xs (s + a) n)) = n"
proof -
  have "nat (s + a) = nat s + nat a" using assms by linarith
  moreover have "m \<le> int (length xs - nat s) \<or> m = 0" using assms(1) by (auto simp: slice_def)
  ultimately show ?thesis using assms(2-5) by (auto simp: slice_def)
qed

lemma grub_log2_power: "grub_log2 (2 ^ k) = k"
  by (induction k) (subst grub_log2.simps, simp)+

section \<open>The contract of the BIOS disk service\<close>

text \<open>
  What the disk layer relies on: a probed geometry is usable, a read in it returns, and a read that
  reports success delivers the bytes of the disk. A failing read may change the geometry to another
  usable one with the same track and sector sizes.
\<close>

definition usable :: "geometry \<Rightarrow> bool" where
  "usable g \<longleftrightarrow> 0 < sectors g \<and> (sector_size g = 512 \<or> sector_size g = 2048)"

text \<open>The contents of the buffered drive, for the contents of all drives, and its sector size.\<close>

definition disk_of :: "('w \<Rightarrow> int \<Rightarrow> u8 list) \<Rightarrow> 'w disk_state \<Rightarrow> u8 list" where
  "disk_of contents st = contents (world st) (buf_drive st)"

definition ssz :: "'w disk_state \<Rightarrow> int" where
  "ssz st = sector_size (buf_geom st)"

text \<open>The state between two iterations: the buffer has its size and the geometry is usable.\<close>

definition disk_wf :: "('w \<Rightarrow> int \<Rightarrow> geometry \<Rightarrow> bool) \<Rightarrow> int \<Rightarrow> 'w disk_state \<Rightarrow> bool" where
  "disk_wf ok_geom drive st \<longleftrightarrow> int (length (dbuf st)) = BUFFERLEN
     \<and> (buf_drive st = drive \<longrightarrow> ok_geom (world st) drive (buf_geom st))"

text \<open>The track buffer holds the track it claims to hold.\<close>

definition coherent :: "('w \<Rightarrow> int \<Rightarrow> u8 list) \<Rightarrow> 'w disk_state \<Rightarrow> bool" where
  "coherent contents st \<longleftrightarrow> buf_track st = -1 \<or> 0 \<le> buf_track st \<and> vtrack st dvd buf_track st
     \<and> slice (dbuf st) 0 (vtrack st * ssz st) = slice (disk_of contents st) (buf_track st * ssz st) (vtrack st * ssz st)
     \<and> int (length (slice (disk_of contents st) (buf_track st * ssz st) (vtrack st * ssz st))) = vtrack st * ssz st"

text \<open>No sector that can come first in a buffered track bears the mark of an EZ-Drive disk.\<close>

definition ezd_free :: "('w \<Rightarrow> int \<Rightarrow> u8 list) \<Rightarrow> 'w \<Rightarrow> int \<Rightarrow> int \<Rightarrow> bool" where
  "ezd_free contents w drive ss \<longleftrightarrow>
     (\<forall>s n. 0 \<le> s \<longrightarrow> s * ss < BUFFERLEN \<longrightarrow> int (length (slice (contents w drive) (s * ss) (n * ss))) = n * ss
        \<longrightarrow> 0 < n \<longrightarrow> \<not> is_ezd (slice (contents w drive) (s * ss) (n * ss)))"

lemma bits:
  assumes "usable (buf_geom st)"
  shows "push_bit (ss_bits st) x = x * ssz st" and "drop_bit (ss_bits st) x = x div ssz st"
    and "0 < ssz st" and "0 < vtrack st" and "vtrack st * ssz st \<le> BUFFERLEN"
proof -
  have "grub_log2 (2 ^ 9) = 9" "grub_log2 (2 ^ 11) = 11" by (rule grub_log2_power)+
  then have ss: "ss_bits st = 9 \<and> ssz st = 512 \<or> ss_bits st = 11 \<and> ssz st = 2048"
    using assms by (auto simp: ss_bits_def ssz_def usable_def)
  then show p: "push_bit (ss_bits st) x = x * ssz st" and d: "drop_bit (ss_bits st) x = x div ssz st" for x
    by (auto simp: push_bit_int_def drop_bit_int_def)
  show "0 < ssz st" using ss by auto
  show "0 < vtrack st" "vtrack st * ssz st \<le> BUFFERLEN"
    using assms ss unfolding vtrack_def p d by (auto simp: usable_def BUFFERLEN_def)
qed

locale sector_device =
  fixes b :: "'w int13" and contents :: "'w \<Rightarrow> int \<Rightarrow> u8 list" and ok_geom :: "'w \<Rightarrow> int \<Rightarrow> geometry \<Rightarrow> bool"
  assumes probe: "get_diskinfo b w drive g = (0, g') \<Longrightarrow> ok_geom w drive g'"
    and geom_usable: "ok_geom w drive g \<Longrightarrow> usable g"
    and read_returns: "ok_geom w drive g \<Longrightarrow> 0 \<le> s \<Longrightarrow> 0 < n \<Longrightarrow> n < 2 ^ 16
      \<Longrightarrow> \<exists>r g'. biosdisk_read b w drive g s n = Some (r, g') \<and> ok_geom w drive g'
            \<and> sectors g' = sectors g \<and> sector_size g' = sector_size g \<and> r \<noteq> Inl 0"
    and read_sound: "ok_geom w drive g \<Longrightarrow> 0 \<le> s \<Longrightarrow> 0 < n \<Longrightarrow> n < 2 ^ 16
      \<Longrightarrow> biosdisk_read b w drive g s n = Some (Inr data, g')
      \<Longrightarrow> data = slice (contents w drive) (s * sector_size g) (n * sector_size g)
          \<and> int (length data) = n * sector_size g"
begin

lemma read_buffer_spec:
  assumes "disk_wf ok_geom drive st" and "buf_drive st = drive" and "0 \<le> s" and "0 < n"
    and "n * ssz st \<le> BUFFERLEN"
  obtains err g buf where "read_buffer b drive s n st = Some (err, st\<lparr>buf_geom := g, dbuf := buf\<rparr>)"
    and "ok_geom (world st) drive g" and "sectors g = sectors (buf_geom st)" and "sector_size g = ssz st"
    and "int (length buf) = BUFFERLEN"
    and "err = 0 \<Longrightarrow> slice buf 0 (n * ssz st) = slice (disk_of contents st) (s * ssz st) (n * ssz st)"
    and "err = 0 \<Longrightarrow> int (length (slice (disk_of contents st) (s * ssz st) (n * ssz st))) = n * ssz st"
proof -
  have ok: "ok_geom (world st) drive (buf_geom st)" and len: "int (length (dbuf st)) = BUFFERLEN"
    using assms by (auto simp: disk_wf_def)
  have "512 \<le> ssz st" using geom_usable [OF ok] by (auto simp: usable_def ssz_def)
  then have "n * 512 \<le> n * ssz st" using assms(4) by (intro mult_left_mono) auto
  then have n16: "n < 2 ^ 16" using assms(5) by (simp add: BUFFERLEN_def)
  obtain r g where r: "biosdisk_read b (world st) drive (buf_geom st) s n = Some (r, g)"
    "ok_geom (world st) drive g" "sectors g = sectors (buf_geom st)" "sector_size g = ssz st" "r \<noteq> Inl 0"
    using read_returns [OF ok assms(3,4) n16] by (auto simp: ssz_def)
  show thesis
  proof (cases r)
    case (Inl e)
    with r that [where err = e and g = g and buf = "dbuf st"] len show thesis by (auto simp: read_buffer_def)
  next
    case (Inr data)
    with read_sound [OF ok assms(3,4) n16] r(1) have data:
      "data = slice (disk_of contents st) (s * ssz st) (n * ssz st)" "int (length data) = n * ssz st"
      by (auto simp: disk_of_def ssz_def assms(2))
    have "slice (overlay (dbuf st) 0 data) 0 (n * ssz st) = slice data 0 (n * ssz st)"
      using data(2) by (intro slice_overlay) auto
    also have "\<dots> = data" using data(2) by (simp add: slice_def)
    finally have "slice (overlay (dbuf st) 0 data) 0 (n * ssz st) = data" .
    moreover have "int (length (overlay (dbuf st) 0 data)) = BUFFERLEN"
      using data(2) len assms(5) by simp
    ultimately show thesis
      using that [where err = 0 and g = g and buf = "overlay (dbuf st) 0 data"] r Inr data by (simp add: read_buffer_def)
  qed
qed

lemma remap_ezd_spec:
  assumes "disk_wf ok_geom drive st" and "buf_drive st = drive" and "usable (buf_geom st)"
  obtains g buf e where "remap_ezd b drive sector slen st = Some (st\<lparr>buf_geom := g, dbuf := buf, errnum := e\<rparr>)"
    and "ok_geom (world st) drive g" and "sectors g = sectors (buf_geom st)" and "sector_size g = ssz st"
    and "int (length buf) = BUFFERLEN" and "errnum st \<noteq> ERR_NONE \<Longrightarrow> e \<noteq> ERR_NONE"
    and "\<not> ((buf_track st = 0 \<or> sector = 0) \<and> is_ezd (dbuf st)) \<Longrightarrow> g = buf_geom st \<and> buf = dbuf st \<and> e = errnum st"
proof -
  have ok: "ok_geom (world st) drive (buf_geom st)" and len: "int (length (dbuf st)) = BUFFERLEN"
    using assms by (auto simp: disk_wf_def)
  let ?ss = "nat (sector_size (buf_geom st))"
  have ss: "?ss = 512 \<or> ?ss = 2048" using assms(3) by (auto simp: usable_def)
  have lov: "int (length (overlay (dbuf st) 0 (take ?ss (drop ?ss (dbuf st))))) = BUFFERLEN"
    using len ss by (auto simp: BUFFERLEN_def)
  show thesis
  proof (cases "(buf_track st = 0 \<or> sector = 0) \<and> is_ezd (dbuf st)")
    case False
    show thesis
      by (rule that [where g = "buf_geom st" and buf = "dbuf st" and e = "errnum st"]) (use False ok len in \<open>auto simp: remap_ezd_def ssz_def\<close>)
  next
    case ez: True
    show thesis
    proof (cases "buf_track st = 0 \<or> 2 \<le> slen")
      case True
      show thesis
      proof (cases "errnum st = ERR_NONE")
        case e: True
        show thesis
          by (rule that [where g = "buf_geom st" and buf = "overlay (dbuf st) 0 (take ?ss (drop ?ss (dbuf st)))" and e = "errnum st"])
            (use True ez e ok lov in \<open>auto simp: remap_ezd_def ssz_def Let_def\<close>)
      next
        case e: False
        show thesis
          by (rule that [where g = "buf_geom st" and buf = "dbuf st" and e = "errnum st"])
            (use True ez e ok len in \<open>auto simp: remap_ezd_def ssz_def Let_def\<close>)
      qed
    next
      case False
      have "1 * ssz st \<le> BUFFERLEN" using assms(3) by (auto simp: usable_def ssz_def BUFFERLEN_def)
      then obtain err g buf where rb: "read_buffer b drive 1 1 st = Some (err, st\<lparr>buf_geom := g, dbuf := buf\<rparr>)"
        "ok_geom (world st) drive g" "sectors g = sectors (buf_geom st)" "sector_size g = ssz st"
        "int (length buf) = BUFFERLEN"
        using read_buffer_spec [OF assms(1,2), of 1 1] by (metis zero_le_one zero_less_one)
      show thesis
        by (rule that [where g = g and buf = buf and e = "if err = 0 then errnum st else ERR_READ"])
          (use ez False rb in \<open>auto simp: remap_ezd_def Let_def\<close>)
    qed
  qed
qed

end

lemma is_ezd_slice: "512 \<le> m \<Longrightarrow> is_ezd (slice buf 0 m) = is_ezd buf"
  by (simp add: is_ezd_def PC_SLICE_TYPE_def slice_def)

lemma ceil_div:
  fixes n ss :: int
  assumes "0 < ss"
  shows "n \<le> (n + ss - 1) div ss * ss" and "0 < n \<Longrightarrow> 0 < (n + ss - 1) div ss"
proof -
  have "(n + ss - 1) div ss * ss + (n + ss - 1) mod ss = n + ss - 1" by (rule div_mult_mod_eq)
  moreover have "(n + ss - 1) mod ss \<le> ss - 1" using assms by simp
  ultimately show le: "n \<le> (n + ss - 1) div ss * ss" by linarith
  show "0 < (n + ss - 1) div ss" if "0 < n"
    using that le assms by (metis dual_order.strict_trans1 zero_less_mult_pos2)
qed

text \<open>The arithmetic of one iteration of \<open>rawread\<close>.\<close>

lemma vtrack_arith:
  fixes sector v ss off len :: int
  assumes "0 < v" "v * ss \<le> BUFFERLEN" "0 < ss" "0 \<le> sector" "0 \<le> off" "off < ss" "0 < len"
  defines "soff \<equiv> sector mod v" and "slen \<equiv> (off + len + ss - 1) div ss"
  defines "num \<equiv> v - soff" and "sz \<equiv> min len ((v - soff) * ss - off)"
  shows "0 \<le> soff" "0 < num" "num \<le> v" "num * ss \<le> BUFFERLEN" "0 < sz" "off + sz \<le> num * ss"
    "0 \<le> sector - soff" "soff * ss + off + sz \<le> v * ss" "0 < slen"
    "slen \<le> num \<Longrightarrow> sz = len" "off + len \<le> slen * ss" "slen \<le> num \<Longrightarrow> slen * ss \<le> BUFFERLEN"
    "num < slen \<Longrightarrow> sz < len" "sector - soff = 0 \<Longrightarrow> sector * ss < BUFFERLEN"
proof -
  show soff: "0 \<le> soff" and num: "0 < num" and numv: "num \<le> v" using assms(1) by (auto simp: soff_def num_def)
  have mul: "num * ss \<le> v * ss" using numv assms(3) by (intro mult_right_mono) auto
  then show nb: "num * ss \<le> BUFFERLEN" using assms(2) by linarith
  have "1 * ss \<le> num * ss" using num assms(3) by (intro mult_right_mono) auto
  then have ge: "off < num * ss" using assms(6) by linarith
  then show "0 < sz" "off + sz \<le> num * ss" using assms(7) by (auto simp: sz_def num_def)
  then show "soff * ss + off + sz \<le> v * ss" by (simp add: num_def algebra_simps)
  show "0 \<le> sector - soff"
    using assms(1,4) by (simp add: soff_def minus_mod_eq_mult_div pos_imp_zdiv_nonneg_iff)
  have len: "off + len \<le> slen * ss" "0 < slen"
    using ceil_div [OF assms(3), of "off + len"] assms(5,7) by (auto simp: slen_def)
  then show "0 < slen" "off + len \<le> slen * ss" by auto
  have up: "slen * ss \<le> num * ss" if "slen \<le> num"
    using that assms(3) by (intro mult_right_mono) auto
  then show "slen \<le> num \<Longrightarrow> sz = len" and "slen \<le> num \<Longrightarrow> slen * ss \<le> BUFFERLEN"
    using len nb by (auto simp: sz_def num_def)
  show "sz < len" if "num < slen"
  proof (rule ccontr)
    assume "\<not> sz < len"
    then have "len \<le> num * ss - off" by (simp add: sz_def num_def min_def split: if_splits)
    then have "off + len + ss - 1 < (num + 1) * ss" by (simp add: algebra_simps)
    then have "slen < num + 1" using le_zdiv_iff [OF assms(3), of "num + 1" "off + len + ss - 1"] by (simp add: slen_def)
    with that show False by simp
  qed
  show "sector * ss < BUFFERLEN" if "sector - soff = 0"
  proof -
    have "sector < v" using that assms(1) by (simp add: soff_def) (metis pos_mod_bound)
    then have "sector * ss < v * ss" using assms(3) by simp
    with assms(2) show ?thesis by linarith
  qed
qed

lemma slice_piece:
  assumes "slice buf 0 m = slice D p m" and "int (length (slice D p m)) = m"
    and "0 \<le> p" and "0 \<le> a" and "0 \<le> n" and "a + n \<le> m"
  shows "slice buf a n = slice D (p + a) n" and "int (length (slice D (p + a) n)) = n"
proof -
  show "slice buf a n = slice D (p + a) n"
    using slice_slice [of 0 a n m buf] slice_slice [of p a n m D] assms by simp
  show "int (length (slice D (p + a) n)) = n"
    using length_slice_part [OF assms(2-6)] .
qed

context sector_device
begin

lemma ezd_freeD:
  assumes "ezd_free contents (world st) (buf_drive st) (ssz st)" and "512 \<le> ssz st" and "0 < n"
    and "0 \<le> s" and "s * ssz st < BUFFERLEN"
    and "slice buf 0 (n * ssz st) = slice (disk_of contents st) (s * ssz st) (n * ssz st)"
    and "int (length (slice (disk_of contents st) (s * ssz st) (n * ssz st))) = n * ssz st"
  shows "\<not> is_ezd buf"
proof -
  have "1 * ssz st \<le> n * ssz st" using assms(2,3) by (intro mult_right_mono) auto
  then have "512 \<le> n * ssz st" using assms(2) by linarith
  then have "is_ezd buf = is_ezd (slice (disk_of contents st) (s * ssz st) (n * ssz st))"
    using is_ezd_slice [of "n * ssz st" buf] assms(6) by simp
  with assms show ?thesis by (auto simp: ezd_free_def disk_of_def)
qed

lemma fetch_track_spec:
  assumes wf: "disk_wf ok_geom drive st" "buf_drive st = drive" and sector: "0 \<le> sector"
    and off: "0 \<le> off" "off < ssz st" and len: "0 < len" and noerr: "errnum st = ERR_NONE"
    and ez: "ezd_free contents (world st) drive (ssz st)"
  defines "soff \<equiv> sector mod vtrack st" and "slen \<equiv> (off + len + ssz st - 1) div ssz st"
  defines "sz \<equiv> min len ((vtrack st - soff) * ssz st - off)"
  obtains g buf t e a where
    "fetch_track b drive sector slen (vtrack st) (sector - soff) (vtrack st - soff) off st
       = Some (st\<lparr>buf_geom := g, dbuf := buf, buf_track := t, errnum := e\<rparr>, a)"
    and "ok_geom (world st) drive g" and "sectors g = sectors (buf_geom st)" and "sector_size g = ssz st"
    and "int (length buf) = BUFFERLEN" and "0 \<le> a" and "a + sz \<le> BUFFERLEN"
    and "e = ERR_NONE \<Longrightarrow> slice buf a sz = slice (disk_of contents st) (sector * ssz st + off) sz"
    and "e = ERR_NONE \<Longrightarrow> int (length (slice (disk_of contents st) (sector * ssz st + off) sz)) = sz"
    and "e = ERR_NONE \<Longrightarrow> \<not> ((t = 0 \<or> sector = 0) \<and> is_ezd buf)"
    and "e = ERR_NONE \<Longrightarrow> t = -1 \<or> t = sector - soff \<and> (vtrack st - soff < slen \<or>
           slice buf 0 (vtrack st * ssz st) = slice (disk_of contents st) ((sector - soff) * ssz st) (vtrack st * ssz st)
           \<and> int (length (slice (disk_of contents st) ((sector - soff) * ssz st) (vtrack st * ssz st))) = vtrack st * ssz st)"
proof -
  have us: "usable (buf_geom st)" using wf geom_usable by (auto simp: disk_wf_def)
  have ss: "0 < ssz st" "512 \<le> ssz st" using us by (auto simp: usable_def ssz_def)
  note bt = bits [OF us]
  note ar = vtrack_arith [OF bt(4,5,3) sector off len, folded soff_def, folded slen_def sz_def]
  have sz0: "0 \<le> sz" using ar(5) by simp
  let ?D = "disk_of contents st" and ?num = "vtrack st - soff" and ?track = "sector - soff"
  have ez': "ezd_free contents (world st) (buf_drive st) (ssz st)" using ez wf(2) by simp
  show thesis
  proof (cases "?num < slen")
    case True
    obtain err g buf where rb: "read_buffer b drive sector ?num st = Some (err, st\<lparr>buf_geom := g, dbuf := buf\<rparr>)"
      "ok_geom (world st) drive g" "sectors g = sectors (buf_geom st)" "sector_size g = ssz st"
      "int (length buf) = BUFFERLEN"
      "err = 0 \<Longrightarrow> slice buf 0 (?num * ssz st) = slice ?D (sector * ssz st) (?num * ssz st)"
      "err = 0 \<Longrightarrow> int (length (slice ?D (sector * ssz st) (?num * ssz st))) = ?num * ssz st"
      using read_buffer_spec [OF wf sector ar(2) ar(4)] by blast
    have tr: "sector * ssz st < BUFFERLEN" if "?track = 0 \<or> sector = 0"
      using that ar(14) by (auto simp: BUFFERLEN_def)
    have sec: "0 \<le> sector * ssz st" using sector ss by simp
    show thesis
    proof (cases "err = 0")
      case e: True
      note piece = slice_piece [OF rb(6,7) [OF e] sec off(1) sz0 ar(6)]
      show thesis
        by (rule that [where g = g and buf = buf and t = ?track and e = ERR_NONE and a = off])
          (use True e rb(1-5) noerr off ar(4,6) piece ezd_freeD [OF ez' ss(2) ar(2) sector _ rb(6,7) [OF e]] tr
           in \<open>auto simp: fetch_track_def\<close>)
    next
      case e: False
      show thesis
        by (rule that [where g = g and buf = buf and t = "-1" and a = off
              and e = "if err = BIOSDISK_ERROR_GEOMETRY then ERR_GEOM else ERR_READ"])
          (use True e rb(1-5) off ar(4,6) in \<open>auto simp: fetch_track_def split: if_splits\<close>)
    qed
  next
    case False
    obtain err g buf where rb: "read_buffer b drive ?track (vtrack st) st = Some (err, st\<lparr>buf_geom := g, dbuf := buf\<rparr>)"
      "ok_geom (world st) drive g" "sectors g = sectors (buf_geom st)" "sector_size g = ssz st"
      "int (length buf) = BUFFERLEN"
      "err = 0 \<Longrightarrow> slice buf 0 (vtrack st * ssz st) = slice ?D (?track * ssz st) (vtrack st * ssz st)"
      "err = 0 \<Longrightarrow> int (length (slice ?D (?track * ssz st) (vtrack st * ssz st))) = vtrack st * ssz st"
      using read_buffer_spec [OF wf ar(7) bt(4,5)] by blast
    have tr: "?track * ssz st < BUFFERLEN" if "?track = 0 \<or> sector = 0"
      using that ar(1,7) by (auto simp: BUFFERLEN_def)
    have sec: "0 \<le> ?track * ssz st" using ar(7) ss by simp
    have a: "0 \<le> soff * ssz st + off" "?track * ssz st + (soff * ssz st + off) = sector * ssz st + off"
      using ar(1) ss off by (auto simp: algebra_simps)
    have aB: "soff * ssz st + off + sz \<le> BUFFERLEN" using ar(8) bt(5) by linarith
    show thesis
    proof (cases "err = 0")
      case e: True
      note piece = slice_piece [OF rb(6,7) [OF e] sec a(1) sz0 ar(8), unfolded a(2)]
      show thesis
        by (rule that [where g = g and buf = buf and t = ?track and e = ERR_NONE and a = "soff * ssz st + off"])
          (use False e rb noerr a(1) aB piece ezd_freeD [OF ez' ss(2) bt(4) ar(7) _ rb(6,7) [OF e]] tr
           in \<open>auto simp: fetch_track_def bt\<close>)
    next
      case e: False
      show thesis
      proof (cases "err = BIOSDISK_ERROR_GEOMETRY")
        case True
        show thesis
          by (rule that [where g = g and buf = buf and t = "-1" and e = ERR_GEOM and a = "soff * ssz st + off"])
            (use False True e rb(1-5) a(1) aB in \<open>auto simp: fetch_track_def bt\<close>)
      next
        case ng: False
        let ?st = "st\<lparr>buf_geom := g, dbuf := buf, buf_track := -1\<rparr>"
        have st: "disk_wf ok_geom drive ?st" "buf_drive ?st = drive" "ssz ?st = ssz st" "disk_of contents ?st = ?D"
          using wf rb by (auto simp: disk_wf_def ssz_def disk_of_def)
        have sl: "slen * ssz ?st \<le> BUFFERLEN" "off + sz \<le> slen * ssz st" "sz = len" using False ar st(3) by auto
        obtain err' g' buf' where rb': "read_buffer b drive sector slen ?st = Some (err', ?st\<lparr>buf_geom := g', dbuf := buf'\<rparr>)"
          "ok_geom (world st) drive g'" "sectors g' = sectors (buf_geom st)" "sector_size g' = ssz st"
          "int (length buf') = BUFFERLEN"
          "err' = 0 \<Longrightarrow> slice buf' 0 (slen * ssz st) = slice ?D (sector * ssz st) (slen * ssz st)"
          "err' = 0 \<Longrightarrow> int (length (slice ?D (sector * ssz st) (slen * ssz st))) = slen * ssz st"
          by (rule read_buffer_spec [OF st(1,2) sector ar(9) sl(1), unfolded st(3,4)])
            (rule that, (use rb(3) in simp)+)
        have sec': "0 \<le> sector * ssz st" using sector ss by simp
        note piece = slice_piece [OF rb'(6,7) sec' off(1) sz0 sl(2)]
        have B: "off + sz \<le> BUFFERLEN" using sl(1,2) st(3) by simp
        show thesis
          by (rule that [where g = g' and buf = buf' and t = "-1" and a = off
                and e = "if err' = 0 then ERR_NONE else ERR_READ"])
            (use False ng e rb(1) rb'(1-5) noerr off B piece ezd_freeD [OF ez' ss(2) ar(9) sector _ rb'(6,7)]
             in \<open>auto simp: fetch_track_def BUFFERLEN_def split: if_splits\<close>)
      qed
    qed
  qed
qed

end

context sector_device
begin

lemma load_track_spec:
  assumes wf: "disk_wf ok_geom drive st" "buf_drive st = drive" and sector: "0 \<le> sector"
    and off: "0 \<le> off" "off < ssz st" and len: "0 < len" and noerr: "errnum st = ERR_NONE"
    and ez: "ezd_free contents (world st) drive (ssz st)"
    and inv: "coherent contents st \<or> buf_track st \<noteq> sector - sector mod vtrack st"
  defines "soff \<equiv> sector mod vtrack st" and "slen \<equiv> (off + len + ssz st - 1) div ssz st"
  defines "sz \<equiv> min len ((vtrack st - soff) * ssz st - off)"
  obtains g buf t e a where
    "load_track b drive sector slen (vtrack st) (sector - soff) (vtrack st - soff) off st
       = Some (st\<lparr>buf_geom := g, dbuf := buf, buf_track := t, errnum := e\<rparr>, a)"
    and "ok_geom (world st) drive g" and "sectors g = sectors (buf_geom st)" and "sector_size g = ssz st"
    and "int (length buf) = BUFFERLEN" and "0 \<le> a" and "a + sz \<le> BUFFERLEN"
    and "e = ERR_NONE \<Longrightarrow> slice buf a sz = slice (disk_of contents st) (sector * ssz st + off) sz"
    and "e = ERR_NONE \<Longrightarrow> int (length (slice (disk_of contents st) (sector * ssz st + off) sz)) = sz"
    and "e = ERR_NONE \<Longrightarrow> t = -1 \<or> t = sector - soff \<and> (vtrack st - soff < slen \<or>
           slice buf 0 (vtrack st * ssz st) = slice (disk_of contents st) ((sector - soff) * ssz st) (vtrack st * ssz st)
           \<and> int (length (slice (disk_of contents st) ((sector - soff) * ssz st) (vtrack st * ssz st))) = vtrack st * ssz st)"
proof -
  have us: "usable (buf_geom st)" and ok: "ok_geom (world st) drive (buf_geom st)"
    and lenb: "int (length (dbuf st)) = BUFFERLEN" using wf geom_usable by (auto simp: disk_wf_def)
  note bt = bits [OF us]
  note ar = vtrack_arith [OF bt(4,5,3) sector off len, folded soff_def, folded slen_def sz_def]
  have sz0: "0 \<le> sz" using ar(5) by simp
  show thesis
  proof (cases "sector - soff = buf_track st")
    case True
    with ar(7) inv have c: "slice (dbuf st) 0 (vtrack st * ssz st)
          = slice (disk_of contents st) ((sector - soff) * ssz st) (vtrack st * ssz st)"
      "int (length (slice (disk_of contents st) ((sector - soff) * ssz st) (vtrack st * ssz st))) = vtrack st * ssz st"
      by (auto simp: coherent_def soff_def)
    have a: "0 \<le> soff * ssz st + off" "(sector - soff) * ssz st + (soff * ssz st + off) = sector * ssz st + off"
      "0 \<le> (sector - soff) * ssz st"
      using ar(1,7) bt(3) off by (auto simp: algebra_simps mult_right_mono)
    have aB: "soff * ssz st + off + sz \<le> BUFFERLEN" using ar(8) bt(5) by linarith
    show thesis
      by (rule that [where g = "buf_geom st" and buf = "dbuf st" and t = "buf_track st" and e = ERR_NONE
            and a = "soff * ssz st + off"])
        (use True ok lenb noerr a(1) aB c slice_piece [OF c a(3,1) sz0 ar(8), unfolded a(2)]
         in \<open>auto simp: load_track_def bt ssz_def [symmetric]\<close>)
  next
    case False
    obtain g buf t e a where ft: "fetch_track b drive sector slen (vtrack st) (sector - soff) (vtrack st - soff) off st
       = Some (st\<lparr>buf_geom := g, dbuf := buf, buf_track := t, errnum := e\<rparr>, a)"
      and g: "ok_geom (world st) drive g" "sectors g = sectors (buf_geom st)" "sector_size g = ssz st"
      "int (length buf) = BUFFERLEN" and a: "0 \<le> a" "a + sz \<le> BUFFERLEN"
      and rd: "e = ERR_NONE \<Longrightarrow> slice buf a sz = slice (disk_of contents st) (sector * ssz st + off) sz"
        "e = ERR_NONE \<Longrightarrow> int (length (slice (disk_of contents st) (sector * ssz st + off) sz)) = sz"
        "e = ERR_NONE \<Longrightarrow> \<not> ((t = 0 \<or> sector = 0) \<and> is_ezd buf)"
        "e = ERR_NONE \<Longrightarrow> t = -1 \<or> t = sector - soff \<and> (vtrack st - soff < slen \<or>
           slice buf 0 (vtrack st * ssz st) = slice (disk_of contents st) ((sector - soff) * ssz st) (vtrack st * ssz st)
           \<and> int (length (slice (disk_of contents st) ((sector - soff) * ssz st) (vtrack st * ssz st))) = vtrack st * ssz st)"
      by (rule fetch_track_spec [OF wf sector off len noerr ez, folded soff_def, folded slen_def sz_def]) (rule that, (assumption | simp)+)
    let ?st = "st\<lparr>buf_geom := g, dbuf := buf, buf_track := t, errnum := e\<rparr>"
    have st: "disk_wf ok_geom drive ?st" "buf_drive ?st = drive" "usable (buf_geom ?st)"
      using wf g geom_usable by (auto simp: disk_wf_def)
    obtain g' buf' e' where rm: "remap_ezd b drive sector slen ?st = Some (?st\<lparr>buf_geom := g', dbuf := buf', errnum := e'\<rparr>)"
      "ok_geom (world ?st) drive g'" "sectors g' = sectors (buf_geom ?st)" "sector_size g' = ssz ?st"
      "int (length buf') = BUFFERLEN" "errnum ?st \<noteq> ERR_NONE \<Longrightarrow> e' \<noteq> ERR_NONE"
      "\<not> ((buf_track ?st = 0 \<or> sector = 0) \<and> is_ezd (dbuf ?st)) \<Longrightarrow> g' = buf_geom ?st \<and> buf' = dbuf ?st \<and> e' = errnum ?st"
      by (rule remap_ezd_spec [OF st]) (rule that, (assumption | simp)+)
    have keep: "e = ERR_NONE \<and> buf' = buf" if "e' = ERR_NONE"
    proof -
      have "e = ERR_NONE" using rm(6) that by auto
      with rd(3) rm(7) show ?thesis by auto
    qed
    show thesis
      by (rule that [where g = g' and buf = buf' and t = t and e = e' and a = a])
        (use False ft g rm(1-5) a keep rd(1,2,4) in \<open>auto simp: load_track_def ssz_def\<close>)
  qed
qed

end
lemma vtrack_cong:
  "sectors (buf_geom st') = sectors (buf_geom st) \<Longrightarrow> sector_size (buf_geom st') = sector_size (buf_geom st)
    \<Longrightarrow> vtrack st' = vtrack st"
  by (simp add: vtrack_def ss_bits_def)

text \<open>One iteration of the loop, when the drive is selected and the sector is on it.\<close>

lemma rawread_loop_step:
  assumes "0 < len" and "errnum st = ERR_NONE" and "buf_drive st = drive"
    and "0 \<le> sector" and "sector < total_sectors (buf_geom st)" and "usable (buf_geom st)"
    and "load_track b drive sector ((off + len + ssz st - 1) div ssz st) (vtrack st)
           (sector - sector mod vtrack st) (vtrack st - sector mod vtrack st) off st = Some (st2, a)"
  defines "num \<equiv> vtrack st - sector mod vtrack st"
  defines "sz \<equiv> min len (num * ssz st - off)"
  defines "st3 \<equiv> (if hook_on st2 then st2\<lparr>hook_log := hook_log st2 @ hook_calls (ssz st) sector off sz\<rparr> else st2)"
  assumes "0 < sz" and "0 \<le> a" and "a + sz \<le> int (length (dbuf st2))"
  shows "rawread_loop b fits drive sector off len out st
    = (if errnum st2 = ERR_NONE \<and> \<not> fits (length out) (nat sz)
       then Some (False, out, st3\<lparr>errnum := ERR_WONT_FIT\<rparr>)
       else rawread_loop b fits drive (sector + num) 0 (len - sz)
              (if errnum st2 = ERR_NONE then out @ slice (dbuf st2) a sz else out) st3)"
  using assms(1-5,7,11-13) bits [OF assms(6)]
  by (subst rawread_loop.simps, cases "hook_on st2")
    (simp_all add: select_drive_def Let_def ssz_def [symmetric] num_def [symmetric] sz_def [symmetric]
      st3_def slice_def)
context sector_device
begin

text \<open>What a read leaves behind: the disks, the drive and the shape of the track buffer.\<close>

lemma rawread_loop_spec:
  assumes "disk_wf ok_geom drive st" and "buf_drive st = drive" and "0 \<le> sector" and "0 \<le> off" and "off < ssz st"
    and "0 \<le> len" and "errnum st = ERR_NONE" and "ezd_free contents (world st) drive (ssz st)"
    and "coherent contents st \<or> 0 < len \<and> buf_track st \<noteq> sector - sector mod vtrack st"
  shows "\<exists>ok st' n. rawread_loop b fits drive sector off len out st
      = Some (ok, out @ slice (disk_of contents st) (sector * ssz st + off) n, st')
    \<and> ok = (errnum st' = ERR_NONE) \<and> disk_wf ok_geom drive st' \<and> buf_drive st' = drive \<and> world st' = world st
    \<and> ssz st' = ssz st \<and> 0 \<le> n \<and> n \<le> len
    \<and> int (length (slice (disk_of contents st) (sector * ssz st + off) n)) = n
    \<and> (ok \<longrightarrow> n = len \<and> coherent contents st')"
  using assms
proof (induction "nat len" arbitrary: sector off len out st rule: less_induct)
  case less
  note wf = less.prems(1,2) and sector = less.prems(3) and off = less.prems(4,5) and noerr = less.prems(7)
    and ez = less.prems(8) and inv = less.prems(9)
  have us: "usable (buf_geom st)" using wf geom_usable by (auto simp: disk_wf_def)
  let ?D = "disk_of contents st" and ?p = "sector * ssz st + off"
  have stop: "\<exists>ok st' n. r = Some (ok, out @ slice ?D ?p n, st')
      \<and> ok = (errnum st' = ERR_NONE) \<and> disk_wf ok_geom drive st' \<and> buf_drive st' = drive \<and> world st' = world st
      \<and> ssz st' = ssz st \<and> 0 \<le> n \<and> n \<le> len \<and> int (length (slice ?D ?p n)) = n \<and> (ok \<longrightarrow> n = len \<and> coherent contents st')"
    if "r = Some (errnum st' = ERR_NONE, out, st')" "disk_wf ok_geom drive st'" "buf_drive st' = drive" "world st' = world st"
      "ssz st' = ssz st" "errnum st' = ERR_NONE \<Longrightarrow> len = 0 \<and> coherent contents st'" for r st'
    using that less.prems(6) by - (rule exI [of _ "errnum st' = ERR_NONE"], rule exI [of _ st'], rule exI [of _ 0],
      auto simp: slice_def)
  consider "len = 0" | "0 < len" "sector \<ge> total_sectors (buf_geom st)" | "0 < len" "sector < total_sectors (buf_geom st)"
    using less.prems(6) by linarith
  then show ?case
  proof cases
    case 1
    then show ?thesis
      using wf noerr inv by (intro stop [of _ st]) (auto simp: rawread_loop.simps)
  next
    case 2
    then show ?thesis
      using wf noerr
      by (intro stop [of _ "st\<lparr>errnum := ERR_GEOM\<rparr>"])
        (auto simp: rawread_loop.simps select_drive_def disk_wf_def ssz_def)
  next
    case 3
    let ?soff = "sector mod vtrack st" and ?v = "vtrack st"
    define slen where "slen = (off + len + ssz st - 1) div ssz st"
    define num where "num = vtrack st - sector mod vtrack st"
    define sz where "sz = min len (num * ssz st - off)"
    note bt = bits [OF us]
    note ar = vtrack_arith [OF bt(4,5,3) sector off 3(1), folded num_def, folded slen_def sz_def]
    have inv': "coherent contents st \<or> buf_track st \<noteq> sector - sector mod vtrack st" using inv by auto
    obtain g buf t e a where lt: "load_track b drive sector slen ?v (sector - ?soff) num off st
         = Some (st\<lparr>buf_geom := g, dbuf := buf, buf_track := t, errnum := e\<rparr>, a)"
      and g: "ok_geom (world st) drive g" "sectors g = sectors (buf_geom st)" "sector_size g = ssz st"
      "int (length buf) = BUFFERLEN" and a: "0 \<le> a" "a + sz \<le> BUFFERLEN"
      and rd: "e = ERR_NONE \<Longrightarrow> slice buf a sz = slice ?D ?p sz"
        "e = ERR_NONE \<Longrightarrow> int (length (slice ?D ?p sz)) = sz"
      and tr: "e = ERR_NONE \<Longrightarrow> t = -1 \<or> t = sector - ?soff \<and> (num < slen \<or>
           slice buf 0 (?v * ssz st) = slice ?D ((sector - ?soff) * ssz st) (?v * ssz st)
           \<and> int (length (slice ?D ((sector - ?soff) * ssz st) (?v * ssz st))) = ?v * ssz st)"
      by (rule load_track_spec [OF wf sector off 3(1) noerr ez inv', folded num_def, folded slen_def sz_def])
        (rule that, (assumption | simp)+)
    define st2 where "st2 = st\<lparr>buf_geom := g, dbuf := buf, buf_track := t, errnum := e\<rparr>"
    define st3 where "st3 = (if hook_on st2 then st2\<lparr>hook_log := hook_log st2 @ hook_calls (ssz st) sector off sz\<rparr> else st2)"
    have st3: "errnum st3 = e" "buf_drive st3 = drive" "world st3 = world st" "ssz st3 = ssz st" "vtrack st3 = ?v"
      "disk_wf ok_geom drive st3" "buf_track st3 = t" "dbuf st3 = buf" "disk_of contents st3 = ?D"
      using wf g by (auto simp: st3_def st2_def disk_wf_def ssz_def disk_of_def intro!: vtrack_cong)
    have step: "rawread_loop b fits drive sector off len out st
      = (if e = ERR_NONE \<and> \<not> fits (length out) (nat sz)
         then Some (False, out, st3\<lparr>errnum := ERR_WONT_FIT\<rparr>)
         else rawread_loop b fits drive (sector + num) 0 (len - sz)
              (if e = ERR_NONE then out @ slice ?D ?p sz else out) st3)"
      using rawread_loop_step [where a = a, OF 3(1) noerr wf(2) sector 3(2) us lt [folded st2_def, unfolded num_def slen_def],
          folded num_def, folded slen_def sz_def, folded st3_def] g(4) a ar(5) rd(1)
      by (simp add: st2_def)
    show ?thesis
    proof (cases "e = ERR_NONE \<and> fits (length out) (nat sz)")
      case False
      then show ?thesis
      proof (cases "e = ERR_NONE")
        case True
        with False step st3 show ?thesis
          by (intro stop [of _ "st3\<lparr>errnum := ERR_WONT_FIT\<rparr>"]) (auto simp: disk_wf_def ssz_def)
      next
        case e: False
        with step st3 show ?thesis
          by (intro stop [of _ st3]) (auto simp: rawread_loop.simps)
      qed
    next
      case True
      have "sector + num = sector - sector mod ?v + ?v" by (simp add: num_def)
      then have nx: "(sector + num) mod ?v = 0" by (simp add: minus_mod_eq_mult_div)
      have inv3: "coherent contents st3 \<or> 0 < len - sz \<and> buf_track st3 \<noteq> (sector + num) - (sector + num) mod vtrack st3"
      proof (cases "num < slen")
        case n: True
        have "t \<noteq> sector + num" using tr True ar(1,2) sector by (auto simp: num_def)
        with ar(13) [OF n] nx st3(5,7) show ?thesis by simp
      next
        case False
        then have "coherent contents st3" using tr True st3 ar(7) by (auto simp: coherent_def)
        then show ?thesis ..
      qed
      have p3: "slice ?D ((sector + num) * ssz st + 0) m = slice ?D (?p + sz) m" if "0 \<le> m" "m \<le> len - sz" for m
        using that ar(5) by (cases "sz = len") (auto simp: slice_def sz_def algebra_simps min_def split: if_splits)
      have "0 \<le> len - sz" "nat (len - sz) < nat len" "0 \<le> sector + num" "e = ERR_NONE"
        using ar(2,5) sector 3(1) True by (auto simp: sz_def)
      then obtain ok st' n where ih: "rawread_loop b fits drive (sector + num) 0 (len - sz) (out @ slice ?D ?p sz) st3
          = Some (ok, (out @ slice ?D ?p sz) @ slice ?D ((sector + num) * ssz st + 0) n, st')"
        "ok = (errnum st' = ERR_NONE)" "disk_wf ok_geom drive st'" "buf_drive st' = drive" "world st' = world st"
        "ssz st' = ssz st" "0 \<le> n" "n \<le> len - sz"
        "int (length (slice ?D ((sector + num) * ssz st + 0) n)) = n" "ok \<longrightarrow> n = len - sz \<and> coherent contents st'"
        using less.hyps [of "len - sz" st3 "sector + num" 0 "out @ slice ?D ?p sz"] inv3 st3 ez bt(3) by auto
      have app: "slice ?D ?p sz @ slice ?D (?p + sz) n = slice ?D ?p (sz + n)"
        using ar(5) ih(7) off sector bt(3) by (intro slice_append) auto
      then have "length (slice ?D ?p sz) + length (slice ?D (?p + sz) n) = length (slice ?D ?p (sz + n))"
        by (metis length_append)
      then have "int (length (slice ?D ?p (sz + n))) = sz + n"
        using rd(2) True ih(9) p3 [OF ih(7,8)] by simp
      with ih p3 [OF ih(7,8)] app True step ar(5) show ?thesis
        by - (rule exI [of _ ok], rule exI [of _ st'], rule exI [of _ "sz + n"], auto)
    qed
  qed
qed

end
text \<open>
  A disk whose first sectors do not look like those of an EZ-Drive disk, for both sector sizes.
\<close>

definition plain_disk :: "('w \<Rightarrow> int \<Rightarrow> u8 list) \<Rightarrow> 'w \<Rightarrow> int \<Rightarrow> bool" where
  "plain_disk contents w drive \<longleftrightarrow> ezd_free contents w drive 512 \<and> ezd_free contents w drive 2048"

text \<open>
  The invariant of the disk layer: the track buffer has its size, the geometry belongs to the
  buffered drive, and the buffered track is the one on the disk.
\<close>

definition disk_inv :: "('w \<Rightarrow> int \<Rightarrow> u8 list) \<Rightarrow> ('w \<Rightarrow> int \<Rightarrow> geometry \<Rightarrow> bool) \<Rightarrow> int \<Rightarrow> 'w disk_state \<Rightarrow> bool" where
  "disk_inv contents ok_geom drive st \<longleftrightarrow>
     disk_wf ok_geom drive st \<and> (buf_drive st = drive \<longrightarrow> coherent contents st)"

lemma select_drive_other:
  assumes "buf_drive st \<noteq> drive" and "0 < len" and "errnum st = ERR_NONE"
  shows "rawread_loop b fits drive sector off len out st
    = (if fst (get_diskinfo b (world st) drive (buf_geom st)) = 0
       then rawread_loop b fits drive sector off len out
              (st\<lparr>buf_geom := snd (get_diskinfo b (world st) drive (buf_geom st)), buf_drive := drive, buf_track := -1\<rparr>)
       else Some (False, out, st\<lparr>buf_geom := snd (get_diskinfo b (world st) drive (buf_geom st)), errnum := ERR_NO_DISK\<rparr>))"
  using assms
  by (simp add: rawread_loop.simps [of b fits drive sector off len out st]
      rawread_loop.simps [of b fits drive sector off len out
        "st\<lparr>buf_geom := snd (get_diskinfo b (world st) drive (buf_geom st)), buf_drive := drive, buf_track := -1\<rparr>"]
      select_drive_def case_prod_unfold Let_def)

context sector_device
begin

text \<open>\<open>rawread\<close> returns, and what it has delivered are the bytes of the disk.\<close>

lemma rawread_spec:
  assumes inv: "disk_inv contents ok_geom drive st" and off: "0 \<le> off" "off < 512"
    and noerr: "errnum st = ERR_NONE" and plain: "plain_disk contents (world st) drive"
  shows "\<exists>ok st' n. rawread b fits drive sector off len st
      = Some (ok, slice (contents (world st) drive) (sector * ssz st' + off) n, st')
    \<and> ok = (errnum st' = ERR_NONE) \<and> disk_wf ok_geom drive st' \<and> world st' = world st \<and> 0 \<le> n \<and> n \<le> max 0 len
    \<and> int (length (slice (contents (world st) drive) (sector * ssz st' + off) n)) = n
    \<and> (ok \<longrightarrow> n = max 0 len \<and> disk_inv contents ok_geom drive st' \<and> (0 < len \<longrightarrow> buf_drive st' = drive))"
    (is "\<exists>ok st' n. ?r = _ \<and> ?P ok st' n")
proof (cases "len \<le> 0")
  case True
  with inv noerr show ?thesis
    by - (rule exI [of _ True], rule exI [of _ st], rule exI [of _ 0], simp add: rawread_def disk_inv_def slice_def)
next
  case False
  then have len: "0 < len" and r: "?r = rawread_loop b fits drive sector off len [] st" by (auto simp: rawread_def)
  define run where "run = (\<lambda>st1. \<exists>ok st' n. rawread_loop b fits drive sector off len [] st1
      = Some (ok, slice (contents (world st) drive) (sector * ssz st' + off) n, st') \<and> ?P ok st' n)"
  have sel: "run st1"
    if wf: "disk_wf ok_geom drive st1" "buf_drive st1 = drive" "world st1 = world st" "coherent contents st1"
      "errnum st1 = ERR_NONE" for st1
  proof -
    have "ok_geom (world st) drive (buf_geom st1)" using wf by (auto simp: disk_wf_def)
    then have "ssz st1 = 512 \<or> ssz st1 = 2048" using geom_usable by (auto simp: usable_def ssz_def)
    then have ez: "ezd_free contents (world st1) drive (ssz st1)" and os: "off < ssz st1"
      using plain off wf(3) by (auto simp: plain_disk_def)
    show ?thesis
    proof (cases "0 \<le> sector")
      case True
      from rawread_loop_spec [OF wf(1,2) True off(1) os _ wf(5) ez, of len fits "[]"] len wf
      obtain ok st' n where "rawread_loop b fits drive sector off len [] st1
          = Some (ok, slice (contents (world st) drive) (sector * ssz st1 + off) n, st')"
        "ok = (errnum st' = ERR_NONE)" "disk_wf ok_geom drive st'" "buf_drive st' = drive" "world st' = world st"
        "ssz st' = ssz st1" "0 \<le> n" "n \<le> len"
        "int (length (slice (contents (world st) drive) (sector * ssz st1 + off) n)) = n"
        "ok \<longrightarrow> n = len \<and> coherent contents st'"
        by (auto simp: disk_of_def)
      with len show ?thesis
        unfolding run_def
        by - (rule exI [of _ ok], rule exI [of _ st'], rule exI [of _ n], simp add: disk_inv_def)
    next
      case False
      with wf len show ?thesis
        unfolding run_def
        by - (rule exI [of _ False], rule exI [of _ "st1\<lparr>errnum := ERR_GEOM\<rparr>"], rule exI [of _ 0],
          simp add: rawread_loop.simps select_drive_def slice_def disk_wf_def)
    qed
  qed
  have "run st"
  proof (cases "buf_drive st = drive")
    case True
    with inv noerr show ?thesis by (intro sel) (auto simp: disk_inv_def)
  next
    case other: False
    obtain e g where di: "get_diskinfo b (world st) drive (buf_geom st) = (e, g)" by fastforce
    show ?thesis
    proof (cases "e = 0")
      case True
      then have "run (st\<lparr>buf_geom := g, buf_drive := drive, buf_track := -1\<rparr>)"
        using probe [of "world st" drive "buf_geom st" g] di inv noerr
        by (intro sel) (auto simp: disk_inv_def disk_wf_def coherent_def)
      with True di show ?thesis by (simp add: run_def select_drive_other [OF other len noerr])
    next
      case False
      with di inv len other show ?thesis
        unfolding run_def select_drive_other [OF other len noerr]
        by - (rule exI [of _ False], rule exI [of _ "st\<lparr>buf_geom := g, errnum := ERR_NO_DISK\<rparr>"], rule exI [of _ 0],
          simp add: slice_def disk_wf_def disk_inv_def)
    qed
  qed
  then show ?thesis by (simp add: r run_def)
qed

end
section \<open>The firmware behind INT 13\<close>

text \<open>
  The documented behaviour of the INT 13 calls: errors are not 0, a read that succeeds delivers the
  sectors it was asked for, CHS addresses count in the geometry that function 8 (or the emulation
  packet of a bootable CD-ROM) reports, a CD-ROM has sectors of 2048 bytes, every other disk of 512.
\<close>

locale firmware =
  fixes b :: "'w int13" and contents :: "'w \<Rightarrow> int \<Rightarrow> u8 list"
    and hds spt ssize :: "'w \<Rightarrow> int \<Rightarrow> int"
  assumes ext_error: "ext_read b w drive s n = Inl e \<Longrightarrow> e \<noteq> 0"
    and chs_error: "chs_read b w drive c h s n = Inl e \<Longrightarrow> e \<noteq> 0"
    and std_error: "get_diskinfo_standard b w drive = Inl e \<Longrightarrow> e \<noteq> 0"
    and ext_data: "ext_read b w drive s n = Inr data \<Longrightarrow> 0 \<le> s \<Longrightarrow> 0 < n
      \<Longrightarrow> data = slice (contents w drive) (s * ssize w drive) (n * ssize w drive)
          \<and> int (length data) = n * ssize w drive"
    and chs_data: "chs_read b w drive c h s n = Inr data \<Longrightarrow> 0 \<le> c \<Longrightarrow> 0 \<le> h \<Longrightarrow> h < hds w drive
      \<Longrightarrow> 1 \<le> s \<Longrightarrow> s \<le> spt w drive \<Longrightarrow> 0 < n
      \<Longrightarrow> data = slice (contents w drive) (((c * hds w drive + h) * spt w drive + (s - 1)) * 512) (n * 512)
          \<and> int (length data) = n * 512"
    and std_geometry: "get_diskinfo_standard b w drive = Inr (c, h, s)
      \<Longrightarrow> h = hds w drive \<and> s = spt w drive \<and> 0 < h \<and> 0 < s \<and> ssize w drive = 512"
    and cd_plain: "cd_status b w drive = Inr p \<Longrightarrow> uint (cd_drive_no p) = drive
      \<Longrightarrow> cd_media_type p AND 0x0F = 0 \<Longrightarrow> ssize w drive = 2048"
    and cd_emulated: "cd_status b w drive = Inr p \<Longrightarrow> uint (cd_drive_no p) = drive
      \<Longrightarrow> cd_media_type p AND 0x0F \<noteq> 0
      \<Longrightarrow> ssize w drive = 512 \<and> uint (cd_heads p) = hds w drive \<and> uint (cd_sectors p AND 0x3F) = spt w drive
          \<and> 0 < hds w drive \<and> 0 < spt w drive"

text \<open>The geometries that belong to a drive.\<close>

definition drive_geom :: "('w \<Rightarrow> int \<Rightarrow> int) \<Rightarrow> ('w \<Rightarrow> int \<Rightarrow> int) \<Rightarrow> ('w \<Rightarrow> int \<Rightarrow> int) \<Rightarrow> 'w \<Rightarrow> int \<Rightarrow> geometry \<Rightarrow> bool" where
  "drive_geom hds spt ssize w drive g \<longleftrightarrow> sector_size g = ssize w drive
     \<and> (if cdrom_flag g then lba_flag g \<and> sectors g = 15 \<and> ssize w drive = 2048
        else ssize w drive = 512 \<and> heads g = hds w drive \<and> sectors g = spt w drive \<and> 0 < heads g \<and> 0 < sectors g)"

context firmware
begin

lemma probed_geometry:
  assumes "get_diskinfo b w drive g = (0, g')"
  shows "drive_geom hds spt ssize w drive g'"
proof -
  have cd: "(fst (get_cdinfo b w drive g0) \<noteq> 0 \<longrightarrow> drive_geom hds spt ssize w drive (snd (get_cdinfo b w drive g0)))
      \<and> (fst (get_cdinfo b w drive g0) = 0 \<longrightarrow> snd (get_cdinfo b w drive g0) = g0)" if "\<not> cdrom_flag g0" for g0
    using that cd_plain [of w drive] cd_emulated [of w drive]
    by (auto simp: get_cdinfo_def drive_geom_def SECTOR_SIZE_def Let_def split: sum.splits)
  have std: "get_diskinfo_standard b w drive = Inl 0 \<Longrightarrow> False" using std_error by blast
  show ?thesis
    using assms cd [of "g\<lparr>lba_flag := False, cdrom_flag := False\<rparr>"] std std_geometry [of w drive]
    by (auto simp: get_diskinfo_def Let_def drive_geom_def SECTOR_SIZE_def case_prod_unfold
        split: if_splits sum.splits)
qed

lemma chs_branch:
  assumes "drive_geom hds spt ssize w drive g" and "\<not> cdrom_flag g" and "0 \<le> s" and "0 < n"
  shows "\<exists>r. biosdisk_chs (chs_read b w drive) g s n = Some r \<and> r \<noteq> Inl 0
    \<and> (\<forall>data. r = Inr data \<longrightarrow> data = slice (contents w drive) (s * 512) (n * 512) \<and> int (length data) = n * 512)"
proof -
  have g: "0 < sectors g" "0 < heads g" "heads g = hds w drive" "sectors g = spt w drive"
    using assms(1,2) by (auto simp: drive_geom_def)
  let ?c = "s div sectors g div heads g" and ?h = "s div sectors g mod heads g" and ?s = "s mod sectors g + 1"
  have lba: "(?c * heads g + ?h) * sectors g + (?s - 1) = s"
    using chs_split [OF g(1,2) assms(3)] by (simp add: chs_lba_def)
  have top: "?s \<le> sectors g" using pos_mod_bound [OF g(1), of s] by linarith
  have rng: "0 \<le> ?c" "0 \<le> ?h" "?h < heads g" "1 \<le> ?s" "?s \<le> sectors g"
    using g(1,2) assms(3) top by (simp_all add: pos_imp_zdiv_nonneg_iff)
  show ?thesis
  proof (cases "chs_read b w drive ?c ?h ?s n")
    case (Inl e)
    with g(1,2) chs_error show ?thesis by (auto simp: biosdisk_chs_def BIOSDISK_ERROR_GEOMETRY_def Let_def)
  next
    case (Inr data)
    with chs_data [OF Inr rng(1,2) _ rng(4) _ assms(4)] rng(3,5) g lba show ?thesis
      by (auto simp: biosdisk_chs_def BIOSDISK_ERROR_GEOMETRY_def Let_def)
  qed
qed

lemma read_contract:
  assumes "drive_geom hds spt ssize w drive g" and "0 \<le> s" and "0 < n" and "n < 2 ^ 16"
  shows "\<exists>r g'. biosdisk_read b w drive g s n = Some (r, g') \<and> drive_geom hds spt ssize w drive g'
    \<and> sectors g' = sectors g \<and> sector_size g' = sector_size g \<and> r \<noteq> Inl 0
    \<and> (\<forall>data. r = Inr data \<longrightarrow> data = slice (contents w drive) (s * sector_size g) (n * sector_size g)
        \<and> int (length data) = n * sector_size g)"
proof (cases "lba_flag g")
  case False
  then have "\<not> cdrom_flag g" using assms(1) by (auto simp: drive_geom_def)
  with chs_branch [OF assms(1) _ assms(2,3)] False assms(1) show ?thesis
    by (auto simp: biosdisk_read_def biosdisk_def drive_geom_def)
next
  case lba: True
  have n: "n mod 2 ^ 16 = n" using assms(3,4) by simp
  show ?thesis
  proof (cases "ext_read b w drive s n")
    case (Inr data)
    with lba n ext_data [OF Inr assms(2,3)] assms(1) show ?thesis
      by (auto simp: biosdisk_read_def biosdisk_def drive_geom_def)
  next
    case (Inl e)
    let ?g = "g\<lparr>lba_flag := False, total_sectors := chs_total g\<rparr>"
    show ?thesis
    proof (cases "cdrom_flag g")
      case True
      with lba n Inl ext_error [OF Inl] assms(1) show ?thesis by (auto simp: biosdisk_read_def biosdisk_def)
    next
      case False
      then have g': "drive_geom hds spt ssize w drive ?g" using assms(1) by (simp add: drive_geom_def)
      with chs_branch [OF g' _ assms(2,3)] False lba n Inl show ?thesis
        by (auto simp: biosdisk_read_def biosdisk_def drive_geom_def Let_def)
    qed
  qed
qed

end

sublocale firmware \<subseteq> dev: sector_device b contents "drive_geom hds spt ssize"
proof
  show "usable g" if "drive_geom hds spt ssize w drive g" for w drive g
    using that by (auto simp: drive_geom_def usable_def split: if_splits)
  show "\<exists>r g'. biosdisk_read b w drive g s n = Some (r, g') \<and> drive_geom hds spt ssize w drive g'
            \<and> sectors g' = sectors g \<and> sector_size g' = sector_size g \<and> r \<noteq> Inl 0"
    if "drive_geom hds spt ssize w drive g" "0 \<le> s" "0 < n" "n < 2 ^ 16" for w drive g s n
    using read_contract [OF that] by blast
  show "data = slice (contents w drive) (s * sector_size g) (n * sector_size g) \<and> int (length data) = n * sector_size g"
    if "drive_geom hds spt ssize w drive g" "0 \<le> s" "0 < n" "n < 2 ^ 16" "biosdisk_read b w drive g s n = Some (Inr data, g')"
    for w drive g s n data g'
    using read_contract [OF that(1-4)] that(5) by fastforce
qed (rule probed_geometry)
section \<open>Reads inside the disk succeed\<close>

text \<open>
  The disk is readable from sector 0 to \<open>lim\<close>, which is not behind its end, and these sectors are
  whole buffered tracks.
\<close>

definition readable :: "'w int13 \<Rightarrow> int \<Rightarrow> int \<Rightarrow> 'w disk_state \<Rightarrow> bool" where
  "readable b drive lim st \<longleftrightarrow> vtrack st dvd lim \<and> lim \<le> total_sectors (buf_geom st)
     \<and> (\<forall>s n. 0 \<le> s \<longrightarrow> 0 < n \<longrightarrow> s + n \<le> lim
          \<longrightarrow> (\<exists>data. biosdisk_read b (world st) drive (buf_geom st) s n = Some (Inr data, buf_geom st)))"

lemma readable_cong:
  "buf_geom st' = buf_geom st \<Longrightarrow> world st' = world st \<Longrightarrow> readable b drive lim st' = readable b drive lim st"
  by (simp add: readable_def vtrack_def ss_bits_def)

lemma readable_read_buffer:
  assumes "readable b drive lim st" and "0 \<le> s" and "0 < n" and "s + n \<le> lim"
  obtains buf where "read_buffer b drive s n st = Some (0, st\<lparr>dbuf := buf\<rparr>)"
  using assms by (force simp: readable_def read_buffer_def)

lemma track_inside:
  fixes v sector total :: int
  assumes "v dvd total" and "0 < v" and "sector < total"
  shows "sector - sector mod v + v \<le> total"
proof -
  obtain k where k: "total = v * k" using assms(1) by blast
  have "v * (sector div v) < v * k"
    using assms(2,3) pos_mod_sign [OF assms(2), of sector] minus_mod_eq_mult_div [of sector v] k by linarith
  then have "sector div v + 1 \<le> k" using assms(2) by simp
  then have "v * (sector div v + 1) \<le> v * k" using assms(2) by (intro mult_left_mono) auto
  then show ?thesis by (simp add: k minus_mod_eq_mult_div algebra_simps)
qed

lemma load_track_ok:
  assumes rd: "readable b drive lim st" and us: "usable (buf_geom st)" and sector: "0 \<le> sector" "sector < lim"
    and off: "0 \<le> off" and noerr: "errnum st = ERR_NONE"
    and lt: "load_track b drive sector slen (vtrack st) (sector - sector mod vtrack st) (vtrack st - sector mod vtrack st) off st
         = Some (st2, a)"
  shows "errnum st2 = ERR_NONE \<and> buf_geom st2 = buf_geom st"
proof (cases "sector - sector mod vtrack st = buf_track st")
  case True
  with lt noerr show ?thesis by (auto simp: load_track_def)
next
  case False
  let ?track = "sector - sector mod vtrack st" and ?num = "vtrack st - sector mod vtrack st"
  note bt = bits [OF us]
  have top: "?track + vtrack st \<le> lim"
    using track_inside [OF _ bt(4) sector(2)] rd by (auto simp: readable_def)
  have tr: "0 \<le> ?track" using bt(4) sector(1) by (simp add: minus_mod_eq_mult_div pos_imp_zdiv_nonneg_iff)
  have "0 \<le> sector mod vtrack st" "sector mod vtrack st < vtrack st" using bt(4) by auto
  moreover obtain buf where "read_buffer b drive ?track (vtrack st) st = Some (0, st\<lparr>dbuf := buf\<rparr>)"
    using readable_read_buffer [OF rd tr bt(4)] top by blast
  moreover obtain buf' where "read_buffer b drive sector ?num st = Some (0, st\<lparr>dbuf := buf'\<rparr>)"
    using readable_read_buffer [OF rd sector(1), of ?num] top calculation(2) by auto
  ultimately obtain buf'' a' where ft: "fetch_track b drive sector slen (vtrack st) ?track ?num off st
      = Some (st\<lparr>dbuf := buf'', buf_track := ?track\<rparr>, a')"
    using noerr by (cases "?num < slen") (auto simp: fetch_track_def)
  have "remap_ezd b drive sector slen (st\<lparr>dbuf := buf'', buf_track := ?track\<rparr>) = Some st2"
    using lt False ft by (auto simp: load_track_def split: bind_splits)
  moreover have "?track = 0" if "sector = 0" using that by simp
  ultimately show ?thesis using noerr by (auto simp: remap_ezd_def Let_def split: if_splits)
qed

context sector_device
begin

lemma rawread_loop_succeeds:
  assumes "disk_wf ok_geom drive st" and "buf_drive st = drive" and "0 \<le> sector" and "0 \<le> off" and "off < ssz st"
    and "0 \<le> len" and "errnum st = ERR_NONE" and "ezd_free contents (world st) drive (ssz st)"
    and "coherent contents st \<or> 0 < len \<and> buf_track st \<noteq> sector - sector mod vtrack st"
    and "readable b drive lim st" and "0 < len \<longrightarrow> sector * ssz st + off + len \<le> lim * ssz st"
    and "\<And>p n. fits p n"
  shows "\<exists>out' st'. rawread_loop b fits drive sector off len out st = Some (True, out', st') \<and> buf_geom st' = buf_geom st"
  using assms(1-11)
proof (induction "nat len" arbitrary: sector off len out st rule: less_induct)
  case less
  note wf = less.prems(1,2) and sector = less.prems(3) and off = less.prems(4,5) and noerr = less.prems(7)
    and ez = less.prems(8) and inv = less.prems(9)
  show ?case
  proof (cases "len = 0")
    case True
    with noerr show ?thesis by (auto simp: rawread_loop.simps)
  next
    case False
    then have len: "0 < len" using less.prems(6) by simp
    have us: "usable (buf_geom st)" using wf geom_usable by (auto simp: disk_wf_def)
    note bt = bits [OF us]
    have "sector * ssz st < lim * ssz st" using less.prems(11) len off by linarith
    then have lim: "sector < lim" using bt(3) by simp
    then have below: "sector < total_sectors (buf_geom st)" using less.prems(10) by (simp add: readable_def)
    define num where "num = vtrack st - sector mod vtrack st"
    define slen where "slen = (off + len + ssz st - 1) div ssz st"
    define sz where "sz = min len (num * ssz st - off)"
    note ar = vtrack_arith [OF bt(4,5,3) sector off len, folded num_def, folded slen_def sz_def]
    have inv': "coherent contents st \<or> buf_track st \<noteq> sector - sector mod vtrack st" using inv by auto
    obtain g buf t e a where lt: "load_track b drive sector slen (vtrack st) (sector - sector mod vtrack st) num off st
         = Some (st\<lparr>buf_geom := g, dbuf := buf, buf_track := t, errnum := e\<rparr>, a)"
      and g: "ok_geom (world st) drive g" "int (length buf) = BUFFERLEN" and a: "0 \<le> a" "a + sz \<le> BUFFERLEN"
      and tr: "e = ERR_NONE \<Longrightarrow> t = -1 \<or> t = sector - sector mod vtrack st \<and> (num < slen \<or>
           slice buf 0 (vtrack st * ssz st) = slice (disk_of contents st) ((sector - sector mod vtrack st) * ssz st) (vtrack st * ssz st)
           \<and> int (length (slice (disk_of contents st) ((sector - sector mod vtrack st) * ssz st) (vtrack st * ssz st))) = vtrack st * ssz st)"
      by (rule load_track_spec [OF wf sector off len noerr ez inv', folded num_def, folded slen_def sz_def])
        (rule that, (assumption | simp)+)
    have e: "e = ERR_NONE" "g = buf_geom st"
      using load_track_ok [OF less.prems(10) us sector lim off(1) noerr lt [unfolded num_def]] by auto
    define st2 where "st2 = st\<lparr>buf_geom := g, dbuf := buf, buf_track := t, errnum := e\<rparr>"
    define st3 where "st3 = (if hook_on st2 then st2\<lparr>hook_log := hook_log st2 @ hook_calls (ssz st) sector off sz\<rparr> else st2)"
    have st3: "errnum st3 = ERR_NONE" "buf_drive st3 = drive" "world st3 = world st" "ssz st3 = ssz st" "vtrack st3 = vtrack st"
      "disk_wf ok_geom drive st3" "buf_track st3 = t" "dbuf st3 = buf" "disk_of contents st3 = disk_of contents st"
      "buf_geom st3 = buf_geom st"
      using wf g e by (auto simp: st3_def st2_def disk_wf_def ssz_def disk_of_def intro!: vtrack_cong)
    have step: "rawread_loop b fits drive sector off len out st
        = rawread_loop b fits drive (sector + num) 0 (len - sz) (out @ slice buf a sz) st3"
      using rawread_loop_step [where a = a, OF len noerr wf(2) sector below us lt [folded st2_def, unfolded num_def slen_def],
          folded num_def, folded slen_def sz_def, folded st3_def] g(2) a ar(5) e assms(12)
      by (simp add: st2_def)
    have inv3: "coherent contents st3 \<or> 0 < len - sz \<and> buf_track st3 \<noteq> (sector + num) - (sector + num) mod vtrack st3"
    proof (cases "num < slen")
      case n: True
      have "sector + num = sector - sector mod vtrack st + vtrack st" by (simp add: num_def)
      then have "(sector + num) mod vtrack st = 0" by (simp add: minus_mod_eq_mult_div)
      moreover have "t \<noteq> sector + num" using tr e ar(1,2) sector by (auto simp: num_def)
      ultimately show ?thesis using ar(13) [OF n] st3(5,7) by simp
    next
      case False
      then have "coherent contents st3" using tr e st3 ar(7) by (auto simp: coherent_def)
      then show ?thesis ..
    qed
    have "0 \<le> len - sz" "nat (len - sz) < nat len" "0 \<le> sector + num"
      using ar(2,5) sector len by (auto simp: sz_def)
    moreover have "(sector + num) * ssz st + (len - sz) \<le> lim * ssz st" if "0 < len - sz"
      using that less.prems(11) len by (auto simp: sz_def algebra_simps min_def split: if_splits)
    ultimately have "\<exists>out' st'. rawread_loop b fits drive (sector + num) 0 (len - sz) (out @ slice buf a sz) st3
        = Some (True, out', st') \<and> buf_geom st' = buf_geom st3"
      using inv3 st3 ez bt(3) less.prems(10)
      by (intro less.hyps) (auto simp: readable_cong [of st3 st])
    then show ?thesis unfolding step using st3(10) by simp
  qed
qed

end
section \<open>Writing and the track buffer\<close>

locale firmware_write = firmware +
  assumes ext_stores: "ext_write b w drive s 1 bytes = Inr w' \<Longrightarrow> 0 \<le> s \<Longrightarrow> length bytes = 512 \<Longrightarrow> ssize w drive = 512
      \<Longrightarrow> (s + 1) * 512 \<le> int (length (contents w drive))
        \<and> contents w' = (contents w)(drive := overlay (contents w drive) (nat (s * 512)) bytes)"
    and chs_stores: "chs_write b w drive c h s 1 bytes = Inr w' \<Longrightarrow> 0 \<le> c \<Longrightarrow> 0 \<le> h \<Longrightarrow> h < hds w drive
      \<Longrightarrow> 1 \<le> s \<Longrightarrow> s \<le> spt w drive \<Longrightarrow> length bytes = 512
      \<Longrightarrow> (((c * hds w drive + h) * spt w drive + (s - 1)) + 1) * 512 \<le> int (length (contents w drive))
        \<and> contents w' = (contents w)(drive :=
            overlay (contents w drive) (nat (((c * hds w drive + h) * spt w drive + (s - 1)) * 512)) bytes)"
    and ext_keeps: "ext_write b w drive s n bytes = Inr w' \<Longrightarrow> hds w' = hds w \<and> spt w' = spt w \<and> ssize w' = ssize w"
    and chs_keeps: "chs_write b w drive c h s n bytes = Inr w' \<Longrightarrow> hds w' = hds w \<and> spt w' = spt w \<and> ssize w' = ssize w"
begin

lemma biosdisk_write_contract:
  assumes g: "drive_geom hds spt ssize w drive g" "\<not> cdrom_flag g" and s: "0 \<le> s" and len: "length bytes = 512"
    and wr: "biosdisk_write b w drive bytes g s 1 = Some (Inr w', g')"
  shows "(s + 1) * 512 \<le> int (length (contents w drive))"
    and "contents w' = (contents w)(drive := overlay (contents w drive) (nat (s * 512)) bytes)"
    and "drive_geom hds spt ssize w' drive g'" and "sectors g' = sectors g" and "sector_size g' = sector_size g"
proof -
  let ?c = "s div sectors g div heads g" and ?h = "s div sectors g mod heads g" and ?s = "s mod sectors g + 1"
  have gg: "0 < sectors g" "0 < heads g" "heads g = hds w drive" "sectors g = spt w drive" "ssize w drive = 512"
    using g by (auto simp: drive_geom_def)
  have lba: "(?c * heads g + ?h) * sectors g + (?s - 1) = s"
    using chs_split [OF gg(1,2) s] by (simp add: chs_lba_def)
  have top: "?s \<le> sectors g" using pos_mod_bound [OF gg(1), of s] by linarith
  have rng: "0 \<le> ?c" "0 \<le> ?h" "?h < heads g" "1 \<le> ?s"
    using gg(1,2) s by (simp_all add: pos_imp_zdiv_nonneg_iff)
  have geom: "sectors g' = sectors g \<and> heads g' = heads g \<and> sector_size g' = sector_size g \<and> \<not> cdrom_flag g'"
    and calls: "ext_write b w drive s 1 bytes = Inr w' \<or> chs_write b w drive ?c ?h ?s 1 bytes = Inr w'"
    using wr g(2) gg(1,2)
    by (auto simp: biosdisk_write_def biosdisk_def biosdisk_chs_def Let_def split: if_splits sum.splits)
  from calls have st: "(s + 1) * 512 \<le> int (length (contents w drive))
      \<and> contents w' = (contents w)(drive := overlay (contents w drive) (nat (s * 512)) bytes)
      \<and> hds w' = hds w \<and> spt w' = spt w \<and> ssize w' = ssize w"
  proof
    assume "ext_write b w drive s 1 bytes = Inr w'"
    from ext_stores [OF this s len gg(5)] ext_keeps [OF this] show ?thesis by blast
  next
    assume w: "chs_write b w drive ?c ?h ?s 1 bytes = Inr w'"
    from chs_stores [OF this rng(1,2) _ rng(4) _ len] chs_keeps [OF this] rng(3) top lba gg(3,4) show ?thesis by simp
  qed
  then show "(s + 1) * 512 \<le> int (length (contents w drive))"
    "contents w' = (contents w)(drive := overlay (contents w drive) (nat (s * 512)) bytes)" by blast+
  show "drive_geom hds spt ssize w' drive g'" "sectors g' = sectors g" "sector_size g' = sector_size g"
    using st geom g by (auto simp: drive_geom_def)
qed

end

lemma nth_overlay_other:
  "d + length bytes \<le> length xs \<Longrightarrow> j < length xs \<Longrightarrow> j < d \<or> d + length bytes \<le> j \<Longrightarrow> overlay xs d bytes ! j = xs ! j"
  by (auto simp: overlay_def nth_append)

lemma slice_overlay_other:
  assumes "0 \<le> p" and "int (length bytes) = m" and "0 \<le> s" and "0 \<le> n" and "s + n \<le> p \<or> p + m \<le> s"
    and "p + m \<le> int (length xs)"
  shows "slice (overlay xs (nat p) bytes) s n = slice xs s n"
proof (intro nth_equalityI)
  have fit: "nat p + length bytes \<le> length xs" using assms by linarith
  then have lo: "length (overlay xs (nat p) bytes) = length xs" by simp
  then show "length (slice (overlay xs (nat p) bytes) s n) = length (slice xs s n)" by (simp add: slice_def)
  fix i assume "i < length (slice (overlay xs (nat p) bytes) s n)"
  then have i: "i < nat n" "nat s + i < length xs" using lo by (auto simp: slice_def)
  then have "nat s + i < nat p \<or> nat p + length bytes \<le> nat s + i" using assms by linarith
  with i lo fit nth_overlay_other [OF fit i(2)] show "slice (overlay xs (nat p) bytes) s n ! i = slice xs s n ! i"
    by (simp add: slice_def)
qed

lemma slice_overlay_same:
  assumes "0 \<le> p" and "int (length bytes) = m" and "p + m \<le> int (length xs)"
  shows "slice (overlay xs (nat p) bytes) p m = bytes"
  using assms by (auto simp: slice_def overlay_def)

lemma tracks_apart:
  fixes v t s :: int
  assumes "0 < v" and "v dvd t" and "s - s mod v \<noteq> t"
  shows "s + 1 \<le> t \<or> t + v \<le> s"
proof -
  obtain k where k: "t = v * k" using assms(2) by blast
  have s: "s = v * (s div v) + s mod v" by simp
  have m: "0 \<le> s mod v" "s mod v < v" using assms(1) by auto
  have "s div v \<noteq> k" using assms(3) k by (auto simp: minus_mod_eq_mult_div)
  then consider "s div v + 1 \<le> k" | "k + 1 \<le> s div v" by linarith
  then show ?thesis
  proof cases
    case 1
    then have "v * (s div v + 1) \<le> v * k" using assms(1) by (intro mult_left_mono) auto
    then have "v * (s div v) + v \<le> v * k" by (simp add: algebra_simps)
    then show ?thesis using k s m by linarith
  next
    case 2
    then have "v * (k + 1) \<le> v * (s div v)" using assms(1) by (intro mult_left_mono) auto
    then have "v * k + v \<le> v * (s div v)" by (simp add: algebra_simps)
    then show ?thesis using k s m by linarith
  qed
qed

lemma rawwriteE:
  assumes "rawwrite b drive sector buf st = Some (True, st')" and "errnum st = ERR_NONE"
  obtains g1 s w g where "sector \<noteq> 0 \<Longrightarrow> s = sector \<and> g1 = buf_geom st"
    and "sector = 0 \<Longrightarrow> \<exists>data. biosdisk_read b (world st) drive (buf_geom st) 0 1 = Some (Inr data, g1)
           \<and> s = (if is_ezd data then 1 else 0)"
    and "biosdisk_write b (world st) drive (take 512 buf) g1 s 1 = Some (Inr w, g)"
    and "st' = (let st3 = st\<lparr>scratch := take 512 buf, world := w, buf_geom := g\<rparr>
               in if s - s mod sectors g = buf_track st then st3\<lparr>buf_track := -1\<rparr> else st3)"
proof (cases "sector = 0")
  case False
  with assms obtain w g where bw: "biosdisk_write b (world st) drive (take 512 buf) (buf_geom st) sector 1 = Some (Inr w, g)"
    by (auto simp: rawwrite_def SECTOR_SIZE_def Let_def split: option.splits sum.splits)
  with False assms show thesis
    by (intro that [where s = sector and ?g1.0 = "buf_geom st"])
      (auto simp: rawwrite_def SECTOR_SIZE_def Let_def split: if_splits)
next
  case True
  with assms obtain data g1 where rd: "biosdisk_read b (world st) drive (buf_geom st) 0 1 = Some (Inr data, g1)"
    by (auto simp: rawwrite_def split: option.splits sum.splits)
  with True assms obtain w g where
    bw: "biosdisk_write b (world st) drive (take 512 buf) g1 (if is_ezd data then 1 else 0) 1 = Some (Inr w, g)"
    by (auto simp: rawwrite_def SECTOR_SIZE_def Let_def split: option.splits sum.splits)
  have ok: "sectors g \<noteq> 0" "(let st3 = st\<lparr>scratch := take 512 buf, world := w, buf_geom := g\<rparr>; s = (if is_ezd data then 1 else 0)
      in if s - s mod sectors g = buf_track st then st3\<lparr>buf_track := -1\<rparr> else st3) = st'"
    using assms True rd bw by (auto simp: rawwrite_def SECTOR_SIZE_def Let_def split: if_splits)
  with True rd bw show thesis
    by (intro that [where s = "if is_ezd data then 1 else 0" and ?g1.0 = g1 and w = w and g = g])
      (auto simp: Let_def)
qed

context firmware_write
begin

lemma write_keeps_cache:
  assumes coh: "coherent contents st" and drive: "buf_drive st = drive" and wf: "disk_wf (drive_geom hds spt ssize) drive st"
    and hd: "\<not> cdrom_flag (buf_geom st)" and fit: "vtrack st = sectors (buf_geom st)"
    and s: "0 \<le> s" and len: "length bytes = 512"
    and wr: "biosdisk_write b (world st) drive bytes (buf_geom st) s 1 = Some (Inr w, g)"
  defines "st3 \<equiv> st\<lparr>world := w, buf_geom := g\<rparr>"
  shows "disk_inv contents (drive_geom hds spt ssize) drive
    (if s - s mod sectors g = buf_track st then st3\<lparr>buf_track := -1\<rparr> else st3)"
proof -
  have geom: "drive_geom hds spt ssize (world st) drive (buf_geom st)" using wf drive by (auto simp: disk_wf_def)
  note bw = biosdisk_write_contract [OF geom hd s len wr]
  have ss: "ssz st = 512" using geom hd by (auto simp: drive_geom_def ssz_def)
  have st3: "vtrack st3 = vtrack st" "ssz st3 = 512" "buf_track st3 = buf_track st" "dbuf st3 = dbuf st"
    "disk_of contents st3 = overlay (disk_of contents st) (nat (s * 512)) bytes"
    using bw ss drive by (auto simp: st3_def ssz_def disk_of_def intro!: vtrack_cong)
  have vp: "0 < vtrack st" using bits(4) [of st] dev.geom_usable [OF geom] by simp
  have coh3: "coherent contents st3" if "s - s mod sectors g \<noteq> buf_track st" "buf_track st \<noteq> -1"
  proof -
    have c: "0 \<le> buf_track st" "vtrack st dvd buf_track st"
      using coh that(2) by (auto simp: coherent_def)
    have "s + 1 \<le> buf_track st \<or> buf_track st + vtrack st \<le> s"
      using tracks_apart [OF vp c(2)] that(1) bw(4) fit by simp
    then have "slice (disk_of contents st3) (buf_track st * 512) (vtrack st * 512)
        = slice (disk_of contents st) (buf_track st * 512) (vtrack st * 512)"
      unfolding st3(5) using bw(1) s c(1) vp len drive
      by (intro slice_overlay_other [where m = 512]) (auto simp: disk_of_def)
    then show ?thesis using coh that(2) by (auto simp: coherent_def st3 ss)
  qed
  have "disk_wf (drive_geom hds spt ssize) drive st3" using wf bw(3) by (simp add: disk_wf_def st3_def)
  with coh3 show ?thesis by (auto simp: disk_inv_def disk_wf_def coherent_def st3_def)
qed

text \<open>
  If whole tracks fit into the buffer, a write keeps the track buffer coherent; the sector on the
  disk is the one written, except that sector 0 of an EZ-Drive disk is redirected to sector 1.
\<close>

lemma rawwrite_spec:
  assumes inv: "disk_inv contents (drive_geom hds spt ssize) drive st" "buf_drive st = drive" and noerr: "errnum st = ERR_NONE"
    and hd: "\<not> cdrom_flag (buf_geom st)" and fit: "vtrack st = sectors (buf_geom st)"
    and sector: "0 \<le> sector" and len: "512 \<le> length buf"
    and wr: "rawwrite b drive sector buf st = Some (True, st')"
  shows "disk_inv contents (drive_geom hds spt ssize) drive st'
    \<and> (\<exists>s. s = (if sector = 0 \<and> is_ezd (contents (world st) drive) then 1 else sector)
         \<and> contents (world st') = (contents (world st))(drive := overlay (contents (world st) drive) (nat (s * 512)) (take 512 buf))
         \<and> slice (contents (world st') drive) (s * 512) 512 = take 512 buf)"
proof -
  let ?w = "world st" and ?s = "if sector = 0 \<and> is_ezd (contents (world st) drive) then 1 else sector"
  have geom: "drive_geom hds spt ssize ?w drive (buf_geom st)" using inv by (auto simp: disk_inv_def disk_wf_def)
  have s512: "ssize ?w drive = 512" "sector_size (buf_geom st) = 512" using geom hd by (auto simp: drive_geom_def)
  obtain g1 s w g where s: "sector \<noteq> 0 \<Longrightarrow> s = sector \<and> g1 = buf_geom st"
      "sector = 0 \<Longrightarrow> \<exists>data. biosdisk_read b ?w drive (buf_geom st) 0 1 = Some (Inr data, g1) \<and> s = (if is_ezd data then 1 else 0)"
    and bw: "biosdisk_write b ?w drive (take 512 buf) g1 s 1 = Some (Inr w, g)"
    and st': "st' = (let st3 = st\<lparr>scratch := take 512 buf, world := w, buf_geom := g\<rparr>
               in if s - s mod sectors g = buf_track st then st3\<lparr>buf_track := -1\<rparr> else st3)"
    by (rule rawwriteE [OF wr noerr]) (rule that, (assumption | simp)+)
  have "s = ?s \<and> drive_geom hds spt ssize ?w drive g1 \<and> sectors g1 = sectors (buf_geom st)
      \<and> sector_size g1 = sector_size (buf_geom st)"
    using s geom read_contract [OF geom, of 0 1] is_ezd_slice [of 512 "contents ?w drive"]
    by (cases "sector = 0") (auto simp: s512)
  then have g1: "s = ?s" "drive_geom hds spt ssize ?w drive g1" "sectors g1 = sectors (buf_geom st)"
    "sector_size g1 = sector_size (buf_geom st)" "\<not> cdrom_flag g1"
    using s512 by (auto simp: drive_geom_def)
  have cong: "vtrack (st\<lparr>buf_geom := g1, scratch := take 512 buf\<rparr>) = vtrack st"
    using g1(3,4) by (auto intro!: vtrack_cong)
  let ?st = "st\<lparr>buf_geom := g1, scratch := take 512 buf\<rparr>"
  have pre: "coherent contents ?st" "disk_wf (drive_geom hds spt ssize) drive ?st" "vtrack ?st = sectors (buf_geom ?st)"
    using inv fit g1(2-4) by (auto simp: disk_inv_def disk_wf_def coherent_def disk_of_def ssz_def cong)
  have s0: "0 \<le> s" and len': "length (take 512 buf) = 512" using sector len g1(1) by auto
  note wc = biosdisk_write_contract [OF g1(2,5) s0 len' bw]
  have "disk_inv contents (drive_geom hds spt ssize) drive st'"
    using write_keeps_cache [OF pre(1) _ pre(2) _ pre(3) s0 len', of w g] inv(2) g1(5) bw
    by (auto simp: st' Let_def split: if_splits)
  moreover have "world st' = w" by (simp add: st' Let_def)
  moreover have "slice (contents w drive) (s * 512) 512 = take 512 buf"
    using wc(1,2) s0 len' by (simp add: slice_overlay_same)
  ultimately show ?thesis using wc(2) g1(1) by - (rule conjI, assumption, rule exI [of _ s], simp)
qed

end
section \<open>A disk in memory\<close>

text \<open>
  A drive 0x80 with 9 sectors per track and one head, without the LBA extensions, whose contents
  are a list of bytes: an instance of the firmware contract.
\<close>

definition ram_chs :: "int \<Rightarrow> int \<Rightarrow> int \<Rightarrow> int" where
  "ram_chs c h s = ((c * 1 + h) * 9 + (s - 1)) * 512"

definition ram_int13 :: "u8 list int13" where
  "ram_int13 = \<lparr>ext_read = (\<lambda>w d s n. Inl 1), ext_write = (\<lambda>w d s n bytes. Inl 1),
     chs_read = (\<lambda>w d c h s n. if d = 0x80 \<and> ram_chs c h s + n * 512 \<le> int (length w)
                   then Inr (slice w (ram_chs c h s) (n * 512)) else Inl 4),
     chs_write = (\<lambda>w d c h s n bytes. if d = 0x80 \<and> ram_chs c h s + n * 512 \<le> int (length w)
                   then Inr (overlay w (nat (ram_chs c h s)) bytes) else Inl 4),
     check_int13_extensions = (\<lambda>w d. 0), ext_parameters = (\<lambda>w d. Inl 1), cd_status = (\<lambda>w d. Inl 1),
     get_diskinfo_standard = (\<lambda>w d. if d = 0x80 then Inr (int (length w) div 4608, 1, 9) else Inl 1)\<rparr>"

definition ram_contents :: "u8 list \<Rightarrow> int \<Rightarrow> u8 list" where
  "ram_contents w d = (if d = 0x80 then w else [])"

interpretation ram: firmware_write ram_int13 ram_contents "\<lambda>_ _. 1" "\<lambda>_ _. 9" "\<lambda>_ _. 512"
  by unfold_locales
    (auto simp: ram_int13_def ram_contents_def ram_chs_def slice_def fun_eq_iff split: if_splits)

abbreviation "ram_geom \<equiv> drive_geom (\<lambda>_ _. 1) (\<lambda>_ _. 9) (\<lambda>_ _. 512)"

definition ram_state :: "u8 list \<Rightarrow> u8 list disk_state" where
  "ram_state w = \<lparr>errnum = ERR_NONE, buf_drive = -1, buf_track = -1,
     buf_geom = \<lparr>cylinders = 0, heads = 0, sectors = 0, total_sectors = 0, sector_size = 512, lba_flag = False, cdrom_flag = False\<rparr>,
     dbuf = replicate (nat BUFFERLEN) 0, scratch = [], hook_on = False, hook_log = [], world = w\<rparr>"

lemma ram_state_simps [simp]:
  "errnum (ram_state w) = ERR_NONE" "world (ram_state w) = w" "buf_drive (ram_state w) = -1"
  by (simp_all add: ram_state_def)

lemma ram_state_inv: "disk_inv ram_contents ram_geom 0x80 (ram_state w)"
  by (simp add: disk_inv_def disk_wf_def ram_state_def BUFFERLEN_def)

lemma plain_bytes:
  assumes "0x55 \<notin> set w"
  shows "plain_disk ram_contents w drive"
proof -
  have free: "\<not> is_ezd (slice w s m)" if "512 \<le> m" "int (length (slice w s m)) = m" for s m :: int
  proof -
    have "slice w s m ! i \<noteq> 0x55" if "i < 512" for i
    proof -
      have "i < length (slice w s m)" using that \<open>512 \<le> m\<close> \<open>int (length (slice w s m)) = m\<close> by linarith
      then have "slice w s m ! i \<in> set w" using nth_mem [of i "slice w s m"] by (auto simp: slice_def dest: in_set_takeD in_set_dropD)
      with assms show ?thesis by auto
    qed
    then show ?thesis by (auto simp: is_ezd_def PC_SLICE_TYPE_def)
  qed
  have "ezd_free ram_contents w drive ss" if ss: "512 \<le> ss" for ss
    unfolding ezd_free_def
  proof (intro allI impI)
    fix s k :: int
    assume *: "int (length (slice (ram_contents w drive) (s * ss) (k * ss))) = k * ss" "0 < k"
    have "1 * 512 \<le> k * ss" using *(2) ss by (intro mult_mono) auto
    moreover from this * have "drive = 0x80" by (auto simp: ram_contents_def slice_def split: if_splits)
    ultimately show "\<not> is_ezd (slice (ram_contents w drive) (s * ss) (k * ss))"
      using free [of "k * ss"] * by (simp add: ram_contents_def)
  qed
  then show ?thesis by (simp add: plain_disk_def)
qed

lemma plain_replicate: "x \<noteq> 0x55 \<Longrightarrow> plain_disk ram_contents (replicate n x) drive"
  by (rule plain_bytes) auto
context firmware
begin

lemma device: "sector_device b contents (drive_geom hds spt ssize)"
  by (rule dev.sector_device_axioms)

end

section \<open>Properties\<close>

text \<open>
  C19. \<open>rawread\<close> returns: on a firmware that keeps its contract, for every sector and
  length and an offset inside 512 bytes, if no error is pending, the track buffer holds what the disk holds, and no sector of the disk can be taken for that of an EZ-Drive,
  it neither divides by zero nor reads behind the track buffer nor loops. What it has
  delivered is a piece of the disk at the address asked for, all of it if it reports success, and
  then the track buffer again holds what the disk holds. A failure leaves its error code; about the track buffer nothing is said then.
\<close>

theorem rawread_reads_disk:
  assumes "firmware b contents hds spt ssize" and "disk_inv contents (drive_geom hds spt ssize) drive st"
    and "0 \<le> off" and "off < 512" and "errnum st = ERR_NONE" and "plain_disk contents (world st) drive"
  shows "\<exists>ok st' n. rawread b fits drive sector off len st
      = Some (ok, slice (contents (world st) drive) (sector * sector_size (buf_geom st') + off) n, st')
    \<and> ok = (errnum st' = ERR_NONE) \<and> world st' = world st \<and> 0 \<le> n \<and> n \<le> max 0 len
    \<and> int (length (slice (contents (world st) drive) (sector * sector_size (buf_geom st') + off) n)) = n
    \<and> (ok \<longrightarrow> n = max 0 len \<and> disk_inv contents (drive_geom hds spt ssize) drive st')"
  using sector_device.rawread_spec [OF firmware.device [OF assms(1)] assms(2-6), of fits sector len]
  unfolding ssz_def by blast

lemma rawread_reads_disk_witness:
  "\<exists>ok st' n. rawread ram_int13 (\<lambda>_ _. True) 0x80 7 100 2000 (ram_state (replicate 9216 7))
      = Some (ok, slice (replicate 9216 7) (7 * sector_size (buf_geom st') + 100) n, st') \<and> n \<le> 2000"
  using rawread_reads_disk [where off = 100 and fits = "\<lambda>_ _. True" and sector = 7 and len = 2000,
      OF ram.firmware_axioms ram_state_inv [of "replicate 9216 7"]]
  by (fastforce simp: plain_replicate ram_contents_def)

lemma ram_readable:
  assumes "9 dvd total_sectors (buf_geom st)" and "buf_geom st = \<lparr>cylinders = c, heads = 1, sectors = 9, total_sectors = c * 9,
      sector_size = 512, lba_flag = False, cdrom_flag = False\<rparr>" and "int (length (world st)) = c * 4608"
  shows "readable ram_int13 0x80 (c * 9) st"
proof -
  have "grub_log2 512 = 9" using grub_log2_power [of 9] by simp
  then have v: "vtrack st = 9" using assms(2) by (simp add: vtrack_def ss_bits_def push_bit_int_def BUFFERLEN_def)
  have "\<exists>data. biosdisk_read ram_int13 (world st) 0x80 (buf_geom st) s n = Some (Inr data, buf_geom st)"
    if "0 \<le> s" "0 < n" "s + n \<le> c * 9" for s n
  proof -
    have "s div 9 < c" using that by linarith
    moreover have "ram_chs (s div 9) 0 (s mod 9 + 1) = s * 512" by (simp add: ram_chs_def)
    ultimately show ?thesis
      using that assms(3) by (auto simp: biosdisk_read_def biosdisk_def biosdisk_chs_def ram_int13_def assms(2) Let_def)
  qed
  then show ?thesis using v assms(1,2) by (simp add: readable_def)
qed

text \<open>A drive that is selected, readable and free of errors.\<close>

definition good_drive :: "'w int13 \<Rightarrow> ('w \<Rightarrow> int \<Rightarrow> u8 list) \<Rightarrow> ('w \<Rightarrow> int \<Rightarrow> geometry \<Rightarrow> bool) \<Rightarrow> 'w \<Rightarrow> int \<Rightarrow> int
    \<Rightarrow> 'w disk_state \<Rightarrow> bool" where
  "good_drive b contents ok_geom w drive lim st \<longleftrightarrow> disk_inv contents ok_geom drive st \<and> buf_drive st = drive \<and> world st = w
     \<and> readable b drive lim st \<and> plain_disk contents w drive \<and> errnum st = ERR_NONE"

context sector_device
begin

lemma rawread_good:
  assumes good: "good_drive b contents ok_geom w drive lim st"
    and "0 \<le> sector" and "0 \<le> off" and "off < sector_size (buf_geom st)" and "0 \<le> len"
    and "sector * sector_size (buf_geom st) + off + len \<le> lim * sector_size (buf_geom st)"
    and "\<And>p n. fits p n"
  shows "\<exists>st'. rawread b fits drive sector off len st
      = Some (True, slice (contents w drive) (sector * sector_size (buf_geom st) + off) len, st')
    \<and> good_drive b contents ok_geom w drive lim st' \<and> buf_geom st' = buf_geom st"
proof -
  have wf: "disk_wf ok_geom drive st" and coh: "coherent contents st" and drive: "buf_drive st = drive"
    and rd: "readable b drive lim st" and w: "world st = w" and noerr: "errnum st = ERR_NONE"
    using good by (auto simp: good_drive_def disk_inv_def)
  then have "usable (buf_geom st)" using geom_usable by (auto simp: disk_wf_def)
  then have "ssz st = 512 \<or> ssz st = 2048" by (auto simp: usable_def ssz_def)
  then have ez: "ezd_free contents (world st) drive (ssz st)" and os: "off < ssz st"
    using good assms(4) by (auto simp: plain_disk_def good_drive_def ssz_def)
  have bound: "0 < len \<longrightarrow> sector * ssz st + off + len \<le> lim * ssz st"
    using assms(6) by (simp add: ssz_def)
  note pre = wf drive assms(2,3) os assms(5) noerr ez
  show ?thesis
  proof (cases "len = 0")
    case True
    with good show ?thesis by (auto simp: rawread_def slice_def)
  next
    case False
    then have len: "0 < len" using assms(5) by simp
    obtain out st' where run: "rawread_loop b fits drive sector off len [] st = Some (True, out, st')" "buf_geom st' = buf_geom st"
      using rawread_loop_succeeds [where fits = fits and out = "[]", OF pre disjI1 [OF coh] rd bound assms(7)] by blast
    have st': "out = slice (contents w drive) (sector * ssz st + off) len" "disk_wf ok_geom drive st'" "buf_drive st' = drive"
      "world st' = w" "errnum st' = ERR_NONE" "coherent contents st'"
      using rawread_loop_spec [OF pre disjI1 [OF coh], of fits "[]"] run(1) by (auto simp: disk_of_def drive w)
    have "readable b drive lim st'" using readable_cong [OF run(2)] st'(4) w rd by simp
    with st' run len good show ?thesis
      by (auto simp: rawread_def ssz_def good_drive_def disk_inv_def)
  qed
qed

end

text \<open>
  C20. Reads inside the disk succeed: if the firmware can read every sector range of the drive up to a
  sector \<open>lim\<close> at the end of a track, a \<open>rawread\<close> whose bytes lie on the disk and
  whose destination is accepted returns success and exactly these bytes, and it leaves the drive in
  a state in which the next read succeeds as well.
\<close>

theorem rawread_inside_succeeds:
  assumes "firmware b contents hds spt ssize" and "good_drive b contents (drive_geom hds spt ssize) w drive lim st"
    and "0 \<le> sector" and "0 \<le> off" and "off < sector_size (buf_geom st)" and "0 \<le> len"
    and "sector * sector_size (buf_geom st) + off + len \<le> lim * sector_size (buf_geom st)"
    and "\<And>p n. fits p n"
  shows "\<exists>st'. rawread b fits drive sector off len st
      = Some (True, slice (contents w drive) (sector * sector_size (buf_geom st) + off) len, st')
    \<and> good_drive b contents (drive_geom hds spt ssize) w drive lim st' \<and> buf_geom st' = buf_geom st"
  by (rule sector_device.rawread_good [OF firmware.device [OF assms(1)] assms(2-8)])

definition ram_opened :: "u8 list \<Rightarrow> u8 list disk_state" where
  "ram_opened w = (ram_state w)\<lparr>buf_drive := 0x80, buf_geom := \<lparr>cylinders = int (length w) div 4608, heads = 1, sectors = 9,
     total_sectors = int (length w) div 4608 * 9, sector_size = 512, lba_flag = False, cdrom_flag = False\<rparr>\<rparr>"

lemma ram_opened_inv: "disk_inv ram_contents ram_geom 0x80 (ram_opened w)"
  by (simp add: disk_inv_def disk_wf_def ram_opened_def ram_state_def BUFFERLEN_def drive_geom_def coherent_def)

lemma ram_opened_good:
  assumes "length w mod 4608 = 0" and "plain_disk ram_contents w 0x80"
  shows "good_drive ram_int13 ram_contents ram_geom w 0x80 (int (length w) div 4608 * 9) (ram_opened w)"
proof -
  obtain k where "length w = 4608 * k" using mod_0_imp_dvd [OF assms(1)] by (rule dvdE)
  then have "int (length w) = int (length w) div 4608 * 4608" by simp
  then have "readable ram_int13 0x80 (int (length w) div 4608 * 9) (ram_opened w)"
    by (intro ram_readable [where c = "int (length w) div 4608"]) (simp_all add: ram_opened_def)
  then show ?thesis using ram_opened_inv assms(2) by (simp add: good_drive_def) (simp add: ram_opened_def)
qed

lemma rawread_inside_succeeds_witness:
  "\<exists>st'. rawread ram_int13 (\<lambda>_ _. True) 0x80 7 100 2000 (ram_opened (replicate 9216 7))
    = Some (True, replicate 2000 7, st')"
  using rawread_inside_succeeds [where sector = 7 and off = 100 and len = 2000 and fits = "\<lambda>_ _. True",
      OF ram.firmware_axioms ram_opened_good [of "replicate 9216 7"]]
  by (auto simp: plain_replicate ram_contents_def slice_def) (auto simp: ram_opened_def)

lemma devread_bound:
  fixes sector off len pl :: int
  assumes "0 \<le> sector" and "sector < 2 ^ 31" and "0 \<le> off" and "0 < len" and "off + len < 2 ^ 31"
  shows "(sector + drop_bit 9 (off + len - 1)) mod 2 ^ 32 \<ge> pl \<longleftrightarrow> sector * 512 + off + len > pl * 512"
proof -
  have "(sector + (off + len - 1) div 512) mod 2 ^ 32 = sector + (off + len - 1) div 512"
    using assms by (intro mod_pos_pos_trivial) auto
  moreover have "pl \<le> sector + (off + len - 1) div 512 \<longleftrightarrow> pl - sector \<le> (off + len - 1) div 512" by linarith
  moreover have "\<dots> \<longleftrightarrow> (pl - sector) * 512 \<le> off + len - 1" by (rule le_zdiv_iff) simp
  ultimately show ?thesis by (auto simp: drop_bit_int_def)
qed

lemma c_int_id: "- (2 ^ 31) \<le> x \<Longrightarrow> x < 2 ^ 31 \<Longrightarrow> c_int x = x"
  by (simp add: c_int_def)

lemma low_bits: "(x :: int) AND (SECTOR_SIZE - 1) = x mod 512"
  using take_bit_eq_mask [of 9 x] by (simp add: SECTOR_SIZE_def take_bit_int_def mask_eq_exp_minus_1)

text \<open>
  C21. \<open>devread\<close> stays inside the partition: a request that starts before the partition or ends
  behind it is refused with \<open>ERR_OUTSIDE_PART\<close> and reads nothing; any other one returns, and
  if it reports success it has delivered the bytes at this offset of the partition, for every byte
  offset, also one of more than a sector.
\<close>

theorem devread_partition:
  assumes "firmware b contents hds spt ssize" and "disk_inv contents (drive_geom hds spt ssize) drive st"
    and "errnum st = ERR_NONE" and "plain_disk contents (world st) drive" and "ssize (world st) drive = 512"
    and "0 \<le> off" and "0 < len" and "off + len < 2 ^ 31" and "sector < 2 ^ 31"
    and "0 \<le> part_start" and "part_start + sector + off div 512 < 2 ^ 31"
  shows "if sector < 0 \<or> sector * 512 + off + len > part_length * 512
    then devread b fits drive part_start part_length sector off len st = Some (False, [], st\<lparr>errnum := ERR_OUTSIDE_PART\<rparr>)
    else \<exists>ok out st'. devread b fits drive part_start part_length sector off len st = Some (ok, out, st')
      \<and> ok = (errnum st' = ERR_NONE) \<and> world st' = world st
      \<and> (ok \<longrightarrow> out = slice (contents (world st) drive) ((part_start + sector) * 512 + off) len
           \<and> disk_inv contents (drive_geom hds spt ssize) drive st')"
proof -
  let ?s = "part_start + (sector + drop_bit 9 off)" and ?o = "off AND (SECTOR_SIZE - 1)"
  have o: "0 \<le> ?o" "?o < 512" by (simp_all add: low_bits)
  have pos: "?s * 512 + ?o = (part_start + sector) * 512 + off"
    by (simp add: low_bits drop_bit_int_def algebra_simps)
  from sector_device.rawread_spec [OF firmware.device [OF assms(1)] assms(2) o assms(3,4), of fits ?s len]
  obtain ok st' n where r: "rawread b fits drive ?s ?o len st
      = Some (ok, slice (contents (world st) drive) (?s * ssz st' + ?o) n, st')"
    "ok = (errnum st' = ERR_NONE)" "disk_wf (drive_geom hds spt ssize) drive st'" "world st' = world st"
    "ok \<longrightarrow> n = max 0 len \<and> disk_inv contents (drive_geom hds spt ssize) drive st' \<and> (0 < len \<longrightarrow> buf_drive st' = drive)"
    by blast
  have "ssz st' = 512" if ok using r(3-5) that assms(5,7) by (auto simp: disk_wf_def drive_geom_def ssz_def)
  then have "slice (contents (world st) drive) (?s * ssz st' + ?o) n
      = slice (contents (world st) drive) ((part_start + sector) * 512 + off) len" if ok
    using r(5) that assms(7) by (simp only: pos) simp
  moreover have "c_int ?s = ?s" if "0 \<le> sector"
    using that assms(6,10,11) by (intro c_int_id) (auto simp: drop_bit_int_def)
  ultimately show ?thesis
    using r devread_bound [OF _ assms(9,6-8), of part_length]
    by (cases "sector < 0") (auto simp: devread_def)
qed

lemma devread_partition_witness:
  "devread ram_int13 (\<lambda>_ _. True) 0x80 9 3 2 100 500 (ram_opened (replicate 9216 7))
     = Some (False, [], (ram_opened (replicate 9216 7))\<lparr>errnum := ERR_OUTSIDE_PART\<rparr>)
   \<and> (\<exists>ok out st'. devread ram_int13 (\<lambda>_ _. True) 0x80 9 3 0 600 500 (ram_opened (replicate 9216 7)) = Some (ok, out, st')
      \<and> (ok \<longrightarrow> out = replicate 500 7))"
proof -
  note p = devread_partition [where fits = "\<lambda>_ _. True" and part_start = 9 and part_length = 3,
      OF ram.firmware_axioms ram_opened_inv [of "replicate 9216 7"]]
  show ?thesis
    using p [of 100 500 2] p [of 600 500 0]
    by (fastforce simp: plain_replicate ram_opened_def ram_contents_def slice_def)
qed

text \<open>
  C22. Writing keeps the track buffer coherent: if the tracks of the drive fit into the buffer, a
  successful \<open>rawwrite\<close> stores the sector on the disk (sector 1 instead of 0 on an EZ-Drive disk),
  changes nothing else, and afterwards the buffer still holds what the disk holds, so that a
  following read does not see the old sector.
\<close>

theorem rawwrite_coherent:
  assumes "firmware_write b contents hds spt ssize" and "disk_inv contents (drive_geom hds spt ssize) drive st"
    and "buf_drive st = drive" and "errnum st = ERR_NONE" and "\<not> cdrom_flag (buf_geom st)"
    and "vtrack st = sectors (buf_geom st)" and "0 \<le> sector" and "512 \<le> length buf"
    and "rawwrite b drive sector buf st = Some (True, st')"
  shows "disk_inv contents (drive_geom hds spt ssize) drive st'
    \<and> (\<exists>s. s = (if sector = 0 \<and> is_ezd (contents (world st) drive) then 1 else sector)
         \<and> contents (world st') = (contents (world st))(drive := overlay (contents (world st) drive) (nat (s * 512)) (take 512 buf))
         \<and> slice (contents (world st') drive) (s * 512) 512 = take 512 buf)"
  by (rule firmware_write.rawwrite_spec [OF assms])

lemma rawwrite_coherent_witness:
  "\<exists>st'. rawwrite ram_int13 0x80 3 (replicate 512 5) (ram_opened (replicate 9216 7)) = Some (True, st')
    \<and> disk_inv ram_contents ram_geom 0x80 st' \<and> slice (world st') 1536 512 = replicate 512 5"
proof -
  let ?st = "ram_opened (replicate 9216 7)"
  have "grub_log2 512 = 9" using grub_log2_power [of 9] by simp
  then have v: "vtrack ?st = sectors (buf_geom ?st)"
    by (simp add: vtrack_def ss_bits_def ram_opened_def push_bit_int_def BUFFERLEN_def)
  obtain st' where wr: "rawwrite ram_int13 0x80 3 (replicate 512 5) ?st = Some (True, st')"
    by (simp add: rawwrite_def ram_opened_def ram_state_def biosdisk_write_def biosdisk_def biosdisk_chs_def ram_int13_def ram_chs_def Let_def)
  show ?thesis
    using rawwrite_coherent [OF ram.firmware_write_axioms ram_opened_inv _ _ _ v _ _ wr] wr
    by (auto simp: ram_opened_def ram_contents_def)
qed

lemma hook_rest_cover:
  assumes "0 < ss" and "0 < len"
  shows "sum_list (map (\<lambda>(s, o', l). l) (hook_rest ss sector len)) = len
    \<and> (\<forall>i < length (hook_rest ss sector len). case hook_rest ss sector len ! i of
         (s, o', l) \<Rightarrow> s = sector + int i \<and> o' = 0 \<and> 0 < l \<and> l \<le> ss)"
  using assms
proof (induction ss sector len rule: hook_rest.induct)
  case (1 ss sector len)
  show ?case
  proof (cases "ss < len")
    case True
    with 1 show ?thesis
      by (simp add: hook_rest.simps [of ss sector len] All_less_Suc2 case_prod_unfold algebra_simps)
  next
    case False
    with 1(2,3) show ?thesis by (simp add: hook_rest.simps [of ss sector len])
  qed
qed

text \<open>
  The calls of the sector hook for one piece of a read account for exactly its bytes: the
  first call starts at the sector and offset of the piece, the others are for the following sectors
  in order, each inside its sector, and the lengths add up to the piece.
\<close>

theorem hook_calls_cover:
  assumes "0 < ss" and "0 \<le> off" and "off < ss" and "0 < sz"
  shows "sum_list (map (\<lambda>(s, o', l). l) (hook_calls ss sector off sz)) = sz
    \<and> (\<forall>i < length (hook_calls ss sector off sz). case hook_calls ss sector off sz ! i of
         (s, o', l) \<Rightarrow> s = sector + int i \<and> o' = (if i = 0 then off else 0) \<and> 0 < l \<and> o' + l \<le> ss)"
proof (cases "ss - off < sz")
  case True
  then show ?thesis
    using hook_rest_cover [OF assms(1), of "sz - (ss - off)" "sector + 1"] assms(1-3)
    by (simp add: hook_calls_def All_less_Suc2 case_prod_unfold algebra_simps)
next
  case False
  then show ?thesis using assms by (auto simp: hook_calls_def)
qed

lemma hook_calls_cover_witness:
  "sum_list (map (\<lambda>(s, o', l). l) (hook_calls 512 7 100 2000)) = 2000"
  using hook_calls_cover [of 512 100 2000 7] by simp

end
