(* ===== verification/Partition.thy ===== *)
theory Partition
  imports DiskIo
begin

text \<open>
  Partitions and device names, \<^verbatim>\<open>stage2/disk_io.c\<close>: walking the partition tables of a disk,
  opening a partition, the active and hidden flags, and the parser of device names such as
  \<open>(hd0,1)\<close>. The build is a stage 2 without network support.

  Drive and partition numbers are 32-bit words as in the code: a partition is
  \<open>slice << 16 | bsd << 8 | 0xFF\<close> with 0xFF for a part that is absent. \<open>None\<close> is an access
  outside a buffer or a loop that does not end.
\<close>

section \<open>State\<close>

definition NETWORK_DRIVE :: u32 where "NETWORK_DRIVE = 0x20"

definition GRUB_INVALID_DRIVE :: u32 where "GRUB_INVALID_DRIVE = 0xFF"

datatype part_choice = PART_UNSPECIFIED | PART_DISK | PART_CHOSEN

record 'w dev_state =
  disk :: "'w disk_state"
  current_drive :: u32
  current_partition :: u32
  saved_drive :: u32
  saved_partition :: u32
  cdrom_drive :: u32
  current_slice :: u32
  part_start :: u32
  part_length :: u32
  bsd_evil_hack :: u32
  cur_part_offset :: u32
  cur_part_entry :: "nat option"
  boot_part_entry :: "nat option"
  boot_part_table :: "u8 list"
  fsys_type :: nat
  incomplete :: bool
  disk_choice :: bool
  part_choice_of :: part_choice
  fsys_buf :: "nat \<Rightarrow> u8"
  completions :: "u8 list list"

type_synonym 'w mount_fun = "'w dev_state \<Rightarrow> (bool \<times> 'w dev_state) option"

abbreviation err_of :: "'w dev_state \<Rightarrow> grub_error_t" where
  "err_of s \<equiv> errnum (disk s)"

definition set_err :: "grub_error_t \<Rightarrow> 'w dev_state \<Rightarrow> 'w dev_state" where
  "set_err e s = s\<lparr>disk := (disk s)\<lparr>errnum := e\<rparr>\<rparr>"

text \<open>The variables that \<open>next_partition\<close> works on through its pointer arguments.\<close>

record part_iter =
  it_partition :: u32
  it_type :: u32
  it_start :: u32
  it_len :: u32
  it_offset :: u32
  it_entry :: int
  it_ext_offset :: u32
  it_buf :: "u8 list"

section \<open>Tables\<close>

definition le32 :: "u8 list \<Rightarrow> nat \<Rightarrow> u32" where
  "le32 bs i = ucast (bs ! i) OR push_bit 8 (ucast (bs ! (i + 1)))
     OR push_bit 16 (ucast (bs ! (i + 2))) OR push_bit 24 (ucast (bs ! (i + 3)))"

definition le16 :: "u8 list \<Rightarrow> nat \<Rightarrow> u32" where
  "le16 bs i = ucast (bs ! i) OR push_bit 8 (ucast (bs ! (i + 1)))"

definition PC_MBR_CHECK_SIG :: "u8 list \<Rightarrow> bool" where
  "PC_MBR_CHECK_SIG mbr \<longleftrightarrow> le16 mbr 510 = 0xaa55"

definition PC_SLICE_START :: "u8 list \<Rightarrow> nat \<Rightarrow> u32" where
  "PC_SLICE_START mbr part = le32 mbr (446 + 8 + 16 * part)"

definition PC_SLICE_LENGTH :: "u8 list \<Rightarrow> nat \<Rightarrow> u32" where
  "PC_SLICE_LENGTH mbr part = le32 mbr (446 + 12 + 16 * part)"

definition PC_SLICE_FLAG :: "u8 list \<Rightarrow> nat \<Rightarrow> u8" where
  "PC_SLICE_FLAG mbr part = mbr ! (446 + 16 * part)"

definition IS_PC_SLICE_TYPE_EXTENDED :: "u32 \<Rightarrow> bool" where
  "IS_PC_SLICE_TYPE_EXTENDED t \<longleftrightarrow> t = 5 \<or> t = 0xf \<or> t = 0x85"

definition IS_PC_SLICE_TYPE_BSD :: "u32 \<Rightarrow> bool" where
  "IS_PC_SLICE_TYPE_BSD t \<longleftrightarrow> t = 0xa5 \<or> t = 0xa6 \<or> t = 0xa9"

definition BSD_LABEL_CHECK_MAG :: "u8 list \<Rightarrow> bool" where
  "BSD_LABEL_CHECK_MAG l \<longleftrightarrow> le32 l 0 = 0x82564557"

definition BSD_LABEL_DTYPE :: "u8 list \<Rightarrow> u32" where
  "BSD_LABEL_DTYPE l = le16 l 4"

definition BSD_LABEL_NPARTS :: "u8 list \<Rightarrow> u32" where
  "BSD_LABEL_NPARTS l = le16 l 138"

definition BSD_PART_LENGTH :: "u8 list \<Rightarrow> nat \<Rightarrow> u32" where
  "BSD_PART_LENGTH l part = le32 l (148 + 16 * part)"

definition BSD_PART_START :: "u8 list \<Rightarrow> nat \<Rightarrow> u32" where
  "BSD_PART_START l part = le32 l (148 + 4 + 16 * part)"

definition BSD_PART_TYPE :: "u8 list \<Rightarrow> nat \<Rightarrow> u8" where
  "BSD_PART_TYPE l part = l ! (148 + 12 + 16 * part)"

text \<open>
  A sector read into a buffer of 512 bytes on the stack, which \<open>memcheck\<close> accepts. A read that
  fails may have stored a part of the sector.
\<close>

definition read_sector :: "'w int13 \<Rightarrow> u32 \<Rightarrow> u32 \<Rightarrow> u8 list \<Rightarrow> 'w disk_state
    \<Rightarrow> (bool \<times> u8 list \<times> 'w disk_state) option" where
  "read_sector b drive sector buf st =
     map_option (\<lambda>(ok, out, st'). (ok, overlay buf 0 out, st'))
       (rawread b (\<lambda>_ _. True) (sint drive) (sint sector) 0 SECTOR_SIZE st)"

section \<open>Walking the tables\<close>

text \<open>
  The loop over the entries of a BSD label, from entry \<open>i\<close> on, with \<open>n\<close> entries to go. The label
  says how many entries it has; entries behind the buffer are out of bounds.
\<close>

primrec bsd_search :: "u8 list \<Rightarrow> nat \<Rightarrow> nat \<Rightarrow> nat option option" where
  "bsd_search buf 0 i = Some None"
| "bsd_search buf (Suc n) i =
     (if length buf < 148 + 16 * i + 16 then None
      else if BSD_PART_TYPE buf i \<noteq> 0 then Some (Some i) else bsd_search buf n (Suc i))"

definition bsd_partition_found :: "u32 \<Rightarrow> nat \<Rightarrow> part_iter \<Rightarrow> u32 \<Rightarrow> part_iter \<times> u32" where
  "bsd_partition_found drive i it hack =
     (let buf = it_buf it
      in (it\<lparr>it_type := push_bit 8 (ucast (BSD_PART_TYPE buf i)) OR (it_type it AND 0xFF),
             it_start := BSD_PART_START buf i, it_len := BSD_PART_LENGTH buf i,
             it_partition := (it_partition it AND 0xFF00FF) OR push_bit 8 (of_nat i)\<rparr>,
          if drive AND 0x80 \<noteq> 0 \<and> BSD_LABEL_DTYPE buf = 4 then 4 else hack))"

definition next_bsd_partition :: "'w int13 \<Rightarrow> u32 \<Rightarrow> part_iter \<Rightarrow> u32 \<Rightarrow> 'w disk_state
    \<Rightarrow> (bool \<times> part_iter \<times> u32 \<times> 'w disk_state) option" where
  "next_bsd_partition b drive it hack st =
     (let bsd_part_no = unat (drop_bit 8 (it_partition it AND 0xFF00));
          search = (\<lambda>i it st. do {
            found \<leftarrow> bsd_search (it_buf it) (unat (BSD_LABEL_NPARTS (it_buf it)) - i) i;
            case found of
              Some i \<Rightarrow> (let (it', hack') = bsd_partition_found drive i it hack in Some (True, it', hack', st))
            | None \<Rightarrow> Some (False, it, hack, st\<lparr>errnum := ERR_NO_PART\<rparr>) })
      in if bsd_part_no = 0xFF
         then if it_len it < 2 then Some (False, it, hack, st\<lparr>errnum := ERR_BAD_PART_TABLE\<rparr>)
              else do {
                (ok, buf, st1) \<leftarrow> read_sector b drive (it_start it + 1) (it_buf it) st;
                let it1 = it\<lparr>it_buf := buf\<rparr>;
                if \<not> ok then Some (False, it1, hack, st1)
                else if \<not> BSD_LABEL_CHECK_MAG buf
                then Some (False, it1, hack, st1\<lparr>errnum := ERR_BAD_PART_TABLE\<rparr>)
                else search 0 it1 st1 }
         else search (bsd_part_no + 1) it st)"

text \<open>The first extended partition of a table.\<close>

definition first_extended :: "u8 list \<Rightarrow> nat option" where
  "first_extended buf = find (\<lambda>i. IS_PC_SLICE_TYPE_EXTENDED (ucast (PC_SLICE_TYPE buf i))) [0..<4]"

text \<open>The new partition number and values for the entry \<open>it_entry\<close> of the table.\<close>

definition pc_slice_values :: "int \<Rightarrow> part_iter \<Rightarrow> part_iter" where
  "pc_slice_values pc_slice_no it =
     (let e = nat (it_entry it);
          t = ucast (PC_SLICE_TYPE (it_buf it) e);
          no = (if pc_slice_no < 4 \<or> \<not> IS_PC_SLICE_TYPE_EXTENDED t \<and> t \<noteq> 0 then pc_slice_no + 1 else pc_slice_no)
      in it\<lparr>it_type := t, it_start := it_offset it + PC_SLICE_START (it_buf it) e,
            it_len := PC_SLICE_LENGTH (it_buf it) e,
            it_partition := push_bit 16 (of_int no) OR 0xFFFF\<rparr>)"

text \<open>
  \<open>next_pc_slice\<close> restarts itself in the next table of the chain; the restart is at entry 0 and
  so does not restart again.
\<close>

function next_pc_slice :: "'w int13 \<Rightarrow> u32 \<Rightarrow> part_iter \<Rightarrow> 'w disk_state
    \<Rightarrow> (bool \<times> part_iter \<times> 'w disk_state) option" where
  "next_pc_slice b drive it st =
     (let slice = unat (drop_bit 16 (it_partition it AND 0xFF0000));
          (pc_slice_no, it0) = (if slice = 0xFF
             then (-1, it\<lparr>it_offset := 0, it_ext_offset := 0, it_entry := -1\<rparr>) else (int slice, it))
      in case read_sector b drive (it_offset it0) (it_buf it0) st of
           None \<Rightarrow> None
         | Some (ok, buf, st1) \<Rightarrow>
             let it1 = it0\<lparr>it_buf := buf\<rparr>
             in if \<not> ok then Some (False, it1, st1)
                else if \<not> PC_MBR_CHECK_SIG buf then Some (False, it1, st1\<lparr>errnum := ERR_BAD_PART_TABLE\<rparr>)
                else
                  let it2 = it1\<lparr>it_entry := it_entry it1 + 1\<rparr>
                  in if it_entry it2 = 4
                     then case first_extended buf of
                            Some i \<Rightarrow>
                              let off = it_ext_offset it2 + PC_SLICE_START buf i
                              in next_pc_slice b drive
                                   (it2\<lparr>it_offset := off,
                                        it_ext_offset := (if it_ext_offset it2 = 0 then off else it_ext_offset it2),
                                        it_entry := -1\<rparr>) st1
                          | None \<Rightarrow> Some (False, it2, st1\<lparr>errnum := ERR_NO_PART\<rparr>)
                     else Some (True, pc_slice_values pc_slice_no it2, st1))"
  by pat_completeness auto
termination
  by (relation "measure (\<lambda>(b, drive, it, st). if it_entry it = 3 then 1 else 0)") (auto split: if_splits)

declare next_pc_slice.simps [simp del]

definition next_partition :: "'w int13 \<Rightarrow> u32 \<Rightarrow> u32 \<Rightarrow> u32 \<Rightarrow> part_iter \<Rightarrow> u32 \<Rightarrow> 'w disk_state
    \<Rightarrow> (bool \<times> part_iter \<times> u32 \<times> 'w disk_state) option" where
  "next_partition b cur_drive drive dest it hack st =
     (if cur_drive = NETWORK_DRIVE then Some (False, it, hack, st)
      else if it_partition it \<noteq> 0xFFFFFF \<and> IS_PC_SLICE_TYPE_BSD (it_type it AND 0xFF) \<or> drive AND 0x80 = 0
      then do {
        let it0 = (if it_type it = 0 then it\<lparr>it_type := 0xa5\<rparr> else it);
        (ok, it1, hack1, st1) \<leftarrow> next_bsd_partition b drive it0 hack st;
        if ok then Some (True, it1, hack1, st1)
        else if dest AND 0xFF00 \<noteq> 0xFF00
          \<and> (dest AND 0xFF0000 = 0xFF0000 \<or> dest AND 0xFF0000 = it_partition it1 AND 0xFF0000)
        then Some (False, it1, hack1, st1)
        else do { (ok2, it2, st2) \<leftarrow> next_pc_slice b drive it1 (st1\<lparr>errnum := ERR_NONE\<rparr>);
                  Some (ok2, it2, hack1, st2) } }
      else do { (ok2, it2, st2) \<leftarrow> next_pc_slice b drive it st; Some (ok2, it2, hack, st2) })"

section \<open>Opening a partition\<close>

definition sane_partition :: "'w dev_state \<Rightarrow> bool \<times> 'w dev_state" where
  "sane_partition s =
     (let p = current_partition s; d = current_drive s
      in if d = NETWORK_DRIVE then (True, s)
         else if p AND 0xFF000000 = 0 \<and> (d AND 0xFFFFFF7F < 8 \<or> d = cdrom_drive s) \<and> p AND 0xFF = 0xFF
           \<and> (p AND 0xFF00 = 0xFF00 \<or> p AND 0xFF00 < 0x800) \<and> (drop_bit 16 p = 0xFF \<or> d AND 0x80 \<noteq> 0)
         then (True, s) else (False, set_err ERR_DEV_VALUES s))"

text \<open>The partition that an iteration has reached becomes the current one.\<close>

definition iter_to_dev :: "part_iter \<Rightarrow> u32 \<Rightarrow> 'w disk_state \<Rightarrow> 'w dev_state \<Rightarrow> 'w dev_state" where
  "iter_to_dev it hack st s =
     s\<lparr>disk := st, bsd_evil_hack := hack, current_partition := it_partition it, current_slice := it_type it,
       part_start := it_start it, part_length := it_len it\<rparr>"

partial_function (option) open_loop :: "'w int13 \<Rightarrow> u32 \<Rightarrow> part_iter \<Rightarrow> 'w dev_state \<Rightarrow> (bool \<times> 'w dev_state) option" where
  "open_loop b dest it s =
     Option.bind (next_partition b (current_drive s) (current_drive s) dest it (bsd_evil_hack s) (disk s))
       (\<lambda>(ok, it', hack', st').
          let s1 = iter_to_dev it' hack' st' s
          in if \<not> ok then Some (False, s1)
             else
               let s2 = s1\<lparr>cur_part_offset := it_offset it', cur_part_entry := Some (nat (it_entry it'))\<rparr>
               in if current_slice s2 \<noteq> 0
                  then let s3 = set_err ERR_NONE s2
                       in if dest = current_partition s3
                            \<or> drop_bit 16 dest = 0xFF \<and> drop_bit 8 dest AND 0xFF = drop_bit 8 (current_partition s3) AND 0xFF
                          then Some (True, s3) else open_loop b dest it' s3
                  else open_loop b dest it' s2)"

text \<open>
  \<open>open_partition\<close>, which is \<open>real_open_partition (0)\<close>. The local variables of the walk start
  with the values \<open>junk\<close>.
\<close>

definition open_partition :: "'w int13 \<Rightarrow> part_iter \<Rightarrow> 'w dev_state \<Rightarrow> (bool \<times> 'w dev_state) option" where
  "open_partition b junk s =
     (if current_drive s = NETWORK_DRIVE then Some (True, s)
      else
        let (sane, s0) = sane_partition s
        in if \<not> sane then Some (False, s0)
           else
             let dest = current_partition s0;
                 s1 = s0\<lparr>bsd_evil_hack := 0, current_slice := 0, part_start := 0\<rparr>;
                 (ok, st) = select_drive b (sint (current_drive s1)) (disk s1);
                 s2 = s1\<lparr>disk := st\<rparr>
             in if \<not> ok then Some (False, s2)
                else
                  let s3 = s2\<lparr>part_length := of_int (total_sectors (buf_geom st))\<rparr>
                  in if dest = 0xFFFFFF then Some (True, s3\<lparr>cur_part_offset := 0\<rparr>)
                     else open_loop b dest
                            (junk\<lparr>it_partition := 0xFFFFFF, it_type := 0, it_start := 0, it_len := part_length s3\<rparr>)
                            (s3\<lparr>current_partition := 0xFFFFFF\<rparr>))"

text \<open>The file systems are tried in the order of \<open>fsys_table\<close>, whose mount functions are an argument.\<close>

fun mount_loop :: "nat \<Rightarrow> 'w mount_fun list \<Rightarrow> 'w dev_state \<Rightarrow> 'w dev_state option" where
  "mount_loop i [] s = Some (s\<lparr>fsys_type := i\<rparr>)"
| "mount_loop i (m # ms) s =
     do { (ok, s') \<leftarrow> m (s\<lparr>fsys_type := i\<rparr>); if ok then Some s' else mount_loop (Suc i) ms s' }"

definition attempt_mount :: "'w mount_fun list \<Rightarrow> 'w dev_state \<Rightarrow> 'w dev_state option" where
  "attempt_mount fsys_table s =
     do { s' \<leftarrow> mount_loop 0 fsys_table s;
          Some (if fsys_type s' = length fsys_table \<and> err_of s' = ERR_NONE then set_err ERR_FSYS_MOUNT s' else s') }"

definition open_device :: "'w int13 \<Rightarrow> 'w mount_fun list \<Rightarrow> part_iter \<Rightarrow> 'w dev_state
    \<Rightarrow> (bool \<times> 'w dev_state) option" where
  "open_device b fsys_table junk s =
     do { (ok, s1) \<leftarrow> open_partition b junk s;
          s2 \<leftarrow> (if ok then attempt_mount fsys_table s1 else Some s1);
          Some (err_of s2 = ERR_NONE, s2) }"

section \<open>Partition flags\<close>

definition clear_flags :: "u8 list \<Rightarrow> u8 list" where
  "clear_flags mbr = fold (\<lambda>i m. m[446 + 16 * i := 0]) [0..<4] mbr"

definition make_saved_active :: "'w int13 \<Rightarrow> u8 list \<Rightarrow> 'w dev_state \<Rightarrow> (bool \<times> 'w dev_state) option" where
  "make_saved_active b junk s =
     (if saved_drive s AND 0x80 \<noteq> 0
      then
        let part = unat (drop_bit 16 (saved_partition s))
        in if part > 3 then Some (False, set_err ERR_DEV_VALUES s)
           else do {
             (ok, mbr, st) \<leftarrow> read_sector b (saved_drive s) 0 junk (disk s);
             let s1 = s\<lparr>disk := st\<rparr>;
             if \<not> ok then Some (False, s1)
             else if IS_PC_SLICE_TYPE_EXTENDED (ucast (PC_SLICE_TYPE mbr part)) then Some (False, set_err ERR_DEV_VALUES s1)
             else if PC_SLICE_FLAG mbr part \<noteq> 0x80
             then do {
               (ok', st') \<leftarrow> rawwrite b (sint (saved_drive s)) 0 ((clear_flags mbr)[446 + 16 * part := 0x80]) st;
               Some (ok', s1\<lparr>disk := st'\<rparr>) }
             else Some (True, s1) }
      else Some (False, set_err ERR_DEV_VALUES s))"

definition set_hidden :: "bool \<Rightarrow> nat \<Rightarrow> u8 list \<Rightarrow> u8 list" where
  "set_hidden hidden entry mbr =
     (let t = PC_SLICE_TYPE mbr entry
      in mbr[446 + 4 + 16 * entry := (if hidden then t OR 0x10 else t AND NOT 0x10)])"

partial_function (option) hidden_loop :: "'w int13 \<Rightarrow> bool \<Rightarrow> part_iter \<Rightarrow> 'w dev_state \<Rightarrow> (bool \<times> 'w dev_state) option" where
  "hidden_loop b hidden it s =
     Option.bind (next_partition b (current_drive s) (current_drive s) 0xFFFFFF it (bsd_evil_hack s) (disk s))
       (\<lambda>(ok, it', hack', st').
          let s1 = s\<lparr>disk := st', bsd_evil_hack := hack'\<rparr>
          in if \<not> ok then Some (False, s1)
             else if it_partition it' = current_partition s
             then Option.bind
                    (rawwrite b (sint (current_drive s)) (sint (it_offset it'))
                       (set_hidden hidden (nat (it_entry it')) (it_buf it')) (st'\<lparr>buf_track := -1\<rparr>))
                    (\<lambda>(ok', st''). Some (ok', s1\<lparr>disk := st''\<rparr>))
             else hidden_loop b hidden it' s1)"

text \<open>The result is true for success, where the C function returns 0.\<close>

definition set_partition_hidden_flag :: "'w int13 \<Rightarrow> part_iter \<Rightarrow> bool \<Rightarrow> 'w dev_state \<Rightarrow> (bool \<times> 'w dev_state) option" where
  "set_partition_hidden_flag b junk hidden s =
     (if current_drive s AND 0x80 = 0 then Some (False, set_err ERR_BAD_ARGUMENT s)
      else if drop_bit 16 (current_partition s) = 0xFF \<or> current_partition s AND 0xFFFF \<noteq> 0xFFFF
      then Some (False, set_err ERR_BAD_ARGUMENT s)
      else hidden_loop b hidden (junk\<lparr>it_partition := 0xFFFFFF\<rparr>) s)"

section \<open>Device names\<close>

text \<open>A number in a device name; on an error the pointer and the variable keep their values.\<close>

definition parse_number :: "u8 list \<Rightarrow> u32 \<Rightarrow> 'w dev_state \<Rightarrow> (bool \<times> u8 list \<times> u32 \<times> 'w dev_state) option" where
  "parse_number ptr old s =
     map_option (\<lambda>r. case r of Inl e \<Rightarrow> (False, ptr, old, set_err e s) | Inr (ptr', v) \<Rightarrow> (True, ptr', v, s))
       (safe_parse_maxint ptr)"

text \<open>
  The drive of a device name. \<open>Inl\<close> is an early return with the completed text and the rest, for
  a name that stops after the drive letters; \<open>Inr\<close> is the rest and the new state.
\<close>

definition set_drive :: "u8 list \<Rightarrow> 'w dev_state \<Rightarrow> ((u8 list \<times> u8 list) + u8 list \<times> 'w dev_state) option" where
  "set_drive device s =
     do { ch \<leftarrow> rd device 0;
          let known = (ch = 0x66 \<or> ch = 0x68 \<or> ch = 0x63 \<and> cdrom_drive s \<noteq> GRUB_INVALID_DRIVE);
          c1 \<leftarrow> (if known then rd device 1 else Some 0);
          c2 \<leftarrow> (if known \<and> c1 = 0x64 then rd device 2 else Some 1);
          if known \<and> c1 = 0 then Some (Inl (take 1 device @ [0x64, 0], [0]))
          else if known \<and> c1 = 0x64 \<and> c2 = 0 then Some (Inl (device, drop 2 device))
          else do {
            let (ptr, s1) = (if known then (drop 2 device, if c1 \<noteq> 0x64 then set_err ERR_NUMBER_PARSING s else s)
                             else (device, s));
            if ch = 0x63 \<and> cdrom_drive s \<noteq> GRUB_INVALID_DRIVE
            then Some (Inr (ptr, s1\<lparr>current_drive := cdrom_drive s\<rparr>))
            else do {
              (ok, ptr', v, s2) \<leftarrow> parse_number ptr (current_drive s1) s1;
              Some (Inr (ptr', s2\<lparr>disk_choice := False, current_drive := (if ch = 0x68 then v + 0x80 else v)\<rparr>)) } } }"

text \<open>The partition of a device name, after the comma; the result is the error return or the rest.\<close>

definition set_part :: "u8 list \<Rightarrow> 'w dev_state \<Rightarrow> (u8 list option \<times> 'w dev_state) option" where
  "set_part device s =
     do { c \<leftarrow> rd device 0;
          if 0x30 \<le> c \<and> c \<le> 0x39
          then do {
            let s1 = s\<lparr>part_choice_of := PART_CHOSEN, current_partition := 0\<rparr>;
            (ok, ptr, v, s2) \<leftarrow> (if current_drive s AND 0x80 = 0 then Some (False, device, 0, s1)
                                else parse_number device 0 s1);
            if \<not> ok \<or> 254 < v then Some (None, set_err ERR_DEV_FORMAT (s2\<lparr>current_partition := v\<rparr>))
            else do {
              let p = push_bit 16 v + 0xFFFF;
              c2 \<leftarrow> rd ptr 0;
              let ptr2 = (if c2 = 0x2c then drop 1 ptr else ptr);
              c3 \<leftarrow> rd ptr2 0;
              if 0x61 \<le> c3 \<and> c3 \<le> 0x68
              then Some (Some (drop 1 ptr2), s2\<lparr>current_partition := push_bit 8 (ucast (c3 - 0x61)) OR (p AND 0xFF00FF)\<rparr>)
              else Some (Some ptr2, s2\<lparr>current_partition := p\<rparr>) } }
          else if 0x61 \<le> c \<and> c \<le> 0x68
          then Some (Some (drop 1 device),
                 s\<lparr>part_choice_of := PART_CHOSEN, current_partition := push_bit 8 (ucast (c - 0x61)) OR 0xFF00FF\<rparr>)
          else Some (Some device, s) }"

text \<open>The end of \<open>set_device\<close>: a name that is complete must denote a possible device.\<close>

definition finish_device :: "u8 list \<Rightarrow> bool \<Rightarrow> u8 list \<Rightarrow> 'w dev_state \<Rightarrow> ((u8 list \<times> u8 list) option \<times> 'w dev_state) option" where
  "finish_device text done device s =
     (let (sane, s1) = sane_partition s
      in if \<not> sane then Some (None, s1)
         else if done then Some (Some (text, drop 1 device), s1)
         else do { c \<leftarrow> rd device 0;
                   Some (None, set_err ERR_DEV_FORMAT (if c = 0 then s1\<lparr>incomplete := True\<rparr> else s1)) })"

text \<open>
  \<open>set_device\<close> on the text from \<open>device\<close> on: the null pointer or the text, which the function may
  complete, with the rest that the returned pointer points to.
\<close>

definition set_device :: "u8 list \<Rightarrow> 'w dev_state \<Rightarrow> ((u8 list \<times> u8 list) option \<times> 'w dev_state) option" where
  "set_device device s =
     (let s0 = s\<lparr>incomplete := False, disk_choice := True, part_choice_of := PART_UNSPECIFIED,
                 current_drive := saved_drive s, current_partition := 0xFFFFFF\<rparr>
      in do {
        c0 \<leftarrow> rd device 0;
        if c0 \<noteq> 0x28 then finish_device device False device s0
        else do {
          c1 \<leftarrow> rd device 1;
          let d1 = drop 1 device;
          if c1 = 0 then Some (Some (device, d1), s0)
          else do {
            r \<leftarrow> (if c1 \<noteq> 0x2c \<and> c1 \<noteq> 0x29 then set_drive d1 s0 else Some (Inr (d1, s0)));
            case r of
              Inl (text, ptr) \<Rightarrow> Some (Some (take 1 device @ text, ptr), s0)
            | Inr (ptr, s1) \<Rightarrow>
                if err_of s1 \<noteq> ERR_NONE then Some (None, s1)
                else do {
                  c \<leftarrow> rd ptr 0;
                  if c = 0x29 then finish_device device True ptr (s1\<lparr>part_choice_of := PART_CHOSEN\<rparr>)
                  else if c = 0x2c
                  then do {
                    (p, s2) \<leftarrow> set_part (drop 1 ptr) (s1\<lparr>disk_choice := False, part_choice_of := PART_DISK\<rparr>);
                    case p of
                      None \<Rightarrow> Some (None, s2)
                    | Some ptr2 \<Rightarrow> do {
                        c2 \<leftarrow> rd ptr2 0;
                        if c2 = 0x29
                        then finish_device device True ptr2
                               (if part_choice_of s2 = PART_DISK
                                then s2\<lparr>current_partition := saved_partition s2, part_choice_of := PART_CHOSEN\<rparr> else s2)
                        else finish_device device False ptr2 s2 } }
                  else finish_device device False ptr s1 } } } })"

definition MAKEBOOTDEV :: "u32 \<Rightarrow> u32 \<Rightarrow> u32 \<Rightarrow> u32 \<Rightarrow> u32 \<Rightarrow> u32" where
  "MAKEBOOTDEV type adaptor controller unit part =
     type OR push_bit 24 adaptor OR push_bit 20 controller OR push_bit 16 unit OR push_bit 8 part OR 0xa0000000"

text \<open>
  \<open>set_bootdev\<close>: the partition table is copied for a chain-loaded boot sector and the booted entry
  marked; the result is the device number for BSD kernels. \<open>cur_part_addr\<close> is the entry it points
  to, or null.
\<close>

definition set_bootdev :: "'w int13 \<Rightarrow> u32 \<Rightarrow> 'w dev_state \<Rightarrow> (u32 \<times> 'w dev_state) option" where
  "set_bootdev b hdbias s =
     do { (ok, s1) \<leftarrow>
            (case cur_part_entry s of
               Some e \<Rightarrow>
                 if saved_drive s AND 0x80 \<noteq> 0
                 then map_option (\<lambda>(ok, sector, st).
                        let s' = s\<lparr>disk := st\<lparr>scratch := sector\<rparr>\<rparr>
                        in if \<not> ok then (False, s')
                           else (True, s'\<lparr>boot_part_table :=
                                   (fold (\<lambda>i m. m[16 * i := 0]) [0..<4] (take 64 (drop 446 sector)))[16 * e := 0x80],
                                   boot_part_entry := Some e\<rparr>))
                      (read_sector b (saved_drive s) (cur_part_offset s) (scratch (disk s)) (disk s))
                 else Some (True, s)
             | None \<Rightarrow> Some (True, s));
          if \<not> ok then Some (0, s1)
          else
            let p = saved_partition s1;
                i = (if p = 0xFFFFFF then 1 else if drop_bit 16 p = 0xFF then 0 else drop_bit 16 p + 2);
                j = (if saved_drive s1 AND 0x80 \<noteq> 0 then bsd_evil_hack s1 else 2)
            in Some (MAKEBOOTDEV j (drop_bit 4 i) (i AND 0xF) ((saved_drive s1 - hdbias) AND 0x7F) (drop_bit 8 p AND 0xFF), s1) }"

text \<open>\<open>setup_part\<close>: the device of a file name is opened, its file system mounted if a path follows.\<close>

definition setup_part :: "'w int13 \<Rightarrow> 'w mount_fun list \<Rightarrow> part_iter \<Rightarrow> u8 list \<Rightarrow> 'w dev_state
    \<Rightarrow> (u8 list option \<times> 'w dev_state) option" where
  "setup_part b fsys_table junk filename s =
     do { c0 \<leftarrow> rd filename 0;
          let open_it = (\<lambda>f s. do { c \<leftarrow> rd f 0;
            if c \<noteq> 0x2f then open_partition b junk s else open_device b fsys_table junk s });
          (dev, s1) \<leftarrow>
            (if c0 = 0x28
             then do { (r, s') \<leftarrow> set_device filename s;
                       case r of
                         None \<Rightarrow> Some (None, s'\<lparr>current_drive := GRUB_INVALID_DRIVE\<rparr>)
                       | Some (text, f) \<Rightarrow> do { (ok, s'') \<leftarrow> open_it f s'; Some (Some f, s'') } }
             else if saved_drive s \<noteq> current_drive s \<or> saved_partition s \<noteq> current_partition s
               \<or> c0 = 0x2f \<and> fsys_type s = length fsys_table \<or> buf_drive (disk s) = -1
             then do { (ok, s'') \<leftarrow> open_it filename
                         (s\<lparr>current_drive := saved_drive s, current_partition := saved_partition s\<rparr>);
                       Some (Some filename, s'') }
             else Some (Some filename, s));
          case dev of
            None \<Rightarrow> Some (None, s1)
          | Some f \<Rightarrow> do {
              c \<leftarrow> rd f 0;
              if err_of s1 \<noteq> ERR_NONE \<and> (c = 0x2f \<or> err_of s1 \<noteq> ERR_FSYS_MOUNT) then Some (None, s1)
              else let (sane, s2) = sane_partition (set_err ERR_NONE s1)
                   in Some (if sane then Some f else None, s2) } }"

section \<open>Partition numbers\<close>

lemma part_masks:
  "(0xFF :: u32) = mask 8" "(0xFF00 :: u32) = push_bit 8 (mask 8)" "(0xFF0000 :: u32) = push_bit 16 (mask 8)"
  "(0xFF000000 :: u32) = push_bit 24 (mask 8)" "(0xFFFF :: u32) = mask 16"
  by (simp_all add: mask_eq_exp_minus_1 push_bit_eq_mult)

definition pc_part :: "nat \<Rightarrow> u32" where
  "pc_part i = push_bit 16 (of_nat i) OR 0xFFFF"

lemma bit_of_nat_small: "i < 256 \<Longrightarrow> bit (of_nat i :: u32) n \<Longrightarrow> n < 8"
proof (rule ccontr)
  assume i: "i < 256" "bit (of_nat i :: u32) n" "\<not> n < 8"
  have "take_bit 8 (of_nat i :: u32) = of_nat (take_bit 8 i)" by (simp add: of_nat_take_bit)
  also have "take_bit 8 i = i" using i(1) by (simp add: take_bit_nat_eq_self)
  finally show False using i(2,3) by (metis bit_take_bit_iff)
qed

lemma pc_part_fields:
  assumes "i < 256"
  shows "pc_part i AND 0xFF000000 = 0" "pc_part i AND 0xFF = 0xFF" "pc_part i AND 0xFF00 = 0xFF00"
    "pc_part i AND 0xFFFF = 0xFFFF" "drop_bit 16 (pc_part i) = of_nat i"
    "drop_bit 16 (pc_part i AND 0xFF0000) = of_nat i" "drop_bit 8 (pc_part i AND 0xFF00) = 0xFF"
  unfolding pc_part_def part_masks
  by (rule bit_eqI; use bit_of_nat_small [OF assms] in \<open>fastforce simp: bit_simps\<close>)+

lemma pc_part_inject: "i < 256 \<Longrightarrow> j < 256 \<Longrightarrow> pc_part i = pc_part j \<longleftrightarrow> i = j"
  using pc_part_fields(5) [of i] pc_part_fields(5) [of j] unat_of_nat_below32 [of i] unat_of_nat_below32 [of j] by force

section \<open>Walking the primary partitions\<close>

text \<open>
  What the partition code relies on: sectors of the drive can be read again and again, and the
  drive stays selected.
\<close>

locale sector_reader =
  fixes b :: "'w int13" and drive :: u32 and good :: "'w disk_state \<Rightarrow> bool" and sec :: "u32 \<Rightarrow> u8 list"
    and on_disk :: "u32 \<Rightarrow> bool"
  assumes read: "good st \<Longrightarrow> on_disk n \<Longrightarrow> length buf = 512
      \<Longrightarrow> \<exists>st'. read_sector b drive n buf st = Some (True, sec n, st') \<and> good st'"
    and no_error: "good st \<Longrightarrow> errnum st = ERR_NONE"
    and sec_length: "good st \<Longrightarrow> on_disk n \<Longrightarrow> length (sec n) = 512"
    and selected: "good st \<Longrightarrow> select_drive b (sint drive) st = (True, st)"

text \<open>The values of the walk at entry \<open>i\<close> of the master boot record \<open>mbr\<close>.\<close>

definition primary_iter :: "u8 list \<Rightarrow> nat \<Rightarrow> part_iter" where
  "primary_iter mbr i = \<lparr>it_partition = pc_part i, it_type = ucast (PC_SLICE_TYPE mbr i), it_start = PC_SLICE_START mbr i,
     it_len = PC_SLICE_LENGTH mbr i, it_offset = 0, it_entry = int i, it_ext_offset = 0, it_buf = mbr\<rparr>"

lemma primary_iter_simps [simp]:
  "it_partition (primary_iter mbr i) = pc_part i" "it_type (primary_iter mbr i) = ucast (PC_SLICE_TYPE mbr i)"
  "it_start (primary_iter mbr i) = PC_SLICE_START mbr i" "it_len (primary_iter mbr i) = PC_SLICE_LENGTH mbr i"
  "it_offset (primary_iter mbr i) = 0" "it_entry (primary_iter mbr i) = int i" "it_ext_offset (primary_iter mbr i) = 0"
  "it_buf (primary_iter mbr i) = mbr"
  by (simp_all add: primary_iter_def)

definition walk_iter :: "part_iter \<Rightarrow> u8 list \<Rightarrow> nat \<Rightarrow> part_iter" where
  "walk_iter it0 mbr k = (case k of 0 \<Rightarrow> it0 | Suc i \<Rightarrow> primary_iter mbr i)"

text \<open>A master boot record whose entries are neither extended nor BSD partitions.\<close>

definition plain_mbr :: "u8 list \<Rightarrow> bool" where
  "plain_mbr mbr \<longleftrightarrow> PC_MBR_CHECK_SIG mbr
     \<and> (\<forall>i<4. \<not> IS_PC_SLICE_TYPE_EXTENDED (ucast (PC_SLICE_TYPE mbr i)) \<and> \<not> IS_PC_SLICE_TYPE_BSD (ucast (PC_SLICE_TYPE mbr i)))"

lemma ucast_and_FF: "ucast (x :: u8) AND (0xFF :: u32) = ucast x"
  by (rule bit_eqI) (auto simp: bit_simps part_masks dest: bit_imp_le_length)

lemma ucast_u8_eq_0: "ucast (x :: u8) = (0 :: u32) \<longleftrightarrow> x = 0"
  using uint_up_ucast [where 'a = 8 and 'b = 32, of x] by (auto simp: is_up uint_0_iff)

lemma first_extended_plain: "plain_mbr mbr \<Longrightarrow> first_extended mbr = None"
  by (auto simp: first_extended_def plain_mbr_def find_None_iff)

context sector_reader
begin

lemma next_primary:
  assumes "good st" and "on_disk 0" and "plain_mbr (sec 0)" and "k < 4"
    and "it_partition it0 = 0xFFFFFF" and "length (it_buf it0) = 512"
  shows "\<exists>st'. next_pc_slice b drive (walk_iter it0 (sec 0) k) st = Some (True, primary_iter (sec 0) k, st') \<and> good st'"
proof -
  obtain st' where rd: "read_sector b drive 0 (it_buf (walk_iter it0 (sec 0) k)) st = Some (True, sec 0, st')" "good st'"
    using read [OF assms(1,2), of "it_buf (walk_iter it0 (sec 0) k)"] assms(6) sec_length [OF assms(1,2)]
    by (cases k) (auto simp: walk_iter_def)
  have sig: "PC_MBR_CHECK_SIG (sec 0)" using assms(3) by (simp add: plain_mbr_def)
  show ?thesis
  proof (cases k)
    case 0
    with rd sig assms(5) show ?thesis
      by (simp add: next_pc_slice.simps [of b drive it0] walk_iter_def pc_slice_values_def primary_iter_def pc_part_def Let_def)
  next
    case (Suc i)
    then have i: "unat (of_nat i :: u32) = i" "i < 256" using assms(4) unat_of_nat_below32 [of i] by auto
    have "unat (drop_bit 16 (pc_part i AND 0xFF0000)) = i" using pc_part_fields(6) [OF i(2)] i(1) by simp
    moreover have "nat (int i + 1) = Suc i" by linarith
    ultimately show ?thesis
      using Suc rd sig assms(4)
      by (subst next_pc_slice.simps) (simp add: walk_iter_def pc_slice_values_def Let_def,
          simp add: primary_iter_def pc_part_def [of "Suc i"] add.commute)
  qed
qed

lemma next_after_primary:
  assumes "good st" and "on_disk 0" and "plain_mbr (sec 0)"
  shows "\<exists>it' st'. next_pc_slice b drive (primary_iter (sec 0) 3) st = Some (False, it', st'\<lparr>errnum := ERR_NO_PART\<rparr>)"
proof -
  obtain st' where rd: "read_sector b drive 0 (sec 0) st = Some (True, sec 0, st')"
    using read [OF assms(1,2) sec_length [OF assms(1,2)]] by blast
  have "unat (drop_bit 16 (pc_part 3 AND 0xFF0000)) = 3" using pc_part_fields(6) [of 3] by simp
  with rd assms(3) first_extended_plain [OF assms(3)] show ?thesis
    by (subst next_pc_slice.simps) (auto simp: plain_mbr_def Let_def intro: exI [of _ st'])
qed

lemma next_partition_primary:
  assumes "plain_mbr (sec 0)" and "k \<le> 4" and "drive AND 0x80 \<noteq> 0" and "it_partition it0 = 0xFFFFFF"
  shows "next_partition b drive drive dest (walk_iter it0 (sec 0) k) hack st
    = map_option (\<lambda>(ok, it, st'). (ok, it, hack, st')) (next_pc_slice b drive (walk_iter it0 (sec 0) k) st)"
proof -
  have "drive \<noteq> NETWORK_DRIVE" using assms(3) by (auto simp: NETWORK_DRIVE_def)
  moreover have "\<not> IS_PC_SLICE_TYPE_BSD (it_type (walk_iter it0 (sec 0) k) AND 0xFF) \<or> it_partition (walk_iter it0 (sec 0) k) = 0xFFFFFF"
    using assms(1,2,4) by (auto simp: walk_iter_def primary_iter_def plain_mbr_def ucast_and_FF split: nat.splits)
  ultimately show ?thesis
    using assms(3) by (cases "next_pc_slice b drive (walk_iter it0 (sec 0) k) st") (auto simp: next_partition_def)
qed

end

context sector_reader
begin

lemma open_loop_step:
  assumes "plain_mbr (sec 0)" and "k \<le> 4" and "drive AND 0x80 \<noteq> 0" and "it_partition it0 = 0xFFFFFF"
    and "current_drive s = drive" and "i < 4"
  shows "open_loop b (pc_part i) (walk_iter it0 (sec 0) k) s
    = Option.bind (next_pc_slice b drive (walk_iter it0 (sec 0) k) (disk s))
        (\<lambda>(ok, it, st).
           let s1 = iter_to_dev it (bsd_evil_hack s) st s;
               s2 = s1\<lparr>cur_part_offset := it_offset it, cur_part_entry := Some (nat (it_entry it))\<rparr>
           in if \<not> ok then Some (False, s1)
              else if it_type it = 0 then open_loop b (pc_part i) it s2
              else if pc_part i = it_partition it then Some (True, set_err ERR_NONE s2)
              else open_loop b (pc_part i) it (set_err ERR_NONE s2))"
proof -
  have "drop_bit 16 (pc_part i) \<noteq> 0xFF"
    using pc_part_fields(5) [of i] assms(6) unat_of_nat_below32 [of i] by fastforce
  then show ?thesis
    by (subst open_loop.simps, cases "next_pc_slice b drive (walk_iter it0 (sec 0) k) (disk s)")
      (auto simp: next_partition_primary [OF assms(1-4)] assms(5) iter_to_dev_def set_err_def Let_def)
qed

text \<open>The walk from entry \<open>k\<close> on finds the partition exactly if its entry is used.\<close>

lemma open_loop_primary:
  assumes "plain_mbr (sec 0)" and "on_disk 0" and "drive AND 0x80 \<noteq> 0" and "it_partition it0 = 0xFFFFFF"
    and "length (it_buf it0) = 512" and "i < 4"
  shows "k \<le> 4 \<Longrightarrow> good (disk s) \<Longrightarrow> current_drive s = drive \<Longrightarrow> k \<le> i \<or> PC_SLICE_TYPE (sec 0) i = 0
    \<Longrightarrow> \<exists>s'. open_loop b (pc_part i) (walk_iter it0 (sec 0) k) s = Some (PC_SLICE_TYPE (sec 0) i \<noteq> 0, s')
      \<and> (if PC_SLICE_TYPE (sec 0) i \<noteq> 0
         then good (disk s') \<and> current_partition s' = pc_part i \<and> current_slice s' = ucast (PC_SLICE_TYPE (sec 0) i)
           \<and> part_start s' = PC_SLICE_START (sec 0) i \<and> part_length s' = PC_SLICE_LENGTH (sec 0) i
           \<and> cur_part_offset s' = 0 \<and> cur_part_entry s' = Some i \<and> current_drive s' = drive
         else err_of s' = ERR_NO_PART)"
proof (induction "4 - k" arbitrary: k s)
  case 0
  then have k: "walk_iter it0 (sec 0) k = primary_iter (sec 0) 3" "k = 4" by (auto simp: walk_iter_def)
  obtain it' st' where n: "next_pc_slice b drive (primary_iter (sec 0) 3) (disk s) = Some (False, it', st'\<lparr>errnum := ERR_NO_PART\<rparr>)"
    using next_after_primary [OF "0.prems"(2) assms(2,1)] by blast
  show ?case
    using 0 k n assms(6) open_loop_step [OF assms(1) "0.prems"(1) assms(3,4) "0.prems"(3) assms(6)]
    by (auto simp: Let_def iter_to_dev_def)
next
  case (Suc m)
  then have k: "k < 4" by simp
  obtain st' where n: "next_pc_slice b drive (walk_iter it0 (sec 0) k) (disk s) = Some (True, primary_iter (sec 0) k, st')" "good st'"
    using next_primary [OF Suc.prems(2) assms(2,1) k assms(4,5)] by blast
  define s2 where "s2 = (iter_to_dev (primary_iter (sec 0) k) (bsd_evil_hack s) st' s)
      \<lparr>cur_part_offset := 0, cur_part_entry := Some k\<rparr>"
  have err: "st'\<lparr>errnum := ERR_NONE\<rparr> = st'" using no_error [OF n(2)] by (metis disk_state.surjective disk_state.update_convs(1))
  have s2: "good (disk s2)" "current_drive s2 = drive" "set_err ERR_NONE s2 = s2"
    using n(2) Suc.prems(3) err by (simp_all add: s2_def iter_to_dev_def set_err_def)
  have step: "open_loop b (pc_part i) (walk_iter it0 (sec 0) k) s
      = (if PC_SLICE_TYPE (sec 0) k \<noteq> 0 \<and> i = k then Some (True, s2)
         else open_loop b (pc_part i) (walk_iter it0 (sec 0) (Suc k)) s2)"
    using open_loop_step [OF assms(1) Suc.prems(1) assms(3,4) Suc.prems(3) assms(6)] n(1) s2(3)
      pc_part_inject [of i k] k assms(6)
    by (auto simp: Let_def s2_def [symmetric] walk_iter_def [of _ _ "Suc k"] ucast_u8_eq_0)
  show ?case
  proof (cases "PC_SLICE_TYPE (sec 0) k \<noteq> 0 \<and> i = k")
    case True
    with step s2 n(2) show ?thesis by (auto simp: s2_def iter_to_dev_def)
  next
    case False
    have "Suc k \<le> i \<or> PC_SLICE_TYPE (sec 0) i = 0" using False Suc.prems(4) k by (cases "k = i") auto
    moreover have "m = 4 - Suc k" "Suc k \<le> 4" using Suc.hyps(2) k by auto
    ultimately show ?thesis using Suc.hyps(1) [of "Suc k" s2] s2 step False by auto
  qed
qed

end

context sector_reader
begin

lemma open_partition_reader:
  assumes "plain_mbr (sec 0)" and "on_disk 0" and "drive AND 0x80 \<noteq> 0" and "drive AND 0xFFFFFF7F < 8"
    and "length (it_buf junk) = 512" and "i < 4" and "good (disk s)" and "current_drive s = drive" and "current_partition s = pc_part i"
  shows "\<exists>s'. open_partition b junk s = Some (PC_SLICE_TYPE (sec 0) i \<noteq> 0, s')
      \<and> (if PC_SLICE_TYPE (sec 0) i \<noteq> 0
         then good (disk s') \<and> current_partition s' = pc_part i \<and> current_slice s' = ucast (PC_SLICE_TYPE (sec 0) i)
           \<and> part_start s' = PC_SLICE_START (sec 0) i \<and> part_length s' = PC_SLICE_LENGTH (sec 0) i
           \<and> cur_part_offset s' = 0 \<and> cur_part_entry s' = Some i \<and> current_drive s' = drive
         else err_of s' = ERR_NO_PART)"
proof -
  have i: "i < 256" using assms(6) by simp
  have "drive \<noteq> NETWORK_DRIVE" using assms(3) by (auto simp: NETWORK_DRIVE_def)
  moreover have "pc_part i \<noteq> 0xFFFFFF"
    using pc_part_inject [of i 255] assms(6) by (simp add: pc_part_def [of 255])
  moreover have "sane_partition s = (True, s)"
    using assms(3,4,8,9) pc_part_fields [OF i] by (simp add: sane_partition_def Let_def)
  ultimately have "open_partition b junk s = open_loop b (pc_part i)
      (walk_iter (junk\<lparr>it_partition := 0xFFFFFF, it_type := 0, it_start := 0, it_len := of_int (total_sectors (buf_geom (disk s)))\<rparr>) (sec 0) 0)
      (s\<lparr>bsd_evil_hack := 0, current_slice := 0, part_start := 0,
         part_length := of_int (total_sectors (buf_geom (disk s))), current_partition := 0xFFFFFF\<rparr>)"
    using assms(8,9) selected [OF assms(7)] by (simp add: open_partition_def walk_iter_def Let_def)
  with open_loop_primary [OF assms(1-3) _ _ assms(6), of "junk\<lparr>it_partition := 0xFFFFFF, it_type := 0, it_start := 0,
        it_len := of_int (total_sectors (buf_geom (disk s)))\<rparr>" 0 "s\<lparr>bsd_evil_hack := 0, current_slice := 0, part_start := 0,
         part_length := of_int (total_sectors (buf_geom (disk s))), current_partition := 0xFFFFFF\<rparr>"] assms(5-8)
  show ?thesis by simp
qed

end

text \<open>The disk layer provides such a reader for a drive with sectors of 512 bytes.\<close>

definition ready :: "'w int13 \<Rightarrow> ('w \<Rightarrow> int \<Rightarrow> u8 list) \<Rightarrow> ('w \<Rightarrow> int \<Rightarrow> geometry \<Rightarrow> bool) \<Rightarrow> 'w \<Rightarrow> u32 \<Rightarrow> geometry \<Rightarrow> 'w disk_state \<Rightarrow> bool" where
  "ready b contents ok_geom w drive g st \<longleftrightarrow>
     good_drive b contents ok_geom w (sint drive) (total_sectors g) st \<and> buf_geom st = g \<and> sector_size g = 512"

definition disk_sector :: "u8 list \<Rightarrow> u32 \<Rightarrow> u8 list" where
  "disk_sector d n = slice d (uint n * 512) 512"

definition has_sector :: "geometry \<Rightarrow> u32 \<Rightarrow> bool" where
  "has_sector g n \<longleftrightarrow> uint n < total_sectors g \<and> uint n < 2 ^ 31"

lemma sint_u32_small: "uint (x :: u32) < 2 ^ 31 \<Longrightarrow> sint x = uint x"
proof -
  assume x: "uint x < 2 ^ 31"
  have "- (2 ^ 31) \<le> uint x" by (rule order_trans [OF _ uint_ge_0]) simp
  with x show ?thesis by (simp add: sint_uint signed_take_bit_int_eq_self)
qed

lemma overlay_whole: "length xs = length ys \<Longrightarrow> overlay xs 0 ys = ys"
  by (simp add: overlay_def)

context sector_device
begin

lemma ready_reader: "sector_reader b drive (ready b contents ok_geom w drive g) (disk_sector (contents w (sint drive))) (has_sector g)"
proof
  fix st n and buf :: "u8 list"
  assume r: "ready b contents ok_geom w drive g st"
  then have good: "good_drive b contents ok_geom w (sint drive) (total_sectors g) st" and g: "buf_geom st = g" "sector_size g = 512"
    by (auto simp: ready_def)
  show "errnum st = ERR_NONE" "select_drive b (sint drive) st = (True, st)"
    using good by (auto simp: good_drive_def select_drive_def)
  assume n: "has_sector g n"
  then have bound: "0 \<le> uint n" "uint n + 1 \<le> total_sectors (buf_geom st)" using g by (auto simp: has_sector_def)
  show len: "length (disk_sector (contents w (sint drive)) n) = 512"
  proof -
    obtain data where "biosdisk_read b (world st) (sint drive) (buf_geom st) (uint n) 1 = Some (Inr data, buf_geom st)"
      using good bound g unfolding good_drive_def readable_def by (metis zero_less_one)
    moreover have "ok_geom (world st) (sint drive) (buf_geom st)"
      using good by (auto simp: good_drive_def disk_inv_def disk_wf_def)
    ultimately show ?thesis
      using read_sound [of "world st" "sint drive" "buf_geom st" "uint n" 1] bound good g
      by (auto simp: disk_sector_def good_drive_def)
  qed
  assume buf: "length buf = 512"
  have "(uint n + 1) * 512 \<le> total_sectors (buf_geom st) * 512" using bound(2) by (intro mult_right_mono) auto
  then obtain st' where "rawread b (\<lambda>_ _. True) (sint drive) (uint n) 0 512 st
      = Some (True, slice (contents w (sint drive)) (uint n * 512) 512, st')"
    "good_drive b contents ok_geom w (sint drive) (total_sectors g) st'" "buf_geom st' = buf_geom st"
    using rawread_good [OF good bound(1), of 0 512 "\<lambda>_ _. True"] g by auto
  then show "\<exists>st'. read_sector b drive n buf st = Some (True, disk_sector (contents w (sint drive)) n, st')
      \<and> ready b contents ok_geom w drive g st'"
    using n g buf len sint_u32_small [of n]
    by (auto simp: read_sector_def has_sector_def ready_def SECTOR_SIZE_def disk_sector_def overlay_whole)
qed

end

interpretation ram_reader: sector_reader ram_int13 drive "ready ram_int13 ram_contents ram_geom w drive g"
  "disk_sector (ram_contents w (sint drive))" "has_sector g" for drive w g
  by (rule ram.dev.ready_reader)

section \<open>Properties\<close>

text \<open>
  C23. Opening a primary partition of a hard disk: if the master boot record is valid and has only
  ordinary entries, \<open>open_partition\<close> ends and succeeds exactly for the entries in use; the partition
  then starts and ends where the table says. For an unused entry the error is \<open>ERR_NO_PART\<close>.
\<close>

theorem open_partition_primary:
  assumes "firmware b contents hds spt ssize" and "ready b contents (drive_geom hds spt ssize) w drive g (disk s)"
    and "plain_mbr (disk_sector (contents w (sint drive)) 0)" and "has_sector g 0"
    and "drive AND 0x80 \<noteq> 0" and "drive AND 0xFFFFFF7F < 8" and "length (it_buf junk) = 512" and "i < 4"
    and "current_drive s = drive" and "current_partition s = pc_part i"
  defines "mbr \<equiv> disk_sector (contents w (sint drive)) 0"
  shows "\<exists>s'. open_partition b junk s = Some (PC_SLICE_TYPE mbr i \<noteq> 0, s')
      \<and> (if PC_SLICE_TYPE mbr i \<noteq> 0
         then ready b contents (drive_geom hds spt ssize) w drive g (disk s') \<and> current_partition s' = pc_part i
           \<and> current_slice s' = ucast (PC_SLICE_TYPE mbr i)
           \<and> part_start s' = PC_SLICE_START mbr i \<and> part_length s' = PC_SLICE_LENGTH mbr i
           \<and> cur_part_offset s' = 0 \<and> cur_part_entry s' = Some i \<and> current_drive s' = drive
         else err_of s' = ERR_NO_PART)"
  unfolding mbr_def
  by (rule sector_reader.open_partition_reader [OF sector_device.ready_reader [OF firmware.device [OF assms(1)]] assms(3-8,2,9,10)])

definition test_mbr :: "u8 list" where
  "test_mbr = replicate 446 0 @ [0x80, 0, 0, 0, 0x83, 0, 0, 0, 63, 0, 0, 0, 0, 1, 0, 0] @ replicate 48 0 @ [0x55, 0xaa]"

definition test_disk :: "u8 list" where
  "test_disk = test_mbr @ replicate 8704 0"

definition test_dev :: "u8 list disk_state \<Rightarrow> u32 \<Rightarrow> u8 list dev_state" where
  "test_dev st p = \<lparr>disk = st, current_drive = 0x80, current_partition = p, saved_drive = 0x80, saved_partition = p,
     cdrom_drive = GRUB_INVALID_DRIVE, current_slice = 0, part_start = 0, part_length = 0, bsd_evil_hack = 0,
     cur_part_offset = 0, cur_part_entry = None, boot_part_entry = None, boot_part_table = [], fsys_type = 0,
     incomplete = False, disk_choice = False, part_choice_of = PART_UNSPECIFIED, fsys_buf = (\<lambda>_. 0), completions = []\<rparr>"

lemma slice_nth:
  assumes "0 \<le> p" and "int (length (slice xs p m)) = m" and "int k < m"
  shows "slice xs p m ! k = xs ! (nat p + k)"
  using assms by (auto simp: slice_def)

lemma slice_length_bound:
  "int (length (slice xs p m)) = m \<Longrightarrow> 0 < m \<Longrightarrow> 0 \<le> p \<Longrightarrow> p + m \<le> int (length xs)"
  by (auto simp: slice_def)

lemma plain_first_sector:
  assumes "length mbr = 512" and "\<not> is_ezd mbr"
  shows "plain_disk ram_contents (mbr @ replicate n 0) drive"
proof -
  have "ezd_free ram_contents (mbr @ replicate n 0) drive ss" if ss: "512 \<le> ss" for ss
    unfolding ezd_free_def
  proof (intro allI impI)
    fix s k :: int
    let ?d = "ram_contents (mbr @ replicate n 0) drive"
    assume *: "0 \<le> s" "int (length (slice ?d (s * ss) (k * ss))) = k * ss" "0 < k"
    have m: "512 \<le> k * ss" using mult_mono [of 1 k 512 ss] *(3) ss by simp
    have d: "?d = mbr @ replicate n 0"
      using * m by (auto simp: ram_contents_def slice_def split: if_splits)
    have pos: "0 \<le> s * ss" using *(1) ss by simp
    have top: "s * ss + k * ss \<le> 512 + int n"
      using slice_length_bound [OF *(2)] m pos assms(1) d by simp
    have nth: "slice ?d (s * ss) (k * ss) ! j = (mbr @ replicate n 0) ! (nat (s * ss) + j)"
      and bnd: "nat (s * ss) + j < 512 + n" if "j < 512" for j
      using slice_nth [OF pos *(2), of j] that m top pos by (simp_all add: d)
    show "\<not> is_ezd (slice ?d (s * ss) (k * ss))"
    proof (cases "s = 0")
      case True
      then show ?thesis using nth assms by (simp add: is_ezd_def PC_SLICE_TYPE_def nth_append)
    next
      case False
      then have "1 * 512 \<le> s * ss" using *(1) ss by (intro mult_mono) auto
      then have far: "512 \<le> nat (s * ss)" by simp
      then have "slice ?d (s * ss) (k * ss) ! j = 0" if "j < 512" for j
        using nth [OF that] bnd [OF that] assms(1) by (simp add: nth_append)
      then show ?thesis by (simp add: is_ezd_def PC_SLICE_TYPE_def)
    qed
  qed
  then show ?thesis by (simp add: plain_disk_def)
qed

lemma test_mbr_facts:
  "length test_mbr = 512" "plain_mbr test_mbr" "\<not> is_ezd test_mbr" "PC_SLICE_TYPE test_mbr 0 = 0x83"
  "PC_SLICE_START test_mbr 0 = 63" "PC_SLICE_LENGTH test_mbr 0 = 256"
proof -
  show "length test_mbr = 512" by (simp add: test_mbr_def)
  show t0: "PC_SLICE_TYPE test_mbr 0 = 0x83" "PC_SLICE_START test_mbr 0 = 63" "PC_SLICE_LENGTH test_mbr 0 = 256"
    by (simp_all add: PC_SLICE_TYPE_def PC_SLICE_START_def PC_SLICE_LENGTH_def le32_def test_mbr_def nth_append)
  have ty: "PC_SLICE_TYPE test_mbr i = (if i = 0 then 0x83 else 0)" if "i < 4" for i
  proof -
    from that consider "i = 0" | "i = 1" | "i = 2" | "i = 3" by linarith
    then show ?thesis by cases (simp_all add: PC_SLICE_TYPE_def test_mbr_def nth_append)
  qed
  show "\<not> is_ezd test_mbr" by (simp add: is_ezd_def ty)
  show "plain_mbr test_mbr"
    by (simp add: plain_mbr_def ty IS_PC_SLICE_TYPE_EXTENDED_def IS_PC_SLICE_TYPE_BSD_def PC_MBR_CHECK_SIG_def le16_def, simp add: test_mbr_def nth_append)
qed

lemma test_disk_ready:
  "ready ram_int13 ram_contents ram_geom test_disk 0x80 (buf_geom (ram_opened test_disk)) (ram_opened test_disk)"
  "disk_sector (ram_contents test_disk (sint (0x80 :: u32))) 0 = test_mbr" "has_sector (buf_geom (ram_opened test_disk)) 0"
  using ram_opened_good [of test_disk] plain_first_sector [of test_mbr 8704 "0x80"] test_mbr_facts(1,3)
  by (simp_all add: ready_def test_disk_def ram_opened_def has_sector_def disk_sector_def ram_contents_def slice_def)

lemma open_partition_primary_witness:
  "\<exists>s'. open_partition ram_int13 (primary_iter test_mbr 0) (test_dev (ram_opened test_disk) (pc_part 0)) = Some (True, s')
    \<and> part_start s' = 63 \<and> part_length s' = 256"
  using open_partition_primary [where w = test_disk and drive = "0x80" and g = "buf_geom (ram_opened test_disk)"
      and s = "test_dev (ram_opened test_disk) (pc_part 0)" and junk = "primary_iter test_mbr 0" and i = 0,
      OF ram.firmware_axioms] test_disk_ready test_mbr_facts
  by (auto simp: test_dev_def)

section \<open>Cyclic partition tables\<close>

text \<open>
  A table of logical partitions at sector \<open>e\<close> that has nothing but links, the first of them to
  itself, and the states of a walk in it.
\<close>

definition cyclic_table :: "u8 list \<Rightarrow> bool" where
  "cyclic_table t \<longleftrightarrow> PC_MBR_CHECK_SIG t \<and> (\<exists>i. first_extended t = Some i \<and> PC_SLICE_START t i = 0)
     \<and> (\<forall>i<4. PC_SLICE_TYPE t i = 0 \<or> IS_PC_SLICE_TYPE_EXTENDED (ucast (PC_SLICE_TYPE t i)))"

definition in_cycle :: "u8 list \<Rightarrow> u32 \<Rightarrow> nat \<Rightarrow> part_iter \<Rightarrow> bool" where
  "in_cycle t e n it \<longleftrightarrow> it_partition it = pc_part n \<and> it_offset it = e \<and> it_ext_offset it = e
     \<and> 0 \<le> it_entry it \<and> it_entry it < 4 \<and> length (it_buf it) = 512
     \<and> (it_type it = 0 \<or> IS_PC_SLICE_TYPE_EXTENDED (it_type it))"

lemma extended_not_bsd: "t = 0 \<or> IS_PC_SLICE_TYPE_EXTENDED t \<Longrightarrow> \<not> IS_PC_SLICE_TYPE_BSD (t AND 0xFF)"
  by (auto simp: IS_PC_SLICE_TYPE_EXTENDED_def IS_PC_SLICE_TYPE_BSD_def)

context sector_reader
begin

lemma cycle_slice:
  assumes "cyclic_table (sec e)" and "on_disk e" and "e \<noteq> 0" and "4 \<le> n" and "n < 255"
    and "in_cycle (sec e) e n it" and "good st"
  shows "\<exists>it' st'. next_pc_slice b drive it st = Some (True, it', st') \<and> in_cycle (sec e) e n it' \<and> good st'"
proof -
  have it: "it_partition it = pc_part n" "it_offset it = e" "it_ext_offset it = e" "0 \<le> it_entry it" "it_entry it < 4"
    "length (it_buf it) = 512" using assms(6) by (auto simp: in_cycle_def)
  have len: "length (sec e) = 512" using sec_length [OF assms(7,2)] .
  have no: "unat (drop_bit 16 (pc_part n AND 0xFF0000)) = n"
    using pc_part_fields(6) [of n] assms(5) unat_of_nat_below32 [of n] by simp
  have sig: "PC_MBR_CHECK_SIG (sec e)" using assms(1) by (simp add: cyclic_table_def)
  have vals: "in_cycle (sec e) e n (pc_slice_values (int n) x)"
    if "it_offset x = e" "it_ext_offset x = e" "0 \<le> it_entry x" "it_entry x < 4" "it_buf x = sec e" for x
  proof -
    have "nat (it_entry x) < 4" using that(3,4) by linarith
    then have ty: "PC_SLICE_TYPE (sec e) (nat (it_entry x)) = 0
        \<or> IS_PC_SLICE_TYPE_EXTENDED (ucast (PC_SLICE_TYPE (sec e) (nat (it_entry x))))"
      using assms(1) by (auto simp: cyclic_table_def)
    show ?thesis using that ty assms(4) len by (auto simp: in_cycle_def pc_slice_values_def pc_part_def Let_def)
  qed
  obtain st1 where rd: "read_sector b drive e (it_buf it) st = Some (True, sec e, st1)" "good st1"
    using read [OF assms(7,2) it(6)] by blast
  show ?thesis
  proof (cases "it_entry it = 3")
    case False
    have "next_pc_slice b drive it st
        = Some (True, pc_slice_values (int n) (it\<lparr>it_buf := sec e, it_entry := it_entry it + 1\<rparr>), st1)"
      using no rd(1) sig it False assms(5) by (subst next_pc_slice.simps) (simp add: Let_def)
    moreover have "in_cycle (sec e) e n (pc_slice_values (int n) (it\<lparr>it_buf := sec e, it_entry := it_entry it + 1\<rparr>))"
      using it False by (intro vals) auto
    ultimately show ?thesis using rd(2) by blast
  next
    case True
    obtain i where i: "first_extended (sec e) = Some i" "PC_SLICE_START (sec e) i = 0"
      using assms(1) by (auto simp: cyclic_table_def)
    let ?it = "it\<lparr>it_buf := sec e, it_entry := -1\<rparr>"
    obtain st2 where rd2: "read_sector b drive e (sec e) st1 = Some (True, sec e, st2)" "good st2"
      using read [OF rd(2) assms(2) len] by blast
    have same: "it\<lparr>it_buf := sec e, it_offset := e, it_ext_offset := e, it_entry := -1\<rparr> = ?it"
      using it(2,3) by (cases it) auto
    have "next_pc_slice b drive it st = next_pc_slice b drive ?it st1"
      using no rd(1) sig it(1-3) True assms(3,5) i by (subst next_pc_slice.simps) (simp add: Let_def same)
    also have "\<dots> = Some (True, pc_slice_values (int n) (it\<lparr>it_buf := sec e, it_entry := 0\<rparr>), st2)"
      using no rd2(1) sig it(1-3) assms(5) by (subst next_pc_slice.simps) (simp add: Let_def)
    finally show ?thesis
      using rd2(2) vals [of "it\<lparr>it_buf := sec e, it_entry := 0\<rparr>"] it by auto
  qed
qed

lemma cycle_never_returns:
  assumes "cyclic_table (sec e)" and "on_disk e" and "e \<noteq> 0" and "4 \<le> n" and "n < 255" and "drive AND 0x80 \<noteq> 0"
    and "dest \<noteq> pc_part n" and "drop_bit 16 dest \<noteq> 0xFF"
    and "in_cycle (sec e) e n it" and "good (disk s)" and "current_drive s = drive"
  shows "open_loop b dest it s = None"
proof -
  define inside where "inside b' dest' it s \<longleftrightarrow>
      b' = b \<and> dest' = dest \<and> in_cycle (sec e) e n it \<and> good (disk s) \<and> current_drive s = drive"
    for b' dest' it and s :: "'w dev_state"
  have "\<not> inside b dest it s" if "open_loop b dest it s = Some y" for y
  proof (rule open_loop.raw_induct [where P = "\<lambda>b dest it s y. \<not> inside b dest it s", OF _ that])
    fix loop b' dest' it y and s :: "'w dev_state"
    assume IH: "\<And>b' dest' it s y. loop b' dest' it s = Some y \<Longrightarrow> \<not> inside b' dest' it s"
      and body: "Option.bind (next_partition b' (current_drive s) (current_drive s) dest' it (bsd_evil_hack s) (disk s))
       (\<lambda>(ok, it', hack', st').
          let s1 = iter_to_dev it' hack' st' s
          in if \<not> ok then Some (False, s1)
             else
               let s2 = s1\<lparr>cur_part_offset := it_offset it', cur_part_entry := Some (nat (it_entry it'))\<rparr>
               in if current_slice s2 \<noteq> 0
                  then let s3 = set_err ERR_NONE s2
                       in if dest' = current_partition s3
                            \<or> drop_bit 16 dest' = 0xFF \<and> drop_bit 8 dest' AND 0xFF = drop_bit 8 (current_partition s3) AND 0xFF
                          then Some (True, s3) else loop b' dest' it' s3
                  else loop b' dest' it' s2) = Some y"
    show "\<not> inside b' dest' it s"
    proof
      assume "inside b' dest' it s"
      then have *: "b' = b \<and> dest' = dest \<and> in_cycle (sec e) e n it \<and> good (disk s) \<and> current_drive s = drive"
        by (simp add: inside_def)
      obtain it' st' where n: "next_pc_slice b drive it (disk s) = Some (True, it', st')" "in_cycle (sec e) e n it'" "good st'"
        using cycle_slice [OF assms(1-5)] * by blast
      have "drive \<noteq> NETWORK_DRIVE" using assms(6) by (auto simp: NETWORK_DRIVE_def)
      then have np: "next_partition b drive drive dest it (bsd_evil_hack s) (disk s) = Some (True, it', bsd_evil_hack s, st')"
        using n(1) assms(6) * extended_not_bsd [of "it_type it"]
        by (auto simp: next_partition_def in_cycle_def)
      have "st'\<lparr>errnum := ERR_NONE\<rparr> = st'" using no_error [OF n(3)] by (metis disk_state.surjective disk_state.update_convs(1))
      then have good: "good (disk (set_err ERR_NONE x))" if "disk x = st'" for x :: "'w dev_state"
        using that n(3) by (simp add: set_err_def)
      define s2 where "s2 = (iter_to_dev it' (bsd_evil_hack s) st' s)
          \<lparr>cur_part_offset := it_offset it', cur_part_entry := Some (nat (it_entry it'))\<rparr>"
      have "loop b dest it' (if it_type it' \<noteq> 0 then set_err ERR_NONE s2 else s2) = Some y"
        using body * np n(2) assms(7,8)
        by (auto simp: Let_def s2_def iter_to_dev_def set_err_def in_cycle_def split: if_splits)
      from IH [OF this] n(2,3) good [of s2] * show False
        by (auto simp: inside_def s2_def iter_to_dev_def set_err_def split: if_splits)
    qed
  qed
  with assms(9-11) show ?thesis by (cases "open_loop b dest it s") (auto simp: inside_def)
qed

end

text \<open>
  A cyclic chain of partition tables: if a table of logical partitions
  contains only links and the first one leads back to the table, the search of \<open>open_partition\<close> for
  a partition that is not there has no result once it is inside the cycle, because the walk has no bound.
\<close>

lemma open_partition_cyclic_hangs:
  assumes "firmware b contents hds spt ssize" and "ready b contents (drive_geom hds spt ssize) w drive g (disk s)"
    and "cyclic_table (disk_sector (contents w (sint drive)) e)" and "has_sector g e" and "e \<noteq> 0"
    and "4 \<le> n" and "n < 255" and "drive AND 0x80 \<noteq> 0" and "dest \<noteq> pc_part n" and "drop_bit 16 dest \<noteq> 0xFF"
    and "in_cycle (disk_sector (contents w (sint drive)) e) e n it" and "current_drive s = drive"
  shows "open_loop b dest it s = None"
  by (rule sector_reader.cycle_never_returns [OF sector_device.ready_reader [OF firmware.device [OF assms(1)]] assms(3-11,2,12)])

lemma plain_zero_head: "plain_disk ram_contents (replicate 32256 0 @ xs) drive"
proof -
  have "ezd_free ram_contents (replicate 32256 0 @ xs) drive ss" if ss: "ss = 512 \<or> ss = 2048" for ss
    unfolding ezd_free_def
  proof (intro allI impI)
    fix s k :: int
    let ?d = "ram_contents (replicate 32256 0 @ xs) drive"
    assume *: "0 \<le> s" "s * ss < BUFFERLEN" "int (length (slice ?d (s * ss) (k * ss))) = k * ss" "0 < k"
    have m: "512 \<le> k * ss" using mult_mono [of 1 k 512 ss] *(4) ss by auto
    have d: "?d = replicate 32256 0 @ xs" using * m by (auto simp: ram_contents_def slice_def split: if_splits)
    have pos: "0 \<le> s * ss" "nat (s * ss) \<le> 31744" using *(1,2) ss by (auto simp: BUFFERLEN_def)
    have "slice ?d (s * ss) (k * ss) ! j = 0" if "j < 512" for j
      using slice_nth [OF pos(1) *(3), of j] that m pos(2) by (simp add: d nth_append)
    then show "\<not> is_ezd (slice ?d (s * ss) (k * ss))" by (simp add: is_ezd_def PC_SLICE_TYPE_def)
  qed
  then show ?thesis by (simp add: plain_disk_def)
qed

definition cyclic_mbr :: "u8 list" where
  "cyclic_mbr = replicate 450 0 @ [5] @ replicate 59 0 @ [0x55, 0xaa]"

definition cyclic_disk :: "u8 list" where
  "cyclic_disk = replicate 32256 0 @ cyclic_mbr @ replicate 4096 0"

lemma cyclic_mbr_table: "cyclic_table cyclic_mbr"
proof -
  have ty: "PC_SLICE_TYPE cyclic_mbr i = (if i = 0 then 5 else 0)" if "i < 4" for i
  proof -
    from that consider "i = 0" | "i = 1" | "i = 2" | "i = 3" by linarith
    then show ?thesis by cases (simp_all add: PC_SLICE_TYPE_def cyclic_mbr_def nth_append)
  qed
  have "first_extended cyclic_mbr = Some 0"
    by (simp add: first_extended_def upt_rec ty IS_PC_SLICE_TYPE_EXTENDED_def)
  moreover have "PC_SLICE_START cyclic_mbr 0 = 0" "PC_MBR_CHECK_SIG cyclic_mbr"
    by (simp_all add: PC_SLICE_START_def PC_MBR_CHECK_SIG_def le32_def le16_def cyclic_mbr_def nth_append)
  ultimately show ?thesis by (simp add: cyclic_table_def ty IS_PC_SLICE_TYPE_EXTENDED_def)
qed

lemma open_partition_cyclic_hangs_witness:
  "open_loop ram_int13 (pc_part 5)
     \<lparr>it_partition = pc_part 4, it_type = 5, it_start = 63, it_len = 1, it_offset = 63, it_entry = 0, it_ext_offset = 63,
      it_buf = cyclic_mbr\<rparr> (test_dev (ram_opened cyclic_disk) (pc_part 4)) = None"
proof -
  have len: "length cyclic_mbr = 512" by (simp add: cyclic_mbr_def)
  then have sec: "disk_sector (ram_contents cyclic_disk (sint (0x80 :: u32))) 63 = cyclic_mbr"
    by (simp add: disk_sector_def ram_contents_def cyclic_disk_def slice_def)
  have rdy: "ready ram_int13 ram_contents ram_geom cyclic_disk 0x80 (buf_geom (ram_opened cyclic_disk)) (ram_opened cyclic_disk)"
    using ram_opened_good [of cyclic_disk] plain_zero_head [of "cyclic_mbr @ replicate 4096 0" "0x80"] len
    by (simp add: ready_def cyclic_disk_def ram_opened_def)
  have "has_sector (buf_geom (ram_opened cyclic_disk)) 63"
    using len by (simp add: has_sector_def ram_opened_def cyclic_disk_def)
  moreover have "drop_bit 16 (pc_part 5) \<noteq> 0xFF" "pc_part 5 \<noteq> pc_part 4"
    using pc_part_fields(5) [of 5] pc_part_inject [of 5 4] by auto
  ultimately show ?thesis
    using open_partition_cyclic_hangs [where w = cyclic_disk and drive = "0x80" and e = 63 and n = 4 and dest = "pc_part 5"
        and g = "buf_geom (ram_opened cyclic_disk)" and s = "test_dev (ram_opened cyclic_disk) (pc_part 4)"
        and it = "\<lparr>it_partition = pc_part 4, it_type = 5, it_start = 63, it_len = 1, it_offset = 63, it_entry = 0,
          it_ext_offset = 63, it_buf = cyclic_mbr\<rparr>", OF ram.firmware_axioms] rdy sec len cyclic_mbr_table
    by (simp add: in_cycle_def test_dev_def IS_PC_SLICE_TYPE_EXTENDED_def)
qed

section \<open>Device names\<close>

definition dec :: "nat \<Rightarrow> u8 list" where
  "dec n = map digit_char (nat_digits 10 n)"

lemma dec_digits: "list_all (\<lambda>x. digit_val 10 x \<noteq> None) (dec n)"
  using nat_digits_range [of 10 _ n] by (force simp: dec_def list_all_iff digit_val_char)

lemma dec_Cons: "\<exists>c cs. dec n = c # cs \<and> 0x30 \<le> c \<and> c \<le> 0x39"
proof -
  obtain d ds where d: "nat_digits 10 n = d # ds" by (cases "nat_digits 10 n") auto
  then have "d < 10" using nat_digits_range [of 10 d n] by simp
  moreover from this have "digit_char d = of_nat (0x30 + d)" by (simp add: digit_char_def)
  ultimately have "unat (digit_char d) = 0x30 + d" by (simp add: unsigned_of_nat take_bit_nat_eq_self del: of_nat_add)
  with d \<open>d < 10\<close> show ?thesis by (simp add: dec_def word_le_nat_alt)
qed

lemma hex_prefix_dec: "c \<noteq> 0x78 \<Longrightarrow> c \<noteq> 0x58 \<Longrightarrow> \<not> hex_prefix (dec n @ c # r)"
proof -
  assume c: "c \<noteq> 0x78" "c \<noteq> 0x58"
  have x: "digit_val 10 0x78 = None" "digit_val 10 0x58 = None" by (simp_all add: digit_val_def)
  obtain a as where a: "dec n = a # as" using dec_Cons by blast
  show ?thesis
  proof (cases as)
    case Nil
    with a c show ?thesis by (simp add: hex_prefix_def)
  next
    case (Cons a2 as2)
    then have "digit_val 10 a2 \<noteq> None" using dec_digits [of n] a by simp
    with Cons a x show ?thesis by (auto simp: hex_prefix_def)
  qed
qed

lemma parse_dec:
  assumes "n \<le> 0x7FFFFFFF" and "digit_val 10 c = None" and "c \<noteq> 0x78" and "c \<noteq> 0x58"
  shows "safe_parse_maxint (dec n @ c # r) = Some (Inr (c # r, of_nat n))"
  using safe_parse_number [where pre = "[]" and r = r, OF dec_digits assms(2), of n] hex_prefix_dec [OF assms(3,4), of n r] assms(1)
    number_from_digits [of 10 n] dec_Cons [of n]
  by (auto simp: dec_def)

text \<open>The name of partition \<open>p\<close> of hard disk \<open>n\<close>.\<close>

definition hd_name :: "nat \<Rightarrow> nat \<Rightarrow> u8 list" where
  "hd_name n p = [0x28, 0x68, 0x64] @ dec n @ [0x2c] @ dec p @ [0x29]"

lemma pc_part_plus: "p < 256 \<Longrightarrow> push_bit 16 (of_nat p) + 0xFFFF = pc_part p"
  unfolding pc_part_def by (rule disjunctive_add) (auto simp: bit_simps part_masks)

lemma set_drive_hd:
  assumes "n < 8" 
  shows "set_drive ([0x68, 0x64] @ dec n @ 0x2c # r) s
    = Some (Inr (0x2c # r, s\<lparr>disk_choice := False, current_drive := of_nat n + 0x80\<rparr>))"
proof -
  have "safe_parse_maxint (dec n @ 0x2c # r) = Some (Inr (0x2c # r, of_nat n))"
    using assms by (intro parse_dec) (simp_all add: digit_val_def)
  moreover obtain c cs where c: "dec n = c # cs" "0x30 \<le> c" using dec_Cons by blast
  moreover have "c \<noteq> 0" using c(2) by auto
  ultimately show ?thesis by (simp add: set_drive_def parse_number_def rd_def Let_def)
qed

lemma set_part_dec:
  assumes "p \<le> 254" and "current_drive s AND 0x80 \<noteq> 0"
  shows "set_part (dec p @ 0x29 # r) s
    = Some (Some (0x29 # r), s\<lparr>part_choice_of := PART_CHOSEN, current_partition := pc_part p\<rparr>)"
proof -
  have "safe_parse_maxint (dec p @ 0x29 # r) = Some (Inr (0x29 # r, of_nat p))"
    using assms(1) by (intro parse_dec) (simp_all add: digit_val_def)
  moreover obtain c cs where c: "dec p = c # cs" "0x30 \<le> c" "c \<le> 0x39" using dec_Cons by blast
  moreover have "\<not> 254 < (of_nat p :: u32)" using assms(1) unat_of_nat_below32 [of p] by (simp add: word_less_nat_alt)
  ultimately show ?thesis
    using assms pc_part_plus [of p] by (simp add: set_part_def parse_number_def rd_def Let_def)
qed

text \<open>
  C24. \<open>set_device\<close> understands the names of hard disk partitions: for each of the disks 0 to 7 and
  each partition number up to 254, the text \<open>(hdN,P)\<close> selects the drive 0x80 + N and partition P,
  and the result points behind the closing parenthesis, whatever follows.
\<close>

theorem set_device_hd:
  assumes "n < 8" and "p \<le> 254" and "err_of s = ERR_NONE"
  shows "set_device (hd_name n p @ tail) s
    = Some (Some (hd_name n p @ tail, tail),
        s\<lparr>incomplete := False, disk_choice := False, part_choice_of := PART_CHOSEN,
          current_drive := of_nat n + 0x80, current_partition := pc_part p\<rparr>)"
proof -
  have n: "n \<in> {0, 1, 2, 3, 4, 5, 6, 7}" using assms(1) by auto
  then have d: "(of_nat n + 0x80 :: u32) AND 0x80 \<noteq> 0" "(of_nat n + 0x80 :: u32) AND 0xFFFFFF7F < 8"
    "(of_nat n + 0x80 :: u32) \<noteq> NETWORK_DRIVE" by (auto simp: NETWORK_DRIVE_def)
  have "p < 256" using assms(2) by simp
  note pf = pc_part_fields [OF this]
  show ?thesis
    using assms(3) d pf
    by (simp add: set_device_def hd_name_def rd_def Let_def finish_device_def sane_partition_def
        set_drive_hd [OF assms(1), simplified] set_part_dec [OF assms(2)])
qed

lemma set_device_hd_witness:
  "\<exists>s'. set_device (hd_name 0 1 @ [0x2f, 0x61, 0]) (test_dev (ram_opened test_disk) 0)
      = Some (Some (hd_name 0 1 @ [0x2f, 0x61, 0], [0x2f, 0x61, 0]), s')
    \<and> current_drive s' = 0x80 \<and> current_partition s' = 0x1FFFF"
  using set_device_hd [of 0 1 "test_dev (ram_opened test_disk) 0" "[0x2f, 0x61, 0]"]
  by (simp add: test_dev_def ram_opened_def pc_part_def)

section \<open>The active flag\<close>

lemma clear_flags_unfold: "clear_flags m = m[446 := 0, 462 := 0, 478 := 0, 494 := 0]"
  by (simp add: clear_flags_def upt_rec)

lemma less_four_cases: "(i :: nat) < 4 \<Longrightarrow> i = 0 \<or> i = 1 \<or> i = 2 \<or> i = 3"
  by linarith

lemma plain_not_ezd:
  assumes "plain_disk contents w d" and "512 \<le> length (contents w d)"
  shows "\<not> is_ezd (contents w d)"
proof -
  have "\<not> is_ezd (slice (contents w d) 0 512)"
    using assms ezd_free_def [THEN iffD1, rule_format, of contents w d 512 0 1]
    by (simp add: plain_disk_def BUFFERLEN_def slice_def)
  then show ?thesis using is_ezd_slice [of 512] by simp
qed

text \<open>
  C25. \<open>make_saved_active\<close> makes exactly one partition active: after success the entry of the saved
  partition carries the active flag, if it did not carry it before no other entry of the table does,
  and no byte of the disk other than the four flags has changed.
\<close>

theorem make_saved_active_marks:
  assumes "firmware_write b contents hds spt ssize" and "ready b contents (drive_geom hds spt ssize) w drive g (disk s)"
    and "has_sector g 0" and "saved_drive s = drive" and "length junk = 512" and "\<not> cdrom_flag g"
    and "vtrack (disk s) = sectors g" and "make_saved_active b junk s = Some (True, s')"
  defines "d \<equiv> contents w (sint drive)" and "d' \<equiv> contents (world (disk s')) (sint drive)"
    and "part \<equiv> unat (drop_bit 16 (saved_partition s))"
  shows "part < 4 \<and> length d' = length d \<and> PC_SLICE_FLAG d' part = 0x80
    \<and> (PC_SLICE_FLAG d part \<noteq> 0x80 \<longrightarrow> (\<forall>i<4. i \<noteq> part \<longrightarrow> PC_SLICE_FLAG d' i = 0))
    \<and> (\<forall>j<length d. (\<forall>i<4. j \<noteq> 446 + 16 * i) \<longrightarrow> d' ! j = d ! j)"
proof -
  note rdr = sector_device.ready_reader [OF firmware.device [OF firmware_write.axioms(1) [OF assms(1)]]]
  obtain st1 where rd: "read_sector b drive 0 junk (disk s) = Some (True, disk_sector d 0, st1)"
    "ready b contents (drive_geom hds spt ssize) w drive g st1"
    using sector_reader.read [OF rdr assms(2,3,5)] by (auto simp: d_def)
  define mbr where "mbr = disk_sector d 0"
  have len: "length mbr = 512" using sector_reader.sec_length [OF rdr assms(2,3)] by (simp add: mbr_def d_def)
  then have d512: "512 \<le> length d" "mbr = take 512 d" by (auto simp: mbr_def disk_sector_def slice_def)
  have part: "part < 4" using assms(8) by (auto simp: make_saved_active_def part_def Let_def split: if_splits)
  have flag: "PC_SLICE_FLAG mbr i = PC_SLICE_FLAG d i" if "i < 4" for i
    using d512 that by (auto simp: PC_SLICE_FLAG_def)
  have st1: "buf_drive st1 = sint drive" "world st1 = w" "errnum st1 = ERR_NONE" "buf_geom st1 = g"
    "disk_inv contents (drive_geom hds spt ssize) (sint drive) st1" "plain_disk contents w (sint drive)"
    using rd(2) by (auto simp: ready_def good_drive_def)
  show ?thesis
  proof (cases "PC_SLICE_FLAG mbr part = 0x80")
    case True
    then have "s' = s\<lparr>disk := st1\<rparr>"
      using assms(4,8) rd(1) part by (auto simp: make_saved_active_def part_def mbr_def Let_def split: if_splits)
    then have "d' = d" using st1(2) by (simp add: d'_def d_def)
    with True part flag show ?thesis by auto
  next
    case False
    let ?m = "(clear_flags mbr)[446 + 16 * part := 0x80]"
    obtain st2 where wr: "rawwrite b (sint drive) 0 ?m st1 = Some (True, st2)" "s' = s\<lparr>disk := st2\<rparr>"
      using assms(4,8) rd(1) part False
      by (auto simp: make_saved_active_def part_def mbr_def Let_def split: if_splits bind_splits)
    have m: "length ?m = 512" using len by (simp add: clear_flags_unfold)
    have "vtrack st1 = vtrack (disk s)" using assms(2) st1(4) by (intro vtrack_cong) (auto simp: ready_def)
    then have "contents (world st2) (sint drive) = overlay d 0 ?m"
      using firmware_write.rawwrite_spec [OF assms(1) st1(5,1,3) _ _ _ _ wr(1)] st1(2,4,6) assms(6,7) m
        plain_not_ezd [OF st1(6)] d512(1) by (auto simp: d_def)
    then have d': "d' = ?m @ drop 512 d" using m by (simp add: d'_def wr(2) overlay_def)
    have nth: "d' ! j = (if j = 446 + 16 * part then 0x80 else if j \<in> {446, 462, 478, 494} then 0 else d ! j)"
      if "j < length d" for j
      using that m len d512 part by (auto simp: d' nth_append clear_flags_unfold nth_list_update)
    have "PC_SLICE_FLAG d' i = (if i = part then 0x80 else 0)" if "i < 4" for i
      using less_four_cases [OF that] less_four_cases [OF part] d512(1) by (auto simp: PC_SLICE_FLAG_def nth)
    moreover have "d' ! j = d ! j" if "j < length d" "\<forall>i<4. j \<noteq> 446 + 16 * i" for j
      using nth [OF that(1)] that(2) part by (auto dest: spec [of _ 0] spec [of _ 1] spec [of _ 2] spec [of _ 3])
    moreover have "length d' = length d" using m d512(1) by (simp add: d')
    ultimately show ?thesis using part by auto
  qed
qed

lemma make_saved_active_marks_witness:
  "\<exists>s'. make_saved_active ram_int13 test_mbr (test_dev (ram_opened test_disk) (pc_part 1)) = Some (True, s')
    \<and> PC_SLICE_FLAG (world (disk s')) 1 = 0x80 \<and> PC_SLICE_FLAG (world (disk s')) 0 = 0"
proof -
  let ?s = "test_dev (ram_opened test_disk) (pc_part 1)" and ?g = "buf_geom (ram_opened test_disk)"
  have len: "length test_disk = 9216" by (simp add: test_disk_def test_mbr_facts(1))
  have g: "cylinders ?g = 2" "heads ?g = 1" "sectors ?g = 9" "sector_size ?g = 512" "\<not> lba_flag ?g" "\<not> cdrom_flag ?g"
    using len by (simp_all add: ram_opened_def)
  have part: "unat (drop_bit 16 (pc_part 1)) = 1" using pc_part_fields(5) [of 1] by simp
  have flags: "PC_SLICE_FLAG test_mbr 1 \<noteq> 0x80" "PC_SLICE_TYPE test_mbr 1 = 0"
    by (simp_all add: PC_SLICE_FLAG_def PC_SLICE_TYPE_def test_mbr_def nth_append)
  obtain st1 where rd: "read_sector ram_int13 0x80 0 test_mbr (ram_opened test_disk) = Some (True, test_mbr, st1)"
    "ready ram_int13 ram_contents ram_geom test_disk 0x80 ?g st1"
    using ram_reader.read [OF test_disk_ready(1,3) test_mbr_facts(1)] test_disk_ready(2) by auto
  then have st1: "world st1 = test_disk" "buf_geom st1 = ?g" "errnum st1 = ERR_NONE"
    by (auto simp: ready_def good_drive_def)
  have sz: "sint (0x80 :: u32) = 0x80" by simp
  have "\<exists>st2. rawwrite ram_int13 0x80 0 ((clear_flags test_mbr)[462 := 0x80]) st1 = Some (True, st2)"
    using st1 g len
    by (simp add: rawwrite_def biosdisk_read_def biosdisk_write_def biosdisk_def biosdisk_chs_def ram_int13_def
        ram_chs_def Let_def)
  then obtain st2 where "rawwrite ram_int13 0x80 0 ((clear_flags test_mbr)[462 := 0x80]) st1 = Some (True, st2)" ..
  then have "\<exists>s'. make_saved_active ram_int13 test_mbr ?s = Some (True, s')"
    using rd(1) part flags
    by (simp add: make_saved_active_def test_dev_def Let_def IS_PC_SLICE_TYPE_EXTENDED_def)
  then obtain s' where ms: "make_saved_active ram_int13 test_mbr ?s = Some (True, s')" ..
  have v: "vtrack (disk ?s) = sectors ?g"
    using grub_log2_power [of 9] len
    by (simp add: test_dev_def vtrack_def ss_bits_def ram_opened_def push_bit_int_def BUFFERLEN_def)
  have "PC_SLICE_FLAG test_disk 1 \<noteq> 0x80"
    using flags(1) by (simp add: PC_SLICE_FLAG_def test_disk_def nth_append test_mbr_facts(1))
  then show ?thesis
    using make_saved_active_marks [OF ram.firmware_write_axioms _ test_disk_ready(3) _ test_mbr_facts(1) g(6) v ms, of test_disk "0x80"]
      test_disk_ready(1) part ms
    by (auto simp: test_dev_def ram_contents_def)
qed

end
