(* ===== verification/Inflate.thy ===== *)
theory Inflate
  imports Prelude
begin

unbundle bit_operations_syntax

text \<open>
  The inflate code of \<^verbatim>\<open>stage2/gunzip.c\<close>: building the decoding tables, the blocks of a deflated stream
  and the sliding window, without the file it reads from.

  The compressed bytes come from a \<open>byte_source\<close>: \<open>next_byte\<close> is \<open>get_byte\<close>, \<open>failed\<close> tests \<open>errnum\<close>
  and \<open>bad_data\<close> sets it to \<open>ERR_BAD_GZIP_DATA\<close>. Tables live in a heap in the order of their allocation, a
  pointer to a table is its number; the memory of a new table is undefined until it is written.
\<close>

section \<open>Data\<close>

record 's byte_source =
  next_byte :: "'s \<Rightarrow> (u8 \<times> 's) option"
  failed :: "'s \<Rightarrow> bool"
  bad_data :: "'s \<Rightarrow> 's"

record huft =
  h_e :: nat
  h_b :: nat
  h_v :: nat

type_synonym huft_heap = "huft option list list"

definition WSIZE :: nat where "WSIZE = 0x8000"
definition BMAX :: nat where "BMAX = 16"
definition N_MAX :: nat where "N_MAX = 288"

definition bitorder :: "nat list" where
  "bitorder = [16, 17, 18, 0, 8, 7, 9, 6, 10, 5, 11, 4, 12, 3, 13, 2, 14, 1, 15]"

definition cplens :: "nat list" where
  "cplens = [3, 4, 5, 6, 7, 8, 9, 10, 11, 13, 15, 17, 19, 23, 27, 31,
     35, 43, 51, 59, 67, 83, 99, 115, 131, 163, 195, 227, 258, 0, 0]"

definition cplext :: "nat list" where
  "cplext = [0, 0, 0, 0, 0, 0, 0, 0, 1, 1, 1, 1, 2, 2, 2, 2,
     3, 3, 3, 3, 4, 4, 4, 4, 5, 5, 5, 5, 0, 99, 99]"

definition cpdist :: "nat list" where
  "cpdist = [1, 2, 3, 4, 5, 7, 9, 13, 17, 25, 33, 49, 65, 97, 129, 193,
     257, 385, 513, 769, 1025, 1537, 2049, 3073, 4097, 6145, 8193, 12289, 16385, 24577]"

definition cpdext :: "nat list" where
  "cpdext = [0, 0, 0, 0, 1, 1, 2, 2, 3, 3, 4, 4, 5, 5, 6, 6, 7, 7, 8, 8, 9, 9, 10, 10, 11, 11, 12, 12, 13, 13]"

definition mask_bits :: "u32 list" where
  "mask_bits = [0x0000, 0x0001, 0x0003, 0x0007, 0x000f, 0x001f, 0x003f, 0x007f, 0x00ff,
     0x01ff, 0x03ff, 0x07ff, 0x0fff, 0x1fff, 0x3fff, 0x7fff, 0xffff]"

text \<open>The static variables of the file, but those of \<open>get_byte\<close>, which belong to the source.\<close>

record gz_vars =
  gzip_filepos :: int
  gzip_filemax :: int
  gzip_fsmax :: int
  saved_filepos :: int
  gzip_crc :: u32
  block_type :: nat
  block_len :: nat
  last_block :: bool
  code_state :: nat
  gz_slide :: "u8 list"
  gz_wp :: nat
  gz_bb :: u32
  gz_bk :: nat
  gz_tl :: "nat option"
  gz_td :: "nat option"
  gz_bl :: nat
  gz_bd :: nat
  inflate_n :: nat
  inflate_d :: u32
  gz_heap :: huft_heap

definition reset_linalloc :: "gz_vars \<Rightarrow> gz_vars" where
  "reset_linalloc g = g\<lparr>gz_heap := []\<rparr>"

section \<open>Building the tables\<close>

text \<open>Counting the code lengths, and the shortest and the longest length in use.\<close>

definition count_lengths :: "nat list \<Rightarrow> nat list option" where
  "count_lengths b = fold (\<lambda>l c. do { c \<leftarrow> c; x \<leftarrow> rd c l; wr c l (x + 1) }) b (Some (replicate (BMAX + 1) 0))"

fun min_length :: "nat list \<Rightarrow> nat \<Rightarrow> nat \<Rightarrow> nat" where
  "min_length c 0 j = j"
| "min_length c (Suc n) j = (if c ! j \<noteq> 0 then j else min_length c n (j + 1))"

fun max_length :: "nat list \<Rightarrow> nat \<Rightarrow> nat" where
  "max_length c 0 = 0"
| "max_length c (Suc i) = (if c ! Suc i \<noteq> 0 then Suc i else max_length c i)"

text \<open>The number of codes that are missing; none if there are more codes than bits.\<close>

function missing_codes :: "nat list \<Rightarrow> nat \<Rightarrow> nat \<Rightarrow> int \<Rightarrow> int option" where
  "missing_codes c j g y =
     (if j < g
      then let y' = y - int (c ! j) in if y' < 0 then None else missing_codes c (j + 1) g (2 * y')
      else let y' = y - int (c ! g) in if y' < 0 then None else Some y')"
  by pat_completeness auto
termination by (relation "measure (\<lambda>(c, j, g, y). g - j)") auto

declare missing_codes.simps [simp del]

text \<open>The offsets of the lengths in the table of values, and the values in the order of their lengths.\<close>

definition length_offsets :: "nat list \<Rightarrow> nat \<Rightarrow> nat list" where
  "length_offsets c g = map (\<lambda>j. if j = 0 \<or> g < j then 0 else sum_list (take (j - 1) (drop 1 c))) [0..<BMAX + 1]"

fun sort_values :: "nat list \<Rightarrow> nat \<Rightarrow> nat list \<Rightarrow> nat option list \<Rightarrow> nat option list option" where
  "sort_values [] i x v = Some v"
| "sort_values (j # b) i x v =
     (if j = 0 then sort_values b (i + 1) x v
      else do { pos \<leftarrow> rd x j; v' \<leftarrow> wr v pos (Some i); sort_values b (i + 1) (x[j := pos + 1]) v' })"

text \<open>
  The state of the loop over the codes: the code \<open>hi\<close> of the current value, the number \<open>hp\<close> of the value, the
  level \<open>hh\<close> and the bits \<open>hw\<close> before the current table \<open>hq\<close> with its \<open>hz\<close> entries, the patterns \<open>hx\<close> and the
  tables \<open>hu\<close> of the levels.
\<close>

record huft_st =
  hi :: nat
  hp :: nat
  hh :: int
  hw :: int
  hx :: "nat list"
  hu :: "nat list"
  hq :: nat
  hz :: nat
  hheap :: huft_heap

definition heap_set :: "huft_heap \<Rightarrow> nat \<Rightarrow> nat \<Rightarrow> huft \<Rightarrow> huft_heap option" where
  "heap_set m t i r = do { tab \<leftarrow> rd m t; tab' \<leftarrow> wr tab i (Some r); wr m t tab' }"

text \<open>The number of bits of a new table, between \<open>j\<close> and \<open>z\<close>.\<close>

function table_bits :: "nat list \<Rightarrow> nat \<Rightarrow> nat \<Rightarrow> nat \<Rightarrow> nat \<Rightarrow> nat option" where
  "table_bits c xp j z f =
     (if j + 1 < z
      then do { n \<leftarrow> rd c (xp + 1);
                if 2 * f \<le> n then Some (j + 1) else table_bits c (xp + 1) (j + 1) z (2 * f - n) }
      else Some (j + 1))"
  by pat_completeness auto
termination by (relation "measure (\<lambda>(c, xp, j, z, f). z - j)") auto

declare table_bits.simps [simp del]

definition new_table :: "nat \<Rightarrow> nat \<Rightarrow> nat list \<Rightarrow> nat \<Rightarrow> nat \<Rightarrow> huft_st \<Rightarrow> huft_st option" where
  "new_table l g c k a st =
     do { let h = hh st + 1;
          let w = hw st + int l;
          let z = min (g - nat w) l;
          let j0 = k - nat w;
          j \<leftarrow> (if 2 ^ j0 > a + 1 then table_bits c k j0 z (2 ^ j0 - (a + 1)) else Some j0);
          let q = length (hheap st);
          let m = hheap st @ [replicate (2 ^ j) None];
          u \<leftarrow> wr (hu st) (nat h) q;
          if h \<le> 0 then Some (st\<lparr>hh := h, hw := w, hu := u, hq := q, hz := 2 ^ j, hheap := m\<rparr>)
          else do {
            x \<leftarrow> wr (hx st) (nat h) (hi st);
            t \<leftarrow> rd (hu st) (nat h - 1);
            m' \<leftarrow> heap_set m t (drop_bit (nat w - l) (hi st)) \<lparr>h_e = 16 + j, h_b = l, h_v = q\<rparr>;
            Some (st\<lparr>hh := h, hw := w, hx := x, hu := u, hq := q, hz := 2 ^ j, hheap := m'\<rparr>) } }"

lemma new_table_hw: "new_table l g c k a st = Some st' \<Longrightarrow> hw st' = hw st + int l"
  by (auto simp: new_table_def Let_def split: bind_splits if_splits)

text \<open>Tables are made up to the level of a code of \<open>k\<close> bits; with tables of no bits this would not end.\<close>

function make_tables :: "nat \<Rightarrow> nat \<Rightarrow> nat list \<Rightarrow> nat \<Rightarrow> nat \<Rightarrow> huft_st \<Rightarrow> huft_st option" where
  "make_tables l g c k a st =
     (if int k \<le> hw st + int l then Some st
      else if l = 0 then None
      else Option.bind (new_table l g c k a st) (\<lambda>st'. make_tables l g c k a st'))"
  by pat_completeness auto
termination
  by (relation "measure (\<lambda>(l, g, c, k, a, st). nat (int k - hw st))") (auto dest: new_table_hw)

declare make_tables.simps [simp del]

text \<open>The entry for the next value. A value that was not sorted into the table is undefined.\<close>

definition code_entry :: "nat \<Rightarrow> nat \<Rightarrow> nat list \<Rightarrow> nat list \<Rightarrow> nat option list \<Rightarrow> nat \<Rightarrow> nat \<Rightarrow> (huft \<times> nat) option" where
  "code_entry n s d e v bits p =
     (if n \<le> p then Some (\<lparr>h_e = 99, h_b = bits, h_v = 0\<rparr>, p)
      else do {
        stored \<leftarrow> rd v p;
        sym \<leftarrow> stored;
        if sym < s then Some (\<lparr>h_e = (if sym < 256 then 16 else 15), h_b = bits, h_v = sym\<rparr>, p + 1)
        else do { ext \<leftarrow> rd e (sym - s); base \<leftarrow> rd d (sym - s); Some (\<lparr>h_e = ext, h_b = bits, h_v = base\<rparr>, p + 1) } })"

function fill_entries :: "huft_heap \<Rightarrow> nat \<Rightarrow> nat \<Rightarrow> nat \<Rightarrow> nat \<Rightarrow> huft \<Rightarrow> huft_heap option" where
  "fill_entries m q j z f r =
     (if j < z \<and> 0 < f then Option.bind (heap_set m q j r) (\<lambda>m'. fill_entries m' q (j + f) z f r) else Some m)"
  by pat_completeness auto
termination by (relation "measure (\<lambda>(m, q, j, z, f, r). z - j)") auto

declare fill_entries.simps [simp del]

text \<open>The code is incremented from its upper end.\<close>

fun next_code :: "nat \<Rightarrow> nat \<Rightarrow> nat" where
  "next_code i 0 = i"
| "next_code i (Suc k) = (if bit i k then next_code (i XOR 2 ^ k) k else i XOR 2 ^ k)"

function back_up :: "nat \<Rightarrow> nat list \<Rightarrow> nat \<Rightarrow> int \<Rightarrow> int \<Rightarrow> (int \<times> int) option" where
  "back_up l x i h w =
     (if h < 0 \<or> w < 0 then None
      else if i AND (2 ^ nat w - 1) \<noteq> x ! nat h then back_up l x i (h - 1) (w - int l)
      else Some (h, w))"
  by pat_completeness auto
termination by (relation "measure (\<lambda>(l, x, i, h, w). nat (h + 1))") auto

declare back_up.simps [simp del]

text \<open>The codes of length \<open>k\<close>; the argument counts those that are left.\<close>

primrec code_loop :: "nat \<Rightarrow> nat \<Rightarrow> nat list \<Rightarrow> nat \<Rightarrow> nat \<Rightarrow> nat list \<Rightarrow> nat list \<Rightarrow> nat option list \<Rightarrow> nat \<Rightarrow> nat \<Rightarrow> huft_st
    \<Rightarrow> huft_st option" where
  "code_loop l g c n s d e v k 0 st = Some st"
| "code_loop l g c n s d e v k (Suc a) st =
     do { st1 \<leftarrow> make_tables l g c k a st;
          let bits = k - nat (hw st1);
          (r, p) \<leftarrow> code_entry n s d e v bits (hp st1);
          m \<leftarrow> fill_entries (hheap st1) (hq st1) (drop_bit (nat (hw st1)) (hi st1)) (hz st1) (2 ^ bits) r;
          let i = next_code (hi st1) k;
          (h, w) \<leftarrow> back_up l (hx st1) i (hh st1) (hw st1);
          code_loop l g c n s d e v k a (st1\<lparr>hp := p, hheap := m, hi := i, hh := h, hw := w\<rparr>) }"

fun all_codes :: "nat \<Rightarrow> nat \<Rightarrow> nat list \<Rightarrow> nat \<Rightarrow> nat \<Rightarrow> nat list \<Rightarrow> nat list \<Rightarrow> nat option list \<Rightarrow> nat list \<Rightarrow> huft_st
    \<Rightarrow> huft_st option" where
  "all_codes l g c n s d e v [] st = Some st"
| "all_codes l g c n s d e v (k # ks) st =
     do { st' \<leftarrow> code_loop l g c n s d e v k (c ! k) st; all_codes l g c n s d e v ks st' }"

text \<open>
  \<open>huft_build\<close> for the first \<open>n\<close> lengths of \<open>b\<close>: its result, the first table, the number of lookup bits and the heap.
  If there are too many codes, the table is the old one.
\<close>

definition huft_build :: "nat list \<Rightarrow> nat \<Rightarrow> nat \<Rightarrow> nat list \<Rightarrow> nat list \<Rightarrow> nat option \<Rightarrow> nat \<Rightarrow> huft_heap
    \<Rightarrow> (nat \<times> nat option \<times> nat \<times> huft_heap) option" where
  "huft_build b n s d e t m heap =
     (if n = 0 \<or> length b < n then None
      else do {
        c \<leftarrow> count_lengths (take n b);
        if c ! 0 = n then Some (0, None, 0, heap)
        else
          let j = min_length c BMAX 1; g = max_length c BMAX; l = min (max m j) g
          in case missing_codes c j g (2 ^ j) of
               None \<Rightarrow> Some (2, t, l, heap)
             | Some y \<Rightarrow> do {
                 let c' = c[g := c ! g + nat y];
                 let x = length_offsets c g;
                 v \<leftarrow> sort_values (take n b) 0 x (replicate N_MAX None);
                 st \<leftarrow> all_codes l g c' n s d e v [j..<g + 1]
                   \<lparr>hi = 0, hp = 0, hh = -1, hw = - int l, hx = x[0 := 0], hu = replicate BMAX 0, hq = 0, hz = 0, hheap = heap\<rparr>;
                 Some (if y \<noteq> 0 \<and> g \<noteq> 1 then 1 else 0, Some (length heap), l, hheap st) } })"

section \<open>Bits\<close>

text \<open>\<open>NEEDBITS\<close> fills the bit buffer from the source, \<open>DUMPBITS\<close> removes bits from it.\<close>

function need_bits :: "'s byte_source \<Rightarrow> nat \<Rightarrow> u32 \<times> nat \<Rightarrow> 's \<Rightarrow> ((u32 \<times> nat) \<times> 's) option" where
  "need_bits src n (b, k) s =
     (if k < n
      then Option.bind (next_byte src s) (\<lambda>(x, s'). need_bits src n (b OR push_bit k (ucast x), k + 8) s')
      else Some ((b, k), s))"
  by pat_completeness auto
termination by (relation "measure (\<lambda>(src, n, (b, k), s). n - k)") auto

declare need_bits.simps [simp del]

definition dump_bits :: "nat \<Rightarrow> u32 \<times> nat \<Rightarrow> u32 \<times> nat" where
  "dump_bits n = (\<lambda>(b, k). (drop_bit n b, k - n))"

text \<open>Reading and removing a field of \<open>n\<close> bits.\<close>

definition get_bits :: "'s byte_source \<Rightarrow> nat \<Rightarrow> u32 \<times> nat \<Rightarrow> 's \<Rightarrow> (nat \<times> (u32 \<times> nat) \<times> 's) option" where
  "get_bits src n bk s =
     do { (bk', s') \<leftarrow> need_bits src n bk s;
          m \<leftarrow> rd mask_bits n;
          Some (unat (fst bk' AND m), dump_bits n bk', s') }"

section \<open>Decoding\<close>

text \<open>
  The walk through the tables for one code. The result is the entry at its end, or none for a code that is not
  valid; its bits are removed.
\<close>

partial_function (option) huft_walk :: "'s byte_source \<Rightarrow> huft_heap \<Rightarrow> nat \<Rightarrow> nat \<Rightarrow> u32 \<times> nat \<Rightarrow> 's
    \<Rightarrow> (huft option \<times> (u32 \<times> nat) \<times> 's) option" where
  "huft_walk src heap t bits bk s =
     Option.bind (need_bits src bits bk s) (\<lambda>(bk1, s1).
       Option.bind (rd mask_bits bits) (\<lambda>m.
         Option.bind (rd heap t) (\<lambda>tab.
           Option.bind (rd tab (unat (fst bk1 AND m))) (\<lambda>cell.
             Option.bind cell (\<lambda>r.
               if h_e r \<le> 16 then Some (Some r, dump_bits (h_b r) bk1, s1)
               else if h_e r = 99 then Some (None, bk1, s1)
               else huft_walk src heap (h_v r) (h_e r - 16) (dump_bits (h_b r) bk1) s1)))))"

section \<open>The window\<close>

text \<open>A copy inside the window byte by byte, and the loop of copies of one match.\<close>

fun copy_bytes :: "nat \<Rightarrow> nat \<Rightarrow> nat \<Rightarrow> u8 list \<Rightarrow> u8 list" where
  "copy_bytes 0 w d slide = slide"
| "copy_bytes (Suc n) w d slide = copy_bytes n (w + 1) (d + 1) (slide[w := slide ! d])"

text \<open>
  The loop ends when the match is copied or the window is full. \<open>noop\<close> says that an error is pending, so that \<open>memmove\<close>
  does nothing. The window position is below \<open>WSIZE\<close>, so that every copy but the last has a byte. The result has the window position, the distance pointer, the bytes that are left and the window.
\<close>

function copy_match :: "bool \<Rightarrow> nat \<Rightarrow> u32 \<Rightarrow> nat \<Rightarrow> u8 list \<Rightarrow> nat \<times> u32 \<times> nat \<times> u8 list" where
  "copy_match noop w d n slide =
     (let d' = d AND 0x7fff;
          e = min (WSIZE - max (unat d') w) n;
          slide' = (if of_nat e \<le> of_nat w - d'
                    then if noop then slide else overlay slide w (take e (drop (unat d') slide))
                    else copy_bytes e w (unat d') slide)
      in if w + e = WSIZE \<or> n - e = 0 \<or> e = 0 then (w + e, d' + of_nat e, n - e, slide')
         else copy_match noop (w + e) (d' + of_nat e) (n - e) slide')"
  by pat_completeness auto
termination by (relation "measure (\<lambda>(noop, w, d, n, slide). n)") (auto simp: Let_def)

declare copy_match.simps [simp del]

section \<open>Blocks\<close>

datatype code_step = Bad_Code | Literal u8 | End_Block | Match nat u32

text \<open>One code of a block, with the distance code that follows a length.\<close>

definition decode_code :: "'s byte_source \<Rightarrow> gz_vars \<Rightarrow> nat \<Rightarrow> u32 \<times> nat \<Rightarrow> 's \<Rightarrow> (code_step \<times> (u32 \<times> nat) \<times> 's) option" where
  "decode_code src g w bk s =
     do { tl \<leftarrow> gz_tl g;
          (r, bk1, s1) \<leftarrow> huft_walk src (gz_heap g) tl (gz_bl g) bk s;
          case r of
            None \<Rightarrow> Some (Bad_Code, bk1, s1)
          | Some t \<Rightarrow>
              if h_e t = 16 then Some (Literal (of_nat (h_v t)), bk1, s1)
              else if h_e t = 15 then Some (End_Block, bk1, s1)
              else do {
                (x, bk2, s2) \<leftarrow> get_bits src (h_e t) bk1 s1;
                td \<leftarrow> gz_td g;
                (r', bk3, s3) \<leftarrow> huft_walk src (gz_heap g) td (gz_bd g) bk2 s2;
                case r' of
                  None \<Rightarrow> Some (Bad_Code, bk3, s3)
                | Some t' \<Rightarrow> do {
                    (y, bk4, s4) \<leftarrow> get_bits src (h_e t') bk3 s3;
                    Some (Match (h_v t + x) (of_nat w - of_nat (h_v t') - of_nat y), bk4, s4) } } }"

text \<open>The local copies of the variables go back.\<close>

definition codes_done :: "gz_vars \<Rightarrow> nat \<Rightarrow> u32 \<Rightarrow> u32 \<times> nat \<Rightarrow> nat \<Rightarrow> gz_vars" where
  "codes_done g n d bk w = g\<lparr>inflate_d := d, inflate_n := n, gz_wp := w, gz_bb := fst bk, gz_bk := snd bk\<rparr>"

partial_function (option) codes_loop :: "'s byte_source \<Rightarrow> gz_vars \<Rightarrow> nat \<Rightarrow> u32 \<Rightarrow> u32 \<times> nat \<Rightarrow> nat \<Rightarrow> 's
    \<Rightarrow> (bool \<times> gz_vars \<times> 's) option" where
  "codes_loop src g n d bk w s =
     Option.bind (if code_state g = 0 then decode_code src g w bk s else Some (Match n d, bk, s)) (\<lambda>(c, bk1, s1).
       case c of
         Bad_Code \<Rightarrow> Some (False, g, bad_data src s1)
       | Literal x \<Rightarrow>
           let g1 = g\<lparr>gz_slide := (gz_slide g)[w := x]\<rparr>
           in if w + 1 = WSIZE then Some (block_len g1 = 0, codes_done g1 n d bk1 (w + 1), s1)
              else codes_loop src g1 n d bk1 (w + 1) s1
       | End_Block \<Rightarrow> Some (True, codes_done (g\<lparr>block_len := 0\<rparr>) n d bk1 w, s1)
       | Match n1 d1 \<Rightarrow>
           let (w', d', n', slide') = copy_match (failed src s1) w d1 n1 (gz_slide g);
               g1 = g\<lparr>gz_slide := slide', code_state := (if n' = 0 then 0 else 1)\<rparr>
           in if w' = WSIZE then Some (block_len g1 = 0, codes_done g1 n' d' bk1 w', s1)
              else codes_loop src g1 n' d' bk1 w' s1)"

definition inflate_codes_in_window :: "'s byte_source \<Rightarrow> gz_vars \<Rightarrow> 's \<Rightarrow> (bool \<times> gz_vars \<times> 's) option" where
  "inflate_codes_in_window src g s = codes_loop src g (inflate_n g) (inflate_d g) (gz_bb g, gz_bk g) (gz_wp g) s"

definition init_stored_block :: "'s byte_source \<Rightarrow> gz_vars \<Rightarrow> 's \<Rightarrow> (gz_vars \<times> 's) option" where
  "init_stored_block src g s =
     do { let bk = dump_bits (gz_bk g AND 7) (gz_bb g, gz_bk g);
          (len, bk1, s1) \<leftarrow> get_bits src 16 bk s;
          (bk2, s2) \<leftarrow> need_bits src 16 bk1 s1;
          let s3 = (if len \<noteq> unat (NOT (fst bk2) AND 0xffff) then bad_data src s2 else s2);
          let bk3 = dump_bits 16 bk2;
          Some (g\<lparr>block_len := len, gz_bb := fst bk3, gz_bk := snd bk3\<rparr>, s3) }"

definition fixed_lengths :: "nat list" where
  "fixed_lengths = replicate 144 8 @ replicate 112 9 @ replicate 24 7 @ replicate 8 8"

definition init_fixed_block :: "'s byte_source \<Rightarrow> gz_vars \<Rightarrow> 's \<Rightarrow> (gz_vars \<times> 's) option" where
  "init_fixed_block src g s =
     do { (r, tl, bl, heap) \<leftarrow> huft_build fixed_lengths 288 257 cplens cplext (gz_tl g) 7 (gz_heap g);
          let g1 = g\<lparr>gz_tl := tl, gz_bl := bl, gz_heap := heap\<rparr>;
          if r \<noteq> 0 then Some (g1, bad_data src s)
          else do {
            (r', td, bd, heap') \<leftarrow> huft_build (overlay fixed_lengths 0 (replicate 30 5)) 30 0 cpdist cpdext (gz_td g1) 5 (gz_heap g1);
            let g2 = g1\<lparr>gz_td := td, gz_bd := bd, gz_heap := heap'\<rparr>;
            Some (if r' > 1 then (g2, bad_data src s) else (g2\<lparr>code_state := 0, block_len := block_len g2 + 1\<rparr>, s)) } }"

text \<open>The lengths of the code for lengths, in the order of \<open>bitorder\<close>.\<close>

fun bit_lengths :: "'s byte_source \<Rightarrow> nat list \<Rightarrow> nat list \<Rightarrow> u32 \<times> nat \<Rightarrow> 's \<Rightarrow> (nat list \<times> (u32 \<times> nat) \<times> 's) option" where
  "bit_lengths src [] ll bk s = Some (ll, bk, s)"
| "bit_lengths src (i # is) ll bk s =
     do { (x, bk1, s1) \<leftarrow> get_bits src 3 bk s; ll' \<leftarrow> wr ll i x; bit_lengths src is ll' bk1 s1 }"

text \<open>
  The lengths of the literal and distance codes; \<open>l\<close> is the last length. The result none is a
  repetition that goes beyond the last length.
\<close>

partial_function (option) code_lengths :: "'s byte_source \<Rightarrow> huft option list \<Rightarrow> nat \<Rightarrow> nat \<Rightarrow> nat list \<Rightarrow> nat \<Rightarrow> nat \<Rightarrow> u32 \<times> nat \<Rightarrow> 's
    \<Rightarrow> (nat list option \<times> (u32 \<times> nat) \<times> 's) option" where
  "code_lengths src tab bl n ll i l bk s =
     (if n \<le> i then Some (Some ll, bk, s)
      else Option.bind (need_bits src bl bk s) (\<lambda>(bk1, s1).
        Option.bind (rd mask_bits bl) (\<lambda>m.
          Option.bind (rd tab (unat (fst bk1 AND m))) (\<lambda>cell.
            Option.bind cell (\<lambda>r.
              if h_v r < 16
              then Option.bind (wr ll i (h_v r)) (\<lambda>ll'.
                     code_lengths src tab bl n ll' (i + 1) (h_v r) (dump_bits (h_b r) bk1) s1)
              else
                let (bits, base, val) = (if h_v r = 16 then (2, 3, l) else if h_v r = 17 then (3, 3, 0) else (7, 11, 0))
                in Option.bind (get_bits src bits (dump_bits (h_b r) bk1) s1) (\<lambda>(x, bk2, s2).
                     if n < i + (base + x) then Some (None, bk2, s2)
                     else code_lengths src tab bl n (overlay ll i (replicate (base + x) val)) (i + (base + x)) val bk2 s2))))))"

text \<open>
  \<open>init_dynamic_block\<close>. The loop over the code lengths uses \<open>td\<close> for the entry it looks up; only after an error, when no code is decoded any more, could that be seen.
\<close>

definition init_dynamic_block :: "'s byte_source \<Rightarrow> gz_vars \<Rightarrow> 's \<Rightarrow> (gz_vars \<times> 's) option" where
  "init_dynamic_block src g s =
     do { (nl0, bk1, s1) \<leftarrow> get_bits src 5 (gz_bb g, gz_bk g) s;
          (nd0, bk2, s2) \<leftarrow> get_bits src 5 bk1 s1;
          (nb0, bk3, s3) \<leftarrow> get_bits src 4 bk2 s2;
          let nl = 257 + nl0;
          let nd = 1 + nd0;
          let nb = 4 + nb0;
          if 286 < nl \<or> 30 < nd then Some (g, bad_data src s3)
          else do {
            (ll, bk4, s4) \<leftarrow> bit_lengths src (take nb bitorder) (replicate 316 0) bk3 s3;
            (r, tl, bl, heap) \<leftarrow> huft_build ll 19 19 [] [] (gz_tl g) 7 (gz_heap g);
            let g1 = g\<lparr>gz_tl := tl, gz_bl := bl, gz_heap := heap\<rparr>;
            if r \<noteq> 0 then Some (g1, bad_data src s4)
            else do {
              t \<leftarrow> tl;
              tab \<leftarrow> rd heap t;
              (ls, bk5, s5) \<leftarrow> code_lengths src tab bl (nl + nd) ll 0 0 bk4 s4;
              case ls of
                None \<Rightarrow> Some (g1, bad_data src s5)
              | Some ll' \<Rightarrow> do {
                  let g2 = (reset_linalloc g1)\<lparr>gz_bb := fst bk5, gz_bk := snd bk5\<rparr>;
                  (r1, tl', bl', heap1) \<leftarrow> huft_build ll' nl 257 cplens cplext (gz_tl g2) 9 (gz_heap g2);
                  let g3 = g2\<lparr>gz_tl := tl', gz_bl := bl', gz_heap := heap1\<rparr>;
                  if r1 \<noteq> 0 then Some (g3, bad_data src s5)
                  else do {
                    (r2, td', bd', heap2) \<leftarrow> huft_build (drop nl ll') nd 0 cpdist cpdext (gz_td g3) 6 (gz_heap g3);
                    let g4 = g3\<lparr>gz_td := td', gz_bd := bd', gz_heap := heap2\<rparr>;
                    Some (if r2 \<noteq> 0 then (g4, bad_data src s5)
                          else (g4\<lparr>code_state := 0, block_len := block_len g4 + 1\<rparr>, s5)) } } } } }"

definition get_new_block :: "'s byte_source \<Rightarrow> gz_vars \<Rightarrow> 's \<Rightarrow> (gz_vars \<times> 's) option" where
  "get_new_block src g s =
     do { (lb, bk1, s1) \<leftarrow> get_bits src 1 (gz_bb g, gz_bk g) s;
          (bt, bk2, s2) \<leftarrow> get_bits src 2 bk1 s1;
          let g1 = g\<lparr>last_block := (lb \<noteq> 0), block_type := bt, gz_bb := fst bk2, gz_bk := snd bk2\<rparr>;
          if bt = 0 then init_stored_block src g1 s2
          else if bt = 1 then init_fixed_block src g1 s2
          else if bt = 2 then init_dynamic_block src g1 s2
          else Some (g1, s2) }"

text \<open>The bytes of a stored block, up to the end of the window.\<close>

fun stored_bytes :: "'s byte_source \<Rightarrow> nat \<Rightarrow> nat \<Rightarrow> u8 list \<Rightarrow> 's \<Rightarrow> (nat \<times> nat \<times> u8 list \<times> 's) option" where
  "stored_bytes src 0 w slide s = Some (0, w, slide, s)"
| "stored_bytes src (Suc n) w slide s =
     (if w < WSIZE \<and> \<not> failed src s
      then Option.bind (next_byte src s) (\<lambda>(x, s'). stored_bytes src n (w + 1) (slide[w := x]) s')
      else Some (Suc n, w, slide, s))"

partial_function (option) window_loop :: "'s byte_source \<Rightarrow> gz_vars \<Rightarrow> 's \<Rightarrow> (bool \<times> gz_vars \<times> 's) option" where
  "window_loop src g s =
     (if \<not> (gz_wp g < WSIZE \<and> \<not> failed src s) \<or> block_len g = 0 \<and> last_block g then Some (True, g, s)
      else Option.bind (if block_len g = 0 then get_new_block src g s else Some (g, s)) (\<lambda>(g1, s1).
        let s2 = (if 2 < block_type g1 then bad_data src s1 else s1)
        in if failed src s2 then Some (False, g1, s2)
           else if block_type g1 = 0
           then Option.bind (stored_bytes src (block_len g1) (gz_wp g1) (gz_slide g1) s2) (\<lambda>(n, w, slide, s3).
                  window_loop src (g1\<lparr>block_len := n, gz_wp := w, gz_slide := slide\<rparr>) s3)
           else Option.bind (inflate_codes_in_window src g1 s2) (\<lambda>(ended, g2, s3).
                  window_loop src (if ended then reset_linalloc g2 else g2) s3)))"

text \<open>The result of \<open>inflate_window\<close>; an error return does not count the window.\<close>

definition inflate_window :: "'s byte_source \<Rightarrow> gz_vars \<Rightarrow> 's \<Rightarrow> (gz_vars \<times> 's) option" where
  "inflate_window src g s =
     do { (through, g1, s1) \<leftarrow> window_loop src (g\<lparr>gz_wp := 0\<rparr>) s;
          Some (if through then g1\<lparr>saved_filepos := saved_filepos g1 + int WSIZE\<rparr> else g1, s1) }"
declare huft_walk.simps [code] codes_loop.simps [code] code_lengths.simps [code] window_loop.simps [code]

section \<open>Code sets with too many codes\<close>

text \<open>The sum of Kraft's inequality for the lengths that are used, in units of the longest code.\<close>

definition kraft :: "nat list \<Rightarrow> nat" where
  "kraft b = sum_list (map (\<lambda>l. if l = 0 then 0 else 2 ^ (BMAX - l)) b)"

lemma count_lengths_fold:
  assumes "\<forall>l \<in> set b. l \<le> BMAX" and "length c = BMAX + 1"
  shows "\<exists>c'. fold (\<lambda>l c. do { c \<leftarrow> c; x \<leftarrow> rd c l; wr c l (x + 1) }) b (Some c) = Some c' \<and> length c' = BMAX + 1
    \<and> (\<forall>i \<le> BMAX. c' ! i = c ! i + count_list b i)"
  using assms
proof (induction b arbitrary: c)
  case Nil
  then show ?case by simp
next
  case (Cons l b)
  have l: "l < length c" using Cons.prems by simp
  then obtain c' where "fold (\<lambda>l c. do { c \<leftarrow> c; x \<leftarrow> rd c l; wr c l (x + 1) }) b (Some (c[l := c ! l + 1])) = Some c'"
    "length c' = BMAX + 1" "\<forall>i \<le> BMAX. c' ! i = c[l := c ! l + 1] ! i + count_list b i"
    using Cons.IH [of "c[l := c ! l + 1]"] Cons.prems by auto
  then show ?case using l Cons.prems(2) by (intro exI [of _ c']) (auto simp: nth_list_update)
qed

lemma count_lengths_counts:
  assumes "\<forall>l \<in> set b. l \<le> BMAX"
  shows "\<exists>c. count_lengths b = Some c \<and> length c = BMAX + 1 \<and> (\<forall>i \<le> BMAX. c ! i = count_list b i)"
  using count_lengths_fold [OF assms, of "replicate (BMAX + 1) 0"] by (auto simp: count_lengths_def nth_Cons')

lemma count_all: "count_list xs x = length xs \<longleftrightarrow> (\<forall>y \<in> set xs. y = x)"
proof (induction xs)
  case (Cons y xs)
  then show ?case using count_le_length [of xs x] by auto
qed simp

lemma kraft_counts:
  assumes "\<forall>l \<in> set b. l \<le> BMAX"
  shows "kraft b = (\<Sum>i = 1..BMAX. count_list b i * 2 ^ (BMAX - i))"
  using assms
proof (induction b)
  case Nil
  then show ?case by (simp add: kraft_def)
next
  case (Cons l b)
  have "(\<Sum>i = 1..BMAX. count_list (l # b) i * 2 ^ (BMAX - i))
      = (\<Sum>i = 1..BMAX. count_list b i * 2 ^ (BMAX - i)) + (\<Sum>i = 1..BMAX. if i = l then 2 ^ (BMAX - i) else 0)"
    unfolding sum.distrib [symmetric] by (rule sum.cong) auto
  also have "(\<Sum>i = 1..BMAX. if i = l then 2 ^ (BMAX - i) else 0) = (if l = 0 then 0 else 2 ^ (BMAX - l) :: nat)"
    using Cons.prems by (auto simp: sum.delta)
  finally show ?case using Cons by (simp add: kraft_def)
qed

lemma min_length_spec:
  assumes "j \<le> k" and "k < j + n" and "c ! k \<noteq> 0"
  shows "j \<le> min_length c n j \<and> min_length c n j \<le> k \<and> c ! min_length c n j \<noteq> 0 \<and> (\<forall>i. j \<le> i \<longrightarrow> i < min_length c n j \<longrightarrow> c ! i = 0)"
  using assms
proof (induction n arbitrary: j)
  case (Suc n)
  show ?case
  proof (cases "c ! j \<noteq> 0")
    case False
    then have "j + 1 \<le> k" using Suc.prems by (cases "j = k") auto
    then have ih: "j + 1 \<le> min_length c n (j + 1)" "min_length c n (j + 1) \<le> k" "c ! min_length c n (j + 1) \<noteq> 0"
      "\<forall>i. j + 1 \<le> i \<longrightarrow> i < min_length c n (j + 1) \<longrightarrow> c ! i = 0"
      using Suc.IH [of "j + 1"] Suc.prems by auto
    have "c ! i = 0" if "j \<le> i" "i < min_length c n (j + 1)" for i using that False ih(4) by (cases "i = j") auto
    then show ?thesis using ih False by auto
  qed (use Suc.prems in auto)
qed simp

lemma max_length_spec:
  assumes "1 \<le> k" and "k \<le> n" and "c ! k \<noteq> 0"
  shows "k \<le> max_length c n \<and> max_length c n \<le> n \<and> (\<forall>i. max_length c n < i \<longrightarrow> i \<le> n \<longrightarrow> c ! i = 0)"
  using assms
proof (induction n)
  case (Suc n)
  show ?case
  proof (cases "c ! Suc n \<noteq> 0")
    case False
    then have "k \<le> n" using Suc.prems by (cases "k = Suc n") auto
    then show ?thesis using Suc False by (auto simp: le_Suc_eq)
  qed (use Suc.prems in auto)
qed simp

lemma missing_codes_None:
  "j \<le> g \<Longrightarrow> missing_codes c j g y = None \<longleftrightarrow> y * 2 ^ (g - j) < (\<Sum>i = j..g. int (c ! i) * 2 ^ (g - i))"
proof (induction "g - j" arbitrary: j y)
  case 0
  then show ?case by (subst missing_codes.simps) (auto simp: Let_def)
next
  case (Suc k)
  then have j: "j < g" "j + 1 \<le> g" by auto
  have pow: "(2 :: int) ^ (g - j) = 2 * 2 ^ (g - (j + 1))" using j by (simp add: Suc_diff_Suc flip: power_Suc)
  have sum: "(\<Sum>i = j..g. int (c ! i) * 2 ^ (g - i)) = int (c ! j) * 2 ^ (g - j) + (\<Sum>i = j + 1..g. int (c ! i) * 2 ^ (g - i))"
    using j by (simp add: sum.atLeast_Suc_atMost)
  have nonneg: "0 \<le> (\<Sum>i = j + 1..g. int (c ! i) * 2 ^ (g - i))" by (intro sum_nonneg) auto
  let ?y = "y - int (c ! j)"
  show ?case
  proof (cases "?y < 0")
    case True
    then have "?y * 2 ^ (g - j) < 0" by (simp add: mult_neg_pos)
    then have "y * 2 ^ (g - j) < int (c ! j) * 2 ^ (g - j)" by (simp add: algebra_simps)
    then have "y * 2 ^ (g - j) < (\<Sum>i = j..g. int (c ! i) * 2 ^ (g - i))" using sum nonneg by linarith
    moreover have "missing_codes c j g y = None" using True j by (subst missing_codes.simps) (simp add: Let_def)
    ultimately show ?thesis by simp
  next
    case False
    then have "missing_codes c j g y = missing_codes c (j + 1) g (2 * ?y)" using j by (subst missing_codes.simps) (simp add: Let_def)
    moreover have "2 * ?y * 2 ^ (g - (j + 1)) = y * 2 ^ (g - j) - int (c ! j) * 2 ^ (g - j)" unfolding pow by (simp add: algebra_simps)
    ultimately show ?thesis using Suc.hyps(1) [of "j + 1" "2 * ?y"] Suc.hyps(2) j sum by auto
  qed
qed

text \<open>
  C31. \<open>huft_build\<close> refuses a set of code lengths with the result 2 if and only if it has more codes than there are bit
  patterns, that is, if the sum of Kraft's inequality is above 1. (The lengths are at most \<open>BMAX\<close>, as in a deflated stream.)
  Lengths that are all 0 are not refused: the result is 0 for them, and not 2 as the comment above the function says.
\<close>

theorem huft_build_oversubscribed:
  assumes "0 < n" and "n \<le> length b" and "\<forall>l \<in> set (take n b). l \<le> BMAX"
  shows "(\<exists>t' m' heap'. huft_build b n s d e t m heap = Some (2, t', m', heap')) \<longleftrightarrow> 2 ^ BMAX < kraft (take n b)"
proof -
  let ?b = "take n b"
  obtain c where c: "count_lengths ?b = Some c" "length c = BMAX + 1" "\<forall>i \<le> BMAX. c ! i = count_list ?b i"
    using count_lengths_counts [OF assms(3)] by auto
  have len: "length ?b = n" using assms(2) by simp
  show ?thesis
  proof (cases "c ! 0 = n")
    case True
    then have "\<forall>l \<in> set ?b. l = 0" using c(3) len count_all [of ?b 0] by simp
    then have "kraft ?b = 0" by (simp add: kraft_def)
    then show ?thesis using True c(1) assms by (simp add: huft_build_def)
  next
    case False
    then obtain k where "k \<in> set ?b" "k \<noteq> 0"
      using c(3) len count_all [of ?b 0] by auto
    then have k: "1 \<le> k" "k \<le> BMAX" "c ! k \<noteq> 0" using assms(3) c(3) by (auto simp: count_list_0_iff)
    define j where "j = min_length c BMAX 1"
    define g where "g = max_length c BMAX"
    have j: "1 \<le> j" "j \<le> k" "\<forall>i. 1 \<le> i \<longrightarrow> i < j \<longrightarrow> c ! i = 0" using min_length_spec [of 1 k BMAX c] k by (auto simp: j_def)
    have g: "k \<le> g" "g \<le> BMAX" "\<forall>i. g < i \<longrightarrow> i \<le> BMAX \<longrightarrow> c ! i = 0" using max_length_spec [of k BMAX c] k by (auto simp: g_def)
    have two: "(\<exists>t' m' heap'. huft_build b n s d e t m heap = Some (2, t', m', heap')) \<longleftrightarrow> missing_codes c j g (2 ^ j) = None"
      using assms(1,2) c(1) False by (cases "missing_codes c j g (2 ^ j)") (simp_all add: huft_build_def Let_def j_def g_def Option.bind_eq_Some_conv)
    have "missing_codes c j g (2 ^ j) = None \<longleftrightarrow> 2 ^ g < (\<Sum>i = j..g. int (c ! i) * 2 ^ (g - i))"
      using missing_codes_None [of j g c "2 ^ j"] j g by (simp flip: power_add)
    also have "\<dots> \<longleftrightarrow> 2 ^ g * 2 ^ (BMAX - g) < (\<Sum>i = j..g. int (c ! i) * 2 ^ (g - i)) * 2 ^ (BMAX - g)" by simp
    also have "(\<Sum>i = j..g. int (c ! i) * 2 ^ (g - i)) * 2 ^ (BMAX - g) = (\<Sum>i = j..g. int (c ! i) * 2 ^ (BMAX - i))"
      unfolding sum_distrib_right using g(2) by (intro sum.cong) (auto simp flip: power_add)
    also have "\<dots> = (\<Sum>i = 1..BMAX. int (c ! i) * 2 ^ (BMAX - i))"
      using j g by (intro sum.mono_neutral_left) auto
    also have "\<dots> = int (kraft ?b)" unfolding kraft_counts [OF assms(3)] of_nat_sum using c(3) by (intro sum.cong) auto
    also have "(2 :: int) ^ g * 2 ^ (BMAX - g) = 2 ^ BMAX" using g(2) by (simp flip: power_add)
    finally show ?thesis unfolding two by (metis of_nat_less_iff of_nat_numeral of_nat_power)
  qed
qed

lemma huft_build_oversubscribed_witness:
  "\<exists>t' m' heap'. huft_build [1, 1, 1] 3 3 [] [] None 7 [] = Some (2, t', m', heap')"
  using huft_build_oversubscribed [of 3 "[1, 1, 1]" 3 "[]" "[]" None 7 "[]"] by (simp add: kraft_def BMAX_def)

section \<open>Matches\<close>

text \<open>What a match means: byte by byte, the byte \<open>dist\<close> positions back is appended to the output.\<close>

primrec lz_copy :: "nat \<Rightarrow> nat \<Rightarrow> 'a list \<Rightarrow> 'a list" where
  "lz_copy dist 0 out = out"
| "lz_copy dist (Suc n) out = lz_copy dist n (out @ [out ! (length out - dist)])"

lemma lz_copy_short:
  "n \<le> dist \<Longrightarrow> dist \<le> length out \<Longrightarrow> lz_copy dist n out = out @ take n (drop (length out - dist) out)"
proof (induction n arbitrary: out)
  case (Suc n)
  let ?x = "out ! (length out - dist)"
  have dr: "drop (length out - dist) out = ?x # drop (Suc (length out - dist)) out"
    using Suc.prems by (intro Cons_nth_drop_Suc [symmetric]) auto
  have "lz_copy dist n (out @ [?x]) = (out @ [?x]) @ take n (drop (length (out @ [?x]) - dist) (out @ [?x]))"
    using Suc.prems by (intro Suc.IH) auto
  also have "take n (drop (length (out @ [?x]) - dist) (out @ [?x])) = take n (drop (Suc (length out - dist)) out)"
    using Suc.prems by (simp add: Suc_diff_le)
  finally show ?case using dr by simp
qed simp

lemma copy_bytes_lz:
  "d < w \<Longrightarrow> w + n \<le> length slide
     \<Longrightarrow> length (copy_bytes n w d slide) = length slide \<and> take (w + n) (copy_bytes n w d slide) = lz_copy (w - d) n (take w slide)
       \<and> drop (w + n) (copy_bytes n w d slide) = drop (w + n) slide"
proof (induction n arbitrary: w d slide)
  case (Suc n)
  let ?s = "slide[w := slide ! d]"
  have "take (w + 1) ?s = take w slide @ [slide ! d]" using Suc.prems by (simp add: take_Suc_conv_app_nth)
  moreover have "take w slide ! (length (take w slide) - (w - d)) = slide ! d" using Suc.prems by simp
  ultimately show ?case using Suc.IH [of "d + 1" "w + 1" ?s] Suc.prems by simp
qed simp

text \<open>
  C30. A match is copied as LZ77 defines it, also if it overlaps itself: for a distance inside the window and a length that
  fits into it, \<open>inflate_codes_in_window\<close> appends the bytes \<open>dist\<close> positions back one by one, whether it uses \<open>memmove\<close> or
  its own loop, and leaves the rest of the window as it was.
\<close>

theorem copy_match_lz77:
  assumes "length slide = WSIZE" and "1 \<le> dist" and "dist \<le> w" and "0 < n" and "w + n \<le> WSIZE"
  shows "\<exists>d' slide'. copy_match False w (of_nat w - of_nat dist) n slide = (w + n, d', 0, slide')
    \<and> take (w + n) slide' = lz_copy dist n (take w slide) \<and> drop (w + n) slide' = drop (w + n) slide"
proof -
  have w: "w \<le> 32768" "n \<le> 32768" using assms(5) by (auto simp: WSIZE_def)
  define d :: u32 where "d = of_nat w - of_nat dist"
  have d: "d = of_nat (w - dist)" using assms(3) by (simp add: d_def of_nat_diff)
  then have ud: "unat d = w - dist" using w by (simp add: unat_of_nat_below32)
  have "w - dist < 32768" using assms(2,3) w by simp
  then have "take_bit 15 d = d" by (simp add: d take_bit_of_nat take_bit_nat_eq_self)
  then have mask: "d AND 0x7fff = d" by (simp add: take_bit_eq_mask mask_eq_exp_minus_1)
  have e: "min (WSIZE - max (unat d) w) n = n" using ud assms(5) by simp
  have "of_nat w - d = of_nat dist" by (simp add: d_def)
  then have cmp: "(of_nat n \<le> of_nat w - d) \<longleftrightarrow> n \<le> dist"
    using w assms(3) by (simp add: word_le_nat_alt unat_of_nat_below32)
  define slide' where "slide' = (if n \<le> dist then overlay slide w (take n (drop (w - dist) slide)) else copy_bytes n w (w - dist) slide)"
  have "copy_match False w d n slide = (w + n, d + of_nat n, 0, slide')"
    unfolding copy_match.simps [of False w d] Let_def mask e cmp by (simp add: slide'_def ud)
  moreover have "take (w + n) slide' = lz_copy dist n (take w slide) \<and> drop (w + n) slide' = drop (w + n) slide"
  proof (cases "n \<le> dist")
    case True
    have "lz_copy dist n (take w slide) = take w slide @ take n (drop (w - dist) (take w slide))"
      using lz_copy_short [of n dist "take w slide"] True assms by simp
    also have "take n (drop (w - dist) (take w slide)) = take n (drop (w - dist) slide)"
      using True assms by (simp add: drop_take min_def)
    finally show ?thesis using True assms by (simp add: slide'_def overlay_def)
  next
    case False
    then show ?thesis using copy_bytes_lz [of "w - dist" w n slide] assms by (simp add: slide'_def)
  qed
  ultimately show ?thesis unfolding d_def by blast
qed

lemma copy_match_lz77_witness:
  "\<exists>d' slide'. copy_match False 2 (of_nat 2 - of_nat 1) 3 ([1, 2] @ replicate 32766 0) = (2 + 3, d', 0, slide') \<and> take (2 + 3) slide' = [1, 2, 2, 2, 2]"
  using copy_match_lz77 [of "[1, 2] @ replicate 32766 0" 1 2 3] by (auto simp: WSIZE_def numeral_3_eq_3)

section \<open>Stored blocks\<close>

text \<open>
  What inflate relies on in its source: as long as bytes are left, it delivers them in order and without an error.
\<close>

locale byte_stream =
  fixes src :: "'s byte_source" and left :: "'s \<Rightarrow> u8 list \<Rightarrow> bool"
  assumes delivers: "left s (x # xs) \<Longrightarrow> \<exists>s'. next_byte src s = Some (x, s') \<and> left s' xs"
    and clean: "left s xs \<Longrightarrow> \<not> failed src s"

text \<open>The encoding of stored blocks.\<close>

definition stored_block :: "bool \<Rightarrow> u8 list \<Rightarrow> u8 list" where
  "stored_block final data =
     (let n = of_nat (length data) :: u16
      in [if final then 1 else 0, ucast n, ucast (drop_bit 8 n), ucast (NOT n), ucast (drop_bit 8 (NOT n))] @ data)"

fun stored_stream :: "u8 list list \<Rightarrow> u8 list" where
  "stored_stream [] = []"
| "stored_stream [d] = stored_block True d"
| "stored_stream (d # ds) = stored_block False d @ stored_stream ds"

lemma u16_bytes: "ucast (ucast n :: u8) OR push_bit 8 (ucast (ucast (drop_bit 8 n) :: u8)) = (ucast (n :: u16) :: u32)"
proof (rule bit_word_eqI)
  fix i :: nat
  assume "i < LENGTH(32)"
  then consider "i < 8" | "8 \<le> i" "i < 16" | "16 \<le> i" "i < 32" by fastforce
  then show "bit (ucast (ucast n :: u8) OR push_bit 8 (ucast (ucast (drop_bit 8 n) :: u8)) :: u32) i = bit (ucast n :: u32) i"
    by cases (auto simp: bit_simps dest: bit_imp_le_length)
qed

lemma u16_mask: "ucast (n :: u16) AND (0xffff :: u32) = ucast n" "NOT (ucast (NOT n)) AND (0xffff :: u32) = ucast (n :: u16)"
proof -
  have m: "(0xffff :: u32) = mask 16" by (simp add: mask_eq_exp_minus_1)
  have b: "bit n i \<Longrightarrow> i < 16" for i using bit_imp_le_length [of n i] by simp
  show "ucast (n :: u16) AND (0xffff :: u32) = ucast n" "NOT (ucast (NOT n)) AND (0xffff :: u32) = ucast (n :: u16)"
    unfolding m by (auto intro!: bit_word_eqI simp: bit_simps dest: b)
qed

lemma mask_bits_16: "rd mask_bits 16 = Some 0xffff" "rd mask_bits (Suc 0) = Some 1" "rd mask_bits 2 = Some 3"
  by (simp_all add: mask_bits_def rd_def)

lemma need_bits_there: "n \<le> k \<Longrightarrow> need_bits src n (b, k) s = Some ((b, k), s)"
  by (subst need_bits.simps) simp

context byte_stream
begin

lemma need_one:
  assumes "left s (x # xs)" and "0 < n" and "n \<le> 8"
  shows "\<exists>s'. need_bits src n (0, 0) s = Some ((ucast x, 8), s') \<and> left s' xs"
  using delivers [OF assms(1)] assms(2,3) by (subst need_bits.simps) (auto simp: need_bits_there)

lemma need_two:
  assumes "left s (x # y # xs)"
  shows "\<exists>s'. need_bits src 16 (0, 0) s = Some ((ucast x OR push_bit 8 (ucast y), 16), s') \<and> left s' xs"
proof -
  obtain s1 where s1: "next_byte src s = Some (x, s1)" "left s1 (y # xs)" using delivers [OF assms] by blast
  obtain s2 where s2: "next_byte src s1 = Some (y, s2)" "left s2 xs" using delivers [OF s1(2)] by blast
  have "need_bits src 16 (ucast x, 8) s1 = Some ((ucast x OR push_bit 8 (ucast y), 16), s2)"
    using s2(1) by (subst need_bits.simps) (simp add: need_bits_there)
  then show ?thesis using s1(1) s2(2) by (subst need_bits.simps) auto
qed

lemma stored_header:
  assumes "left s (stored_block final data @ rest_bytes)" and "length data < 65536" and "gz_bb g = 0" and "gz_bk g = 0"
  shows "\<exists>s'. get_new_block src g s
      = Some (g\<lparr>last_block := final, block_type := 0, block_len := length data, gz_bb := 0, gz_bk := 0\<rparr>, s') \<and> left s' (data @ rest_bytes)"
proof -
  define n where "n = (of_nat (length data) :: u16)"
  define h where "h = (if final then 1 else 0 :: u8)"
  have un: "unat (ucast n :: u32) = length data"
    using assms(2) by (simp add: n_def unsigned_ucast_eq unat_of_nat take_bit_nat_def)
  have left: "left s (h # ucast n # ucast (drop_bit 8 n) # ucast (NOT n) # ucast (drop_bit 8 (NOT n)) # data @ rest_bytes)"
    using assms(1) by (simp add: stored_block_def Let_def n_def h_def)
  obtain s1 where s1: "need_bits src 1 (0, 0) s = Some ((ucast h, 8), s1)"
      "left s1 (ucast n # ucast (drop_bit 8 n) # ucast (NOT n) # ucast (drop_bit 8 (NOT n)) # data @ rest_bytes)"
    using need_one [OF left, of 1] by auto
  obtain s2 where s2: "need_bits src 16 (0, 0) s1 = Some ((ucast n, 16), s2)"
      "left s2 (ucast (NOT n) # ucast (drop_bit 8 (NOT n)) # data @ rest_bytes)"
    using need_two [OF s1(2)] unfolding u16_bytes by blast
  obtain s3 where s3: "need_bits src 16 (0, 0) s2 = Some ((ucast (NOT n), 16), s3)" "left s3 (data @ rest_bytes)"
    using need_two [OF s2(2)] unfolding u16_bytes by blast
  have g1: "get_bits src 1 (0, 0) s = Some (if final then 1 else 0, (0, 7), s1)"
    using s1(1) by (simp add: get_bits_def mask_bits_16 dump_bits_def h_def)
  have g2: "get_bits src 2 (0, 7) s1 = Some (0, (0, 5), s1)"
    by (simp add: get_bits_def mask_bits_16 dump_bits_def need_bits_there)
  have d16: "drop_bit 16 (ucast (m :: u16) :: u32) = 0" for m
    by (rule bit_word_eqI) (use bit_imp_le_length [of m "16 + i" for i] in \<open>auto simp: bit_simps\<close>)
  have g3: "get_bits src 16 (0, 0) s1 = Some (length data, (0, 0), s2)"
    using s2(1) un by (simp add: get_bits_def mask_bits_16 dump_bits_def u16_mask d16)
  have five: "(5 :: nat) AND 7 = 5" by simp
  let ?g1 = "g\<lparr>last_block := final, block_type := 0, gz_bb := 0, gz_bk := 5\<rparr>"
  have "init_stored_block src ?g1 s1
      = Some (?g1\<lparr>block_len := length data, gz_bb := 0, gz_bk := 0\<rparr>, s3)"
    using g3 s3(1) un by (simp add: init_stored_block_def dump_bits_def five u16_mask d16 Let_def)
  then show ?thesis using g1 g2 s3(2) assms(3,4) by (cases final) (simp_all add: get_new_block_def)
qed

lemma stored_bytes_copy:
  assumes "left s (data @ rest_bytes)" and "w + length data \<le> WSIZE" and "length slide = WSIZE"
  shows "\<exists>s'. stored_bytes src (length data) w slide s = Some (0, w + length data, overlay slide w data, s') \<and> left s' rest_bytes"
  using assms
proof (induction data arbitrary: w slide s)
  case Nil
  then show ?case by simp
next
  case (Cons x data)
  obtain s1 where s1: "next_byte src s = Some (x, s1)" "left s1 (data @ rest_bytes)" using delivers Cons.prems(1) by fastforce
  obtain s' where "stored_bytes src (length data) (w + 1) (slide[w := x]) s1
      = Some (0, w + 1 + length data, overlay (slide[w := x]) (w + 1) data, s')" "left s' rest_bytes"
    using Cons.IH [OF s1(2), of "w + 1" "slide[w := x]"] Cons.prems(2,3) by auto
  then show ?case using s1(1) clean [OF Cons.prems(1)] Cons.prems(2,3) by (simp add: overlay_Cons)
qed

text \<open>The loop over the blocks of a window, for blocks that all fit into it.\<close>

lemma window_loop_stored:
  assumes "left s (stored_stream ds @ rest_bytes)" and "ds \<noteq> []" and "gz_wp g + length (concat ds) < WSIZE" and "length (gz_slide g) = WSIZE"
    and "gz_bb g = 0" and "gz_bk g = 0" and "block_len g = 0" and "\<not> last_block g"
  shows "\<exists>g' s'. window_loop src g s = Some (True, g', s') \<and> left s' rest_bytes \<and> gz_slide g' = overlay (gz_slide g) (gz_wp g) (concat ds)
    \<and> gz_wp g' = gz_wp g + length (concat ds) \<and> last_block g' \<and> block_len g' = 0 \<and> saved_filepos g' = saved_filepos g
    \<and> gzip_filepos g' = gzip_filepos g"
  using assms
proof (induction ds arbitrary: g s)
  case (Cons d ds)
  let ?more = "stored_stream ds @ rest_bytes"
  have left: "left s (stored_block (ds = []) d @ ?more)" using Cons.prems(1) by (cases ds) auto
  have len: "length d < 65536" "gz_wp g + length d \<le> WSIZE" "gz_wp g < WSIZE" using Cons.prems(3) by (auto simp: WSIZE_def)
  define g1 where "g1 = g\<lparr>last_block := (ds = []), block_type := 0, block_len := length d, gz_bb := 0, gz_bk := 0\<rparr>"
  obtain s1 where s1: "get_new_block src g s = Some (g1, s1)" "left s1 (d @ ?more)"
    using stored_header [OF left len(1) Cons.prems(5,6)] by (auto simp: g1_def)
  obtain s2 where s2: "stored_bytes src (length d) (gz_wp g) (gz_slide g) s1 = Some (0, gz_wp g + length d, overlay (gz_slide g) (gz_wp g) d, s2)"
    "left s2 ?more"
    using stored_bytes_copy [OF s1(2) len(2) Cons.prems(4)] by auto
  define g2 where "g2 = g1\<lparr>block_len := 0, gz_wp := gz_wp g + length d, gz_slide := overlay (gz_slide g) (gz_wp g) d\<rparr>"
  have "\<not> failed src s" "\<not> failed src s1" using clean left s1(2) by auto
  then have step: "window_loop src g s = window_loop src g2 s2"
    using s1(1) s2(1) len(3) Cons.prems(7,8) by (subst window_loop.simps) (simp add: g1_def g2_def)
  have ov: "overlay (overlay (gz_slide g) (gz_wp g) d) (gz_wp g + length d) xs = overlay (gz_slide g) (gz_wp g) (d @ xs)"
    if "gz_wp g + length d + length xs \<le> WSIZE" for xs
    using that Cons.prems(4) by (simp add: overlay_def ac_simps)
  show ?case
  proof (cases "ds = []")
    case True
    then have "window_loop src g2 s2 = Some (True, g2, s2)" by (subst window_loop.simps) (simp add: g2_def g1_def)
    then show ?thesis using step True s2(2) by (auto simp: g2_def g1_def)
  next
    case False
    obtain g' s' where "window_loop src g2 s2 = Some (True, g', s')" "left s' rest_bytes"
      "gz_slide g' = overlay (gz_slide g2) (gz_wp g2) (concat ds)" "gz_wp g' = gz_wp g2 + length (concat ds)" "last_block g'" "block_len g' = 0"
      "saved_filepos g' = saved_filepos g2" "gzip_filepos g' = gzip_filepos g2"
      using Cons.IH [OF s2(2) False, of g2] Cons.prems(3,4) len(2) False by (auto simp: g2_def g1_def)
    then show ?thesis unfolding step using ov [of "concat ds"] Cons.prems(3) by (auto simp: g2_def g1_def)
  qed
qed simp

end

end
