(* ===== verification/FileIo.thy ===== *)
theory FileIo
  imports Partition Measure Inflate
begin

text \<open>
  Files, the end of \<^verbatim>\<open>stage2/disk_io.c\<close>: opening, reading, seeking and closing a file, with the
  measurement that TrustedGRUB adds to them. Every byte read while \<open>perform_sha1\<close> is set goes into
  a running SHA-1 hash, which \<open>grub_close\<close> extends into the kernel register of the TPM.

  The file system drivers are the entries of a table as in the code, the decompressor two functions
  of the environment. The memory a read stores to is a list, with its old contents as an argument.
\<close>

section \<open>State and environment\<close>

text \<open>
  A driver works on the device: \<open>read_func\<close> gets \<open>disk_read_hook\<close>, the file position and the
  length and yields its result, the bytes it has stored, and the new position; \<open>dir_func\<close> gets
  whether completions are listed, the path and \<open>filemax\<close>, and yields its result and \<open>filemax\<close>.
  The result none is an access out of bounds or a loop that does not end.
\<close>

record 'w fsys_entry =
  mount_func :: "'w mount_fun"
  read_func :: "bool \<Rightarrow> int \<Rightarrow> int \<Rightarrow> 'w dev_state \<Rightarrow> (int \<times> u8 list \<times> int \<times> 'w dev_state) option"
  dir_func :: "bool \<Rightarrow> u8 list \<Rightarrow> int \<Rightarrow> 'w dev_state \<Rightarrow> (bool \<times> int \<times> 'w dev_state) option"
  close_func :: "('w dev_state \<Rightarrow> 'w dev_state) option"

record ('w, 't) file_state =
  dev :: "'w dev_state"
  filepos :: int
  filemax :: int
  fsmax :: int
  compressed_file :: bool
  block_file :: bool
  blk_list :: "(int \<times> int) list"
  blk_filepos :: int
  blk_cur :: nat
  blk_num :: int
  disk_read_hook :: bool
  perform_sha1 :: bool
  measure_kernel :: bool
  my_sha1 :: "32 sha1_context"
  sha1_byte_count :: int
  sha1_has_to_measure :: int
  kernel_filesize :: int
  kernel_compressed_filesize :: int
  kernel_mem :: "u8 list"
  kernel_real_addr :: u32
  no_decompression :: bool
  old_perform_sha1_value :: bool
  gzip_data_offset :: int
  gz_inbuf :: "u8 list"
  gz_bufloc :: nat
  gz :: gz_vars
  tcg :: "tcg_mem \<times> 't"

record ('w, 't) file_env =
  int13_of :: "'w int13"
  fsys_table :: "'w fsys_entry list"
  gunzip_read :: "u8 list \<Rightarrow> int \<Rightarrow> ('w, 't) file_state \<Rightarrow> (int \<times> u8 list \<times> ('w, 't) file_state) option"
  gunzip_test_header :: "('w, 't) file_state \<Rightarrow> (bool \<times> ('w, 't) file_state) option"
  int1a_of :: "'t bios"
  tpm_present :: u32
  junk_iter :: part_iter

abbreviation ferr :: "('w, 't) file_state \<Rightarrow> grub_error_t" where
  "ferr s \<equiv> err_of (dev s)"

definition set_ferr :: "grub_error_t \<Rightarrow> ('w, 't) file_state \<Rightarrow> ('w, 't) file_state" where
  "set_ferr e s = s\<lparr>dev := set_err e (dev s)\<rparr>"

section \<open>Reading\<close>

text \<open>
  Block lists: \<open>BLK_CUR_FILEPOS\<close> runs up to the file position, and with it the block number and
  the list entry.
\<close>

function blk_advance :: "(int \<times> int) list \<Rightarrow> int \<Rightarrow> int \<times> nat \<times> int \<Rightarrow> (int \<times> nat \<times> int) option" where
  "blk_advance l pos (cur, i, num) =
     (if cur < pos
      then if pos - (cur - cur mod SECTOR_SIZE) \<ge> SECTOR_SIZE
           then if length l \<le> i then None
                else if num + 1 \<ge> snd (l ! i) then blk_advance l pos (cur + SECTOR_SIZE, Suc i, 0)
                else blk_advance l pos (cur + SECTOR_SIZE, i, num + 1)
           else Some (pos, i, num)
      else Some (cur, i, num))"
  by pat_completeness auto
termination
  by (relation "measure (\<lambda>(l, pos, cur, i, num). nat (pos - cur))") (auto simp: SECTOR_SIZE_def)

declare blk_advance.simps [simp del]

text \<open>The loop of \<open>grub_read\<close> over the pieces of a block list, with \<open>ret\<close> bytes read.\<close>

partial_function (option) blk_read_loop :: "'w int13 \<Rightarrow> int \<Rightarrow> int \<Rightarrow> u8 list \<Rightarrow> ('w, 't) file_state
    \<Rightarrow> (int \<times> u8 list \<times> ('w, 't) file_state) option" where
  "blk_read_loop b len ret buf s =
     (if len \<noteq> 0 \<and> ferr s = ERR_NONE
      then
        let start = (if filepos s < blk_filepos s then (0, 0, 0) else (blk_filepos s, blk_cur s, blk_num s))
        in Option.bind (blk_advance (blk_list s) (filepos s) start)
             (\<lambda>(cur, i, num).
                if length (blk_list s) \<le> i then None
                else
                  let (bstart, blen) = blk_list s ! i;
                      off = filepos s mod SECTOR_SIZE;
                      size = min len ((blen - num) * SECTOR_SIZE - off);
                      d = dev s
                  in Option.bind
                       (devread b (\<lambda>_ _. True) (sint (current_drive d)) (uint (part_start d)) (uint (part_length d))
                          (bstart + num) off size ((disk d)\<lparr>hook_on := disk_read_hook s\<rparr>))
                       (\<lambda>(ok, out, st).
                          blk_read_loop b (len - size) (ret + size) (overlay buf (nat ret) out)
                            (s\<lparr>blk_filepos := cur, blk_cur := i, blk_num := num, filepos := filepos s + size,
                               dev := d\<lparr>disk := st\<lparr>hook_on := False\<rparr>\<rparr>\<rparr>)))
      else Some (if ferr s = ERR_NONE then ret else 0, buf, s))"

definition sane_filepos :: "('w, 't) file_state \<Rightarrow> ('w, 't) file_state" where
  "sane_filepos s = (if filepos s < 0 \<or> filemax s < filepos s then s\<lparr>filepos := filemax s\<rparr> else s)"

text \<open>The update of the running hash with a buffer.\<close>

definition hash_more :: "u8 list \<Rightarrow> int \<Rightarrow> ('w, 't) file_state \<Rightarrow> ('w, 't) file_state option" where
  "hash_more data len s =
     do { (_, c) \<leftarrow> sha1_update (Some (my_sha1 s)) (Some data) (of_int len);
          ctx \<leftarrow> c;
          Some (s\<lparr>my_sha1 := ctx\<rparr>) }"

text \<open>
  The body of \<open>grub_read\<close>. It calls itself once, to read and hash what lies before the file
  position when nothing has been hashed yet; in that call \<open>perform_sha1\<close> is 0, so that it does
  not call itself again. The destination is an array of the boot loader, for which the check of \<open>grub_memmove\<close> passes; reads to an
  address of the machine are in \<^verbatim>\<open>Boot.thy\<close>.
\<close>

definition grub_read_body :: "('w, 't) file_env \<Rightarrow> (u8 list \<Rightarrow> int \<Rightarrow> ('w, 't) file_state \<Rightarrow> (int \<times> u8 list \<times> ('w, 't) file_state) option)
    \<Rightarrow> u8 list \<Rightarrow> int \<Rightarrow> ('w, 't) file_state \<Rightarrow> (int \<times> u8 list \<times> ('w, 't) file_state) option" where
  "grub_read_body env self buf len s0 =
     (let s1 = sane_filepos s0;
          s = (if sha1_has_to_measure s1 = 0 then s1\<lparr>sha1_has_to_measure := filemax s1\<rparr> else s1)
      in if measure_kernel s
         then if 0 \<le> len \<and> nat (filepos s + len) \<le> length (kernel_mem s)
              then Some (len, overlay buf 0 (take (nat len) (drop (nat (filepos s)) (kernel_mem s))),
                     s\<lparr>filepos := filepos s + len\<rparr>)
              else None
         else
           let len = (if len < 0 \<or> filemax s - filepos s < len then filemax s - filepos s else len)
           in if fsmax s < filepos s + len then Some (0, buf, set_ferr ERR_FILELENGTH s)
              else do {
                s2 \<leftarrow>
                  (if perform_sha1 s \<and> sha1_byte_count s = 0 \<and> 0 < filepos s
                   then do {
                     (_, zero_buffer, s') \<leftarrow> self (replicate (nat (filepos s)) 0) (filepos s)
                                               (s\<lparr>filepos := 0, perform_sha1 := False\<rparr>);
                     s'' \<leftarrow> hash_more zero_buffer (filepos s) (s'\<lparr>perform_sha1 := True\<rparr>);
                     Some (s''\<lparr>sha1_byte_count := sha1_byte_count s'' + filepos s''\<rparr>) }
                   else Some s);
                if compressed_file s2 then gunzip_read env buf len s2
                else if block_file s2 then blk_read_loop (int13_of env) len 0 buf s2
                else if fsys_type (dev s2) = length (fsys_table env) then Some (0, buf, set_ferr ERR_FSYS_MOUNT s2)
                else do {
                  (result, out, pos, d) \<leftarrow> read_func (fsys_table env ! fsys_type (dev s2)) (disk_read_hook s2) (filepos s2) len (dev s2);
                  let buf' = overlay buf 0 out;
                  let s3 = s2\<lparr>filepos := pos, dev := d\<rparr>;
                  if perform_sha1 s3
                  then do { s4 \<leftarrow> hash_more (take (nat len) buf') len s3;
                            Some (result, buf', s4\<lparr>sha1_byte_count := sha1_byte_count s4 + len\<rparr>) }
                  else Some (result, buf', s3) } })"

definition grub_read :: "('w, 't) file_env \<Rightarrow> u8 list \<Rightarrow> int \<Rightarrow> ('w, 't) file_state
    \<Rightarrow> (int \<times> u8 list \<times> ('w, 't) file_state) option" where
  "grub_read env = grub_read_body env (grub_read_body env (\<lambda>_ _ _. None))"

definition grub_seek :: "int \<Rightarrow> ('w, 't) file_state \<Rightarrow> int \<times> ('w, 't) file_state" where
  "grub_seek offset s = (if filemax s < offset \<or> offset < 0 then (-1, s) else (offset, s\<lparr>filepos := offset\<rparr>))"

section \<open>Closing\<close>

text \<open>Closing continues or stops the machine, if the user presses the escape key at the warning.\<close>

datatype 's close_result = Closed 's | Halted

definition close_driver :: "('w, 't) file_env \<Rightarrow> ('w, 't) file_state \<Rightarrow> ('w, 't) file_state" where
  "close_driver env s =
     (if block_file s then s
      else if fsys_type (dev s) < length (fsys_table env)
      then case close_func (fsys_table env ! fsys_type (dev s)) of
             Some f \<Rightarrow> s\<lparr>dev := f (dev s)\<rparr> | None \<Rightarrow> s
      else s)"

definition grub_close :: "('w, 't) file_env \<Rightarrow> bool \<Rightarrow> ('w, 't) file_state \<Rightarrow> ('w, 't) file_state close_result option" where
  "grub_close env escape s0 =
     (let s = s0\<lparr>measure_kernel := False\<rparr>
      in if perform_sha1 s
         then do {
           (_, c, hash_result) \<leftarrow> sha1_finish (Some (my_sha1 s)) (Some (replicate 5 0));
           ctx \<leftarrow> c;
           let s1 = s\<lparr>my_sha1 := ctx\<rparr>;
           if sha1_byte_count s1 \<noteq> sha1_has_to_measure s1
           then Some (if escape then Halted else Closed (close_driver env s1))
           else Some (Closed (close_driver env
                  (if tpm_present env = 0 then s1\<lparr>tcg := snd (update_pcr (int1a_of env) PCR_KERNEL hash_result (tcg s1))\<rparr>
                   else s1))) }
         else Some (Closed (close_driver env s)))"
section \<open>Opening\<close>

text \<open>The number of entries for which the area of block lists has room.\<close>

definition BLK_ENTRIES :: nat where "BLK_ENTRIES = 4094"

text \<open>
  The parser of block lists such as \<open>0+20,100+5\<close>. The result is the pointer after the last
  character it has consumed, the size, the entries and the device with its error code.
\<close>

definition blk_number :: "u8 list \<Rightarrow> (bool \<times> u8 list \<times> int) option" where
  "blk_number ptr =
     map_option (\<lambda>r. case r of Inl e \<Rightarrow> (False, ptr, 0) | Inr (ptr', v) \<Rightarrow> (True, ptr', uint v)) (safe_parse_maxint ptr)"

definition ends_name :: "u8 \<Rightarrow> bool" where
  "ends_name c \<longleftrightarrow> c = 0 \<or> c = 0x2f \<or> grub_isspace (sint c)"

fun blk_parse :: "nat \<Rightarrow> nat \<Rightarrow> u8 list \<Rightarrow> int \<Rightarrow> (int \<times> int) list \<Rightarrow> 'w dev_state
    \<Rightarrow> (u8 list \<times> int \<times> (int \<times> int) list \<times> 'w dev_state) option" where
  "blk_parse 0 num_fsys ptr maxpos l d = Some (ptr, maxpos, l, d)"
| "blk_parse (Suc n) num_fsys ptr maxpos l d =
     do { (_, ptr1, tmp) \<leftarrow> blk_number ptr;
          let d1 = set_err ERR_NONE d;
          c \<leftarrow> rd ptr1 0;
          if c \<noteq> 0x2b
          then Some (if \<not> ends_name c \<or> tmp = 0 \<or> maxpos < tmp then (ptr1, maxpos, l, set_err ERR_BAD_FILENAME d1)
                     else (ptr1, tmp, l, d1))
          else do {
            let d2 = d1\<lparr>fsys_type := num_fsys\<rparr>;
            (ok, ptr2, blen) \<leftarrow> blk_number (drop 1 ptr1);
            c2 \<leftarrow> rd ptr2 0;
            if \<not> ok \<or> blen = 0 \<or> \<not> (ends_name c2 \<or> c2 = 0x2c)
            then Some (ptr2, maxpos, l, set_err ERR_BAD_FILENAME d2)
            else
              let maxpos' = c_int (maxpos + blen * SECTOR_SIZE); l' = l @ [(tmp, blen)]
              in if c2 \<noteq> 0x2c then Some (ptr2, maxpos', l', d2)
                 else blk_parse n num_fsys (drop 1 ptr2) maxpos' l' d2 } }"

definition LINUX_BZIMAGE_ADDR :: u32 where "LINUX_BZIMAGE_ADDR = 0x100000"

text \<open>
  The part of \<open>grub_open\<close> that TrustedGRUB adds for a file that has been found: the test for a
  compressed file is not measured; a kernel is read into memory at once, and this read is measured. \<open>kernel_mem\<close> is what the
  memory holds from the address \<open>kernel_real_addr\<close> on.
\<close>

definition open_measured :: "('w, 't) file_env \<Rightarrow> ('w, 't) file_state \<Rightarrow> (bool \<times> ('w, 't) file_state) option" where
  "open_measured env s =
     do { let kernel = measure_kernel s;
          let s1 = (if kernel then s\<lparr>kernel_filesize := filemax s\<rparr> else s);
          (temp, s2) \<leftarrow> gunzip_test_header env (s1\<lparr>perform_sha1 := False, measure_kernel := False\<rparr>);
          let s3 = s2\<lparr>perform_sha1 := True, measure_kernel := kernel\<rparr>;
          if kernel
          then do {
           let s4 = s3\<lparr>kernel_compressed_filesize := filemax s3, kernel_real_addr := LINUX_BZIMAGE_ADDR + 2 * of_int (filemax s3), measure_kernel := False,
                       sha1_has_to_measure := kernel_filesize s3, filepos := 0\<rparr>;
           (_, mem, s5) \<leftarrow> grub_read env (kernel_mem s4)
             (if compressed_file s4 then kernel_compressed_filesize s4 else kernel_filesize s4) s4;
           Some (temp, s5\<lparr>kernel_mem := mem, filepos := 0, measure_kernel := True\<rparr>) }
         else Some (temp, s3) }"

text \<open>One attempt to open a name: the result of \<open>grub_open\<close>, or none for another attempt.\<close>

definition open_attempt :: "('w, 't) file_env \<Rightarrow> u8 list \<Rightarrow> ('w, 't) file_state
    \<Rightarrow> (bool option \<times> ('w, 't) file_state) option" where
  "open_attempt env fn s =
     do { ctx \<leftarrow> snd (sha1_init (Some (my_sha1 s)));
          let s0 = (set_ferr ERR_NONE s)\<lparr>my_sha1 := ctx, sha1_byte_count := 0, sha1_has_to_measure := 0,
                     kernel_filesize := 0, kernel_compressed_filesize := 0, compressed_file := False, filepos := 0\<rparr>;
          let n = length (fsys_table env);
          (r, d) \<leftarrow> setup_part (int13_of env) (map mount_func (fsys_table env)) (junk_iter env) fn (dev s0);
          let s1 = s0\<lparr>dev := d\<rparr>;
          case r of
            None \<Rightarrow> Some (if err_of d = ERR_FILE_NOT_FOUND then None else Some False, s1)
          | Some filename \<Rightarrow> do {
              c \<leftarrow> rd filename 0;
              let s2 = s1\<lparr>block_file := False, fsmax := uint MAXINT\<rparr>;
              (is_list, s3) \<leftarrow>
                (if c \<noteq> 0x2f
                 then do {
                   (ptr, maxpos, l, d') \<leftarrow> blk_parse BLK_ENTRIES n filename 0 [] (dev s2);
                   let s' = s2\<lparr>dev := d', filemax := maxpos\<rparr>;
                   if length l < BLK_ENTRIES \<and> length ptr \<noteq> length filename \<and> err_of d' = ERR_NONE
                   then Some (True, s'\<lparr>block_file := True, blk_list := l, blk_filepos := 0, blk_cur := 0, blk_num := 0\<rparr>)
                   else Some (False, s') }
                 else Some (False, s2));
              if is_list then do { (ok, s4) \<leftarrow> gunzip_test_header env s3; Some (Some ok, s4) }
              else
                let s4 = (if ferr s3 = ERR_NONE \<and> fsys_type (dev s3) = n then set_ferr ERR_FSYS_MOUNT s3 else s3)
                in if ferr s4 \<noteq> ERR_NONE then Some (None, s4)
                   else
                     do {
                       (found, size, d') \<leftarrow> dir_func (fsys_table env ! fsys_type (dev s4)) False filename (filemax s4) (dev s4);
                       let s5 = s4\<lparr>dev := d', filemax := size\<rparr>;
                       if \<not> found then Some (None, s5)
                       else
                         let s6 = s5\<lparr>filepos := 0\<rparr>
                         in if perform_sha1 s6
                            then map_option (\<lambda>(ok, s7). (Some ok, s7)) (open_measured env s6)
                            else do { (ok, s7) \<leftarrow> gunzip_test_header env s6; Some (Some ok, s7) } } } }"

text \<open>
  The attempts: the name itself, then the name as a directory with \<open>menu.lst\<close> or \<open>m\<close> in it.
  \<open>name\<close> is what the buffer \<open>fn\<close> of 1500 bytes holds in place of the name; it is copied only
  while no error is pending. A name that does not fit is out of bounds, and so is the last
  character of an empty name, which the second attempt looks at.
\<close>

fun open_tries :: "('w, 't) file_env \<Rightarrow> u8 list \<Rightarrow> u8 list \<Rightarrow> u8 list list \<Rightarrow> ('w, 't) file_state
    \<Rightarrow> (bool \<times> ('w, 't) file_state) option" where
  "open_tries env orig name [] s = Some (False, s)"
| "open_tries env orig name (sfx # tries) s =
     (if 1500 \<le> length name + length sfx then None
      else do {
        (r, s') \<leftarrow> open_attempt env (name @ sfx @ [0]) s;
        case r of
          Some ok \<Rightarrow> Some (ok, s')
        | None \<Rightarrow> open_tries env orig (if ferr s' = ERR_NONE then orig else name) tries s' })"

definition grub_open :: "('w, 't) file_env \<Rightarrow> u8 list \<Rightarrow> u8 list \<Rightarrow> ('w, 't) file_state
    \<Rightarrow> (bool \<times> ('w, 't) file_state) option" where
  "grub_open env junk filename s =
     (if filename = []
      then do { (r, s') \<leftarrow> open_attempt env [0] s; ok \<leftarrow> r; Some (ok, s') }
      else
        let name = (if ferr s = ERR_NONE then filename else take (length filename) junk);
            slash = (if last filename \<noteq> 0x2f then [0x2f] else [])
        in open_tries env filename name
             [[], slash @ [0x6d, 0x65, 0x6e, 0x75, 0x2e, 0x6c, 0x73, 0x74], slash @ [0x6d]] s)"

text \<open>\<open>dir\<close>: listing the completions of a path.\<close>

definition dir :: "('w, 't) file_env \<Rightarrow> u8 list \<Rightarrow> ('w, 't) file_state \<Rightarrow> (bool \<times> ('w, 't) file_state) option" where
  "dir env dirname s =
     do { let s0 = s\<lparr>compressed_file := False\<rparr>;
          (r, d) \<leftarrow> setup_part (int13_of env) (map mount_func (fsys_table env)) (junk_iter env) dirname (dev s0);
          let s1 = s0\<lparr>dev := d\<rparr>;
          case r of
            None \<Rightarrow> Some (False, s1)
          | Some name \<Rightarrow> do {
              c \<leftarrow> rd name 0;
              let s2 = (if c \<noteq> 0x2f then set_ferr ERR_BAD_FILENAME s1 else s1);
              let s3 = (if fsys_type (dev s2) = length (fsys_table env) then set_ferr ERR_FSYS_MOUNT s2 else s2);
              if ferr s3 \<noteq> ERR_NONE then Some (False, s3)
              else do {
                (ok, size, d') \<leftarrow> dir_func (fsys_table env ! fsys_type (dev s3)) True name (filemax s3) (dev s3);
                Some (ok, s3\<lparr>dev := d', filemax := size\<rparr>) } } }"
section \<open>The contract of a file system driver\<close>

text \<open>
  A driver reads the file that has been opened: it delivers the bytes it is asked for inside the
  file and moves the file position behind them.
\<close>

locale fs_reader =
  fixes env :: "('w, 't) file_env" and content :: "u8 list" and ok :: "'w dev_state \<Rightarrow> bool"
  assumes driver: "ok d \<Longrightarrow> fsys_type d < length (fsys_table env)"
    and no_error: "ok d \<Longrightarrow> err_of d = ERR_NONE"
    and reads: "ok d \<Longrightarrow> 0 \<le> pos \<Longrightarrow> 0 \<le> len \<Longrightarrow> pos + len \<le> int (length content)
      \<Longrightarrow> \<exists>d'. read_func (fsys_table env ! fsys_type d) hook pos len d = Some (len, slice content pos len, pos + len, d') \<and> ok d'"

text \<open>An uncompressed file of less than 2 GB is open on the driver.\<close>

definition plain_file :: "u8 list \<Rightarrow> ('w dev_state \<Rightarrow> bool) \<Rightarrow> ('w, 't) file_state \<Rightarrow> bool" where
  "plain_file content ok s \<longleftrightarrow> ok (dev s) \<and> \<not> measure_kernel s \<and> \<not> compressed_file s \<and> \<not> block_file s
     \<and> filemax s = int (length content) \<and> filemax s \<le> fsmax s \<and> int (length content) < 2 ^ 31
     \<and> 0 \<le> filepos s \<and> filepos s \<le> filemax s"

definition read_len :: "int \<Rightarrow> ('w, 't) file_state \<Rightarrow> int" where
  "read_len len s = (if len < 0 \<or> filemax s - filepos s < len then filemax s - filepos s else len)"

lemma read_len_upd [simp]: "read_len len (s\<lparr>sha1_has_to_measure := x\<rparr>) = read_len len s"
  by (simp add: read_len_def)

lemma read_len_range: "plain_file content ok s \<Longrightarrow> 0 \<le> read_len len s \<and> filepos s + read_len len s \<le> int (length content)"
  by (auto simp: read_len_def plain_file_def)

lemma slice_full: "0 \<le> p \<Longrightarrow> 0 \<le> n \<Longrightarrow> p + n \<le> int (length xs) \<Longrightarrow> length (slice xs p n) = nat n"
  by (auto simp: slice_def)

lemma overlay_start: "overlay buf 0 xs = xs @ drop (length xs) buf"
  by (simp add: overlay_def)

lemma take_slice: "0 \<le> p \<Longrightarrow> 0 \<le> n \<Longrightarrow> take (nat p) xs @ slice xs p n = take (nat (p + n)) xs"
  by (simp add: slice_def take_add [symmetric] nat_add_distrib)

lemma hash_more_repr:
  assumes "sha1_repr (my_sha1 s) m" and "length data = nat len" and "0 \<le> len" and "len < 2 ^ 31"
  shows "\<exists>c. hash_more data len s = Some (s\<lparr>my_sha1 := c\<rparr>) \<and> sha1_repr c (m @ data)"
proof (cases "len = 0")
  case True
  with assms show ?thesis
    by (intro exI [of _ "my_sha1 s"]) (simp add: hash_more_def sha1_update_def)
next
  case False
  then have "0 < unat (of_int len :: u32)" "unat (of_int len :: u32) = nat len"
    using assms(3,4) unat_of_nat_below32 [of "nat len"] by auto
  moreover have "nat len < 4294967296" using assms(3,4) by simp
  ultimately show ?thesis
    using sha1_update_fips [OF _ assms(1), of "of_int len" data] assms(2) by (auto simp: hash_more_def)
qed

context fs_reader
begin

text \<open>A read that is not measured.\<close>

lemma unmeasured_read:
  assumes "plain_file content ok s" and "\<not> perform_sha1 s"
  shows "\<exists>d. grub_read_body env self buf len s
      = Some (read_len len s, overlay buf 0 (slice content (filepos s) (read_len len s)),
          s\<lparr>filepos := filepos s + read_len len s, dev := d,
            sha1_has_to_measure := (if sha1_has_to_measure s = 0 then filemax s else sha1_has_to_measure s)\<rparr>) \<and> ok d"
proof -
  have s: "ok (dev s)" "0 \<le> filepos s" "filepos s \<le> filemax s" "filemax s \<le> fsmax s" using assms(1) by (auto simp: plain_file_def)
  have n: "0 \<le> read_len len s" "filepos s + read_len len s \<le> int (length content)"
    using read_len_range [OF assms(1)] by auto
  obtain d' where d': "read_func (fsys_table env ! fsys_type (dev s)) (disk_read_hook s) (filepos s) (read_len len s) (dev s)
      = Some (read_len len s, slice content (filepos s) (read_len len s), filepos s + read_len len s, d')" "ok d'"
    using reads [OF s(1,2) n] by blast
  have t: "fsys_type (dev s) \<noteq> length (fsys_table env)" using driver [OF s(1)] by simp
  have fm: "\<not> fsmax s < filepos s + read_len len s" using n(2) assms(1) by (simp add: plain_file_def)
  show ?thesis
    using assms s d' t fm n
    by (intro exI [of _ d'])
      (simp add: grub_read_body_def sane_filepos_def Let_def read_len_def [symmetric] plain_file_def)
qed

end
text \<open>
  What holds while a file is measured: either the hash covers the file up to the file position, or
  nothing has been hashed yet, wherever the position is.
\<close>

definition measured :: "u8 list \<Rightarrow> ('w dev_state \<Rightarrow> bool) \<Rightarrow> ('w, 't) file_state \<Rightarrow> bool" where
  "measured content ok s \<longleftrightarrow> plain_file content ok s \<and> perform_sha1 s \<and> sha1_has_to_measure s = filemax s
     \<and> sha1_byte_count s = filepos s \<and> sha1_repr (my_sha1 s) (take (nat (filepos s)) content)"

definition unhashed :: "u8 list \<Rightarrow> ('w dev_state \<Rightarrow> bool) \<Rightarrow> ('w, 't) file_state \<Rightarrow> bool" where
  "unhashed content ok s \<longleftrightarrow> plain_file content ok s \<and> perform_sha1 s \<and> sha1_has_to_measure s \<in> {0, filemax s}
     \<and> sha1_byte_count s = 0 \<and> sha1_repr (my_sha1 s) []"

text \<open>The path of \<open>grub_read\<close> to the driver.\<close>

lemma read_body_driver:
  assumes "plain_file content ok s" and "fsys_type (dev s) \<noteq> length (fsys_table env)"
    and "\<not> (perform_sha1 s \<and> sha1_byte_count s = 0 \<and> 0 < filepos s)"
    and "read_func (fsys_table env ! fsys_type (dev s)) (disk_read_hook s) (filepos s) (read_len len s) (dev s) = Some (result, out, pos, d)"
  defines "s1 \<equiv> (if sha1_has_to_measure s = 0 then s\<lparr>sha1_has_to_measure := filemax s\<rparr> else s)"
  shows "grub_read_body env self buf len s
    = (if perform_sha1 s
       then do { s4 \<leftarrow> hash_more (take (nat (read_len len s)) (overlay buf 0 out)) (read_len len s) (s1\<lparr>filepos := pos, dev := d\<rparr>);
                 Some (result, overlay buf 0 out, s4\<lparr>sha1_byte_count := sha1_byte_count s4 + read_len len s\<rparr>) }
       else Some (result, overlay buf 0 out, s1\<lparr>filepos := pos, dev := d\<rparr>))"
proof -
  have s1: "filepos s1 = filepos s" "filemax s1 = filemax s" "fsmax s1 = fsmax s" "dev s1 = dev s" "\<not> measure_kernel s1" "disk_read_hook s1 = disk_read_hook s"
    "perform_sha1 s1 = perform_sha1 s" "sha1_byte_count s1 = sha1_byte_count s" "\<not> compressed_file s1" "\<not> block_file s1"
    using assms(1) by (auto simp: s1_def plain_file_def)
  have n: "(if len < 0 \<or> filemax s1 - filepos s1 < len then filemax s1 - filepos s1 else len) = read_len len s"
    by (simp add: read_len_def s1)
  have fm: "\<not> fsmax s < filepos s + read_len len s"
    using read_len_range [OF assms(1), of len] assms(1) by (auto simp: plain_file_def)
  have sane: "sane_filepos s = s" using assms(1) by (auto simp: sane_filepos_def plain_file_def)
  have c: "(perform_sha1 s1 \<and> sha1_byte_count s1 = 0 \<and> 0 < filepos s1) = False" using assms(3) s1 by simp
  show ?thesis
    unfolding grub_read_body_def sane Let_def s1_def [symmetric] n c if_False
    using assms(2,4) fm s1 by simp
qed

context fs_reader
begin

text \<open>The read at the end of \<open>grub_read\<close>, once the hash covers what lies before the position.\<close>

lemma measured_tail:
  assumes "measured content ok s" and "sha1_byte_count s \<noteq> 0 \<or> filepos s = 0"
  shows "\<exists>s'. grub_read_body env self buf len s
      = Some (read_len len s, overlay buf 0 (slice content (filepos s) (read_len len s)), s')
    \<and> measured content ok s' \<and> filepos s' = filepos s + read_len len s \<and> tcg s' = tcg s \<and> kernel_real_addr s' = kernel_real_addr s"
proof -
  have p: "plain_file content ok s" and r: "sha1_repr (my_sha1 s) (take (nat (filepos s)) content)"
    using assms(1) by (auto simp: measured_def)
  have s: "ok (dev s)" "0 \<le> filepos s" "filepos s \<le> filemax s" "filemax s \<le> fsmax s" "filemax s < 2 ^ 31"
    using p by (auto simp: plain_file_def)
  have n: "0 \<le> read_len len s" "filepos s + read_len len s \<le> int (length content)"
    using read_len_range [OF p] by auto
  then have n31: "read_len len s < 2 ^ 31" using s p by (simp add: plain_file_def)
  let ?data = "slice content (filepos s) (read_len len s)"
  obtain d' where d': "read_func (fsys_table env ! fsys_type (dev s)) (disk_read_hook s) (filepos s) (read_len len s) (dev s)
      = Some (read_len len s, ?data, filepos s + read_len len s, d')" "ok d'"
    using reads [OF s(1,2) n] by blast
  let ?s3 = "s\<lparr>filepos := filepos s + read_len len s, dev := d'\<rparr>"
  have len: "length ?data = nat (read_len len s)" using slice_full [OF s(2) n] .
  have r3: "sha1_repr (my_sha1 ?s3) (take (nat (filepos s)) content)" using r by simp
  obtain c where c: "hash_more ?data (read_len len s) ?s3 = Some (?s3\<lparr>my_sha1 := c\<rparr>)"
    "sha1_repr c (take (nat (filepos s)) content @ ?data)"
    using hash_more_repr [OF r3 len n(1) n31] by blast
  let ?s' = "?s3\<lparr>my_sha1 := c, sha1_byte_count := sha1_byte_count s + read_len len s\<rparr>"
  have t: "fsys_type (dev s) \<noteq> length (fsys_table env)" using driver [OF s(1)] by simp
  have same: "(if sha1_has_to_measure s = 0 then s\<lparr>sha1_has_to_measure := filemax s\<rparr> else s) = s"
    using assms(1) by (simp add: measured_def)
  have "grub_read_body env self buf len s = Some (read_len len s, overlay buf 0 ?data, ?s')"
    using read_body_driver [OF p t _ d'(1), of self buf, unfolded same] assms c(1) len
    by (simp add: measured_def overlay_start)
  moreover have "measured content ok ?s'"
    using assms(1) c(2) d'(2) n s(2) take_slice [OF s(2) n(1), of content] by (auto simp: measured_def plain_file_def)
  ultimately show ?thesis by auto
qed

end
lemma read_body_size:
  assumes "plain_file content ok s"
    and s1_def: "s1 = (if sha1_has_to_measure s = 0 then s\<lparr>sha1_has_to_measure := filemax s\<rparr> else s)"
  shows "grub_read_body env self buf len s = grub_read_body env self buf len s1"
proof -
  have sane: "sane_filepos s = s" "sane_filepos s1 = s1" using assms by (auto simp: sane_filepos_def plain_file_def)
  have idem: "(if sha1_has_to_measure s1 = 0 then s1\<lparr>sha1_has_to_measure := filemax s1\<rparr> else s1) = s1"
    by (simp add: s1_def)
  show ?thesis unfolding grub_read_body_def sane Let_def s1_def [symmetric] idem by (rule refl)
qed

text \<open>The prefix is hashed, then \<open>grub_read\<close> goes on as if it had been called in the state reached.\<close>

lemma read_body_prefix:
  assumes "plain_file content ok s" and "perform_sha1 s" and "sha1_byte_count s = 0" and "0 < filepos s"
    and s1_def: "s1 = (if sha1_has_to_measure s = 0 then s\<lparr>sha1_has_to_measure := filemax s\<rparr> else s)"
    and "self (replicate (nat (filepos s)) 0) (filepos s) (s1\<lparr>filepos := 0, perform_sha1 := False\<rparr>) = Some (r, zero, s')"
    and "hash_more zero (filepos s) (s'\<lparr>perform_sha1 := True\<rparr>) = Some s''"
    and "s2 = s''\<lparr>sha1_byte_count := sha1_byte_count s'' + filepos s''\<rparr>"
    and "plain_file content ok s2" and "filepos s2 = filepos s" and "fsmax s2 = fsmax s"
    and "sha1_byte_count s2 \<noteq> 0" and "sha1_has_to_measure s2 \<noteq> 0"
  shows "grub_read_body env self buf len s = grub_read_body env self buf len s2"
proof -
  have top: "sane_filepos s = s" "sane_filepos s2 = s2" "\<not> measure_kernel s" "\<not> measure_kernel s2" "filemax s2 = filemax s"
    using assms(1,9) by (auto simp: sane_filepos_def plain_file_def)
  have s1: "filepos s1 = filepos s" "filemax s1 = filemax s" "fsmax s1 = fsmax s" "\<not> measure_kernel s1"
    "perform_sha1 s1" "sha1_byte_count s1 = 0"
    using top assms(2,3) by (auto simp: s1_def)
  have n: "(if len < 0 \<or> filemax s1 - filepos s1 < len then filemax s1 - filepos s1 else len) = read_len len s"
    "(if len < 0 \<or> filemax s2 - filepos s2 < len then filemax s2 - filepos s2 else len) = read_len len s"
    using s1 top assms(10) by (simp_all add: read_len_def)
  have fm: "(fsmax s1 < filepos s1 + read_len len s) = False" "(fsmax s2 < filepos s2 + read_len len s) = False"
    using read_len_range [OF assms(1), of len] assms(1,10,11) s1 by (auto simp: plain_file_def)
  have s2: "(if sha1_has_to_measure s2 = 0 then s2\<lparr>sha1_has_to_measure := filemax s2\<rparr> else s2) = s2" using assms(13) by simp
  have c: "(perform_sha1 s1 \<and> sha1_byte_count s1 = 0 \<and> 0 < filepos s1) = True"
    "(perform_sha1 s2 \<and> sha1_byte_count s2 = 0 \<and> 0 < filepos s2) = False"
    using s1 assms(4,12) by auto
  have mk: "measure_kernel s1 = False" "measure_kernel s2 = False" using s1 top by auto
  show ?thesis
    unfolding grub_read_body_def top(1,2) Let_def s1_def [symmetric] s2
    unfolding n unfolding fm c mk if_False if_True unfolding s1(1) assms(6) bind.bind_lunit prod.case
    unfolding assms(7) bind.bind_lunit assms(8) [symmetric] by (rule refl)
qed

context fs_reader
begin

text \<open>The first measured read: what lies before the file position is read and hashed first.\<close>

lemma first_read:
  assumes "unhashed content ok s"
  shows "\<exists>s'. grub_read env buf len s
      = Some (read_len len s, overlay buf 0 (slice content (filepos s) (read_len len s)), s')
    \<and> measured content ok s' \<and> filepos s' = filepos s + read_len len s \<and> tcg s' = tcg s"
proof -
  define s1 where "s1 = (if sha1_has_to_measure s = 0 then s\<lparr>sha1_has_to_measure := filemax s\<rparr> else s)"
  have p: "plain_file content ok s" and u: "perform_sha1 s" "sha1_byte_count s = 0" using assms by (auto simp: unhashed_def)
  have s1: "plain_file content ok s1" "filepos s1 = filepos s" "filemax s1 = filemax s" "fsmax s1 = fsmax s" "tcg s1 = tcg s"
    "perform_sha1 s1" "sha1_byte_count s1 = 0" "sha1_has_to_measure s1 = filemax s" "sha1_repr (my_sha1 s1) []"
    using assms by (auto simp: unhashed_def s1_def plain_file_def)
  show ?thesis
  proof (cases "filepos s = 0")
    case True
    then have "measured content ok s1" using s1 by (simp add: measured_def)
    moreover have "grub_read env buf len s = grub_read env buf len s1"
      unfolding grub_read_def by (rule read_body_size [OF p s1_def])
    ultimately show ?thesis
      using measured_tail [of s1 "grub_read_body env (\<lambda>_ _ _. None)" buf len] True s1
      by (auto simp: grub_read_def read_len_def)
  next
    case False
    then have pos: "0 < filepos s" "filepos s \<le> int (length content)" "filepos s < 2 ^ 31" using p by (auto simp: plain_file_def)
    define si where "si = s1\<lparr>filepos := 0, perform_sha1 := False\<rparr>"
    have "plain_file content ok si" "\<not> perform_sha1 si" "read_len (filepos s) si = filepos s" "filepos si = 0"
      "sha1_has_to_measure si \<noteq> 0"
      using s1 pos p by (auto simp: si_def plain_file_def read_len_def)
    then obtain d where inner: "grub_read_body env (\<lambda>_ _ _. None) (replicate (nat (filepos s)) 0) (filepos s) si
        = Some (filepos s, overlay (replicate (nat (filepos s)) 0) 0 (slice content 0 (filepos s)),
            si\<lparr>filepos := filepos s, dev := d, sha1_has_to_measure := sha1_has_to_measure si\<rparr>)" "ok d"
      using unmeasured_read [of si "\<lambda>_ _ _. None" "replicate (nat (filepos s)) 0" "filepos s"] by auto
    let ?zero = "slice content 0 (filepos s)"
    have zlen: "length ?zero = nat (filepos s)" using slice_full [of 0 "filepos s" content] pos by simp
    then have zero: "overlay (replicate (nat (filepos s)) 0) 0 ?zero = ?zero" by (simp add: overlay_start)
    define sh where "sh = s1\<lparr>dev := d, filepos := filepos s, perform_sha1 := True\<rparr>"
    have sh: "si\<lparr>filepos := filepos s, dev := d, sha1_has_to_measure := sha1_has_to_measure si, perform_sha1 := True\<rparr> = sh"
      by (simp add: sh_def si_def)
    obtain c where c: "hash_more ?zero (filepos s) sh = Some (sh\<lparr>my_sha1 := c\<rparr>)" "sha1_repr c ?zero"
      using hash_more_repr [of sh "[]" ?zero "filepos s"] zlen pos s1(9) by (auto simp: sh_def)
    define s2 where "s2 = sh\<lparr>my_sha1 := c, sha1_byte_count := filepos s\<rparr>"
    have m2: "measured content ok s2"
      using s1 c(2) inner(2) p by (auto simp: measured_def plain_file_def slice_def s2_def sh_def)
    have f2: "filepos s2 = filepos s" "fsmax s2 = fsmax s" "sha1_byte_count s2 \<noteq> 0" "sha1_has_to_measure s2 \<noteq> 0" "tcg s2 = tcg s"
      "filemax s2 = filemax s"
      using s1 pos p by (auto simp: s2_def sh_def plain_file_def)
    have "grub_read_body env (grub_read_body env (\<lambda>_ _ _. None)) buf len s
        = grub_read_body env (grub_read_body env (\<lambda>_ _ _. None)) buf len s2"
    proof (rule read_body_prefix [OF p u pos(1) s1_def])
      show "grub_read_body env (\<lambda>_ _ _. None) (replicate (nat (filepos s)) 0) (filepos s) (s1\<lparr>filepos := 0, perform_sha1 := False\<rparr>)
          = Some (filepos s, ?zero, si\<lparr>filepos := filepos s, dev := d, sha1_has_to_measure := sha1_has_to_measure si\<rparr>)"
        using inner(1) zero by (simp add: si_def)
      show "hash_more ?zero (filepos s)
          (si\<lparr>filepos := filepos s, dev := d, sha1_has_to_measure := sha1_has_to_measure si, perform_sha1 := True\<rparr>)
          = Some (sh\<lparr>my_sha1 := c\<rparr>)"
        unfolding sh by (rule c(1))
      show "s2 = sh\<lparr>my_sha1 := c, sha1_byte_count := sha1_byte_count (sh\<lparr>my_sha1 := c\<rparr>) + filepos (sh\<lparr>my_sha1 := c\<rparr>)\<rparr>"
        using s1(7) by (simp add: s2_def sh_def)
    qed (use m2 f2 in \<open>auto simp: measured_def\<close>)
    then show ?thesis
      using measured_tail [OF m2, of "grub_read_body env (\<lambda>_ _ _. None)" buf len] f2
      by (auto simp: grub_read_def read_len_def)
  qed
qed

end

section \<open>What is measured\<close>

text \<open>A client that reads a file in pieces and keeps what it gets.\<close>

fun read_seq :: "('w, 't) file_env \<Rightarrow> int list \<Rightarrow> ('w, 't) file_state \<Rightarrow> (u8 list \<times> ('w, 't) file_state) option" where
  "read_seq env [] s = Some ([], s)"
| "read_seq env (n # ns) s =
     do { (_, out, s1) \<leftarrow> grub_read env [] n s; (more, s2) \<leftarrow> read_seq env ns s1; Some (out @ more, s2) }"

lemma overlay_into_Nil [simp]: "overlay [] 0 xs = xs"
  by (simp add: overlay_def)

context fs_reader
begin

lemma measured_read:
  assumes "measured content ok s"
  shows "\<exists>s'. grub_read env buf len s
      = Some (read_len len s, overlay buf 0 (slice content (filepos s) (read_len len s)), s')
    \<and> measured content ok s' \<and> filepos s' = filepos s + read_len len s \<and> tcg s' = tcg s \<and> kernel_real_addr s' = kernel_real_addr s"
  unfolding grub_read_def by (rule measured_tail) (use assms in \<open>auto simp: measured_def\<close>)

lemma read_seq_measured:
  assumes "measured content ok s"
  shows "\<exists>s'. read_seq env ns s = Some (slice content (filepos s) (filepos s' - filepos s), s')
    \<and> measured content ok s' \<and> filepos s \<le> filepos s' \<and> tcg s' = tcg s"
  using assms
proof (induction ns arbitrary: s)
  case Nil
  then show ?case by (simp add: slice_def)
next
  case (Cons n ns)
  let ?k = "read_len n s"
  have r: "0 \<le> ?k" "0 \<le> filepos s" using Cons.prems read_len_range [of content ok s n] by (auto simp: measured_def plain_file_def)
  obtain s1 where s1: "grub_read env [] n s = Some (?k, slice content (filepos s) ?k, s1)"
    "measured content ok s1" "filepos s1 = filepos s + ?k" "tcg s1 = tcg s"
    using measured_read [OF Cons.prems, of "[]" n] by auto
  obtain s2 where s2: "read_seq env ns s1 = Some (slice content (filepos s1) (filepos s2 - filepos s1), s2)"
    "measured content ok s2" "filepos s1 \<le> filepos s2" "tcg s2 = tcg s1"
    using Cons.IH [OF s1(2)] by auto
  have "slice content (filepos s) ?k @ slice content (filepos s1) (filepos s2 - filepos s1)
      = slice content (filepos s) (filepos s2 - filepos s)"
    using slice_append [of "filepos s" ?k "filepos s2 - filepos s1" content] r s1(3) s2(3) by simp
  then show ?case using s1 s2 r by auto
qed

lemma read_seq_unhashed:
  assumes "unhashed content ok s" and "ns \<noteq> []"
  shows "\<exists>s'. read_seq env ns s = Some (slice content (filepos s) (filepos s' - filepos s), s')
    \<and> measured content ok s' \<and> filepos s \<le> filepos s' \<and> tcg s' = tcg s"
proof -
  obtain n ms where ns: "ns = n # ms" using assms(2) by (cases ns) auto
  let ?k = "read_len n s"
  have r: "0 \<le> ?k" "0 \<le> filepos s" using assms(1) read_len_range [of content ok s n] by (auto simp: unhashed_def plain_file_def)
  obtain s1 where s1: "grub_read env [] n s = Some (?k, slice content (filepos s) ?k, s1)"
    "measured content ok s1" "filepos s1 = filepos s + ?k" "tcg s1 = tcg s"
    using first_read [OF assms(1), of "[]" n] by auto
  obtain s2 where s2: "read_seq env ms s1 = Some (slice content (filepos s1) (filepos s2 - filepos s1), s2)"
    "measured content ok s2" "filepos s1 \<le> filepos s2" "tcg s2 = tcg s1"
    using read_seq_measured [OF s1(2)] by blast
  have "slice content (filepos s) ?k @ slice content (filepos s1) (filepos s2 - filepos s1)
      = slice content (filepos s) (filepos s2 - filepos s)"
    using slice_append [of "filepos s" ?k "filepos s2 - filepos s1" content] r s1(3) s2(3) by simp
  then show ?thesis using s1 s2 r by (auto simp: ns)
qed

end

text \<open>Closing a file whose hash represents \<open>m\<close>.\<close>

lemma close_driver_tcg [simp]: "tcg (close_driver env s) = tcg s"
  by (simp add: close_driver_def split: option.split)

lemma grub_close_hash:
  assumes "sha1_repr (my_sha1 s) m" and "perform_sha1 s"
  shows "\<exists>c h. length h = 5 \<and> h = fips_sha1 m \<and> grub_close env escape s =
     (let s1 = s\<lparr>measure_kernel := False, my_sha1 := c\<rparr>
      in if sha1_byte_count s \<noteq> sha1_has_to_measure s then Some (if escape then Halted else Closed (close_driver env s1))
         else Some (Closed (close_driver env
                (if tpm_present env = 0 then s1\<lparr>tcg := snd (update_pcr (int1a_of env) PCR_KERNEL h (tcg s))\<rparr> else s1))))"
proof -
  obtain c h where "sha1_finish (Some (my_sha1 s)) (Some (replicate 5 0)) = Some (0, Some c, h)" "length h = 5"
    "map ucast (take 5 h) = fips_sha1 m"
    using sha1_finish_fips [OF _ assms(1), of "replicate 5 0"] by auto
  with assms(2) show ?thesis
    by (intro exI [of _ c] exI [of _ h]) (simp add: grub_close_def Let_def)
qed

lemma close_extends:
  assumes "tcg_bios (int1a_of env) pcr" and "tpm_present env = 0" and "sha1_repr (my_sha1 s) m" and "perform_sha1 s"
    and "sha1_byte_count s = sha1_has_to_measure s"
  shows "\<exists>s'. grub_close env escape s = Some (Closed s')
    \<and> pcr (snd (tcg s')) = (pcr (snd (tcg s)))(14 := tpm_extend (pcr (snd (tcg s)) 14) (digest_bytes (fips_sha1 m)))"
proof -
  obtain c where "grub_close env escape s = Some (Closed (close_driver env
      (s\<lparr>measure_kernel := False, my_sha1 := c, tcg := snd (update_pcr (int1a_of env) PCR_KERNEL (fips_sha1 m) (tcg s))\<rparr>)))"
    using grub_close_hash [OF assms(3,4), of env escape] assms(2,5) by (auto simp: Let_def)
  then show ?thesis
    using tcg_bios.update_pcr_law(2) [OF assms(1), of 14 "fips_sha1 m" "tcg s"] by (simp add: PCR_KERNEL_def)
qed

lemma close_incomplete:
  assumes "sha1_repr (my_sha1 s) m" and "perform_sha1 s" and "sha1_byte_count s \<noteq> sha1_has_to_measure s"
  shows "grub_close env True s = Some Halted \<and> (\<exists>s'. grub_close env False s = Some (Closed s') \<and> tcg s' = tcg s)"
  using grub_close_hash [OF assms(1,2), of env True] grub_close_hash [OF assms(1,2), of env False] assms(3)
  by (auto simp: Let_def)

text \<open>
  C4. Reading a file in any pieces, from any position on, delivers the bytes of the file from that position on. If the
  reads reach the end of the file, closing it extends PCR 14, and no other register, by the SHA-1 hash of the whole
  file, also of the part before the position; if they do not, closing warns: the escape key stops the machine, and
  any other key goes on with all registers as they were.
\<close>

theorem file_measured:
  assumes "fs_reader env content ok" and "tcg_bios (int1a_of env) pcr" and "tpm_present env = 0"
    and "unhashed content ok s" and "ns \<noteq> []"
  shows "\<exists>s'. read_seq env ns s = Some (slice content (filepos s) (filepos s' - filepos s), s')
    \<and> (if filepos s' = int (length content)
       then \<exists>s''. grub_close env escape s' = Some (Closed s'')
         \<and> pcr (snd (tcg s'')) = (pcr (snd (tcg s)))(14 := tpm_extend (pcr (snd (tcg s)) 14) (digest_bytes (fips_sha1 content)))
       else grub_close env True s' = Some Halted \<and> (\<exists>s''. grub_close env False s' = Some (Closed s'') \<and> tcg s'' = tcg s))"
proof -
  obtain s' where s': "read_seq env ns s = Some (slice content (filepos s) (filepos s' - filepos s), s')"
    "measured content ok s'" "filepos s \<le> filepos s'" "tcg s' = tcg s"
    using fs_reader.read_seq_unhashed [OF assms(1,4,5)] by auto
  have m: "perform_sha1 s'" "sha1_byte_count s' = filepos s'" "sha1_has_to_measure s' = int (length content)"
    "sha1_repr (my_sha1 s') (take (nat (filepos s')) content)"
    using s'(2) by (auto simp: measured_def plain_file_def)
  show ?thesis
  proof (cases "filepos s' = int (length content)")
    case True
    then have "\<exists>s''. grub_close env escape s' = Some (Closed s'')
        \<and> pcr (snd (tcg s'')) = (pcr (snd (tcg s')))(14 := tpm_extend (pcr (snd (tcg s')) 14) (digest_bytes (fips_sha1 content)))"
      using close_extends [OF assms(2,3) m(4,1)] m(2,3) by simp
    with True s' show ?thesis by auto
  next
    case False
    with close_incomplete [OF m(4,1), of env] m(2,3) s' show ?thesis by auto
  qed
qed

section \<open>What the measurement misses\<close>

text \<open>
  A file that is closed before the size to measure is set, which only \<open>grub_read\<close> does: the count agrees with it, and the register gets the
  hash of no bytes whatever the file contains. A file is read when it is opened, by the test for a gzip header, unless \<open>no_decompression\<close> is set.
\<close>

lemma unread_file_extended:
  assumes "tcg_bios (int1a_of env) pcr" and "tpm_present env = 0" and "unhashed content ok s" and "sha1_has_to_measure s = 0"
  shows "\<exists>s'. grub_close env escape s = Some (Closed s')
    \<and> pcr (snd (tcg s')) = (pcr (snd (tcg s)))(14 := tpm_extend (pcr (snd (tcg s)) 14) (digest_bytes (fips_sha1 [])))"
  using close_extends [OF assms(1,2), of s "[]"] assms(3,4) by (simp add: unhashed_def)

text \<open>A measured read at another position than the end of what has been hashed.\<close>

context fs_reader
begin

lemma reread:
  assumes "plain_file content ok s" and "perform_sha1 s" and "sha1_byte_count s \<noteq> 0" and "sha1_has_to_measure s \<noteq> 0"
    and "sha1_repr (my_sha1 s) m"
  shows "\<exists>s'. grub_read env buf len s = Some (read_len len s, overlay buf 0 (slice content (filepos s) (read_len len s)), s')
    \<and> sha1_repr (my_sha1 s') (m @ slice content (filepos s) (read_len len s)) \<and> sha1_byte_count s' = sha1_byte_count s + read_len len s
    \<and> sha1_has_to_measure s' = sha1_has_to_measure s \<and> perform_sha1 s' \<and> tcg s' = tcg s"
proof -
  have s: "ok (dev s)" "0 \<le> filepos s" "int (length content) < 2 ^ 31" using assms(1) by (auto simp: plain_file_def)
  let ?k = "read_len len s"
  have n: "0 \<le> ?k" "filepos s + ?k \<le> int (length content)" using read_len_range [OF assms(1)] by auto
  let ?data = "slice content (filepos s) ?k"
  obtain d' where d': "read_func (fsys_table env ! fsys_type (dev s)) (disk_read_hook s) (filepos s) ?k (dev s)
      = Some (?k, ?data, filepos s + ?k, d')" "ok d'"
    using reads [OF s(1,2) n] by blast
  let ?s3 = "s\<lparr>filepos := filepos s + ?k, dev := d'\<rparr>"
  have len: "length ?data = nat ?k" using slice_full [OF s(2) n] .
  obtain c where c: "hash_more ?data ?k ?s3 = Some (?s3\<lparr>my_sha1 := c\<rparr>)" "sha1_repr c (m @ ?data)"
    using hash_more_repr [of ?s3 m ?data ?k] assms(5) len n s by auto
  have t: "fsys_type (dev s) \<noteq> length (fsys_table env)" using driver [OF s(1)] by simp
  have same: "(if sha1_has_to_measure s = 0 then s\<lparr>sha1_has_to_measure := filemax s\<rparr> else s) = s" using assms(4) by simp
  have "grub_read env buf len s = Some (?k, overlay buf 0 ?data, ?s3\<lparr>my_sha1 := c, sha1_byte_count := sha1_byte_count s + ?k\<rparr>)"
    using read_body_driver [OF assms(1) t _ d'(1), of "grub_read_body env (\<lambda>_ _ _. None)" buf, unfolded same] assms(2,3) c(1) len
    by (simp add: grub_read_def overlay_start)
  then show ?thesis using c(2) assms(2) by auto
qed

end

text \<open>
  C14. Seeking back deceives the check of the byte count: a client that reads the first half of a file, seeks to its
  start and reads the first half again has read as many bytes as the file has, so that closing extends PCR 14 without
  a warning, but by the hash of the first half twice; the second half has never been measured.
\<close>

theorem rewound_file_passes:
  assumes "fs_reader env content ok" and "tcg_bios (int1a_of env) pcr" and "tpm_present env = 0"
    and "unhashed content ok s" and "filepos s = 0" and "int (length content) = 2 * k" and "0 < k"
  shows "\<exists>s1 s2 s'. grub_read env [] k s = Some (k, take (nat k) content, s1)
    \<and> grub_read env [] k (snd (grub_seek 0 s1)) = Some (k, take (nat k) content, s2)
    \<and> grub_close env escape s2 = Some (Closed s')
    \<and> pcr (snd (tcg s')) = (pcr (snd (tcg s)))
        (14 := tpm_extend (pcr (snd (tcg s)) 14) (digest_bytes (fips_sha1 (take (nat k) content @ take (nat k) content))))"
proof -
  have "plain_file content ok s" using assms(4) by (simp add: unhashed_def)
  then have l: "read_len k s = k" using assms(5-7) by (simp add: read_len_def plain_file_def)
  obtain s1 where s1: "grub_read env [] k s = Some (k, slice content 0 k, s1)" "measured content ok s1" "filepos s1 = k" "tcg s1 = tcg s"
    using fs_reader.first_read [OF assms(1,4), of "[]" k] by (auto simp: assms(5) l)
  define s0 where "s0 = snd (grub_seek 0 s1)"
  have s0: "s0 = s1\<lparr>filepos := 0\<rparr>" using s1(2) by (auto simp: s0_def grub_seek_def measured_def plain_file_def)
  have p: "plain_file content ok s0" "perform_sha1 s0" "sha1_byte_count s0 = k" "sha1_has_to_measure s0 = 2 * k"
    "sha1_repr (my_sha1 s0) (take (nat k) content)" "read_len k s0 = k" "tcg s0 = tcg s" "filepos s0 = 0"
    using s1 assms(6,7) by (auto simp: s0 measured_def plain_file_def read_len_def)
  have sl: "slice content 0 k = take (nat k) content" by (simp add: slice_def)
  obtain s2 where s2: "grub_read env [] k s0 = Some (k, take (nat k) content, s2)"
    "sha1_repr (my_sha1 s2) (take (nat k) content @ take (nat k) content)" "sha1_byte_count s2 = k + k" "sha1_has_to_measure s2 = 2 * k"
    "perform_sha1 s2" "tcg s2 = tcg s"
    using fs_reader.reread [OF assms(1) p(1,2) _ _ p(5), of "[]" k] p(3,4,6,7,8) assms(7) by (auto simp: sl)
  obtain s' where "grub_close env escape s2 = Some (Closed s')"
    "pcr (snd (tcg s')) = (pcr (snd (tcg s)))
        (14 := tpm_extend (pcr (snd (tcg s)) 14) (digest_bytes (fips_sha1 (take (nat k) content @ take (nat k) content))))"
    using close_extends [OF assms(2,3) s2(2,5), of escape] s2(3,4,6) by auto
  then show ?thesis using s1(1) s2(1) by (auto simp: s0_def sl)
qed


end
