(* ===== verification/Gunzip.thy ===== *)
theory Gunzip
  imports FileIo
begin

unbundle bit_operations_syntax

text \<open>
  Compressed files, the rest of \<^verbatim>\<open>stage2/gunzip.c\<close>: the test of the header of a file and reading from the
  sliding window. The code calls \<open>grub_read\<close> with \<open>compressed_file\<close> reset, so that \<open>grub_read\<close> does not call it again:
  the functions are defined over the environment without decompression, and put into it by \<open>gunzip_env\<close>.
\<close>

section \<open>The source of compressed bytes\<close>

definition INBUFSIZ :: nat where "INBUFSIZ = 0x2000"

definition get_byte :: "('w, 't) file_env \<Rightarrow> ('w, 't) file_state \<Rightarrow> (u8 \<times> ('w, 't) file_state) option" where
  "get_byte env s =
     do { s1 \<leftarrow>
            (if filepos s = gzip_data_offset s \<or> gz_bufloc s = INBUFSIZ
             then do { (_, buf, s') \<leftarrow> grub_read env (gz_inbuf s) (int INBUFSIZ) (s\<lparr>gz_bufloc := 0\<rparr>);
                       Some (s'\<lparr>gz_inbuf := buf\<rparr>) }
             else Some s);
          x \<leftarrow> rd (gz_inbuf s1) (gz_bufloc s1);
          Some (x, s1\<lparr>gz_bufloc := gz_bufloc s1 + 1\<rparr>) }"

definition file_source :: "('w, 't) file_env \<Rightarrow> ('w, 't) file_state byte_source" where
  "file_source env = \<lparr>next_byte = get_byte env, failed = (\<lambda>s. ferr s \<noteq> ERR_NONE), bad_data = set_ferr ERR_BAD_GZIP_DATA\<rparr>"

section \<open>The header\<close>

definition gunzip_swap_values :: "('w, 't) file_state \<Rightarrow> ('w, 't) file_state" where
  "gunzip_swap_values s =
     s\<lparr>filepos := gzip_filepos (gz s), filemax := gzip_filemax (gz s), fsmax := gzip_fsmax (gz s),
       gz := (gz s)\<lparr>gzip_filepos := filepos s, gzip_filemax := filemax s, gzip_fsmax := fsmax s\<rparr>\<rparr>"

definition initialize_tables :: "('w, 't) file_state \<Rightarrow> ('w, 't) file_state" where
  "initialize_tables s =
     s\<lparr>filepos := gzip_data_offset s,
       gz := reset_linalloc ((gz s)\<lparr>saved_filepos := 0, gz_bk := 0, gz_bb := 0, last_block := False, block_len := 0\<rparr>)\<rparr>"

text \<open>
  \<open>bad_field\<close> skips a field of \<open>len\<close> bytes, or one that ends with a NUL if \<open>len\<close> is negative; \<open>ch\<close> is the last
  character read.
\<close>

partial_function (option) bad_field :: "('w, 't) file_env \<Rightarrow> int \<Rightarrow> u8 \<Rightarrow> ('w, 't) file_state \<Rightarrow> (bool \<times> ('w, 't) file_state) option" where
  "bad_field env len ch s =
     (if len = 0 \<or> len < 0 \<and> ch = 0 then Some (False, s)
      else Option.bind (grub_read env [ch] 1 s) (\<lambda>(r, out, s').
        if r = 1 then bad_field env (if 0 \<le> len then len - 1 else len) (hd out) s' else Some (r = 0, s')))"

definition bad_header :: "('w, 't) file_state \<Rightarrow> bool \<times> ('w, 't) file_state" where
  "bad_header s = (False, if ferr s = ERR_NONE then set_ferr ERR_BAD_GZIP_HEADER s else s)"

text \<open>The optional fields of the header: whether they are bad, for the flags \<open>fl\<close>.\<close>

definition bad_fields :: "('w, 't) file_env \<Rightarrow> u8 \<Rightarrow> ('w, 't) file_state \<Rightarrow> (bool \<times> ('w, 't) file_state) option" where
  "bad_fields env fl s =
     do { (bad1, s1) \<leftarrow>
            (if fl AND 0x04 \<noteq> 0
             then do { (r, buf, s') \<leftarrow> grub_read env [0, 0] 2 s;
                       if r \<noteq> 2 then Some (True, s') else bad_field env (uint (le16 buf 0)) 1 s' }
             else Some (False, s));
          if bad1 then Some (True, s1)
          else do {
            (bad2, s2) \<leftarrow> (if fl AND 0x08 \<noteq> 0 then bad_field env (-1) 1 s1 else Some (False, s1));
            if bad2 then Some (True, s2)
            else if fl AND 0x10 \<noteq> 0 then bad_field env (-1) 1 s2 else Some (False, s2) } }"

definition test_header :: "('w, 't) file_env \<Rightarrow> ('w, 't) file_state \<Rightarrow> (bool \<times> ('w, 't) file_state) option" where
  "test_header env s =
     (if no_decompression s then Some (ferr s = ERR_NONE, s\<lparr>filepos := 0\<rparr>)
      else do {
        (r, buf, s1) \<leftarrow> grub_read env (replicate 10 0) 10 s;
        if r \<noteq> 10 \<or> le16 buf 0 \<noteq> 0x8B1F \<and> le16 buf 0 \<noteq> 0x9E1F then Some (ferr s1 = ERR_NONE, s1\<lparr>filepos := 0\<rparr>)
        else if buf ! 2 \<noteq> 8 \<or> buf ! 3 AND 0xE2 \<noteq> 0 then Some (bad_header s1)
        else do {
          (bad, s2) \<leftarrow> bad_fields env (buf ! 3) s1;
          if bad then Some (bad_header s2)
          else do {
            (r', trailer, s3) \<leftarrow> grub_read env (take 8 buf) 8 (s2\<lparr>gzip_data_offset := filepos s2, filepos := filemax s2 - 8\<rparr>);
            if r' \<noteq> 8 then Some (bad_header s3)
            else
              let n = c_int (uint (le32 trailer 4));
                  s4 = initialize_tables (s3\<lparr>gz := (gz s3)\<lparr>gzip_crc := le32 trailer 0, gzip_fsmax := n, gzip_filemax := n\<rparr>\<rparr>)
              in Some (True, (gunzip_swap_values (s4\<lparr>compressed_file := True\<rparr>))\<lparr>filepos := 0\<rparr>) } } })"

section \<open>Reading\<close>

text \<open>The window is moved on until it holds the position, then bytes are copied out of it.\<close>

partial_function (option) move_window :: "('w, 't) file_env \<Rightarrow> ('w, 't) file_state \<Rightarrow> ('w, 't) file_state option" where
  "move_window env s =
     (if saved_filepos (gz s) \<le> gzip_filepos (gz s)
      then Option.bind (inflate_window (file_source env) (gz s) s) (\<lambda>(g, s'). move_window env (s'\<lparr>gz := g\<rparr>))
      else Some s)"

partial_function (option) gunzip_loop :: "('w, 't) file_env \<Rightarrow> u8 list \<Rightarrow> int \<Rightarrow> int \<Rightarrow> ('w, 't) file_state
    \<Rightarrow> (int \<times> u8 list \<times> ('w, 't) file_state) option" where
  "gunzip_loop env buf len ret s =
     (if len \<le> 0 \<or> ferr s \<noteq> ERR_NONE then Some (ret, buf, s)
      else Option.bind (move_window env s) (\<lambda>s1.
        let g = gz s1;
            off = gzip_filepos g mod int WSIZE;
            sz = min (saved_filepos g - gzip_filepos g) len
        in if int (length (gz_slide g)) < off + sz then None
           else gunzip_loop env
                  (if ferr s1 = ERR_NONE then overlay buf (nat ret) (take (nat sz) (drop (nat off) (gz_slide g))) else buf)
                  (len - sz) (ret + sz) (s1\<lparr>gz := g\<lparr>gzip_filepos := gzip_filepos g + sz\<rparr>\<rparr>)))"

definition read_compressed :: "('w, 't) file_env \<Rightarrow> u8 list \<Rightarrow> int \<Rightarrow> ('w, 't) file_state
    \<Rightarrow> (int \<times> u8 list \<times> ('w, 't) file_state) option" where
  "read_compressed env buf len s =
     do { let s0 = gunzip_swap_values (s\<lparr>compressed_file := False\<rparr>);
          let s1 = (if gzip_filepos (gz s0) + int WSIZE < saved_filepos (gz s0) then initialize_tables s0 else s0);
          (ret, buf', s2) \<leftarrow> gunzip_loop env buf len 0 s1;
          let s3 = gunzip_swap_values (s2\<lparr>compressed_file := True\<rparr>);
          Some (if ferr s3 = ERR_NONE then ret else 0, buf', s3) }"

definition gunzip_env :: "('w, 't) file_env \<Rightarrow> ('w, 't) file_env" where
  "gunzip_env env = env\<lparr>gunzip_read := read_compressed env, gunzip_test_header := test_header env\<rparr>"

declare bad_field.simps [code] move_window.simps [code] gunzip_loop.simps [code]

text \<open>The variables before the first compressed file.\<close>

definition blank_gz :: gz_vars where
  "blank_gz = \<lparr>gzip_filepos = 0, gzip_filemax = 0, gzip_fsmax = 0, saved_filepos = 0, gzip_crc = 0, block_type = 0, block_len = 0,
     last_block = False, code_state = 0, gz_slide = replicate WSIZE 0, gz_wp = 0, gz_bb = 0, gz_bk = 0, gz_tl = None, gz_td = None,
     gz_bl = 0, gz_bd = 0, inflate_n = 0, inflate_d = 0, gz_heap = []\<rparr>"

section \<open>Kernels\<close>

text \<open>A file that the test of the header takes for a compressed one.\<close>

definition gzipped :: "u8 list \<Rightarrow> bool" where
  "gzipped content \<longleftrightarrow> 10 \<le> length content \<and> (le16 content 0 = 0x8B1F \<or> le16 content 0 = 0x9E1F)"

lemma le16_take: "2 \<le> n \<Longrightarrow> 2 \<le> length xs \<Longrightarrow> le16 (take n xs) 0 = le16 xs 0"
  by (simp add: le16_def)

lemma gunzip_env_simps [simp]:
  "fsys_table (gunzip_env env) = fsys_table env" "int1a_of (gunzip_env env) = int1a_of env"
  "tpm_present (gunzip_env env) = tpm_present env" "gunzip_test_header (gunzip_env env) = test_header env"
  "gunzip_read (gunzip_env env) = read_compressed env"
  by (simp_all add: gunzip_env_def)

lemma fs_reader_gunzip: "fs_reader env content ok \<Longrightarrow> fs_reader (gunzip_env env) content ok"
  by (simp add: fs_reader_def)

context fs_reader
begin

lemma test_header_plain:
  assumes "plain_file content ok s" and "\<not> perform_sha1 s" and "filepos s = 0" and "\<not> gzipped content"
  shows "\<exists>d h. ok d \<and> h \<in> {sha1_has_to_measure s, filemax s}
    \<and> test_header env s = Some (True, s\<lparr>filepos := 0, dev := d, sha1_has_to_measure := h\<rparr>)"
proof (cases "no_decompression s")
  case True
  have "ok (dev s)" using assms(1) by (simp add: plain_file_def)
  with True no_error show ?thesis by (intro exI [of _ "dev s"] exI [of _ "sha1_has_to_measure s"]) (simp add: test_header_def)
next
  case False
  let ?n = "read_len 10 s"
  obtain d where d: "grub_read env (replicate 10 0) 10 s
      = Some (?n, overlay (replicate 10 0) 0 (slice content 0 ?n),
          s\<lparr>filepos := ?n, dev := d, sha1_has_to_measure := (if sha1_has_to_measure s = 0 then filemax s else sha1_has_to_measure s)\<rparr>)"
    "ok d"
    using unmeasured_read [OF assms(1,2), of "grub_read_body env (\<lambda>_ _ _. None)" "replicate 10 0" 10] assms(3)
    by (auto simp: grub_read_def)
  have "le16 (overlay (replicate 10 0) 0 (slice content 0 ?n)) 0 \<noteq> 0x8B1F \<and> le16 (overlay (replicate 10 0) 0 (slice content 0 ?n)) 0 \<noteq> 0x9E1F"
    if "?n = 10"
  proof -
    have "10 \<le> length content" using that assms(1,3) by (simp add: read_len_def plain_file_def split: if_splits)
    then show ?thesis using that assms(4) by (simp add: gzipped_def overlay_start slice_def le16_take)
  qed
  then show ?thesis using False d no_error [OF d(2)] by (intro exI [of _ d] exI [of _ "if sha1_has_to_measure s = 0 then filemax s else sha1_has_to_measure s"]) (auto simp: test_header_def)
qed

end

text \<open>What is opened as a kernel: a file at its start, with nothing hashed yet.\<close>

definition fresh_kernel :: "u8 list \<Rightarrow> ('w dev_state \<Rightarrow> bool) \<Rightarrow> ('w, 't) file_state \<Rightarrow> bool" where
  "fresh_kernel content ok s \<longleftrightarrow> plain_file content ok (s\<lparr>measure_kernel := False\<rparr>) \<and> measure_kernel s \<and> perform_sha1 s
     \<and> filepos s = 0 \<and> sha1_byte_count s = 0 \<and> sha1_has_to_measure s = 0 \<and> sha1_repr (my_sha1 s) []"

text \<open>A kernel that has been read into memory and hashed.\<close>

definition kernel_staged :: "u8 list \<Rightarrow> ('w dev_state \<Rightarrow> bool) \<Rightarrow> ('w, 't) file_state \<Rightarrow> bool" where
  "kernel_staged content ok s \<longleftrightarrow> measure_kernel s \<and> perform_sha1 s \<and> filemax s = int (length content) \<and> sha1_repr (my_sha1 s) content
     \<and> sha1_byte_count s = int (length content) \<and> sha1_has_to_measure s = int (length content) \<and> ok (dev s) \<and> \<not> block_file s"

lemma open_measured_kernel:
  assumes "fs_reader env content ok" and "fresh_kernel content ok s" and "\<not> gzipped content"
  shows "\<exists>s'. open_measured (gunzip_env env) s = Some (True, s') \<and> kernel_staged content ok s' \<and> filepos s' = 0 \<and> tcg s' = tcg s
    \<and> kernel_mem s' = overlay (kernel_mem s) 0 content \<and> kernel_real_addr s' = LINUX_BZIMAGE_ADDR + 2 * of_nat (length content)"
proof -
  let ?env = "gunzip_env env" and ?n = "int (length content)"
  have k: "plain_file content ok (s\<lparr>measure_kernel := False\<rparr>)" "measure_kernel s" "perform_sha1 s" "filepos s = 0"
    "sha1_byte_count s = 0" "sha1_has_to_measure s = 0" "sha1_repr (my_sha1 s) []" "filemax s = ?n"
    using assms(2) by (auto simp: fresh_kernel_def plain_file_def)
  let ?s1 = "s\<lparr>kernel_filesize := ?n, perform_sha1 := False, measure_kernel := False\<rparr>"
  have p1: "plain_file content ok ?s1" "\<not> perform_sha1 ?s1" "filepos ?s1 = 0" using k by (auto simp: plain_file_def)
  obtain d h where d: "test_header env ?s1 = Some (True, ?s1\<lparr>filepos := 0, dev := d, sha1_has_to_measure := h\<rparr>)" "ok d" "h \<in> {0, ?n}"
    using fs_reader.test_header_plain [OF assms(1) p1 assms(3)] k(6,8) by auto
  define s4 where "s4 = s\<lparr>kernel_filesize := ?n, dev := d, perform_sha1 := True, kernel_compressed_filesize := ?n,
    kernel_real_addr := LINUX_BZIMAGE_ADDR + 2 * of_int ?n, measure_kernel := False, sha1_has_to_measure := ?n, filepos := 0\<rparr>"
  have m4: "measured content ok s4" using k d(2) by (auto simp: measured_def plain_file_def s4_def)
  then have cf: "\<not> compressed_file s4" "kernel_filesize s4 = ?n" "read_len ?n s4 = ?n" "filepos s4 = 0"
    by (auto simp: measured_def plain_file_def s4_def read_len_def k(8))
  obtain s5 where s5: "grub_read ?env (kernel_mem s4) ?n s4 = Some (?n, overlay (kernel_mem s4) 0 content, s5)"
    "measured content ok s5" "filepos s5 = ?n" "tcg s5 = tcg s" "kernel_real_addr s5 = kernel_real_addr s4"
    using fs_reader.measured_read [OF fs_reader_gunzip [OF assms(1)] m4, of "kernel_mem s4" ?n] cf by (auto simp: slice_def s4_def)
  have "open_measured ?env s = Some (True, s5\<lparr>kernel_mem := overlay (kernel_mem s4) 0 content, filepos := 0, measure_kernel := True\<rparr>)"
    using d(1) s5(1) k(2,8) cf(1,2) by (simp add: open_measured_def Let_def s4_def)
  then show ?thesis using s5(2-5) by (auto simp: kernel_staged_def measured_def plain_file_def s4_def)
qed

text \<open>Reads of a kernel in memory leave everything alone but the position in the file.\<close>

lemma staged_read:
  assumes "kernel_staged content ok s" and "0 \<le> filepos s" and "filepos s \<le> filemax s" and "0 \<le> len" and "nat (filepos s + len) \<le> length (kernel_mem s)"
  shows "grub_read env buf len s = Some (len, overlay buf 0 (take (nat len) (drop (nat (filepos s)) (kernel_mem s))), s\<lparr>filepos := filepos s + len\<rparr>)"
proof -
  have sane: "sane_filepos s = s" using assms(2,3) by (simp add: sane_filepos_def)
  have size: "(if sha1_has_to_measure s = 0 then s\<lparr>sha1_has_to_measure := filemax s\<rparr> else s) = s" using assms(1) by (simp add: kernel_staged_def)
  show ?thesis unfolding grub_read_def grub_read_body_def sane Let_def size using assms by (simp add: kernel_staged_def)
qed

lemma staged_close:
  assumes "kernel_staged content ok s" and "tcg_bios (int1a_of env) pcr" and "tpm_present env = 0"
  shows "\<exists>s'. grub_close env escape s = Some (Closed s')
    \<and> pcr (snd (tcg s')) = (pcr (snd (tcg s)))(14 := tpm_extend (pcr (snd (tcg s)) 14) (digest_bytes (fips_sha1 content)))"
  using close_extends [of env pcr s content escape] assms by (simp add: kernel_staged_def)

text \<open>
  C5. A kernel is loaded as it was measured. Opening an uncompressed kernel reads the whole file into memory and hashes it.
  From then on every \<open>grub_read\<close> takes its bytes from memory and leaves the device alone, so that what the loader gets is
  what was hashed, even if the disk changes; and closing extends PCR 14 by the SHA-1 hash of exactly these bytes.
\<close>

theorem kernel_loaded_as_measured:
  assumes "fs_reader env content ok" and "tcg_bios (int1a_of env) pcr" and "tpm_present env = 0"
    and "fresh_kernel content ok s" and "\<not> gzipped content"
  shows "\<exists>s'. open_measured (gunzip_env env) s = Some (True, s')
    \<and> (\<forall>pos len buf. 0 \<le> pos \<longrightarrow> 0 \<le> len \<longrightarrow> pos + len \<le> int (length content)
         \<longrightarrow> grub_read (gunzip_env env) buf len (s'\<lparr>filepos := pos\<rparr>)
               = Some (len, overlay buf 0 (slice content pos len), s'\<lparr>filepos := pos + len\<rparr>))
    \<and> (\<forall>pos. \<exists>s''. grub_close (gunzip_env env) escape (s'\<lparr>filepos := pos\<rparr>) = Some (Closed s'')
         \<and> pcr (snd (tcg s'')) = (pcr (snd (tcg s)))(14 := tpm_extend (pcr (snd (tcg s)) 14) (digest_bytes (fips_sha1 content))))"
proof -
  let ?env = "gunzip_env env" and ?n = "int (length content)"
  obtain s' where s': "open_measured ?env s = Some (True, s')" "kernel_staged content ok s'" "tcg s' = tcg s"
    "kernel_mem s' = content @ drop (length content) (kernel_mem s)"
    using open_measured_kernel [OF assms(1,4,5)] by (auto simp: overlay_start)
  have staged: "kernel_staged content ok (s'\<lparr>filepos := pos\<rparr>)" for pos using s'(2) by (simp add: kernel_staged_def)
  have "grub_read ?env buf len (s'\<lparr>filepos := pos\<rparr>) = Some (len, overlay buf 0 (slice content pos len), s'\<lparr>filepos := pos + len\<rparr>)"
    if "0 \<le> pos" "0 \<le> len" "pos + len \<le> ?n" for pos len buf
  proof -
    have n: "nat (pos + len) \<le> length content" "nat pos + nat len \<le> length content" using that by linarith+
    then have "take (nat len) (drop (nat pos) (kernel_mem s')) = slice content pos len" unfolding s'(4) by (simp add: slice_def)
    then show ?thesis using staged_read [OF staged [of pos], of len ?env buf] that n s'(2,4) by (simp add: kernel_staged_def)
  qed
  moreover have "\<exists>s''. grub_close ?env escape (s'\<lparr>filepos := pos\<rparr>) = Some (Closed s'')
      \<and> pcr (snd (tcg s'')) = (pcr (snd (tcg s)))(14 := tpm_extend (pcr (snd (tcg s)) 14) (digest_bytes (fips_sha1 content)))" for pos
    using staged_close [OF staged, of ?env pcr escape] assms(2,3) s'(3) by simp
  ultimately show ?thesis using s'(1) by blast
qed

section \<open>The file as a stream of bytes\<close>

text \<open>A read of an uncompressed file leaves the state of the decompressor alone.\<close>

definition gz_part :: "('w, 't) file_state \<Rightarrow> int \<times> u8 list \<times> nat \<times> gz_vars" where
  "gz_part s = (gzip_data_offset s, gz_inbuf s, gz_bufloc s, gz s)"

lemma hash_more_gz: "hash_more data len s = Some s' \<Longrightarrow> gz_part s' = gz_part s \<and> compressed_file s' = compressed_file s \<and> block_file s' = block_file s
    \<and> filepos s' = filepos s \<and> perform_sha1 s' = perform_sha1 s"
  by (auto simp: hash_more_def gz_part_def Option.bind_eq_Some_conv)

definition keeps_gz :: "(u8 list \<Rightarrow> int \<Rightarrow> ('w, 't) file_state \<Rightarrow> (int \<times> u8 list \<times> ('w, 't) file_state) option) \<Rightarrow> bool" where
  "keeps_gz rf \<longleftrightarrow> (\<forall>buf len s r out s'. rf buf len s = Some (r, out, s') \<longrightarrow> \<not> compressed_file s \<longrightarrow> \<not> block_file s
     \<longrightarrow> gz_part s' = gz_part s \<and> \<not> compressed_file s' \<and> \<not> block_file s')"

lemma keeps_gzD:
  "keeps_gz rf \<Longrightarrow> rf buf len s = Some (r, out, s') \<Longrightarrow> \<not> compressed_file s \<Longrightarrow> \<not> block_file s
    \<Longrightarrow> gz_part s' = gz_part s \<and> \<not> compressed_file s' \<and> \<not> block_file s'"
  by (auto simp: keeps_gz_def)

text \<open>\<open>grub_read\<close> in two steps: hashing what lies before the position, and the read itself.\<close>

definition read_prefix :: "(u8 list \<Rightarrow> int \<Rightarrow> ('w, 't) file_state \<Rightarrow> (int \<times> u8 list \<times> ('w, 't) file_state) option)
    \<Rightarrow> ('w, 't) file_state \<Rightarrow> ('w, 't) file_state option" where
  "read_prefix self s =
     (if perform_sha1 s \<and> sha1_byte_count s = 0 \<and> 0 < filepos s
      then do {
        (_, zero_buffer, s') \<leftarrow> self (replicate (nat (filepos s)) 0) (filepos s) (s\<lparr>filepos := 0, perform_sha1 := False\<rparr>);
        s'' \<leftarrow> hash_more zero_buffer (filepos s) (s'\<lparr>perform_sha1 := True\<rparr>);
        Some (s''\<lparr>sha1_byte_count := sha1_byte_count s'' + filepos s''\<rparr>) }
      else Some s)"

definition read_tail :: "('w, 't) file_env \<Rightarrow> u8 list \<Rightarrow> int \<Rightarrow> ('w, 't) file_state \<Rightarrow> (int \<times> u8 list \<times> ('w, 't) file_state) option" where
  "read_tail env buf len s2 =
     (if compressed_file s2 then gunzip_read env buf len s2
      else if block_file s2 then blk_read_loop (int13_of env) len 0 buf s2
      else if fsys_type (dev s2) = length (fsys_table env) then Some (0, buf, set_ferr ERR_FSYS_MOUNT s2)
      else do {
        (result, out, pos, d) \<leftarrow> read_func (fsys_table env ! fsys_type (dev s2)) (disk_read_hook s2) (filepos s2) len (dev s2);
        let buf' = overlay buf 0 out;
        let s3 = s2\<lparr>filepos := pos, dev := d\<rparr>;
        if perform_sha1 s3
        then do { s4 \<leftarrow> hash_more (take (nat len) buf') len s3;
                  Some (result, buf', s4\<lparr>sha1_byte_count := sha1_byte_count s4 + len\<rparr>) }
        else Some (result, buf', s3) })"

lemma grub_read_body_steps:
  assumes "s2 = (let s1 = sane_filepos s in if sha1_has_to_measure s1 = 0 then s1\<lparr>sha1_has_to_measure := filemax s1\<rparr> else s1)"
    and "\<not> measure_kernel s2"
  shows "grub_read_body env self buf len s =
    (if fsmax s2 < filepos s2 + read_len len s2 then Some (0, buf, set_ferr ERR_FILELENGTH s2)
     else read_prefix self s2 \<bind> read_tail env buf (read_len len s2))"
  unfolding grub_read_body_def Let_def read_len_def read_prefix_def read_tail_def
  using assms(2) unfolding assms(1) Let_def by (simp cong: if_cong)

lemma read_prefix_keeps:
  assumes "keeps_gz self" and "read_prefix self s = Some s'" and "\<not> compressed_file s" and "\<not> block_file s"
  shows "gz_part s' = gz_part s \<and> \<not> compressed_file s' \<and> \<not> block_file s'"
proof (cases "perform_sha1 s \<and> sha1_byte_count s = 0 \<and> 0 < filepos s")
  case True
  let ?si = "s\<lparr>filepos := 0, perform_sha1 := False\<rparr>"
  obtain r1 zb si sj where a: "self (replicate (nat (filepos s)) 0) (filepos s) ?si = Some (r1, zb, si)"
    "hash_more zb (filepos s) (si\<lparr>perform_sha1 := True\<rparr>) = Some sj" "s' = sj\<lparr>sha1_byte_count := sha1_byte_count sj + filepos sj\<rparr>"
    using assms(2) True by (auto simp: read_prefix_def Option.bind_eq_Some_conv)
  have "gz_part si = gz_part s \<and> \<not> compressed_file si \<and> \<not> block_file si"
    using keeps_gzD [OF assms(1) a(1)] assms(3,4) by (simp add: gz_part_def)
  then show ?thesis using hash_more_gz [OF a(2)] a(3) by (auto simp: gz_part_def)
next
  case False
  then have "s' = s" using assms(2) by (auto simp: read_prefix_def)
  then show ?thesis using assms(3,4) by simp
qed

lemma read_tail_keeps:
  "read_tail env buf len s = Some (r, out, s') \<Longrightarrow> \<not> compressed_file s \<Longrightarrow> \<not> block_file s
    \<Longrightarrow> gz_part s' = gz_part s \<and> \<not> compressed_file s' \<and> \<not> block_file s'"
  by (auto simp: read_tail_def gz_part_def set_ferr_def Let_def Option.bind_eq_Some_conv split: if_splits dest!: hash_more_gz)

lemma grub_read_body_keeps:
  assumes "keeps_gz self"
  shows "keeps_gz (grub_read_body env self)"
  unfolding keeps_gz_def
proof (intro allI impI)
  fix buf :: "u8 list" and len r :: int and s s' :: "('a, 'b) file_state" and out
  assume run: "grub_read_body env self buf len s = Some (r, out, s')" and nc: "\<not> compressed_file s" "\<not> block_file s"
  define s2 where "s2 = (let s1 = sane_filepos s in if sha1_has_to_measure s1 = 0 then s1\<lparr>sha1_has_to_measure := filemax s1\<rparr> else s1)"
  have s2: "gz_part s2 = gz_part s" "\<not> compressed_file s2" "\<not> block_file s2"
    using nc by (auto simp: s2_def sane_filepos_def gz_part_def Let_def)
  show "gz_part s' = gz_part s \<and> \<not> compressed_file s' \<and> \<not> block_file s'"
  proof (cases "measure_kernel s2")
    case True
    then show ?thesis using run s2 unfolding grub_read_body_def Let_def s2_def by (auto simp: gz_part_def split: if_split_asm)
  next
    case False
    then consider "s' = set_ferr ERR_FILELENGTH s2" | s3 where "read_prefix self s2 = Some s3" "read_tail env buf (read_len len s2) s3 = Some (r, out, s')"
      using run unfolding grub_read_body_steps [OF s2_def False] by (auto simp: Option.bind_eq_Some_conv split: if_splits)
    then show ?thesis
    proof cases
      case 1
      then show ?thesis using s2 by (simp add: gz_part_def set_ferr_def)
    next
      case (2 s3)
      then show ?thesis using read_prefix_keeps [OF assms 2(1)] read_tail_keeps [OF 2(2)] s2 by auto
    qed
  qed
qed

lemma grub_read_keeps_gz: "keeps_gz (grub_read env)"
  unfolding grub_read_def by (intro grub_read_body_keeps) (simp add: keeps_gz_def)


text \<open>A file that is read with or without being measured.\<close>

definition streaming :: "u8 list \<Rightarrow> ('w dev_state \<Rightarrow> bool) \<Rightarrow> ('w, 't) file_state \<Rightarrow> bool" where
  "streaming content ok s \<longleftrightarrow> plain_file content ok s \<and> (perform_sha1 s \<longrightarrow> unhashed content ok s \<or> measured content ok s)"

text \<open>
  The buffer of the decompressor, when \<open>p\<close> is the position of the next byte in the file: it holds the
  piece of the file the last byte was taken from.
\<close>

definition piece :: "int \<Rightarrow> int \<Rightarrow> int" where
  "piece off p = off + (p - off - 1) div int INBUFSIZ * int INBUFSIZ"

definition stream_at :: "u8 list \<Rightarrow> ('w dev_state \<Rightarrow> bool) \<Rightarrow> int \<Rightarrow> ('w, 't) file_state \<Rightarrow> bool" where
  "stream_at content ok p s \<longleftrightarrow> streaming content ok s \<and> length (gz_inbuf s) = INBUFSIZ
     \<and> 0 \<le> gzip_data_offset s \<and> gzip_data_offset s \<le> p \<and> p \<le> int (length content)
     \<and> (if p = gzip_data_offset s then filepos s = p
        else let start = piece (gzip_data_offset s) p
             in filepos s = min (start + int INBUFSIZ) (int (length content)) \<and> int (gz_bufloc s) = p - start
                \<and> take (nat (filepos s - start)) (gz_inbuf s) = slice content start (filepos s - start)
                \<and> (perform_sha1 s \<longrightarrow> measured content ok s))"

text \<open>What is left of the file, with the rest of the state that reading leaves alone.\<close>

definition file_left :: "u8 list \<Rightarrow> ('w dev_state \<Rightarrow> bool) \<Rightarrow> int \<Rightarrow> gz_vars \<Rightarrow> tcg_mem \<times> 't \<Rightarrow> bool \<Rightarrow> ('w, 't) file_state \<Rightarrow> u8 list \<Rightarrow> bool" where
  "file_left content ok off g t ps s xs \<longleftrightarrow> (\<exists>p. stream_at content ok p s \<and> xs = drop (nat p) content)
     \<and> gzip_data_offset s = off \<and> gz s = g \<and> tcg s = t \<and> perform_sha1 s = ps"

lemma piece_mod: "piece off p = p - 1 - (p - off - 1) mod int INBUFSIZ"
  using minus_mod_eq_div_mult [of "p - off - 1" "int INBUFSIZ"] by (simp add: piece_def)

lemma INBUFSIZ_pos: "0 < int INBUFSIZ"
  by (simp add: INBUFSIZ_def)

lemma piece_le: "off < p \<Longrightarrow> off \<le> piece off p \<and> piece off p < p \<and> p \<le> piece off p + int INBUFSIZ"
  using pos_mod_bound [OF INBUFSIZ_pos, of "p - off - 1"] pos_mod_sign [OF INBUFSIZ_pos, of "p - off - 1"]
    zmod_le_nonneg_dividend [of "p - off - 1" "int INBUFSIZ"] by (simp add: piece_mod)

lemma piece_Suc:
  assumes "off < p"
  shows "piece off (p + 1) = (if p = piece off p + int INBUFSIZ then p else piece off p)"
proof -
  let ?m = "(p - off - 1) mod int INBUFSIZ"
  have m: "0 \<le> ?m" "?m < int INBUFSIZ"
    using pos_mod_bound [OF INBUFSIZ_pos, of "p - off - 1"] pos_mod_sign [OF INBUFSIZ_pos, of "p - off - 1"] by auto
  have "(p - off) mod int INBUFSIZ = (?m + 1) mod int INBUFSIZ" using mod_add_left_eq [of "p - off - 1" "int INBUFSIZ" 1] by simp
  moreover have "(?m + 1) mod int INBUFSIZ = (if ?m + 1 = int INBUFSIZ then 0 else ?m + 1)" using m by simp
  ultimately show ?thesis by (auto simp: piece_mod)
qed

lemma piece_start [simp]: "piece off (off + 1) = off"
  by (simp add: piece_def INBUFSIZ_def)

context fs_reader
begin

lemma stream_read:
  assumes "streaming content ok s"
  shows "\<exists>s'. grub_read env buf len s = Some (read_len len s, overlay buf 0 (slice content (filepos s) (read_len len s)), s')
    \<and> streaming content ok s' \<and> filepos s' = filepos s + read_len len s \<and> tcg s' = tcg s \<and> gz_part s' = gz_part s
    \<and> perform_sha1 s' = perform_sha1 s \<and> (perform_sha1 s \<longrightarrow> measured content ok s')"
proof -
  have p: "plain_file content ok s" "\<not> compressed_file s" "\<not> block_file s" using assms by (auto simp: streaming_def plain_file_def)
  obtain s' where s': "grub_read env buf len s = Some (read_len len s, overlay buf 0 (slice content (filepos s) (read_len len s)), s')"
    "plain_file content ok s'" "perform_sha1 s' = perform_sha1 s" "perform_sha1 s \<longrightarrow> measured content ok s'"
    "filepos s' = filepos s + read_len len s" "tcg s' = tcg s"
  proof (cases "perform_sha1 s")
    case True
    then consider "unhashed content ok s" | "measured content ok s" using assms by (auto simp: streaming_def)
    then obtain s' where "grub_read env buf len s = Some (read_len len s, overlay buf 0 (slice content (filepos s) (read_len len s)), s')"
      "measured content ok s'" "filepos s' = filepos s + read_len len s" "tcg s' = tcg s"
      using first_read [of s buf len] measured_read [of s buf len] by cases auto
    with True that show ?thesis by (auto simp: measured_def)
  next
    case False
    have "plain_file content ok (s\<lparr>filepos := filepos s + read_len len s, dev := d,
            sha1_has_to_measure := (if sha1_has_to_measure s = 0 then filemax s else sha1_has_to_measure s)\<rparr>)" if "ok d" for d
      using p(1) that read_len_range [OF p(1), of len] by (auto simp: plain_file_def)
    with False that unmeasured_read [OF p(1) False, of "grub_read_body env (\<lambda>_ _ _. None)" buf len] show ?thesis
      by (fastforce simp: grub_read_def)
  qed
  moreover have "gz_part s' = gz_part s" using keeps_gzD [OF grub_read_keeps_gz s'(1) p(2,3)] by simp
  ultimately show ?thesis by (auto simp: streaming_def)
qed

lemma streaming_gz [simp]:
  "streaming content ok (s\<lparr>gz_bufloc := x\<rparr>) = streaming content ok s" "streaming content ok (s\<lparr>gz_inbuf := b\<rparr>) = streaming content ok s"
  "measured content ok (s\<lparr>gz_bufloc := x\<rparr>) = measured content ok s" "measured content ok (s\<lparr>gz_inbuf := b\<rparr>) = measured content ok s"
  by (simp_all add: streaming_def plain_file_def unhashed_def measured_def)

lemma get_byte_refill:
  assumes "stream_at content ok p s" and "p < int (length content)" and "filepos s = p"
    and "filepos s = gzip_data_offset s \<or> gz_bufloc s = INBUFSIZ"
  shows "\<exists>s'. get_byte env s = Some (content ! nat p, s') \<and> stream_at content ok (p + 1) s' \<and> gzip_data_offset s' = gzip_data_offset s
    \<and> gz s' = gz s \<and> tcg s' = tcg s \<and> perform_sha1 s' = perform_sha1 s"
proof -
  let ?off = "gzip_data_offset s"
  have s: "streaming content ok s" "length (gz_inbuf s) = INBUFSIZ" "0 \<le> ?off" "?off \<le> p" using assms(1) by (auto simp: stream_at_def Let_def)
  then have fm: "filemax s = int (length content)" by (simp add: streaming_def plain_file_def)
  have start: "piece ?off (p + 1) = p"
  proof (cases "?off = p")
    case False
    then have "int INBUFSIZ = p - piece ?off p" using assms(1,3,4) by (auto simp: stream_at_def Let_def)
    with False s(4) show ?thesis using piece_Suc [of ?off p] by simp
  qed (use piece_start [of p] in simp)
  define n where "n = read_len (int INBUFSIZ) s"
  have n: "p + n = min (p + int INBUFSIZ) (int (length content))" "0 < n" "n \<le> int INBUFSIZ" "p + n \<le> int (length content)"
    using assms(2,3) fm by (auto simp: n_def read_len_def INBUFSIZ_def)
  have rl: "read_len (int INBUFSIZ) (s\<lparr>gz_bufloc := 0\<rparr>) = n" by (simp add: n_def read_len_def)
  let ?data = "slice content p n"
  have len: "length ?data = nat n" using slice_full [of p n content] n s(3,4) by simp
  obtain s1 where s1: "grub_read env (gz_inbuf s) (int INBUFSIZ) (s\<lparr>gz_bufloc := 0\<rparr>) = Some (n, overlay (gz_inbuf s) 0 ?data, s1)"
    "streaming content ok s1" "filepos s1 = p + n" "tcg s1 = tcg s" "gz_part s1 = gz_part (s\<lparr>gz_bufloc := 0\<rparr>)" "perform_sha1 s1 = perform_sha1 s"
    "perform_sha1 s \<longrightarrow> measured content ok s1"
    using stream_read [of "s\<lparr>gz_bufloc := 0\<rparr>" "gz_inbuf s" "int INBUFSIZ"] s(1) assms(3) rl by auto
  let ?s' = "s1\<lparr>gz_inbuf := overlay (gz_inbuf s) 0 ?data, gz_bufloc := 1\<rparr>"
  have b1: "gz_bufloc s1 = 0" "gzip_data_offset s1 = ?off" "gz s1 = gz s" using s1(5) by (auto simp: gz_part_def)
  have pn: "nat p < length content" using assms(2) s(3,4) by linarith
  then have hd: "overlay (gz_inbuf s) 0 ?data ! 0 = content ! nat p" "overlay (gz_inbuf s) 0 ?data \<noteq> []"
    using n(2) len by (auto simp: overlay_start nth_append slice_def)
  then have "get_byte env s = Some (content ! nat p, ?s')"
    using assms(4) s1(1) b1(1) by (auto simp: get_byte_def rd_def)
  moreover have "stream_at content ok (p + 1) ?s'"
  proof -
    have "length (overlay (gz_inbuf s) 0 ?data) = INBUFSIZ" using len n(3) s(2) by (auto simp: overlay_start)
    moreover have "take (nat (p + n - p)) (overlay (gz_inbuf s) 0 ?data) = slice content p (p + n - p)" using len by (simp add: overlay_start)
    ultimately show ?thesis
      using s1(2,3,6,7) b1 s(3,4) assms(2) start n(1) by (simp add: stream_at_def Let_def)
  qed
  ultimately show ?thesis using b1 s1(4,6) by auto
qed

lemma get_byte_buffered:
  assumes "stream_at content ok p s" and "p < int (length content)" and "\<not> (filepos s = gzip_data_offset s \<or> gz_bufloc s = INBUFSIZ)"
  shows "get_byte env s = Some (content ! nat p, s\<lparr>gz_bufloc := gz_bufloc s + 1\<rparr>)
    \<and> stream_at content ok (p + 1) (s\<lparr>gz_bufloc := gz_bufloc s + 1\<rparr>)"
proof -
  let ?off = "gzip_data_offset s"
  have off: "?off < p" "0 \<le> ?off" using assms(1,3) by (auto simp: stream_at_def Let_def split: if_splits)
  define start where "start = piece ?off p"
  have s: "streaming content ok s" "length (gz_inbuf s) = INBUFSIZ" "filepos s = min (start + int INBUFSIZ) (int (length content))"
    "int (gz_bufloc s) = p - start" "take (nat (filepos s - start)) (gz_inbuf s) = slice content start (filepos s - start)"
    "perform_sha1 s \<longrightarrow> measured content ok s"
    using assms(1) off by (auto simp: stream_at_def Let_def start_def split: if_splits)
  have pc: "?off \<le> start" "start < p" "p \<le> start + int INBUFSIZ" using piece_le [OF off(1)] by (auto simp: start_def)
  have lt: "p < start + int INBUFSIZ" using assms(3) s(4) pc(3) by linarith
  have pf: "p < filepos s" using lt assms(2) s(3) by simp
  have bl: "gz_bufloc s < nat (filepos s - start)" "gz_bufloc s < INBUFSIZ" "nat start + gz_bufloc s = nat p"
    using s(4) pf lt pc off(2) by linarith+
  have "gz_inbuf s ! gz_bufloc s = take (nat (filepos s - start)) (gz_inbuf s) ! gz_bufloc s" using bl(1) by simp
  also have "\<dots> = content ! nat p" unfolding s(5) using bl assms(2) off by (simp add: slice_def)
  finally have "get_byte env s = Some (content ! nat p, s\<lparr>gz_bufloc := gz_bufloc s + 1\<rparr>)"
    using assms(3) bl(2) s(2) by (auto simp: get_byte_def rd_def)
  moreover have "piece ?off (p + 1) = start" using piece_Suc [OF off(1)] lt by (simp add: start_def)
  then have "stream_at content ok (p + 1) (s\<lparr>gz_bufloc := gz_bufloc s + 1\<rparr>)"
    using s off assms(2) by (simp add: stream_at_def Let_def)
  ultimately show ?thesis by blast
qed

lemma get_byte_next:
  assumes "stream_at content ok p s" and "p < int (length content)"
  shows "\<exists>s'. get_byte env s = Some (content ! nat p, s') \<and> stream_at content ok (p + 1) s' \<and> gzip_data_offset s' = gzip_data_offset s
    \<and> gz s' = gz s \<and> tcg s' = tcg s \<and> perform_sha1 s' = perform_sha1 s"
proof (cases "filepos s = gzip_data_offset s \<or> gz_bufloc s = INBUFSIZ")
  case True
  let ?off = "gzip_data_offset s"
  have "filepos s = p"
  proof (cases "p = ?off")
    case False
    then have o: "?off < p" using assms(1) by (simp add: stream_at_def)
    then have "filepos s = min (piece ?off p + int INBUFSIZ) (int (length content))" "int (gz_bufloc s) = p - piece ?off p"
      using assms(1) False by (auto simp: stream_at_def Let_def)
    then show ?thesis using True piece_le [OF o] assms(2) by (auto simp: INBUFSIZ_def)
  qed (use assms(1) in \<open>simp add: stream_at_def\<close>)
  then show ?thesis using get_byte_refill [OF assms _ True] by blast
next
  case False
  then show ?thesis using get_byte_buffered [OF assms False] by auto
qed

lemma file_byte_stream: "byte_stream (file_source env) (file_left content ok off g t ps)"
proof
  fix s :: "('w, 't) file_state" and x xs
  assume "file_left content ok off g t ps s (x # xs)"
  then obtain p where p: "stream_at content ok p s" "x # xs = drop (nat p) content"
    and f: "gzip_data_offset s = off" "gz s = g" "tcg s = t" "perform_sha1 s = ps"
    by (auto simp: file_left_def)
  have p0: "0 \<le> p" using p(1) by (simp add: stream_at_def)
  have "nat p < length content" using p(2) by (metis drop_eq_Nil list.distinct(1) not_le)
  then have pl: "p < int (length content)" and hd: "content ! nat p = x" "drop (nat (p + 1)) content = xs"
    using p(2) [symmetric] p0 Cons_nth_drop_Suc [of "nat p" content] by (auto simp: nat_add_distrib)
  then show "\<exists>s'. next_byte (file_source env) s = Some (x, s') \<and> file_left content ok off g t ps s' xs"
    using get_byte_next [OF p(1) pl] f by (auto simp: file_source_def file_left_def)
next
  fix s :: "('w, 't) file_state" and xs
  assume "file_left content ok off g t ps s xs"
  then have "ok (dev s)" by (auto simp: file_left_def stream_at_def streaming_def plain_file_def)
  then show "\<not> failed (file_source env) s" using no_error by (simp add: file_source_def)
qed

end

section \<open>A compressed file is read and measured\<close>

context byte_stream
begin

lemma inflate_window_stored:
  assumes "left s (stored_stream ds @ rest_bytes)" and "ds \<noteq> []" and "length (concat ds) < WSIZE" and "length (gz_slide g) = WSIZE"
    and "gz_bb g = 0" and "gz_bk g = 0" and "block_len g = 0" and "\<not> last_block g"
  shows "\<exists>g' s'. inflate_window src g s = Some (g', s') \<and> left s' rest_bytes \<and> gz_slide g' = overlay (gz_slide g) 0 (concat ds)
    \<and> saved_filepos g' = saved_filepos g + int WSIZE \<and> gzip_filepos g' = gzip_filepos g"
  using window_loop_stored [of s ds rest_bytes "g\<lparr>gz_wp := 0\<rparr>"] assms by (fastforce simp: inflate_window_def)

end

text \<open>The header of a compressed file without optional fields, and the file as a whole for data in stored blocks.\<close>

definition gzip_header :: "u8 list \<Rightarrow> bool" where
  "gzip_header h \<longleftrightarrow> length h = 10 \<and> take 4 h = [0x1f, 0x8b, 8, 0]"

definition gzip_stored :: "u8 list \<Rightarrow> u8 list list \<Rightarrow> u8 list \<Rightarrow> u8 list" where
  "gzip_stored h ds crc =
     h @ stored_stream ds @ crc @ (let n = of_nat (length (concat ds)) :: u32 in [ucast n, ucast (drop_bit 8 n), ucast (drop_bit 16 n), ucast (drop_bit 24 n)])"

text \<open>A file that has just been opened, with a decompressor in any state.\<close>

definition fresh_file :: "u8 list \<Rightarrow> ('w dev_state \<Rightarrow> bool) \<Rightarrow> ('w, 't) file_state \<Rightarrow> bool" where
  "fresh_file content ok s \<longleftrightarrow> plain_file content ok s \<and> perform_sha1 s \<and> filepos s = 0 \<and> sha1_byte_count s = 0
     \<and> sha1_has_to_measure s = 0 \<and> sha1_repr (my_sha1 s) [] \<and> \<not> no_decompression s
     \<and> length (gz_inbuf s) = INBUFSIZ \<and> length (gz_slide (gz s)) = WSIZE"

lemma gzip_header_fields:
  assumes "gzip_header h"
  shows "le16 (h @ xs) 0 = 0x8B1F" "(h @ xs) ! 2 = 8" "(h @ xs) ! 3 = 0"
proof -
  have h: "take 4 h = [0x1f, 0x8b, 8, 0]" "length h = 10" using assms by (auto simp: gzip_header_def)
  have n: "h ! i = [0x1f, 0x8b, 8, 0] ! i" if "i < 4" for i using that h(1) nth_take [of i 4 h] by simp
  have "h ! 0 = 0x1f" "h ! 1 = 0x8b" "h ! 2 = 8" "h ! 3 = 0" using n [of 0] n [of 1] n [of 2] n [of 3] by simp_all
  then show "le16 (h @ xs) 0 = 0x8B1F" "(h @ xs) ! 2 = 8" "(h @ xs) ! 3 = 0"
    using h(2) by (simp_all add: le16_def nth_append push_bit_eq_mult)
qed

lemma le32_bytes: "le32 [ucast fs, ucast (drop_bit 8 fs), ucast (drop_bit 16 fs), ucast (drop_bit 24 fs)] 0 = (fs :: u32)"
proof (rule bit_word_eqI)
  fix n :: nat
  assume "n < LENGTH(32)"
  then consider "n < 8" | "8 \<le> n" "n < 16" | "16 \<le> n" "n < 24" | "24 \<le> n" "n < 32" by fastforce
  then show "bit (le32 [ucast fs, ucast (drop_bit 8 fs), ucast (drop_bit 16 fs), ucast (drop_bit 24 fs)] 0) n = bit fs n"
    by cases (auto simp: le32_def bit_simps)
qed

lemma le32_shift: "length a = k \<Longrightarrow> le32 (a @ b) k = le32 b 0"
  by (simp add: le32_def nth_append eval_nat_numeral)

text \<open>The state that the test of the header leaves: the file is compressed, and its data have not been touched.\<close>

definition zipped :: "int \<Rightarrow> ('w, 't) file_state \<Rightarrow> ('w, 't) file_state \<Rightarrow> bool" where
  "zipped n s s1 \<longleftrightarrow> (\<exists>d h g. gunzip_swap_values (s1\<lparr>compressed_file := False\<rparr>)
       = s\<lparr>dev := d, sha1_has_to_measure := h, gzip_data_offset := 10, filepos := 10, gz := g\<rparr>
     \<and> dev s1 = d \<and> gzip_filepos g = 0 \<and> gzip_filemax g = n \<and> gzip_fsmax g = n \<and> saved_filepos g = 0 \<and> gz_bb g = 0 \<and> gz_bk g = 0
     \<and> block_len g = 0 \<and> \<not> last_block g \<and> gz_slide g = gz_slide (gz s) \<and> h = (if sha1_has_to_measure s = 0 then filemax s else sha1_has_to_measure s))
     \<and> compressed_file s1 \<and> filepos s1 = 0 \<and> filemax s1 = n \<and> fsmax s1 = n \<and> sha1_byte_count s1 = sha1_byte_count s
     \<and> measure_kernel s1 = measure_kernel s \<and> perform_sha1 s1 = perform_sha1 s \<and> sha1_has_to_measure s1 = (if sha1_has_to_measure s = 0 then filemax s else sha1_has_to_measure s)"

context fs_reader
begin

lemma test_header_gzip:
  assumes "content = gzip_stored h ds crc" and "gzip_header h" and "length crc = 4" and "length (concat ds) < 2 ^ 31"
    and "plain_file content ok s" and "\<not> perform_sha1 s" and "filepos s = 0" and "\<not> no_decompression s"
  shows "\<exists>s1. test_header env s = Some (True, s1) \<and> zipped (int (length (concat ds))) s s1 \<and> ok (dev s1)"
proof -
  define n where "n = (of_nat (length (concat ds)) :: u32)"
  define sz where "sz = [ucast n, ucast (drop_bit 8 n), ucast (drop_bit 16 n), ucast (drop_bit 24 n :: u32) :: u8]"
  define body where "body = stored_stream ds"
  let ?L = "int (length content)" and ?N = "int (length (concat ds))"
  have c: "content = h @ body @ crc @ sz" using assms(1) by (simp add: gzip_stored_def n_def sz_def body_def Let_def)
  have lh: "length h = 10" "length sz = 4" using assms(2) by (auto simp: gzip_header_def sz_def)
  have L: "18 \<le> ?L" "?L = 18 + int (length body)" "filemax s = ?L" "?L < 2 ^ 31" "?L \<le> fsmax s"
    using c lh assms(3,5) by (auto simp: plain_file_def)
  define m where "m = (if sha1_has_to_measure s = 0 then filemax s else sha1_has_to_measure s)"
  have "read_len 10 s = 10" using L assms(7) by (simp add: read_len_def)
  moreover have "slice content 0 10 = h" using lh by (simp add: slice_def c)
  ultimately obtain d1 where d1: "grub_read env (replicate 10 0) 10 s = Some (10, h, s\<lparr>filepos := 10, dev := d1, sha1_has_to_measure := m\<rparr>)" "ok d1"
    using unmeasured_read [OF assms(5,6), of "grub_read_body env (\<lambda>_ _ _. None)" "replicate 10 0" 10] assms(7) lh
    unfolding m_def [symmetric] by (auto simp: grub_read_def overlay_start)
  let ?s2 = "s\<lparr>dev := d1, sha1_has_to_measure := m, gzip_data_offset := 10, filepos := ?L - 8\<rparr>"
  have p2: "plain_file content ok ?s2" "\<not> perform_sha1 ?s2" using assms(5,6) d1(2) L by (auto simp: plain_file_def)
  have m: "m \<noteq> 0" using L by (simp add: m_def)
  have "read_len 8 ?s2 = 8" using L by (simp add: read_len_def)
  moreover have "slice content (?L - 8) 8 = crc @ sz" using lh assms(3) by (simp add: slice_def c nat_diff_distrib)
  ultimately obtain d2 where d2: "grub_read env (take 8 h) 8 ?s2 = Some (8, crc @ sz, ?s2\<lparr>filepos := ?L, dev := d2, sha1_has_to_measure := m\<rparr>)" "ok d2"
    using unmeasured_read [OF p2, of "grub_read_body env (\<lambda>_ _ _. None)" "take 8 h" 8] lh assms(3) m
    by (auto simp: grub_read_def overlay_start)
  have hf: "le16 h 0 = 0x8B1F" "h ! 2 = 8" "h ! 3 = 0" using gzip_header_fields [OF assms(2), of "[]"] by auto
  have "le32 (crc @ sz) 4 = n" using le32_shift [OF assms(3), of sz] by (simp add: sz_def le32_bytes)
  moreover have "c_int (uint n) = ?N"
    using assms(4) by (simp add: n_def c_int_def uint_nat unat_of_nat take_bit_nat_def)
  ultimately have N: "c_int (uint (le32 (crc @ sz) 4)) = ?N" by simp
  define g where "g = reset_linalloc ((gz s)\<lparr>gzip_crc := le32 (crc @ sz) 0, gzip_fsmax := ?N, gzip_filemax := ?N,
    saved_filepos := 0, gz_bk := 0, gz_bb := 0, last_block := False, block_len := 0\<rparr>)"
  define s1 where "s1 = s\<lparr>dev := d2, sha1_has_to_measure := m, gzip_data_offset := 10, compressed_file := True, filepos := 0, filemax := ?N, fsmax := ?N,
     gz := g\<lparr>gzip_filepos := 10, gzip_filemax := filemax s, gzip_fsmax := fsmax s\<rparr>\<rparr>"
  have "test_header env s = Some (True, s1)"
    using d1(1) d2(1) hf assms(8) N L(3)
    by (simp add: test_header_def bad_fields_def Let_def s1_def g_def gunzip_swap_values_def initialize_tables_def reset_linalloc_def)
  moreover have "zipped ?N s s1"
  proof -
    have "compressed_file s = False" using assms(5) by (simp add: plain_file_def)
    then have "gunzip_swap_values (s1\<lparr>compressed_file := False\<rparr>)
        = s\<lparr>dev := d2, sha1_has_to_measure := m, gzip_data_offset := 10, filepos := 10, gz := g\<lparr>gzip_filepos := 0\<rparr>\<rparr>"
      by (simp add: s1_def gunzip_swap_values_def g_def reset_linalloc_def)
    then show ?thesis by (auto simp: zipped_def s1_def g_def reset_linalloc_def m_def)
  qed
  ultimately show ?thesis using d2(2) by (auto simp: s1_def)
qed

end

lemma stream_at_gz [simp]: "stream_at content ok p (s\<lparr>gz := g\<rparr>) = stream_at content ok p s"
  by (simp add: stream_at_def streaming_def plain_file_def unhashed_def measured_def Let_def)

lemma overlay_take: "n \<le> length xs \<Longrightarrow> length xs \<le> length ys \<Longrightarrow> take n (overlay ys 0 xs) = take n xs"
  by (simp add: overlay_start)

context fs_reader
begin

lemma read_compressed_stored:
  assumes "content = gzip_stored h ds crc" and "gzip_header h" and "length crc = 4" and "ds \<noteq> []" and "length (concat ds) < WSIZE"
    and x: "x = gunzip_swap_values (s\<lparr>compressed_file := False\<rparr>)"
    and at: "stream_at content ok 10 x" "gzip_data_offset x = 10"
    and g: "gzip_filepos (gz x) = 0" "saved_filepos (gz x) = 0" "gz_bb (gz x) = 0" "gz_bk (gz x) = 0" "block_len (gz x) = 0" "\<not> last_block (gz x)"
      "length (gz_slide (gz x)) = WSIZE"
    and len: "0 < len" "len \<le> int (length (concat ds))"
  shows "\<exists>y. read_compressed env buf len s = Some (len, overlay buf 0 (take (nat len) (concat ds)), gunzip_swap_values (y\<lparr>compressed_file := True\<rparr>))
    \<and> stream_at content ok (int (length content) - 8) y \<and> gzip_data_offset y = 10 \<and> tcg y = tcg x \<and> perform_sha1 y = perform_sha1 x"
proof -
  let ?data = "concat ds"
  define sz where "sz = (let n = of_nat (length ?data) :: u32 in [ucast n, ucast (drop_bit 8 n), ucast (drop_bit 16 n), ucast (drop_bit 24 n)] :: u8 list)"
  have c: "content = h @ stored_stream ds @ crc @ sz" using assms(1) by (simp add: gzip_stored_def sz_def)
  have lh: "length h = 10" "length sz = 4" using assms(2) by (auto simp: gzip_header_def sz_def Let_def)
  have left: "file_left content ok 10 (gz x) (tcg x) (perform_sha1 x) x (stored_stream ds @ crc @ sz)"
    using at lh(1) c by (auto simp: file_left_def intro!: exI [of _ 10])
  obtain g' s' where g': "inflate_window (file_source env) (gz x) x = Some (g', s')"
    "file_left content ok 10 (gz x) (tcg x) (perform_sha1 x) s' (crc @ sz)" "gz_slide g' = overlay (gz_slide (gz x)) 0 ?data"
    "saved_filepos g' = int WSIZE" "gzip_filepos g' = 0"
    using byte_stream.inflate_window_stored [OF file_byte_stream left assms(4,5) g(7,3-6)] g(1,2) by auto
  obtain p where p: "stream_at content ok p s'" "crc @ sz = drop (nat p) content"
    and s': "gzip_data_offset s' = 10" "tcg s' = tcg x" "perform_sha1 s' = perform_sha1 x"
    using g'(2) by (auto simp: file_left_def)
  have "length (crc @ sz) = length content - nat p" unfolding p(2) by simp
  then have pe: "p = int (length content) - 8" using p(1) assms(3) lh(2) c by (auto simp: stream_at_def)
  have noerr: "ferr s' = ERR_NONE" "ferr x = ERR_NONE"
    using p(1) at(1) no_error by (auto simp: stream_at_def streaming_def plain_file_def)
  define y where "y = s'\<lparr>gz := g'\<lparr>gzip_filepos := len\<rparr>\<rparr>"
  have mw: "move_window env x = Some (s'\<lparr>gz := g'\<rparr>)"
    using g g'(1,4,5) by (subst move_window.simps, simp, subst move_window.simps) (simp add: WSIZE_def)
  have out: "take (nat len) (gz_slide g') = take (nat len) ?data"
    unfolding g'(3) using len(2) assms(5) g(7) by (intro overlay_take) auto
  have ls: "length (gz_slide g') = WSIZE" using g'(3) g(7) assms(5) by (auto simp: overlay_start)
  have "min (int WSIZE) len = len" "len \<le> int WSIZE" using len(2) assms(5) by auto
  then have "gunzip_loop env buf len 0 x = Some (len, overlay buf 0 (take (nat len) ?data), y)"
    using mw len(1) g'(4,5) noerr ls out
    by (subst gunzip_loop.simps, simp add: Let_def, subst gunzip_loop.simps) (simp add: y_def)
  moreover have "\<not> gzip_filepos (gz x) + int WSIZE < saved_filepos (gz x)" using g(1,2) by simp
  moreover have "ferr (gunzip_swap_values (y\<lparr>compressed_file := True\<rparr>)) = ERR_NONE" using noerr(1) by (simp add: gunzip_swap_values_def y_def)
  ultimately have "read_compressed env buf len s = Some (len, overlay buf 0 (take (nat len) ?data), gunzip_swap_values (y\<lparr>compressed_file := True\<rparr>))"
    unfolding read_compressed_def x [symmetric] by simp
  moreover have "stream_at content ok (int (length content) - 8) y" using p(1) unfolding pe y_def by simp
  ultimately show ?thesis using s' by (auto simp: y_def)
qed

end

lemma stored_stream_pos: "ds \<noteq> [] \<Longrightarrow> Suc 0 \<le> length (stored_stream ds)"
  by (cases ds rule: stored_stream.cases) (simp_all add: stored_block_def Let_def)

lemma last_piece:
  fixes c :: int
  assumes "9 \<le> c"
  shows "piece 10 (c + 2) + int INBUFSIZ < c + 10 \<longleftrightarrow> c mod int INBUFSIZ \<in> {1..8}"
proof -
  have wrap: "(r - 9) mod b = (if r < 9 then r - 9 + b else r - 9)" if "0 \<le> r" "r < b" "9 < b" for r b :: int
    using that mod_add_self2 [of "r - 9" b] mod_pos_pos_trivial [of "r - 9 + b" b] mod_pos_pos_trivial [of "r - 9" b] by auto
  let ?B = "int INBUFSIZ" and ?r = "c mod int INBUFSIZ"
  have r: "0 \<le> ?r" "?r < ?B" using INBUFSIZ_pos by auto
  have B: "9 < ?B" by (simp add: INBUFSIZ_def)
  have "(c - 9) mod ?B = (?r - 9) mod ?B" by (simp add: mod_diff_left_eq)
  also have "\<dots> = (if ?r < 9 then ?r - 9 + ?B else ?r - 9)"
    by (rule wrap [OF r B])
  finally have m: "(c - 9) mod ?B = (if ?r < 9 then ?r - 9 + ?B else ?r - 9)" .
  have "piece 10 (c + 2) = c + 1 - (c - 9) mod ?B" by (simp add: piece_mod)
  then show ?thesis unfolding m atLeastAtMost_iff using r B by (cases "?r < 9") (simp_all only: if_True if_False, linarith+)
qed

text \<open>
  C9. A compressed file is read and measured. Opening a file that holds at least one and less than 32 KB of data (one window) in stored blocks recognises it, with the
  size of the data as the size of the file; one \<open>grub_read\<close> of the whole file delivers exactly the data; and closing it then extends PCR 14 by the hash of the
  compressed file as it is on the disk. The exception among these files: the decompressor reads in pieces of 8192 bytes and stops before the trailer
  of 8 bytes, so that the last piece of a file of which it holds at most 8 bytes is never read. Such a file is
  reported as incompletely measured, and no register is extended.
\<close>

theorem gzip_stored_measured:
  assumes "fs_reader env content ok" and "tcg_bios (int1a_of env) pcr" and "tpm_present env = 0"
    and "content = gzip_stored h ds crc" and "gzip_header h" and "length crc = 4"
    and "ds \<noteq> []" and "concat ds \<noteq> []" and "length (concat ds) < WSIZE"
    and "fresh_file content ok s"
  shows "\<exists>s1 s2. open_measured (gunzip_env env) s = Some (True, s1) \<and> filemax s1 = int (length (concat ds))
    \<and> grub_read (gunzip_env env) buf (filemax s1) s1 = Some (filemax s1, overlay buf 0 (concat ds), s2)
    \<and> (if (int (length content) - 10) mod int INBUFSIZ \<in> {1..8}
       then grub_close (gunzip_env env) True s2 = Some Halted
         \<and> (\<exists>s3. grub_close (gunzip_env env) False s2 = Some (Closed s3) \<and> tcg s3 = tcg s)
       else \<forall>escape. \<exists>s3. grub_close (gunzip_env env) escape s2 = Some (Closed s3)
         \<and> pcr (snd (tcg s3)) = (pcr (snd (tcg s)))(14 := tpm_extend (pcr (snd (tcg s)) 14) (digest_bytes (fips_sha1 content))))"
proof -
  let ?env = "gunzip_env env" and ?n = "int (length (concat ds))" and ?L = "int (length content)"
  have f: "plain_file content ok s" "perform_sha1 s" "filepos s = 0" "sha1_byte_count s = 0" "sha1_has_to_measure s = 0"
    "sha1_repr (my_sha1 s) []" "\<not> no_decompression s" "length (gz_inbuf s) = INBUFSIZ" "length (gz_slide (gz s)) = WSIZE" "\<not> measure_kernel s"
    "filemax s = ?L"
    using assms(10) by (auto simp: fresh_file_def plain_file_def)
  let ?s0 = "s\<lparr>perform_sha1 := False, measure_kernel := False\<rparr>"
  have "plain_file content ok ?s0" "\<not> perform_sha1 ?s0" "filepos ?s0 = 0" "\<not> no_decompression ?s0" using f by (auto simp: plain_file_def)
  then obtain sh where sh: "test_header env ?s0 = Some (True, sh)" "zipped ?n ?s0 sh" "ok (dev sh)"
    using fs_reader.test_header_gzip [OF assms(1,4-6), of ?s0] assms(9) by (auto simp: WSIZE_def)
  define s1 where "s1 = sh\<lparr>perform_sha1 := True, measure_kernel := False\<rparr>"
  have open1: "open_measured ?env s = Some (True, s1)"
    using sh(1) f(10) by (simp add: open_measured_def s1_def)
  have L19: "19 \<le> ?L" using assms(5-7) stored_stream_pos [of ds] by (simp add: assms(4) gzip_stored_def gzip_header_def Let_def)
  then have content: "content \<noteq> []" by auto
  define x where "x = gunzip_swap_values (s1\<lparr>compressed_file := False\<rparr>)"
  obtain d g where x: "x = s\<lparr>dev := d, measure_kernel := False, sha1_has_to_measure := ?L, gzip_data_offset := 10, filepos := 10, gz := g\<rparr>"
    and g: "gzip_filepos g = 0" "saved_filepos g = 0" "gz_bb g = 0" "gz_bk g = 0" "block_len g = 0" "\<not> last_block g" "length (gz_slide g) = WSIZE"
      "gzip_filemax g = ?n" "gzip_fsmax g = ?n" "ok d"
    and s1: "compressed_file s1" "filepos s1 = 0" "filemax s1 = ?n" "fsmax s1 = ?n" "sha1_byte_count s1 = 0" "\<not> measure_kernel s1" "sha1_has_to_measure s1 = ?L"
  proof -
    obtain d g where z: "gunzip_swap_values (sh\<lparr>compressed_file := False\<rparr>)
        = ?s0\<lparr>dev := d, sha1_has_to_measure := ?L, gzip_data_offset := 10, filepos := 10, gz := g\<rparr>" "dev sh = d"
      and g: "gzip_filepos g = 0" "saved_filepos g = 0" "gz_bb g = 0" "gz_bk g = 0" "block_len g = 0" "\<not> last_block g" "length (gz_slide g) = WSIZE"
        "gzip_filemax g = ?n" "gzip_fsmax g = ?n"
      using sh(2) f by (auto simp: zipped_def)
    have "x = (gunzip_swap_values (sh\<lparr>compressed_file := False\<rparr>))\<lparr>perform_sha1 := True, measure_kernel := False\<rparr>"
      by (simp add: x_def s1_def gunzip_swap_values_def)
    then have "x = s\<lparr>dev := d, measure_kernel := False, sha1_has_to_measure := ?L, gzip_data_offset := 10, filepos := 10, gz := g\<rparr>"
      unfolding z(1) using f(2) by (auto intro!: file_state.equality)
    then show ?thesis using that g sh(2,3) z(2) f by (auto simp: zipped_def s1_def)
  qed
  have "unhashed content ok x" using f L19 g(10) by (auto simp: x unhashed_def plain_file_def)
  then have at: "stream_at content ok 10 x" using f(8) L19 by (auto simp: stream_at_def streaming_def x unhashed_def)
  have off: "gzip_data_offset x = 10" "tcg x = tcg s" "perform_sha1 x" "gz x = g" using f by (auto simp: x)
  have len: "0 < ?n" using assms(8) by simp
  obtain y where y: "read_compressed env buf ?n s1 = Some (?n, overlay buf 0 (concat ds), gunzip_swap_values (y\<lparr>compressed_file := True\<rparr>))"
    "stream_at content ok (?L - 8) y" "gzip_data_offset y = 10" "tcg y = tcg s" "perform_sha1 y"
    using fs_reader.read_compressed_stored [OF assms(1,4-7,9) x_def at off(1), unfolded off(4), OF g(1-7) len order_refl, of buf] off by auto
  define s2 where "s2 = gunzip_swap_values (y\<lparr>compressed_file := True\<rparr>)"
  have "grub_read ?env buf ?n s1 = Some (?n, overlay buf 0 (concat ds), s2)"
    using y(1) s1 content unfolding grub_read_def
    by (subst grub_read_body_steps [of s1 s1]) (simp_all add: sane_filepos_def read_len_def read_prefix_def read_tail_def s2_def)
  moreover
  have m: "measured content ok y" "filepos y = min (piece 10 (?L - 8) + int INBUFSIZ) ?L"
    using y(2,3,5) L19 by (auto simp: stream_at_def Let_def)
  then have c: "sha1_byte_count s2 = filepos y" "sha1_has_to_measure s2 = ?L" "sha1_repr (my_sha1 s2) (take (nat (filepos y)) content)" "perform_sha1 s2" "tcg s2 = tcg s"
    using y(4) by (auto simp: s2_def gunzip_swap_values_def measured_def plain_file_def)
  have whole: "filepos y = ?L \<longleftrightarrow> (?L - 10) mod int INBUFSIZ \<notin> {1..8}" using last_piece [of "?L - 10"] L19 m(2) by auto
  ultimately show ?thesis
  proof (cases "filepos y = ?L")
    case True
    then have "\<exists>s3. grub_close ?env escape s2 = Some (Closed s3)
         \<and> pcr (snd (tcg s3)) = (pcr (snd (tcg s)))(14 := tpm_extend (pcr (snd (tcg s)) 14) (digest_bytes (fips_sha1 content)))" for escape
      using close_extends [of ?env pcr s2 content escape] assms(2,3) c by simp
    then show ?thesis using True whole open1 s1(3) \<open>grub_read ?env buf ?n s1 = _\<close> by auto
  next
    case False
    then have "sha1_byte_count s2 \<noteq> sha1_has_to_measure s2" using c by simp
    from close_incomplete [OF c(3,4) this, of ?env] show ?thesis
      using False whole open1 s1(3) c(5) \<open>grub_read ?env buf ?n s1 = _\<close> by auto
  qed
qed

end
