(* ===== verification/Iso9660.thy ===== *)
theory Iso9660
  imports Gunzip
begin

unbundle bit_operations_syntax

text \<open>
  The ISO 9660 driver of \<^verbatim>\<open>stage2/fsys_iso9660.c\<close> with the Rock Ridge extensions: mounting, the
  walk along a path, and reading a file, which lies on the disk in one piece.

  The driver keeps its data in the area \<open>FSYS_BUF\<close>: the start of the file at 4, the volume descriptor
  at 2048, a sector of the directory at 4096, a continuation of Rock Ridge entries at 6144 and a name at
  8192. Pointers are offsets in this area; a pointer that leaves it, as the code does not prevent,
  has no result here, and neither has a loop that does not end.
\<close>

section \<open>Access to the disk\<close>

definition FSYS_BUFLEN :: nat where "FSYS_BUFLEN = 0x8000"
definition ISO_SECTOR_BITS :: nat where "ISO_SECTOR_BITS = 11"
definition ISO_SECTOR_SIZE :: int where "ISO_SECTOR_SIZE = 2048"
definition ISO_OTHER :: nat where "ISO_OTHER = 0"
definition ISO_REGULAR :: nat where "ISO_REGULAR = 1"
definition ISO_DIRECTORY :: nat where "ISO_DIRECTORY = 2"

definition IS_PC_SLICE_TYPE_BSD_WITH_FS :: "u32 \<Rightarrow> u32 \<Rightarrow> bool" where
  "IS_PC_SLICE_TYPE_BSD_WITH_FS t fs \<longleftrightarrow>
     t = 0xa5 OR push_bit 8 fs \<or> t = 0xa6 OR push_bit 8 fs \<or> t = 0xa9 OR push_bit 8 fs"

definition iso32 :: "(nat \<Rightarrow> u8) \<Rightarrow> nat \<Rightarrow> u32" where
  "iso32 m a = le32 (peek m a 4) 0"

text \<open>
  \<open>iso9660_devread\<close> adds the whole sectors of the offset, in sectors of the drive, to a sector number
  that counts in 2048 bytes, and then scales the sum.
\<close>

definition iso9660_devread :: "'w int13 \<Rightarrow> int \<Rightarrow> int \<Rightarrow> int \<Rightarrow> 'w dev_state
    \<Rightarrow> (bool \<times> u8 list \<times> 'w dev_state) option" where
  "iso9660_devread b sector byte_offset byte_len d =
     (let ss = sector_size (buf_geom (disk d)); lg2 = grub_log2 (nat ss)
      in if sector < 0 then Some (False, [], set_err ERR_OUTSIDE_PART d)
         else if byte_len \<le> 0 then Some (True, [], d)
         else
           let sector1 = c_int (sector + drop_bit lg2 byte_offset);
               offset1 = byte_offset AND (ss - 1);
               sector2 = c_int (push_bit (nat ((int ISO_SECTOR_BITS - int lg2) mod 32)) sector1)
           in map_option (\<lambda>(ok, out, st). (ok, out, d\<lparr>disk := st\<rparr>))
                (rawread b (\<lambda>_ _. True) (sint (current_drive d)) (c_int (uint (part_start d) + sector2)) offset1 byte_len (disk d)))"

text \<open>A sector read into \<open>FSYS_BUF\<close>.\<close>

definition iso_load :: "'w int13 \<Rightarrow> int \<Rightarrow> nat \<Rightarrow> 'w dev_state \<Rightarrow> (bool \<times> 'w dev_state) option" where
  "iso_load b sector a d =
     map_option (\<lambda>(ok, out, d'). (ok, d'\<lparr>fsys_buf := poke (fsys_buf d') a out\<rparr>))
       (iso9660_devread b sector 0 ISO_SECTOR_SIZE d)"

section \<open>Mounting\<close>

text \<open>
  The volume descriptors are tried from sector 16 on. (The code also sets \<open>fsmax\<close>, which
  \<open>grub_open\<close> sets again before it is used.)
\<close>

fun iso_mount_loop :: "'w int13 \<Rightarrow> nat list \<Rightarrow> 'w dev_state \<Rightarrow> (bool \<times> 'w dev_state) option" where
  "iso_mount_loop b [] d = Some (False, d)"
| "iso_mount_loop b (sector # later) d =
     do { (ok, d1) \<leftarrow> iso_load b (int sector) 2048 d;
          if \<not> ok then Some (False, d1)
          else if fsys_buf d1 2048 = 1 \<and> peek (fsys_buf d1) 2049 5 = [0x43, 0x44, 0x30, 0x30, 0x31]
          then Some (True, d1\<lparr>fsys_buf := poke (poke (fsys_buf d1) 0 [of_nat sector, 0, 0, 0]) 4 [0, 0, 0, 0]\<rparr>)
          else iso_mount_loop b later d1 }"

definition iso9660_mount :: "'w int13 \<Rightarrow> 'w dev_state \<Rightarrow> (bool \<times> 'w dev_state) option" where
  "iso9660_mount b d =
     (if current_partition d \<noteq> 0xFFFFFF \<and> \<not> IS_PC_SLICE_TYPE_BSD_WITH_FS (current_slice d) 12 then Some (False, d)
      else iso_mount_loop b [16..<32] d)"

section \<open>Rock Ridge entries\<close>

record 'w rr_state =
  rr_dev :: "'w dev_state"
  rr_name :: nat
  rr_name_len :: u32
  rr_file_type :: nat
  rr_flag :: u8
  rr_ce :: "nat option"
  rr_ptr :: nat
  rr_len :: u32

text \<open>One entry; an entry of another version or signature is skipped.\<close>

definition rr_entry :: "'w rr_state \<Rightarrow> 'w rr_state" where
  "rr_entry s =
     (let m = fsys_buf (rr_dev s); p = rr_ptr s; sig = (m p, m (p + 1)); len = m (p + 2); mode = iso32 m (p + 4) AND 0xF000
      in if m (p + 3) \<noteq> 1 then s
         else if sig = (0x52, 0x52) then (if 5 \<le> len then s\<lparr>rr_flag := rr_flag s AND m (p + 4)\<rparr> else s)
         else if sig = (0x4e, 0x4d) then s\<lparr>rr_name := p + 5, rr_name_len := ucast len - 5, rr_flag := rr_flag s AND NOT 8\<rparr>
         else if sig = (0x50, 0x58)
         then (if 36 \<le> len
               then s\<lparr>rr_file_type := (if mode = 0x8000 then ISO_REGULAR else if mode = 0x4000 then ISO_DIRECTORY else ISO_OTHER),
                      rr_flag := rr_flag s AND NOT 1\<rparr>
               else s)
         else if sig = (0x43, 0x45) then (if 28 \<le> len then s\<lparr>rr_ce := Some p\<rparr> else s)
         else s)"

text \<open>
  The step to the next entry, and to the continuation sector after the last one. The flag of the
  result says whether the loop goes on.
\<close>

definition rr_next :: "'w int13 \<Rightarrow> 'w rr_state \<Rightarrow> (bool \<times> 'w rr_state) option" where
  "rr_next b s =
     (let m = fsys_buf (rr_dev s); len = m (rr_ptr s + 2);
          s1 = s\<lparr>rr_len := rr_len s - ucast len, rr_ptr := rr_ptr s + unat len\<rparr>
      in case rr_ce s of
           Some ce \<Rightarrow>
             if rr_len s1 < 4
             then
               let n = unat (rr_name_len s1);
                   keep = 6144 \<le> rr_name s1 \<and> rr_name s1 < 6144 + 2048;
                   s2 = (if keep then s1\<lparr>rr_name := 8192,
                           rr_dev := (rr_dev s1)\<lparr>fsys_buf := (if err_of (rr_dev s1) = ERR_NONE
                             then poke m 8192 (peek m (rr_name s1) n) else m)\<rparr>\<rparr> else s1);
                   m2 = fsys_buf (rr_dev s2);
                   s3 = s2\<lparr>rr_ptr := 6144 + unat (iso32 m2 (ce + 12)), rr_len := iso32 m2 (ce + 20)\<rparr>
               in if keep \<and> FSYS_BUFLEN < 8192 + n then None
                  else do {
                    (ok, d) \<leftarrow> iso_load b (c_int (uint (iso32 m2 (ce + 4)))) 6144 (rr_dev s3);
                    Some (if ok then (True, s3\<lparr>rr_dev := d, rr_ce := None\<rparr>)
                          else (False, s3\<lparr>rr_dev := set_err ERR_NONE d\<rparr>)) }
             else Some (True, s1)
         | None \<Rightarrow> Some (True, s1))"

partial_function (option) rr_loop :: "'w int13 \<Rightarrow> 'w rr_state \<Rightarrow> 'w rr_state option" where
  "rr_loop b s =
     (if rr_len s < 4 then Some s
      else if FSYS_BUFLEN \<le> rr_ptr s then None
      else let s1 = rr_entry s
           in if rr_flag s1 = 0 then Some s1
              else Option.bind (rr_next b s1) (\<lambda>(go, s2). if go then rr_loop b s2 else Some s2))"

section \<open>Directories\<close>

text \<open>
  What a directory record does to the search: it goes on, it descends into the record, or
  \<open>iso9660_dir\<close> returns. The search keeps the device, \<open>print_possibilities\<close> and \<open>filemax\<close>.
\<close>

datatype iso_outcome = Iso_Next | Iso_Descend | Iso_Return bool

type_synonym 'w iso_search = "'w dev_state \<times> int \<times> int"

text \<open>The length of a name without its version.\<close>

definition iso_name_len :: "(nat \<Rightarrow> u8) \<Rightarrow> nat \<Rightarrow> nat" where
  "iso_name_len m idr =
     (let name = idr + 33; n = unat (m (idr + 32))
      in if 2 < n \<and> m (name + n - 2) = 0x3b \<and> m (name + n - 1) = 0x31
         then if 1 < n - 2 \<and> m (name + (n - 2) - 1) = 0x2e then n - 3 else n - 2
         else n)"

text \<open>The search for Rock Ridge entries behind the name of a record.\<close>

definition iso_extensions :: "'w int13 \<Rightarrow> nat \<Rightarrow> 'w dev_state \<Rightarrow> 'w rr_state option" where
  "iso_extensions b idr d =
     (let m = fsys_buf d; n = m (idr + 32); p = idr + unat n + 33; rest = ucast (m idr) - ucast n - 34 + 1
      in rr_loop b \<lparr>rr_dev = d, rr_name = idr + 33, rr_name_len = of_nat (iso_name_len m idr),
           rr_file_type = (if m (idr + 25) AND 2 \<noteq> 0 then ISO_DIRECTORY else ISO_REGULAR),
           rr_flag = 9, rr_ce = None, rr_ptr = (if odd p then p + 1 else p),
           rr_len = (if odd p then rest - 1 else rest)\<rparr>)"

definition iso_match :: "u8 list \<Rightarrow> nat \<Rightarrow> u8 \<Rightarrow> nat \<Rightarrow> 'w rr_state \<Rightarrow> int \<Rightarrow> (iso_outcome \<times> 'w iso_search) option" where
  "iso_match dirname pathlen c idr s pp =
     (let d = rr_dev s; m = fsys_buf d; n = rr_name_len s; maxint = uint MAXINT
      in if \<not> (of_nat pathlen \<le> n \<and> peek m (rr_name s) pathlen = take pathlen dirname) then Some (Iso_Next, d, pp, maxint)
         else if c = 0x2f \<or> pp = 0
         then Some (
           if of_nat pathlen \<noteq> n then (Iso_Next, d, pp, maxint)
           else if c = 0x2f
           then if rr_file_type s \<noteq> ISO_DIRECTORY then (Iso_Return False, set_err ERR_BAD_FILETYPE d, pp, maxint)
                else (Iso_Descend, d, pp, maxint)
           else if rr_file_type s \<noteq> ISO_REGULAR then (Iso_Return False, set_err ERR_BAD_FILETYPE d, pp, maxint)
           else (Iso_Return True, d\<lparr>fsys_buf := poke m 4 (peek m (idr + 2) 4)\<rparr>, pp, c_int (uint (iso32 m (idr + 10)))))
         else
           let name = peek m (rr_name s) (unat n);
               m' = (if err_of d = ERR_NONE then poke m 8192 name else m)
           in if FSYS_BUFLEN \<le> 8192 + unat n then None
              else Some (Iso_Next, d\<lparr>fsys_buf := m'(8192 + unat n := 0),
                           completions := completions d @ [takeWhile (\<lambda>c. c \<noteq> 0) (peek m' 8192 (unat n))]\<rparr>,
                         if 0 < pp then - pp else pp, maxint))"

definition iso_record :: "'w int13 \<Rightarrow> u8 list \<Rightarrow> nat \<Rightarrow> u8 \<Rightarrow> nat \<Rightarrow> 'w iso_search \<Rightarrow> (iso_outcome \<times> 'w iso_search) option" where
  "iso_record b dirname pathlen c idr = (\<lambda>(d, pp, fmax).
     if fsys_buf d (idr + 32) = 1 \<and> (fsys_buf d (idr + 33) = 0 \<or> fsys_buf d (idr + 33) = 1)
     then Some (Iso_Next, d, pp, fmax)
     else do { s \<leftarrow> iso_extensions b idr d; iso_match dirname pathlen c idr s pp })"

partial_function (option) iso_records :: "'w int13 \<Rightarrow> u8 list \<Rightarrow> nat \<Rightarrow> u8 \<Rightarrow> nat \<Rightarrow> 'w iso_search
    \<Rightarrow> (iso_outcome \<times> nat \<times> 'w iso_search) option" where
  "iso_records b dirname pathlen c idr st =
     (if FSYS_BUFLEN \<le> idr then None
      else if fsys_buf (fst st) idr = 0 then Some (Iso_Next, idr, st)
      else Option.bind (iso_record b dirname pathlen c idr st)
        (\<lambda>(r, st'). if r = Iso_Next
           then iso_records b dirname pathlen c (idr + unat (fsys_buf (fst st') idr)) st'
           else Some (r, idr, st')))"

partial_function (option) iso_extents :: "'w int13 \<Rightarrow> u8 list \<Rightarrow> nat \<Rightarrow> u8 \<Rightarrow> int \<Rightarrow> u32 \<Rightarrow> 'w iso_search
    \<Rightarrow> (iso_outcome \<times> nat \<times> 'w iso_search) option" where
  "iso_extents b dirname pathlen c left extent st =
     (if left \<le> 0 then Some (Iso_Next, 0, st)
      else Option.bind (iso_load b (c_int (uint extent)) 4096 (fst st))
        (\<lambda>(ok, d).
           if \<not> ok then Some (Iso_Return False, 0, set_err ERR_FSYS_CORRUPT d, snd st)
           else Option.bind (iso_records b dirname pathlen c 4096 (d, snd st))
             (\<lambda>(r, idr, st'). if r = Iso_Next
                then iso_extents b dirname pathlen c (left - ISO_SECTOR_SIZE) (extent + 1) st'
                else Some (r, idr, st'))))"

text \<open>The walk along the components of the path, with the record \<open>idr\<close> of the directory it is in.\<close>

partial_function (option) iso_walk :: "'w int13 \<Rightarrow> u8 list \<Rightarrow> nat \<Rightarrow> 'w iso_search \<Rightarrow> (bool \<times> 'w iso_search) option" where
  "iso_walk b path idr st =
     (let dirname = dropWhile (\<lambda>c. c = 0x2f) path;
          pathlen = length (takeWhile (\<lambda>c. \<not> ends_name c) dirname);
          m = fsys_buf (fst st)
      in Option.bind (rd dirname pathlen) (\<lambda>c.
           Option.bind (iso_extents b dirname pathlen c (c_int (uint (iso32 m (idr + 10)))) (iso32 m (idr + 2)) st)
             (\<lambda>(r, idr', d, pp, fmax).
                case r of
                  Iso_Return ok \<Rightarrow> Some (ok, d, pp, fmax)
                | Iso_Descend \<Rightarrow> iso_walk b (drop pathlen dirname) idr' (d, pp, fmax)
                | Iso_Next \<Rightarrow>
                    if c = 0x2f \<or> 0 \<le> pp then Some (False, set_err ERR_FILE_NOT_FOUND d, pp, fmax)
                    else Some (True, d, pp, fmax))))"

definition iso9660_dir :: "'w int13 \<Rightarrow> bool \<Rightarrow> u8 list \<Rightarrow> int \<Rightarrow> 'w dev_state \<Rightarrow> (bool \<times> int \<times> 'w dev_state) option" where
  "iso9660_dir b complete dirname fmax0 d =
     map_option (\<lambda>(ok, d', pp, fmax). (ok, fmax, d'))
       (iso_walk b dirname (2048 + 156) (d\<lparr>fsys_buf := poke (fsys_buf d) 4 [0, 0, 0, 0]\<rparr>, if complete then 1 else 0, fmax0))"

section \<open>Reading\<close>

text \<open>The loop of \<open>iso9660_read\<close>; a failing read leaves the hook installed.\<close>

partial_function (option) iso_read_loop :: "'w int13 \<Rightarrow> bool \<Rightarrow> u32 \<Rightarrow> int \<Rightarrow> int \<Rightarrow> int \<Rightarrow> int \<Rightarrow> u8 list \<Rightarrow> int \<Rightarrow> 'w dev_state
    \<Rightarrow> (int \<times> u8 list \<times> int \<times> 'w dev_state) option" where
  "iso_read_loop b hook start sector blkoffset len ret out pos d =
     (if len \<le> 0 then Some (ret, out, pos, d)
      else
        let sz = min (ISO_SECTOR_SIZE - blkoffset) len
        in Option.bind (iso9660_devread b (c_int (uint start + sector)) blkoffset sz (d\<lparr>disk := (disk d)\<lparr>hook_on := hook\<rparr>\<rparr>))
             (\<lambda>(ok, bytes, d1).
                if \<not> ok then Some (0, out @ bytes, pos, d1)
                else iso_read_loop b hook start (sector + 1) 0 (len - sz) (ret + sz) (out @ bytes) (pos + sz)
                       (d1\<lparr>disk := (disk d1)\<lparr>hook_on := False\<rparr>\<rparr>)))"

definition iso9660_read :: "'w int13 \<Rightarrow> bool \<Rightarrow> int \<Rightarrow> int \<Rightarrow> 'w dev_state \<Rightarrow> (int \<times> u8 list \<times> int \<times> 'w dev_state) option" where
  "iso9660_read b hook pos len d =
     (let file_start = iso32 (fsys_buf d) 4
      in if file_start = 0 then Some (0, [], pos, d)
         else iso_read_loop b hook file_start (drop_bit ISO_SECTOR_BITS pos) (pos AND (ISO_SECTOR_SIZE - 1)) len 0 [] pos d)"

definition iso9660_entry :: "'w int13 \<Rightarrow> 'w fsys_entry" where
  "iso9660_entry b = \<lparr>mount_func = iso9660_mount b, read_func = iso9660_read b, dir_func = iso9660_dir b, close_func = None\<rparr>"

section \<open>Where the driver reads\<close>

text \<open>The byte address on the drive of an access, for the drive's sector size.\<close>

definition iso_addr :: "int \<Rightarrow> u32 \<Rightarrow> int \<Rightarrow> int \<Rightarrow> int" where
  "iso_addr ss start sector off = uint start * ss + (sector + off div ss) * 2048 + off mod ss"

lemma c_int_small: "0 \<le> x \<Longrightarrow> x < 2 ^ 29 \<Longrightarrow> c_int x = x"
  by (simp add: c_int_def)

lemma good_drive_hook [simp]:
  "good_drive b contents ok_geom w drive lim (st\<lparr>hook_on := h\<rparr>) = good_drive b contents ok_geom w drive lim st"
  using readable_cong [of "st\<lparr>hook_on := h\<rparr>" st]
  by (simp add: good_drive_def disk_inv_def disk_wf_def coherent_def disk_of_def ssz_def vtrack_def ss_bits_def)

text \<open>
  A device on a drive that is readable up to \<open>lim\<close>, with a partition start and a geometry that stay
  as they are.
\<close>

definition iso_dev :: "'w int13 \<Rightarrow> ('w \<Rightarrow> int \<Rightarrow> u8 list) \<Rightarrow> ('w \<Rightarrow> int \<Rightarrow> geometry \<Rightarrow> bool) \<Rightarrow> 'w \<Rightarrow> int \<Rightarrow> int \<Rightarrow> u32 \<Rightarrow> int
    \<Rightarrow> 'w dev_state \<Rightarrow> bool" where
  "iso_dev b contents ok_geom w drive lim start ss d \<longleftrightarrow> good_drive b contents ok_geom w drive lim (disk d)
     \<and> sint (current_drive d) = drive \<and> part_start d = start \<and> sector_size (buf_geom (disk d)) = ss \<and> lim < 2 ^ 29"

lemma iso_dev_upd [simp]:
  "iso_dev b contents ok_geom w drive lim start ss (d\<lparr>fsys_buf := m\<rparr>) = iso_dev b contents ok_geom w drive lim start ss d"
  "iso_dev b contents ok_geom w drive lim start ss (d\<lparr>disk := (disk d)\<lparr>hook_on := h\<rparr>\<rparr>) = iso_dev b contents ok_geom w drive lim start ss d"
  by (simp_all add: iso_dev_def)

context sector_device
begin

lemma iso_devread_spec:
  assumes dev: "iso_dev b contents ok_geom w drive lim start ss d"
    and "0 \<le> sector" and "0 \<le> off" and "off < 2048" and "0 < len"
    and inside: "iso_addr ss start sector off + len \<le> lim * ss"
  shows "\<exists>st. iso9660_devread b sector off len d
      = Some (True, slice (contents w drive) (iso_addr ss start sector off) len, d\<lparr>disk := st\<rparr>)
    \<and> iso_dev b contents ok_geom w drive lim start ss (d\<lparr>disk := st\<rparr>)"
proof -
  have good: "good_drive b contents ok_geom w drive lim (disk d)" and g: "sector_size (buf_geom (disk d)) = ss"
    using dev by (auto simp: iso_dev_def)
  have "usable (buf_geom (disk d))" using good geom_usable by (auto simp: good_drive_def disk_inv_def disk_wf_def)
  then have us: "ss = 512 \<and> grub_log2 (nat ss) = 9 \<or> ss = 2048 \<and> grub_log2 (nat ss) = 11"
    using g grub_log2_power [of 9] grub_log2_power [of 11] by (auto simp: usable_def)
  define s where "s = uint start + (sector + off div ss) * 2048 div ss"
  have om: "0 \<le> off mod ss" "off mod ss < ss" "0 \<le> off div ss" using us assms(3) by auto
  have mask: "off AND (ss - 1) = off mod ss" "drop_bit (grub_log2 (nat ss)) off = off div ss"
    using us take_bit_eq_mask [of 9 off] take_bit_eq_mask [of 11 off]
    by (auto simp: drop_bit_int_def take_bit_int_def mask_eq_exp_minus_1)
  have split: "(sector + off div ss) * 2048 = (sector + off div ss) * 2048 div ss * ss" using us by auto
  then have addr: "s * ss + off mod ss = iso_addr ss start sector off" by (simp add: s_def iso_addr_def algebra_simps)
  have lim: "lim < 2 ^ 29" using dev by (simp add: iso_dev_def)
  have sum: "s * ss + off mod ss + len \<le> lim * ss" using inside addr by simp
  then have "s * ss < lim * ss" using om assms(5) by linarith
  then have s: "s < 2 ^ 29" using us lim by auto
  have "0 \<le> (sector + off div ss) * 2048 div ss" "sector + off div ss \<le> (sector + off div ss) * 2048 div ss" using us om assms(2) by auto
  then have r: "0 \<le> uint start" "0 \<le> sector + off div ss" "sector + off div ss < 2 ^ 29" "0 \<le> (sector + off div ss) * 2048 div ss"
    "(sector + off div ss) * 2048 div ss < 2 ^ 29" "0 \<le> s"
    using s om assms(2) by (auto simp: s_def) (smt (verit) uint_ge_0)+
  have shift: "push_bit (nat ((int ISO_SECTOR_BITS - int (grub_log2 (nat ss))) mod 32)) x = x * 2048 div ss" for x
    using us by (auto simp: push_bit_int_def ISO_SECTOR_BITS_def)
  have small: "c_int (sector + off div ss) = sector + off div ss" "c_int ((sector + off div ss) * 2048 div ss) = (sector + off div ss) * 2048 div ss"
    "c_int s = s"
    by (rule c_int_small; use r s in simp)+
  have arg: "c_int (uint start + c_int (c_int (sector + off div ss) * 2048 div ss)) = s"
    unfolding small(1,2) s_def [symmetric] by (rule small(3))
  obtain st where st: "rawread b (\<lambda>_ _. True) drive s (off mod ss) len (disk d)
      = Some (True, slice (contents w drive) (s * ss + off mod ss) len, st)"
    "good_drive b contents ok_geom w drive lim st" "buf_geom st = buf_geom (disk d)"
    using rawread_good [OF good r(6), of "off mod ss" len "\<lambda>_ _. True"] om assms(5) sum by (auto simp: g)
  have "iso9660_devread b sector off len d = Some (True, slice (contents w drive) (iso_addr ss start sector off) len, d\<lparr>disk := st\<rparr>)"
    using st(1) dev assms(2,5) unfolding iso9660_devread_def Let_def g mask shift by (simp add: iso_dev_def arg addr)
  moreover have "iso_dev b contents ok_geom w drive lim start ss (d\<lparr>disk := st\<rparr>)" using dev st(2,3) by (simp add: iso_dev_def)
  ultimately show ?thesis by blast
qed

lemma iso_ss:
  assumes "iso_dev b contents ok_geom w drive lim start ss d"
  shows "ss = 512 \<or> ss = 2048"
proof -
  have "usable (buf_geom (disk d))"
    using assms geom_usable by (auto simp: iso_dev_def good_drive_def disk_inv_def disk_wf_def)
  then show ?thesis using assms by (auto simp: usable_def iso_dev_def)
qed

lemma iso_sector_small:
  assumes "iso_dev b contents ok_geom w drive lim start ss d" and "0 \<le> off" and "iso_addr ss start sector off < lim * ss"
  shows "sector < 2 ^ 29"
proof -
  have "0 \<le> uint start * ss + off div ss * 2048 + off mod ss" using iso_ss [OF assms(1)] assms(2) by auto
  then have "sector * 2048 < lim * ss" using assms(3) by (simp add: iso_addr_def algebra_simps)
  then show ?thesis using iso_ss [OF assms(1)] assms(1) by (auto simp: iso_dev_def)
qed

text \<open>The loop reads on at the start of the next sector.\<close>

lemma iso_read_loop_spec:
  assumes "iso_dev b contents ok_geom w drive lim start ss d" and "0 \<le> sector" and "0 \<le> off" and "off < 2048" and "off < ss"
    and "0 \<le> len" and "0 < len \<longrightarrow> iso_addr ss start (uint fs + sector) off + len \<le> lim * ss"
  shows "\<exists>st. iso_read_loop b hook fs sector off len ret out pos d
      = Some (ret + len, out @ slice (contents w drive) (iso_addr ss start (uint fs + sector) off) len, pos + len, d\<lparr>disk := st\<rparr>)
    \<and> iso_dev b contents ok_geom w drive lim start ss (d\<lparr>disk := st\<rparr>)"
  using assms
proof (induction "nat len" arbitrary: sector off len ret out pos d rule: less_induct)
  case less
  show ?case
  proof (cases "len = 0")
    case True
    with less.prems(1) show ?thesis by (intro exI [of _ "disk d"]) (simp add: iso_read_loop.simps slice_def)
  next
    case False
    then have len: "0 < len" using less.prems(6) by simp
    define sz where "sz = min (ISO_SECTOR_SIZE - off) len"
    have sz: "0 < sz" "sz \<le> len" "sz \<le> 2048 - off" using len less.prems(3,4) by (auto simp: sz_def ISO_SECTOR_SIZE_def)
    let ?a = "iso_addr ss start (uint fs + sector) off" and ?d = "d\<lparr>disk := (disk d)\<lparr>hook_on := hook\<rparr>\<rparr>"
    have in1: "?a + sz \<le> lim * ss" using less.prems(7) len sz by linarith
    have "uint fs + sector < 2 ^ 29"
      using in1 sz(1) by (intro iso_sector_small [OF less.prems(1) less.prems(3)]) linarith
    moreover have "0 \<le> uint fs + sector" using less.prems(2) by (intro add_nonneg_nonneg) auto
    ultimately have fs: "c_int (uint fs + sector) = uint fs + sector" by (rule c_int_small [rotated])
    obtain st where st: "iso9660_devread b (uint fs + sector) off sz ?d = Some (True, slice (contents w drive) ?a sz, ?d\<lparr>disk := st\<rparr>)"
      "iso_dev b contents ok_geom w drive lim start ss (?d\<lparr>disk := st\<rparr>)"
      using iso_devread_spec [of w drive lim start ss ?d "uint fs + sector" off sz] less.prems(1-5) in1 sz(1) by auto
    let ?d1 = "d\<lparr>disk := st\<lparr>hook_on := False\<rparr>\<rparr>"
    have d1: "iso_dev b contents ok_geom w drive lim start ss ?d1" using st(2) by (simp add: iso_dev_def)
    have step: "iso_read_loop b hook fs sector off len ret out pos d
        = iso_read_loop b hook fs (sector + 1) 0 (len - sz) (ret + sz) (out @ slice (contents w drive) ?a sz) (pos + sz) ?d1"
      using st(1) len by (subst iso_read_loop.simps) (simp add: fs sz_def [symmetric] Let_def)
    have next_addr: "iso_addr ss start (uint fs + (sector + 1)) 0 = ?a + sz" if "0 < len - sz"
    proof -
      have "sz = 2048 - off" using that by (auto simp: sz_def ISO_SECTOR_SIZE_def)
      then show ?thesis using less.prems(3,5) by (simp add: iso_addr_def)
    qed
    have ss: "0 < ss" using less.prems(3,5) by simp
    obtain st' where st': "iso_read_loop b hook fs (sector + 1) 0 (len - sz) (ret + sz) (out @ slice (contents w drive) ?a sz) (pos + sz) ?d1
        = Some (ret + sz + (len - sz), (out @ slice (contents w drive) ?a sz)
            @ slice (contents w drive) (iso_addr ss start (uint fs + (sector + 1)) 0) (len - sz), pos + sz + (len - sz), ?d1\<lparr>disk := st'\<rparr>)"
      "iso_dev b contents ok_geom w drive lim start ss (?d1\<lparr>disk := st'\<rparr>)"
      using less.hyps [of "len - sz" ?d1 "sector + 1" 0 "ret + sz" "out @ slice (contents w drive) ?a sz" "pos + sz"]
        d1 less.prems(2,7) sz ss next_addr len by auto
    have "slice (contents w drive) ?a sz @ slice (contents w drive) (iso_addr ss start (uint fs + (sector + 1)) 0) (len - sz)
        = slice (contents w drive) ?a len"
    proof (cases "len - sz = 0")
      case True
      then show ?thesis by (simp add: slice_def)
    next
      case False
      have "0 \<le> ?a" using less.prems(2,3,5) ss uint_ge_0 [of start] uint_ge_0 [of fs] by (simp add: iso_addr_def)
      then show ?thesis using slice_append [of ?a sz "len - sz" "contents w drive"] next_addr sz False by simp
    qed
    with step st' show ?thesis by auto
  qed
qed

end

lemma poke_apply: "poke m a bs k = (if a \<le> k \<and> k < a + length bs then bs ! (k - a) else m k)"
proof (induction bs arbitrary: m a)
  case (Cons x bs)
  then show ?case by (auto simp: nth_Cons' Suc_diff_le dest: le_antisym)
qed auto

lemma peek_poke_other: "a + n \<le> c \<or> c + length bs \<le> a \<Longrightarrow> peek (poke m c bs) a n = peek m a n"
  by (auto simp: peek_def poke_apply)

section \<open>Reading a file\<close>

text \<open>A file is open: its first sector is \<open>fs\<close>, and its driver is number \<open>n\<close> of the table.\<close>

definition iso_file :: "'w int13 \<Rightarrow> ('w \<Rightarrow> int \<Rightarrow> u8 list) \<Rightarrow> ('w \<Rightarrow> int \<Rightarrow> geometry \<Rightarrow> bool) \<Rightarrow> 'w \<Rightarrow> int \<Rightarrow> int \<Rightarrow> u32 \<Rightarrow> int
    \<Rightarrow> nat \<Rightarrow> u32 \<Rightarrow> 'w dev_state \<Rightarrow> bool" where
  "iso_file b contents ok_geom w drive lim start ss n fs d \<longleftrightarrow> iso_dev b contents ok_geom w drive lim start ss d
     \<and> fsys_type d = n \<and> iso32 (fsys_buf d) 4 = fs \<and> fs \<noteq> 0"

context sector_device
begin

lemma iso_read_disk:
  assumes "iso_dev b contents ok_geom w drive lim start ss d" and "iso32 (fsys_buf d) 4 = fs" and "fs \<noteq> 0" and "0 \<le> pos" and "0 \<le> len" and "pos mod 2048 < ss"
    and "uint start * ss + uint fs * 2048 + pos + len \<le> lim * ss"
  shows "\<exists>st. iso9660_read b hook pos len d
      = Some (len, slice (contents w drive) (uint start * ss + uint fs * 2048 + pos) len, pos + len, d\<lparr>disk := st\<rparr>)
    \<and> iso_dev b contents ok_geom w drive lim start ss (d\<lparr>disk := st\<rparr>)"
proof -
  note dev = assms(1) and fs = assms(2,3)
  have off: "pos AND (ISO_SECTOR_SIZE - 1) = pos mod 2048" "drop_bit ISO_SECTOR_BITS pos = pos div 2048"
    using take_bit_eq_mask [of 11 pos]
    by (simp_all add: ISO_SECTOR_SIZE_def ISO_SECTOR_BITS_def take_bit_int_def drop_bit_int_def mask_eq_exp_minus_1)
  have pos: "pos div 2048 * 2048 + pos mod 2048 = pos" by simp
  have addr: "iso_addr ss start (uint fs + pos div 2048) (pos mod 2048) = uint start * ss + uint fs * 2048 + pos"
    using assms(6) pos by (simp add: iso_addr_def algebra_simps)
  obtain st where st: "iso_read_loop b hook fs (pos div 2048) (pos mod 2048) len 0 [] pos d
      = Some (0 + len, [] @ slice (contents w drive) (iso_addr ss start (uint fs + pos div 2048) (pos mod 2048)) len, pos + len, d\<lparr>disk := st\<rparr>)"
    "iso_dev b contents ok_geom w drive lim start ss (d\<lparr>disk := st\<rparr>)"
    using iso_read_loop_spec [OF dev, of "pos div 2048" "pos mod 2048" len fs hook 0 "[]" pos] assms(4-7) addr pos_imp_zdiv_nonneg_iff [of 2048 pos] by auto
  then show ?thesis using fs off addr by (auto simp: iso9660_read_def Let_def)
qed

lemma iso_read_spec:
  assumes "iso_file b contents ok_geom w drive lim start ss n fs d" and "0 \<le> pos" and "0 \<le> len" and "pos mod 2048 < ss"
    and "uint start * ss + uint fs * 2048 + pos + len \<le> lim * ss"
  shows "\<exists>d'. iso9660_read b hook pos len d
      = Some (len, slice (contents w drive) (uint start * ss + uint fs * 2048 + pos) len, pos + len, d')
    \<and> iso_file b contents ok_geom w drive lim start ss n fs d'"
  using iso_read_disk [of w drive lim start ss d fs pos len hook] assms by (auto simp: iso_file_def)

lemma iso_fs_reader:
  assumes "n < length (fsys_table env)" and "fsys_table env ! n = iso9660_entry b"
    and "(uint start + uint fs) * 2048 + int k \<le> lim * 2048"
    and "length (slice (contents w drive) ((uint start + uint fs) * 2048) (int k)) = k"
  shows "fs_reader env (slice (contents w drive) ((uint start + uint fs) * 2048) (int k))
    (iso_file b contents ok_geom w drive lim start 2048 n fs)"
proof (rule fs_reader.intro)
  let ?ok = "iso_file b contents ok_geom w drive lim start 2048 n fs" and ?a = "(uint start + uint fs) * 2048"
  fix d hook and pos len :: int
  assume d: "?ok d"
  then show "fsys_type d < length (fsys_table env)" "err_of d = ERR_NONE"
    using assms(1) by (simp_all add: iso_file_def iso_dev_def good_drive_def)
  assume r: "0 \<le> pos" "0 \<le> len" "pos + len \<le> int (length (slice (contents w drive) ?a (int k)))"
  obtain d' where "iso9660_read b hook pos len d = Some (len, slice (contents w drive) (uint start * 2048 + uint fs * 2048 + pos) len, pos + len, d')"
    "?ok d'"
    using iso_read_spec [OF d r(1,2), of hook] r(3) assms(3,4) by (auto simp: algebra_simps)
  moreover have "slice (slice (contents w drive) ?a (int k)) pos len = slice (contents w drive) (?a + pos) len"
    using r assms(4) by (intro slice_slice) auto
  ultimately show "\<exists>d'. read_func (fsys_table env ! fsys_type d) hook pos len d
      = Some (len, slice (slice (contents w drive) ?a (int k)) pos len, pos + len, d') \<and> ?ok d'"
    using d assms(2) by (auto simp: iso_file_def iso9660_entry_def algebra_simps)
qed

end

section \<open>Mounting finds the volume descriptor\<close>

definition iso_block :: "u8 list \<Rightarrow> int \<Rightarrow> u32 \<Rightarrow> nat \<Rightarrow> u8 list" where
  "iso_block bytes ss start s = slice bytes (uint start * ss + int s * 2048) 2048"

definition is_pvd :: "u8 list \<Rightarrow> bool" where
  "is_pvd block \<longleftrightarrow> take 6 block = [1, 0x43, 0x44, 0x30, 0x30, 0x31]"

lemma peek_Suc: "peek m a (Suc n) = m a # peek m (Suc a) n"
  unfolding peek_def by (subst upt_conv_Cons) auto

lemma take_peek: "k \<le> n \<Longrightarrow> take k (peek m a n) = peek m a k"
  by (simp add: peek_def take_map)

lemma pvd_check:
  assumes "peek m a 2048 = block"
  shows "m a = 1 \<and> peek m (Suc a) 5 = [0x43, 0x44, 0x30, 0x30, 0x31] \<longleftrightarrow> is_pvd block"
proof -
  have "peek m a 6 = take 6 block" using take_peek [of 6 2048 m a] assms by simp
  moreover have "peek m a 6 = m a # peek m (Suc a) 5" using peek_Suc [of m a 5] by (simp add: eval_nat_numeral)
  ultimately show ?thesis by (auto simp: is_pvd_def)
qed

context sector_device
begin

lemma good_drive_length:
  assumes "good_drive b contents ok_geom w drive lim st" and "0 < lim"
  shows "lim * sector_size (buf_geom st) \<le> int (length (contents w drive))"
proof -
  have ok: "ok_geom w drive (buf_geom st)" and w: "world st = w" and rd: "readable b drive lim st"
    using assms(1) by (auto simp: good_drive_def disk_inv_def disk_wf_def)
  have ss: "0 < sector_size (buf_geom st)" using geom_usable [OF ok] by (auto simp: usable_def)
  obtain data where data: "biosdisk_read b w drive (buf_geom st) (lim - 1) 1 = Some (Inr data, buf_geom st)"
    using rd w assms(2) unfolding readable_def by (metis diff_add_cancel diff_ge_0_iff_ge int_one_le_iff_zero_less order_refl zero_less_one)
  have "int (length (slice (contents w drive) ((lim - 1) * sector_size (buf_geom st)) (sector_size (buf_geom st)))) = sector_size (buf_geom st)"
    using read_sound [OF ok _ _ _ data] assms(2) by auto
  moreover have "0 \<le> (lim - 1) * sector_size (buf_geom st)" using assms(2) ss by simp
  ultimately show ?thesis using ss by (auto simp: slice_def min_def algebra_simps split: if_splits)
qed

lemma iso_load_spec:
  assumes "iso_dev b contents ok_geom w drive lim start ss d" and "uint start * ss + int s * 2048 + 2048 \<le> lim * ss"
  shows "\<exists>st. iso_load b (int s) a d
      = Some (True, d\<lparr>disk := st, fsys_buf := poke (fsys_buf d) a (iso_block (contents w drive) ss start s)\<rparr>)
    \<and> iso_dev b contents ok_geom w drive lim start ss (d\<lparr>disk := st\<rparr>)"
  using iso_devread_spec [OF assms(1), of "int s" 0 ISO_SECTOR_SIZE] assms(2)
  by (auto simp: iso_load_def iso_addr_def ISO_SECTOR_SIZE_def iso_block_def)

lemma iso_block_length:
  assumes "iso_dev b contents ok_geom w drive lim start ss d" and "uint start * ss + int s * 2048 + 2048 \<le> lim * ss"
  shows "length (iso_block (contents w drive) ss start s) = 2048"
proof -
  have a: "0 \<le> uint start * ss + int s * 2048" using iso_ss [OF assms(1)] by auto
  then have "0 < lim * ss" using assms(2) by linarith
  then have "0 < lim" using iso_ss [OF assms(1)] by (auto simp: zero_less_mult_iff)
  then have "lim * ss \<le> int (length (contents w drive))" using assms(1) good_drive_length by (auto simp: iso_dev_def)
  with a have "length (iso_block (contents w drive) ss start s) = nat 2048"
    unfolding iso_block_def using assms(2) by (intro slice_full) auto
  then show ?thesis by simp
qed

lemma iso_mount_loop_spec:
  assumes "iso_dev b contents ok_geom w drive lim start ss d"
    and "\<And>s. s \<in> set sect \<Longrightarrow> uint start * ss + int s * 2048 + 2048 \<le> lim * ss"
  shows "\<exists>ok d'. iso_mount_loop b sect d = Some (ok, d') \<and> iso_dev b contents ok_geom w drive lim start ss d'
    \<and> (case find (\<lambda>s. is_pvd (iso_block (contents w drive) ss start s)) sect of
         None \<Rightarrow> \<not> ok
       | Some s \<Rightarrow> ok \<and> peek (fsys_buf d') 2048 2048 = iso_block (contents w drive) ss start s)"
  using assms
proof (induction sect arbitrary: d)
  case Nil
  then show ?case by (intro exI [of _ False] exI [of _ d]) simp
next
  case (Cons s sect)
  let ?block = "iso_block (contents w drive) ss start s"
  have in_s: "uint start * ss + int s * 2048 + 2048 \<le> lim * ss" using Cons.prems(2) by simp
  note bl = iso_block_length [OF Cons.prems(1) in_s]
  obtain st where st: "iso_load b (int s) 2048 d = Some (True, d\<lparr>disk := st, fsys_buf := poke (fsys_buf d) 2048 ?block\<rparr>)"
    "iso_dev b contents ok_geom w drive lim start ss (d\<lparr>disk := st\<rparr>)"
    using iso_load_spec [OF Cons.prems(1) in_s] by blast
  let ?d = "d\<lparr>disk := st, fsys_buf := poke (fsys_buf d) 2048 ?block\<rparr>"
  have dev: "iso_dev b contents ok_geom w drive lim start ss ?d" using st(2) by simp
  have peek: "peek (fsys_buf ?d) 2048 2048 = ?block" using peek_poke [of "fsys_buf d" 2048 ?block] bl by simp
  note pvd = pvd_check [OF peek]
  show ?case
  proof (cases "is_pvd ?block")
    case True
    let ?d' = "?d\<lparr>fsys_buf := poke (poke (fsys_buf ?d) 0 [of_nat s, 0, 0, 0]) 4 [0, 0, 0, 0]\<rparr>"
    have "iso_mount_loop b (s # sect) d = Some (True, ?d')" using True pvd st(1) by simp
    moreover have "peek (fsys_buf ?d') 2048 2048 = ?block" using peek peek_poke_other [of 2048 2048 4] peek_poke_other [of 2048 2048 0]
      by (simp del: poke.simps)
    ultimately show ?thesis using True dev by auto
  next
    case False
    then have "iso_mount_loop b (s # sect) d = iso_mount_loop b sect ?d" using pvd st(1) by auto
    then show ?thesis using Cons.IH [OF dev Cons.prems(2)] False by simp
  qed
qed

end

section \<open>A CD-ROM in memory\<close>

text \<open>A CD-ROM as drive 0xE0: an instance of the firmware contract with sectors of 2048 bytes.\<close>

definition cd_int13 :: "u8 list int13" where
  "cd_int13 = \<lparr>ext_read = (\<lambda>w d s n. if d = 0xE0 \<and> (s + n) * 2048 \<le> int (length w) then Inr (slice w (s * 2048) (n * 2048)) else Inl 1),
     ext_write = (\<lambda>w d s n bytes. Inl 1), chs_read = (\<lambda>w d c h s n. Inl 1), chs_write = (\<lambda>w d c h s n bytes. Inl 1),
     check_int13_extensions = (\<lambda>w d. 0), ext_parameters = (\<lambda>w d. Inl 1),
     cd_status = (\<lambda>w d. if d = 0xE0 then Inr \<lparr>cd_media_type = 0, cd_drive_no = 0xE0, cd_cylinders = 0, cd_sectors = 0, cd_heads = 0\<rparr> else Inl 1),
     get_diskinfo_standard = (\<lambda>w d. Inl 1)\<rparr>"

definition cd_contents :: "u8 list \<Rightarrow> int \<Rightarrow> u8 list" where
  "cd_contents w d = (if d = 0xE0 then w else [])"

interpretation cd: firmware cd_int13 cd_contents "\<lambda>_ _. 1" "\<lambda>_ _. 15" "\<lambda>_ _. 2048"
  by unfold_locales (auto simp: cd_int13_def cd_contents_def slice_def algebra_simps split: if_splits)

abbreviation "cd_geom \<equiv> drive_geom (\<lambda>_ _. 1) (\<lambda>_ _. 15) (\<lambda>_ _. 2048)"

definition cd_opened :: "u8 list \<Rightarrow> u8 list disk_state" where
  "cd_opened w = (ram_state w)\<lparr>buf_drive := 0xE0, buf_geom := \<lparr>cylinders = 0, heads = 1, sectors = 15,
     total_sectors = 0x7FFFFFFF, sector_size = 2048, lba_flag = True, cdrom_flag = True\<rparr>\<rparr>"

lemma cd_readable:
  assumes "int (length w) = 30720 * k" and "k < 2 ^ 20"
  shows "readable cd_int13 0xE0 (15 * k) (cd_opened w)"
proof -
  have "grub_log2 2048 = 11" using grub_log2_power [of 11] by simp
  then have v: "vtrack (cd_opened w) = 15" by (simp add: vtrack_def ss_bits_def push_bit_int_def BUFFERLEN_def cd_opened_def)
  have "\<exists>data. biosdisk_read cd_int13 w 0xE0 (buf_geom (cd_opened w)) s n = Some (Inr data, buf_geom (cd_opened w))"
    if "0 \<le> s" "0 < n" "s + n \<le> 15 * k" for s n
  proof -
    have "s + n mod 65536 \<le> 15 * k" using that zmod_le_nonneg_dividend [of n 65536] by (intro order_trans [OF _ that(3)]) simp
    then have "(s + n mod 65536) * 2048 \<le> 15 * k * 2048" by (rule mult_right_mono) simp
    then have "(s + n mod 65536) * 2048 \<le> int (length w)" using assms(1) by simp
    then show ?thesis by (simp add: biosdisk_read_def biosdisk_def cd_int13_def cd_opened_def)
  qed
  then show ?thesis using v assms(2) by (simp add: readable_def) (simp add: cd_opened_def)
qed

lemma cd_good:
  assumes "int (length w) = 30720 * k" and "k < 2 ^ 20" and "plain_disk ram_contents w 0x80"
  shows "good_drive cd_int13 cd_contents cd_geom w 0xE0 (15 * k) (cd_opened w)"
  using cd_readable [OF assms(1,2)] assms(3)
  by (simp add: good_drive_def plain_disk_def ezd_free_def ram_contents_def cd_contents_def)
    (simp add: cd_opened_def ram_state_def disk_inv_def disk_wf_def coherent_def BUFFERLEN_def drive_geom_def)

definition cd_device :: "u32 \<Rightarrow> u8 list \<Rightarrow> u8 list dev_state" where
  "cd_device fs w = \<lparr>disk = cd_opened w, current_drive = 0xE0, current_partition = 0xFFFFFF, saved_drive = 0xE0, saved_partition = 0xFFFFFF,
     cdrom_drive = 0xE0, current_slice = 0, part_start = 0, part_length = 0x7FFFFFFF, bsd_evil_hack = 0,
     cur_part_offset = 0, cur_part_entry = None, boot_part_entry = None, boot_part_table = [], fsys_type = 0,
     incomplete = False, disk_choice = False, part_choice_of = PART_UNSPECIFIED,
     fsys_buf = poke (\<lambda>_. 0) 4 [ucast fs, ucast (drop_bit 8 fs), ucast (drop_bit 16 fs), ucast (drop_bit 24 fs)], completions = []\<rparr>"

definition cd_base :: "(u8 list, soft_pcrs) file_env" where
  "cd_base = \<lparr>int13_of = cd_int13, fsys_table = [iso9660_entry cd_int13], gunzip_read = (\<lambda>_ _ _. None),
     gunzip_test_header = (\<lambda>_. None), int1a_of = soft_int1a, tpm_present = 0,
     junk_iter = \<lparr>it_partition = 0, it_type = 0, it_start = 0, it_len = 0, it_offset = 0, it_entry = 0, it_ext_offset = 0, it_buf = []\<rparr>\<rparr>"

definition cd_env :: "(u8 list, soft_pcrs) file_env" where
  "cd_env = gunzip_env cd_base"

definition fresh_sha1 :: "32 sha1_context" where
  "fresh_sha1 = the (snd (sha1_init (Some blank_context)))"

definition cd_file :: "u32 \<Rightarrow> u8 list \<Rightarrow> int \<Rightarrow> int \<Rightarrow> (u8 list, soft_pcrs) file_state" where
  "cd_file fs w pos n = \<lparr>dev = cd_device fs w, filepos = pos, filemax = n, fsmax = uint MAXINT, compressed_file = False, block_file = False,
     blk_list = [], blk_filepos = 0, blk_cur = 0, blk_num = 0, disk_read_hook = False, perform_sha1 = True, measure_kernel = False,
     my_sha1 = fresh_sha1, sha1_byte_count = 0, sha1_has_to_measure = 0, kernel_filesize = 0, kernel_compressed_filesize = 0,
     kernel_mem = [], kernel_real_addr = 0, no_decompression = False, old_perform_sha1_value = False, gzip_data_offset = 0,
     gz_inbuf = replicate INBUFSIZ 0, gz_bufloc = 0, gz = blank_gz, tcg = (\<lambda>_. 0, \<lambda>_. replicate 20 0)\<rparr>"

lemma fresh_sha1_repr: "sha1_repr fresh_sha1 []"
  using sha1_init_repr [of "blank_context :: 32 sha1_context"] by (auto simp: fresh_sha1_def blank_context_def)

lemma cd_device_file:
  assumes "int (length w) = 30720 * k" and "0 < k" and "k < 2 ^ 20" and "plain_disk ram_contents w 0x80" and "fs \<noteq> 0"
  shows "iso_file cd_int13 cd_contents cd_geom w 0xE0 (15 * k) 0 2048 0 fs (cd_device fs w)"
proof -
  have "peek (fsys_buf (cd_device fs w)) 4 4 = [ucast fs, ucast (drop_bit 8 fs), ucast (drop_bit 16 fs), ucast (drop_bit 24 fs)]"
    using peek_poke [of "\<lambda>_. 0" 4 "[ucast fs, ucast (drop_bit 8 fs), ucast (drop_bit 16 fs), ucast (drop_bit 24 fs)]"]
    by (simp add: cd_device_def eval_nat_numeral del: poke.simps)
  then have "iso32 (fsys_buf (cd_device fs w)) 4 = fs" by (simp add: iso32_def le32_bytes)
  then show ?thesis
    using cd_good [OF assms(1,3,4)] assms(3,5) by (simp add: iso_file_def iso_dev_def cd_device_def) (simp add: cd_opened_def)
qed

interpretation cd_seven: fs_reader cd_env "slice (cd_contents (replicate 30720 7) 0xE0) ((uint (0::u32) + uint (2::u32)) * 2048) (int 3000)"
  "iso_file cd_int13 cd_contents cd_geom (replicate 30720 7) 0xE0 15 0 2048 0 2"
  by (rule cd.dev.iso_fs_reader) (simp_all add: cd_env_def cd_base_def cd_contents_def slice_def)

section \<open>Properties\<close>

lemma iso_witness_file: "iso_file cd_int13 cd_contents cd_geom (replicate 30720 7) 0xE0 15 0 2048 0 2 (cd_device 2 (replicate 30720 7))"
  using cd_device_file [of "replicate 30720 7" 1 2] plain_replicate [of 7 30720 "0x80"] by simp

text \<open>
  C16. \<open>iso9660_read\<close> returns and delivers the bytes of the file: the file lies in one piece from its first sector on,
  the read may start and end anywhere in it, and the driver can read again afterwards. On a drive with sectors of 512
  bytes this needs a read that starts in the first 512 bytes of a block.
\<close>

theorem iso9660_read_correct:
  assumes "firmware b contents hds spt ssize"
    and "iso_file b contents (drive_geom hds spt ssize) w drive lim start ss n fs d"
    and "0 \<le> pos" and "0 \<le> len" and "pos mod 2048 < ss"
    and "uint start * ss + uint fs * 2048 + pos + len \<le> lim * ss"
  shows "\<exists>d'. iso9660_read b hook pos len d
      = Some (len, slice (contents w drive) (uint start * ss + uint fs * 2048 + pos) len, pos + len, d')
    \<and> iso_file b contents (drive_geom hds spt ssize) w drive lim start ss n fs d'"
  by (rule sector_device.iso_read_spec [OF firmware.device [OF assms(1)] assms(2-6)])

lemma iso9660_read_correct_witness:
  "\<exists>d'. iso9660_read cd_int13 False 2000 1000 (cd_device 2 (replicate 30720 7)) = Some (1000, replicate 1000 7, 3000, d')"
  using iso9660_read_correct [OF cd.firmware_axioms iso_witness_file, of 2000 1000 False]
  by (auto simp: cd_contents_def slice_def)

text \<open>
  C32. On a drive with sectors of 512 bytes, \<open>iso9660_devread\<close> of bytes behind the first 512 of a block reads the wrong
  place: the sectors inside the block are added before the sector number is scaled, so that it reads from a later block
  of the disk than the bytes asked for, and reports success.
\<close>

theorem iso9660_devread_misplaced:
  assumes "firmware b contents hds spt ssize"
    and "iso_dev b contents (drive_geom hds spt ssize) w drive lim start 512 d"
    and "0 \<le> sector" and "512 \<le> off" and "off < 2048" and "0 < len"
    and "uint start * 512 + (sector + off div 512) * 2048 + off mod 512 + len \<le> lim * 512"
  shows "(\<exists>d'. iso9660_devread b sector off len d
      = Some (True, slice (contents w drive) (uint start * 512 + (sector + off div 512) * 2048 + off mod 512) len, d'))
    \<and> uint start * 512 + sector * 2048 + off + 1536 \<le> uint start * 512 + (sector + off div 512) * 2048 + off mod 512"
proof
  show "\<exists>d'. iso9660_devread b sector off len d
      = Some (True, slice (contents w drive) (uint start * 512 + (sector + off div 512) * 2048 + off mod 512) len, d')"
    using sector_device.iso_devread_spec [OF firmware.device [OF assms(1)] assms(2,3) _ assms(5,6)] assms(4,7)
    by (auto simp: iso_addr_def)
  have "1 \<le> off div 512" "off = off div 512 * 512 + off mod 512" using assms(4) by auto
  then have "off + 1536 \<le> off div 512 * 2048 + off mod 512" by linarith
  then show "uint start * 512 + sector * 2048 + off + 1536 \<le> uint start * 512 + (sector + off div 512) * 2048 + off mod 512"
    unfolding distrib_right by linarith
qed

definition hd_device :: "u8 list dev_state" where
  "hd_device = (cd_device 2 [])\<lparr>disk := ram_opened (replicate 9216 7), current_drive := 0x80\<rparr>"

lemma iso9660_devread_misplaced_witness:
  "\<exists>d'. iso9660_devread ram_int13 0 600 100 hd_device = Some (True, slice (replicate 9216 7) 2136 100, d')"
proof -
  have "good_drive ram_int13 ram_contents ram_geom (replicate 9216 7) 0x80 18 (ram_opened (replicate 9216 7))"
    using ram_opened_good [of "replicate 9216 7"] plain_replicate [of 7 9216 "0x80"] by simp
  then have "iso_dev ram_int13 ram_contents ram_geom (replicate 9216 7) 0x80 18 0 512 hd_device"
    by (simp add: iso_dev_def hd_device_def cd_device_def) (simp add: ram_opened_def)
  from iso9660_devread_misplaced [OF ram.firmware_axioms this, of 0 600 100] show ?thesis by (simp add: ram_contents_def)
qed

lemma pvd_first: "is_pvd block \<Longrightarrow> block ! 0 = 1"
  by (metis is_pvd_def nth_Cons_0 nth_take zero_less_numeral)

text \<open>
  \<open>iso9660_mount\<close> of a whole disk always returns: it succeeds if and only if one of the blocks 16 to 31 is a primary
  volume descriptor, and then the descriptor in memory is the first of them.
\<close>

theorem iso9660_mount_finds:
  assumes "firmware b contents hds spt ssize"
    and "iso_dev b contents (drive_geom hds spt ssize) w drive lim start ss d" and "current_partition d = 0xFFFFFF"
    and "uint start * ss + 65536 \<le> lim * ss"
  shows "\<exists>ok d'. iso9660_mount b d = Some (ok, d')
    \<and> (case find (\<lambda>s. is_pvd (iso_block (contents w drive) ss start s)) [16..<32] of
         None \<Rightarrow> \<not> ok
       | Some s \<Rightarrow> ok \<and> peek (fsys_buf d') 2048 2048 = iso_block (contents w drive) ss start s)"
proof -
  have "uint start * ss + int s * 2048 + 2048 \<le> lim * ss" if "s \<in> set [16..<32]" for s
  proof -
    have "s < 32" using that by (simp only: set_upt atLeastLessThan_iff)
    then show ?thesis using assms(4) by linarith
  qed
  note spec = sector_device.iso_mount_loop_spec [OF firmware.device [OF assms(1)] assms(2) this]
  have eq: "iso9660_mount b d = iso_mount_loop b [16..<32] d" using assms(3) by (simp add: iso9660_mount_def del: upt_rec_numeral)
  show ?thesis unfolding eq using spec by blast
qed

lemma iso9660_mount_finds_witness:
  "\<exists>d'. iso9660_mount cd_int13 (cd_device 2 (replicate 92160 7)) = Some (False, d')"
proof -
  have dev: "iso_dev cd_int13 cd_contents cd_geom (replicate 92160 7) 0xE0 45 0 2048 (cd_device 2 (replicate 92160 7))"
    using cd_device_file [of "replicate 92160 7" 3 2] plain_replicate [of 7 92160 "0x80"] by (simp add: iso_file_def)
  have "\<not> is_pvd (iso_block (cd_contents (replicate 92160 7) 0xE0) 2048 0 s)" if "s < 32" for s
  proof -
    have "iso_block (cd_contents (replicate 92160 7) 0xE0) 2048 0 s = replicate 2048 7"
      using that by (simp add: iso_block_def cd_contents_def slice_def nat_mult_distrib)
    then show ?thesis using pvd_first [of "replicate 2048 7"] by auto
  qed
  then have none: "find (\<lambda>s. is_pvd (iso_block (cd_contents (replicate 92160 7) 0xE0) 2048 0 s)) [16..<32] = None"
    by (simp add: find_None_iff del: upt_rec_numeral)
  have "current_partition (cd_device 2 (replicate 92160 7)) = 0xFFFFFF" by (simp add: cd_device_def)
  from iso9660_mount_finds [OF cd.firmware_axioms dev this] show ?thesis unfolding none by auto
qed

text \<open>
  A Rock Ridge entry of length 0 hangs the boot loader: if the entry at the pointer has another version than 1, so that
  it is skipped, and its length byte is 0, the loop over the entries does not return.
\<close>

theorem rr_loop_hangs:
  assumes "4 \<le> rr_len s" and "fsys_buf (rr_dev s) (rr_ptr s + 3) \<noteq> 1" and "fsys_buf (rr_dev s) (rr_ptr s + 2) = 0"
    and "rr_flag s \<noteq> 0" and "rr_ce s = None"
  shows "rr_loop b s = None"
proof (rule ccontr)
  assume "rr_loop b s \<noteq> None"
  then obtain r where r: "rr_loop b s = Some r" by auto
  have "s' = s \<longrightarrow> False" if "rr_loop b s' = Some r" for s'
  proof (rule rr_loop.raw_induct [where P = "\<lambda>b s' r. s' = s \<longrightarrow> False", OF _ that], intro impI)
    fix loop b' s'' r'
    assume ih: "\<And>b s' r. loop b s' = Some r \<Longrightarrow> s' = s \<longrightarrow> False"
      and run: "(if rr_len s'' < 4 then Some s'' else if FSYS_BUFLEN \<le> rr_ptr s'' then None
        else let s1 = rr_entry s'' in if rr_flag s1 = 0 then Some s1
             else rr_next b' s1 \<bind> (\<lambda>(go, s2). if go then loop b' s2 else Some s2)) = Some r'"
      and eq: "s'' = s"
    have "rr_entry s = s" using assms(2) by (simp add: rr_entry_def Let_def)
    moreover have "rr_next b' s = Some (True, s)" using assms(3,5) by (simp add: rr_next_def Let_def)
    moreover have "\<not> rr_len s < 4" using assms(1) by simp
    ultimately have "loop b' s = Some r'" using run assms(4) unfolding eq by (auto split: if_splits)
    then show False using ih by blast
  qed
  with r show False by blast
qed

lemma rr_loop_hangs_witness:
  "rr_loop cd_int13 \<lparr>rr_dev = cd_device 2 [], rr_name = 4129, rr_name_len = 3, rr_file_type = 1, rr_flag = 9, rr_ce = None,
     rr_ptr = 4132, rr_len = 10\<rparr> = None"
  by (rule rr_loop_hangs) (simp_all add: cd_device_def)

lemma cd_file_unhashed:
  assumes "0 \<le> pos" and "pos \<le> 3000"
  shows "unhashed (replicate 3000 7) (iso_file cd_int13 cd_contents cd_geom (replicate 30720 7) 0xE0 15 0 2048 0 2)
    (cd_file 2 (replicate 30720 7) pos 3000)"
  using iso_witness_file fresh_sha1_repr assms by (simp add: unhashed_def plain_file_def cd_file_def MAXINT_def)

lemma cd_reader: "fs_reader cd_env (replicate 3000 7) (iso_file cd_int13 cd_contents cd_geom (replicate 30720 7) 0xE0 15 0 2048 0 2)"
  using cd_seven.fs_reader_axioms by (simp add: cd_contents_def slice_def)

lemma cd_env_tpm: "tcg_bios (int1a_of cd_env) soft_pcr" "tpm_present cd_env = 0"
  using soft_tpm.tcg_bios_axioms by (simp_all add: cd_env_def cd_base_def)

text \<open>The properties of \<open>FileIo\<close> on a file of the CD-ROM, with the TPM in software.\<close>

lemma file_measured_witness:
  "\<exists>s' s''. read_seq cd_env [50, -1] (cd_file 2 (replicate 30720 7) 100 3000) = Some (replicate 2900 7, s')
    \<and> grub_close cd_env False s' = Some (Closed s'')
    \<and> soft_pcr (snd (tcg s'')) 14 = tpm_extend (replicate 20 0) (digest_bytes (fips_sha1 (replicate 3000 7)))"
proof -
  let ?s = "cd_file 2 (replicate 30720 7) 100 3000"
  note un = cd_file_unhashed [of 100, simplified]
  obtain s' where s': "read_seq cd_env [50, -1] ?s = Some (slice (replicate 3000 7) (filepos ?s) (filepos s' - filepos ?s), s')"
    "if filepos s' = int (length (replicate 3000 (7 :: u8)))
     then \<exists>s''. grub_close cd_env False s' = Some (Closed s'')
       \<and> soft_pcr (snd (tcg s'')) = (soft_pcr (snd (tcg ?s)))(14 := tpm_extend (soft_pcr (snd (tcg ?s)) 14) (digest_bytes (fips_sha1 (replicate 3000 7))))
     else grub_close cd_env True s' = Some Halted \<and> (\<exists>s''. grub_close cd_env False s' = Some (Closed s'') \<and> tcg s'' = tcg ?s)"
    using file_measured [OF cd_reader cd_env_tpm un, of "[50, -1]" False] by blast
  obtain s1 where s1: "grub_read cd_env [] 50 ?s = Some (50, replicate 50 7, s1)" "measured (replicate 3000 7) (iso_file cd_int13 cd_contents cd_geom (replicate 30720 7) 0xE0 15 0 2048 0 2) s1"
    "filepos s1 = 150"
    using fs_reader.first_read [OF cd_reader un, of "[]" 50] by (auto simp: cd_file_def read_len_def slice_def)
  obtain s2 where s2: "grub_read cd_env [] (-1) s1 = Some (2850, replicate 2850 7, s2)" "filepos s2 = 3000"
    using fs_reader.measured_read [OF cd_reader s1(2), of "[]" "-1"] s1(2,3) by (auto simp: read_len_def slice_def measured_def plain_file_def)
  have "s' = s2" using s'(1) s1(1) s2(1) by simp
  then have "filepos s' = 3000" "read_seq cd_env [50, -1] ?s = Some (replicate 2900 7, s')"
    using s2(2) s'(1) by (auto simp: slice_def cd_file_def)
  then show ?thesis using s'(2) by (auto simp: cd_file_def soft_pcr_const)
qed

lemma unread_file_extended_witness:
  "\<exists>s'. grub_close cd_env False (cd_file 2 (replicate 30720 7) 0 3000) = Some (Closed s')
    \<and> soft_pcr (snd (tcg s')) 14 = tpm_extend (replicate 20 0) (digest_bytes (fips_sha1 []))"
  using unread_file_extended [OF cd_env_tpm cd_file_unhashed [of 0, simplified], of False] by (auto simp: cd_file_def soft_pcr_const)

lemma rewound_file_passes_witness:
  "\<exists>s1 s2 s'. grub_read cd_env [] 1500 (cd_file 2 (replicate 30720 7) 0 3000) = Some (1500, replicate 1500 7, s1)
    \<and> grub_read cd_env [] 1500 (snd (grub_seek 0 s1)) = Some (1500, replicate 1500 7, s2) \<and> grub_close cd_env False s2 = Some (Closed s')"
  using rewound_file_passes [OF cd_reader cd_env_tpm cd_file_unhashed [of 0, simplified], of 1500 False] by (auto simp: cd_file_def)

text \<open>A CD-ROM with a given file from its third block on.\<close>

definition cd_image :: "u8 list \<Rightarrow> u8 list" where
  "cd_image content = replicate 4096 0 @ content @ replicate (26624 - length content) 0"

abbreviation "cd_ok content \<equiv> iso_file cd_int13 cd_contents cd_geom (cd_image content) 0xE0 15 0 2048 0 2"

lemma cd_image_length: "length content \<le> 26624 \<Longrightarrow> length (cd_image content) = 30720"
  by (simp add: cd_image_def)

lemma cd_image_reader:
  assumes "length content \<le> 26624"
  shows "fs_reader cd_base content (cd_ok content)"
proof -
  have s: "slice (cd_contents (cd_image content) 0xE0) ((uint (0::u32) + uint (2::u32)) * 2048) (int (length content)) = content"
    by (simp add: cd_contents_def slice_def cd_image_def)
  have "fs_reader cd_base (slice (cd_contents (cd_image content) 0xE0) ((uint (0::u32) + uint (2::u32)) * 2048) (int (length content))) (cd_ok content)"
    by (rule cd.dev.iso_fs_reader [OF _ _ _ arg_cong [OF s, of length]]) (use assms in \<open>simp_all add: cd_base_def\<close>)
  then show ?thesis unfolding s .
qed

lemma cd_image_device:
  assumes "length content \<le> 26624" and "0x55 \<notin> set content"
  shows "cd_ok content (cd_device 2 (cd_image content))"
  using cd_device_file [of "cd_image content" 1 2] cd_image_length [OF assms(1)] plain_bytes [of "cd_image content" "0x80"] assms(2)
  by (simp add: cd_image_def)

lemma cd_base_tpm: "tcg_bios (int1a_of cd_base) soft_pcr" "tpm_present cd_base = 0"
  using soft_tpm.tcg_bios_axioms by (simp_all add: cd_base_def)

lemma kernel_loaded_as_measured_witness:
  "\<exists>s1 s'. open_measured cd_env ((cd_file 2 (cd_image (replicate 3000 7)) 0 3000)\<lparr>measure_kernel := True\<rparr>) = Some (True, s1)
    \<and> grub_read cd_env [] 20 (s1\<lparr>filepos := 100\<rparr>) = Some (20, replicate 20 7, s1\<lparr>filepos := 120\<rparr>)
    \<and> grub_close cd_env False s1 = Some (Closed s')"
proof -
  let ?s = "(cd_file 2 (cd_image (replicate 3000 7)) 0 3000)\<lparr>measure_kernel := True\<rparr>"
  have "fresh_kernel (replicate 3000 7) (cd_ok (replicate 3000 7)) ?s"
    using cd_image_device [of "replicate 3000 7"] fresh_sha1_repr
    by (simp add: fresh_kernel_def plain_file_def cd_file_def MAXINT_def)
  moreover have "\<not> gzipped (replicate 3000 7)" by (simp add: gzipped_def le16_def)
  ultimately obtain s1 where s1: "open_measured (gunzip_env cd_base) ?s = Some (True, s1)"
    "\<forall>pos len buf. 0 \<le> pos \<longrightarrow> 0 \<le> len \<longrightarrow> pos + len \<le> int (length (replicate 3000 (7 :: u8)))
       \<longrightarrow> grub_read (gunzip_env cd_base) buf len (s1\<lparr>filepos := pos\<rparr>)
             = Some (len, overlay buf 0 (slice (replicate 3000 7) pos len), s1\<lparr>filepos := pos + len\<rparr>)"
    "\<forall>pos. \<exists>s''. grub_close (gunzip_env cd_base) False (s1\<lparr>filepos := pos\<rparr>) = Some (Closed s'')
       \<and> soft_pcr (snd (tcg s'')) = (soft_pcr (snd (tcg ?s)))(14 := tpm_extend (soft_pcr (snd (tcg ?s)) 14) (digest_bytes (fips_sha1 (replicate 3000 7))))"
    using kernel_loaded_as_measured [OF cd_image_reader [of "replicate 3000 7"] cd_base_tpm, of ?s False] by fastforce
  have "\<exists>s''. grub_close cd_env False s1 = Some (Closed s'')" using spec [OF s1(3), of "filepos s1"] by (auto simp: cd_env_def)
  moreover have "grub_read cd_env [] 20 (s1\<lparr>filepos := 100\<rparr>) = Some (20, replicate 20 7, s1\<lparr>filepos := 120\<rparr>)"
    using s1(2) [rule_format, of 100 20 "[]"] by (simp add: cd_env_def slice_def)
  ultimately show ?thesis using s1(1) by (auto simp: cd_env_def)
qed

text \<open>A compressed file with three bytes of data.\<close>

definition three_gz :: "u8 list" where
  "three_gz = gzip_stored [0x1f, 0x8b, 8, 0, 0, 0, 0, 0, 0, 3] [[1, 2], [3]] [0x1d, 0x80, 0xbc, 0x55 XOR 1]"

lemma three_gz_length: "length three_gz = 31" "0x55 \<notin> set three_gz"
  by (simp_all add: three_gz_def gzip_stored_def stored_block_def Let_def)

lemma gzip_stored_measured_witness:
  "\<exists>s1 s2 s3. open_measured cd_env (cd_file 2 (cd_image three_gz) 0 31) = Some (True, s1) \<and> filemax s1 = 3
    \<and> grub_read cd_env [] 3 s1 = Some (3, [1, 2, 3], s2) \<and> grub_close cd_env False s2 = Some (Closed s3)
    \<and> soft_pcr (snd (tcg s3)) 14 = tpm_extend (replicate 20 0) (digest_bytes (fips_sha1 three_gz))"
proof -
  let ?s = "cd_file 2 (cd_image three_gz) 0 31"
  have fresh: "fresh_file three_gz (cd_ok three_gz) ?s"
    using cd_image_device [of three_gz] fresh_sha1_repr
    by (simp add: three_gz_length fresh_file_def plain_file_def cd_file_def MAXINT_def blank_gz_def)
  show ?thesis
    using gzip_stored_measured [OF cd_image_reader [of three_gz] cd_base_tpm three_gz_def _ _ _ _ _ fresh, of "[]"]
    unfolding cd_env_def [symmetric]
    by (simp add: three_gz_length gzip_header_def WSIZE_def INBUFSIZ_def overlay_start) (fastforce simp: cd_file_def soft_pcr_const dest!: spec [of _ False])
qed

interpretation three_gz: byte_stream "file_source cd_base" "file_left three_gz (cd_ok three_gz) 10 blank_gz (\<lambda>_. 0, \<lambda>_. replicate 20 0) True"
  by (rule fs_reader.file_byte_stream [OF cd_image_reader]) (simp add: three_gz_length)

end
