(* ===== verification/Checkfile.thy ===== *)
theory Checkfile
  imports Gunzip
begin

unbundle bit_operations_syntax

text \<open>
  The check file of TrustedGRUB: \<open>calculate_sha1\<close> of \<^verbatim>\<open>stage2/sha1.c\<close>, \<open>load_checkfile\<close> of
  \<^verbatim>\<open>stage2/boot.c\<close> and the commands \<^verbatim>\<open>checkfile\<close> and \<^verbatim>\<open>sha1\<close>. Each line of the file has the reference hash of a
  file and its name; the hashes of the files that match are extended into PCR 13.

  What the stack holds before a variable is written is the record \<open>stack_junk\<close>. \<open>Halted\<close> is the end of the boot loader
  on the escape key.
\<close>

section \<open>Hashing a file\<close>

definition TCG_BUFFER_SIZE :: int where "TCG_BUFFER_SIZE = 4096"

record stack_junk =
  fn_junk :: "u8 list"
  ctx_junk :: "32 sha1_context"
  tcgbuffer_junk :: "u8 list"
  hash_junk :: "u32 list"
  data_junk :: "u8 list"

text \<open>Sequencing of steps that may halt.\<close>

fun if_closed :: "'a close_result \<Rightarrow> ('a \<Rightarrow> 'b close_result option) \<Rightarrow> 'b close_result option" where
  "if_closed (Closed s) f = f s"
| "if_closed Halted f = Some Halted"

text \<open>\<open>memset\<close> of a whole buffer, which does nothing while an error is pending.\<close>

definition clear_buffer :: "('w, 't) file_state \<Rightarrow> u8 list \<Rightarrow> u8 list" where
  "clear_buffer s buf = (if ferr s = ERR_NONE then replicate (length buf) 0 else buf)"

text \<open>
  The rounds with a full buffer; the results of \<open>grub_read\<close> are not looked at. The first component of the result tells whether
  \<open>sha1_update\<close> has succeeded.
\<close>

function sha1_rounds :: "('w, 't) file_env \<Rightarrow> int \<Rightarrow> u8 list \<Rightarrow> 32 sha1_context \<Rightarrow> ('w, 't) file_state
    \<Rightarrow> (bool \<times> int \<times> u8 list \<times> 32 sha1_context \<times> ('w, 't) file_state) option" where
  "sha1_rounds env bytes_to_copy buf ctx s =
     (if TCG_BUFFER_SIZE < bytes_to_copy
      then Option.bind (grub_read env buf TCG_BUFFER_SIZE s) (\<lambda>(_, buf', s').
             Option.bind (sha1_update (Some ctx) (Some buf') (of_int TCG_BUFFER_SIZE)) (\<lambda>(r, c).
               Option.bind c (\<lambda>ctx'.
                 if r \<noteq> 0 then Some (False, bytes_to_copy, buf', ctx', s')
                 else sha1_rounds env (bytes_to_copy - TCG_BUFFER_SIZE) buf' ctx' s')))
      else Some (True, bytes_to_copy, buf, ctx, s))"
  by pat_completeness auto
termination
  by (relation "measure (\<lambda>(env, n, buf, ctx, s). nat n)") (auto simp: TCG_BUFFER_SIZE_def)

declare sha1_rounds.simps [simp del]

text \<open>The part of \<open>calculate_sha1\<close> after the file has been opened; \<open>old\<close> is the old value of \<open>no_decompression\<close>.\<close>

definition sha1_of_open :: "('w, 't) file_env \<Rightarrow> (nat \<Rightarrow> bool) \<Rightarrow> stack_junk \<Rightarrow> bool \<Rightarrow> u32 list \<Rightarrow> ('w, 't) file_state
    \<Rightarrow> (int \<times> u32 list \<times> ('w, 't) file_state) close_result option" where
  "sha1_of_open env escape junk old sha1_result s =
     (if filemax s = 0 then Some (Closed (-1, sha1_result, s))
      else do {
        ctx \<leftarrow> snd (sha1_init (Some (ctx_junk junk)));
        let buf = clear_buffer s (tcgbuffer_junk junk);
        if compressed_file s
        then do { c \<leftarrow> grub_close env (escape 1) s;
                  if_closed c (\<lambda>s'. Some (Closed (-1, sha1_result, s'\<lparr>no_decompression := old\<rparr>))) }
        else do {
          (ok, n, buf1, ctx1, s1) \<leftarrow> sha1_rounds env (filemax s) buf ctx s;
          if \<not> ok then Some (Closed (-1, sha1_result, s1))
          else do {
            (_, buf2, s2) \<leftarrow> grub_read env (clear_buffer s1 buf1) n s1;
            (r, c) \<leftarrow> sha1_update (Some ctx1) (Some buf2) (of_int n);
            ctx2 \<leftarrow> c;
            if r \<noteq> 0 then Some (Closed (-1, sha1_result, s2))
            else do {
              cl \<leftarrow> grub_close env (escape 1) s2;
              if_closed cl (\<lambda>s3. do {
                (r', _, h) \<leftarrow> sha1_finish (Some ctx2) (Some sha1_result);
                Some (Closed (if r' \<noteq> 0 then -1 else 0, h, s3\<lparr>no_decompression := old\<rparr>)) }) } } } })"

text \<open>
  \<open>calculate_sha1\<close>: a compressed file is opened again with decompression switched off. \<open>escape i\<close> is whether the
  escape key is pressed at the warning of the \<open>i\<close>-th \<open>grub_close\<close>.
\<close>

definition calculate_sha1 :: "('w, 't) file_env \<Rightarrow> (nat \<Rightarrow> bool) \<Rightarrow> stack_junk \<Rightarrow> u8 list \<Rightarrow> u32 list \<Rightarrow> ('w, 't) file_state
    \<Rightarrow> (int \<times> u32 list \<times> ('w, 't) file_state) close_result option" where
  "calculate_sha1 env escape junk filename sha1_result s =
     do { (_, s1) \<leftarrow> grub_open env (fn_junk junk) filename s;
          let old = no_decompression s1;
          if compressed_file s1
          then do {
            c \<leftarrow> grub_close env (escape 0) s1;
            if_closed c (\<lambda>s2. do {
              (_, s3) \<leftarrow> grub_open env (fn_junk junk) filename (s2\<lparr>no_decompression := True\<rparr>);
              sha1_of_open env escape junk old sha1_result (s3\<lparr>compressed_file := False\<rparr>) }) }
          else sha1_of_open env escape junk old sha1_result s1 }"

section \<open>The lines of the check file\<close>

datatype chk_line = Bad_Line int | Entry "u8 list" "u8 list" nat

text \<open>The name of a file from position \<open>cur\<close> on, with room for \<open>n\<close> characters; none if it is too long.\<close>

primrec chk_name :: "nat \<Rightarrow> u8 list \<Rightarrow> nat \<Rightarrow> u8 list \<Rightarrow> (u8 list \<times> nat) option option" where
  "chk_name 0 data cur name = Some None"
| "chk_name (Suc n) data cur name =
     do { c \<leftarrow> rd data cur;
          if c = 0x0a then Some (Some (name, cur + 1))
          else if n = 0 then Some None
          else chk_name n data (cur + 1) (name @ [c]) }"

text \<open>One line: 40 characters of the hash, a space, and the name up to the end of the line.\<close>

definition chk_entry :: "u8 list \<Rightarrow> nat \<Rightarrow> chk_line option" where
  "chk_entry data cur =
     (if length data < cur + 40 then None
      else do {
        c \<leftarrow> rd data (cur + 40);
        if c \<noteq> 0x20 then Some (Bad_Line 1)
        else do {
          r \<leftarrow> chk_name 1024 data (cur + 41) [];
          Some (case r of None \<Rightarrow> Bad_Line (-1) | Some (name, cur') \<Rightarrow> Entry (take 40 (drop cur data)) name cur') } })"

text \<open>The hash as 40 hexadecimal digits.\<close>

definition hex_nibble :: "u32 \<Rightarrow> u8" where
  "hex_nibble x = (if x < 10 then 0x30 + ucast x else 0x57 + ucast x)"

definition hash_string :: "u32 list \<Rightarrow> u8 list" where
  "hash_string h = concat (map (\<lambda>w. map (\<lambda>i. hex_nibble (drop_bit (28 - 4 * i) w AND 0xf)) [0..<8]) h)"

lemma chk_name_advances: "chk_name n data cur name = Some (Some (name', cur')) \<Longrightarrow> cur < cur'"
  by (induction n arbitrary: cur name) (fastforce simp: Option.bind_eq_Some_conv split: if_splits)+

lemma chk_entry_advances: "chk_entry data cur = Some (Entry h name cur') \<Longrightarrow> cur < cur'"
  by (auto simp: chk_entry_def Option.bind_eq_Some_conv split: if_splits option.splits dest!: chk_name_advances)

text \<open>
  The loop over the lines. The result is the code of an early return, or the number of files that do not match. A hash
  that matches is extended; a name ends at a NUL, if it has one.
\<close>

function chk_loop :: "('w, 't) file_env \<Rightarrow> (nat \<Rightarrow> bool) \<Rightarrow> stack_junk \<Rightarrow> u8 list \<Rightarrow> nat \<Rightarrow> nat \<Rightarrow> nat \<Rightarrow> u32 list \<Rightarrow> ('w, 't) file_state
    \<Rightarrow> ((int + nat) \<times> ('w, 't) file_state) close_result option" where
  "chk_loop env escape junk data max_len cur errors hash s =
     (if max_len \<le> cur then Some (Closed (Inr errors, s))
      else case chk_entry data cur of
        None \<Rightarrow> None
      | Some (Bad_Line code) \<Rightarrow> Some (Closed (Inl code, s))
      | Some (Entry input name cur') \<Rightarrow>
          Option.bind (calculate_sha1 env escape junk (takeWhile (\<lambda>c. c \<noteq> 0) name) hash s) (\<lambda>res.
            if_closed res (\<lambda>(r, hash', s1).
              if r \<noteq> 0 then Some (Closed (Inl (-1), s1))
              else Option.bind (grub_strcmp (hash_string hash' @ [0]) (input @ [0])) (\<lambda>cmp.
                if cmp \<noteq> 0 then chk_loop env escape junk data max_len cur' (errors + 1) hash' s1
                else chk_loop env escape junk data max_len cur' errors hash'
                       (if tpm_present env = 0 then s1\<lparr>tcg := snd (update_pcr (int1a_of env) PCR_CHECKFILE hash' (tcg s1))\<rparr> else s1)))))"
  by pat_completeness auto
termination
  by (relation "measure (\<lambda>(env, escape, junk, data, max_len, cur, errors, hash, s). max_len - cur)") (auto dest: chk_entry_advances)

declare chk_loop.simps [simp del]

definition load_checkfile :: "('w, 't) file_env \<Rightarrow> (nat \<Rightarrow> bool) \<Rightarrow> bool \<Rightarrow> stack_junk \<Rightarrow> u8 list \<Rightarrow> ('w, 't) file_state
    \<Rightarrow> (int \<times> ('w, 't) file_state) close_result option" where
  "load_checkfile env escape escape_end junk checkfile s =
     do { let s0 = (if perform_sha1 s then s\<lparr>old_perform_sha1_value := True, perform_sha1 := False\<rparr> else s);
          (ok, s1) \<leftarrow> grub_open env (fn_junk junk) checkfile s0;
          if \<not> ok then Some (Closed (-1, s1))
          else if 2 * TCG_BUFFER_SIZE < filemax s1
          then do { c \<leftarrow> grub_close env (escape 0) s1; if_closed c (\<lambda>s2. Some (Closed (-1, s2))) }
          else do {
            let max_len = filemax s1;
            (_, data, s2) \<leftarrow> grub_read env (data_junk junk) max_len s1;
            c \<leftarrow> grub_close env (escape 0) s2;
            if_closed c (\<lambda>s3. do {
              res \<leftarrow> chk_loop env escape junk data (nat max_len) 0 0 (hash_junk junk) s3;
              if_closed res (\<lambda>(r, s4).
                case r of
                  Inl code \<Rightarrow> Some (Closed (code, s4))
                | Inr errors \<Rightarrow>
                    if 0 < errors \<and> escape_end then Some Halted
                    else Some (Closed (0, if old_perform_sha1_value s4 then s4\<lparr>perform_sha1 := True\<rparr> else s4))) }) } }"

section \<open>The commands\<close>

text \<open>An error in the check file stops the machine.\<close>

definition checkfile_func :: "('w, 't) file_env \<Rightarrow> (nat \<Rightarrow> bool) \<Rightarrow> bool \<Rightarrow> stack_junk \<Rightarrow> u8 list \<Rightarrow> ('w, 't) file_state
    \<Rightarrow> (int \<times> ('w, 't) file_state) close_result option" where
  "checkfile_func env escape escape_end junk arg s =
     do { res \<leftarrow> load_checkfile env escape escape_end junk arg s;
          if_closed res (\<lambda>(result, s'). Some (if result \<noteq> 0 then Halted else Closed (0, s'))) }"

definition sha1_func :: "('w, 't) file_env \<Rightarrow> (nat \<Rightarrow> bool) \<Rightarrow> stack_junk \<Rightarrow> u8 list \<Rightarrow> ('w, 't) file_state
    \<Rightarrow> (int \<times> ('w, 't) file_state) close_result option" where
  "sha1_func env escape junk arg s =
     do { res \<leftarrow> calculate_sha1 env escape junk arg (hash_junk junk) s;
          if_closed res (\<lambda>(r, _, s'). Some (Closed (if r \<noteq> 0 then -1 else 0, s'))) }"

section \<open>What the check relies on\<close>

text \<open>
  The contract of a mounted file system: its driver finds the files of \<open>files\<close> by their absolute paths and reads them,
  and it stays mounted.
\<close>

locale file_server =
  fixes env :: "('w, 't) file_env" and files :: "u8 list \<Rightarrow> u8 list option"
    and mounted :: "'w dev_state \<Rightarrow> bool" and opened :: "u8 list \<Rightarrow> 'w dev_state \<Rightarrow> bool"
  assumes current: "mounted d \<Longrightarrow> saved_drive d = current_drive d \<and> saved_partition d = current_partition d
      \<and> buf_drive (disk d) \<noteq> -1 \<and> sane_partition d = (True, d) \<and> err_of d = ERR_NONE \<and> fsys_type d < length (fsys_table env)"
    and absolute: "files p = Some content \<Longrightarrow> p \<noteq> [] \<and> hd p = 0x2f \<and> 0 \<notin> set p \<and> length p < 1500"
    and finds: "mounted d \<Longrightarrow> files p = Some content
      \<Longrightarrow> \<exists>d'. dir_func (fsys_table env ! fsys_type d) False (p @ [0]) fm d = Some (True, int (length content), d') \<and> opened content d'"
    and reader: "files p = Some content \<Longrightarrow> fs_reader env content (opened content)"
    and stays: "opened content d \<Longrightarrow> mounted d"
    and closes: "opened content d \<Longrightarrow> close_func (fsys_table env ! fsys_type d) = Some f \<Longrightarrow> mounted (f d)"

text \<open>The boot loader between two files, with measurement of reads switched off.\<close>

definition idle :: "('w dev_state \<Rightarrow> bool) \<Rightarrow> ('w, 't) file_state \<Rightarrow> bool" where
  "idle mounted s \<longleftrightarrow> mounted (dev s) \<and> \<not> perform_sha1 s \<and> \<not> measure_kernel s \<and> length (buffer (my_sha1 s)) = 64"

text \<open>The fields that opening, reading and closing leave alone.\<close>

definition kept :: "('w, 't) file_state \<Rightarrow> (tcg_mem \<times> 't) \<times> bool \<times> bool" where
  "kept s = (tcg s, no_decompression s, old_perform_sha1_value s)"

context file_server
begin

lemma setup_part_mounted:
  assumes "mounted d" and "files p = Some content"
  shows "setup_part b (map mount_func (fsys_table env)) junk (p @ [0]) d = Some (Some (p @ [0]), d)"
proof -
  have p: "p \<noteq> []" "hd p = 0x2f" using absolute [OF assms(2)] by auto
  then have "rd (p @ [0]) 0 = Some 0x2f" by (cases p) (auto simp: rd_def)
  moreover have "set_err ERR_NONE d = d" using current [OF assms(1)] by (simp add: set_err_def)
  ultimately show ?thesis using current [OF assms(1)] by (simp add: setup_part_def Let_def)
qed

lemma open_attempt_finds:
  assumes "idle mounted s" and "files p = Some content" and "\<not> gzipped content" and "length content < 2 ^ 31"
  shows "\<exists>s'. open_attempt (gunzip_env env) (p @ [0]) s = Some (Some True, s') \<and> plain_file content (opened content) s'
    \<and> filepos s' = 0 \<and> \<not> perform_sha1 s' \<and> kept s' = kept s \<and> length (buffer (my_sha1 s')) = 64"
proof -
  have i: "mounted (dev s)" "\<not> perform_sha1 s" "\<not> measure_kernel s" "length (buffer (my_sha1 s)) = 64" using assms(1) by (auto simp: idle_def)
  note cur = current [OF i(1)]
  have e: "set_err ERR_NONE (dev s) = dev s" using cur by (simp add: set_err_def)
  obtain ctx where ctx: "snd (sha1_init (Some (my_sha1 s))) = Some ctx" "length (buffer ctx) = 64" using i(4) by (auto simp: sha1_init_def)
  have p: "p \<noteq> []" "hd p = 0x2f" using absolute [OF assms(2)] by auto
  then have c0: "rd (p @ [0]) 0 = Some 0x2f" by (cases p) (auto simp: rd_def)
  define s2 where "s2 = s\<lparr>my_sha1 := ctx, sha1_byte_count := 0, sha1_has_to_measure := 0,
     kernel_filesize := 0, kernel_compressed_filesize := 0, compressed_file := False, filepos := 0,
     block_file := False, fsmax := uint MAXINT\<rparr>"
  obtain d' where d': "dir_func (fsys_table env ! fsys_type (dev s)) False (p @ [0]) (filemax s) (dev s) = Some (True, int (length content), d')"
    "opened content d'"
    using finds [OF i(1) assms(2)] by blast
  define s6 where "s6 = s2\<lparr>dev := d', filemax := int (length content), filepos := 0\<rparr>"
  have pf: "plain_file content (opened content) s6" "\<not> perform_sha1 s6" "filepos s6 = 0"
    using i d'(2) assms(4) by (auto simp: s6_def s2_def plain_file_def MAXINT_def)
  obtain d h where t: "opened content d" "test_header env s6 = Some (True, s6\<lparr>filepos := 0, dev := d, sha1_has_to_measure := h\<rparr>)"
    using fs_reader.test_header_plain [OF reader [OF assms(2)] pf assms(3)] by blast
  have "open_attempt (gunzip_env env) (p @ [0]) s = Some (Some True, s6\<lparr>filepos := 0, dev := d, sha1_has_to_measure := h\<rparr>)"
    using ctx(1) e cur c0 d'(1) t(2) i(2) setup_part_mounted [OF i(1) assms(2)]
    by (simp add: open_attempt_def set_ferr_def Let_def) (simp add: s6_def s2_def)
  moreover have "plain_file content (opened content) (s6\<lparr>filepos := 0, dev := d, sha1_has_to_measure := h\<rparr>)"
    using pf(1) t(1) by (simp add: plain_file_def)
  ultimately show ?thesis using i ctx(2) by (auto simp: s6_def s2_def kept_def)
qed

lemma grub_open_finds:
  assumes "idle mounted s" and "files p = Some content" and "\<not> gzipped content" and "length content < 2 ^ 31"
  shows "\<exists>s'. grub_open (gunzip_env env) junk p s = Some (True, s') \<and> plain_file content (opened content) s'
    \<and> filepos s' = 0 \<and> \<not> perform_sha1 s' \<and> kept s' = kept s \<and> length (buffer (my_sha1 s')) = 64"
proof -
  have "p \<noteq> []" "length p < 1500" using absolute [OF assms(2)] by auto
  moreover have "ferr s = ERR_NONE" using assms(1) current by (simp add: idle_def)
  ultimately show ?thesis using open_attempt_finds [OF assms] by (auto simp: grub_open_def Let_def)
qed

lemma grub_close_idle:
  assumes "plain_file content (opened content) s" and "\<not> perform_sha1 s" and "length (buffer (my_sha1 s)) = 64"
  shows "\<exists>s'. grub_close (gunzip_env env) escape s = Some (Closed s') \<and> idle mounted s' \<and> kept s' = kept s"
proof -
  have d: "opened content (dev s)" "\<not> block_file s" using assms(1) by (auto simp: plain_file_def)
  note m = stays [OF d(1)]
  have "mounted (dev (close_driver (gunzip_env env) (s\<lparr>measure_kernel := False\<rparr>)))"
    using d m current [OF m] closes [OF d(1)] by (simp add: close_driver_def split: option.split)
  moreover have "kept (close_driver (gunzip_env env) (s\<lparr>measure_kernel := False\<rparr>)) = kept s"
    "my_sha1 (close_driver (gunzip_env env) (s\<lparr>measure_kernel := False\<rparr>)) = my_sha1 s"
    "\<not> perform_sha1 (close_driver (gunzip_env env) (s\<lparr>measure_kernel := False\<rparr>))"
    "\<not> measure_kernel (close_driver (gunzip_env env) (s\<lparr>measure_kernel := False\<rparr>))"
    using assms(2) by (simp_all add: close_driver_def kept_def split: option.split)
  ultimately show ?thesis using assms(2,3) by (simp add: grub_close_def idle_def)
qed

end

text \<open>The buffers on the stack have the sizes of their declarations.\<close>

definition junk_ok :: "stack_junk \<Rightarrow> bool" where
  "junk_ok junk \<longleftrightarrow> length (buffer (ctx_junk junk)) = 64 \<and> length (tcgbuffer_junk junk) = 4096
     \<and> length (hash_junk junk) = 5 \<and> length (data_junk junk) = 8192"

lemma overlay_length: "length xs \<le> length buf \<Longrightarrow> length (overlay buf 0 xs) = length buf"
  by (simp add: overlay_start)

lemma unat_of_int_small: "0 \<le> n \<Longrightarrow> n < 2 ^ 31 \<Longrightarrow> unat (of_int n :: u32) = nat n"
  using unat_of_nat_below32 [of "nat n"] by simp

context fs_reader
begin

text \<open>A read that is not measured, at the start of a buffer, and the update of a hash with what was read.\<close>

lemma plain_read:
  assumes "plain_file content ok s" and "\<not> perform_sha1 s" and "0 \<le> len" and "filepos s + len \<le> filemax s"
  shows "\<exists>s'. grub_read (gunzip_env env) buf len s = Some (len, overlay buf 0 (slice content (filepos s) len), s')
    \<and> plain_file content ok s' \<and> \<not> perform_sha1 s' \<and> filepos s' = filepos s + len \<and> kept s' = kept s \<and> my_sha1 s' = my_sha1 s"
proof -
  have g: "fs_reader (gunzip_env env) content ok" by (rule fs_reader_gunzip [OF fs_reader_axioms])
  have "read_len len s = len" using assms(3,4) by (simp add: read_len_def)
  then obtain d where "grub_read (gunzip_env env) buf len s = Some (len, overlay buf 0 (slice content (filepos s) len),
      s\<lparr>filepos := filepos s + len, dev := d, sha1_has_to_measure := (if sha1_has_to_measure s = 0 then filemax s else sha1_has_to_measure s)\<rparr>)" "ok d"
    using fs_reader.unmeasured_read [OF g assms(1,2), of "grub_read_body (gunzip_env env) (\<lambda>_ _ _. None)" buf len] unfolding grub_read_def by auto
  then show ?thesis using assms by (auto simp: plain_file_def kept_def)
qed

lemma hash_step:
  fixes ctx :: "32 sha1_context"
  assumes "plain_file content ok s" and "\<not> perform_sha1 s" and "0 < len" and "filepos s + len \<le> filemax s"
    and "sha1_repr ctx (take (nat (filepos s)) content)" and "nat len \<le> length buf"
  shows "\<exists>s' ctx'. grub_read (gunzip_env env) buf len s = Some (len, overlay buf 0 (slice content (filepos s) len), s')
    \<and> plain_file content ok s' \<and> \<not> perform_sha1 s' \<and> filepos s' = filepos s + len \<and> kept s' = kept s \<and> my_sha1 s' = my_sha1 s
    \<and> sha1_update (Some ctx) (Some (overlay buf 0 (slice content (filepos s) len))) (of_int len) = Some (0, Some ctx')
    \<and> sha1_repr ctx' (take (nat (filepos s')) content)"
proof -
  obtain s' where s': "grub_read (gunzip_env env) buf len s = Some (len, overlay buf 0 (slice content (filepos s) len), s')"
    "plain_file content ok s'" "\<not> perform_sha1 s'" "filepos s' = filepos s + len" "kept s' = kept s" "my_sha1 s' = my_sha1 s"
    using plain_read [OF assms(1,2) less_imp_le [OF assms(3)] assms(4)] by blast
  have p: "0 \<le> filepos s" "filemax s = int (length content)" "filemax s < 2 ^ 31" using assms(1) by (auto simp: plain_file_def)
  let ?data = "slice content (filepos s) len"
  have dl: "length ?data = nat len" using slice_full [of "filepos s" len content] p assms(3,4) by simp
  have l31: "nat len < 2 ^ 32" using p assms(3,4) by (simp add: nat_less_iff)
  have u: "unat (of_int len :: u32) = nat len" using unat_of_int_small [of len] p assms(3,4) by simp
  have "\<exists>ctx'. sha1_update (Some ctx) (Some (overlay buf 0 ?data)) (of_int len) = Some (0, Some ctx')
      \<and> sha1_repr ctx' (take (nat (filepos s)) content @ take (unat (of_int len :: u32)) (overlay buf 0 ?data))"
    using sha1_update_fips [OF _ assms(5), of "of_int len" "overlay buf 0 ?data"] u assms(3,6) l31 dl overlay_length [of ?data buf] by simp
  moreover have "take (nat (filepos s)) content @ take (unat (of_int len :: u32)) (overlay buf 0 ?data) = take (nat (filepos s')) content"
    unfolding u using dl take_slice [OF p(1), of len content] assms(3) s'(4) by (simp add: overlay_start)
  ultimately show ?thesis using s' by metis
qed

lemma sha1_rounds_read:
  assumes "plain_file content ok s" and "\<not> perform_sha1 s" and "n = filemax s - filepos s" and "0 < n"
    and "sha1_repr ctx (take (nat (filepos s)) content)" and "length buf = 4096"
  shows "\<exists>n' buf' ctx' s'. sha1_rounds (gunzip_env env) n buf ctx s = Some (True, n', buf', ctx', s')
    \<and> plain_file content ok s' \<and> \<not> perform_sha1 s' \<and> n' = filemax s' - filepos s' \<and> 0 < n' \<and> n' \<le> 4096 \<and> kept s' = kept s \<and> my_sha1 s' = my_sha1 s
    \<and> sha1_repr ctx' (take (nat (filepos s')) content) \<and> length buf' = 4096"
  using assms
proof (induction "nat n" arbitrary: n s ctx buf rule: less_induct)
  case less
  show ?case
  proof (cases "4096 < n")
    case True
    obtain s1 ctx1 where s1: "grub_read (gunzip_env env) buf 4096 s = Some (4096, overlay buf 0 (slice content (filepos s) 4096), s1)"
      "plain_file content ok s1" "\<not> perform_sha1 s1" "filepos s1 = filepos s + 4096" "kept s1 = kept s" "my_sha1 s1 = my_sha1 s"
      "sha1_update (Some ctx) (Some (overlay buf 0 (slice content (filepos s) 4096))) (of_int 4096) = Some (0, Some ctx1)"
      "sha1_repr ctx1 (take (nat (filepos s1)) content)"
      using hash_step [OF less.prems(1,2), of 4096 ctx buf] True less.prems by auto
    let ?buf = "overlay buf 0 (slice content (filepos s) 4096)"
    have eq: "sha1_rounds (gunzip_env env) n buf ctx s = sha1_rounds (gunzip_env env) (n - 4096) ?buf ctx1 s1"
      using True s1(1,7) by (subst sha1_rounds.simps) (simp add: TCG_BUFFER_SIZE_def)
    have m: "filemax s1 = filemax s" using s1(2) less.prems(1) by (simp add: plain_file_def)
    have "length (slice content (filepos s) 4096) \<le> length buf" using less.prems(6) by (simp add: slice_def)
    then have "length ?buf = 4096" using overlay_length less.prems(6) by metis
    then show ?thesis
      unfolding eq using less.hyps [of "n - 4096" s1 ctx1 ?buf] True s1 m less.prems(3) by simp
  next
    case False
    then show ?thesis using less.prems by (subst sha1_rounds.simps) (simp add: TCG_BUFFER_SIZE_def)
  qed
qed

end

context file_server
begin

lemma calculate_sha1_hashes:
  assumes "idle mounted s" and "files p = Some content" and "\<not> gzipped content" and "content \<noteq> []" and "length content < 2 ^ 31"
    and "junk_ok junk" and "length h = 5"
  shows "\<exists>s'. calculate_sha1 (gunzip_env env) escape junk p h s = Some (Closed (0, fips_sha1 content, s'))
    \<and> idle mounted s' \<and> kept s' = kept s"
proof -
  note reads = reader [OF assms(2)]
  obtain s1 where s1: "grub_open (gunzip_env env) (fn_junk junk) p s = Some (True, s1)" "plain_file content (opened content) s1"
    "filepos s1 = 0" "\<not> perform_sha1 s1" "kept s1 = kept s" "length (buffer (my_sha1 s1)) = 64"
    using grub_open_finds [OF assms(1-3,5)] by blast
  have f: "filemax s1 = int (length content)" "\<not> compressed_file s1" "ferr s1 = ERR_NONE"
    using s1(2) fs_reader.no_error [OF reads] by (auto simp: plain_file_def)
  obtain ctx where ctx: "snd (sha1_init (Some (ctx_junk junk))) = Some ctx" "sha1_repr ctx []"
    using sha1_init_repr [of "ctx_junk junk"] assms(6) by (auto simp: junk_ok_def)
  let ?buf = "clear_buffer s1 (tcgbuffer_junk junk)"
  have b: "length ?buf = 4096" using assms(6) by (simp add: clear_buffer_def junk_ok_def)
  obtain n buf2 ctx2 s2 where s2: "sha1_rounds (gunzip_env env) (filemax s1) ?buf ctx s1 = Some (True, n, buf2, ctx2, s2)"
    "plain_file content (opened content) s2" "\<not> perform_sha1 s2" "n = filemax s2 - filepos s2" "0 < n" "n \<le> 4096" "kept s2 = kept s" "my_sha1 s2 = my_sha1 s1"
    "sha1_repr ctx2 (take (nat (filepos s2)) content)" "length buf2 = 4096"
    using fs_reader.sha1_rounds_read [OF reads s1(2,4), of "filemax s1" ctx ?buf] ctx(2) s1(3,5) f(1) b assms(4) by auto
  let ?b2 = "clear_buffer s2 buf2"
  have n: "filepos s2 + n = filemax s2" "length ?b2 = 4096" "nat n \<le> length ?b2" using s2(4,6,10) by (simp_all add: clear_buffer_def)
  obtain s3 ctx3 where s3: "grub_read (gunzip_env env) ?b2 n s2 = Some (n, overlay ?b2 0 (slice content (filepos s2) n), s3)"
    "plain_file content (opened content) s3" "\<not> perform_sha1 s3" "filepos s3 = filemax s2" "kept s3 = kept s" "my_sha1 s3 = my_sha1 s1"
    "sha1_update (Some ctx2) (Some (overlay ?b2 0 (slice content (filepos s2) n))) (of_int n) = Some (0, Some ctx3)"
    "sha1_repr ctx3 (take (nat (filepos s3)) content)"
    using fs_reader.hash_step [OF reads s2(2,3), of n ctx2 ?b2] s2(5,7,8,9) n by auto
  have all: "sha1_repr ctx3 content" using s3(8,4) s2(2) by (simp add: plain_file_def)
  obtain s4 where s4: "grub_close (gunzip_env env) (escape 1) s3 = Some (Closed s4)" "idle mounted s4" "kept s4 = kept s"
    using grub_close_idle [OF s3(2,3), of "escape 1"] s3(5,6) s1(6) by auto
  obtain c h' where "sha1_finish (Some ctx3) (Some h) = Some (0, Some c, h')" "length h' = 5" "map ucast (take 5 h') = fips_sha1 content"
    using sha1_finish_fips [OF _ all, of h] assms(7) by auto
  then have fin: "sha1_finish (Some ctx3) (Some h) = Some (0, Some c, fips_sha1 content)" by simp
  have nd: "no_decompression s1 = no_decompression s" "s4\<lparr>no_decompression := no_decompression s\<rparr> = s4" using s1(5) s4(3) by (auto simp: kept_def)
  have "sha1_of_open (gunzip_env env) escape junk (no_decompression s1) h s1 = Some (Closed (0, fips_sha1 content, s4))"
    using ctx(1) f(1,2) assms(4) s2(1) s3(1,7) s4(1) fin nd by (simp add: sha1_of_open_def)
  then show ?thesis using s1(1) f(2) s4(2,3) by (auto simp: calculate_sha1_def)
qed

end

section \<open>What is checked\<close>

text \<open>The text of a check file, and which of its lines name a file with the hash of the line.\<close>

definition chk_text :: "(u8 list \<times> u8 list) list \<Rightarrow> u8 list" where
  "chk_text entries = concat (map (\<lambda>(h, p). h @ 0x20 # p @ [0x0a]) entries)"

definition chk_match :: "(u8 list \<Rightarrow> u8 list option) \<Rightarrow> u8 list \<times> u8 list \<Rightarrow> bool" where
  "chk_match files = (\<lambda>(h, p). h = hash_string (fips_sha1 (the (files p))))"

text \<open>A line that can be checked: it names a file that is there, is not empty and is not compressed.\<close>

definition chk_wf :: "(u8 list \<Rightarrow> u8 list option) \<Rightarrow> u8 list \<times> u8 list \<Rightarrow> bool" where
  "chk_wf files = (\<lambda>(h, p). length h = 40 \<and> 0x0a \<notin> set p \<and> length p \<le> 1023
     \<and> (case files p of None \<Rightarrow> False | Some content \<Rightarrow> content \<noteq> [] \<and> \<not> gzipped content \<and> length content < 2 ^ 31))"

text \<open>The registers after the lines that match have been extended into PCR 13.\<close>

definition chk_pcrs :: "(u8 list \<Rightarrow> u8 list option) \<Rightarrow> (u8 list \<times> u8 list) list \<Rightarrow> (u8 \<Rightarrow> u8 list) \<Rightarrow> u8 \<Rightarrow> u8 list" where
  "chk_pcrs files entries pcrs = fold (\<lambda>(h, p) r. if chk_match files (h, p)
     then r(13 := tpm_extend (r 13) (digest_bytes (fips_sha1 (the (files p))))) else r) entries pcrs"

lemma drop_step: "drop n xs = y # ys \<Longrightarrow> rd xs n = Some y \<and> drop (Suc n) xs = ys"
  by (cases "n < length xs") (auto simp: Cons_nth_drop_Suc [symmetric] rd_def)

lemma chk_name_line:
  assumes "0x0a \<notin> set p" and "length p < n" and "drop cur data = p @ 0x0a # later"
  shows "chk_name n data cur name = Some (Some (name @ p, cur + length p + 1))"
  using assms
proof (induction p arbitrary: n cur name)
  case Nil
  then obtain m where n: "n = Suc m" by (cases n) auto
  show ?case using drop_step [of cur data] Nil.prems(3) by (simp add: n)
next
  case (Cons c p)
  then obtain m where n: "n = Suc m" "length p < m" by (cases n) auto
  have "rd data cur = Some c" "drop (cur + 1) data = p @ 0x0a # later" using drop_step [of cur data c] Cons.prems(3) by auto
  then show ?case using Cons.IH [of m "cur + 1" "name @ [c]"] Cons.prems(1) n by auto
qed

lemma chk_entry_line:
  assumes "length h = 40" and "0x0a \<notin> set p" and "length p \<le> 1023" and "drop cur data = h @ 0x20 # p @ 0x0a # later"
  shows "chk_entry data cur = Some (Entry h p (cur + length p + 42))"
proof -
  have "drop 40 (drop cur data) = 0x20 # p @ 0x0a # later" unfolding assms(4) using assms(1) by simp
  then have d: "drop (cur + 40) data = 0x20 # p @ 0x0a # later" by (simp add: add.commute)
  note c = drop_step [OF d]
  have "take 40 (drop cur data) = h" unfolding assms(4) using assms(1) by simp
  moreover have "\<not> length data < cur + 40" using d by auto
  moreover have "chk_name 1024 data (cur + 41) [] = Some (Some (p, cur + 41 + length p + 1))"
    using chk_name_line [OF assms(2), of 1024 "cur + 41" data later "[]"] c assms(3) by (simp add: eval_nat_numeral)
  ultimately show ?thesis using c by (simp add: chk_entry_def del: chk_name.simps)
qed

lemma hex_nibble_pos: "hex_nibble (x AND 0xf) \<noteq> 0"
proof -
  have m: "x AND 0xf = mask 4 AND x" by (simp add: mask_eq_exp_minus_1 and.commute)
  have "unat (x AND 0xf) < 16" unfolding m and.commute [of "mask 4"] take_bit_eq_mask [symmetric] by (simp add: unsigned_take_bit_eq take_bit_nat_def)
  then have b: "unat (ucast (x AND 0xf) :: u8) < 16" by (simp add: unsigned_ucast_eq take_bit_nat_eq_self)
  then have "unat (0x30 + ucast (x AND 0xf) :: u8) = 0x30 + unat (ucast (x AND 0xf) :: u8)" "unat (0x57 + ucast (x AND 0xf) :: u8) = 0x57 + unat (ucast (x AND 0xf) :: u8)"
    by (simp_all add: unat_word_ariths)
  then show ?thesis unfolding hex_nibble_def by (metis add_is_0 unat_0 zero_neq_numeral)
qed

lemma hash_string_nonzero: "0 \<notin> set (hash_string h)"
  using hex_nibble_pos by (auto simp: hash_string_def)

lemma strcmp_same_length:
  assumes "length a = length b" and "0 \<notin> set a"
  shows "\<exists>c. grub_strcmp (a @ [0]) (b @ [0]) = Some c \<and> (c = 0 \<longleftrightarrow> a = b)"
  using assms
proof (induction a b rule: list_induct2)
  case (Cons x xs y ys)
  then show ?case by (auto simp: signed_word_eqI not_less) 
qed simp

lemma hash_string_length: "length (hash_string h) = 8 * length h"
  by (induction h) (simp_all add: hash_string_def)

lemma chk_text_Cons: "chk_text ((h, p) # entries) = h @ 0x20 # p @ 0x0a # chk_text entries"
  by (simp add: chk_text_def)

lemma chk_pcrs_Cons: "chk_pcrs files ((h, p) # entries) pcrs = chk_pcrs files entries
    (if chk_match files (h, p) then pcrs(13 := tpm_extend (pcrs 13) (digest_bytes (fips_sha1 (the (files p))))) else pcrs)"
  by (simp add: chk_pcrs_def)

definition chk_bad :: "(u8 list \<Rightarrow> u8 list option) \<Rightarrow> (u8 list \<times> u8 list) list \<Rightarrow> nat" where
  "chk_bad files entries = length (filter (\<lambda>e. \<not> chk_match files e) entries)"

context file_server
begin

lemma chk_loop_checks:
  assumes "tcg_bios (int1a_of env) pcr" and "tpm_present env = 0" and "junk_ok junk"
    and "idle mounted s" and "list_all (chk_wf files) entries" and "drop cur data = chk_text entries @ later"
    and "max_len = cur + length (chk_text entries)" and "length hash = 5"
  shows "\<exists>s'. chk_loop (gunzip_env env) escape junk data max_len cur errors hash s = Some (Closed (Inr (errors + chk_bad files entries), s'))
    \<and> idle mounted s' \<and> snd (kept s') = snd (kept s) \<and> pcr (snd (tcg s')) = chk_pcrs files entries (pcr (snd (tcg s)))"
  using assms(4-8)
proof (induction entries arbitrary: s cur errors hash)
  case Nil
  then show ?case by (subst chk_loop.simps) (simp add: chk_text_def chk_pcrs_def chk_bad_def)
next
  case (Cons e entries)
  obtain h p where e: "e = (h, p)" by (cases e) auto
  obtain content where c: "files p = Some content" "content \<noteq> []" "\<not> gzipped content" "length content < 2 ^ 31"
    and wf: "length h = 40" "0x0a \<notin> set p" "length p \<le> 1023" "list_all (chk_wf files) entries"
    using Cons.prems(2) by (auto simp: e chk_wf_def split: option.splits)
  have d: "drop cur data = h @ 0x20 # p @ 0x0a # (chk_text entries @ later)" using Cons.prems(3) by (simp add: e chk_text_Cons)
  let ?cur = "cur + length p + 42"
  note entry = chk_entry_line [OF wf(1-3) d]
  have "drop (length p + 42) (drop cur data) = chk_text entries @ later" unfolding d using wf(1) by (simp add: eval_nat_numeral)
  then have d': "drop ?cur data = chk_text entries @ later" by (simp add: ac_simps)
  have ml: "\<not> max_len \<le> cur" "max_len = ?cur + length (chk_text entries)"
    using Cons.prems(4) wf(1) by (auto simp: e chk_text_Cons)
  have name: "takeWhile (\<lambda>c. c \<noteq> 0) p = p" using absolute [OF c(1)] by (auto simp: takeWhile_eq_all_conv)
  obtain s1 where s1: "calculate_sha1 (gunzip_env env) escape junk p hash s = Some (Closed (0, fips_sha1 content, s1))" "idle mounted s1" "kept s1 = kept s"
    using calculate_sha1_hashes [OF Cons.prems(1) c(1,3,2,4) assms(3) Cons.prems(5)] by blast
  have s1': "calculate_sha1 (gunzip_env env) escape junk (takeWhile (\<lambda>c. c \<noteq> 0) p) hash s = Some (Closed (0, fips_sha1 content, s1))"
    using s1(1) by (simp only: name)
  obtain cmp where cmp: "grub_strcmp (hash_string (fips_sha1 content) @ [0]) (h @ [0]) = Some cmp" "cmp = 0 \<longleftrightarrow> hash_string (fips_sha1 content) = h"
    using strcmp_same_length [of "hash_string (fips_sha1 content)" h] hash_string_nonzero wf(1) by (auto simp: hash_string_length length_fips_sha1)
  then have m: "cmp = 0 \<longleftrightarrow> chk_match files e" using c(1) by (auto simp: chk_match_def e)
  define s2 where "s2 = (if chk_match files e then s1\<lparr>tcg := snd (update_pcr (int1a_of env) PCR_CHECKFILE (fips_sha1 content) (tcg s1))\<rparr> else s1)"
  have s2: "idle mounted s2" "snd (kept s2) = snd (kept s)" using s1(2,3) by (auto simp: s2_def idle_def kept_def)
  have "pcr (snd (tcg s2)) = (if chk_match files e then (pcr (snd (tcg s)))(13 := tpm_extend (pcr (snd (tcg s)) 13) (digest_bytes (fips_sha1 content)))
      else pcr (snd (tcg s)))"
    using tcg_bios.update_pcr_law(2) [OF assms(1), of 13 "fips_sha1 content" "tcg s1"] s1(3) length_fips_sha1
    by (simp add: s2_def PCR_CHECKFILE_def kept_def)
  then have pcr2: "chk_pcrs files entries (pcr (snd (tcg s2))) = chk_pcrs files (e # entries) (pcr (snd (tcg s)))"
    using c(1) by (simp add: e chk_pcrs_Cons)
  let ?errors = "if chk_match files e then errors else errors + 1"
  have step: "chk_loop (gunzip_env env) escape junk data max_len cur errors hash s
      = chk_loop (gunzip_env env) escape junk data max_len ?cur ?errors (fips_sha1 content) s2"
    using ml(1) entry s1' cmp(1) m assms(2) by (subst chk_loop.simps) (simp add: s2_def)
  have bad: "?errors + chk_bad files entries = errors + chk_bad files (e # entries)" by (simp add: chk_bad_def)
  show ?case
    unfolding step using Cons.IH [OF s2(1) wf(4) d' ml(2) length_fips_sha1, of ?errors] s2(2) pcr2 bad by metis
qed

end

text \<open>
  C10. \<open>load_checkfile\<close> checks the files it lists. On a file system that keeps the contract \<open>file_server\<close> it returns: it extends PCR 13, and
  no other register, by the SHA-1 hashes of exactly those files whose hash is the one of their line, in the order of the
  lines; if another file is listed, the user is asked and can stop the machine. Measurement of reads is switched on again if
  it was on. (A file whose hash differs leaves no trace in the registers.)
\<close>

theorem load_checkfile_checks:
  assumes "file_server env files mounted opened" and "tcg_bios (int1a_of env) pcr" and "tpm_present env = 0" and "junk_ok junk"
    and "idle mounted (s\<lparr>perform_sha1 := False\<rparr>)" and "list_all (chk_wf files) entries"
    and "files p = Some (chk_text entries)" and "\<not> gzipped (chk_text entries)" and "length (chk_text entries) \<le> 8192"
  shows "if 0 < chk_bad files entries \<and> escape_end
    then load_checkfile (gunzip_env env) escape escape_end junk p s = Some Halted
    else \<exists>s'. load_checkfile (gunzip_env env) escape escape_end junk p s = Some (Closed (0, s'))
      \<and> pcr (snd (tcg s')) = chk_pcrs files entries (pcr (snd (tcg s)))
      \<and> perform_sha1 s' = (perform_sha1 s \<or> old_perform_sha1_value s)"
proof -
  let ?text = "chk_text entries" and ?n = "int (length (chk_text entries))"
  define s0 where "s0 = (if perform_sha1 s then s\<lparr>old_perform_sha1_value := True, perform_sha1 := False\<rparr> else s)"
  have s0: "idle mounted s0" "tcg s0 = tcg s" "old_perform_sha1_value s0 = (perform_sha1 s \<or> old_perform_sha1_value s)"
    using assms(5) by (auto simp: s0_def idle_def)
  have len: "length ?text < 2 ^ 31" using assms(9) by simp
  obtain s1 where s1: "grub_open (gunzip_env env) (fn_junk junk) p s0 = Some (True, s1)" "plain_file ?text (opened ?text) s1"
    "filepos s1 = 0" "\<not> perform_sha1 s1" "kept s1 = kept s0" "length (buffer (my_sha1 s1)) = 64"
    using file_server.grub_open_finds [OF assms(1) s0(1) assms(7,8) len] by blast
  have fm: "filemax s1 = ?n" "\<not> 2 * TCG_BUFFER_SIZE < filemax s1" using s1(2) assms(9) by (auto simp: plain_file_def TCG_BUFFER_SIZE_def)
  obtain s2 where s2: "grub_read (gunzip_env env) (data_junk junk) ?n s1 = Some (?n, overlay (data_junk junk) 0 (slice ?text 0 ?n), s2)"
    "plain_file ?text (opened ?text) s2" "\<not> perform_sha1 s2" "kept s2 = kept s0" "my_sha1 s2 = my_sha1 s1"
    using fs_reader.plain_read [OF file_server.reader [OF assms(1,7)] s1(2,4), of ?n "data_junk junk"] fm(1) s1(3,5) by auto
  obtain s3 where s3: "grub_close (gunzip_env env) (escape 0) s2 = Some (Closed s3)" "idle mounted s3" "kept s3 = kept s0"
    using file_server.grub_close_idle [OF assms(1) s2(2,3), of "escape 0"] s2(4,5) s1(6) by auto
  let ?data = "overlay (data_junk junk) 0 ?text"
  have data: "drop 0 ?data = ?text @ drop (length ?text) (data_junk junk)" by (simp add: overlay_start)
  have hl: "length (hash_junk junk) = 5" using assms(4) by (simp add: junk_ok_def)
  obtain s4 where s4: "chk_loop (gunzip_env env) escape junk ?data (length ?text) 0 0 (hash_junk junk) s3
      = Some (Closed (Inr (chk_bad files entries), s4))" "idle mounted s4" "snd (kept s4) = snd (kept s3)"
    "pcr (snd (tcg s4)) = chk_pcrs files entries (pcr (snd (tcg s3)))"
    using file_server.chk_loop_checks [OF assms(1-4) s3(2) assms(6) data _ hl, of "length ?text" escape 0] by auto
  have sl: "slice ?text 0 ?n = ?text" by (simp add: slice_def)
  have "load_checkfile (gunzip_env env) escape escape_end junk p s
      = (if 0 < chk_bad files entries \<and> escape_end then Some Halted
         else Some (Closed (0, if old_perform_sha1_value s4 then s4\<lparr>perform_sha1 := True\<rparr> else s4)))"
    using s1(1) s2(1) s3(1) s4(1) fm by (simp add: load_checkfile_def s0_def [symmetric] sl)
  moreover have "tcg s3 = tcg s" "old_perform_sha1_value s4 = (perform_sha1 s \<or> old_perform_sha1_value s)" "\<not> perform_sha1 s4"
    using s3(3) s4(2,3) s0 by (auto simp: kept_def idle_def)
  ultimately show ?thesis using s4(4) by auto
qed

end
