(* ===== verification/IsoLookup.thy ===== *)
theory IsoLookup
  imports Iso9660 Checkfile
begin

unbundle bit_operations_syntax

text \<open>
  Looking up a file in the root directory of an ISO 9660 volume: the encoding of directory records, the search of
  \<^verbatim>\<open>stage2/fsys_iso9660.c\<close> over them, and the volume as a server of files, on which a check file is
  loaded.
\<close>

section \<open>Directory records\<close>

text \<open>
  A record of a directory without extensions: its length, the first sector and the size of the file, the flag of a
  directory and the name, padded to an even length.
\<close>

record iso_rec =
  rec_extent :: u32
  rec_size :: u32
  rec_dir :: bool
  rec_name :: "u8 list"

definition le_bytes :: "u32 \<Rightarrow> u8 list" where
  "le_bytes x = [ucast x, ucast (drop_bit 8 x), ucast (drop_bit 16 x), ucast (drop_bit 24 x)]"

definition iso_encode :: "iso_rec \<Rightarrow> u8 list" where
  "iso_encode r =
     (let n = length (rec_name r); pad = (if even n then [0] else [])
      in [of_nat (33 + n + length pad), 0] @ le_bytes (rec_extent r) @ replicate 4 0 @ le_bytes (rec_size r) @ replicate 11 0
         @ [if rec_dir r then 2 else 0] @ replicate 6 0 @ [of_nat n] @ rec_name r @ pad)"

definition iso_rec_ok :: "iso_rec \<Rightarrow> bool" where
  "iso_rec_ok r \<longleftrightarrow> rec_name r \<noteq> [] \<and> length (rec_name r) \<le> 220"

text \<open>The name without its version, which the driver compares with the path.\<close>

definition iso_base :: "u8 list \<Rightarrow> u8 list" where
  "iso_base name =
     (let n = length name
      in if 2 < n \<and> name ! (n - 2) = 0x3b \<and> name ! (n - 1) = 0x31
         then if 1 < n - 2 \<and> name ! (n - 3) = 0x2e then take (n - 3) name else take (n - 2) name
         else name)"

lemma iso_encode_length: "length (iso_encode r) = 33 + length (rec_name r) + (if even (length (rec_name r)) then 1 else 0)"
  by (simp add: iso_encode_def le_bytes_def Let_def)

lemma iso_encode_even: "even (length (iso_encode r))"
  by (simp add: iso_encode_length)

text \<open>The fields of a record in memory.\<close>

lemma peek_nth: "peek m a n = bs \<Longrightarrow> i < n \<Longrightarrow> m (a + i) = bs ! i"
  by (auto simp: peek_def)

lemma peek_sub: "peek m a n = bs \<Longrightarrow> i + k \<le> n \<Longrightarrow> peek m (a + i) k = take k (drop i bs)"
  by (rule nth_equalityI) (auto simp: peek_def ac_simps)

lemma iso32_le: "peek m a 4 = le_bytes x \<Longrightarrow> iso32 m a = x"
  by (simp add: iso32_def le_bytes_def le32_bytes)

lemma iso_fields:
  assumes "peek m a (length (iso_encode r)) = iso_encode r" and "iso_rec_ok r"
  shows "unat (m a) = length (iso_encode r)" "m a \<noteq> 0" "peek m (a + 2) 4 = le_bytes (rec_extent r)" "iso32 m (a + 10) = rec_size r"
    "m (a + 25) = (if rec_dir r then 2 else 0)" "m (a + 32) = of_nat (length (rec_name r))" "unat (m (a + 32)) = length (rec_name r)"
    "peek m (a + 33) (length (rec_name r)) = rec_name r"
proof -
  let ?n = "length (rec_name r)" and ?e = "iso_encode r"
  have n: "0 < ?n" "?n \<le> 220" using assms(2) by (auto simp: iso_rec_ok_def)
  have e0: "?e ! 0 = of_nat (length ?e)" "?e ! 25 = (if rec_dir r then 2 else 0)" "?e ! 32 = of_nat ?n"
    "take 4 (drop 2 ?e) = le_bytes (rec_extent r)" "take 4 (drop 10 ?e) = le_bytes (rec_size r)" "take ?n (drop 33 ?e) = rec_name r"
    unfolding iso_encode_length by (simp_all add: iso_encode_def le_bytes_def Let_def eval_nat_numeral)
  note p = assms(1)
  have len: "length ?e < 256" "33 + ?n \<le> length ?e" "0 < length ?e" using n by (auto simp: iso_encode_length)
  show "unat (m a) = length ?e" using peek_nth [OF p len(3)] len(1) e0(1) by (simp add: unat_of_nat take_bit_nat_eq_self)
  then show "m a \<noteq> 0" using len n by (metis add_is_0 iso_encode_length unat_0 zero_neq_numeral)
  show "peek m (a + 2) 4 = le_bytes (rec_extent r)" using peek_sub [OF p, of 2 4] len e0(4) by simp
  show "iso32 m (a + 10) = rec_size r" using peek_sub [OF p, of 10 4] len e0(5) by (intro iso32_le) simp
  show "m (a + 25) = (if rec_dir r then 2 else 0)" using peek_nth [OF p, of 25] len e0(2) by simp
  show m32: "m (a + 32) = of_nat ?n" using peek_nth [OF p, of 32] len n e0(3) by simp
  show "unat (m (a + 32)) = ?n" using m32 n by (simp add: unat_of_nat take_bit_nat_eq_self)
  show "peek m (a + 33) ?n = rec_name r" using peek_sub [OF p, of 33 ?n] len e0(6) by simp
qed

lemma iso_name_len_base:
  assumes "peek m (a + 33) (length name) = name" and "unat (m (a + 32)) = length name"
  shows "iso_name_len m a = length (iso_base name)" "peek m (a + 33) (length (iso_base name)) = iso_base name"
proof -
  have nth: "m (a + 33 + i) = name ! i" if "i < length name" for i using peek_nth [OF assms(1) that] .
  have l: "length (iso_base name) \<le> length name" by (simp add: iso_base_def Let_def)
  have t: "take (length (iso_base name)) name = iso_base name" by (simp add: iso_base_def Let_def)
  show "peek m (a + 33) (length (iso_base name)) = iso_base name"
    using peek_sub [OF assms(1), of 0 "length (iso_base name)"] l t by simp
  show "iso_name_len m a = length (iso_base name)"
  proof (cases "2 < length name")
    case True
    have "m (a + 33 + length name - 2) = name ! (length name - 2)" "m (a + 33 + length name - 1) = name ! (length name - 1)"
      "m (a + 33 + (length name - 2) - 1) = name ! (length name - 3)"
      using nth [of "length name - 2"] nth [of "length name - 1"] nth [of "length name - 3"] True by (simp_all add: numeral_3_eq_3 numeral_2_eq_2 Suc_diff_Suc)
    then show ?thesis using assms(2) True by (simp add: iso_name_len_def iso_base_def Let_def)
  next
    case False
    then show ?thesis using assms(2) by (simp add: iso_name_len_def iso_base_def Let_def)
  qed
qed

text \<open>A record of this form has no Rock Ridge entries: the search for them ends at once.\<close>

lemma iso_extensions_none:
  assumes "peek (fsys_buf d) a (length (iso_encode r)) = iso_encode r" and "iso_rec_ok r" and "even a"
  shows "iso_extensions b a d = Some \<lparr>rr_dev = d, rr_name = a + 33, rr_name_len = of_nat (length (iso_base (rec_name r))),
     rr_file_type = (if rec_dir r then ISO_DIRECTORY else ISO_REGULAR), rr_flag = 9, rr_ce = None,
     rr_ptr = (if odd (a + length (rec_name r) + 33) then a + length (rec_name r) + 34 else a + length (rec_name r) + 33), rr_len = 0\<rparr>"
proof -
  let ?m = "fsys_buf d" and ?n = "length (rec_name r)"
  note f = iso_fields [OF assms(1,2)]
  have n: "?n \<le> 220" using assms(2) by (simp add: iso_rec_ok_def)
  have "(ucast (?m a) :: u32) = of_nat (length (iso_encode r))" "(ucast (?m (a + 32)) :: u32) = of_nat ?n"
    using f(1,7) of_nat_unat [of "?m a", where ?'a = "32 word"] of_nat_unat [of "?m (a + 32)", where ?'a = "32 word"] by simp_all
  then have rest: "ucast (?m a) - ucast (?m (a + 32)) - 34 + 1 = (if even ?n then 1 else 0 :: u32)"
    by (simp add: iso_encode_length)
  have odd: "odd (a + ?n + 33) \<longleftrightarrow> even ?n" using assms(3) by simp
  have nl: "iso_name_len ?m a = length (iso_base (rec_name r))" using iso_name_len_base [OF f(8,7)] by simp
  have ft: "(?m (a + 25) AND 2 \<noteq> 0) = rec_dir r" using f(5) by simp
  show ?thesis
    unfolding iso_extensions_def Let_def rest f(7) nl ft by (subst rr_loop.simps) (use odd in simp)
qed

section \<open>Searching a directory\<close>

text \<open>A path component that can be looked up.\<close>

definition iso_name_ok :: "u8 list \<Rightarrow> bool" where
  "iso_name_ok name \<longleftrightarrow> name \<noteq> [] \<and> name \<noteq> [1] \<and> length name < 1500 \<and> list_all (\<lambda>c. \<not> ends_name c) name"

lemma ends_name_zero: "ends_name 0" "ends_name 0x2f"
  by (simp_all add: ends_name_def)

lemma iso_name_ok_zero: "iso_name_ok name \<Longrightarrow> 0 \<notin> set name"
  using ends_name_zero by (auto simp: iso_name_ok_def list_all_iff)

lemma iso_record_lookup:
  assumes "peek (fsys_buf d) a (length (iso_encode r)) = iso_encode r" and "iso_rec_ok r" and "even a" and "iso_name_ok name"
  shows "\<exists>fm'. iso_record b (name @ [0]) (length name) 0 a (d, 0, fm) =
    Some (if iso_base (rec_name r) \<noteq> name then (Iso_Next, d, 0, fm')
          else if rec_dir r then (Iso_Return False, set_err ERR_BAD_FILETYPE d, 0, fm')
          else (Iso_Return True, d\<lparr>fsys_buf := poke (fsys_buf d) 4 (le_bytes (rec_extent r))\<rparr>, 0, c_int (uint (rec_size r))))"
proof -
  let ?m = "fsys_buf d" and ?base = "iso_base (rec_name r)"
  note f = iso_fields [OF assms(1,2)]
  note nb = iso_name_len_base [OF f(8,7)]
  have name: "name \<noteq> []" "name \<noteq> [1]" "length name < 1500" "0 \<notin> set name"
    using assms(4) iso_name_ok_zero [OF assms(4)] by (auto simp: iso_name_ok_def)
  show ?thesis
  proof (cases "?m (a + 32) = 1 \<and> (?m (a + 33) = 0 \<or> ?m (a + 33) = 1)")
    case True
    then have "length (rec_name r) = 1" using f(7) by simp
    then obtain x where x: "rec_name r = [x]" by (auto simp: length_Suc_conv)
    then have "x = ?m (a + 33)" using peek_nth [OF f(8), of 0] by simp
    then have "?base \<noteq> name" using True name x by (auto simp: iso_base_def)
    then show ?thesis using True by (auto simp: iso_record_def)
  next
    case False
    have l: "length ?base \<le> 220" using assms(2) by (auto simp: iso_base_def Let_def iso_rec_ok_def)
    have le: "(of_nat (length name) :: u32) \<le> of_nat (length ?base) \<longleftrightarrow> length name \<le> length ?base"
      "(of_nat (length name) :: u32) = of_nat (length ?base) \<longleftrightarrow> length name = length ?base"
      using l name(3) by (simp_all add: word_le_nat_alt word_unat_eq_iff unat_of_nat take_bit_nat_eq_self)
    have pk: "peek ?m (a + 33) (length name) = take (length name) ?base" if "length name \<le> length ?base"
      using peek_sub [OF nb(2), of 0 "length name"] that by simp
    obtain s where ext: "iso_extensions b a d = Some s"
      and s: "rr_dev s = d" "rr_name s = a + 33" "rr_name_len s = of_nat (length ?base)" "rr_file_type s = (if rec_dir r then ISO_DIRECTORY else ISO_REGULAR)"
      using iso_extensions_none [OF assms(1-3), of b] by simp
    have rec1: "iso_record b (name @ [0]) (length name) 0 a (d, 0, fm) = iso_match (name @ [0]) (length name) 0 a s 0"
      unfolding iso_record_def prod.case if_not_P [OF False] ext by simp
    have "iso_match (name @ [0]) (length name) 0 a s 0 =
      Some (if ?base \<noteq> name then (Iso_Next, d, 0, uint MAXINT)
          else if rec_dir r then (Iso_Return False, set_err ERR_BAD_FILETYPE d, 0, uint MAXINT)
          else (Iso_Return True, d\<lparr>fsys_buf := poke ?m 4 (le_bytes (rec_extent r))\<rparr>, 0, c_int (uint (rec_size r))))"
    proof (cases "length name \<le> length ?base \<and> take (length name) ?base = name")
      case True
      then have "peek ?m (a + 33) (length name) = name" using pk by simp
      moreover have "?base = name \<longleftrightarrow> length name = length ?base" using True by auto
      ultimately show ?thesis
        using True f(3) by (simp add: iso_match_def Let_def s le f(4) ISO_DIRECTORY_def ISO_REGULAR_def)
    next
      case no: False
      then have "\<not> (length name \<le> length ?base \<and> peek ?m (a + 33) (length name) = name)" using pk by auto
      moreover have "?base \<noteq> name" using no by auto
      ultimately show ?thesis by (simp add: iso_match_def Let_def s le)
    qed
    then show ?thesis unfolding rec1 by blast
  qed
qed

text \<open>A sector of a directory: records, and a byte 0 behind them.\<close>

definition iso_dir_bytes :: "iso_rec list \<Rightarrow> u8 list" where
  "iso_dir_bytes recs = concat (map iso_encode recs) @ [0]"

lemma iso_dir_bytes_Cons: "iso_dir_bytes (r # recs) = iso_encode r @ iso_dir_bytes recs"
  by (simp add: iso_dir_bytes_def)

definition iso_find :: "u8 list \<Rightarrow> iso_rec list \<Rightarrow> iso_rec option" where
  "iso_find name recs = find (\<lambda>r. iso_base (rec_name r) = name) recs"

lemma peek_parts:
  assumes "peek m a (length xs + length ys) = xs @ ys"
  shows "peek m a (length xs) = xs" "peek m (a + length xs) (length ys) = ys"
  using peek_sub [OF assms, of 0 "length xs"] peek_sub [OF assms, of "length xs" "length ys"] by simp_all

lemma iso_records_lookup:
  assumes "peek (fsys_buf d) a (length (iso_dir_bytes recs)) = iso_dir_bytes recs" and "list_all iso_rec_ok recs" and "even a"
    and "a + length (iso_dir_bytes recs) \<le> FSYS_BUFLEN" and "iso_name_ok name"
  shows "\<exists>a' fm'. iso_records b (name @ [0]) (length name) 0 a (d, 0, fm) = Some (case iso_find name recs of
      None \<Rightarrow> (Iso_Next, a', d, 0, fm')
    | Some r \<Rightarrow> if rec_dir r then (Iso_Return False, a', set_err ERR_BAD_FILETYPE d, 0, fm')
        else (Iso_Return True, a', d\<lparr>fsys_buf := poke (fsys_buf d) 4 (le_bytes (rec_extent r))\<rparr>, 0, c_int (uint (rec_size r))))"
  using assms
proof (induction recs arbitrary: a fm)
  case Nil
  then have "fsys_buf d a = 0" by (simp add: iso_dir_bytes_def peek_def)
  moreover have "\<not> FSYS_BUFLEN \<le> a" using Nil.prems(4) by (simp add: iso_dir_bytes_def)
  ultimately show ?case by (subst iso_records.simps) (simp add: iso_find_def)
next
  case (Cons r recs)
  have pk: "peek (fsys_buf d) a (length (iso_encode r)) = iso_encode r"
    "peek (fsys_buf d) (a + length (iso_encode r)) (length (iso_dir_bytes recs)) = iso_dir_bytes recs"
    using peek_parts [of "fsys_buf d" a "iso_encode r" "iso_dir_bytes recs"] Cons.prems(1) by (simp_all add: iso_dir_bytes_Cons)
  have ok: "iso_rec_ok r" "list_all iso_rec_ok recs" using Cons.prems(2) by auto
  note f = iso_fields [OF pk(1) ok(1)]
  have top: "\<not> FSYS_BUFLEN \<le> a" "a + length (iso_encode r) + length (iso_dir_bytes recs) \<le> FSYS_BUFLEN"
    using Cons.prems(4) by (auto simp: iso_dir_bytes_Cons iso_encode_length)
  obtain fm' where rec1: "iso_record b (name @ [0]) (length name) 0 a (d, 0, fm) =
    Some (if iso_base (rec_name r) \<noteq> name then (Iso_Next, d, 0, fm')
          else if rec_dir r then (Iso_Return False, set_err ERR_BAD_FILETYPE d, 0, fm')
          else (Iso_Return True, d\<lparr>fsys_buf := poke (fsys_buf d) 4 (le_bytes (rec_extent r))\<rparr>, 0, c_int (uint (rec_size r))))"
    using iso_record_lookup [OF pk(1) ok(1) Cons.prems(3,5)] by blast
  show ?case
  proof (cases "iso_base (rec_name r) = name")
    case True
    then show ?thesis using rec1 f(2) top(1) by (subst iso_records.simps) (auto simp: iso_find_def)
  next
    case False
    have "iso_records b (name @ [0]) (length name) 0 a (d, 0, fm)
        = iso_records b (name @ [0]) (length name) 0 (a + length (iso_encode r)) (d, 0, fm')"
      using rec1 f(1,2) top(1) False by (subst iso_records.simps) simp
    moreover have "even (a + length (iso_encode r))" using Cons.prems(3) iso_encode_even by simp
    ultimately show ?thesis
      using Cons.IH [OF pk(2) ok(2) _ top(2) Cons.prems(5), of fm'] False by (simp add: iso_find_def)
  qed
qed

text \<open>What loading sectors of a directory changes: the disk layer, and the memory from 4096 on.\<close>

definition iso_moved :: "'w dev_state \<Rightarrow> 'w dev_state \<Rightarrow> bool" where
  "iso_moved d d' \<longleftrightarrow> (\<exists>st m. d' = d\<lparr>disk := st, fsys_buf := m\<rparr> \<and> (\<forall>k < 4096. m k = fsys_buf d k))"

lemma iso_moved_refl: "iso_moved d d"
  unfolding iso_moved_def by (intro exI [of _ "disk d"] exI [of _ "fsys_buf d"]) simp

lemma iso_moved_trans: "iso_moved d d1 \<Longrightarrow> iso_moved d1 d2 \<Longrightarrow> iso_moved d d2"
  unfolding iso_moved_def by (elim exE conjE, intro exI conjI) (simp, simp)

text \<open>The sectors of a directory on the disk.\<close>

definition iso_sectors :: "u8 list \<Rightarrow> int \<Rightarrow> u32 \<Rightarrow> nat \<Rightarrow> iso_rec list list \<Rightarrow> bool" where
  "iso_sectors bytes ss start e blks \<longleftrightarrow> (\<forall>i < length blks. list_all iso_rec_ok (blks ! i) \<and> length (iso_dir_bytes (blks ! i)) \<le> 2048
     \<and> take (length (iso_dir_bytes (blks ! i))) (iso_block bytes ss start (e + i)) = iso_dir_bytes (blks ! i))"

lemma iso_sectors_Cons:
  "iso_sectors bytes ss start e (blk # blks) \<longleftrightarrow> list_all iso_rec_ok blk \<and> length (iso_dir_bytes blk) \<le> 2048
     \<and> take (length (iso_dir_bytes blk)) (iso_block bytes ss start e) = iso_dir_bytes blk \<and> iso_sectors bytes ss start (Suc e) blks"
  by (auto simp: iso_sectors_def nth_Cons' less_Suc_eq_0_disj all_conj_distrib split: if_splits)

definition iso_result :: "'w dev_state \<Rightarrow> u8 list \<Rightarrow> iso_rec list \<Rightarrow> (iso_outcome \<times> nat \<times> 'w iso_search) \<Rightarrow> ('w dev_state \<Rightarrow> bool) \<Rightarrow> bool" where
  "iso_result d name recs res good \<longleftrightarrow> (\<exists>a d' fm. iso_moved d d' \<and> good d' \<and> res = (case iso_find name recs of
      None \<Rightarrow> (Iso_Next, a, d', 0, fm)
    | Some r \<Rightarrow> if rec_dir r then (Iso_Return False, a, set_err ERR_BAD_FILETYPE d', 0, fm)
        else (Iso_Return True, a, d'\<lparr>fsys_buf := poke (fsys_buf d') 4 (le_bytes (rec_extent r))\<rparr>, 0, c_int (uint (rec_size r)))))"

lemma iso_find_append: "iso_find name (xs @ ys) = (case iso_find name xs of None \<Rightarrow> iso_find name ys | Some r \<Rightarrow> Some r)"
  by (induction xs) (auto simp: iso_find_def)

context sector_device
begin

lemma iso_extents_lookup:
  assumes "iso_dev b contents ok_geom w drive lim start ss d" and "iso_sectors (contents w drive) ss start e blks"
    and "uint start * ss + int (e + length blks) * 2048 \<le> lim * ss" and "iso_name_ok name"
  shows "\<exists>res. iso_extents b (name @ [0]) (length name) 0 (2048 * int (length blks)) (of_nat e) (d, 0, fm) = Some res
    \<and> iso_result d name (concat blks) res (iso_dev b contents ok_geom w drive lim start ss)"
  using assms
proof (induction blks arbitrary: d e fm)
  case Nil
  then show ?case
    by (subst iso_extents.simps) (auto simp: iso_result_def iso_find_def intro!: exI [of _ d] iso_moved_refl)
next
  case (Cons blk blks)
  note sec = Cons.prems(2) [unfolded iso_sectors_Cons]
  let ?block = "iso_block (contents w drive) ss start e" and ?bytes = "iso_dir_bytes blk"
  have pos: "0 \<le> uint start * ss" using iso_ss [OF Cons.prems(1)] by auto
  have in_e: "uint start * ss + int e * 2048 + 2048 \<le> lim * ss" using Cons.prems(3) by (simp add: algebra_simps)
  have "int e * 2048 < lim * ss" "lim < 2 ^ 29" using in_e pos Cons.prems(1) by (linarith, simp add: iso_dev_def)
  then have "int e < 2 ^ 29" using iso_ss [OF Cons.prems(1)] by auto
  then have e: "c_int (uint (of_nat e :: u32)) = int e" by (simp add: uint_nat unat_of_nat take_bit_nat_eq_self c_int_small nat_less_iff)
  have e1: "(of_nat e :: u32) + 1 = of_nat (Suc e)" by simp
  obtain st where st: "iso_load b (int e) 4096 d = Some (True, d\<lparr>disk := st, fsys_buf := poke (fsys_buf d) 4096 ?block\<rparr>)"
    "iso_dev b contents ok_geom w drive lim start ss (d\<lparr>disk := st\<rparr>)"
    using iso_load_spec [OF Cons.prems(1) in_e] by blast
  let ?d = "d\<lparr>disk := st, fsys_buf := poke (fsys_buf d) 4096 ?block\<rparr>"
  have bl: "length ?block = 2048" by (rule iso_block_length [OF Cons.prems(1) in_e])
  have moved: "iso_moved d ?d" unfolding iso_moved_def by (intro exI conjI) (rule refl, simp add: poke_apply)
  have dev: "iso_dev b contents ok_geom w drive lim start ss ?d" using st(2) by simp
  have "peek (fsys_buf ?d) 4096 2048 = ?block" using peek_poke [of "fsys_buf d" 4096 ?block] bl by simp
  then have pk: "peek (fsys_buf ?d) 4096 (length ?bytes) = ?bytes" using take_peek [of "length ?bytes" 2048 "fsys_buf ?d" 4096] sec by simp
  obtain a fm' where rec1: "iso_records b (name @ [0]) (length name) 0 4096 (?d, 0, fm) = Some (case iso_find name blk of
      None \<Rightarrow> (Iso_Next, a, ?d, 0, fm')
    | Some r \<Rightarrow> if rec_dir r then (Iso_Return False, a, set_err ERR_BAD_FILETYPE ?d, 0, fm')
        else (Iso_Return True, a, ?d\<lparr>fsys_buf := poke (fsys_buf ?d) 4 (le_bytes (rec_extent r))\<rparr>, 0, c_int (uint (rec_size r))))"
    using iso_records_lookup [OF pk _ _ _ Cons.prems(4), of b fm] sec by (auto simp: FSYS_BUFLEN_def)
  have more: "2048 * int (length (blk # blks)) - 2048 = 2048 * int (length blks)" by simp
  have step: "iso_extents b (name @ [0]) (length name) 0 (2048 * int (length (blk # blks))) (of_nat e) (d, 0, fm)
      = (case iso_find name blk of
           None \<Rightarrow> iso_extents b (name @ [0]) (length name) 0 (2048 * int (length blks)) (of_nat (Suc e)) (?d, 0, fm')
         | Some r \<Rightarrow> Some (if rec_dir r then (Iso_Return False, a, set_err ERR_BAD_FILETYPE ?d, 0, fm')
            else (Iso_Return True, a, ?d\<lparr>fsys_buf := poke (fsys_buf ?d) 4 (le_bytes (rec_extent r))\<rparr>, 0, c_int (uint (rec_size r)))))"
    using rec1 st(1) e e1 more
    by (subst iso_extents.simps) (auto simp: ISO_SECTOR_SIZE_def split: option.splits simp del: of_nat_Suc)
  show ?case
  proof (cases "iso_find name blk")
    case None
    have in2: "uint start * ss + int (Suc e + length blks) * 2048 \<le> lim * ss" using Cons.prems(3) by simp
    obtain res where "iso_extents b (name @ [0]) (length name) 0 (2048 * int (length blks)) (of_nat (Suc e)) (?d, 0, fm') = Some res"
      "iso_result ?d name (concat blks) res (iso_dev b contents ok_geom w drive lim start ss)"
      using Cons.IH [OF dev _ in2 Cons.prems(4)] sec by blast
    with step None moved show ?thesis by (auto simp: iso_result_def iso_find_append intro: iso_moved_trans)
  next
    case (Some r)
    then show ?thesis unfolding step using moved dev by (auto simp: iso_result_def iso_find_append)
  qed
qed

end

text \<open>
  A mounted volume: the root record of the volume descriptor in memory gives the sectors of the root directory.
\<close>

definition iso_mounted :: "'w int13 \<Rightarrow> ('w \<Rightarrow> int \<Rightarrow> u8 list) \<Rightarrow> ('w \<Rightarrow> int \<Rightarrow> geometry \<Rightarrow> bool) \<Rightarrow> 'w \<Rightarrow> int \<Rightarrow> int \<Rightarrow> u32 \<Rightarrow> int
    \<Rightarrow> iso_rec list list \<Rightarrow> 'w dev_state \<Rightarrow> bool" where
  "iso_mounted b contents ok_geom w drive lim start ss blks d \<longleftrightarrow> iso_dev b contents ok_geom w drive lim start ss d
     \<and> (let e = unat (iso32 (fsys_buf d) 2206)
        in iso_sectors (contents w drive) ss start e blks \<and> uint start * ss + int (e + length blks) * 2048 \<le> lim * ss
           \<and> c_int (uint (iso32 (fsys_buf d) 2214)) = 2048 * int (length blks))"

lemma iso32_cong: "(\<And>i. i < 4 \<Longrightarrow> m' (a + i) = m (a + i)) \<Longrightarrow> iso32 m' a = iso32 m a"
proof -
  assume m: "\<And>i. i < 4 \<Longrightarrow> m' (a + i) = m (a + i)"
  have "m' k = m k" if "a \<le> k" "k < a + 4" for k using m [of "k - a"] that by simp
  then have "map m' [a..<a + 4] = map m [a..<a + 4]" by (intro map_cong) auto
  then show ?thesis by (simp only: iso32_def peek_def)
qed

lemma iso_moved_32: "iso_moved d d' \<Longrightarrow> a + 4 \<le> 4096 \<Longrightarrow> iso32 (fsys_buf d') a = iso32 (fsys_buf d) a"
  by (auto simp: iso_moved_def intro: iso32_cong)

lemma iso_poke_32: "length bs \<le> 4 \<Longrightarrow> 8 \<le> a \<Longrightarrow> iso32 (poke m 4 bs) a = iso32 m a"
  by (rule iso32_cong) (simp add: poke_apply)

context sector_device
begin

lemma iso_dir_lookup:
  assumes "iso_mounted b contents ok_geom w drive lim start ss blks d" and "iso_name_ok name"
  shows "\<exists>d' fm'. iso_moved (d\<lparr>fsys_buf := poke (fsys_buf d) 4 [0, 0, 0, 0]\<rparr>) d' \<and> iso_dev b contents ok_geom w drive lim start ss d'
    \<and> iso9660_dir b False (0x2f # name @ [0]) fm d = Some (case iso_find name (concat blks) of
        None \<Rightarrow> (False, fm', set_err ERR_FILE_NOT_FOUND d')
      | Some r \<Rightarrow> if rec_dir r then (False, fm', set_err ERR_BAD_FILETYPE d')
          else (True, c_int (uint (rec_size r)), d'\<lparr>fsys_buf := poke (fsys_buf d') 4 (le_bytes (rec_extent r))\<rparr>))"
proof -
  let ?d = "d\<lparr>fsys_buf := poke (fsys_buf d) 4 [0, 0, 0, 0]\<rparr>"
  define e where "e = unat (iso32 (fsys_buf d) 2206)"
  have m: "iso_dev b contents ok_geom w drive lim start ss ?d" "iso_sectors (contents w drive) ss start e blks"
    "uint start * ss + int (e + length blks) * 2048 \<le> lim * ss" "c_int (uint (iso32 (fsys_buf d) 2214)) = 2048 * int (length blks)"
    using assms(1) by (auto simp: iso_mounted_def Let_def e_def)
  have root: "iso32 (fsys_buf ?d) 2206 = of_nat e" "iso32 (fsys_buf ?d) 2214 = iso32 (fsys_buf d) 2214"
    using iso_poke_32 [of "[0, 0, 0, 0]" _ "fsys_buf d"] by (simp_all add: e_def del: poke.simps)
  obtain x xs where name: "name = x # xs" "\<not> ends_name x" using assms(2) by (cases name) (auto simp: iso_name_ok_def)
  have "x \<noteq> 0x2f" using name(2) ends_name_zero by auto
  then have dn: "dropWhile (\<lambda>c. c = 0x2f) (0x2f # name @ [0]) = name @ [0]" by (simp add: name)
  have "takeWhile (\<lambda>c. \<not> ends_name c) (name @ [0]) = name"
    using assms(2) ends_name_zero by (simp add: iso_name_ok_def list_all_iff takeWhile_append)
  then have pl: "length (takeWhile (\<lambda>c. \<not> ends_name c) (name @ [0])) = length name" by simp
  have c: "rd (name @ [0]) (length name) = Some 0" by (simp add: rd_def nth_append)
  obtain res where res: "iso_extents b (name @ [0]) (length name) 0 (2048 * int (length blks)) (of_nat e) (?d, 0, fm) = Some res"
    "iso_result ?d name (concat blks) res (iso_dev b contents ok_geom w drive lim start ss)"
    using iso_extents_lookup [OF m(1-3) assms(2)] by blast
  obtain a d' fm' where r: "iso_moved ?d d'" "iso_dev b contents ok_geom w drive lim start ss d'" "res = (case iso_find name (concat blks) of
      None \<Rightarrow> (Iso_Next, a, d', 0, fm')
    | Some r \<Rightarrow> if rec_dir r then (Iso_Return False, a, set_err ERR_BAD_FILETYPE d', 0, fm')
        else (Iso_Return True, a, d'\<lparr>fsys_buf := poke (fsys_buf d') 4 (le_bytes (rec_extent r))\<rparr>, 0, c_int (uint (rec_size r))))"
    using res(2) by (auto simp: iso_result_def)
  have walk: "iso_walk b (0x2f # name @ [0]) 2204 (?d, 0, fm)
      = (case res of (r, idr', d2, pp, fm2) \<Rightarrow> case r of
          Iso_Return ok \<Rightarrow> Some (ok, d2, pp, fm2)
        | Iso_Descend \<Rightarrow> iso_walk b (drop (length name) (name @ [0])) idr' (d2, pp, fm2)
        | Iso_Next \<Rightarrow> if 0 \<le> pp then Some (False, set_err ERR_FILE_NOT_FOUND d2, pp, fm2) else Some (True, d2, pp, fm2))"
    using res(1) root m(4) unfolding iso_walk.simps [of b "0x2f # name @ [0]"] dn pl Let_def c by (simp del: poke.simps split: prod.split iso_outcome.split)
  have dir1: "iso9660_dir b False (0x2f # name @ [0]) fm d = map_option (\<lambda>(ok, d', pp, fmax). (ok, fmax, d')) (iso_walk b (0x2f # name @ [0]) 2204 (?d, 0, fm))"
    by (simp add: iso9660_dir_def)
  show ?thesis
    unfolding dir1 walk r(3) using r(1,2) by (intro exI [of _ d'] exI [of _ fm']) (auto split: option.split)
qed

end

section \<open>A volume as a file server\<close>

text \<open>The device variables agree with the mounted volume, whose driver is number \<open>n\<close> of the table.\<close>

definition iso_settled :: "nat \<Rightarrow> 'w dev_state \<Rightarrow> bool" where
  "iso_settled n d \<longleftrightarrow> fsys_type d = n \<and> saved_drive d = current_drive d \<and> saved_partition d = current_partition d
     \<and> fst (sane_partition d) \<and> 0 \<le> sint (current_drive d)"

lemma iso_settled_upd [simp]: "iso_settled n (d\<lparr>disk := st\<rparr>) = iso_settled n d" "iso_settled n (d\<lparr>fsys_buf := m\<rparr>) = iso_settled n d"
  by (auto simp: iso_settled_def sane_partition_def Let_def)

lemma sane_partition_fst: "fst (sane_partition d) \<Longrightarrow> sane_partition d = (True, d)"
  by (simp add: sane_partition_def Let_def split: if_splits)

text \<open>The contents of the file of a record, and the files of the root directory by their paths.\<close>

definition iso_content :: "u8 list \<Rightarrow> u32 \<Rightarrow> iso_rec \<Rightarrow> u8 list" where
  "iso_content bytes start r = slice bytes ((uint start + uint (rec_extent r)) * 2048) (uint (rec_size r))"

definition iso_rec_inside :: "u8 list \<Rightarrow> int \<Rightarrow> u32 \<Rightarrow> iso_rec \<Rightarrow> bool" where
  "iso_rec_inside bytes lim start r \<longleftrightarrow> \<not> rec_dir r \<and> rec_extent r \<noteq> 0 \<and> uint (rec_size r) < 2 ^ 31
     \<and> (uint start + uint (rec_extent r)) * 2048 + uint (rec_size r) \<le> min (lim * 2048) (int (length bytes))"

definition iso_files :: "u8 list \<Rightarrow> int \<Rightarrow> u32 \<Rightarrow> iso_rec list \<Rightarrow> u8 list \<Rightarrow> u8 list option" where
  "iso_files bytes lim start recs p =
     (case p of
        [] \<Rightarrow> None
      | c # name \<Rightarrow>
          if c = 0x2f \<and> iso_name_ok name \<and> length name < 1400
          then case iso_find name recs of
                 None \<Rightarrow> None
               | Some r \<Rightarrow> if iso_rec_inside bytes lim start r then Some (iso_content bytes start r) else None
          else None)"

text \<open>The volume is mounted, and a file with the given contents is open on it.\<close>

definition iso_serves :: "'w int13 \<Rightarrow> ('w \<Rightarrow> int \<Rightarrow> u8 list) \<Rightarrow> ('w \<Rightarrow> int \<Rightarrow> geometry \<Rightarrow> bool) \<Rightarrow> 'w \<Rightarrow> int \<Rightarrow> int \<Rightarrow> u32
    \<Rightarrow> iso_rec list list \<Rightarrow> nat \<Rightarrow> 'w dev_state \<Rightarrow> bool" where
  "iso_serves b contents ok_geom w drive lim start blks n d \<longleftrightarrow> iso_mounted b contents ok_geom w drive lim start 2048 blks d \<and> iso_settled n d"

definition iso_opened :: "'w int13 \<Rightarrow> ('w \<Rightarrow> int \<Rightarrow> u8 list) \<Rightarrow> ('w \<Rightarrow> int \<Rightarrow> geometry \<Rightarrow> bool) \<Rightarrow> 'w \<Rightarrow> int \<Rightarrow> int \<Rightarrow> u32
    \<Rightarrow> iso_rec list list \<Rightarrow> nat \<Rightarrow> u8 list \<Rightarrow> 'w dev_state \<Rightarrow> bool" where
  "iso_opened b contents ok_geom w drive lim start blks n content d \<longleftrightarrow> iso_serves b contents ok_geom w drive lim start blks n d
     \<and> (\<exists>r. iso_rec_inside (contents w drive) lim start r \<and> content = iso_content (contents w drive) start r
        \<and> iso32 (fsys_buf d) 4 = rec_extent r)"

lemma iso_content_length: "iso_rec_inside bytes lim start r \<Longrightarrow> int (length (iso_content bytes start r)) = uint (rec_size r)"
  using slice_full [of "(uint start + uint (rec_extent r)) * 2048" "uint (rec_size r)" bytes] by (simp add: iso_content_def iso_rec_inside_def)

lemma iso_mounted_cong:
  assumes "iso_mounted b contents ok_geom w drive lim start ss blks d" and "iso_dev b contents ok_geom w drive lim start ss d'"
    and "iso32 (fsys_buf d') 2206 = iso32 (fsys_buf d) 2206" and "iso32 (fsys_buf d') 2214 = iso32 (fsys_buf d) 2214"
  shows "iso_mounted b contents ok_geom w drive lim start ss blks d'"
  using assms by (simp add: iso_mounted_def Let_def)

lemma iso_moved_settled: "iso_moved d d' \<Longrightarrow> iso_settled n d \<Longrightarrow> iso_settled n d'"
  by (auto simp: iso_moved_def)

context sector_device
begin

lemma iso_opened_reader:
  assumes "n < length (fsys_table env)" and "fsys_table env ! n = iso9660_entry b"
  shows "fs_reader env content (iso_opened b contents ok_geom w drive lim start blks n content)"
proof
  fix d hook and pos len :: int
  assume d: "iso_opened b contents ok_geom w drive lim start blks n content d"
  then show "fsys_type d < length (fsys_table env)" "err_of d = ERR_NONE"
    using assms(1) by (auto simp: iso_opened_def iso_serves_def iso_settled_def iso_mounted_def iso_dev_def good_drive_def)
  assume r: "0 \<le> pos" "0 \<le> len" "pos + len \<le> int (length content)"
  obtain rc where rc: "iso_rec_inside (contents w drive) lim start rc" "content = iso_content (contents w drive) start rc"
    "iso32 (fsys_buf d) 4 = rec_extent rc"
    using d by (auto simp: iso_opened_def)
  have srv: "iso_mounted b contents ok_geom w drive lim start 2048 blks d" "iso_settled n d" using d by (auto simp: iso_opened_def iso_serves_def)
  have dev: "iso_dev b contents ok_geom w drive lim start 2048 d" using srv(1) by (simp add: iso_mounted_def)
  have len: "int (length content) = uint (rec_size rc)" using iso_content_length [OF rc(1)] rc(2) by simp
  have fs: "rec_extent rc \<noteq> 0" "(uint start + uint (rec_extent rc)) * 2048 + uint (rec_size rc) \<le> lim * 2048" using rc(1) by (auto simp: iso_rec_inside_def)
  let ?a = "(uint start + uint (rec_extent rc)) * 2048"
  obtain st where st: "iso9660_read b hook pos len d = Some (len, slice (contents w drive) (uint start * 2048 + uint (rec_extent rc) * 2048 + pos) len, pos + len, d\<lparr>disk := st\<rparr>)"
    "iso_dev b contents ok_geom w drive lim start 2048 (d\<lparr>disk := st\<rparr>)"
    using iso_read_disk [OF dev rc(3) fs(1) r(1,2), of hook] r(3) len fs(2) by (auto simp: algebra_simps)
  have "slice content pos len = slice (contents w drive) (?a + pos) len"
    unfolding rc(2) iso_content_def using r len by (intro slice_slice) auto
  moreover have "iso_opened b contents ok_geom w drive lim start blks n content (d\<lparr>disk := st\<rparr>)"
    using rc srv iso_mounted_cong [OF srv(1) st(2)] by (auto simp: iso_opened_def iso_serves_def)
  ultimately show "\<exists>d'. read_func (fsys_table env ! fsys_type d) hook pos len d = Some (len, slice content pos len, pos + len, d')
      \<and> iso_opened b contents ok_geom w drive lim start blks n content d'"
    using st(1) srv(2) assms(2) by (auto simp: iso_settled_def iso9660_entry_def algebra_simps)
qed

lemma iso_file_server:
  assumes "n < length (fsys_table env)" and "fsys_table env ! n = iso9660_entry b"
  shows "file_server env (iso_files (contents w drive) lim start (concat blks)) (iso_serves b contents ok_geom w drive lim start blks n)
    (iso_opened b contents ok_geom w drive lim start blks n)"
proof (rule file_server.intro)
  let ?srv = "iso_serves b contents ok_geom w drive lim start blks n" and ?opn = "iso_opened b contents ok_geom w drive lim start blks n"
  let ?files = "iso_files (contents w drive) lim start (concat blks)"
  show "saved_drive d = current_drive d \<and> saved_partition d = current_partition d \<and> buf_drive (disk d) \<noteq> -1
      \<and> sane_partition d = (True, d) \<and> err_of d = ERR_NONE \<and> fsys_type d < length (fsys_table env)" if "?srv d" for d
    using that assms(1) sane_partition_fst [of d]
    by (auto simp: iso_serves_def iso_settled_def iso_mounted_def iso_dev_def good_drive_def)
  show "p \<noteq> [] \<and> hd p = 0x2f \<and> 0 \<notin> set p \<and> length p < 1500" if "?files p = Some content" for p content
    using that iso_name_ok_zero by (auto simp: iso_files_def split: list.splits if_splits)
  show "fs_reader env content (?opn content)" if "?files p = Some content" for p content
    by (rule iso_opened_reader [OF assms])
  show "?srv d" if "?opn content d" for content d using that by (simp add: iso_opened_def)
  show "?srv (f d)" if "?opn content d" "close_func (fsys_table env ! fsys_type d) = Some f" for content d f
    using that assms(2) by (auto simp: iso_opened_def iso_serves_def iso_settled_def iso9660_entry_def)
  show "\<exists>d'. dir_func (fsys_table env ! fsys_type d) False (p @ [0]) fm d = Some (True, int (length content), d') \<and> ?opn content d'"
    if d: "?srv d" and p: "?files p = Some content" for d p content fm
  proof -
    obtain name r where nr: "p = 0x2f # name" "iso_name_ok name" "iso_find name (concat blks) = Some r"
      "iso_rec_inside (contents w drive) lim start r" "content = iso_content (contents w drive) start r"
      using p by (auto simp: iso_files_def split: list.splits if_splits option.splits)
    have srv: "iso_mounted b contents ok_geom w drive lim start 2048 blks d" "iso_settled n d" using d by (auto simp: iso_serves_def)
    obtain d' where d': "iso_moved (d\<lparr>fsys_buf := poke (fsys_buf d) 4 [0, 0, 0, 0]\<rparr>) d'" "iso_dev b contents ok_geom w drive lim start 2048 d'"
      "iso9660_dir b False (0x2f # name @ [0]) fm d = Some (True, c_int (uint (rec_size r)), d'\<lparr>fsys_buf := poke (fsys_buf d') 4 (le_bytes (rec_extent r))\<rparr>)"
      using iso_dir_lookup [OF srv(1) nr(2), of fm] nr(3,4) by (auto simp: iso_rec_inside_def)
    let ?d = "d'\<lparr>fsys_buf := poke (fsys_buf d') 4 (le_bytes (rec_extent r))\<rparr>"
    have keep: "iso32 (fsys_buf ?d) a = iso32 (fsys_buf d) a" if "8 \<le> a" "a + 4 \<le> 4096" for a
      using that iso_poke_32 [of "le_bytes (rec_extent r)" a "fsys_buf d'"] iso_poke_32 [of "[0, 0, 0, 0]" a "fsys_buf d"] iso_moved_32 [OF d'(1), of a]
      by (simp add: le_bytes_def del: poke.simps)
    have "peek (fsys_buf ?d) 4 4 = le_bytes (rec_extent r)"
      using peek_poke [of "fsys_buf d'" 4 "le_bytes (rec_extent r)"] by (simp add: le_bytes_def eval_nat_numeral del: poke.simps)
    then have "iso32 (fsys_buf ?d) 4 = rec_extent r" by (rule iso32_le)
    moreover have "iso_mounted b contents ok_geom w drive lim start 2048 blks ?d"
      using iso_mounted_cong [OF srv(1), of ?d] d'(2) keep by (simp del: poke.simps)
    moreover have "iso_settled n ?d" using iso_moved_settled [OF d'(1)] srv(2) by simp
    ultimately have "?opn content ?d" using nr(4,5) by (auto simp: iso_opened_def iso_serves_def)
    moreover have "c_int (uint (rec_size r)) = int (length content)"
      using iso_content_length [OF nr(4)] nr(4,5) by (simp add: iso_rec_inside_def c_int_def)
    ultimately show ?thesis using d'(3) srv(2) assms(2) nr(1) by (auto simp: iso_settled_def iso9660_entry_def)
  qed
qed

end

section \<open>Properties\<close>

text \<open>
  C29. \<open>iso9660_dir\<close> finds a file in the root directory. For a path of one component the driver returns; it succeeds if and only if the
  directory has a record of that name, its version left out, and the first such record is not a directory. Then the
  size of the file is the one of the record, and reads start at its extent.
\<close>

theorem iso9660_dir_finds:
  assumes "firmware b contents hds spt ssize"
    and "iso_mounted b contents (drive_geom hds spt ssize) w drive lim start ss blks d" and "iso_name_ok name"
  shows "\<exists>ok fm' d'. iso9660_dir b False (0x2f # name @ [0]) fm d = Some (ok, fm', d')
    \<and> (case iso_find name (concat blks) of
         None \<Rightarrow> \<not> ok \<and> err_of d' = ERR_FILE_NOT_FOUND
       | Some r \<Rightarrow> if rec_dir r then \<not> ok \<and> err_of d' = ERR_BAD_FILETYPE
           else ok \<and> fm' = c_int (uint (rec_size r)) \<and> iso32 (fsys_buf d') 4 = rec_extent r \<and> iso_dev b contents (drive_geom hds spt ssize) w drive lim start ss d')"
proof -
  obtain d' fm' where r: "iso_dev b contents (drive_geom hds spt ssize) w drive lim start ss d'"
    "iso9660_dir b False (0x2f # name @ [0]) fm d = Some (case iso_find name (concat blks) of
        None \<Rightarrow> (False, fm', set_err ERR_FILE_NOT_FOUND d')
      | Some r \<Rightarrow> if rec_dir r then (False, fm', set_err ERR_BAD_FILETYPE d')
          else (True, c_int (uint (rec_size r)), d'\<lparr>fsys_buf := poke (fsys_buf d') 4 (le_bytes (rec_extent r))\<rparr>))"
    using sector_device.iso_dir_lookup [OF firmware.device [OF assms(1)] assms(2,3), of fm] by blast
  have "iso32 (poke m 4 (le_bytes x)) 4 = x" for m x
    using peek_poke [of m 4 "le_bytes x"] by (intro iso32_le) (simp add: le_bytes_def eval_nat_numeral del: poke.simps)
  then show ?thesis using r by (auto simp: set_err_def split: option.split)
qed

text \<open>
  A volume with two files in its root directory: a check file \<open>/C\<close>, and the file \<open>/A\<close> that it lists twice, once with its
  hash and once with another one.
\<close>

definition pad_sector :: "u8 list \<Rightarrow> u8 list" where
  "pad_sector bs = bs @ replicate (2048 - length bs) 0"

definition vol_recs :: "iso_rec list" where
  "vol_recs = [\<lparr>rec_extent = 3, rec_size = 3, rec_dir = False, rec_name = [0x41]\<rparr>, \<lparr>rec_extent = 4, rec_size = 88, rec_dir = False, rec_name = [0x43]\<rparr>]"

definition vol_entries :: "(u8 list \<times> u8 list) list" where
  "vol_entries = [(hash_string (fips_sha1 [1, 2, 3]), [0x2f, 0x41]), (replicate 40 0x30, [0x2f, 0x41])]"

definition vol_image :: "u8 list" where
  "vol_image = replicate 4096 0 @ pad_sector (iso_dir_bytes vol_recs) @ pad_sector [1, 2, 3] @ pad_sector (chk_text vol_entries) @ replicate 20480 0"

definition vol_device :: "u8 list dev_state" where
  "vol_device = (cd_device 2 vol_image)\<lparr>fsys_buf := poke (poke (\<lambda>_. 0) 2206 (le_bytes 2)) 2214 (le_bytes 2048)\<rparr>"

definition vol_file :: "(u8 list, soft_pcrs) file_state" where
  "vol_file = (cd_file 2 vol_image 0 0)\<lparr>dev := vol_device\<rparr>"

lemma pad_sector_length: "length bs \<le> 2048 \<Longrightarrow> length (pad_sector bs) = 2048"
  by (simp add: pad_sector_def)

lemma vol_lengths: "length (iso_dir_bytes vol_recs) = 69" "length (chk_text vol_entries) = 88"
  by (simp_all add: iso_dir_bytes_def vol_recs_def iso_encode_length vol_entries_def chk_text_def hash_string_length)

lemma slice_middle: "length a = nat p \<Longrightarrow> length b = nat n \<Longrightarrow> 0 \<le> p \<Longrightarrow> 0 \<le> n \<Longrightarrow> slice (a @ b @ c) p n = b"
  by (simp add: slice_def)

lemma vol_sectors:
  "slice vol_image 4096 2048 = pad_sector (iso_dir_bytes vol_recs)" "slice vol_image 6144 3 = [1, 2, 3]" "slice vol_image 8192 88 = chk_text vol_entries"
  "length vol_image = 30720"
proof -
  note l = pad_sector_length vol_lengths
  show "slice vol_image 4096 2048 = pad_sector (iso_dir_bytes vol_recs)"
    unfolding vol_image_def by (rule slice_middle) (simp_all add: l)
  have e1: "vol_image = (replicate 4096 0 @ pad_sector (iso_dir_bytes vol_recs)) @ [1, 2, 3] @ replicate 2045 0 @ pad_sector (chk_text vol_entries) @ replicate 20480 0"
    by (simp add: vol_image_def pad_sector_def [of "[1, 2, 3]"])
  show "slice vol_image 6144 3 = [1, 2, 3]" unfolding e1 by (rule slice_middle) (simp_all add: l)
  have e2: "vol_image = (replicate 4096 0 @ pad_sector (iso_dir_bytes vol_recs) @ pad_sector [1, 2, 3]) @ chk_text vol_entries @ replicate 1960 0 @ replicate 20480 0"
    by (simp add: vol_image_def pad_sector_def [of "chk_text vol_entries"] vol_lengths)
  show "slice vol_image 8192 88 = chk_text vol_entries" unfolding e2 by (rule slice_middle) (simp_all add: l)
  show "length vol_image = 30720" by (simp add: vol_image_def l)
qed

lemma hex_nibble_not: "hex_nibble (x AND 0xf) \<noteq> 0x55 \<and> hex_nibble (x AND 0xf) \<noteq> 0x1f"
proof -
  define k where "k = unat (x AND 0xf)"
  have "x AND 0xf = take_bit 4 x" by (simp add: take_bit_eq_mask mask_eq_exp_minus_1)
  then have k: "k < 16" by (simp add: k_def unsigned_take_bit_eq take_bit_nat_def)
  have w: "x AND 0xf = of_nat k" by (simp add: k_def)
  have "k \<in> set [0..<16]" using k by simp
  then show ?thesis unfolding w hex_nibble_def by (auto simp: upt_rec)
qed

lemma hash_string_chars: "c \<in> set (hash_string h) \<Longrightarrow> c \<noteq> 0x55 \<and> c \<noteq> 0x1f"
  using hex_nibble_not by (auto simp: hash_string_def)

lemma vol_text: "0x55 \<notin> set (chk_text vol_entries)" "\<not> gzipped (chk_text vol_entries)"
proof -
  show "0x55 \<notin> set (chk_text vol_entries)" using hash_string_chars [of "0x55"] by (auto simp: chk_text_def vol_entries_def)
  obtain c cs where c: "hash_string (fips_sha1 [1, 2, 3]) = c # cs" "length cs = 39"
    using hash_string_length [of "fips_sha1 [1, 2, 3]"] by (cases "hash_string (fips_sha1 [1, 2, 3])") auto
  then have "c \<noteq> 0x1f" using hash_string_chars [of c "fips_sha1 [1, 2, 3]"] by auto
  have b: "bit (le16 (chk_text vol_entries) 0) i = bit c i" if "i < 8" for i
    using that by (simp add: chk_text_def vol_entries_def c(1) le16_def bit_simps)
  have "le16 (chk_text vol_entries) 0 \<noteq> x" if "ucast x = (0x1f :: u8)" for x :: u32
  proof
    assume "le16 (chk_text vol_entries) 0 = x"
    then have "ucast x = c" using b by (intro bit_word_eqI) (auto simp: bit_simps)
    with that \<open>c \<noteq> 0x1f\<close> show False by simp
  qed
  from this [of "0x8B1F"] this [of "0x9E1F"] show "\<not> gzipped (chk_text vol_entries)" by (simp add: gzipped_def)
qed

lemma vol_plain: "0x55 \<notin> set vol_image"
  using vol_text(1)
  by (auto simp: vol_image_def pad_sector_def iso_dir_bytes_def vol_recs_def iso_encode_def le_bytes_def)

abbreviation "vol_serves \<equiv> iso_serves cd_int13 cd_contents cd_geom vol_image 0xE0 15 0 [vol_recs] 0"
abbreviation "vol_opened \<equiv> iso_opened cd_int13 cd_contents cd_geom vol_image 0xE0 15 0 [vol_recs] 0"
abbreviation "vol_files \<equiv> iso_files (cd_contents vol_image 0xE0) 15 0 (concat [vol_recs])"

interpretation vol: file_server cd_base vol_files vol_serves vol_opened
  by (rule cd.dev.iso_file_server) (simp_all add: cd_base_def)

lemma vol_device_serves: "vol_serves vol_device"
proof -
  have dev: "iso_dev cd_int13 cd_contents cd_geom vol_image 0xE0 15 0 2048 vol_device"
    using cd_device_file [of vol_image 1 2] vol_sectors(4) plain_bytes [OF vol_plain, of "0x80"] by (simp add: vol_device_def iso_file_def)
  have "peek (fsys_buf vol_device) 2214 4 = le_bytes 2048" "peek (fsys_buf vol_device) 2206 4 = le_bytes 2"
    using peek_poke [of _ 2214 "le_bytes 2048"] peek_poke [of _ 2206 "le_bytes 2"] peek_poke_other [of 2206 4 2214 "le_bytes 2048"]
    by (simp_all add: vol_device_def le_bytes_def eval_nat_numeral del: poke.simps)
  then have root: "iso32 (fsys_buf vol_device) 2214 = 2048" "iso32 (fsys_buf vol_device) 2206 = 2" by (simp_all add: iso32_le)
  have block: "iso_block (cd_contents vol_image 0xE0) 2048 0 2 = pad_sector (iso_dir_bytes vol_recs)"
    using vol_sectors(1) by (simp add: iso_block_def cd_contents_def)
  have "list_all iso_rec_ok vol_recs" by (simp add: vol_recs_def iso_rec_ok_def)
  moreover have "take (length (iso_dir_bytes vol_recs)) (pad_sector (iso_dir_bytes vol_recs)) = iso_dir_bytes vol_recs" by (simp add: pad_sector_def)
  ultimately have "iso_sectors (cd_contents vol_image 0xE0) 2048 0 2 [vol_recs]"
    unfolding iso_sectors_Cons block by (simp add: vol_lengths iso_sectors_def)
  then have "iso_mounted cd_int13 cd_contents cd_geom vol_image 0xE0 15 0 2048 [vol_recs] vol_device"
    using dev root by (simp add: iso_mounted_def c_int_def)
  moreover have "iso_settled 0 vol_device"
    by (simp add: iso_settled_def vol_device_def cd_device_def sane_partition_def Let_def NETWORK_DRIVE_def)
  ultimately show ?thesis by (simp add: iso_serves_def)
qed

lemma iso9660_dir_finds_witness:
  "\<exists>d'. iso9660_dir cd_int13 False [0x2f, 0x43, 0] 0 vol_device = Some (True, 88, d') \<and> iso32 (fsys_buf d') 4 = 4"
proof -
  have m: "iso_mounted cd_int13 cd_contents cd_geom vol_image 0xE0 15 0 2048 [vol_recs] vol_device"
    using vol_device_serves by (simp add: iso_serves_def)
  have "iso_name_ok [0x43]" by (simp add: iso_name_ok_def ends_name_def grub_isspace_def)
  moreover have "iso_find [0x43] (concat [vol_recs]) = Some \<lparr>rec_extent = 4, rec_size = 88, rec_dir = False, rec_name = [0x43]\<rparr>"
    by (simp add: iso_find_def vol_recs_def iso_base_def)
  ultimately show ?thesis
    using iso9660_dir_finds [OF cd.firmware_axioms m, of "[0x43]" 0] by (auto simp: c_int_def)
qed

definition vol_junk :: stack_junk where
  "vol_junk = \<lparr>fn_junk = [], ctx_junk = blank_context, tcgbuffer_junk = replicate 4096 0, hash_junk = replicate 5 0, data_junk = replicate 8192 0\<rparr>"

lemma vol_contents: "vol_files [0x2f, 0x41] = Some [1, 2, 3]" "vol_files [0x2f, 0x43] = Some (chk_text vol_entries)"
proof -
  have ok: "iso_name_ok [0x41]" "iso_name_ok [0x43]" by (simp_all add: iso_name_ok_def ends_name_def grub_isspace_def)
  show "vol_files [0x2f, 0x41] = Some [1, 2, 3]" "vol_files [0x2f, 0x43] = Some (chk_text vol_entries)"
    using ok vol_sectors
    by (simp_all add: iso_files_def iso_find_def iso_base_def iso_rec_inside_def iso_content_def cd_contents_def vol_recs_def)
qed

lemma load_checkfile_checks_witness:
  "\<exists>s'. load_checkfile cd_env (\<lambda>_. False) False vol_junk [0x2f, 0x43] vol_file = Some (Closed (0, s'))
    \<and> soft_pcr (snd (tcg s')) 13 = (if hash_string (fips_sha1 [1, 2, 3]) = replicate 40 0x30
        then tpm_extend (tpm_extend (replicate 20 0) (digest_bytes (fips_sha1 [1, 2, 3]))) (digest_bytes (fips_sha1 [1, 2, 3]))
        else tpm_extend (replicate 20 0) (digest_bytes (fips_sha1 [1, 2, 3])))
    \<and> soft_pcr (snd (tcg s')) 14 = replicate 20 0 \<and> perform_sha1 s'"
proof -
  have junk: "junk_ok vol_junk" by (simp add: junk_ok_def vol_junk_def blank_context_def)
  have repr: "length (buffer fresh_sha1) = 64" using fresh_sha1_repr by (simp add: sha1_repr_def)
  have idle: "idle vol_serves (vol_file\<lparr>perform_sha1 := False\<rparr>)"
    using vol_device_serves repr by (simp add: idle_def vol_file_def cd_file_def)
  have wf: "list_all (chk_wf vol_files) vol_entries"
    using vol_contents(1) by (simp add: vol_entries_def chk_wf_def hash_string_length gzipped_def)
  have len: "length (chk_text vol_entries) \<le> 8192" by (simp add: vol_lengths)
  obtain s' where s': "load_checkfile (gunzip_env cd_base) (\<lambda>_. False) False vol_junk [0x2f, 0x43] vol_file = Some (Closed (0, s'))"
    "soft_pcr (snd (tcg s')) = chk_pcrs vol_files vol_entries (soft_pcr (snd (tcg vol_file)))" "perform_sha1 s' = (perform_sha1 vol_file \<or> old_perform_sha1_value vol_file)"
    using load_checkfile_checks [OF vol.file_server_axioms cd_base_tpm junk idle wf vol_contents(2) vol_text(2) len, of False "\<lambda>_. False"] by auto
  have "chk_pcrs vol_files vol_entries r 13 = (if hash_string (fips_sha1 [1, 2, 3]) = replicate 40 0x30
        then tpm_extend (tpm_extend (r 13) (digest_bytes (fips_sha1 [1, 2, 3]))) (digest_bytes (fips_sha1 [1, 2, 3]))
        else tpm_extend (r 13) (digest_bytes (fips_sha1 [1, 2, 3])))" "chk_pcrs vol_files vol_entries r 14 = r 14" for r
    using vol_contents(1) by (auto simp: chk_pcrs_def vol_entries_def chk_match_def)
  then show ?thesis using s' by (simp add: cd_env_def) (simp add: vol_file_def cd_file_def soft_pcr_const)
qed

end
