(* ===== verification/Variables.thy ===== *)
theory Variables
  imports CString
begin

unbundle bit_operations_syntax

text \<open>
  The variables of the command line, from \<^verbatim>\<open>stage2/builtins.c\<close>: a store of 1024 bytes from which
  strings are allocated and never freed, a table of at most 30 pairs of pointers into it, and the replacement of
  \<open>$(name)\<close> in a line by the value of the variable.

  A pointer into the store is an offset. Strings that are arguments are lists of characters without the NUL; buffers are
  arrays with all their bytes. \<open>ok\<close> says that no error is pending: otherwise \<open>grub_strcpy\<close> does
  nothing.
\<close>

section \<open>The store\<close>

definition VARIABLE_STORE_SIZE :: nat where "VARIABLE_STORE_SIZE = 1024"
definition VARIABLES_MAX :: nat where "VARIABLES_MAX = 30"

record var_store =
  variable_store :: "u8 list"
  variable_store_actpos :: nat
  variable_list :: "(nat option \<times> nat option) list"

text \<open>The string at a pointer; there is none if the array ends before a NUL.\<close>

definition string_at :: "u8 list \<Rightarrow> nat \<Rightarrow> u8 list" where
  "string_at mem p = takeWhile (\<lambda>c. c \<noteq> 0) (drop p mem)"

definition c_string :: "u8 list \<Rightarrow> nat \<Rightarrow> u8 list option" where
  "c_string mem p = (if p + length (string_at mem p) < length mem then Some (string_at mem p) else None)"

definition c_strcpy :: "bool \<Rightarrow> u8 list \<Rightarrow> nat \<Rightarrow> u8 list \<Rightarrow> u8 list option" where
  "c_strcpy ok mem p s =
     (if \<not> ok then Some mem
      else if p + length s < length mem then Some (overlay mem p (s @ [0])) else None)"

fun var_index_from :: "u8 list \<Rightarrow> u8 list \<Rightarrow> nat \<Rightarrow> (nat option \<times> nat option) list \<Rightarrow> nat option option" where
  "var_index_from mem var i [] = Some None"
| "var_index_from mem var i ((name, val) # vars) =
     (case name of
        None \<Rightarrow> var_index_from mem var (i + 1) vars
      | Some p \<Rightarrow> do {
          c \<leftarrow> grub_strcmp (drop p mem) (var @ [0]);
          if c = 0 then Some (Some i) else var_index_from mem var (i + 1) vars })"

definition var_get_index :: "var_store \<Rightarrow> u8 list \<Rightarrow> nat option option" where
  "var_get_index st var = (if var = [] then Some None else var_index_from (variable_store st) var 0 (variable_list st))"

definition var_get :: "var_store \<Rightarrow> u8 list \<Rightarrow> nat option option" where
  "var_get st var = map_option (\<lambda>i. Option.bind i (\<lambda>i. snd (variable_list st ! i))) (var_get_index st var)"

definition var_alloc_mem :: "nat \<Rightarrow> var_store \<Rightarrow> nat option \<times> var_store" where
  "var_alloc_mem len st =
     (if VARIABLE_STORE_SIZE < variable_store_actpos st + len \<or> len = 0 then (None, st)
      else (Some (variable_store_actpos st), st\<lparr>variable_store_actpos := variable_store_actpos st + len\<rparr>))"

fun free_from :: "nat \<Rightarrow> (nat option \<times> nat option) list \<Rightarrow> nat option" where
  "free_from i [] = None"
| "free_from i ((name, val) # vars) = (if name = None then Some i else free_from (i + 1) vars)"

definition var_get_free_var :: "var_store \<Rightarrow> nat option" where
  "var_get_free_var st = free_from 0 (variable_list st)"

section \<open>Replacing variables\<close>

text \<open>The end of a name: the position of the closing bracket or of the NUL.\<close>

function end_var :: "u8 list \<Rightarrow> nat \<Rightarrow> nat option" where
  "end_var str e =
     (if e < length str then if str ! e = 0 \<or> str ! e = 0x29 then Some e else end_var str (e + 1) else None)"
  by pat_completeness auto
termination by (relation "measure (\<lambda>(str, e). length str - e)") auto

declare end_var.simps [simp del]

lemma end_var_ge: "end_var str e = Some e' \<Longrightarrow> e \<le> e'"
  by (induction str e rule: end_var.induct) (subst (asm) end_var.simps, fastforce split: if_splits)

text \<open>The bytes \<open>s\<close> are stored at \<open>b\<close>.\<close>

definition put_bytes :: "u8 list \<Rightarrow> nat \<Rightarrow> u8 list \<Rightarrow> u8 list option" where
  "put_bytes buf b s = (if b + length s \<le> length buf then Some (overlay buf b s) else None)"

text \<open>
  The loop of \<open>var_sprint_once\<close> at position \<open>i\<close> of the string and \<open>b\<close> of the buffer. For a variable that is not set the code
  has moved on behind the bracket and copies the next character as it is.
\<close>

function sprint_loop :: "var_store \<Rightarrow> u8 list \<Rightarrow> nat \<Rightarrow> u8 list \<Rightarrow> nat \<Rightarrow> (nat \<times> u8 list) option" where
  "sprint_loop st str i buf b =
     (if length str \<le> i then None
      else if str ! i = 0 then map_option (\<lambda>buf'. (b, buf')) (put_bytes buf b [0])
      else if str ! i = 0x24 \<and> i + 1 < length str \<and> str ! (i + 1) = 0x28
      then case end_var str (i + 2) of
             None \<Rightarrow> None
           | Some e \<Rightarrow>
               if str ! e = 0x29
               then case var_get st (take (e - (i + 2)) (drop (i + 2) str)) of
                      None \<Rightarrow> None
                    | Some None \<Rightarrow>
                        if e + 1 < length str
                        then Option.bind (put_bytes buf b [str ! (e + 1)]) (\<lambda>buf'. sprint_loop st str (e + 2) buf' (b + 1))
                        else None
                    | Some (Some p) \<Rightarrow>
                        Option.bind (c_string (variable_store st) p) (\<lambda>val.
                          Option.bind (put_bytes buf b val) (\<lambda>buf'. sprint_loop st str (e + 1) buf' (b + length val)))
               else Option.bind (put_bytes buf b [str ! i]) (\<lambda>buf'. sprint_loop st str (i + 1) buf' (b + 1))
      else Option.bind (put_bytes buf b [str ! i]) (\<lambda>buf'. sprint_loop st str (i + 1) buf' (b + 1)))"
  by pat_completeness auto
termination
  by (relation "measure (\<lambda>(st, str, i, buf, b). length str - i)") (auto dest!: end_var_ge)

declare sprint_loop.simps [simp del]

definition var_sprint_once :: "var_store \<Rightarrow> u8 list \<Rightarrow> u8 list \<Rightarrow> (nat \<times> u8 list) option" where
  "var_sprint_once st buf str = sprint_loop st str 0 buf 0"

text \<open>
  At most ten rounds, until nothing changes. \<open>buffer\<close> is the array of 1000 bytes on the stack; a string of more than 1000 characters makes
  the code wait forever, one of exactly 1000 leaves the array.
\<close>

fun sprint_rounds :: "bool \<Rightarrow> var_store \<Rightarrow> nat \<Rightarrow> u8 list \<Rightarrow> u8 list \<Rightarrow> u8 list option" where
  "sprint_rounds ok st 0 buf buffer = Some buf"
| "sprint_rounds ok st (Suc i) buf buffer =
     do { s \<leftarrow> c_string buf 0;
          if 1000 < length s then None
          else do {
            buffer1 \<leftarrow> c_strcpy ok buffer 0 s;
            (_, buf1) \<leftarrow> var_sprint_once st buf buffer1;
            cmp \<leftarrow> (if i = 0 then Some 0 else grub_strcmp buf1 buffer1);
            if cmp \<noteq> 0 then sprint_rounds ok st i buf1 buffer1 else Some buf1 } }"

definition var_sprint :: "bool \<Rightarrow> var_store \<Rightarrow> u8 list \<Rightarrow> u8 list \<Rightarrow> u8 list \<Rightarrow> (nat \<times> u8 list) option" where
  "var_sprint ok st buffer buf str =
     do { buf1 \<leftarrow> c_strcpy ok buf 0 str;
          buf2 \<leftarrow> sprint_rounds ok st 10 buf1 buffer;
          s \<leftarrow> c_string buf2 0;
          Some (length s, buf2) }"

text \<open>The buffer of 1500 bytes with a magic number in its last four; if it has changed, the code waits forever.\<close>

definition var_sprint_buf :: "bool \<Rightarrow> var_store \<Rightarrow> u8 list \<Rightarrow> u8 list \<Rightarrow> u8 list \<Rightarrow> u8 list option" where
  "var_sprint_buf ok st buffer buf str =
     do { let magic = [0x41, 0x32, 0x23, 0x14];
          (_, buf') \<leftarrow> var_sprint ok st buffer (overlay buf 1496 magic) str;
          if drop 1496 buf' = magic then Some buf' else None }"

section \<open>Setting variables\<close>

definition bad_var_name :: "u8 list \<Rightarrow> bool" where
  "bad_var_name name \<longleftrightarrow> 0x28 \<in> set name \<or> 0x29 \<in> set name \<or> 0x20 \<in> set name"

text \<open>A new entry for a name; the result none is the return value 1.\<close>

definition new_var :: "bool \<Rightarrow> u8 list \<Rightarrow> var_store \<Rightarrow> (nat option \<times> var_store) option" where
  "new_var ok name st =
     (if bad_var_name name then Some (None, st)
      else case var_get_free_var st of
             None \<Rightarrow> Some (None, st)
           | Some i \<Rightarrow>
               (case var_alloc_mem (length name + 1) st of
                  (None, st1) \<Rightarrow> Some (None, st1)
                | (Some a, st1) \<Rightarrow> do {
                    mem \<leftarrow> c_strcpy ok (variable_store st1) a name;
                    Some (Some i, st1\<lparr>variable_store := mem,
                                      variable_list := (variable_list st1)[i := (Some a, snd (variable_list st1 ! i))]\<rparr>) }))"

text \<open>Room for a new value of entry \<open>i\<close>.\<close>

definition new_value :: "bool \<Rightarrow> nat \<Rightarrow> u8 list \<Rightarrow> var_store \<Rightarrow> (int \<times> var_store) option" where
  "new_value ok i val st =
     (case var_alloc_mem (length val + 1) st of
        (None, st1) \<Rightarrow> Some (1, st1)
      | (Some a, st1) \<Rightarrow> do {
          mem \<leftarrow> c_strcpy ok (variable_store st1) a val;
          Some (0, st1\<lparr>variable_store := mem, variable_list := (variable_list st1)[i := (fst (variable_list st1 ! i), Some a)]\<rparr>) })"

definition var_set_no_copy :: "bool \<Rightarrow> u8 list \<Rightarrow> nat \<Rightarrow> var_store \<Rightarrow> (int \<times> var_store) option" where
  "var_set_no_copy ok name val st =
     (if VARIABLE_STORE_SIZE \<le> val then Some (1, st)
      else do {
        idx \<leftarrow> var_get_index st name;
        (i, st1) \<leftarrow> (case idx of None \<Rightarrow> new_var ok name st | Some i \<Rightarrow> Some (Some i, st));
        case i of
          None \<Rightarrow> Some (1, st1)
        | Some i \<Rightarrow> Some (0, st1\<lparr>variable_list := (variable_list st1)[i := (fst (variable_list st1 ! i), Some val)]\<rparr>) })"

text \<open>
  \<open>var_set\<close> for the value as it is to be stored. The old value is replaced in place if the new one is not longer; an
  entry whose value is a null pointer has no result.
\<close>

definition var_set_value :: "bool \<Rightarrow> u8 list \<Rightarrow> u8 list \<Rightarrow> var_store \<Rightarrow> (int \<times> var_store) option" where
  "var_set_value ok name val st =
     do { idx \<leftarrow> var_get_index st name;
          case idx of
            None \<Rightarrow> do {
              (i, st1) \<leftarrow> new_var ok name st;
              case i of None \<Rightarrow> Some (1, st1) | Some i \<Rightarrow> new_value ok i val st1 }
          | Some i \<Rightarrow> do {
              p \<leftarrow> snd (variable_list st ! i);
              old \<leftarrow> c_string (variable_store st) p;
              if length val \<le> length old
              then do { mem \<leftarrow> c_strcpy ok (variable_store st) p val; Some (0, st\<lparr>variable_store := mem\<rparr>) }
              else new_value ok i val st } }"

definition var_set :: "bool \<Rightarrow> u8 list \<Rightarrow> u8 list \<Rightarrow> u8 list \<Rightarrow> u8 list \<Rightarrow> bool \<Rightarrow> var_store \<Rightarrow> (int \<times> var_store) option" where
  "var_set ok buffer buf name value parse st =
     (if parse
      then do { buf' \<leftarrow> var_sprint_buf ok st buffer buf value; v \<leftarrow> c_string buf' 0; var_set_value ok name v st }
      else var_set_value ok name value st)"

text \<open>
  The command \<^verbatim>\<open>set\<close>: a name, then \<open>:\<close> if the value is to be expanded, \<open>?\<close> if only a new variable is to be set, an equals
  sign, and a value up to the next space or in quotes. The result none is a bad argument.
\<close>

definition skip_ws :: "u8 list \<Rightarrow> u8 list" where
  "skip_ws s = dropWhile (\<lambda>c. grub_isspace (sint c)) s"

definition set_args :: "u8 list \<Rightarrow> (u8 list \<times> bool \<times> bool \<times> u8 list) option" where
  "set_args a =
     (let name_end = (\<lambda>c. c = 0x3a \<or> c = 0x3d \<or> c = 0x20);
          variable = takeWhile (\<lambda>c. \<not> name_end c) a;
          a1 = skip_ws (dropWhile (\<lambda>c. \<not> name_end c) a);
          parse = (take 1 a1 = [0x3a]);
          a2 = (if parse then tl a1 else a1);
          emptysetonly = (take 1 a2 = [0x3f]);
          a3 = (if emptysetonly then tl a2 else a2)
      in if take 1 a3 \<noteq> [0x3d] then None
         else
           let a4 = skip_ws (tl a3);
               quoted = (take 1 a4 = [0x22]);
               value = (if quoted then takeWhile (\<lambda>c. c \<noteq> 0x22) (tl a4) else takeWhile (\<lambda>c. c \<noteq> 0x20) a4)
           in Some (variable, parse, emptysetonly, value))"

definition set_func :: "bool \<Rightarrow> u8 list \<Rightarrow> u8 list \<Rightarrow> u8 list \<Rightarrow> var_store \<Rightarrow> (int \<times> bool \<times> var_store) option" where
  "set_func ok buffer buf arg st =
     (let a = skip_ws arg
      in if a = [] then Some (0, True, st)
         else case set_args a of
                None \<Rightarrow> Some (1, False, st)
              | Some (variable, parse, emptysetonly, value) \<Rightarrow> do {
                  idx \<leftarrow> (if emptysetonly then var_get_index st variable else Some None);
                  if idx = None
                  then do { (r, st') \<leftarrow> var_set ok buffer buf variable value parse st; Some (r, True, st') }
                  else Some (0, True, st) })"


section \<open>Strings in an array\<close>

lemma string_at_nonzero: "0 \<notin> set (string_at mem p)"
  by (auto simp: string_at_def dest: set_takeWhileD)

lemma string_at_split:
  assumes "p + length (string_at mem p) < length mem"
  shows "drop p mem = string_at mem p @ 0 # drop (Suc (p + length (string_at mem p))) mem"
proof -
  let ?s = "string_at mem p"
  have "drop p mem = ?s @ dropWhile (\<lambda>c. c \<noteq> 0) (drop p mem)" by (simp add: string_at_def)
  moreover have "dropWhile (\<lambda>c. c \<noteq> 0) (drop p mem) = drop (p + length ?s) mem" by (simp add: string_at_def dropWhile_eq_drop ac_simps)
  moreover have "drop (p + length ?s) mem = mem ! (p + length ?s) # drop (Suc (p + length ?s)) mem" using assms by (simp add: Cons_nth_drop_Suc)
  moreover have "mem ! (p + length ?s) = 0"
    using assms nth_length_takeWhile [of "\<lambda>c. c \<noteq> 0" "drop p mem"] by (simp add: string_at_def)
  ultimately show ?thesis by simp
qed

lemma string_atI: "drop p mem = s @ 0 # later \<Longrightarrow> 0 \<notin> set s \<Longrightarrow> string_at mem p = s \<and> p + length s < length mem"
proof -
  assume d: "drop p mem = s @ 0 # later" and s: "0 \<notin> set s"
  have "string_at mem p = s" unfolding string_at_def d using s by (induction s) auto
  moreover have "length (drop p mem) = length s + Suc (length later)" unfolding d by simp
  ultimately show ?thesis by simp
qed

lemma overlay_here: "p + length xs \<le> length mem \<Longrightarrow> drop p (overlay mem p xs) = xs @ drop (p + length xs) mem"
  by (simp add: overlay_def)

lemma string_at_overlay:
  assumes "p + length s < length mem" and "0 \<notin> set s"
  shows "string_at (overlay mem p (s @ [0])) p = s"
proof (rule conjunct1 [OF string_atI])
  show "drop p (overlay mem p (s @ [0])) = s @ 0 # drop (p + length (s @ [0])) mem" using assms overlay_here [of p "s @ [0]" mem] by simp
qed (rule assms(2))

lemma overlay_nth: "p + length xs \<le> length mem \<Longrightarrow> i < length mem \<Longrightarrow>
    overlay mem p xs ! i = (if p \<le> i \<and> i < p + length xs then xs ! (i - p) else mem ! i)"
  by (auto simp: overlay_def nth_append)

text \<open>A copy leaves strings alone that it does not overlap.\<close>

lemma string_at_cong:
  assumes "p + length (string_at mem p) < length mem" and "length mem' = length mem"
    and "\<And>i. p \<le> i \<Longrightarrow> i \<le> p + length (string_at mem p) \<Longrightarrow> mem' ! i = mem ! i"
  shows "string_at mem' p = string_at mem p"
proof (rule conjunct1 [OF string_atI])
  let ?s = "string_at mem p"
  have "take (Suc (length ?s)) (drop p mem') = take (Suc (length ?s)) (drop p mem)"
    using assms by (intro nth_equalityI) auto
  moreover have "take (Suc (length ?s)) (drop p mem) = ?s @ [0]" using string_at_split [OF assms(1)] by simp
  ultimately have "drop p mem' = (?s @ [0]) @ drop (Suc (length ?s)) (drop p mem')" by (metis append_take_drop_id)
  then show "drop p mem' = ?s @ 0 # drop (Suc (length ?s)) (drop p mem')" by simp
qed (rule string_at_nonzero)

lemma string_at_other:
  assumes "q + length (string_at mem q) < length mem" and "p + length s < length mem"
    and "q + length (string_at mem q) < p \<or> p + length s < q"
  shows "string_at (overlay mem p (s @ [0])) q = string_at mem q"
  using assms by (intro string_at_cong) (auto simp: length_overlay overlay_nth)

lemma strcmp_string:
  assumes "p + length (string_at mem p) < length mem" and "0 \<notin> set var"
  shows "\<exists>c. grub_strcmp (drop p mem) (var @ [0]) = Some c \<and> (c = 0 \<longleftrightarrow> string_at mem p = var)"
  using grub_strcmp_append [OF string_at_nonzero assms(2), of mem p "drop (Suc (p + length (string_at mem p))) mem" "[]"]
  unfolding string_at_split [OF assms(1), symmetric] by auto

section \<open>The table as a map\<close>

text \<open>The strings of an entry, and the invariant: every string lies in the allocated part of the store, and no two overlap.\<close>

definition slot :: "var_store \<Rightarrow> nat \<times> bool \<Rightarrow> nat option" where
  "slot st = (\<lambda>(i, val). if i < length (variable_list st) then (if val then snd else fst) (variable_list st ! i) else None)"

definition var_inv :: "var_store \<Rightarrow> bool" where
  "var_inv st \<longleftrightarrow> length (variable_store st) = VARIABLE_STORE_SIZE \<and> variable_store_actpos st \<le> VARIABLE_STORE_SIZE
     \<and> length (variable_list st) = VARIABLES_MAX
     \<and> (\<forall>x p. slot st x = Some p \<longrightarrow> p + length (string_at (variable_store st) p) < variable_store_actpos st)
     \<and> (\<forall>x y p q. x \<noteq> y \<longrightarrow> slot st x = Some p \<longrightarrow> slot st y = Some q
          \<longrightarrow> p + length (string_at (variable_store st) p) < q \<or> q + length (string_at (variable_store st) q) < p)
     \<and> (\<forall>i. slot st (i, False) = None \<longrightarrow> slot st (i, True) = None)"

text \<open>Every variable has a value.\<close>

definition var_complete :: "var_store \<Rightarrow> bool" where
  "var_complete st \<longleftrightarrow> (\<forall>i. slot st (i, False) \<noteq> None \<longrightarrow> slot st (i, True) \<noteq> None)"

definition var_decode :: "var_store \<Rightarrow> (u8 list option \<times> u8 list option) list" where
  "var_decode st = map (\<lambda>(n, v). (map_option (string_at (variable_store st)) n, map_option (string_at (variable_store st)) v)) (variable_list st)"

fun assoc :: "(u8 list option \<times> u8 list option) list \<Rightarrow> u8 list \<Rightarrow> u8 list option" where
  "assoc [] var = None"
| "assoc ((n, v) # vars) var = (if n = Some var then v else assoc vars var)"

definition var_abs :: "var_store \<Rightarrow> u8 list \<Rightarrow> u8 list option" where
  "var_abs st var = (if var = [] then None else assoc (var_decode st) var)"

definition slot_string :: "var_store \<Rightarrow> nat \<times> bool \<Rightarrow> u8 list option" where
  "slot_string st x = map_option (string_at (variable_store st)) (slot st x)"

lemma var_decode_nth: "i < length (variable_list st) \<Longrightarrow> var_decode st ! i = (slot_string st (i, False), slot_string st (i, True))"
  by (simp add: var_decode_def slot_string_def slot_def split_beta)

lemma var_decode_len [simp]: "length (var_decode st) = length (variable_list st)"
  by (simp add: var_decode_def)

lemma var_invD:
  assumes "var_inv st"
  shows "length (variable_store st) = VARIABLE_STORE_SIZE" and "variable_store_actpos st \<le> VARIABLE_STORE_SIZE"
    and "length (variable_list st) = VARIABLES_MAX"
    and "slot st x = Some p \<Longrightarrow> p + length (string_at (variable_store st) p) < variable_store_actpos st"
    and "slot st x = Some p \<Longrightarrow> slot st y = Some q \<Longrightarrow> x \<noteq> y
      \<Longrightarrow> p + length (string_at (variable_store st) p) < q \<or> q + length (string_at (variable_store st) q) < p"
    and "slot st (i, False) = None \<Longrightarrow> slot st (i, True) = None"
  using assms unfolding var_inv_def by blast+

text \<open>A pointer stored in the table.\<close>

definition point_to :: "nat \<times> bool \<Rightarrow> nat \<Rightarrow> var_store \<Rightarrow> var_store" where
  "point_to x p st = st\<lparr>variable_list := (variable_list st)[fst x :=
      (if snd x then (fst (variable_list st ! fst x), Some p) else (Some p, snd (variable_list st ! fst x)))]\<rparr>"

lemma slot_point_to: "fst x < length (variable_list st) \<Longrightarrow> slot (point_to x p st) y = (if y = x then Some p else slot st y)"
  by (cases x; cases y) (auto simp: slot_def point_to_def nth_list_update)

lemma point_to_simps [simp]:
  "variable_store (point_to x p st) = variable_store st"
  "variable_store_actpos (point_to x p st) = variable_store_actpos st"
  "length (variable_list (point_to x p st)) = length (variable_list st)"
  by (simp_all add: point_to_def)

text \<open>A string in newly allocated space.\<close>

definition store_new :: "nat \<times> bool \<Rightarrow> u8 list \<Rightarrow> var_store \<Rightarrow> var_store" where
  "store_new x s st = point_to x (variable_store_actpos st)
     (st\<lparr>variable_store_actpos := variable_store_actpos st + (length s + 1),
         variable_store := overlay (variable_store st) (variable_store_actpos st) (s @ [0])\<rparr>)"

lemma slot_cong: "variable_list st' = variable_list st \<Longrightarrow> slot st' = slot st"
  by (simp add: slot_def fun_eq_iff)

lemma slot_store_new: "fst x < length (variable_list st) \<Longrightarrow>
    slot (store_new x s st) y = (if y = x then Some (variable_store_actpos st) else slot st y)"
  unfolding store_new_def by (subst slot_point_to) (auto cong: slot_cong simp: slot_def)

lemma store_new_strings:
  assumes inv: "var_inv st" and room: "variable_store_actpos st + length s < VARIABLE_STORE_SIZE" and s: "0 \<notin> set s"
    and x: "fst x < VARIABLES_MAX"
  shows "string_at (variable_store (store_new x s st)) (variable_store_actpos st) = s"
    and "slot st y = Some q \<Longrightarrow> string_at (variable_store (store_new x s st)) q = string_at (variable_store st) q"
proof -
  show "string_at (variable_store (store_new x s st)) (variable_store_actpos st) = s"
    using string_at_overlay [OF _ s] room var_invD(1) [OF inv] by (simp add: store_new_def)
  assume "slot st y = Some q"
  then show "string_at (variable_store (store_new x s st)) q = string_at (variable_store st) q"
    using var_invD(4) [OF inv] var_invD(2) [OF inv] var_invD(1) [OF inv] room
    by (simp add: store_new_def, intro string_at_other) fastforce+
qed

lemma store_new_string:
  assumes inv: "var_inv st" and room: "variable_store_actpos st + length s < VARIABLE_STORE_SIZE" and s: "0 \<notin> set s"
    and x: "fst x < VARIABLES_MAX"
  shows "slot_string (store_new x s st) y = (if y = x then Some s else slot_string st y)"
  using slot_store_new [of x st s y] store_new_strings [OF assms] x var_invD(3) [OF inv]
  by (cases "slot st y") (auto simp: slot_string_def)

lemma store_new_inv:
  assumes inv: "var_inv st" and room: "variable_store_actpos st + length s < VARIABLE_STORE_SIZE" and s: "0 \<notin> set s"
    and x: "fst x < VARIABLES_MAX" and named: "snd x \<Longrightarrow> slot st (fst x, False) \<noteq> None"
  shows "var_inv (store_new x s st)"
proof -
  note sl = slot_store_new [of x st s] and str = store_new_strings [OF inv room s x]
  let ?st = "store_new x s st" and ?a = "variable_store_actpos st"
  have x': "fst x < length (variable_list st)" using x var_invD(3) [OF inv] by simp
  have ap: "variable_store_actpos ?st = ?a + (length s + 1)" by (simp add: store_new_def)
  have len: "length (variable_store ?st) = VARIABLE_STORE_SIZE" "length (variable_list ?st) = VARIABLES_MAX"
    using var_invD(1,3) [OF inv] room by (simp_all add: store_new_def length_overlay)
  have below: "p + length (string_at (variable_store ?st) p) < ?a + (length s + 1)" if "slot ?st y = Some p" for y p
    using that str var_invD(4) [OF inv] by (fastforce simp: sl [OF x'] split: if_splits)
  have apart: "p + length (string_at (variable_store ?st) p) < q \<or> q + length (string_at (variable_store ?st) q) < p"
    if "y \<noteq> z" "slot ?st y = Some p" "slot ?st z = Some q" for y z p q
  proof (cases "y = x \<or> z = x")
    case True
    then show ?thesis
    proof
      assume y: "y = x"
      then have "q + length (string_at (variable_store st) q) < ?a" using that var_invD(4) [OF inv] by (simp add: sl [OF x'])
      then show ?thesis using that y str(2) by (simp add: sl [OF x'])
    next
      assume z: "z = x"
      then have "p + length (string_at (variable_store st) p) < ?a" using that var_invD(4) [OF inv] by (simp add: sl [OF x'])
      then show ?thesis using that z str(2) by (simp add: sl [OF x'])
    qed
  next
    case False
    then have "slot st y = Some p" "slot st z = Some q" using that by (simp_all add: sl [OF x'])
    then show ?thesis using var_invD(5) [OF inv _ _ that(1)] str(2) by simp
  qed
  have "slot ?st (i, True) = None" if "slot ?st (i, False) = None" for i
  proof -
    have "slot st (i, False) = None" using that by (simp add: sl [OF x'] split: if_splits)
    moreover from this have "x \<noteq> (i, True)" using named by auto
    ultimately show ?thesis using var_invD(6) [OF inv] by (simp add: sl [OF x'])
  qed
  then show ?thesis unfolding var_inv_def ap len using below apart room by simp
qed

text \<open>A string written over one that is not shorter.\<close>

definition store_over :: "nat \<Rightarrow> u8 list \<Rightarrow> var_store \<Rightarrow> var_store" where
  "store_over p s st = st\<lparr>variable_store := overlay (variable_store st) p (s @ [0])\<rparr>"

lemma store_over_strings:
  assumes inv: "var_inv st" and x: "slot st x = Some p" and len: "length s \<le> length (string_at (variable_store st) p)" and s: "0 \<notin> set s"
  shows "string_at (variable_store (store_over p s st)) p = s"
    and "y \<noteq> x \<Longrightarrow> slot st y = Some q \<Longrightarrow> string_at (variable_store (store_over p s st)) q = string_at (variable_store st) q"
proof -
  have *: "p + length s < length (variable_store st)" using var_invD(1,2,4) [OF inv] x len by fastforce
  then show "string_at (variable_store (store_over p s st)) p = s" using string_at_overlay [OF _ s] by (simp add: store_over_def)
  assume "y \<noteq> x" and q: "slot st y = Some q"
  then have "q + length (string_at (variable_store st) q) < p \<or> p + length s < q" using var_invD(5) [OF inv x q] len by auto
  moreover have "q + length (string_at (variable_store st) q) < length (variable_store st)" using var_invD(1,2,4) [OF inv] q by fastforce
  ultimately show "string_at (variable_store (store_over p s st)) q = string_at (variable_store st) q"
    using * unfolding store_over_def by (simp add: string_at_other)
qed

lemma slot_store_over [simp]: "slot (store_over p s st) = slot st"
  by (rule slot_cong) (simp add: store_over_def)

lemma store_over_string:
  assumes inv: "var_inv st" and x: "slot st x = Some p" and len: "length s \<le> length (string_at (variable_store st) p)" and s: "0 \<notin> set s"
  shows "slot_string (store_over p s st) y = (if y = x then Some s else slot_string st y)"
  using store_over_strings [OF assms] x by (cases "slot st y") (auto simp: slot_string_def)

lemma store_over_inv:
  assumes inv: "var_inv st" and x: "slot st x = Some p" and len: "length s \<le> length (string_at (variable_store st) p)" and s: "0 \<notin> set s"
  shows "var_inv (store_over p s st)"
proof -
  note str = store_over_strings [OF assms]
  let ?st = "store_over p s st"
  have shorter: "length (string_at (variable_store ?st) q) \<le> length (string_at (variable_store st) q)" if "slot st y = Some q" for y q
    using that x str len by (cases "y = x") auto
  have *: "p + length s < length (variable_store st)" using var_invD(1,2,4) [OF inv] x len by fastforce
  have same: "variable_store_actpos ?st = variable_store_actpos st" "variable_list ?st = variable_list st"
    "length (variable_store ?st) = length (variable_store st)" using * by (simp_all add: store_over_def length_overlay)
  have below: "q + length (string_at (variable_store ?st) q) < variable_store_actpos st" if "slot st y = Some q" for y q
    using shorter [OF that] var_invD(4) [OF inv that] by simp
  have apart: "q + length (string_at (variable_store ?st) q) < r \<or> r + length (string_at (variable_store ?st) r) < q"
    if "y \<noteq> z" "slot st y = Some q" "slot st z = Some r" for y z q r
    using shorter [OF that(2)] shorter [OF that(3)] var_invD(5) [OF inv that(2,3,1)] by linarith
  show ?thesis unfolding var_inv_def same slot_store_over using below apart var_invD(1,2,3,6) [OF inv] by simp
qed

section \<open>Reading a variable reads the map\<close>

lemma assoc_update:
  assumes "i < length xs" and "fst (xs ! i) = None \<and> (\<forall>j < length xs. fst (xs ! j) \<noteq> Some n)
      \<or> fst (xs ! i) = Some n \<and> (\<forall>j < i. fst (xs ! j) \<noteq> Some n)"
  shows "assoc (xs[i := (Some n, v)]) = (assoc xs)(n := v)"
  using assms
proof (induction xs arbitrary: i)
  case (Cons x xs)
  obtain k w where x: "x = (k, w)" by (cases x)
  show ?case
  proof (cases i)
    case 0
    have "assoc ((k, w) # xs) m = assoc xs m" if "m \<noteq> n" for m using Cons.prems(2) that 0 x by auto
    then show ?thesis using 0 x by (simp add: fun_eq_iff)
  next
    case (Suc j)
    have "k \<noteq> Some n" using Cons.prems(2) Suc x by force
    moreover have "assoc (xs[j := (Some n, v)]) = (assoc xs)(n := v)"
      using Cons.prems Suc by (intro Cons.IH) force+
    ultimately show ?thesis using Suc x by (simp add: fun_eq_iff)
  qed
qed simp

lemma assoc_none: "\<forall>j < length xs. fst (xs ! j) \<noteq> Some n \<Longrightarrow> assoc xs n = None"
  by (induction xs n rule: assoc.induct) force+

lemma assoc_first: "i < length xs \<Longrightarrow> fst (xs ! i) = Some n \<Longrightarrow> \<forall>j < i. fst (xs ! j) \<noteq> Some n \<Longrightarrow> assoc xs n = snd (xs ! i)"
proof (induction xs n arbitrary: i rule: assoc.induct)
  case (2 k w vars n)
  then show ?case by (cases i) force+
qed simp

lemma var_index_from_first:
  assumes "\<forall>(n, v) \<in> set vars. \<forall>p. n = Some p \<longrightarrow> p + length (string_at mem p) < length mem" and "0 \<notin> set var"
  shows "\<exists>r. var_index_from mem var k vars = Some r \<and>
     (case r of None \<Rightarrow> \<forall>j < length vars. map_option (string_at mem) (fst (vars ! j)) \<noteq> Some var
      | Some i \<Rightarrow> k \<le> i \<and> i - k < length vars \<and> map_option (string_at mem) (fst (vars ! (i - k))) = Some var
          \<and> (\<forall>j < i - k. map_option (string_at mem) (fst (vars ! j)) \<noteq> Some var))"
  using assms
proof (induction vars arbitrary: k)
  case (Cons x vars)
  obtain n v where x: "x = (n, v)" by (cases x)
  obtain r where r: "var_index_from mem var (Suc k) vars = Some r" and
      rr: "case r of None \<Rightarrow> \<forall>j < length vars. map_option (string_at mem) (fst (vars ! j)) \<noteq> Some var
      | Some i \<Rightarrow> Suc k \<le> i \<and> i - Suc k < length vars \<and> map_option (string_at mem) (fst (vars ! (i - Suc k))) = Some var
          \<and> (\<forall>j < i - Suc k. map_option (string_at mem) (fst (vars ! j)) \<noteq> Some var)"
    using Cons.IH [of "Suc k"] Cons.prems by auto
  show ?case
  proof (cases "map_option (string_at mem) n = Some var")
    case True
    then obtain p where p: "n = Some p" "string_at mem p = var" by auto
    then have "grub_strcmp (drop p mem) (var @ [0]) = Some 0"
      using strcmp_string [OF _ Cons.prems(2), of p mem] Cons.prems(1) x by auto
    then have "var_index_from mem var k (x # vars) = Some (Some k)" using p x by simp
    then show ?thesis using True x by (intro exI [of _ "Some k"]) simp
  next
    case False
    have "var_index_from mem var k (x # vars) = Some r"
    proof (cases n)
      case (Some p)
      then obtain c where "grub_strcmp (drop p mem) (var @ [0]) = Some c" "c \<noteq> 0"
        using strcmp_string [OF _ Cons.prems(2), of p mem] Cons.prems(1) x False by auto
      then show ?thesis using Some x r by simp
    qed (use x r in simp)
    moreover have "case r of None \<Rightarrow> \<forall>j < length (x # vars). map_option (string_at mem) (fst ((x # vars) ! j)) \<noteq> Some var
      | Some i \<Rightarrow> k \<le> i \<and> i - k < length (x # vars) \<and> map_option (string_at mem) (fst ((x # vars) ! (i - k))) = Some var
          \<and> (\<forall>j < i - k. map_option (string_at mem) (fst ((x # vars) ! j)) \<noteq> Some var)"
    proof (cases r)
      case None
      then show ?thesis using rr x False by (auto simp: less_Suc_eq_0_disj)
    next
      case (Some i)
      moreover from this have "i - k = Suc (i - Suc k)" using rr by auto
      ultimately show ?thesis using rr x False by (auto simp: less_Suc_eq_0_disj)
    qed
    ultimately show ?thesis by blast
  qed
qed simp

lemma var_get_index_first:
  assumes inv: "var_inv st" and var: "0 \<notin> set var" "var \<noteq> []"
  obtains (unset) "var_get_index st var = Some None" "\<forall>j < VARIABLES_MAX. fst (var_decode st ! j) \<noteq> Some var"
  | (first) i where "var_get_index st var = Some (Some i)" "i < VARIABLES_MAX" "fst (var_decode st ! i) = Some var"
      "\<forall>j < i. fst (var_decode st ! j) \<noteq> Some var"
proof -
  note L = var_invD(3) [OF inv]
  have dec: "map_option (string_at (variable_store st)) (fst (variable_list st ! j)) = fst (var_decode st ! j)" if "j < VARIABLES_MAX" for j
    using that L by (simp add: var_decode_def split_beta)
  have "\<forall>(n, v) \<in> set (variable_list st). \<forall>p. n = Some p \<longrightarrow> p + length (string_at (variable_store st) p) < length (variable_store st)"
  proof (clarify)
    fix v p assume "(Some p, v) \<in> set (variable_list st)"
    then obtain j where "j < VARIABLES_MAX" "variable_list st ! j = (Some p, v)" using L by (auto simp: in_set_conv_nth)
    then have "slot st (j, False) = Some p" using L by (simp add: slot_def)
    then show "p + length (string_at (variable_store st) p) < length (variable_store st)" using var_invD(1,2,4) [OF inv] by fastforce
  qed
  from var_index_from_first [OF this var(1), of 0] obtain r where r: "var_get_index st var = Some r" and
    rr: "case r of None \<Rightarrow> \<forall>j < VARIABLES_MAX. map_option (string_at (variable_store st)) (fst (variable_list st ! j)) \<noteq> Some var
      | Some i \<Rightarrow> i < VARIABLES_MAX \<and> map_option (string_at (variable_store st)) (fst (variable_list st ! i)) = Some var
          \<and> (\<forall>j < i. map_option (string_at (variable_store st)) (fst (variable_list st ! j)) \<noteq> Some var)"
    using var(2) L by (auto simp: var_get_index_def split: option.splits)
  show ?thesis
  proof (cases r)
    case None
    then show ?thesis using unset r rr dec by simp
  next
    case (Some i)
    then show ?thesis using first [of i] r rr by (simp add: dec [symmetric])
  qed
qed

text \<open>\<open>var_get\<close> returns a pointer to the value of the variable.\<close>

lemma var_get_abs:
  assumes inv: "var_inv st" and var: "0 \<notin> set var"
  shows "\<exists>r. var_get st var = Some r \<and> map_option (string_at (variable_store st)) r = var_abs st var
    \<and> (\<forall>p. r = Some p \<longrightarrow> c_string (variable_store st) p = var_abs st var)"
proof (cases "var = []")
  case True
  then show ?thesis by (simp add: var_get_def var_get_index_def var_abs_def)
next
  case False
  have L: "length (variable_list st) = VARIABLES_MAX" by (rule var_invD(3) [OF inv])
  show ?thesis
    using inv var False
  proof (cases rule: var_get_index_first)
    case unset
    then show ?thesis using assoc_none [of "var_decode st" var] False L by (simp add: var_get_def var_abs_def)
  next
    case (first i)
    have "var_abs st var = snd (var_decode st ! i)"
      using assoc_first [OF _ first(3,4)] first(2) False L by (simp add: var_abs_def)
    also have "\<dots> = map_option (string_at (variable_store st)) (snd (variable_list st ! i))"
      using first(2) L by (simp add: var_decode_def split_beta)
    finally have a: "var_abs st var = map_option (string_at (variable_store st)) (snd (variable_list st ! i))" .
    moreover have "var_get st var = Some (snd (variable_list st ! i))" using first(1) by (simp add: var_get_def)
    moreover have "c_string (variable_store st) p = Some (string_at (variable_store st) p)" if "snd (variable_list st ! i) = Some p" for p
    proof -
      have "slot st (i, True) = Some p" using that first(2) L by (simp add: slot_def)
      then have "p + length (string_at (variable_store st) p) < length (variable_store st)" using var_invD(1,2,4) [OF inv] by fastforce
      then show ?thesis by (simp add: c_string_def)
    qed
    ultimately show ?thesis by auto
  qed
qed

section \<open>Setting a variable updates the map\<close>

lemma var_abs_update:
  assumes "var_decode st' = (var_decode st)[i := (Some n, v)]" and "n \<noteq> []" and "i < length (var_decode st)"
    and "fst (var_decode st ! i) = None \<and> (\<forall>j < length (var_decode st). fst (var_decode st ! j) \<noteq> Some n)
      \<or> fst (var_decode st ! i) = Some n \<and> (\<forall>j < i. fst (var_decode st ! j) \<noteq> Some n)"
  shows "var_abs st' = (var_abs st)(n := v)"
  using assoc_update [OF assms(3,4)] assms(1,2) by (auto simp: var_abs_def fun_eq_iff)

lemma var_decode_update:
  assumes "length (variable_list st') = length (variable_list st)" and "i < length (variable_list st)"
    and "\<And>y. slot_string st' y = (if y = (i, b) then Some s else slot_string st y)"
  shows "var_decode st' = (var_decode st)[i := (if b then (fst (var_decode st ! i), Some s) else (Some s, snd (var_decode st ! i)))]"
  using assms by (intro nth_equalityI) (auto simp: var_decode_nth nth_list_update)

lemma store_new_list [simp]: "length (variable_list (store_new x s st)) = length (variable_list st)"
  by (simp add: store_new_def)

lemma store_over_list [simp]: "variable_list (store_over p s st) = variable_list st"
  by (simp add: store_over_def)

lemma new_value_stores:
  assumes "var_inv st"
  shows "new_value True i s st =
    (if variable_store_actpos st + length s < VARIABLE_STORE_SIZE then Some (0, store_new (i, True) s st) else Some (1, st))"
  using var_invD(1) [OF assms] by (simp add: new_value_def var_alloc_mem_def c_strcpy_def store_new_def point_to_def)

lemma free_from_free:
  "free_from k vars = Some i \<Longrightarrow> k \<le> i \<and> i - k < length vars \<and> fst (vars ! (i - k)) = None"
proof (induction k vars rule: free_from.induct)
  case (2 k n v vars)
  show ?case
  proof (cases n)
    case (Some p)
    then have "Suc k \<le> i \<and> i - Suc k < length vars \<and> fst (vars ! (i - Suc k)) = None" using 2 by simp
    moreover from this have "i - k = Suc (i - Suc k)" by arith
    ultimately show ?thesis by simp
  qed (use 2 in auto)
qed simp

lemma free_from_none: "free_from k vars = None \<longleftrightarrow> (\<forall>(n, v) \<in> set vars. n \<noteq> None)"
  by (induction k vars rule: free_from.induct) auto

lemma new_var_stores:
  assumes "var_inv st"
  shows "new_var True name st =
    (case var_get_free_var st of
       Some i \<Rightarrow> if \<not> bad_var_name name \<and> variable_store_actpos st + length name < VARIABLE_STORE_SIZE
                 then Some (Some i, store_new (i, False) name st) else Some (None, st)
     | None \<Rightarrow> Some (None, st))"
  using var_invD(1) [OF assms]
  by (simp add: new_var_def var_alloc_mem_def c_strcpy_def store_new_def point_to_def split: option.split)

text \<open>What an unsuccessful new variable leaves: a name without a value.\<close>

definition no_room :: "u8 list \<Rightarrow> u8 list \<Rightarrow> var_store \<Rightarrow> bool" where
  "no_room name val st \<longleftrightarrow> variable_store_actpos st + length name < VARIABLE_STORE_SIZE
     \<and> VARIABLE_STORE_SIZE \<le> variable_store_actpos st + length name + 1 + length val"

lemma var_complete_slots: "(\<And>i. slot st' (i, True) = None \<Longrightarrow> slot st (i, True) = None) \<Longrightarrow>
    (\<And>i. slot st' (i, False) \<noteq> None \<Longrightarrow> slot st (i, False) \<noteq> None \<or> slot st' (i, True) \<noteq> None) \<Longrightarrow> var_complete st \<Longrightarrow> var_complete st'"
  unfolding var_complete_def by blast

lemma set_new_var:
  assumes inv: "var_inv st" and name: "0 \<notin> set name" "name \<noteq> []" and val: "0 \<notin> set val"
    and unset: "\<forall>j < VARIABLES_MAX. fst (var_decode st ! j) \<noteq> Some name"
    and i: "var_get_free_var st = Some i" and room: "variable_store_actpos st + length name < VARIABLE_STORE_SIZE"
  defines "st1 \<equiv> store_new (i, False) name st"
  shows "var_inv st1" and "var_abs st1 = var_abs st" and "i < VARIABLES_MAX"
    and "variable_store_actpos st1 + length val < VARIABLE_STORE_SIZE \<Longrightarrow>
      var_inv (store_new (i, True) val st1) \<and> var_abs (store_new (i, True) val st1) = (var_abs st)(name \<mapsto> val)
        \<and> (var_complete st \<longrightarrow> var_complete (store_new (i, True) val st1))"
proof -
  note L = var_invD(3) [OF inv]
  from i have free: "i < VARIABLES_MAX" "fst (variable_list st ! i) = None"
    using free_from_free [of 0 "variable_list st" i] L by (auto simp: var_get_free_var_def)
  then show "i < VARIABLES_MAX" by simp
  have free': "slot st (i, False) = None" using free L by (simp add: slot_def)
  then have d: "var_decode st ! i = (None, None)" using free L var_invD(6) [OF inv] by (simp add: var_decode_nth slot_string_def)
  have abs: "assoc ((var_decode st)[i := (Some name, v)]) = (assoc (var_decode st))(name := v)" for v
    using free L unset d by (intro assoc_update) auto
  have none: "assoc (var_decode st) name = None" using unset L by (intro assoc_none) auto
  show inv1: "var_inv st1" unfolding st1_def using free room name by (intro store_new_inv [OF inv]) auto
  have d1: "var_decode st1 = (var_decode st)[i := (Some name, None)]"
    using var_decode_update [of st1 st i False name] store_new_string [OF inv room name(1), of "(i, False)"] free L d
    by (simp add: st1_def)
  then show "var_abs st1 = var_abs st" using abs [of None] none by (auto simp: var_abs_def fun_eq_iff)
  have L1: "length (variable_list st1) = VARIABLES_MAX" using L by (simp add: st1_def)
  assume room1: "variable_store_actpos st1 + length val < VARIABLE_STORE_SIZE"
  let ?st = "store_new (i, True) val st1"
  have sl: "slot st1 (i, False) \<noteq> None" using slot_store_new [of "(i, False)" st name] free L by (simp add: st1_def)
  have "var_inv ?st" using sl free room1 val by (intro store_new_inv [OF inv1]) auto
  moreover have "var_decode ?st = (var_decode st)[i := (Some name, Some val)]"
    using var_decode_update [of ?st st1 i True val] store_new_string [OF inv1 room1 val, of "(i, True)"] free L L1 d1 by simp
  then have "var_abs ?st = (var_abs st)(name \<mapsto> val)" using abs [of "Some val"] name(2) by (auto simp: var_abs_def fun_eq_iff)
  moreover have "var_complete ?st" if "var_complete st"
  proof (rule var_complete_slots [OF _ _ that])
    fix k
    have *: "slot ?st y = (if y = (i, True) \<or> y = (i, False) then slot ?st y else slot st y)" for y
      using slot_store_new [of "(i, True)" st1 val y] slot_store_new [of "(i, False)" st name y] free L L1 by (auto simp: st1_def)
    have **: "slot ?st (i, True) \<noteq> None" using slot_store_new [of "(i, True)" st1 val] free L1 by simp
    show "slot ?st (k, True) = None \<Longrightarrow> slot st (k, True) = None" using * [of "(k, True)"] ** by (cases "k = i") auto
    show "slot ?st (k, False) \<noteq> None \<Longrightarrow> slot st (k, False) \<noteq> None \<or> slot ?st (k, True) \<noteq> None" using * [of "(k, False)"] ** by (cases "k = i") auto
  qed
  ultimately show "var_inv ?st \<and> var_abs ?st = (var_abs st)(name \<mapsto> val) \<and> (var_complete st \<longrightarrow> var_complete ?st)" by blast
qed

lemma set_old_var:
  assumes inv: "var_inv st" and name: "name \<noteq> []" and val: "0 \<notin> set val"
    and i: "i < VARIABLES_MAX" "fst (var_decode st ! i) = Some name" "\<forall>j < i. fst (var_decode st ! j) \<noteq> Some name"
  shows "variable_store_actpos st + length val < VARIABLE_STORE_SIZE \<Longrightarrow>
      var_inv (store_new (i, True) val st) \<and> var_abs (store_new (i, True) val st) = (var_abs st)(name \<mapsto> val)
        \<and> (var_complete st \<longrightarrow> var_complete (store_new (i, True) val st))"
    and "slot st (i, True) = Some p \<Longrightarrow> length val \<le> length (string_at (variable_store st) p) \<Longrightarrow>
      var_inv (store_over p val st) \<and> var_abs (store_over p val st) = (var_abs st)(name \<mapsto> val)
        \<and> (var_complete st \<longrightarrow> var_complete (store_over p val st))"
proof -
  note L = var_invD(3) [OF inv]
  have sl: "slot st (i, False) \<noteq> None" using i L by (auto simp: var_decode_nth slot_string_def)
  have upd: "var_abs st' = (var_abs st)(name \<mapsto> val)"
    if "length (variable_list st') = length (variable_list st)" "\<And>y. slot_string st' y = (if y = (i, True) then Some val else slot_string st y)" for st'
  proof (rule var_abs_update [OF _ name])
    show "var_decode st' = (var_decode st)[i := (Some name, Some val)]" using var_decode_update [OF that(1) _ that(2)] i L by simp
  qed (use i L in auto)
  {
    assume room: "variable_store_actpos st + length val < VARIABLE_STORE_SIZE"
    let ?st = "store_new (i, True) val st"
    have "var_inv ?st" using sl i room val by (intro store_new_inv [OF inv]) auto
    moreover have "var_abs ?st = (var_abs st)(name \<mapsto> val)"
      using store_new_string [OF inv room val, of "(i, True)"] i by (intro upd) auto
    moreover have "var_complete ?st" if "var_complete st"
      using that slot_store_new [of "(i, True)" st val] i L unfolding var_complete_def by auto
    ultimately show "var_inv ?st \<and> var_abs ?st = (var_abs st)(name \<mapsto> val) \<and> (var_complete st \<longrightarrow> var_complete ?st)" by blast
  next
    assume p: "slot st (i, True) = Some p" "length val \<le> length (string_at (variable_store st) p)"
    let ?st = "store_over p val st"
    have "var_inv ?st" by (rule store_over_inv [OF inv p val])
    moreover have "var_abs ?st = (var_abs st)(name \<mapsto> val)" by (intro upd store_over_string [OF inv p val]) simp
    moreover have "var_complete ?st" if "var_complete st" using that by (simp add: var_complete_def)
    ultimately show "var_inv ?st \<and> var_abs ?st = (var_abs st)(name \<mapsto> val) \<and> (var_complete st \<longrightarrow> var_complete ?st)" by blast
  }
qed

text \<open>
  C36. Setting a variable. While every variable has a value, \<open>var_set\<close> always returns; 0 means that the variable has the new value and all
  others have kept theirs, anything else that no value has changed. After a failure every variable still has a value unless the name found room
  in the store and its value did not, and the call succeeds whenever the name is allowed, an entry is free and both strings fit.
\<close>

theorem var_set_refines:
  assumes inv: "var_inv st" "var_complete st" and name: "0 \<notin> set name" "name \<noteq> []" and val: "0 \<notin> set val"
  shows "\<exists>r st'. var_set_value True name val st = Some (r, st') \<and> var_inv st'
    \<and> (if r = 0 then var_abs st' = (var_abs st)(name \<mapsto> val) \<and> var_complete st'
       else var_abs st' = var_abs st \<and> (var_complete st' \<or> no_room name val st))
    \<and> (\<not> bad_var_name name \<and> var_get_free_var st \<noteq> None
         \<and> variable_store_actpos st + length name + 1 + length val < VARIABLE_STORE_SIZE \<longrightarrow> r = 0)"
  using inv(1) name
proof (cases rule: var_get_index_first)
  case unset
  note L = var_invD(3) [OF inv(1)]
  show ?thesis
  proof (cases "var_get_free_var st \<noteq> None \<and> \<not> bad_var_name name \<and> variable_store_actpos st + length name < VARIABLE_STORE_SIZE")
    case False
    then have "var_set_value True name val st = Some (1, st)"
      using unset(1) by (auto simp: var_set_value_def new_var_stores [OF inv(1)] split: option.splits)
    then show ?thesis using False inv by auto
  next
    case True
    then obtain i where i: "var_get_free_var st = Some i" by auto
    note * = set_new_var [OF inv(1) name val unset(2) i conjunct2 [OF conjunct2 [OF True]]]
    define st1 where "st1 = store_new (i, False) name st"
    have ap: "variable_store_actpos st1 = variable_store_actpos st + length name + 1" by (simp add: st1_def store_new_def)
    have "var_set_value True name val st = new_value True i val st1"
      using unset(1) True i by (simp add: var_set_value_def new_var_stores [OF inv(1)] st1_def)
    then have e: "var_set_value True name val st =
        (if variable_store_actpos st1 + length val < VARIABLE_STORE_SIZE then Some (0, store_new (i, True) val st1) else Some (1, st1))"
      using new_value_stores [OF *(1)] by (simp add: st1_def)
    show ?thesis
    proof (cases "variable_store_actpos st1 + length val < VARIABLE_STORE_SIZE")
      case room: True
      then show ?thesis using e *(4) inv(2) by (simp add: st1_def)
    next
      case room: False
      then have "no_room name val st" using True ap by (simp add: no_room_def)
      then show ?thesis using e room *(1,2) ap by (simp add: st1_def)
    qed
  qed
next
  case (first i)
  note L = var_invD(3) [OF inv(1)] and * = set_old_var [OF inv(1) name(2) val first(2-4)]
  have "slot st (i, False) \<noteq> None" using first(2,3) L by (auto simp: var_decode_nth slot_string_def)
  then obtain p where p: "slot st (i, True) = Some p" using inv(2) unfolding var_complete_def by blast
  then have p': "snd (variable_list st ! i) = Some p" using first(2) L by (simp add: slot_def)
  have "p + length (string_at (variable_store st) p) < length (variable_store st)" using var_invD(1,2,4) [OF inv(1)] p by fastforce
  then have e: "var_set_value True name val st =
      (if length val \<le> length (string_at (variable_store st) p) then Some (0, store_over p val st) else new_value True i val st)"
    using first(1) p' by (simp add: var_set_value_def c_string_def c_strcpy_def store_over_def)
  show ?thesis
  proof (cases "length val \<le> length (string_at (variable_store st) p)")
    case True
    then show ?thesis using e *(2) [OF p] inv(2) by simp
  next
    case False
    then have "var_set_value True name val st = new_value True i val st" using e by simp
    then show ?thesis using *(1) inv unfolding new_value_stores [OF inv(1)] by auto
  qed
qed

text \<open>
  A failure that leaves a name without a value: the next attempt to set that variable reads the string at a null pointer.
\<close>

lemma var_set_half:
  assumes inv: "var_inv st" and name: "0 \<notin> set name" "name \<noteq> []" "\<not> bad_var_name name"
    and unset: "var_get_index st name = Some None" and free: "var_get_free_var st \<noteq> None" and room: "no_room name val st"
  shows "\<exists>st'. var_set_value True name val st = Some (1, st') \<and> (\<forall>val'. var_set_value True name val' st' = None)"
  using inv name(1,2)
proof (cases rule: var_get_index_first)
  case u: unset
  obtain i where i: "var_get_free_var st = Some i" using free by blast
  have ap: "variable_store_actpos st + length name < VARIABLE_STORE_SIZE" using room by (simp add: no_room_def)
  define st1 where "st1 = store_new (i, False) name st"
  have i': "i < VARIABLES_MAX" "fst (variable_list st ! i) = None"
    using free_from_free [of 0 "variable_list st" i] i var_invD(3) [OF inv] by (auto simp: var_get_free_var_def)
  have inv1: "var_inv st1" unfolding st1_def using i' ap name by (intro store_new_inv [OF inv]) auto
  have e: "var_set_value True name val st = Some (1, st1)"
    using unset i room ap name(3) inv1
    by (simp add: var_set_value_def new_var_stores [OF inv] new_value_stores no_room_def st1_def [symmetric])
       (simp add: st1_def store_new_def)
  have sl: "slot st1 y = (if y = (i, False) then Some (variable_store_actpos st) else slot st y)" for y
    using slot_store_new [of "(i, False)" st name y] i' var_invD(3) [OF inv] by (simp add: st1_def)
  have noval: "snd (variable_list st1 ! i) = None"
  proof -
    have "slot st (i, False) = None" using i' var_invD(3) [OF inv] by (simp add: slot_def)
    then have "slot st1 (i, True) = None" using var_invD(6) [OF inv] by (simp add: sl)
    then show ?thesis using i' var_invD(3) [OF inv1] by (simp add: slot_def)
  qed
  have "var_get_index st1 name = Some (Some i)"
    using inv1 name(1,2)
  proof (cases rule: var_get_index_first)
    case unset
    then show ?thesis using i' var_invD(3) [OF inv1] store_new_string [OF inv ap name(1), of "(i, False)"]
      by (auto simp: var_decode_nth st1_def)
  next
    case (first j)
    have "j = i"
    proof (rule ccontr)
      assume "j \<noteq> i"
      then have "fst (var_decode st ! j) = Some name"
        using first(2,3) i' store_new_string [OF inv ap name(1), of "(i, False)" "(j, False)"] var_invD(3) [OF inv1] var_invD(3) [OF inv]
        by (simp add: var_decode_nth st1_def)
      then show False using u(2) first(2) by blast
    qed
    then show ?thesis using first(1) by simp
  qed
  then have "var_set_value True name val' st1 = None" for val' using noval by (simp add: var_set_value_def)
  then show ?thesis using e by blast
qed (use unset in simp)

section \<open>References are replaced by values\<close>

text \<open>A line as a sequence of plain characters and references, as text and with the values of the variables.\<close>

datatype piece = Plain u8 | Ref "u8 list"

fun piece_text :: "piece \<Rightarrow> u8 list" where
  "piece_text (Plain c) = [c]"
| "piece_text (Ref n) = [0x24, 0x28] @ n @ [0x29]"

fun piece_value :: "(u8 list \<Rightarrow> u8 list option) \<Rightarrow> piece \<Rightarrow> u8 list" where
  "piece_value vars (Plain c) = [c]"
| "piece_value vars (Ref n) = the (vars n)"

fun piece_ok :: "(u8 list \<Rightarrow> u8 list option) \<Rightarrow> piece \<Rightarrow> bool" where
  "piece_ok vars (Plain c) \<longleftrightarrow> c \<noteq> 0 \<and> c \<noteq> 0x24"
| "piece_ok vars (Ref n) \<longleftrightarrow> 0 \<notin> set n \<and> 0x29 \<notin> set n \<and> vars n \<noteq> None"

definition line_text :: "piece list \<Rightarrow> u8 list" where
  "line_text ps = concat (map piece_text ps)"

definition line_value :: "(u8 list \<Rightarrow> u8 list option) \<Rightarrow> piece list \<Rightarrow> u8 list" where
  "line_value vars ps = concat (map (piece_value vars) ps)"

lemma drop_nth_hd: "drop i xs = y # ys \<Longrightarrow> i < length xs \<and> xs ! i = y \<and> drop (Suc i) xs = ys"
  by (metis drop_Suc drop_all hd_drop_conv_nth list.distinct(1) list.sel(1,3) not_le_imp_less tl_drop)

lemma end_var_name: "drop e str = n @ 0x29 # later \<Longrightarrow> 0 \<notin> set n \<Longrightarrow> 0x29 \<notin> set n \<Longrightarrow> end_var str e = Some (e + length n)"
proof (induction n arbitrary: e)
  case Nil
  then show ?case using drop_nth_hd [of e str "0x29" later] by (subst end_var.simps) simp
next
  case (Cons c n)
  have *: "e < length str" "str ! e = c" "drop (Suc e) str = n @ 0x29 # later" using drop_nth_hd [of e str c] Cons.prems(1) by auto
  then have "end_var str (Suc e) = Some (Suc e + length n)" using Cons.prems by (intro Cons.IH) auto
  then show ?case using * Cons.prems by (subst end_var.simps) auto
qed

text \<open>What the expansion needs of the table: it finds the values of \<open>vars\<close>.\<close>

definition reads_vars :: "var_store \<Rightarrow> (u8 list \<Rightarrow> u8 list option) \<Rightarrow> bool" where
  "reads_vars st vars \<longleftrightarrow> (\<forall>n v. 0 \<notin> set n \<longrightarrow> vars n = Some v \<longrightarrow>
     0 \<notin> set v \<and> (\<exists>p. var_get st n = Some (Some p) \<and> c_string (variable_store st) p = Some v))"

lemma assoc_in: "assoc xs n = Some v \<Longrightarrow> \<exists>k. (k, Some v) \<in> set xs"
  by (induction xs n rule: assoc.induct) (auto split: if_splits)

lemma var_abs_nonzero: "var_abs st n = Some v \<Longrightarrow> 0 \<notin> set v"
  using assoc_in [of "var_decode st" n v] string_at_nonzero by (auto simp: var_abs_def var_decode_def map_option_case split: if_splits option.splits)

lemma reads_vars_abs: "var_inv st \<Longrightarrow> reads_vars st (var_abs st)"
  unfolding reads_vars_def using var_get_abs var_abs_nonzero by fastforce

lemma reads_vars_empty: "reads_vars st Map.empty"
  by (simp add: reads_vars_def)

lemma sprint_loop_pieces:
  assumes inv: "reads_vars st vars"
  shows "drop i str = line_text ps @ 0 # later \<Longrightarrow> list_all (piece_ok (vars)) ps \<Longrightarrow> b + length (line_value (vars) ps) < length buf
    \<Longrightarrow> sprint_loop st str i buf b = Some (b + length (line_value (vars) ps), overlay buf b (line_value (vars) ps @ [0]))"
proof (induction ps arbitrary: i buf b)
  case Nil
  then show ?case using drop_nth_hd [of i str 0 later] by (subst sprint_loop.simps) (simp add: line_text_def line_value_def put_bytes_def)
next
  case (Cons x ps)
  show ?case
  proof (cases x)
    case (Plain c)
    have *: "i < length str" "str ! i = c" "drop (Suc i) str = line_text ps @ 0 # later"
      using drop_nth_hd [of i str c] Cons.prems(1) Plain by (auto simp: line_text_def)
    have len: "b + length [c] + length (line_value (vars) ps) < length (overlay buf b [c])"
      using Cons.prems(3) Plain by (simp add: line_value_def)
    note IH = Cons.IH [OF *(3) _ len]
    have "sprint_loop st str i buf b = sprint_loop st str (Suc i) (overlay buf b [c]) (Suc b)"
      using * Cons.prems(2,3) Plain by (subst sprint_loop.simps) (simp add: put_bytes_def line_value_def)
    also have "\<dots> = Some (Suc b + length (line_value (vars) ps), overlay (overlay buf b [c]) (b + length [c]) (line_value (vars) ps @ [0]))"
      using IH Cons.prems(2) by simp
    also have "overlay (overlay buf b [c]) (b + length [c]) (line_value (vars) ps @ [0]) = overlay buf b (line_value (vars) (x # ps) @ [0])"
      using overlay_overlay [of b "[c]" "line_value (vars) ps @ [0]" buf] Cons.prems(3) Plain by (simp add: line_value_def)
    finally show ?thesis using Plain by (simp add: line_value_def)
  next
    case (Ref n)
    obtain v where v: "vars n = Some v" and n: "0 \<notin> set n" "0x29 \<notin> set n" using Cons.prems(2) Ref by auto
    obtain p where p: "var_get st n = Some (Some p)" "c_string (variable_store st) p = Some v"
      using inv v n(1) unfolding reads_vars_def by blast
    have "drop i str = 0x24 # 0x28 # n @ 0x29 # line_text ps @ 0 # later" using Cons.prems(1) Ref by (simp add: line_text_def)
    then have *: "i < length str" "str ! i = 0x24" and "drop (Suc i) str = 0x28 # n @ 0x29 # line_text ps @ 0 # later"
      using drop_nth_hd [of i str] by auto
    then have **: "Suc i < length str" "str ! Suc i = 0x28" and nm: "drop (i + 2) str = n @ 0x29 # line_text ps @ 0 # later"
      using drop_nth_hd [of "Suc i" str] by auto
    then have e: "end_var str (i + 2) = Some (i + 2 + length n)" using end_var_name n by blast
    have cl: "drop (i + 2 + length n) str = 0x29 # line_text ps @ 0 # later"
      using arg_cong [OF nm, of "drop (length n)"] by (simp add: add.commute)
    then have cl': "i + 2 + length n < length str" "str ! (i + 2 + length n) = 0x29" "drop (Suc (i + 2 + length n)) str = line_text ps @ 0 # later"
      using drop_nth_hd [of "i + 2 + length n" str] by auto
    have len: "b + length v + length (line_value (vars) ps) < length (overlay buf b v)"
      using Cons.prems(3) Ref v by (simp add: line_value_def)
    note IH = Cons.IH [OF cl'(3) _ len]
    have "sprint_loop st str i buf b = sprint_loop st str (Suc (i + 2 + length n)) (overlay buf b v) (b + length v)"
      using * ** e cl'(1,2) nm p Cons.prems(3) Ref v by (subst sprint_loop.simps) (simp add: put_bytes_def line_value_def)
    also have "\<dots> = Some (b + length v + length (line_value (vars) ps), overlay (overlay buf b v) (b + length v) (line_value (vars) ps @ [0]))"
      using IH Cons.prems(2) by simp
    also have "overlay (overlay buf b v) (b + length v) (line_value (vars) ps @ [0]) = overlay buf b (line_value (vars) (x # ps) @ [0])"
      using overlay_overlay [of b v "line_value (vars) ps @ [0]" buf] Cons.prems(3) Ref v by (simp add: line_value_def)
    finally show ?thesis using Ref v by (simp add: line_value_def)
  qed
qed

lemma line_nonzero:
  assumes inv: "reads_vars st vars" and "list_all (piece_ok (vars)) ps"
  shows "0 \<notin> set (line_text ps)" and "0 \<notin> set (line_value (vars) ps)"
proof -
  have "0 \<notin> set (piece_text x) \<and> 0 \<notin> set (piece_value (vars) x)" if "piece_ok (vars) x" for x
    using that inv by (cases x) (auto simp: reads_vars_def)
  then show "0 \<notin> set (line_text ps)" and "0 \<notin> set (line_value (vars) ps)"
    using assms(2) by (auto simp: line_text_def line_value_def list_all_iff)
qed

lemma overlay_string: "length s < length buf \<Longrightarrow> overlay buf 0 (s @ [0]) = s @ 0 # drop (Suc (length s)) buf"
  by (simp add: overlay_def)

lemma c_string_start: "0 \<notin> set s \<Longrightarrow> c_string (s @ 0 # later) 0 = Some s"
  using string_atI [of 0 "s @ 0 # later" s later] by (auto simp: c_string_def)

text \<open>One round over a line.\<close>

lemma sprint_round:
  assumes inv: "reads_vars st vars" and ps: "list_all (piece_ok (vars)) ps" and src: "src = line_text ps" "length src < 1000"
    and v: "v = line_value (vars) ps" "length v < length (src @ 0 # later)" and buffer: "length buffer = 1000"
  shows "sprint_rounds True st (Suc i) (src @ 0 # later) buffer =
    (if i = 0 \<or> v = src then Some (overlay (src @ 0 # later) 0 (v @ [0]))
     else sprint_rounds True st i (overlay (src @ 0 # later) 0 (v @ [0])) (overlay buffer 0 (src @ [0])))"
proof -
  note nz = line_nonzero [OF inv ps]
  let ?buf = "src @ 0 # later" and ?b1 = "overlay buffer 0 (src @ [0])"
  have b1: "?b1 = src @ 0 # drop (Suc (length src)) buffer" using src buffer by (intro overlay_string) simp
  have "var_sprint_once st ?buf ?b1 = Some (length v, overlay ?buf 0 (v @ [0]))"
    using sprint_loop_pieces [OF inv, of 0 ?b1 ps "drop (Suc (length src)) buffer" 0 ?buf] v src ps b1 by (simp add: var_sprint_once_def)
  moreover obtain c where "grub_strcmp (overlay ?buf 0 (v @ [0])) ?b1 = Some c" "c = 0 \<longleftrightarrow> v = src"
    using grub_strcmp_append [OF nz(2,1), of "drop (Suc (length v)) ?buf" "drop (Suc (length src)) buffer"]
    unfolding overlay_string [OF v(2)] b1 v(1) [symmetric] src(1) [symmetric] by auto
  moreover have "c_strcpy True buffer 0 src = Some ?b1" using src buffer by (simp add: c_strcpy_def)
  moreover have "c_string ?buf 0 = Some src" using c_string_start nz(1) src(1) by simp
  moreover have "\<not> 1000 < length src" using src(2) by simp
  ultimately show ?thesis by (cases "v = src") (simp_all del: One_nat_def)
qed

lemma var_sprint_pieces:
  assumes inv: "reads_vars st vars" and ps: "list_all (piece_ok vars) ps" and plain: "0x24 \<notin> set (line_value vars ps)"
    and len: "length (line_text ps) < 1000" "length (line_value vars ps) < 1000"
    and buf: "length (line_text ps) < length buf" "length (line_value vars ps) < length buf" and buffer: "length buffer = 1000"
  shows "\<exists>buf'. var_sprint True st buffer buf (line_text ps) = Some (length (line_value vars ps), buf')
    \<and> c_string buf' 0 = Some (line_value vars ps) \<and> length buf' = length buf"
proof -
  define src v where "src = line_text ps" and "v = line_value (vars) ps"
  note nz = line_nonzero [OF inv ps, folded src_def v_def]
  define later where "later = drop (Suc (length src)) buf"
  have b0: "overlay buf 0 (src @ [0]) = src @ 0 # later" unfolding later_def using buf by (intro overlay_string) (simp add: src_def)
  have blen: "length (src @ 0 # later) = length buf" using buf by (simp add: later_def src_def)
  define buf1 where "buf1 = overlay (src @ 0 # later) 0 (v @ [0])"
  have buf1: "buf1 = v @ 0 # drop (Suc (length v)) (src @ 0 # later)"
    unfolding buf1_def using buf(2) blen by (intro overlay_string) (simp add: v_def)
  have len1: "length buf1 = length buf" using buf1 buf(2) blen by (simp add: v_def)
  define buffer1 where "buffer1 = overlay buffer 0 (src @ [0])"
  have round1: "sprint_rounds True st 10 (src @ 0 # later) buffer = (if v = src then Some buf1 else sprint_rounds True st 9 buf1 buffer1)"
    using sprint_round [OF inv ps src_def _ v_def _ buffer, of later 9] len buf blen by (simp add: src_def v_def buf1_def buffer1_def)
  have plain_ps: "list_all (piece_ok (vars)) (map Plain v)" "line_text (map Plain v) = v" "line_value (vars) (map Plain v) = v"
    using nz plain by (auto simp: list_all_iff line_text_def line_value_def v_def comp_def)
  have len_b1: "length buffer1 = 1000" using buffer len by (simp add: buffer1_def src_def)
  have "sprint_rounds True st 9 buf1 buffer1 = Some (overlay buf1 0 (v @ [0]))"
    using sprint_round [OF inv plain_ps(1) plain_ps(2) [symmetric] _ plain_ps(3) [symmetric] _ len_b1, of "drop (Suc (length v)) (src @ 0 # later)" 8] len
    by (simp add: buf1 v_def)
  also have "overlay buf1 0 (v @ [0]) = buf1" unfolding buf1 by (simp add: overlay_def)
  finally have "sprint_rounds True st 10 (src @ 0 # later) buffer = Some buf1" using round1 by simp
  moreover have "c_string buf1 0 = Some v" using c_string_start [OF nz(2)] by (simp add: buf1)
  moreover have "c_strcpy True buf 0 src = Some (src @ 0 # later)" using buf b0 by (simp add: c_strcpy_def src_def)
  ultimately have "var_sprint True st buffer buf src = Some (length v, buf1)" by (simp add: var_sprint_def)
  then show ?thesis using len1 \<open>c_string buf1 0 = Some v\<close> by (auto simp: src_def v_def)
qed

text \<open>A line without references stays as it is.\<close>

lemma var_sprint_plain:
  assumes "0 \<notin> set l" "0x24 \<notin> set l" and "length l < 1000" "length l < length buf" "length buffer = 1000"
  shows "\<exists>buf'. var_sprint True st buffer buf l = Some (length l, buf') \<and> c_string buf' 0 = Some l"
proof -
  have "line_text (map Plain l) = l" "line_value Map.empty (map Plain l) = l" "list_all (piece_ok Map.empty) (map Plain l)"
    using assms(1,2) by (auto simp: line_text_def line_value_def comp_def list_all_iff)
  then show ?thesis using var_sprint_pieces [OF reads_vars_empty, of "map Plain l" buf buffer st] assms by auto
qed

text \<open>
  C37. The replacement of variables. For a line made of plain characters and of references \<open>$(name)\<close> to variables that are set, whose values
  contain no \<open>$\<close>, \<open>var_sprint\<close> writes the line with every reference replaced by the value and returns its length, if line and result
  have less than 1000 characters and the buffer has room for them.
\<close>

theorem var_sprint_expands:
  assumes inv: "var_inv st" and ps: "list_all (piece_ok (var_abs st)) ps" and plain: "0x24 \<notin> set (line_value (var_abs st) ps)"
    and len: "length (line_text ps) < 1000" "length (line_value (var_abs st) ps) < 1000"
    and buf: "length (line_text ps) < length buf" "length (line_value (var_abs st) ps) < length buf" and buffer: "length buffer = 1000"
  shows "\<exists>buf'. var_sprint True st buffer buf (line_text ps) = Some (length (line_value (var_abs st) ps), buf')
    \<and> c_string buf' 0 = Some (line_value (var_abs st) ps) \<and> length buf' = length buf"
  by (rule var_sprint_pieces [OF reads_vars_abs [OF inv] ps plain len buf buffer])

text \<open>The empty store, and a variable set and read in it.\<close>

definition no_vars :: var_store where
  "no_vars = \<lparr>variable_store = replicate VARIABLE_STORE_SIZE 0, variable_store_actpos = 0, variable_list = replicate VARIABLES_MAX (None, None)\<rparr>"

lemma no_vars_slot: "slot no_vars x = None"
  by (simp add: slot_def no_vars_def split: prod.split)

lemma no_vars_pos [simp]: "variable_store_actpos no_vars = 0"
  by (simp add: no_vars_def)

lemma no_vars_inv: "var_inv no_vars" and no_vars_complete: "var_complete no_vars"
  by (simp_all add: var_inv_def no_vars_slot var_complete_def) (simp_all add: no_vars_def)

lemma no_vars_abs: "var_abs no_vars = Map.empty"
proof -
  have "assoc (replicate n (None, None)) var = None" for n var by (induction n) auto
  then show ?thesis by (simp add: var_abs_def var_decode_def no_vars_def fun_eq_iff)
qed

lemma no_vars_free: "var_get_free_var no_vars = Some 0"
  by (simp add: var_get_free_var_def no_vars_def VARIABLES_MAX_def numeral_eq_Suc)

text \<open>\<open>os\<close> set to \<open>hurd\<close>.\<close>

lemma os_hurd: "\<exists>st. var_inv st \<and> var_abs st = [[0x6f, 0x73] \<mapsto> [0x68, 0x75, 0x72, 0x64]]"
proof -
  have unset: "\<forall>j < VARIABLES_MAX. fst (var_decode no_vars ! j) \<noteq> Some [0x6f, 0x73]"
    by (simp add: var_decode_def no_vars_def)
  show ?thesis
    using set_new_var(4) [OF no_vars_inv _ _ _ unset no_vars_free, of "[0x68, 0x75, 0x72, 0x64]"] no_vars_abs
    by (auto simp: store_new_def no_vars_pos VARIABLE_STORE_SIZE_def)
qed

lemma var_set_refines_witness:
  "\<exists>st. var_set_value True [0x6f, 0x73] [0x68, 0x75, 0x72, 0x64] no_vars = Some (0, st) \<and> var_inv st
     \<and> var_abs st = [[0x6f, 0x73] \<mapsto> [0x68, 0x75, 0x72, 0x64]]"
  using var_set_refines [OF no_vars_inv no_vars_complete, of "[0x6f, 0x73]" "[0x68, 0x75, 0x72, 0x64]"]
  by (auto simp: no_vars_abs no_vars_free bad_var_name_def VARIABLE_STORE_SIZE_def no_vars_pos)

text \<open>The line \<open>kernel (hd0,0)/$(os)\<close> shortened to \<open>/$(os)\<close>.\<close>

lemma var_sprint_expands_witness:
  "\<exists>st buf'. var_sprint True st (replicate 1000 0) (replicate 20 0) [0x2f, 0x24, 0x28, 0x6f, 0x73, 0x29] = Some (5, buf')
     \<and> c_string buf' 0 = Some [0x2f, 0x68, 0x75, 0x72, 0x64]"
proof -
  obtain st where st: "var_inv st" "var_abs st = [[0x6f, 0x73] \<mapsto> [0x68, 0x75, 0x72, 0x64]]" using os_hurd by blast
  define buffer buf :: "u8 list" where "buffer = replicate 1000 0" and "buf = replicate 20 0"
  have "length buffer = 1000" "length buf = 20" by (simp_all add: buffer_def buf_def)
  then obtain buf' where "var_sprint True st buffer buf [0x2f, 0x24, 0x28, 0x6f, 0x73, 0x29] = Some (5, buf')"
      and "c_string buf' 0 = Some [0x2f, 0x68, 0x75, 0x72, 0x64]"
    using st var_sprint_expands [of st "[Plain 0x2f, Ref [0x6f, 0x73]]" buf buffer] by (auto simp: line_text_def line_value_def)
  then show ?thesis unfolding buffer_def [symmetric] buf_def [symmetric] by blast
qed

end
