(* ===== verification/Cmdline.thy ===== *)
theory Cmdline
  imports Variables Checkfile Md5
begin

unbundle bit_operations_syntax

text \<open>
  The command line: \<^verbatim>\<open>stage2/cmdline.c\<close>, the table of commands of \<^verbatim>\<open>stage2/builtins.c\<close>, and \<open>print_error\<close> of
  \<^verbatim>\<open>stage2/char_io.c\<close>. The functions behind the commands are an argument of the table. A command line and the argument of a command
  are lists of characters without the NUL.

  The result \<open>Halted\<close> is an end of the boot loader: it stops the machine, jumps into a kernel, or starts anew.
\<close>

section \<open>State\<close>

datatype kernel_t =
    KERNEL_TYPE_NONE | KERNEL_TYPE_MULTIBOOT | KERNEL_TYPE_LINUX | KERNEL_TYPE_BIG_LINUX | KERNEL_TYPE_FREEBSD
  | KERNEL_TYPE_NETBSD | KERNEL_TYPE_OPENBSD | KERNEL_TYPE_CHAINLOADER

datatype password_t = PASSWORD_PLAIN | PASSWORD_MD5 | PASSWORD_UNSUPPORTED

text \<open>
  The variables of \<^verbatim>\<open>stage2/boot.c\<close> and what it changes of the multiboot information are \<open>boot_vars\<close>. \<open>ram\<close> is the memory that kernels are
  loaded to; the union \<^verbatim>\<open>syms\<close> has four words for either kind of symbol table; \<open>mll\<close> lists command line, start and end of the modules.
  \<open>mb_cmdline\<close> is an offset into the buffer \<open>mb_buf\<close>; \<open>password\<close> is the contents of the buffer the pointer shows to, if it is not null.
\<close>

record boot_vars =
  ram :: memory
  entry_addr :: u32
  cur_addr :: u32
  linux_data_real_addr :: u32
  linux_data_tmp_addr :: u32
  linux_mem_size :: u32
  linux_text_len :: u32
  extended_memory :: u32
  mem_lower :: u32
  vbe_mode :: u32
  mbi_cmdline :: u32
  mods_count :: u32
  mods_addr :: u32
  boot_device :: u32
  syms_num :: u32
  syms_size :: u32
  syms_addr :: u32
  syms_shndx :: u32
  mll :: "(u32 \<times> u32 \<times> u32) list"

text \<open>A key that switches between blocks of values for variables: the index of a variable and its value in the store.\<close>

record toggle =
  toggle_key :: int
  current_block :: nat
  toggle_blocks :: "(nat \<times> nat) list list"

record ('w, 't) shell =
  files :: "('w, 't) file_state"
  vars :: var_store
  kernel_type :: kernel_t
  bootdev :: u32
  mb_cmdline :: nat
  mb_buf :: "u8 list"
  mem_upper :: u32
  saved_mem_upper :: u32
  mmap_length :: u32
  mbi_flags :: u32
  boot_drive :: u32
  install_partition :: u32
  count_lines :: int
  use_pager :: bool
  default_entry :: u32
  saved_entryno :: u32
  current_entryno :: int
  fallback_entryno :: int
  fallback_entries :: "u32 list"
  grub_timeout :: u32
  show_menu :: bool
  auth :: bool
  password :: "u8 list option"
  password_type :: password_t
  bios_drive_map :: "16 word list"
  debug_mode :: bool
  config_file :: "u8 list"
  toggles :: "toggle list"
  var_expand_line_edit :: bool
  boot :: boot_vars

abbreviation serr :: "('w, 't) shell \<Rightarrow> grub_error_t" where
  "serr s \<equiv> ferr (files s)"

definition set_serr :: "grub_error_t \<Rightarrow> ('w, 't) shell \<Rightarrow> ('w, 't) shell" where
  "set_serr e s = s\<lparr>files := set_ferr e (files s)\<rparr>"

definition set_dev :: "'w dev_state \<Rightarrow> ('w, 't) shell \<Rightarrow> ('w, 't) shell" where
  "set_dev d s = s\<lparr>files := (files s)\<lparr>dev := d\<rparr>\<rparr>"

text \<open>
  The surroundings: the parts the file system code needs, what the stack holds, whether the program is compiled with \<^verbatim>\<open>SHOW_SHA1\<close> and
  \<^verbatim>\<open>DEBUG\<close>.
\<close>

record ('w, 't) shell_env =
  file_env_of :: "('w, 't) file_env"
  junk_of :: stack_junk
  dump_junk :: "u8 list"
  buffer_junk :: "u8 list"
  show_sha1 :: bool
  debug_build :: bool

section \<open>Errors\<close>

fun err_code :: "grub_error_t \<Rightarrow> nat" where
  "err_code ERR_NONE = 0" | "err_code ERR_BAD_FILENAME = 1" | "err_code ERR_BAD_FILETYPE = 2" | "err_code ERR_BAD_GZIP_DATA = 3"
| "err_code ERR_BAD_GZIP_HEADER = 4" | "err_code ERR_BAD_PART_TABLE = 5" | "err_code ERR_BAD_VERSION = 6" | "err_code ERR_BELOW_1MB = 7"
| "err_code ERR_BOOT_COMMAND = 8" | "err_code ERR_BOOT_FAILURE = 9" | "err_code ERR_BOOT_FEATURES = 10" | "err_code ERR_DEV_FORMAT = 11"
| "err_code ERR_DEV_VALUES = 12" | "err_code ERR_EXEC_FORMAT = 13" | "err_code ERR_FILELENGTH = 14" | "err_code ERR_FILE_NOT_FOUND = 15"
| "err_code ERR_FSYS_CORRUPT = 16" | "err_code ERR_FSYS_MOUNT = 17" | "err_code ERR_GEOM = 18" | "err_code ERR_NEED_LX_KERNEL = 19"
| "err_code ERR_NEED_MB_KERNEL = 20" | "err_code ERR_NO_DISK = 21" | "err_code ERR_NO_PART = 22" | "err_code ERR_NUMBER_PARSING = 23"
| "err_code ERR_OUTSIDE_PART = 24" | "err_code ERR_READ = 25" | "err_code ERR_SYMLINK_LOOP = 26" | "err_code ERR_UNRECOGNIZED = 27"
| "err_code ERR_WONT_FIT = 28" | "err_code ERR_WRITE = 29" | "err_code ERR_BAD_ARGUMENT = 30" | "err_code ERR_UNALIGNED = 31"
| "err_code ERR_PRIVILEGED = 32" | "err_code ERR_DEV_NEED_INIT = 33" | "err_code ERR_NO_DISK_SPACE = 34" | "err_code ERR_NUMBER_OVERFLOW = 35"
| "err_code ERR_BADMODADDR = 36"

definition MAX_ERR_NUM :: nat where "MAX_ERR_NUM = 37"

text \<open>\<open>print_error\<close>: while files are measured, the later errors stop the machine.\<close>

definition print_error :: "('w, 't) shell \<Rightarrow> ('w, 't) shell close_result" where
  "print_error s =
     (if perform_sha1 (files s) \<and> err_code ERR_EXEC_FORMAT < err_code (serr s) \<and> err_code (serr s) < MAX_ERR_NUM
      then Halted else Closed s)"

section \<open>Finding a command\<close>

definition BUILTIN_CMDLINE :: u32 where "BUILTIN_CMDLINE = 1"
definition BUILTIN_MENU :: u32 where "BUILTIN_MENU = 2"
definition BUILTIN_TITLE :: u32 where "BUILTIN_TITLE = 4"
definition BUILTIN_SCRIPT :: u32 where "BUILTIN_SCRIPT = 8"
definition BUILTIN_NO_ECHO :: u32 where "BUILTIN_NO_ECHO = 0x10"
definition BUILTIN_HELP_LIST :: u32 where "BUILTIN_HELP_LIST = 0x20"

type_synonym ('w, 't) command = "u8 list \<Rightarrow> u32 \<Rightarrow> ('w, 't) shell \<Rightarrow> (int \<times> ('w, 't) shell) close_result option"

record ('w, 't) builtin =
  cmd_name :: "u8 list"
  func :: "('w, 't) command"
  cmd_flags :: u32

definition skip_to :: "bool \<Rightarrow> u8 list \<Rightarrow> u8 list" where
  "skip_to after_equal cmdline =
     (let sep = (\<lambda>c. c = 0x20 \<or> c = 9 \<or> after_equal \<and> c = 0x3d)
      in dropWhile sep (dropWhile (\<lambda>c. \<not> sep c) cmdline))"

fun seek_builtin :: "('w, 't) builtin list \<Rightarrow> u8 list \<Rightarrow> ('w, 't) builtin option option" where
  "seek_builtin [] command = Some None"
| "seek_builtin (b # bs) command =
     do { ret \<leftarrow> grub_strcmp (command @ [0]) (cmd_name b @ [0]);
          if ret = 0 then Some (Some b) else if ret < 0 then Some None else seek_builtin bs command }"

definition command_word :: "u8 list \<Rightarrow> u8 list" where
  "command_word command = takeWhile (\<lambda>c. c \<noteq> 0x20 \<and> c \<noteq> 9 \<and> c \<noteq> 0x3d) command"

definition find_command :: "('w, 't) builtin list \<Rightarrow> u8 list \<Rightarrow> ('w, 't) shell \<Rightarrow> (('w, 't) builtin option \<times> ('w, 't) shell) option" where
  "find_command builtin_table command s =
     do { r \<leftarrow> seek_builtin builtin_table (command_word command);
          Some (r, if r = None then set_serr ERR_UNRECOGNIZED s else s) }"

text \<open>The table; a row whose first component is false is not compiled in.\<close>

record build_config =
  SUPPORT_NETBOOT :: bool
  GRUB_UTIL :: bool
  USE_MD5_PASSWORDS :: bool
  SUPPORT_SERIAL :: bool
  SUPPORT_HERCULES :: bool

definition ascii :: "string \<Rightarrow> u8 list" where
  "ascii s = map of_char s"

definition builtin_rows :: "build_config \<Rightarrow> (bool \<times> string \<times> u32) list" where
  "builtin_rows cfg =
    [(True, ''blocklist'', 0x21),
     (True, ''boot'', 0x21),
     (SUPPORT_NETBOOT cfg, ''bootp'', 0x23),
     (True, ''cat'', 0x21),
     (True, ''chainloader'', 0x21),
     (True, ''checkfile'', 0x01),
     (True, ''cmp'', 0x01),
     (True, ''color'', 0x23),
     (True, ''configfile'', 0x21),
     (True, ''debug'', 0x01),
     (True, ''default'', 0x02),
     (GRUB_UTIL cfg, ''device'', 0x23),
     (SUPPORT_NETBOOT cfg, ''dhcp'', 0x23),
     (True, ''displayapm'', 0x21),
     (True, ''displaymem'', 0x21),
     (GRUB_UTIL cfg, ''dump'', 0x01),
     (True, ''echo'', 0x23),
     (True, ''embed'', 0x01),
     (True, ''fallback'', 0x02),
     (True, ''find'', 0x21),
     (True, ''fstest'', 0x01),
     (True, ''geometry'', 0x21),
     (True, ''halt'', 0x21),
     (True, ''help'', 0x21),
     (True, ''hiddenmenu'', 0x02),
     (True, ''hide'', 0x23),
     (SUPPORT_NETBOOT cfg, ''ifconfig'', 0x23),
     (True, ''impsprobe'', 0x01),
     (True, ''initrd'', 0x21),
     (True, ''install'', 0x01),
     (True, ''ioprobe'', 0x01),
     (True, ''kernel'', 0x21),
     (True, ''lock'', 0x01),
     (True, ''makeactive'', 0x21),
     (True, ''map'', 0x21),
     (USE_MD5_PASSWORDS cfg, ''md5crypt'', 0x21),
     (True, ''modaddr'', 0x21),
     (True, ''module'', 0x21),
     (True, ''modulenounzip'', 0x21),
     (True, ''pager'', 0x23),
     (True, ''partnew'', 0x23),
     (True, ''parttype'', 0x23),
     (True, ''password'', 0x13),
     (True, ''pause'', 0x11),
     (True, ''print'', 0x23),
     (GRUB_UTIL cfg, ''quit'', 0x21),
     (SUPPORT_NETBOOT cfg, ''rarp'', 0x23),
     (True, ''read'', 0x01),
     (True, ''reboot'', 0x21),
     (True, ''root'', 0x21),
     (True, ''rootnoverify'', 0x21),
     (True, ''savedefault'', 0x01),
     (SUPPORT_SERIAL cfg, ''serial'', 0x23),
     (True, ''set'', 0x23),
     (True, ''setkey'', 0x23),
     (True, ''setup'', 0x21),
     (True, ''sha1'', 0x01),
     (SUPPORT_SERIAL cfg \<or> SUPPORT_HERCULES cfg, ''terminal'', 0x23),
     (SUPPORT_SERIAL cfg, ''terminfo'', 0x23),
     (True, ''testload'', 0x01),
     (True, ''testvbe'', 0x21),
     (SUPPORT_NETBOOT cfg, ''tftpserver'', 0x23),
     (True, ''timeout'', 0x02),
     (True, ''title'', 0x04),
     (True, ''toggle'', 0x23),
     (True, ''unhide'', 0x23),
     (True, ''uppermem'', 0x21),
     (True, ''varexpand'', 0x23),
     (True, ''vbeprobe'', 0x21),
     (True, ''vbeset'', 0x29),
     (True, ''vbematch'', 0x29)]"

definition builtin_table :: "build_config \<Rightarrow> (string \<Rightarrow> ('w, 't) command) \<Rightarrow> ('w, 't) builtin list" where
  "builtin_table cfg funcs =
     map (\<lambda>(_, n, fl). \<lparr>cmd_name = ascii n, func = funcs n, cmd_flags = fl\<rparr>) (filter fst (builtin_rows cfg))"

section \<open>Scripts and the command line\<close>

definition init_builtins :: "('w, 't) shell_env \<Rightarrow> ('w, 't) shell \<Rightarrow> ('w, 't) shell option" where
  "init_builtins env s =
     do { (bd, d) \<leftarrow> set_bootdev (int13_of (file_env_of env)) 0 (dev (files s));
          Some ((set_dev d s)\<lparr>kernel_type := KERNEL_TYPE_NONE, bootdev := bd, mb_cmdline := 0\<rparr>) }"

definition MB_INFO_MEM_MAP :: u32 where "MB_INFO_MEM_MAP = 0x40"

definition init_cmdline :: "('w, 't) shell_env \<Rightarrow> ('w, 't) shell \<Rightarrow> ('w, 't) shell option" where
  "init_cmdline env s =
     (let d = set_err ERR_NONE ((dev (files s))\<lparr>saved_drive := boot_drive s, saved_partition := install_partition s,
                current_drive := GRUB_INVALID_DRIVE\<rparr>);
          s1 = (set_dev d s)\<lparr>count_lines := -1, mem_upper := saved_mem_upper s,
                 mbi_flags := (if mmap_length s \<noteq> 0 then mbi_flags s OR MB_INFO_MEM_MAP else mbi_flags s)\<rparr>
      in init_builtins env s1)"

definition forget_buffer :: "('w, 't) shell \<Rightarrow> ('w, 't) shell" where
  "forget_buffer s = set_dev ((dev (files s))\<lparr>disk := (disk (dev (files s)))\<lparr>buf_drive := -1\<rparr>\<rparr>) s"

definition extend_line :: "('w, 't) shell_env \<Rightarrow> u8 list \<Rightarrow> ('w, 't) shell \<Rightarrow> ('w, 't) shell option" where
  "extend_line env line s =
     map_option (\<lambda>t. s\<lparr>files := (files s)\<lparr>tcg := t\<rparr>\<rparr>)
       (extend_cmdline_into_pcr (int1a_of (file_env_of env)) (tpm_present (file_env_of env)) (ctx_junk (junk_of env)) line (tcg (files s)))"

text \<open>
  Whether a command must not run in a script: with \<^verbatim>\<open>SHOW_SHA1\<close> and without \<^verbatim>\<open>DEBUG\<close> there is no statement left between the
  test for the echo and the test for the command line, so that the second becomes the body of the first.
\<close>

definition not_in_script :: "('w, 't) shell_env \<Rightarrow> u32 \<Rightarrow> bool" where
  "not_in_script env flags \<longleftrightarrow>
     (show_sha1 env \<and> \<not> debug_build env \<longrightarrow> flags AND BUILTIN_NO_ECHO = 0) \<and> flags AND BUILTIN_CMDLINE = 0"

text \<open>
  The loop of \<open>run_script\<close> at position \<open>cur\<close> of the script: the entries are strings one after the other, the last one is empty.
\<close>

function run_loop :: "('w, 't) shell_env \<Rightarrow> ('w, 't) builtin list \<Rightarrow> u8 list \<Rightarrow> nat \<Rightarrow> ('w, 't) shell \<Rightarrow> (int \<times> ('w, 't) shell) close_result option" where
  "run_loop env table script cur s =
     (if print_error s = Halted then Some Halted
      else if serr s \<noteq> ERR_NONE then Some (Closed (1, set_serr ERR_NONE s))
      else case c_string script cur of
        None \<Rightarrow> None
      | Some line \<Rightarrow>
          if line = [] \<and> kernel_type s = KERNEL_TYPE_NONE then Some (Closed (0, s))
          else
            let heap = (if line = [] then ascii ''boot'' else line);
                cur' = cur + length line + 1
            in Option.bind (var_sprint True (vars s) (buffer_junk env) (dump_junk env) heap) (\<lambda>(_, dump).
               Option.bind (c_string dump 0) (\<lambda>d.
               Option.bind (extend_line env heap s) (\<lambda>s1.
               Option.bind (find_command table d s1) (\<lambda>(b, s2).
                 case b of
                   None \<Rightarrow> run_loop env table script cur' s2
                 | Some b \<Rightarrow>
                     if not_in_script env (cmd_flags b) then run_loop env table script cur' (set_serr ERR_UNRECOGNIZED s2)
                     else Option.bind (func b (skip_to True d) BUILTIN_SCRIPT (forget_buffer s2)) (\<lambda>res.
                            if_closed res (\<lambda>(_, s3). run_loop env table script cur' s3)))))))"
  by pat_completeness auto
termination
  by (relation "measure (\<lambda>(env, table, script, cur, s). length script - cur)") (auto simp: c_string_def split: if_splits)

declare run_loop.simps [simp del]

definition run_script :: "('w, 't) shell_env \<Rightarrow> ('w, 't) builtin list \<Rightarrow> u8 list \<Rightarrow> ('w, 't) shell \<Rightarrow> (int \<times> ('w, 't) shell) close_result option" where
  "run_script env table script s = Option.bind (init_cmdline env s) (run_loop env table script 0)"

text \<open>
  \<open>enter_cmdline\<close> for a sequence of inputs; \<open>Escape\<close> leaves the command line. The result tells whether it has been left, or waits for the
  next input.
\<close>

datatype input = Escape | Typed "u8 list"

fun cmdline_loop :: "('w, 't) shell_env \<Rightarrow> ('w, 't) builtin list \<Rightarrow> input list \<Rightarrow> ('w, 't) shell \<Rightarrow> (bool \<times> ('w, 't) shell) close_result option" where
  "cmdline_loop env table inputs s =
     (if print_error s = Halted then Some Halted
      else let s0 = set_serr ERR_NONE s
           in case inputs of
                [] \<Rightarrow> Some (Closed (False, s0))
              | Escape # _ \<Rightarrow> Some (Closed (True, s0))
              | Typed heap # inputs' \<Rightarrow>
                  if heap = [] then cmdline_loop env table inputs' s0
                  else Option.bind (find_command table heap s0) (\<lambda>(b, s1).
                    case b of
                      None \<Rightarrow> cmdline_loop env table inputs' s1
                    | Some b \<Rightarrow>
                        if cmd_flags b AND BUILTIN_CMDLINE = 0 then cmdline_loop env table inputs' (set_serr ERR_UNRECOGNIZED s1)
                        else
                          let s2 = forget_buffer s1;
                              s3 = (if use_pager s2 then s2\<lparr>count_lines := 0\<rparr> else s2)
                          in Option.bind (extend_line env heap s3) (\<lambda>s4.
                               Option.bind (func b (skip_to True heap) BUILTIN_CMDLINE s4) (\<lambda>res.
                                 if_closed res (\<lambda>(_, s5). cmdline_loop env table inputs' (s5\<lparr>count_lines := -1\<rparr>))))))"

declare cmdline_loop.simps [simp del]

definition enter_cmdline :: "('w, 't) shell_env \<Rightarrow> ('w, 't) builtin list \<Rightarrow> input list \<Rightarrow> ('w, 't) shell \<Rightarrow> (bool \<times> ('w, 't) shell) close_result option" where
  "enter_cmdline env table inputs s = Option.bind (init_cmdline env s) (cmdline_loop env table inputs)"

section \<open>The commands of the table\<close>

definition word_less :: "u8 list \<Rightarrow> u8 list \<Rightarrow> bool" where
  "word_less a b = chars_less (a @ [0]) (b @ [0])"

lemma word_less_trans: "word_less a b \<Longrightarrow> word_less b c \<Longrightarrow> word_less a c"
  unfolding word_less_def chars_less_def by (rule lexord_trans) (auto simp: trans_def)

lemma word_less_irrefl: "\<not> word_less a a"
  unfolding word_less_def chars_less_def by (rule lexord_irreflexive) simp

lemma seek_sorted:
  assumes "sorted_wrt (\<lambda>a b. word_less (cmd_name a) (cmd_name b)) bs" and "\<forall>b \<in> set bs. 0 \<notin> set (cmd_name b)" and "0 \<notin> set w"
  shows "seek_builtin (bs @ vs) w =
    (case List.find (\<lambda>b. cmd_name b = w) bs of
       Some b \<Rightarrow> Some (Some b)
     | None \<Rightarrow> if \<exists>b \<in> set bs. word_less w (cmd_name b) then Some None else seek_builtin vs w)"
  using assms
proof (induction bs)
  case (Cons b bs)
  have strcmp: "grub_strcmp (w @ [0]) (cmd_name b @ [0]) = Some (if w = cmd_name b then 0 else if word_less w (cmd_name b) then -1 else 1)"
    using grub_strcmp_append [of w "cmd_name b" "[]" "[]"] Cons.prems by (simp add: word_less_def)
  show ?case
  proof (cases "word_less w (cmd_name b)")
    case True
    then have "cmd_name b' \<noteq> w" if "b' \<in> set (b # bs)" for b'
      using that Cons.prems(1) word_less_trans [OF True, of "cmd_name b'"] word_less_irrefl by (cases "b' = b") auto
    then have "List.find (\<lambda>b. cmd_name b = w) (b # bs) = None" unfolding find_None_iff by blast
    then show ?thesis using True strcmp word_less_irrefl [of "cmd_name b"] by auto
  next
    case False
    then show ?thesis using Cons strcmp by (auto split: option.splits)
  qed
qed simp

lemma word_less_ascii [simp]:
  "word_less (ascii (a # s)) (ascii (b # t)) \<longleftrightarrow>
     sint (of_char a :: u8) < sint (of_char b :: u8) \<or> of_char a = (of_char b :: u8) \<and> word_less (ascii s) (ascii t)"
  "word_less (ascii []) (ascii (b # t)) \<longleftrightarrow> 0 < sint (of_char b :: u8) \<or> of_char b = (0 :: u8)"
  "\<not> word_less (ascii []) (ascii [])"
  by (auto simp: word_less_def chars_less_def ascii_def) (cases t; simp)+

lemma ascii_eq [simp]: "ascii s = ascii t \<longleftrightarrow> s = t"
proof -
  have "a = b" if "of_char a = (of_char b :: u8)" for a b
  proof -
    have "unat (of_char c :: u8) = of_char c" for c
    proof -
      have "unat (of_nat (of_char c) :: u8) = of_char c"
        using nat_of_char_less_256 [of c] by (simp add: unsigned_of_nat take_bit_nat_eq_self)
      then show ?thesis unfolding of_nat_of_char .
    qed
    then show ?thesis using that by (metis of_char_eq_iff)
  qed
  then have "inj (of_char :: char \<Rightarrow> u8)" by (rule injI)
  then show ?thesis unfolding ascii_def by (metis inj_map_eq_map)
qed

lemma rows_transp: "transp (\<lambda>a b :: bool \<times> string \<times> u32. word_less (ascii (fst (snd a))) (ascii (fst (snd b))))"
  by (auto intro!: transpI intro: word_less_trans)

lemma rows_sorted:
  "sorted_wrt (\<lambda>a b. word_less (ascii (fst (snd a))) (ascii (fst (snd b)))) (butlast (builtin_rows cfg))"
  unfolding builtin_rows_def by (simp add: sorted_wrt2 [OF rows_transp] del: sorted_wrt.simps(2)) (simp)

lemma rows_last: "builtin_rows cfg = butlast (builtin_rows cfg) @ [(True, ''vbematch'', 0x29)]"
  by (simp add: builtin_rows_def)

lemma rows_nonzero: "\<forall>r \<in> set (builtin_rows cfg). 0 \<notin> set (ascii (fst (snd r)))"
  by (simp add: builtin_rows_def ascii_def)

lemma rows_no_vbematch: "\<forall>r \<in> set (butlast (builtin_rows cfg)). fst (snd r) \<noteq> ''vbematch''"
  by (simp add: builtin_rows_def)

lemma seek_table:
  assumes "0 \<notin> set w"
  shows "seek_builtin (builtin_table cfg funcs) w =
    Some (List.find (\<lambda>b. cmd_name b = w \<and> cmd_name b \<noteq> ascii ''vbematch'') (builtin_table cfg funcs))"
proof -
  define mk where "mk = (\<lambda>(_ :: bool, n, fl). \<lparr>cmd_name = ascii n, func = funcs n, cmd_flags = fl\<rparr>)"
  define bs v where "bs = map mk (filter fst (butlast (builtin_rows cfg)))" and "v = mk (True, ''vbematch'', 0x29)"
  have table: "builtin_table cfg funcs = bs @ [v]"
    unfolding builtin_table_def bs_def v_def mk_def [symmetric] by (subst rows_last) simp
  have name: "cmd_name (mk r) = ascii (fst (snd r))" for r by (simp add: mk_def split_beta)
  have sorted: "sorted_wrt (\<lambda>a b. word_less (cmd_name a) (cmd_name b)) bs"
    unfolding bs_def sorted_wrt_map name by (rule sorted_wrt_filter [OF rows_sorted])
  have nz: "\<forall>b \<in> set bs. 0 \<notin> set (cmd_name b)"
    using rows_nonzero [of cfg] by (auto simp: bs_def name dest!: in_set_butlastD)
  have v: "cmd_name v = ascii ''vbematch''" by (simp add: v_def name)
  have "(True, ''vbeprobe'', 0x21) \<in> set (butlast (builtin_rows cfg))" by (simp add: builtin_rows_def)
  then have "mk (True, ''vbeprobe'', 0x21) \<in> set bs" by (simp add: bs_def)
  moreover have "word_less (cmd_name v) (cmd_name (mk (True, ''vbeprobe'', 0x21)))" by (simp add: v name)
  ultimately have above: "\<exists>b \<in> set bs. word_less (cmd_name v) (cmd_name b)" by blast
  have novb: "cmd_name b \<noteq> cmd_name v" if "b \<in> set bs" for b
    using that rows_no_vbematch [of cfg] by (auto simp: bs_def name v)
  have seek_v: "seek_builtin [v] w = Some (if w = cmd_name v then Some v else None)"
    using grub_strcmp_append [OF assms, of "cmd_name v" "[]" "[]"] by (simp add: v ascii_def)
  have "List.find (\<lambda>b. cmd_name b = w \<and> cmd_name b \<noteq> ascii ''vbematch'') (bs' @ [v]) = List.find (\<lambda>b. cmd_name b = w) bs'"
    if "set bs' \<subseteq> set bs" for bs'
    using that by (induction bs') (use novb v in auto)
  then have found: "List.find (\<lambda>b. cmd_name b = w \<and> cmd_name b \<noteq> ascii ''vbematch'') (bs @ [v]) = List.find (\<lambda>b. cmd_name b = w) bs" by simp
  show ?thesis
    unfolding table found seek_sorted [OF sorted nz assms] using above seek_v by (auto split: option.splits)
qed

lemma find_unique: "x \<in> set xs \<Longrightarrow> Q x \<Longrightarrow> (\<And>y. y \<in> set xs \<Longrightarrow> Q y \<Longrightarrow> y = x) \<Longrightarrow> List.find Q xs = Some x"
proof -
  assume x: "x \<in> set xs" "Q x" and unique: "\<And>y. y \<in> set xs \<Longrightarrow> Q y \<Longrightarrow> y = x"
  from x obtain y where y: "List.find Q xs = Some y" using find_None_iff [of Q xs] by (cases "List.find Q xs") auto
  then have "y \<in> set xs" "Q y" by (auto simp: find_Some_iff)
  from unique [OF this] y show ?thesis by simp
qed

lemma find_never: "List.find (\<lambda>b. False) xs = None"
  by (induction xs) auto

text \<open>A command of the table by its name.\<close>

lemma seek_row:
  assumes r: "(True, n, fl) \<in> set (builtin_rows cfg)" and n: "n \<noteq> ''vbematch''"
  shows "seek_builtin (builtin_table cfg funcs) (ascii n) = Some (Some \<lparr>cmd_name = ascii n, func = funcs n, cmd_flags = fl\<rparr>)"
proof -
  have in_butlast: "r \<in> set (butlast (builtin_rows cfg))" if "r \<in> set (builtin_rows cfg)" "fst (snd r) = n" for r
    using that n by (subst (asm) rows_last) auto
  have unique: "fl' = fl" if "(True, n, fl') \<in> set (builtin_rows cfg)" for fl'
  proof (rule ccontr)
    assume "fl' \<noteq> fl"
    then have "(True, n, fl') \<noteq> (True, n, fl)" by simp
    moreover have "(True, n, fl') \<in> set (butlast (builtin_rows cfg))" "(True, n, fl) \<in> set (butlast (builtin_rows cfg))"
      using in_butlast that r by auto
    ultimately have "word_less (ascii n) (ascii n)"
      using rows_sorted [of cfg, unfolded sorted_wrt_iff_nth_less] by (metis fst_conv in_set_conv_nth linorder_neqE_nat snd_conv)
    then show False using word_less_irrefl by blast
  qed
  have nz: "0 \<notin> set (ascii n)" using rows_nonzero [of cfg] r by auto
  show ?thesis unfolding seek_table [OF nz]
  proof (rule arg_cong [of _ _ Some], rule find_unique)
    show "\<lparr>cmd_name = ascii n, func = funcs n, cmd_flags = fl\<rparr> \<in> set (builtin_table cfg funcs)"
      using r by (force simp: builtin_table_def)
  next
    fix y assume "y \<in> set (builtin_table cfg funcs)" "cmd_name y = ascii n \<and> cmd_name y \<noteq> ascii ''vbematch''"
    then show "y = \<lparr>cmd_name = ascii n, func = funcs n, cmd_flags = fl\<rparr>" using unique by (auto simp: builtin_table_def)
  qed (use n in simp)
qed

text \<open>
  C38. Which commands exist. For a command line whose first word is \<open>w\<close>, \<open>find_command\<close> returns the command of that name in the table, and sets
  the error \<open>ERR_UNRECOGNIZED\<close> if there is none; but \<^verbatim>\<open>vbematch\<close> is never found although it is in the table: it stands behind
  \<^verbatim>\<open>vbeset\<close>, and the search stops at the first greater name.
\<close>

theorem find_command_finds:
  assumes "0 \<notin> set c"
  shows "find_command (builtin_table cfg funcs) c s =
    (case List.find (\<lambda>b. cmd_name b = command_word c \<and> cmd_name b \<noteq> ascii ''vbematch'') (builtin_table cfg funcs) of
       Some b \<Rightarrow> Some (Some b, s)
     | None \<Rightarrow> Some (None, set_serr ERR_UNRECOGNIZED s))"
proof -
  have w: "0 \<notin> set (command_word c)" using assms by (auto simp: command_word_def dest: set_takeWhileD)
  show ?thesis unfolding find_command_def seek_table [OF w] by (auto split: option.splits)
qed

lemma find_command_finds_witness:
  "\<forall>s. find_command (builtin_table \<lparr>SUPPORT_NETBOOT = False, GRUB_UTIL = False, USE_MD5_PASSWORDS = True, SUPPORT_SERIAL = True, SUPPORT_HERCULES = True\<rparr>
     (\<lambda>_ _ _ _. None)) (ascii ''vbematch 800 600'') s = Some (None, set_serr ERR_UNRECOGNIZED s)"
proof
  fix s
  have c: "0 \<notin> set (ascii ''vbematch 800 600'')" "command_word (ascii ''vbematch 800 600'') = ascii ''vbematch''"
    by (simp_all add: ascii_def command_word_def)
  show "find_command (builtin_table \<lparr>SUPPORT_NETBOOT = False, GRUB_UTIL = False, USE_MD5_PASSWORDS = True, SUPPORT_SERIAL = True, SUPPORT_HERCULES = True\<rparr>
     (\<lambda>_ _ _ _. None)) (ascii ''vbematch 800 600'') s = Some (None, set_serr ERR_UNRECOGNIZED s)"
    unfolding find_command_finds [OF c(1)] c(2) by (simp add: find_never)
qed

section \<open>Every command line is measured\<close>

text \<open>Register 12 in a state, and what a sequence of lines makes of it.\<close>

definition line_pcr :: "('t \<Rightarrow> u8 \<Rightarrow> u8 list) \<Rightarrow> ('w, 't) shell \<Rightarrow> u8 list" where
  "line_pcr pcr s = pcr (snd (tcg (files s))) 12"

definition extend_lines :: "u8 list \<Rightarrow> u8 list list \<Rightarrow> u8 list" where
  "extend_lines p lines = fold (\<lambda>l p. tpm_extend p (digest_bytes (fips_sha1 l))) lines p"

lemma extend_lines_simps [simp]:
  "extend_lines p [] = p"
  "extend_lines p (l # ls) = extend_lines (tpm_extend p (digest_bytes (fips_sha1 l))) ls"
  by (simp_all add: extend_lines_def)

lemma line_pcr_simps [simp]:
  "line_pcr pcr (set_serr e s) = line_pcr pcr s"
  "line_pcr pcr (set_dev d s) = line_pcr pcr s"
  "line_pcr pcr (forget_buffer s) = line_pcr pcr s"
  "line_pcr pcr (s\<lparr>count_lines := n\<rparr>) = line_pcr pcr s"
  by (simp_all add: line_pcr_def set_serr_def set_ferr_def set_dev_def forget_buffer_def)

lemma serr_simps [simp]:
  "serr (set_serr e s) = e"
  by (simp add: set_serr_def set_ferr_def set_err_def)

lemma init_cmdline_pcr: "init_cmdline env s = Some s' \<Longrightarrow> line_pcr pcr s' = line_pcr pcr s"
  by (auto simp: init_cmdline_def init_builtins_def Let_def Option.bind_eq_Some_conv line_pcr_def set_dev_def)

text \<open>The lines of a script up to the empty one.\<close>

function script_lines :: "u8 list \<Rightarrow> nat \<Rightarrow> u8 list list" where
  "script_lines script cur =
     (case c_string script cur of
        Some (c # cs) \<Rightarrow> (c # cs) # script_lines script (cur + length (c # cs) + 1)
      | _ \<Rightarrow> [])"
  by pat_completeness auto
termination
  by (relation "measure (\<lambda>(script, cur). length script - cur)") (auto simp: c_string_def split: if_splits)

declare script_lines.simps [simp del]

lemma seek_builtin_in: "seek_builtin bs w = Some (Some b) \<Longrightarrow> b \<in> set bs \<and> grub_strcmp (w @ [0]) (cmd_name b @ [0]) = Some 0"
  by (induction bs w rule: seek_builtin.induct) (auto simp: Option.bind_eq_Some_conv split: if_splits)

text \<open>One turn of the loop.\<close>

lemma run_loop_cases:
  assumes run: "run_loop env table script cur s = Some (Closed (r, s'))"
  obtains (error) "serr s \<noteq> ERR_NONE" "r = 1" "s' = set_serr ERR_NONE s"
  | (finish) "serr s = ERR_NONE" "c_string script cur = Some []" "kernel_type s = KERNEL_TYPE_NONE" "r = 0" "s' = s"
  | (line) line heap dump n d s1 s2 where "serr s = ERR_NONE" "c_string script cur = Some line"
      "heap = (if line = [] then ascii ''boot'' else line)"
      "var_sprint True (vars s) (buffer_junk env) (dump_junk env) heap = Some (n, dump)" "c_string dump 0 = Some d"
      "extend_line env heap s = Some s1" "run_loop env table script (cur + length line + 1) s2 = Some (Closed (r, s'))"
      "serr s2 \<noteq> ERR_NONE \<and> tcg (files s2) = tcg (files s1)
       \<or> (\<exists>b r'. seek_builtin table (command_word d) = Some (Some b)
             \<and> func b (skip_to True d) BUILTIN_SCRIPT (forget_buffer s1) = Some (Closed (r', s2)))"
proof -
  consider (e) "serr s \<noteq> ERR_NONE" | (f) "serr s = ERR_NONE" "c_string script cur = Some []" "kernel_type s = KERNEL_TYPE_NONE"
    | (l) line where "serr s = ERR_NONE" "c_string script cur = Some line" "\<not> (line = [] \<and> kernel_type s = KERNEL_TYPE_NONE)"
    | (n) "serr s = ERR_NONE" "c_string script cur = None"
    by (cases "c_string script cur") blast+
  then show thesis
  proof cases
    case e
    then show thesis using error run [unfolded run_loop.simps [of env table script cur s]] by (simp split: if_splits)
  next
    case f
    then show thesis using finish run [unfolded run_loop.simps [of env table script cur s]] by (simp split: if_splits)
  next
    case n
    then show thesis using run [unfolded run_loop.simps [of env table script cur s]] by (simp split: if_splits)
  next
    case (l line)
    define heap where "heap = (if line = [] then ascii ''boot'' else line)"
    let ?cont = "run_loop env table script (cur + length line + 1)"
    obtain n dump d s1 b s2 where v: "var_sprint True (vars s) (buffer_junk env) (dump_junk env) heap = Some (n, dump)"
        "c_string dump 0 = Some d" "extend_line env heap s = Some s1" "find_command table d s1 = Some (b, s2)"
        and cont: "(case b of None \<Rightarrow> ?cont s2
           | Some b \<Rightarrow> if not_in_script env (cmd_flags b) then ?cont (set_serr ERR_UNRECOGNIZED s2)
                      else Option.bind (func b (skip_to True d) BUILTIN_SCRIPT (forget_buffer s2)) (\<lambda>res. if_closed res (\<lambda>(_, s3). ?cont s3)))
          = Some (Closed (r, s'))"
      using run [unfolded run_loop.simps [of env table script cur s]] l
      by (auto simp add: Let_def heap_def Option.bind_eq_Some_conv simp del: One_nat_def split: if_splits)
    note go = line [OF l(1,2) heap_def v(1-3)]
    have seek: "seek_builtin table (command_word d) = Some b" "s2 = (if b = None then set_serr ERR_UNRECOGNIZED s1 else s1)"
      using v(4) by (auto simp: find_command_def Option.bind_eq_Some_conv)
    show thesis
    proof (cases b)
      case None
      then show thesis using cont seek by (intro go [of s2]) (auto simp: set_serr_def set_ferr_def set_err_def)
    next
      case (Some b')
      show thesis
      proof (cases "not_in_script env (cmd_flags b')")
        case True
        then show thesis using cont seek Some
          by (intro go [of "set_serr ERR_UNRECOGNIZED s2"]) (auto simp: set_serr_def set_ferr_def set_err_def)
      next
        case False
        then obtain res where res: "func b' (skip_to True d) BUILTIN_SCRIPT (forget_buffer s1) = Some res"
            "if_closed res (\<lambda>(_, s3). ?cont s3) = Some (Closed (r, s'))"
          using cont seek Some by (auto simp: Option.bind_eq_Some_conv)
        then obtain r' s3 where "res = Closed (r', s3)" "?cont s3 = Some (Closed (r, s'))" by (cases res) auto
        then show thesis using res seek Some by (intro go [of s3]) auto
      qed
    qed
  qed
qed

text \<open>The inputs that \<open>enter_cmdline\<close> runs.\<close>

definition runs_in_cmdline :: "('w, 't) builtin list \<Rightarrow> u8 list \<Rightarrow> bool" where
  "runs_in_cmdline table line \<longleftrightarrow> line \<noteq> [] \<and>
     (case seek_builtin table (command_word line) of
        Some (Some b) \<Rightarrow> cmd_flags b AND BUILTIN_CMDLINE \<noteq> 0
      | _ \<Rightarrow> False)"

fun executed :: "('w, 't) builtin list \<Rightarrow> input list \<Rightarrow> u8 list list" where
  "executed table [] = []"
| "executed table (Escape # inputs) = []"
| "executed table (Typed l # inputs) = (if runs_in_cmdline table l then l # executed table inputs else executed table inputs)"

text \<open>
  A command that runs only when it has been measured: \<open>lines\<close> are the lines of the script, and register 12 has just been extended by them up to the one that names
  the command with this argument. Otherwise it has no result.
\<close>

definition names_command :: "('w, 't) shell_env \<Rightarrow> ('w, 't) builtin list \<Rightarrow> u8 list \<Rightarrow> var_store \<Rightarrow> ('w, 't) builtin \<Rightarrow> u8 list \<Rightarrow> bool" where
  "names_command env table line v b arg \<longleftrightarrow>
     (case var_sprint True v (buffer_junk env) (dump_junk env) line of
        None \<Rightarrow> False
      | Some (_, dump) \<Rightarrow>
          (case c_string dump 0 of None \<Rightarrow> False | Some d \<Rightarrow> seek_builtin table (command_word d) = Some (Some b) \<and> arg = skip_to True d))"

definition measured_before :: "('t \<Rightarrow> u8 \<Rightarrow> u8 list) \<Rightarrow> ('w, 't) shell_env \<Rightarrow> ('w, 't) builtin list \<Rightarrow> u8 list \<Rightarrow> u8 list list \<Rightarrow> ('w, 't) builtin \<Rightarrow> ('w, 't) builtin" where
  "measured_before pcr env table p lines b =
     b\<lparr>func := \<lambda>arg fl s.
         if \<exists>n < length lines. line_pcr pcr s = extend_lines p (take (n + 1) lines) \<and> names_command env table (lines ! n) (vars s) b arg
         then func b arg fl s else None\<rparr>"

lemma measured_before_simps [simp]:
  "cmd_name (measured_before pcr env table p lines b) = cmd_name b" "cmd_flags (measured_before pcr env table p lines b) = cmd_flags b"
  by (simp_all add: measured_before_def)

lemma seek_map: "(\<And>b. cmd_name (g b) = cmd_name b) \<Longrightarrow> seek_builtin (map g bs) w = map_option (map_option g) (seek_builtin bs w)"
  by (induction bs w rule: seek_builtin.induct) (simp_all split: bind_splits)

lemma run_loop_error: "serr s \<noteq> ERR_NONE \<Longrightarrow> run_loop env table script pos s = run_loop env table' script pos s"
  by (simp add: run_loop.simps)

lemma extend_lines_snoc: "extend_lines p (ls @ [l]) = tpm_extend (extend_lines p ls) (digest_bytes (fips_sha1 l))"
  by (simp add: extend_lines_def)

lemma extend_line_vars: "extend_line env l s = Some s' \<Longrightarrow> vars s' = vars s"
  by (auto simp: extend_line_def)

lemma forget_vars [simp]: "vars (forget_buffer s) = vars s"
  by (simp add: forget_buffer_def set_dev_def)

text \<open>
  The contract of the commands: none of them changes register 12, and \<^verbatim>\<open>boot\<close> comes back only with an error.
\<close>

locale measured_shell = tcg_bios int1a pcr
  for int1a :: "'t bios" and pcr :: "'t \<Rightarrow> u8 \<Rightarrow> u8 list" +
  fixes env :: "('w, 't) shell_env" and table :: "('w, 't) builtin list"
  assumes bios: "int1a_of (file_env_of env) = int1a"
    and tpm: "tpm_present (file_env_of env) = 0"
    and ctx: "length (buffer (ctx_junk (junk_of env))) = 64"
    and arrays: "length (buffer_junk env) = 1000" "length (dump_junk env) = 700"
    and names: "b \<in> set table \<Longrightarrow> 0 \<notin> set (cmd_name b)"
    and quiet: "b \<in> set table \<Longrightarrow> func b arg fl s = Some (Closed (r, s')) \<Longrightarrow> line_pcr pcr s' = line_pcr pcr s"
    and boot_stops: "b \<in> set table \<Longrightarrow> cmd_name b = ascii ''boot'' \<Longrightarrow> func b arg fl s = Some (Closed (r, s')) \<Longrightarrow> serr s' \<noteq> ERR_NONE"
begin

lemma extend_line_measures:
  assumes "length line < 2 ^ 32"
  shows "\<exists>s'. extend_line env line s = Some s' \<and> line_pcr pcr s' = tpm_extend (line_pcr pcr s) (digest_bytes (fips_sha1 line))
    \<and> serr s' = serr s \<and> kernel_type s' = kernel_type s"
  using extend_cmdline_law [OF tcg_bios_axioms ctx assms, of "tcg (files s)"]
  by (auto simp: extend_line_def bios tpm line_pcr_def)

lemma boot_word:
  assumes "var_sprint True v (buffer_junk env) (dump_junk env) (ascii ''boot'') = Some (n, dump)" and "c_string dump 0 = Some d"
    and "seek_builtin table (command_word d) = Some (Some b)"
  shows "b \<in> set table \<and> cmd_name b = ascii ''boot''"
proof -
  have w: "0 \<notin> set (ascii ''boot'')" "0x24 \<notin> set (ascii ''boot'')" "length (ascii ''boot'') = 4" "command_word (ascii ''boot'') = ascii ''boot''"
    by (simp_all add: ascii_def command_word_def)
  then have d: "command_word d = ascii ''boot''"
    using var_sprint_plain [of "ascii ''boot''" "dump_junk env" "buffer_junk env" v] assms(1,2) arrays by auto
  show ?thesis
    using seek_builtin_in [OF assms(3)] names [of b] w(1) grub_strcmp_append [of "ascii ''boot''" "cmd_name b" "[]" "[]"]
    by (auto simp: d split: if_splits)
qed

lemma run_loop_measures:
  assumes "run_loop env table script cur s = Some (Closed (r, s'))" and "length script < 2 ^ 32"
  shows "\<exists>ls. line_pcr pcr s' = extend_lines (line_pcr pcr s) ls
    \<and> (if r = 0 then ls = script_lines script cur else prefix ls (script_lines script cur @ [ascii ''boot'']))"
  using assms(1)
proof (induction "length script - cur" arbitrary: cur s rule: less_induct)
  case less
  from less.prems show ?case
  proof (cases rule: run_loop_cases)
    case error
    then show ?thesis by (intro exI [of _ "[]"]) simp
  next
    case finish
    then show ?thesis by (intro exI [of _ "[]"]) (simp add: script_lines.simps [of script cur])
  next
    case (line line heap dump n d s1 s2)
    have len: "cur + length line < length script" using line(2) by (auto simp: c_string_def split: if_splits)
    have "length heap < 2 ^ 32" using len assms(2) line(3) by (auto simp: ascii_def)
    from extend_line_measures [OF this, of s] line(6)
    have m: "line_pcr pcr s1 = tpm_extend (line_pcr pcr s) (digest_bytes (fips_sha1 heap))" by auto
    have s2: "line_pcr pcr s2 = line_pcr pcr s1"
      using line(8)
    proof (elim disjE exE conjE)
      fix b r' assume "seek_builtin table (command_word d) = Some (Some b)"
        "func b (skip_to True d) BUILTIN_SCRIPT (forget_buffer s1) = Some (Closed (r', s2))"
      then have "line_pcr pcr s2 = line_pcr pcr (forget_buffer s1)" using seek_builtin_in quiet by blast
      then show ?thesis by simp
    qed (simp add: line_pcr_def)
    obtain ls where ls: "line_pcr pcr s' = extend_lines (line_pcr pcr s2) ls"
        "if r = 0 then ls = script_lines script (cur + length line + 1)
         else prefix ls (script_lines script (cur + length line + 1) @ [ascii ''boot''])"
    proof -
      have "length script - (cur + length line + 1) < length script - cur" using len by simp
      from less.hyps [OF this line(7)] show thesis using that by blast
    qed
    show ?thesis
    proof (cases line)
      case (Cons c cs)
      then have "script_lines script cur = line # script_lines script (cur + length line + 1)" "heap = line"
        using line(2,3) by (simp_all add: script_lines.simps [of script cur])
      then show ?thesis using ls m s2 by (intro exI [of _ "line # ls"]) auto
    next
      case Nil
      have "serr s2 \<noteq> ERR_NONE"
        using line(8)
      proof
        assume "\<exists>b r'. seek_builtin table (command_word d) = Some (Some b)
          \<and> func b (skip_to True d) BUILTIN_SCRIPT (forget_buffer s1) = Some (Closed (r', s2))"
        then obtain b r' where b: "seek_builtin table (command_word d) = Some (Some b)"
          and f: "func b (skip_to True d) BUILTIN_SCRIPT (forget_buffer s1) = Some (Closed (r', s2))" by blast
        have "b \<in> set table \<and> cmd_name b = ascii ''boot''" using boot_word [OF _ line(5) b] line(3,4) Nil by simp
        then show ?thesis using boot_stops f by blast
      qed simp
      then have "r = 1 \<and> s' = set_serr ERR_NONE s2"
        using line(7) by - (erule run_loop_cases, simp_all)
      then show ?thesis using m s2 line(2,3) Nil by (intro exI [of _ "[ascii ''boot'']"]) (simp add: script_lines.simps [of script cur])
    qed
  qed
qed

text \<open>The result is the same when no command can run before it has been measured.\<close>

lemma run_loop_measured_before:
  assumes "length script < 2 ^ 32" and "line_pcr pcr s = extend_lines p ls" and "script_lines script 0 = ls @ script_lines script pos"
  shows "run_loop env (map (measured_before pcr env table p (script_lines script 0 @ [ascii ''boot''])) table) script pos s = run_loop env table script pos s"
  using assms(2,3)
proof (induction "length script - pos" arbitrary: pos s ls rule: less_induct)
  case less
  let ?all = "script_lines script 0 @ [ascii ''boot'']"
  let ?g = "measured_before pcr env table p ?all"
  show ?case
  proof (cases "serr s = ERR_NONE \<and> (\<exists>line. c_string script pos = Some line \<and> \<not> (line = [] \<and> kernel_type s = KERNEL_TYPE_NONE))")
    case False
    then show ?thesis by (auto simp: run_loop.simps [of _ _ _ pos] split: option.splits)
  next
    case True
    then obtain line where s: "serr s = ERR_NONE" and line: "c_string script pos = Some line" "\<not> (line = [] \<and> kernel_type s = KERNEL_TYPE_NONE)" by blast
    define heap where "heap = (if line = [] then ascii ''boot'' else line)"
    define pos' where "pos' = pos + length line + 1"
    have len: "pos + length line < length script" using line(1) by (auto simp: c_string_def split: if_splits)
    then have pos': "length script - pos' < length script - pos" by (simp add: pos'_def)
    have "length heap < 2 ^ 32" using len assms(1) by (auto simp: heap_def ascii_def)
    from extend_line_measures [OF this, of s]
    obtain s1 where s1: "extend_line env heap s = Some s1" "line_pcr pcr s1 = tpm_extend (line_pcr pcr s) (digest_bytes (fips_sha1 heap))" by blast
    have lines: "prefix (ls @ [heap]) ?all" and later: "line \<noteq> [] \<Longrightarrow> script_lines script 0 = (ls @ [heap]) @ script_lines script pos'"
      using less.prems(2) line(1) by (auto simp: heap_def pos'_def script_lines.simps [of script pos] neq_Nil_conv split: list.splits)
    have pcr1: "line_pcr pcr s1 = extend_lines p (ls @ [heap])" using s1(2) less.prems(1) by (simp add: extend_lines_snoc)
    have go: "run_loop env (map ?g table) script pos' s2 = run_loop env table script pos' s2"
      if "serr s2 \<noteq> ERR_NONE \<or> line \<noteq> [] \<and> line_pcr pcr s2 = line_pcr pcr s1" for s2
      using that run_loop_error less.hyps [OF pos', of s2 "ls @ [heap]"] later pcr1 by metis
    let ?dump = "Option.bind (var_sprint True (vars s) (buffer_junk env) (dump_junk env) heap) (\<lambda>(_, dump). c_string dump 0)"
    have unfold: "run_loop env t script pos s = Option.bind ?dump (\<lambda>d. Option.bind (find_command t d s1) (\<lambda>(b, s2). case b of
            None \<Rightarrow> run_loop env t script pos' s2
          | Some b \<Rightarrow> if not_in_script env (cmd_flags b) then run_loop env t script pos' (set_serr ERR_UNRECOGNIZED s2)
                     else Option.bind (func b (skip_to True d) BUILTIN_SCRIPT (forget_buffer s2)) (\<lambda>res. if_closed res (\<lambda>(_, s3). run_loop env t script pos' s3))))" for t
      using s line(1) s1(1)
      by (simp add: run_loop.simps [of _ _ _ pos] print_error_def Let_def heap_def [symmetric] pos'_def [symmetric, simplified] split_def) (use line(2) in blast)
    show ?thesis
    proof (cases ?dump)
      case None
      then show ?thesis by (simp add: unfold)
    next
      case (Some d)
      then obtain n dump where v: "var_sprint True (vars s) (buffer_junk env) (dump_junk env) heap = Some (n, dump)" "c_string dump 0 = Some d"
        by (auto simp: Option.bind_eq_Some_conv)
      note turn = unfold [unfolded Some Option.bind.simps]
      have seek: "seek_builtin (map ?g table) w = map_option (map_option ?g) (seek_builtin table w)" for w by (rule seek_map) simp
      show ?thesis
      proof (cases "seek_builtin table (command_word d)")
        case None
        then show ?thesis by (simp add: turn find_command_def seek)
      next
        case (Some b)
        note found = this
        show ?thesis
        proof (cases b)
          case None
          then show ?thesis using found go [of "set_serr ERR_UNRECOGNIZED s1"] by (simp add: turn find_command_def seek)
        next
          case (Some b)
          have "\<exists>n < length ?all. line_pcr pcr (forget_buffer s1) = extend_lines p (take (n + 1) ?all)
              \<and> names_command env table (?all ! n) (vars (forget_buffer s1)) b (skip_to True d)"
          proof -
            obtain post where post: "?all = ls @ heap # post" using lines by (auto simp: prefix_def)
            have "names_command env table heap (vars s) b (skip_to True d)" using v found Some by (simp add: names_command_def)
            then show ?thesis using pcr1 extend_line_vars [OF s1(1)] by (intro exI [of _ "length ls"]) (simp add: post)
          qed
          then have run: "func (?g b) (skip_to True d) BUILTIN_SCRIPT (forget_buffer s1) = func b (skip_to True d) BUILTIN_SCRIPT (forget_buffer s1)"
            unfolding measured_before_def by simp
          have cont: "run_loop env (map ?g table) script pos' s3 = run_loop env table script pos' s3"
            if f: "func b (skip_to True d) BUILTIN_SCRIPT (forget_buffer s1) = Some (Closed (r, s3))" for r s3
          proof (cases "line = []")
            case True
            then have "b \<in> set table \<and> cmd_name b = ascii ''boot''" using boot_word v found Some by (simp add: heap_def)
            then show ?thesis using boot_stops f go by blast
          next
            case False
            have "line_pcr pcr s3 = line_pcr pcr (forget_buffer s1)" using quiet [OF _ f] seek_builtin_in found Some by blast
            then show ?thesis using go False by simp
          qed
          have after: "if_closed res (\<lambda>(_, s3). run_loop env (map ?g table) script pos' s3) = if_closed res (\<lambda>(_, s3). run_loop env table script pos' s3)"
            if "func b (skip_to True d) BUILTIN_SCRIPT (forget_buffer s1) = Some res" for res
            using that cont by (cases res) auto
          show ?thesis
            using found Some go [of "set_serr ERR_UNRECOGNIZED s1"] after
            by (cases "func b (skip_to True d) BUILTIN_SCRIPT (forget_buffer s1)") (simp_all add: turn find_command_def seek run)
        qed
      qed
    qed
  qed
qed

text \<open>A line without references whose command may run in a script.\<close>

lemma run_plain:
  assumes "serr s = ERR_NONE" and c: "c_string script cur = Some line" and "line \<noteq> []" "0x24 \<notin> set line" "length line < 700"
    and b: "seek_builtin table (command_word line) = Some (Some b)" "cmd_flags b AND BUILTIN_CMDLINE \<noteq> 0"
  shows "\<exists>t. let s1 = forget_buffer (s\<lparr>files := (files s)\<lparr>tcg := t\<rparr>\<rparr>)
    in line_pcr pcr s1 = tpm_extend (line_pcr pcr s) (digest_bytes (fips_sha1 line))
       \<and> run_loop env table script cur s = Option.bind (func b (skip_to True line) BUILTIN_SCRIPT s1) (\<lambda>res.
           if_closed res (\<lambda>(_, s2). run_loop env table script (cur + length line + 1) s2))"
proof -
  have nz: "0 \<notin> set line" using c string_at_nonzero by (auto simp: c_string_def split: if_splits)
  obtain dump where d: "var_sprint True (vars s) (buffer_junk env) (dump_junk env) line = Some (length line, dump)" "c_string dump 0 = Some line"
    using var_sprint_plain [OF nz assms(4), of "dump_junk env" "buffer_junk env" "vars s"] assms(5) arrays by auto
  have "length line < 2 ^ 32" using assms(5) by (rule less_trans) simp
  then obtain s' where s': "extend_line env line s = Some s'" "line_pcr pcr s' = tpm_extend (line_pcr pcr s) (digest_bytes (fips_sha1 line))"
    using extend_line_measures by blast
  then obtain t where t: "s' = s\<lparr>files := (files s)\<lparr>tcg := t\<rparr>\<rparr>" by (auto simp: extend_line_def)
  have "\<not> not_in_script env (cmd_flags b)" using b(2) by (simp add: not_in_script_def)
  moreover have "print_error s \<noteq> Halted" using assms(1) by (simp add: print_error_def)
  ultimately have "run_loop env table script cur s = Option.bind (func b (skip_to True line) BUILTIN_SCRIPT (forget_buffer s')) (\<lambda>res.
      if_closed res (\<lambda>(_, s2). run_loop env table script (cur + length line + 1) s2))"
    using assms(1-3) d s'(1) b(1) by (subst run_loop.simps) (simp add: Let_def find_command_def)
  then show ?thesis using s'(2) t by (intro exI [of _ t]) (simp add: Let_def)
qed

lemma cmdline_loop_measures:
  assumes "cmdline_loop env table inputs s = Some (Closed (left, s'))" and "\<forall>l. Typed l \<in> set inputs \<longrightarrow> length l < 2 ^ 32"
  shows "line_pcr pcr s' = extend_lines (line_pcr pcr s) (executed table inputs)"
  using assms
proof (induction inputs arbitrary: s)
  case Nil
  then show ?case by (subst (asm) cmdline_loop.simps) (auto split: if_splits)
next
  case (Cons i inputs)
  show ?case
  proof (cases i)
    case Escape
    then show ?thesis using Cons.prems by (subst (asm) cmdline_loop.simps) (auto split: if_splits)
  next
    case (Typed heap)
    show ?thesis
    proof (cases "runs_in_cmdline table heap")
      case False
      then obtain s1 where "cmdline_loop env table inputs s1 = Some (Closed (left, s'))" "line_pcr pcr s1 = line_pcr pcr s"
        using Cons.prems(1) Typed
        by (subst (asm) cmdline_loop.simps) (auto simp: Let_def runs_in_cmdline_def find_command_def Option.bind_eq_Some_conv split: if_splits option.splits)
      then show ?thesis using Cons.IH Cons.prems(2) False Typed by auto
    next
      case True
      then obtain b where b: "seek_builtin table (command_word heap) = Some (Some b)" "cmd_flags b AND BUILTIN_CMDLINE \<noteq> 0" "heap \<noteq> []"
        by (auto simp: runs_in_cmdline_def split: option.splits)
      define s3 where "s3 = (let s2 = forget_buffer (set_serr ERR_NONE s) in if use_pager s2 then s2\<lparr>count_lines := 0\<rparr> else s2)"
      obtain s4 where s4: "extend_line env heap s3 = Some s4" "line_pcr pcr s4 = tpm_extend (line_pcr pcr s3) (digest_bytes (fips_sha1 heap))"
        using extend_line_measures [of heap s3] Cons.prems(2) Typed by auto
      have s3: "line_pcr pcr s3 = line_pcr pcr s" by (simp add: s3_def Let_def)
      obtain r s5 where s5: "func b (skip_to True heap) BUILTIN_CMDLINE s4 = Some (Closed (r, s5))"
          "cmdline_loop env table inputs (s5\<lparr>count_lines := -1\<rparr>) = Some (Closed (left, s'))"
      proof -
        have "Option.bind (func b (skip_to True heap) BUILTIN_CMDLINE s4) (\<lambda>res.
            if_closed res (\<lambda>(_, s5). cmdline_loop env table inputs (s5\<lparr>count_lines := -1\<rparr>))) = Some (Closed (left, s'))"
          using Cons.prems(1) Typed b s4(1) by (subst (asm) cmdline_loop.simps) (auto simp: Let_def find_command_def s3_def split: if_splits)
        then obtain res where "func b (skip_to True heap) BUILTIN_CMDLINE s4 = Some res"
          "if_closed res (\<lambda>(_, s5). cmdline_loop env table inputs (s5\<lparr>count_lines := -1\<rparr>)) = Some (Closed (left, s'))"
          by (auto simp: Option.bind_eq_Some_conv)
        then show thesis using that by (cases res) auto
      qed
      have "line_pcr pcr s5 = line_pcr pcr s4" using quiet s5(1) seek_builtin_in [OF b(1)] by blast
      then show ?thesis using Cons.IH [OF s5(2)] Cons.prems(2) Typed True s3 s4(2) by simp
    qed
  qed
qed

end

end
