(* ===== verification/Boot.thy ===== *)
theory Boot
  imports Cmdline
begin

unbundle bit_operations_syntax

text \<open>
  The loaders of \<^verbatim>\<open>stage2/boot.c\<close>: \<open>load_image\<close> with its formats (ELF, the Multiboot address header, a.out and Linux), \<open>load_module\<close> and
  \<open>load_initrd\<close>, and \<open>match_vbe\<close> of \<^verbatim>\<open>stage2/builtins.c\<close>. The memory of the machine is the field \<open>ram\<close> of the state, the variables of the loaders are
  its field \<open>boot\<close>. A result none is an access outside an array or of the address space.
\<close>

section \<open>Memory\<close>

text \<open>A store behind the end of the address space has no defined result.\<close>

definition store :: "u32 \<Rightarrow> u8 list \<Rightarrow> ('w, 't) shell \<Rightarrow> ('w, 't) shell option" where
  "store a bs s =
     (if unat a + length bs \<le> 2 ^ 32 then Some (s\<lparr>boot := (boot s)\<lparr>ram := poke (ram (boot s)) (unat a) bs\<rparr>\<rparr>) else None)"

definition fetch :: "u32 \<Rightarrow> nat \<Rightarrow> ('w, 't) shell \<Rightarrow> u8 list" where
  "fetch a n s = peek (ram (boot s)) (unat a) n"

definition check_mem :: "u32 \<Rightarrow> u32 \<Rightarrow> ('w, 't) shell \<Rightarrow> bool \<times> ('w, 't) shell" where
  "check_mem a n s =
     (let (ok, e) = memcheck (mem_lower (boot s)) (mem_upper s) (serr s) a n in (ok, set_serr e s))"

text \<open>\<open>grub_memmove\<close> and \<open>grub_memset\<close> with a destination in memory.\<close>

definition copy_to :: "u32 \<Rightarrow> u8 list \<Rightarrow> ('w, 't) shell \<Rightarrow> ('w, 't) shell option" where
  "copy_to a bs s = (let (ok, s1) = check_mem a (of_nat (length bs)) s in if ok then store a bs s1 else Some s1)"

definition clear_mem :: "u32 \<Rightarrow> u32 \<Rightarrow> ('w, 't) shell \<Rightarrow> ('w, 't) shell option" where
  "clear_mem a n s = (let (ok, s1) = check_mem a n s in if ok then store a (replicate (nat (sint n)) 0) s1 else Some s1)"

definition set_cur :: "u32 \<Rightarrow> ('w, 't) shell \<Rightarrow> ('w, 't) shell" where
  "set_cur a s = s\<lparr>boot := (boot s)\<lparr>cur_addr := a\<rparr>\<rparr>"

abbreviation cur :: "('w, 't) shell \<Rightarrow> u32" where
  "cur s \<equiv> cur_addr (boot s)"

definition page_align :: "u32 \<Rightarrow> u32" where
  "page_align a = (a + 0xFFF) AND 0xFFFFF000"

definition le32_parts :: "u32 \<Rightarrow> u8 list" where
  "le32_parts n = map (\<lambda>i. ucast (drop_bit (8 * i) n)) [0..<4]"

definition le16_parts :: "u32 \<Rightarrow> u8 list" where
  "le16_parts n = map (\<lambda>i. ucast (drop_bit (8 * i) n)) [0..<2]"

section \<open>Files and memory\<close>

text \<open>
  What the loaders are given: a key press when a file is closed, the address of the local array \<open>buffer\<close> and what it holds, whether there is
  a VBE BIOS with its version and its modes, and what the user types.
\<close>

record vbe_mode_info =
  mode_attributes :: u32
  x_resolution :: u32
  y_resolution :: u32
  bits_per_pixel :: u32
  memory_model :: u32

record image_env =
  image_escape :: bool
  image_base :: u32
  image_junk :: "u8 list"
  vbe_controller :: "(u32 \<times> u32 list) option"
  vbe_info :: "u32 \<Rightarrow> vbe_mode_info option"
  module_typed :: "(u8 list \<times> u8 list) list"
  args_junk :: "u8 list"
  mll_addr :: u32

text \<open>
  Opening a file: the copy of a kernel goes to the memory at \<open>kernel_real_addr\<close>, which is taken to be large enough for it: the check that the driver's
  \<open>grub_memmove\<close> makes of it is left out here.
\<close>

definition open_file :: "('w, 't) shell_env \<Rightarrow> u8 list \<Rightarrow> ('w, 't) shell \<Rightarrow> (bool \<times> ('w, 't) shell) option" where
  "open_file env name s =
     do { (ok, f) \<leftarrow> grub_open (file_env_of env) (fn_junk (junk_of env)) name ((files s)\<lparr>kernel_mem := []\<rparr>);
          s1 \<leftarrow> store (kernel_real_addr f) (kernel_mem f) (s\<lparr>files := f\<rparr>);
          Some (ok, s1) }"

definition close_file :: "('w, 't) shell_env \<Rightarrow> bool \<Rightarrow> ('w, 't) shell \<Rightarrow> ('w, 't) shell close_result option" where
  "close_file env escape s =
     do { c \<leftarrow> grub_close (file_env_of env) escape (files s);
          if_closed c (\<lambda>f. Some (Closed (s\<lparr>files := f\<rparr>))) }"

text \<open>A read takes the bytes of a kernel from the memory as it is then.\<close>

definition image_read :: "('w, 't) shell_env \<Rightarrow> u8 list \<Rightarrow> int \<Rightarrow> ('w, 't) shell \<Rightarrow> (int \<times> u8 list \<times> ('w, 't) shell) option" where
  "image_read env buf len s =
     (let f = files s; n = nat (filepos (sane_filepos f) + len)
      in if measure_kernel f \<and> 2 ^ 32 < unat (kernel_real_addr f) + n then None
         else do {
           (r, out, f') \<leftarrow> grub_read (file_env_of env) buf len
             (if measure_kernel f then f\<lparr>kernel_mem := fetch (kernel_real_addr f) n s\<rparr> else f);
           Some (r, out, s\<lparr>files := f'\<rparr>) })"

text \<open>Into a local variable; the copy of kernel data is left out while an error is pending.\<close>

definition read_local :: "('w, 't) shell_env \<Rightarrow> u8 list \<Rightarrow> int \<Rightarrow> ('w, 't) shell \<Rightarrow> (int \<times> u8 list \<times> ('w, 't) shell) option" where
  "read_local env buf len s =
     do { (r, out, s1) \<leftarrow> image_read env buf len s;
          Some (r, if measure_kernel (files s) \<and> serr s \<noteq> ERR_NONE then buf else out, s1) }"

text \<open>
  To an address, with the check of the memory by \<open>grub_memmove\<close>. Kernel data is copied here. Another file is copied by its driver piece by piece, with a check of
  each: if the memory that the read needs passes the check as a whole, so does each piece; if not, what has been copied before the error depends on the driver, and the read has
  no result here.
\<close>

definition read_to :: "('w, 't) shell_env \<Rightarrow> u32 \<Rightarrow> int \<Rightarrow> ('w, 't) shell \<Rightarrow> (int \<times> ('w, 't) shell) option" where
  "read_to env a len s =
     (let f = sane_filepos (files s)
      in do {
        (r, out, s1) \<leftarrow> image_read env (fetch a (nat (if len < 0 then filemax f - filepos f else len)) s) len s;
        if measure_kernel (files s)
        then do { let (ok, s2) = check_mem a (of_int len) s1; s3 \<leftarrow> (if ok then store a out s2 else Some s2); Some (r, s3) }
        else if r \<le> 0 \<or> fst (memcheck (mem_lower (boot s)) (mem_upper s) ERR_NONE a (of_int r))
        then do { s2 \<leftarrow> store a out s1; Some (r, s2) }
        else None })"

definition seek_file :: "u32 \<Rightarrow> ('w, 't) shell \<Rightarrow> ('w, 't) shell" where
  "seek_file offset s = s\<lparr>files := snd (grub_seek (sint offset) (files s))\<rparr>"

section \<open>Video modes\<close>

definition MB_INFO_VIDEO_INFO :: u32 where "MB_INFO_VIDEO_INFO = 0x800"

text \<open>
  \<open>match_vbe\<close>: the first supported direct colour mode of the given size. The mode number is 0 if there is none; the modes of the controller
  are listed up to the end mark. What the BIOS tells is an argument.
\<close>

definition mode_matches :: "u32 \<Rightarrow> u32 \<Rightarrow> u32 \<Rightarrow> vbe_mode_info \<Rightarrow> bool" where
  "mode_matches width height depth m \<longleftrightarrow> mode_attributes m AND 0x81 = 0x81 \<and> memory_model m = 6
     \<and> x_resolution m = width \<and> y_resolution m = height \<and> bits_per_pixel m = depth"

definition match_vbe :: "image_env \<Rightarrow> u32 \<Rightarrow> u32 \<Rightarrow> u32 \<Rightarrow> bool \<Rightarrow> ('w, 't) shell \<Rightarrow> u32 \<times> ('w, 't) shell" where
  "match_vbe ie width height depth set_mode s =
     (case vbe_controller ie of
        None \<Rightarrow> (0, s)
      | Some (version, modes) \<Rightarrow>
          if version < 0x200 then (0, s)
          else case List.find (\<lambda>n. case vbe_info ie n of None \<Rightarrow> False | Some m \<Rightarrow> mode_matches width height depth m) modes of
                 None \<Rightarrow> (0, s)
               | Some n \<Rightarrow> (n, if set_mode then s\<lparr>mbi_flags := mbi_flags s OR MB_INFO_VIDEO_INFO, boot := (boot s)\<lparr>vbe_mode := n\<rparr>\<rparr> else s))"

section \<open>The format of an image\<close>

definition MULTIBOOT_SEARCH :: nat where "MULTIBOOT_SEARCH = 8192"
definition MULTIBOOT_MAGIC :: u32 where "MULTIBOOT_MAGIC = 0x1BADB002"
definition MULTIBOOT_UNSUPPORTED :: u32 where "MULTIBOOT_UNSUPPORTED = 0xFFF8"
definition MULTIBOOT_VIDEO_MODE :: u32 where "MULTIBOOT_VIDEO_MODE = 4"
definition MULTIBOOT_AOUT_KLUDGE :: u32 where "MULTIBOOT_AOUT_KLUDGE = 0x10000"

text \<open>The local variables of \<open>load_image\<close>; \<open>buffer\<close> is \<open>img_buf\<close>, \<open>i\<close> after the search \<open>img_pos\<close>.\<close>

record image =
  img_buf :: "u8 list"
  img_len :: int
  img_pos :: nat
  img_type :: kernel_t
  img_flags :: u32
  exec_type :: nat
  align_4k :: bool
  text_len :: u32
  data_len :: u32
  bss_len :: u32

definition mb_found :: "u32 \<Rightarrow> u8 list \<Rightarrow> int \<Rightarrow> nat \<Rightarrow> bool" where
  "mb_found base buf len i \<longleftrightarrow> (base + of_nat i) AND 3 = 0 \<and> 12 \<le> len - int i
     \<and> le32 buf i = MULTIBOOT_MAGIC \<and> le32 buf i + le32 buf (i + 4) + le32 buf (i + 8) = 0
     \<and> (MULTIBOOT_AOUT_KLUDGE AND le32 buf (i + 4) = 0 \<or> 32 \<le> len - int i)
     \<and> (MULTIBOOT_VIDEO_MODE AND le32 buf (i + 4) = 0 \<or> 48 \<le> len - int i)"

text \<open>The search for a multiboot header. \<open>Inl\<close> is the return for features that are not supported.\<close>

definition find_header :: "image_env \<Rightarrow> u8 list \<Rightarrow> int \<Rightarrow> ('w, 't) shell \<Rightarrow> unit + (image \<times> ('w, 't) shell)" where
  "find_header ie buf len s =
     (let img = \<lparr>img_buf = buf, img_len = len, img_pos = nat len, img_type = KERNEL_TYPE_NONE, img_flags = 0, exec_type = 0, align_4k = True,
                text_len = 0, data_len = 0, bss_len = 0\<rparr>
      in case List.find (mb_found (image_base ie) buf len) [0..<nat len] of
           None \<Rightarrow> Inr (img, s)
         | Some i \<Rightarrow>
             let flags = le32 buf (i + 4)
             in if flags AND MULTIBOOT_UNSUPPORTED \<noteq> 0 then Inl ()
                else Inr (img\<lparr>img_pos := i, img_type := KERNEL_TYPE_MULTIBOOT, img_flags := flags\<rparr>,
                       if flags AND MULTIBOOT_VIDEO_MODE \<noteq> 0 \<and> le32 buf (i + 32) = 0
                       then snd (match_vbe ie (le32 buf (i + 36)) (le32 buf (i + 40)) (le32 buf (i + 44)) True s) else s))"

text \<open>ELF\<close>

definition BOOTABLE_I386_ELF :: "u8 list \<Rightarrow> bool" where
  "BOOTABLE_I386_ELF buf \<longleftrightarrow> take 7 buf = [0x7f, 0x45, 0x4c, 0x46, 1, 1, 1] \<and> le16 buf 16 = 2 \<and> le16 buf 18 = 3 \<and> le32 buf 20 = 1"

definition elf_wanted :: "kernel_t \<Rightarrow> image \<Rightarrow> bool" where
  "elf_wanted suggested img \<longleftrightarrow>
     (img_type img = KERNEL_TYPE_MULTIBOOT \<or> img_buf img ! 7 = 9 \<or> grub_strcmp (drop 8 (img_buf img)) (ascii ''FreeBSD'' @ [0]) = Some 0
      \<or> suggested \<in> {KERNEL_TYPE_NONE, KERNEL_TYPE_OPENBSD, KERNEL_TYPE_NETBSD})
     \<and> 52 < img_len img \<and> BOOTABLE_I386_ELF (img_buf img)"

definition elf_format :: "kernel_t \<Rightarrow> image \<Rightarrow> ('w, 't) shell \<Rightarrow> image \<times> ('w, 't) shell" where
  "elf_format suggested img s =
     (let buf = img_buf img;
          entry = (if img_type img = KERNEL_TYPE_MULTIBOOT then le32 buf 24 else le32 buf 24 AND 0xFFFFFF);
          s1 = s\<lparr>boot := (boot s)\<lparr>entry_addr := entry\<rparr>\<rparr>;
          s2 = (if entry < 0x100000 then set_serr ERR_BELOW_1MB s1 else s1);
          phoff = le32 buf 28; phnum = le16 buf 44;
          s3 = (if phoff = 0 \<or> phnum = 0 \<or> of_int (img_len img) \<le> phoff + le16 buf 42 * phnum then set_serr ERR_EXEC_FORMAT s2 else s2);
          type = (if img_type img \<noteq> KERNEL_TYPE_NONE then img_type img
                  else if suggested = KERNEL_TYPE_NETBSD then suggested
                  else if suggested = KERNEL_TYPE_FREEBSD \<or> buf ! 7 = 9 then KERNEL_TYPE_FREEBSD
                  else KERNEL_TYPE_OPENBSD)
      in (img\<lparr>img_type := type\<rparr>, s3))"

text \<open>The addresses of a multiboot header. An end that is 0 is replaced in the buffer.\<close>

definition kludge_format :: "image \<Rightarrow> ('w, 't) shell \<Rightarrow> image \<times> ('w, 't) shell" where
  "kludge_format img s =
     (let buf = img_buf img; i = img_pos img;
          header = le32 buf (i + 12); load = le32 buf (i + 16);
          s1 = seek_file (of_nat i - (header - load)) (set_cur load (s\<lparr>boot := (boot s)\<lparr>entry_addr := le32 buf (i + 28)\<rparr>\<rparr>));
          load_end = (if le32 buf (i + 20) = 0 then load + of_int (filemax (files s)) else le32 buf (i + 20));
          bss_end = (if le32 buf (i + 24) = 0 then load_end else le32 buf (i + 24));
          s2 = (if header < load \<or> load_end \<le> load \<or> bss_end < load_end \<or> of_nat i < header - load
                then set_serr ERR_EXEC_FORMAT s1 else s1);
          s3 = (if sint load < 0x100000 then set_serr ERR_BELOW_1MB s2 else s2)
      in (img\<lparr>img_buf := overlay buf (i + 20) (le32_parts load_end @ le32_parts bss_end), exec_type := 2,
              text_len := load_end - load, data_len := 0, bss_len := bss_end - load_end\<rparr>, s3))"

text \<open>a.out\<close>

definition ntohl :: "u32 \<Rightarrow> u32" where
  "ntohl x = push_bit 24 x OR push_bit 8 (x AND 0xFF00) OR (drop_bit 8 x AND 0xFF00) OR drop_bit 24 x"

definition N_GETMAGIC :: "u8 list \<Rightarrow> u32" where "N_GETMAGIC buf = le32 buf 0 AND 0xffff"
definition N_GETMAGIC_NET :: "u8 list \<Rightarrow> u32" where "N_GETMAGIC_NET buf = ntohl (le32 buf 0) AND 0xffff"
definition NMAGIC :: u32 where "NMAGIC = 0x108"
definition ZMAGIC :: u32 where "ZMAGIC = 0x10b"
definition QMAGIC :: u32 where "QMAGIC = 0xcc"

definition N_BADMAG :: "u8 list \<Rightarrow> bool" where
  "N_BADMAG buf \<longleftrightarrow> N_GETMAGIC buf \<notin> {0x107, NMAGIC, ZMAGIC, QMAGIC} \<and> N_GETMAGIC_NET buf \<notin> {0x107, NMAGIC, ZMAGIC, QMAGIC}"

definition N_TXTOFF :: "u8 list \<Rightarrow> u32" where
  "N_TXTOFF buf = (if N_GETMAGIC buf = ZMAGIC then 0x1000 else if N_GETMAGIC buf = QMAGIC \<or> N_GETMAGIC_NET buf = ZMAGIC then 0 else 32)"

definition aout_format :: "image \<Rightarrow> ('w, 't) shell \<Rightarrow> image \<times> ('w, 't) shell" where
  "aout_format img s =
     (let buf = img_buf img; bsd = img_type img = KERNEL_TYPE_NONE; free = buf ! 0 = 0xb \<and> buf ! 1 = 1;
          entry = (if bsd then le32 buf 20 AND 0xFFFFFF else le32 buf 20);
          s1 = s\<lparr>boot := (boot s)\<lparr>entry_addr := entry\<rparr>\<rparr>;
          s2 = (if \<not> bsd then s1 else set_cur (if free then entry else entry AND 0xF00000) s1);
          s3 = seek_file (N_TXTOFF buf) s2;
          s4 = (if sint (cur s3) < 0x100000 then set_serr ERR_BELOW_1MB s3 else s3)
      in (img\<lparr>img_type := (if \<not> bsd then img_type img else if free then KERNEL_TYPE_FREEBSD else KERNEL_TYPE_OPENBSD),
              align_4k := \<not> (bsd \<and> \<not> free \<and> N_GETMAGIC buf \<noteq> NMAGIC), exec_type := 1,
              text_len := le32 buf 4, data_len := le32 buf 8, bss_len := le32 buf 12\<rparr>, s4))"

section \<open>Linux\<close>

definition LINUX_MAGIC_SIGNATURE :: u32 where "LINUX_MAGIC_SIGNATURE = 0x53726448"
definition LINUX_DEFAULT_SETUP_SECTS :: u32 where "LINUX_DEFAULT_SETUP_SECTS = 4"
definition LINUX_MAX_SETUP_SECTS :: u32 where "LINUX_MAX_SETUP_SECTS = 64"
definition LINUX_INITRD_MAX_ADDRESS :: u32 where "LINUX_INITRD_MAX_ADDRESS = 0x38000000"
definition LINUX_ZIMAGE_ADDR :: u32 where "LINUX_ZIMAGE_ADDR = 0x10000"
definition LINUX_OLD_REAL_MODE_ADDR :: u32 where "LINUX_OLD_REAL_MODE_ADDR = 0x90000"
definition LINUX_CL_OFFSET :: u32 where "LINUX_CL_OFFSET = 0x9000"
definition LINUX_CL_END_OFFSET :: u32 where "LINUX_CL_END_OFFSET = 0x90FF"
definition LINUX_CL_0202_PRM_OFFSET :: u32 where "LINUX_CL_0202_PRM_OFFSET = 0x9500"
definition LINUX_CL_0202_PRM_END_OFFSET :: u32 where "LINUX_CL_0202_PRM_END_OFFSET = 0x9FFF"
definition LINUX_SETUP_MOVE_SIZE :: u32 where "LINUX_SETUP_MOVE_SIZE = 0xA000"

text \<open>The fields of \<^verbatim>\<open>struct linux_kernel_header\<close> that are read, and the test for the boot protocol 2.00.\<close>

definition lh_version :: "u8 list \<Rightarrow> u32" where "lh_version lh = le16 lh 0x206"

definition lh_new :: "u8 list \<Rightarrow> bool" where
  "lh_new lh \<longleftrightarrow> le32 lh 0x202 = LINUX_MAGIC_SIGNATURE \<and> 0x200 \<le> lh_version lh"

text \<open>The header for a kernel of either kind: the new header, whether the kernel is big, and where its real mode part goes.\<close>

definition linux_header :: "u32 \<Rightarrow> u8 list \<Rightarrow> u8 list \<times> bool \<times> u32" where
  "linux_header lower lh =
     (if lh_new lh
      then
        let top = push_bit 10 lower - LINUX_SETUP_MOVE_SIZE;
            real = (if LINUX_OLD_REAL_MODE_ADDR < top then LINUX_OLD_REAL_MODE_ADDR else top);
            lh1 = lh[0x210 := 0x71];
            lh2 = (if 0x201 \<le> lh_version lh then (overlay lh1 0x224 (le16_parts 0x8E00))[0x211 := lh ! 0x211 OR 0x80] else lh1);
            lh3 = (if 0x202 \<le> lh_version lh then overlay lh2 0x228 (le32_parts (real + LINUX_CL_0202_PRM_OFFSET))
                   else overlay (overlay lh2 0x20 (le16_parts 0xA33F @ le16_parts LINUX_CL_OFFSET)) 0x212 (le16_parts LINUX_SETUP_MOVE_SIZE))
        in (lh3, lh ! 0x211 AND 1 \<noteq> 0, real)
      else (overlay lh 0x20 (le16_parts 0xA33F @ le16_parts LINUX_CL_OFFSET), False, LINUX_OLD_REAL_MODE_ADDR))"

definition linux_setup_sects :: "u8 list \<Rightarrow> u32" where
  "linux_setup_sects lh = (if \<not> lh_new lh \<or> lh ! 0x1F1 = 0 then LINUX_DEFAULT_SETUP_SECTS else ucast (lh ! 0x1F1))"

text \<open>The option \<^verbatim>\<open>vga=\<close>: no change, a mode, or the error of a number that cannot be read.\<close>

definition video_option :: "u8 list \<Rightarrow> (grub_error_t + u32 option) option" where
  "video_option arg =
     do { k \<leftarrow> grub_strstr (arg @ [0]) (ascii ''vga='' @ [0]);
          case k of
            None \<Rightarrow> Some (Inr None)
          | Some k \<Rightarrow> do {
              let val = drop (k + 4) (arg @ [0]);
              n \<leftarrow> substring (ascii ''normal'' @ [0]) val;
              e \<leftarrow> substring (ascii ''ext'' @ [0]) val;
              a \<leftarrow> substring (ascii ''ask'' @ [0]) val;
              if n < 1 then Some (Inr (Some 0xFFFF)) else if e < 1 then Some (Inr (Some 0xFFFE)) else if a < 1 then Some (Inr (Some 0xFFFD))
              else do { p \<leftarrow> safe_parse_maxint val;
                        Some (case p of Inl err \<Rightarrow> Inl err | Inr (_, v) \<Rightarrow> Inr (Some v)) } } }"

text \<open>The option \<^verbatim>\<open>mem=\<close>: the memory size for the initial RAM disk and the error code afterwards.\<close>

definition memory_option :: "u8 list \<Rightarrow> grub_error_t \<Rightarrow> u32 \<Rightarrow> (u32 \<times> grub_error_t) option" where
  "memory_option arg err old =
     do { k \<leftarrow> grub_strstr (arg @ [0]) (ascii ''mem='' @ [0]);
          case k of
            None \<Rightarrow> Some (0, err)
          | Some k \<Rightarrow> do {
              p \<leftarrow> safe_parse_maxint (drop (k + 4) (arg @ [0]));
              let (v, size, err') = (case p of Inl e \<Rightarrow> ([0], old, e) | Inr (v, n) \<Rightarrow> (v, n, err));
              c \<leftarrow> rd v 0;
              let c' = grub_tolower (sint c);
              let shift = (if c' = 0x67 then 30 else if c' = 0x6d then 20 else if c' = 0x6b then 10 else (0 :: nat));
              Some (if err' = ERR_NUMBER_OVERFLOW then (LINUX_INITRD_MAX_ADDRESS, ERR_NONE)
                    else if err' = ERR_NONE then (if sint (drop_bit shift MAXINT) < sint size then LINUX_INITRD_MAX_ADDRESS else push_bit shift size, ERR_NONE)
                    else (0, ERR_NONE)) } }"

text \<open>The command line of the kernel at its two places, the first one with the size of the memory for old kernels.\<close>

definition linux_cmdline :: "u8 list \<Rightarrow> u32 \<Rightarrow> u32 \<Rightarrow> u32 \<Rightarrow> ('w, 't) shell \<Rightarrow> ('w, 't) shell option" where
  "linux_cmdline arg load_flags version tmp s =
     do { let src = skip_to False arg;
          let line = take (unat (LINUX_CL_END_OFFSET - LINUX_CL_OFFSET)) src;
          s1 \<leftarrow> store (tmp + LINUX_CL_OFFSET) line s;
          s2 \<leftarrow> store (tmp + LINUX_CL_0202_PRM_OFFSET) (take (unat (LINUX_CL_0202_PRM_END_OFFSET - LINUX_CL_0202_PRM_OFFSET)) src @ [0]) s1;
          k \<leftarrow> grub_strstr (arg @ [0]) (ascii ''mem='' @ [0]);
          option \<leftarrow>
            (if k = None \<and> load_flags AND 1 = 0 \<and> version < 0x203 \<and> length line + 15 < unat (LINUX_CL_END_OFFSET - LINUX_CL_OFFSET)
             then do { (digits, n) \<leftarrow> convert_to_ascii (replicate 11 0) (CHR ''u'') (extended_memory (boot s) + 0x400);
                       Some (ascii '' mem='' @ take n digits @ ascii ''K'') }
             else Some []);
          store (tmp + LINUX_CL_OFFSET + of_nat (length line)) (option @ [0]) s2 }"

text \<open>
  Loading the parts of a Linux kernel: the setup code with the header from the buffer, the command line, the rest of the file. The result of \<open>linux_image\<close> is the
  kernel type, if \<open>load_image\<close> returns from there, or none for its common end.
\<close>

definition linux_parts :: "('w, 't) shell_env \<Rightarrow> u8 list \<Rightarrow> u32 \<Rightarrow> u8 list \<Rightarrow> u32 \<Rightarrow> u32 \<Rightarrow> ('w, 't) shell \<Rightarrow> ('w, 't) shell option" where
  "linux_parts env arg load_flags lh sects text_length s =
     do { let tmp = linux_data_tmp_addr (boot s);
          let size = push_bit 9 sects + 512;
          s1 \<leftarrow> (if unat size \<le> MULTIBOOT_SEARCH then copy_to tmp (take (unat size) lh) s
                 else do { s0 \<leftarrow> copy_to tmp (take MULTIBOOT_SEARCH lh) s;
                           (_, s1) \<leftarrow> read_to env (tmp + of_nat MULTIBOOT_SEARCH) (uint size - int MULTIBOOT_SEARCH) s0;
                           Some s1 });
          s2 \<leftarrow> (if lh_new lh then Some s1 else clear_mem (tmp + push_bit 9 (sects + 1)) (push_bit 9 (64 - sects - 1)) s1);
          s3 \<leftarrow> linux_cmdline arg load_flags (lh_version lh) tmp s2;
          (_, s4) \<leftarrow> read_to env LINUX_BZIMAGE_ADDR (sint text_length) (set_cur (tmp + LINUX_SETUP_MOVE_SIZE) (seek_file size s3));
          Some s4 }"

definition linux_done :: "('w, 't) shell_env \<Rightarrow> image_env \<Rightarrow> kernel_t \<Rightarrow> bool \<Rightarrow> u32 \<Rightarrow> ('w, 't) shell \<Rightarrow> (kernel_t option \<times> ('w, 't) shell) close_result option" where
  "linux_done env ie suggested big tlen s =
     (if serr s \<noteq> ERR_NONE then Some (Closed (None, s))
      else do {
        c \<leftarrow> close_file env (image_escape ie) s;
        if_closed c (\<lambda>s1.
          if suggested \<noteq> KERNEL_TYPE_NONE \<and> (big \<and> suggested \<noteq> KERNEL_TYPE_BIG_LINUX \<or> \<not> big \<and> suggested \<noteq> KERNEL_TYPE_LINUX)
          then Some (Closed (Some KERNEL_TYPE_NONE, set_serr ERR_EXEC_FORMAT s1))
          else Some (Closed (Some (if big then KERNEL_TYPE_BIG_LINUX else KERNEL_TYPE_LINUX), s1\<lparr>boot := (boot s1)\<lparr>linux_text_len := tlen\<rparr>\<rparr>))) })"

text \<open>The kernel with its options; an option that cannot be read ends the loading.\<close>

definition linux_options :: "('w, 't) shell_env \<Rightarrow> image_env \<Rightarrow> u8 list \<Rightarrow> kernel_t \<Rightarrow> u32 \<Rightarrow> u8 list \<Rightarrow> bool \<Rightarrow> u32 \<Rightarrow> u32 \<Rightarrow> ('w, 't) shell
    \<Rightarrow> (kernel_t option \<times> ('w, 't) shell) close_result option" where
  "linux_options env ie arg suggested load_flags lh big sects tlen s =
     do { video \<leftarrow> video_option arg;
          case video of
            Inl e \<Rightarrow> do { c \<leftarrow> close_file env (image_escape ie) (set_serr e s);
                          if_closed c (\<lambda>s1. Some (Closed (Some KERNEL_TYPE_NONE, s1))) }
          | Inr vid \<Rightarrow> do {
              (sz, e) \<leftarrow> memory_option arg (serr s) (linux_mem_size (boot s));
              s1 \<leftarrow> linux_parts env arg load_flags (case vid of None \<Rightarrow> lh | Some v \<Rightarrow> overlay lh 0x1FA (le16_parts v)) sects tlen
                     (set_serr e (s\<lparr>boot := (boot s)\<lparr>linux_mem_size := sz\<rparr>\<rparr>));
              linux_done env ie suggested big tlen s1 } }"

definition linux_image :: "('w, 't) shell_env \<Rightarrow> image_env \<Rightarrow> u8 list \<Rightarrow> kernel_t \<Rightarrow> u32 \<Rightarrow> image \<Rightarrow> ('w, 't) shell
    \<Rightarrow> (kernel_t option \<times> ('w, 't) shell) close_result option" where
  "linux_image env ie arg suggested load_flags img s =
     (let (lh, big, real) = linux_header (mem_lower (boot s)) (img_buf img);
          sects = linux_setup_sects (img_buf img);
          tlen = of_int (filemax (files s)) - push_bit 9 sects - 512;
          s1 = s\<lparr>boot := (boot s)\<lparr>linux_data_real_addr := real, linux_data_tmp_addr := LINUX_BZIMAGE_ADDR + tlen\<rparr>\<rparr>
      in if \<not> big \<and> real - LINUX_ZIMAGE_ADDR < tlen \<or> push_bit 10 (mem_lower (boot s)) < real + LINUX_SETUP_MOVE_SIZE
         then Some (Closed (None, set_serr ERR_WONT_FIT s1))
         else linux_options env ie arg suggested load_flags lh big sects tlen s1)"

section \<open>Loading sections\<close>

definition MB_INFO_MODS :: u32 where "MB_INFO_MODS = 8"
definition MB_INFO_AOUT_SYMS :: u32 where "MB_INFO_AOUT_SYMS = 0x10"
definition MB_INFO_ELF_SHDR :: u32 where "MB_INFO_ELF_SHDR = 0x20"

text \<open>An error that is set only if there is none yet.\<close>

definition fail_unless :: "bool \<Rightarrow> ('w, 't) shell \<Rightarrow> ('w, 't) shell" where
  "fail_unless c s = (if \<not> c \<and> serr s = ERR_NONE then set_serr ERR_EXEC_FORMAT s else s)"

definition advance :: "u32 \<Rightarrow> ('w, 't) shell \<Rightarrow> ('w, 't) shell" where
  "advance n s = set_cur (cur s + n) s"

definition set_syms :: "u32 \<Rightarrow> u32 \<Rightarrow> u32 \<Rightarrow> u32 \<Rightarrow> ('w, 't) shell \<Rightarrow> ('w, 't) shell" where
  "set_syms n sz addr shndx s = s\<lparr>boot := (boot s)\<lparr>syms_num := n, syms_size := sz, syms_addr := addr, syms_shndx := shndx\<rparr>\<rparr>"

text \<open>Text, data and the cleared part of an a.out image or of one with addresses in the multiboot header.\<close>

definition load_text :: "('w, 't) shell_env \<Rightarrow> image \<Rightarrow> ('w, 't) shell \<Rightarrow> ('w, 't) shell option" where
  "load_text env img s =
     do { (r, s1) \<leftarrow> read_to env (cur s) (sint (text_len img)) s;
          if of_int r \<noteq> text_len img then Some (fail_unless False s1)
          else do {
            let s2 = advance (text_len img) s1;
            s3 \<leftarrow> (if img_flags img AND MULTIBOOT_AOUT_KLUDGE \<noteq> 0 then Some s2
                   else do {
                     let s' = (if align_4k img then set_cur (page_align (cur s2)) s2 else s2);
                     (r', s'') \<leftarrow> read_to env (cur s') (sint (data_len img)) s';
                     Some (advance (data_len img) (fail_unless (of_int r' = data_len img) s'')) });
            if serr s3 \<noteq> ERR_NONE then Some s3
            else do { s4 \<leftarrow> clear_mem (cur s3) (bss_len img) s3; Some (advance (bss_len img) s4) } } }"

text \<open>The symbol table, its size, and the string table with its own size. True if all of it is there.\<close>

definition aout_strings :: "('w, 't) shell_env \<Rightarrow> nat \<Rightarrow> ('w, 't) shell \<Rightarrow> (bool \<times> ('w, 't) shell) option" where
  "aout_strings env old s =
     do { (r, out, s1) \<leftarrow> read_local env (le32_parts (of_nat old)) 4 s;
          if r \<noteq> 4 then Some (False, s1)
          else do {
            let i = le32 out 0;
            s2 \<leftarrow> store (cur s1) (le32_parts i) s1;
            let s3 = advance 4 (s2\<lparr>boot := (boot s2)\<lparr>syms_size := i\<rparr>\<rparr>);
            (r', s4) \<leftarrow> read_to env (cur s3) (sint (i - 4)) s3;
            Some (of_int r' = i - 4, advance (i - 4) s4) } }"

definition load_aout :: "('w, 't) shell_env \<Rightarrow> image \<Rightarrow> ('w, 't) shell \<Rightarrow> ('w, 't) shell option" where
  "load_aout env img s =
     do { s1 \<leftarrow> load_text env img s;
          let size = le32 (img_buf img) 16;
          if serr s1 = ERR_NONE \<and> size \<noteq> 0 \<and> size < of_int (filemax (files s1) - filepos (files s1))
          then do {
            let s2 = (if align_4k img then set_cur (page_align (cur s1)) s1 else s1);
            s3 \<leftarrow> store (cur s2) (le32_parts size) (s2\<lparr>boot := (boot s2)\<lparr>syms_addr := cur s2\<rparr>\<rparr>);
            (r, s4) \<leftarrow> read_to env (cur s3 + 4) (sint size) (advance 4 s3);
            (ok, s5) \<leftarrow>
              (if of_int r \<noteq> size then Some (False, s4)
               else aout_strings env (img_pos img) (advance size (s4\<lparr>boot := (boot s4)\<lparr>syms_num := size\<rparr>\<rparr>)));
            Some (if ok then s5\<lparr>mbi_flags := mbi_flags s5 OR MB_INFO_AOUT_SYMS\<rparr>
                  else set_cur (cur s1) (set_syms 0 0 0 (syms_shndx (boot s5)) s5)) }
          else Some s1 }"

text \<open>
  A segment of an ELF image at its place in memory: true if it has been loaded.
\<close>

definition load_segment :: "('w, 't) shell_env \<Rightarrow> u32 \<Rightarrow> u32 \<Rightarrow> u32 \<Rightarrow> ('w, 't) shell \<Rightarrow> (bool \<times> ('w, 't) shell) option" where
  "load_segment env memaddr filesiz memsiz s =
     (let (ok, s1) = check_mem memaddr memsiz s
      in if \<not> ok then Some (False, s1)
         else do {
           (r, s2) \<leftarrow> read_to env memaddr (sint filesiz) s1;
           if of_int r \<noteq> filesiz then Some (False, s2)
           else do {
             s3 \<leftarrow> (if filesiz < memsiz then clear_mem (memaddr + filesiz) (memsiz - filesiz) s2 else Some s2);
             Some (True, s3) } })"

text \<open>
  A program header: whether it is a segment to load, whether the loop goes on, the physical entry address, and the state. The header
  may be outside the buffer.
\<close>

definition elf_segment :: "('w, 't) shell_env \<Rightarrow> image \<Rightarrow> nat \<Rightarrow> u32 \<Rightarrow> ('w, 't) shell \<Rightarrow> (bool \<times> bool \<times> u32 \<times> ('w, 't) shell) option" where
  "elf_segment env img i real s =
     (let buf = img_buf img; p = unat (le32 buf 28 + le16 buf 42 * of_nat i)
      in if length buf < p + 32 then None
         else if le32 buf p \<noteq> 1 then Some (False, True, real, s)
         else do {
           let memsiz = le32 buf (p + 20);
           let paddr = le32 buf (p + 12);
           let vaddr = le32 buf (p + 8);
           let memaddr = (if img_type img \<in> {KERNEL_TYPE_FREEBSD, KERNEL_TYPE_NETBSD, KERNEL_TYPE_OPENBSD} then paddr AND 0xFFFFFF else paddr);
           let s1 = seek_file (le32 buf (p + 4)) s;
           let s2 = (if memaddr < 0x100000 then set_serr ERR_BELOW_1MB s1 else s1);
           let entry = entry_addr (boot s);
           (go, s3) \<leftarrow> load_segment env memaddr (min (le32 buf (p + 16)) memsiz) memsiz
                            (if cur s < memaddr + memsiz then set_cur (memaddr + memsiz) s2 else s2);
           Some (True, go,
             if img_type img = KERNEL_TYPE_MULTIBOOT \<and> vaddr \<le> entry \<and> entry < vaddr + memsiz then entry + memaddr - vaddr else real, s3) })"

text \<open>The loop over the segments: whether there was one, and the entry address.\<close>

primrec elf_segments :: "('w, 't) shell_env \<Rightarrow> image \<Rightarrow> nat list \<Rightarrow> bool \<Rightarrow> u32 \<Rightarrow> ('w, 't) shell \<Rightarrow> (bool \<times> u32 \<times> ('w, 't) shell) option" where
  "elf_segments env img [] loaded real s = Some (loaded, real, s)"
| "elf_segments env img (i # is) loaded real s =
     do { (load, go, real', s') \<leftarrow> elf_segment env img i real s;
          if go then elf_segments env img is (loaded \<or> load) real' s' else Some (loaded \<or> load, real', s') }"

text \<open>
  A section that is not loaded yet is put behind the table of sections in memory, and its address into the table; true if the loop goes on. The
  section is found in the table as it is in memory.
\<close>

definition elf_section :: "('w, 't) shell_env \<Rightarrow> u32 \<Rightarrow> nat \<Rightarrow> ('w, 't) shell \<Rightarrow> (bool \<times> ('w, 't) shell) option" where
  "elf_section env table i s =
     (let shdr = fetch (table + of_nat (40 * i)) 40 s; sz = le32 shdr 20
      in if le32 shdr 12 \<noteq> 0 \<or> sz = 0 then Some (True, s)
         else
           let a = (cur s + le32 shdr 32) AND - le32 shdr 32;
               s1 = seek_file (le32 shdr 16) (set_cur a s);
               (ok, s2) = check_mem a sz s1
           in if \<not> ok then Some (False, s2)
              else do {
                (r, s3) \<leftarrow> read_to env a (sint sz) s2;
                if r \<noteq> sint sz then Some (False, s3)
                else do { s4 \<leftarrow> store (table + of_nat (40 * i) + 12) (le32_parts a) s3; Some (True, advance sz s4) } })"

primrec elf_sections :: "('w, 't) shell_env \<Rightarrow> u32 \<Rightarrow> nat list \<Rightarrow> ('w, 't) shell \<Rightarrow> (bool \<times> ('w, 't) shell) option" where
  "elf_sections env table [] s = Some (True, s)"
| "elf_sections env table (i # is) s =
     do { (go, s') \<leftarrow> elf_section env table i s; if go then elf_sections env table is s' else Some (False, s') }"

definition elf_symbols :: "('w, 't) shell_env \<Rightarrow> image \<Rightarrow> ('w, 't) shell \<Rightarrow> ('w, 't) shell option" where
  "elf_symbols env img s =
     do { let buf = img_buf img;
          let size = le16 buf 46 * le16 buf 48;
          let s1 = set_syms (le16 buf 48) (le16 buf 46) (syms_addr (boot s)) (le16 buf 50) (if align_4k img then set_cur (page_align (cur s)) s else s);
          (r, s2) \<leftarrow> read_to env (cur s1) (sint size) (seek_file (le32 buf 32) s1);
          (ok, s3) \<leftarrow>
            (if r \<noteq> sint size then Some (False, s2)
             else elf_sections env (cur s2) [0..<unat (le16 buf 48)] (advance size (s2\<lparr>boot := (boot s2)\<lparr>syms_addr := cur s2\<rparr>\<rparr>)));
          Some (if ok \<and> 0x10000 \<le> syms_addr (boot s3) then s3\<lparr>mbi_flags := mbi_flags s3 OR MB_INFO_ELF_SHDR\<rparr>
                else set_cur 0 (set_syms 0 0 0 0 s3)) }"

definition load_elf :: "('w, 't) shell_env \<Rightarrow> image \<Rightarrow> ('w, 't) shell \<Rightarrow> (u32 \<times> ('w, 't) shell) option" where
  "load_elf env img s =
     do { (loaded, real, s1) \<leftarrow> elf_segments env img [0..<unat (le16 (img_buf img) 44)] False 0 (set_cur 0 s);
          if serr s1 \<noteq> ERR_NONE then Some (real, s1)
          else if \<not> loaded then Some (real, set_serr ERR_EXEC_FORMAT s1)
          else do { s2 \<leftarrow> elf_symbols env img s1; Some (real, s2) } }"

section \<open>Loading an image\<close>

definition MB_CMDLINE_BUF :: u32 where "MB_CMDLINE_BUF = 0x2000"

text \<open>The multiboot information before the image is loaded.\<close>

definition fill_mbi :: "('w, 't) shell \<Rightarrow> ('w, 't) shell" where
  "fill_mbi s = set_syms 0 0 0 0
     (s\<lparr>mbi_flags := mbi_flags s AND NOT (MB_INFO_MODS OR MB_INFO_AOUT_SYMS OR MB_INFO_ELF_SHDR),
        boot := (boot s)\<lparr>mbi_cmdline := MB_CMDLINE_BUF + of_nat (mb_cmdline s), mods_count := 0, mods_addr := 0,
          boot_device := push_bit 24 (current_drive (dev (files s))) OR current_partition (dev (files s))\<rparr>\<rparr>)"

definition end_image :: "('w, 't) shell_env \<Rightarrow> image_env \<Rightarrow> kernel_t \<Rightarrow> kernel_t \<Rightarrow> ('w, 't) shell
    \<Rightarrow> (kernel_t \<times> ('w, 't) shell) close_result option" where
  "end_image env ie suggested type s =
     do { c \<leftarrow> close_file env (image_escape ie) s;
          if_closed c (\<lambda>s1. Some (Closed
            (if suggested \<noteq> KERNEL_TYPE_NONE \<and> suggested \<noteq> type then (KERNEL_TYPE_NONE, set_serr ERR_EXEC_FORMAT s1) else (type, s1)))) }"

text \<open>An image that is not a Linux kernel.\<close>

definition load_sections :: "('w, 't) shell_env \<Rightarrow> image_env \<Rightarrow> kernel_t \<Rightarrow> image \<Rightarrow> ('w, 't) shell \<Rightarrow> (kernel_t \<times> ('w, 't) shell) close_result option" where
  "load_sections env ie suggested img s =
     (if serr s \<noteq> ERR_NONE
      then do { c \<leftarrow> close_file env (image_escape ie) s; if_closed c (\<lambda>s1. Some (Closed (KERNEL_TYPE_NONE, s1))) }
      else do {
        (real, s1) \<leftarrow> (if exec_type img \<noteq> 0 then do { s1 \<leftarrow> load_aout env img (fill_mbi s); Some (0, s1) } else load_elf env img (fill_mbi s));
        end_image env ie suggested (if serr s1 = ERR_NONE then img_type img else KERNEL_TYPE_NONE)
          (if serr s1 = ERR_NONE \<and> real \<noteq> 0 then s1\<lparr>boot := (boot s1)\<lparr>entry_addr := real\<rparr>\<rparr> else s1) })"

definition load_format :: "('w, 't) shell_env \<Rightarrow> image_env \<Rightarrow> u8 list \<Rightarrow> kernel_t \<Rightarrow> u32 \<Rightarrow> image \<Rightarrow> ('w, 't) shell
    \<Rightarrow> (kernel_t \<times> ('w, 't) shell) close_result option" where
  "load_format env ie arg suggested load_flags img s =
     (let sections = (\<lambda>(img, s). load_sections env ie suggested img s); buf = img_buf img
      in if elf_wanted suggested img then sections (elf_format suggested img s)
         else if img_flags img AND MULTIBOOT_AOUT_KLUDGE \<noteq> 0 then sections (kludge_format img s)
         else if 32 < img_len img \<and> \<not> N_BADMAG buf then sections (aout_format img s)
         else if le16 buf 0x1FE = 0xAA55 \<and> ucast (buf ! 0x1F1) \<le> LINUX_MAX_SETUP_SECTS
         then do {
           res \<leftarrow> linux_image env ie arg suggested load_flags img s;
           if_closed res (\<lambda>(type, s1). case type of Some t \<Rightarrow> Some (Closed (t, s1)) | None \<Rightarrow> load_sections env ie suggested img s1) }
         else sections (img, set_serr ERR_EXEC_FORMAT s))"

definition load_image :: "('w, 't) shell_env \<Rightarrow> image_env \<Rightarrow> u8 list \<Rightarrow> kernel_t \<Rightarrow> u32 \<Rightarrow> ('w, 't) shell
    \<Rightarrow> (kernel_t \<times> ('w, 't) shell) close_result option" where
  "load_image env ie name suggested load_flags s =
     do { arg \<leftarrow> c_string (mb_buf s) (mb_cmdline s);
          (ok, s1) \<leftarrow> open_file env name (s\<lparr>files := (files s)\<lparr>measure_kernel := True\<rparr>\<rparr>);
          if \<not> ok then Some (Closed (KERNEL_TYPE_NONE, s1))
          else do {
            (len, buf, s2) \<leftarrow> read_local env (image_junk ie) (int MULTIBOOT_SEARCH) s1;
            if len < 32
            then do { c \<leftarrow> close_file env (image_escape ie) s2; if_closed c (\<lambda>s3. Some (Closed (KERNEL_TYPE_NONE, fail_unless False s3))) }
            else case find_header ie buf len s2 of
                   Inl _ \<Rightarrow> do { c \<leftarrow> close_file env (image_escape ie) s2; if_closed c (\<lambda>s3. Some (Closed (KERNEL_TYPE_NONE, set_serr ERR_BOOT_FEATURES s3))) }
                 | Inr (img, s3) \<Rightarrow> load_format env ie arg suggested load_flags img s3 } }"

section \<open>Modules\<close>

text \<open>
  The split of the arguments of a module: \<open>find_args[10][1024]\<close>, all of them behind each other in memory. A space ends an argument, and the
  character behind it belongs to the next one whatever it is.
\<close>

definition put_arg :: "u8 list \<Rightarrow> nat \<Rightarrow> nat \<Rightarrow> u8 \<Rightarrow> u8 list option" where
  "put_arg args n c v = wr args (1024 * n + c) v"

function split_args :: "u8 list \<Rightarrow> nat \<Rightarrow> nat \<Rightarrow> nat \<Rightarrow> u8 list \<Rightarrow> (nat \<times> nat \<times> u8 list) option" where
  "split_args arg g n c args =
     (if length arg < g then Some (n, c, args)
      else do {
        x \<leftarrow> rd (arg @ [0]) g;
        if grub_isspace (sint x)
        then do { args1 \<leftarrow> put_arg args n c 0;
                  y \<leftarrow> rd (arg @ [0]) (g + 1);
                  args2 \<leftarrow> put_arg args1 (n + 1) 0 y;
                  split_args arg (g + 2) (n + 1) 1 args2 }
        else do { args1 \<leftarrow> put_arg args n c x; split_args arg (g + 1) n (c + 1) args1 } })"
  by pat_completeness auto
termination by (relation "measure (\<lambda>(arg, g, n, c, args). Suc (length arg) - g)") auto

declare split_args.simps [simp del]

text \<open>
  The dialog: the password is typed twice until both are the same. \<open>typed\<close> is what \<open>get_cmdline\<close> stores, at most ten characters each; the result is the
  password and what is left of the input. Without input there is no end.
\<close>

fun ask_password :: "(u8 list \<times> u8 list) list \<Rightarrow> (u8 list \<times> (u8 list \<times> u8 list) list) option" where
  "ask_password [] = None"
| "ask_password ((p, q) # typed) = (if p = q then Some (p, typed) else ask_password typed)"

text \<open>
  The new command line: the array \<open>new_cmdline\<close> has room for the length of the old one and no more; what is behind the array or has no end has no
  defined result, nor have the arrays while an error is pending, since they are not cleared then. \<open>append_arg\<close> stores behind the text that is there.
\<close>

definition append_arg :: "u8 list \<Rightarrow> u8 list \<Rightarrow> u8 list option" where
  "append_arg new bs =
     do { t \<leftarrow> c_string new 0; put_bytes new (length t) bs }"

definition module_arg :: "u8 list \<Rightarrow> nat \<Rightarrow> nat \<Rightarrow> (u8 list \<times> u8 list) list \<Rightarrow> u8 list \<Rightarrow> u8 list \<Rightarrow> (u8 list \<times> u8 list \<times> (u8 list \<times> u8 list) list) option" where
  "module_arg args count i typed temp new =
     do { a \<leftarrow> c_string args (1024 * i);
          let quoted = (a = ascii ''--with-password-dialog'' @ [0x22]);
          if quoted \<or> a = ascii ''--with-password-dialog''
          then do {
            (pass, typed') \<leftarrow> ask_password typed;
            let text = ascii ''--password '' @ [0x27] @ pass @ [0x27] @ (if quoted then [0x22] else []) @ [0x20];
            temp' \<leftarrow> put_bytes temp 0 (text @ [0]);
            new' \<leftarrow> append_arg new text;
            Some (temp', new', typed') }
          else do {
            new1 \<leftarrow> append_arg new a;
            new2 \<leftarrow> (if i < count - 1 then append_arg new1 [0x20] else Some new1);
            Some (temp, new2, typed) } }"

primrec module_args :: "u8 list \<Rightarrow> nat \<Rightarrow> nat list \<Rightarrow> (u8 list \<times> u8 list) list \<Rightarrow> u8 list \<Rightarrow> u8 list \<Rightarrow> u8 list option" where
  "module_args args count [] typed temp new = Some new"
| "module_args args count (i # is) typed temp new =
     do { (temp', new', typed') \<leftarrow> module_arg args count i typed temp new; module_args args count is typed' temp' new' }"

definition module_cmdline :: "image_env \<Rightarrow> grub_error_t \<Rightarrow> u8 list \<Rightarrow> u8 list option" where
  "module_cmdline ie err arg =
     do { k \<leftarrow> grub_strstr (arg @ [0]) (ascii ''--with-password-dialog'' @ [0]);
          if k = None then Some arg
          else if err \<noteq> ERR_NONE then None
          else do {
            (n, c, args) \<leftarrow> split_args arg 0 0 0 (args_junk ie);
            args' \<leftarrow> put_arg args n c 0;
            new \<leftarrow> module_args args' (n + 1) [0..<n + 1] (module_typed ie) (replicate (length arg) 0) (replicate (length arg) 0);
            c_string new 0 } }"

text \<open>\<open>load_module\<close> with its argument in the buffer at \<open>mb_cmdline\<close>.\<close>

definition load_module :: "('w, 't) shell_env \<Rightarrow> image_env \<Rightarrow> u8 list \<Rightarrow> ('w, 't) shell \<Rightarrow> (bool \<times> ('w, 't) shell) close_result option" where
  "load_module env ie name s =
     do { arg \<leftarrow> c_string (mb_buf s) (mb_cmdline s);
          arg' \<leftarrow> module_cmdline ie (serr s) arg;
          buf \<leftarrow> put_bytes (mb_buf s) (mb_cmdline s) (arg' @ replicate (length arg - length arg') 0);
          let s0 = set_cur (page_align (cur s)) (s\<lparr>mb_buf := buf\<rparr>);
          (ok, s1) \<leftarrow> open_file env name s0;
          if \<not> ok then Some (Closed (False, s1))
          else if 1024 * (1024 + mem_upper s1) \<le> cur s1 + of_int (filemax (files s1))
          then do { c \<leftarrow> close_file env (image_escape ie) (set_serr ERR_BADMODADDR s1); if_closed c (\<lambda>s2. Some (Closed (False, s2))) }
          else do {
            (len, s2) \<leftarrow> read_to env (cur s1) (-1) s1;
            if len = 0
            then do { c \<leftarrow> close_file env (image_escape ie) s2; if_closed c (\<lambda>s3. Some (Closed (False, s3))) }
            else do {
              let b = boot s2;
              mods \<leftarrow> wr (mll b) (unat (mods_count b)) (MB_CMDLINE_BUF + of_nat (mb_cmdline s2), cur_addr b, cur_addr b + of_int len);
              c \<leftarrow> close_file env (image_escape ie) (s2\<lparr>mbi_flags := mbi_flags s2 OR MB_INFO_MODS,
                     boot := b\<lparr>mods_addr := mll_addr ie, cur_addr := cur_addr b + of_int len, mods_count := mods_count b + 1, mll := mods\<rparr>\<rparr>);
              if_closed c (\<lambda>s3. Some (Closed (True, s3))) } } }"

section \<open>The initial RAM disk\<close>

text \<open>Where the RAM disk is moved to: below the end of the memory and the highest address the kernel accepts, at a page.\<close>

definition initrd_place :: "u32 \<Rightarrow> u32 \<Rightarrow> u32 \<Rightarrow> u32" where
  "initrd_place limit max_addr len =
     (let a = (limit - len) AND 0xfffff000
      in (if max_addr \<le> a + len then (max_addr - len) AND 0xfffff000 else a) - 0x10000)"

definition set_unzip :: "bool \<Rightarrow> ('w, 't) shell \<Rightarrow> ('w, 't) shell" where
  "set_unzip x s = s\<lparr>files := (files s)\<lparr>no_decompression := x\<rparr>\<rparr>"

text \<open>The move, and the address and the size for the kernel; \<open>lh\<close> is where the setup part of the kernel is.\<close>

definition move_initrd :: "u32 \<Rightarrow> int \<Rightarrow> ('w, 't) shell \<Rightarrow> ('w, 't) shell option" where
  "move_initrd lh len s =
     (let b = boot s;
          limit = (if linux_mem_size b \<noteq> 0 then linux_mem_size b else push_bit 10 (mem_upper s + 0x400));
          max_addr = (if le32 (fetch (lh + 0x202) 4 s) 0 = LINUX_MAGIC_SIGNATURE \<and> 0x203 \<le> le16 (fetch (lh + 0x206) 2 s) 0
                      then le32 (fetch (lh + 0x22C) 4 s) 0 else LINUX_INITRD_MAX_ADDRESS);
          moveto = initrd_place limit max_addr (of_int len)
      in do {
        s1 \<leftarrow> copy_to moveto (fetch (cur s) (nat len) s) s;
        store (lh + 0x218) (le32_parts moveto @ le32_parts (of_int len)) s1 })"

definition load_initrd :: "('w, 't) shell_env \<Rightarrow> image_env \<Rightarrow> u8 list \<Rightarrow> ('w, 't) shell \<Rightarrow> (bool \<times> ('w, 't) shell) close_result option" where
  "load_initrd env ie name s =
     do { let lh = cur s - LINUX_SETUP_MOVE_SIZE;
          let fin = (\<lambda>s. Some (Closed (serr s = ERR_NONE, set_unzip False s)));
          (ok, s1) \<leftarrow> open_file env name (set_unzip True s);
          if \<not> ok then fin s1
          else do {
            (len, s2) \<leftarrow> read_to env (cur s1) (-1) s1;
            s3 \<leftarrow> (if len = 0 then Some s2 else move_initrd lh len s2);
            c \<leftarrow> close_file env (image_escape ie) s3;
            if_closed c fin } }"

end
