(* ===== verification/Frame.thy ===== *)
theory Frame
  imports Checkfile
begin

unbundle bit_operations_syntax

text \<open>
  What the file code leaves alone: reading, opening and decompressing files do not touch the memory of the TPM interface and the TPM, and
  closing a file changes no register but 14. The frame of the decompressor is the contract \<open>source_frame\<close>: a part of the state that
  the source of bytes keeps is kept by the whole decompressor.
\<close>

section \<open>The decompressor\<close>

locale source_frame =
  fixes src :: "'s byte_source" and part :: "'s \<Rightarrow> 'k"
  assumes next_byte_keeps: "next_byte src s = Some (x, s') \<Longrightarrow> part s' = part s"
    and bad_data_keeps: "part (bad_data src s) = part s"
begin

lemma need_bits_keeps: "need_bits src n bk s = Some (bk', s') \<Longrightarrow> part s' = part s"
proof (induction "n - snd bk" arbitrary: bk s rule: less_induct)
  case less
  obtain b k where bk: "bk = (b, k)" by (cases bk)
  show ?case
  proof (cases "k < n")
    case True
    then obtain x s1 where "next_byte src s = Some (x, s1)" "need_bits src n (b OR push_bit k (ucast x), k + 8) s1 = Some (bk', s')"
      using less.prems bk by (auto simp: need_bits.simps [of src n b k] Option.bind_eq_Some_conv)
    then show ?thesis using less.hyps [of "(b OR push_bit k (ucast x), k + 8)" s1] next_byte_keeps True bk by auto
  qed (use less.prems bk in \<open>simp add: need_bits.simps [of src n b k]\<close>)
qed

lemma get_bits_keeps: "get_bits src n bk s = Some (x, bk', s') \<Longrightarrow> part s' = part s"
  by (auto simp: get_bits_def Option.bind_eq_Some_conv dest: need_bits_keeps)

lemma huft_walk_keeps: "huft_walk src heap t bits bk s = Some (r, bk', s') \<Longrightarrow> part s' = part s"
proof -
  have "src = src \<longrightarrow> part (snd (snd res)) = part s" if "huft_walk src heap t bits bk s = Some res" for res
  proof (rule huft_walk.raw_induct [where P = "\<lambda>src' heap t bits bk s res. src' = src \<longrightarrow> part (snd (snd res)) = part s", OF _ that],
      intro impI, hypsubst)
    fix walk heap t bits bk s res
    assume IH: "\<And>src' heap t bits bk s res. walk src' heap t bits bk s = Some res \<Longrightarrow> src' = src \<longrightarrow> part (snd (snd res)) = part s"
      and "need_bits src bits bk s \<bind> (\<lambda>(bk1, s1). rd mask_bits bits \<bind> (\<lambda>m. rd heap t \<bind> (\<lambda>tab.
        rd tab (unat (fst bk1 AND m)) \<bind> (\<lambda>cell. cell \<bind> (\<lambda>r.
          if h_e r \<le> 16 then Some (Some r, dump_bits (h_b r) bk1, s1) else if h_e r = 99 then Some (None, bk1, s1)
          else walk src heap (h_v r) (h_e r - 16) (dump_bits (h_b r) bk1) s1))))) = Some res"
    then show "part (snd (snd res)) = part s"
      by (auto simp: Option.bind_eq_Some_conv split: if_splits dest!: need_bits_keeps dest: IH)
  qed
  then show "huft_walk src heap t bits bk s = Some (r, bk', s') \<Longrightarrow> part s' = part s" by fastforce
qed

lemma decode_code_keeps: "decode_code src g w bk s = Some (c, bk', s') \<Longrightarrow> part s' = part s"
  by (auto simp: decode_code_def split: bind_splits option.splits if_splits dest!: huft_walk_keeps get_bits_keeps)

lemma codes_loop_keeps: "codes_loop src g n d bk w s = Some (e, g', s') \<Longrightarrow> part s' = part s"
proof -
  have "src = src \<longrightarrow> part (snd (snd res)) = part s" if "codes_loop src g n d bk w s = Some res" for res
  proof (rule codes_loop.raw_induct [where P = "\<lambda>src' g n d bk w s res. src' = src \<longrightarrow> part (snd (snd res)) = part s", OF _ that],
      intro impI, hypsubst)
    fix loop g n d bk w s res
    assume IH: "\<And>src' g n d bk w s res. loop src' g n d bk w s = Some res \<Longrightarrow> src' = src \<longrightarrow> part (snd (snd res)) = part s"
      and body: "(if code_state g = 0 then decode_code src g w bk s else Some (Match n d, bk, s)) \<bind> (\<lambda>(c, bk1, s1).
       case c of
         Bad_Code \<Rightarrow> Some (False, g, bad_data src s1)
       | Literal x \<Rightarrow>
           let g1 = g\<lparr>gz_slide := (gz_slide g)[w := x]\<rparr>
           in if w + 1 = WSIZE then Some (block_len g1 = 0, codes_done g1 n d bk1 (w + 1), s1)
              else loop src g1 n d bk1 (w + 1) s1
       | End_Block \<Rightarrow> Some (True, codes_done (g\<lparr>block_len := 0\<rparr>) n d bk1 w, s1)
       | Match n1 d1 \<Rightarrow>
           let (w', d', n', slide') = copy_match (failed src s1) w d1 n1 (gz_slide g);
               g1 = g\<lparr>gz_slide := slide', code_state := (if n' = 0 then 0 else 1)\<rparr>
           in if w' = WSIZE then Some (block_len g1 = 0, codes_done g1 n' d' bk1 w', s1)
              else loop src g1 n' d' bk1 w' s1) = Some res"
    obtain c bk1 s1 where "(if code_state g = 0 then decode_code src g w bk s else Some (Match n d, bk, s)) = Some (c, bk1, s1)"
      using body by (auto simp: Option.bind_eq_Some_conv)
    moreover from this have "part s1 = part s" by (auto split: if_splits dest: decode_code_keeps)
    ultimately show "part (snd (snd res)) = part s"
      using body by (cases c) (auto simp: Let_def bad_data_keeps split_beta split: if_splits dest!: IH)
  qed
  then show "codes_loop src g n d bk w s = Some (e, g', s') \<Longrightarrow> part s' = part s" by fastforce
qed

lemma bit_lengths_keeps: "bit_lengths src is ll bk s = Some (ll', bk', s') \<Longrightarrow> part s' = part s"
  by (induction "is" arbitrary: ll bk s) (auto simp: Option.bind_eq_Some_conv dest!: get_bits_keeps)

lemma code_lengths_keeps: "code_lengths src tab bl n ll i l bk s = Some (ls, bk', s') \<Longrightarrow> part s' = part s"
proof -
  have "src = src \<longrightarrow> part (snd (snd res)) = part s" if "code_lengths src tab bl n ll i l bk s = Some res" for res
  proof (rule code_lengths.raw_induct [where P = "\<lambda>src' tab bl n ll i l bk s res. src' = src \<longrightarrow> part (snd (snd res)) = part s", OF _ that],
      intro impI, hypsubst, goal_cases)
    case (1 loop src' tab bl n ll i l bk s res)
    note IH = 1(1)
    show ?case using 1(2)
      by (auto simp: Option.bind_eq_Some_conv Let_def split: if_splits dest!: need_bits_keeps get_bits_keeps IH)
  qed
  then show "code_lengths src tab bl n ll i l bk s = Some (ls, bk', s') \<Longrightarrow> part s' = part s" by fastforce
qed

lemma init_stored_block_keeps: "init_stored_block src g s = Some (g', s') \<Longrightarrow> part s' = part s"
  by (auto simp: init_stored_block_def Let_def bad_data_keeps split: bind_splits if_splits dest!: need_bits_keeps get_bits_keeps)

lemma init_fixed_block_keeps: "init_fixed_block src g s = Some (g', s') \<Longrightarrow> part s' = part s"
  by (auto simp: init_fixed_block_def Let_def bad_data_keeps split: bind_splits if_splits)

lemma init_dynamic_block_keeps: "init_dynamic_block src g s = Some (g', s') \<Longrightarrow> part s' = part s"
  by (auto simp: init_dynamic_block_def Let_def bad_data_keeps split: bind_splits option.splits if_splits
      dest!: get_bits_keeps bit_lengths_keeps code_lengths_keeps)

lemma get_new_block_keeps: "get_new_block src g s = Some (g', s') \<Longrightarrow> part s' = part s"
  by (auto simp: get_new_block_def Let_def split: bind_splits if_splits
      dest!: get_bits_keeps init_stored_block_keeps init_fixed_block_keeps init_dynamic_block_keeps)

lemma stored_bytes_keeps: "stored_bytes src n w slide s = Some (n', w', slide', s') \<Longrightarrow> part s' = part s"
  by (induction n arbitrary: w slide s) (auto simp: Option.bind_eq_Some_conv split: if_splits dest!: next_byte_keeps)

lemma window_loop_keeps: "window_loop src g s = Some (e, g', s') \<Longrightarrow> part s' = part s"
proof -
  have "src = src \<longrightarrow> part (snd (snd res)) = part s" if "window_loop src g s = Some res" for res
  proof (rule window_loop.raw_induct [where P = "\<lambda>src' g s res. src' = src \<longrightarrow> part (snd (snd res)) = part s", OF _ that],
      intro impI, hypsubst, goal_cases)
    case (1 loop src' g s res)
    note IH = 1(1)
    have first: "part s1 = part s" if "(if block_len g = 0 then get_new_block src g s else Some (g, s)) = Some (g1, s1)" for g1 s1
      using that by (auto split: if_splits dest: get_new_block_keeps)
    show ?case using 1(2)
      by (auto simp: Option.bind_eq_Some_conv Let_def bad_data_keeps inflate_codes_in_window_def split: if_splits
          dest!: IH stored_bytes_keeps codes_loop_keeps get_new_block_keeps)
  qed
  then show "window_loop src g s = Some (e, g', s') \<Longrightarrow> part s' = part s" by fastforce
qed

lemma inflate_window_keeps: "inflate_window src g s = Some (g', s') \<Longrightarrow> part s' = part s"
  by (auto simp: inflate_window_def split: bind_splits if_splits dest!: window_loop_keeps)

end

section \<open>Reading and opening files\<close>

text \<open>A part of the state that the functions of the environment for compressed files keep.\<close>

definition keeps :: "('s \<Rightarrow> 'k) \<Rightarrow> ('s \<Rightarrow> ('a \<times> 's) option) \<Rightarrow> bool" where
  "keeps part f \<longleftrightarrow> (\<forall>s x s'. f s = Some (x, s') \<longrightarrow> part s' = part s)"

lemma keepsD: "keeps part f \<Longrightarrow> f s = Some (x, s') \<Longrightarrow> part s' = part s"
  by (simp add: keeps_def)

definition env_keeps_tcg :: "('w, 't) file_env \<Rightarrow> bool" where
  "env_keeps_tcg env \<longleftrightarrow> keeps tcg (gunzip_test_header env)
     \<and> (\<forall>buf len s r buf' s'. gunzip_read env buf len s = Some (r, buf', s') \<longrightarrow> tcg s' = tcg s)"

lemma blk_read_loop_tcg: "blk_read_loop b len ret buf s = Some (r, buf', s') \<Longrightarrow> tcg s' = tcg s"
proof -
  have "tcg (snd (snd res)) = tcg s" if "blk_read_loop b len ret buf s = Some res" for res
  proof (rule blk_read_loop.raw_induct [where P = "\<lambda>b len ret buf s res. tcg (snd (snd res)) = tcg s", OF _ that], goal_cases)
    case (1 loop b len ret buf s res)
    show ?case using 1(2) by (auto simp: Let_def split_beta split: if_splits bind_splits dest!: 1(1))
  qed
  then show "blk_read_loop b len ret buf s = Some (r, buf', s') \<Longrightarrow> tcg s' = tcg s" by fastforce
qed

lemma sane_filepos_tcg [simp]: "tcg (sane_filepos s) = tcg s"
  by (simp add: sane_filepos_def)

lemma set_ferr_tcg [simp]: "tcg (set_ferr e s) = tcg s"
  by (simp add: set_ferr_def)

lemma hash_more_tcg: "hash_more data len s = Some s' \<Longrightarrow> tcg s' = tcg s"
  by (auto simp: hash_more_def split: bind_splits)

lemma grub_read_body_tcg:
  assumes env: "env_keeps_tcg env" and self: "\<And>buf len s r buf' s'. self buf len s = Some (r, buf', s') \<Longrightarrow> tcg s' = tcg s"
    and "grub_read_body env self buf len s = Some (r, buf', s')"
  shows "tcg s' = tcg s"
proof -
  define s0 where "s0 = (if sha1_has_to_measure (sane_filepos s) = 0 then (sane_filepos s)\<lparr>sha1_has_to_measure := filemax (sane_filepos s)\<rparr> else sane_filepos s)"
  have s0: "tcg s0 = tcg s" by (simp add: s0_def)
  have gz: "gunzip_read env buf len s = Some (r, buf', s') \<Longrightarrow> tcg s' = tcg s" for buf len s r buf' s'
    using env by (simp add: env_keeps_tcg_def)
  show ?thesis
    using assms(3) s0 unfolding grub_read_body_def Let_def s0_def [symmetric]
    by (auto split: bind_splits if_splits dest!: self gz hash_more_tcg blk_read_loop_tcg)
qed

lemma grub_read_tcg: "env_keeps_tcg env \<Longrightarrow> grub_read env buf len s = Some (r, buf', s') \<Longrightarrow> tcg s' = tcg s"
  unfolding grub_read_def by (erule (1) grub_read_body_tcg [rotated 2]) (erule (1) grub_read_body_tcg [rotated 2], simp)

lemma env_test_header_tcg: "env_keeps_tcg env \<Longrightarrow> gunzip_test_header env s = Some (ok, s') \<Longrightarrow> tcg s' = tcg s"
  unfolding env_keeps_tcg_def using keepsD by metis

lemma open_measured_tcg:
  assumes env: "env_keeps_tcg env" and "open_measured env s = Some (ok, s')"
  shows "tcg s' = tcg s"
  using assms(2) unfolding open_measured_def Let_def
  by (auto split: bind_splits if_splits dest!: env_test_header_tcg [OF env] grub_read_tcg [OF env])

lemma open_attempt_tcg:
  assumes env: "env_keeps_tcg env" and "open_attempt env fn s = Some (r, s')"
  shows "tcg s' = tcg s"
  using assms(2) unfolding open_attempt_def Let_def
  by (auto split: bind_splits if_splits option.splits dest!: env_test_header_tcg [OF env] open_measured_tcg [OF env])

lemma open_tries_tcg:
  assumes env: "env_keeps_tcg env"
  shows "open_tries env orig name tries s = Some (ok, s') \<Longrightarrow> tcg s' = tcg s"
proof (induction tries arbitrary: name s)
  case (Cons sfx tries)
  then obtain r s1 where a: "open_attempt env (name @ sfx @ [0]) s = Some (r, s1)"
    and r: "(case r of Some ok \<Rightarrow> Some (ok, s1) | None \<Rightarrow> open_tries env orig (if ferr s1 = ERR_NONE then orig else name) tries s1) = Some (ok, s')"
    by (auto simp: Option.bind_eq_Some_conv split: if_splits)
  have "tcg s' = tcg s1" using r Cons.IH by (cases r) (auto split: if_splits)
  then show ?case using open_attempt_tcg [OF env a] by simp
qed simp

lemma grub_open_tcg:
  assumes env: "env_keeps_tcg env" and "grub_open env junk filename s = Some (ok, s')"
  shows "tcg s' = tcg s"
  using assms(2) unfolding grub_open_def Let_def
  by (auto simp add: Option.bind_eq_Some_conv simp del: open_tries.simps split: if_splits dest!: open_attempt_tcg [OF env] open_tries_tcg [OF env])

lemma copy_loop_length: "copy_loop dst d src s n = Some dst' \<Longrightarrow> length dst' = length dst"
  by (induction n arbitrary: dst d s) (auto simp: Option.bind_eq_Some_conv wr_def split: if_splits)

lemma sha1_finish_length: "sha1_finish (Some c) (Some h) = Some (r, c', h') \<Longrightarrow> length h' = length h"
  by (auto simp: sha1_finish_def Let_def split: bind_splits) (erule copy_loop_length)

text \<open>Closing a file: register 14 at most.\<close>

lemma grub_close_pcr:
  assumes bios: "tcg_bios (int1a_of env) pcr" and "grub_close env escape s = Some (Closed s')" and n: "n \<noteq> 14"
  shows "pcr (snd (tcg s')) n = pcr (snd (tcg s)) n"
proof -
  have up: "pcr (snd (snd (update_pcr (int1a_of env) PCR_KERNEL h t))) n = pcr (snd t) n" if "length h = 5" for h t
    using tcg_bios.update_pcr_law(2) [OF bios, of PCR_KERNEL h t] that n by (simp add: PCR_KERNEL_def)
  have len: "length h = 5" if "sha1_finish (Some c) (Some (replicate 5 0)) = Some (r, c', h)" for c r c' h
    using sha1_finish_length [OF that] by simp
  show ?thesis
    using assms(2) unfolding grub_close_def Let_def by (auto split: bind_splits if_splits dest!: len simp: up)
qed

section \<open>Compressed files\<close>

lemma get_byte_tcg: "env_keeps_tcg env \<Longrightarrow> get_byte env s = Some (x, s') \<Longrightarrow> tcg s' = tcg s"
  unfolding get_byte_def by (auto split: bind_splits if_splits dest: grub_read_tcg)

lemma file_source_frame: "env_keeps_tcg env \<Longrightarrow> source_frame (file_source env) tcg"
  by (rule source_frame.intro) (auto simp: file_source_def dest: get_byte_tcg)

text \<open>The environment that the decompressor itself works in: no file in it is compressed.\<close>

definition raw_env :: "('w, 't) file_env \<Rightarrow> ('w, 't) file_env" where
  "raw_env env = env\<lparr>gunzip_read := (\<lambda>_ _ _. None), gunzip_test_header := (\<lambda>s. Some (True, s))\<rparr>"

lemma raw_env_tcg: "env_keeps_tcg (raw_env env)"
  by (simp add: env_keeps_tcg_def keeps_def raw_env_def)

interpretation raw: source_frame "file_source (raw_env env)" tcg for env :: "('w, 't) file_env"
  by (rule file_source_frame [OF raw_env_tcg])

lemma swap_values_tcg [simp]: "tcg (gunzip_swap_values s) = tcg s"
  by (simp add: gunzip_swap_values_def)

lemma initialize_tables_tcg [simp]: "tcg (initialize_tables s) = tcg s"
  by (simp add: initialize_tables_def)

lemma bad_field_tcg:
  assumes env: "env_keeps_tcg env"
  shows "bad_field env len ch s = Some (bad, s') \<Longrightarrow> tcg s' = tcg s"
proof -
  have "env = env \<longrightarrow> tcg (snd res) = tcg s" if "bad_field env len ch s = Some res" for res
  proof (rule bad_field.raw_induct [where P = "\<lambda>env' len ch s res. env' = env \<longrightarrow> tcg (snd res) = tcg s", OF _ that],
      intro impI, hypsubst, goal_cases)
    case (1 loop env' len ch s res)
    show ?case using 1(2) by (auto split: if_splits bind_splits dest!: 1(1) grub_read_tcg [OF env])
  qed
  then show "bad_field env len ch s = Some (bad, s') \<Longrightarrow> tcg s' = tcg s" by fastforce
qed

lemma bad_fields_tcg:
  assumes env: "env_keeps_tcg env"
  shows "bad_fields env fl s = Some (bad, s') \<Longrightarrow> tcg s' = tcg s"
  unfolding bad_fields_def by (auto split: if_splits bind_splits dest!: bad_field_tcg [OF env] grub_read_tcg [OF env])

lemma bad_header_tcg [simp]: "tcg (snd (bad_header s)) = tcg s"
  by (simp add: bad_header_def)

lemma test_header_tcg:
  assumes env: "env_keeps_tcg env"
  shows "test_header env s = Some (ok, s') \<Longrightarrow> tcg s' = tcg s"
  unfolding test_header_def Let_def
  by (auto simp: bad_header_def split: if_splits bind_splits dest!: bad_fields_tcg [OF env] grub_read_tcg [OF env])

lemma move_window_tcg:
  assumes env: "env_keeps_tcg env"
  shows "move_window env s = Some s' \<Longrightarrow> tcg s' = tcg s"
proof -
  note window = source_frame.inflate_window_keeps [OF file_source_frame [OF env]]
  have "env = env \<longrightarrow> tcg res = tcg s" if "move_window env s = Some res" for res
  proof (rule move_window.raw_induct [where P = "\<lambda>env' s res. env' = env \<longrightarrow> tcg res = tcg s", OF _ that],
      intro impI, hypsubst, goal_cases)
    case (1 loop env' s res)
    show ?case using 1(2) by (auto split: if_splits bind_splits dest!: 1(1) window)
  qed
  then show "move_window env s = Some s' \<Longrightarrow> tcg s' = tcg s" by simp
qed

lemma gunzip_loop_tcg:
  assumes env: "env_keeps_tcg env"
  shows "gunzip_loop env buf len ret s = Some (r, buf', s') \<Longrightarrow> tcg s' = tcg s"
proof -
  have "env = env \<longrightarrow> tcg (snd (snd res)) = tcg s" if "gunzip_loop env buf len ret s = Some res" for res
  proof (rule gunzip_loop.raw_induct [where P = "\<lambda>env' buf len ret s res. env' = env \<longrightarrow> tcg (snd (snd res)) = tcg s", OF _ that],
      intro impI, hypsubst, goal_cases)
    case (1 loop env' buf len ret s res)
    show ?case using 1(2) by (auto simp: Let_def split: if_splits bind_splits dest!: 1(1) move_window_tcg [OF env])
  qed
  then show "gunzip_loop env buf len ret s = Some (r, buf', s') \<Longrightarrow> tcg s' = tcg s" by fastforce
qed

lemma read_compressed_tcg:
  assumes env: "env_keeps_tcg env"
  shows "read_compressed env buf len s = Some (r, buf', s') \<Longrightarrow> tcg s' = tcg s"
  unfolding read_compressed_def Let_def by (auto split: if_splits bind_splits dest!: gunzip_loop_tcg [OF env])

lemma gunzip_env_tcg: "env_keeps_tcg env \<Longrightarrow> env_keeps_tcg (gunzip_env env)"
  unfolding env_keeps_tcg_def [of "gunzip_env env"] keeps_def
  by (auto simp: gunzip_env_def dest: test_header_tcg read_compressed_tcg)

section \<open>Commands on files\<close>

text \<open>A register that two states agree on.\<close>

definition same_pcr :: "('t \<Rightarrow> u8 \<Rightarrow> u8 list) \<Rightarrow> u8 \<Rightarrow> ('w, 't) file_state \<Rightarrow> ('w, 't) file_state \<Rightarrow> bool" where
  "same_pcr pcr n s s' \<longleftrightarrow> pcr (snd (tcg s')) n = pcr (snd (tcg s)) n"

lemma same_pcrI: "tcg s' = tcg s \<Longrightarrow> same_pcr pcr n s s'"
  by (simp add: same_pcr_def)

lemma same_pcr_trans: "same_pcr pcr n s s' \<Longrightarrow> same_pcr pcr n s' s'' \<Longrightarrow> same_pcr pcr n s s''"
  by (simp add: same_pcr_def)

lemma sha1_rounds_tcg:
  assumes env: "env_keeps_tcg env"
  shows "sha1_rounds env n buf ctx s = Some (ok, n', buf', ctx', s') \<Longrightarrow> tcg s' = tcg s"
proof (induction "nat n" arbitrary: n buf ctx s rule: less_induct)
  case less
  show ?case
  proof (cases "TCG_BUFFER_SIZE < n")
    case True
    then have small: "nat (n - TCG_BUFFER_SIZE) < nat n" by (simp add: TCG_BUFFER_SIZE_def)
    show ?thesis using less.prems True less.hyps [OF small]
      by (subst (asm) sha1_rounds.simps) (auto split: if_splits bind_splits dest!: grub_read_tcg [OF env])
  next
    case False
    then show ?thesis using less.prems by (subst (asm) sha1_rounds.simps) simp
  qed
qed

lemma grub_close_same:
  "tcg_bios (int1a_of env) pcr \<Longrightarrow> grub_close env escape s = Some (Closed s') \<Longrightarrow> n \<noteq> 14 \<Longrightarrow> same_pcr pcr n s s'"
  unfolding same_pcr_def by (rule grub_close_pcr)

lemma if_closed_Some: "if_closed c f = Some (Closed y) \<longleftrightarrow> (\<exists>s. c = Closed s \<and> f s = Some (Closed y))"
  by (cases c) auto

lemma sha1_of_open_same:
  assumes env: "env_keeps_tcg env" and bios: "tcg_bios (int1a_of env) pcr" and n: "n \<noteq> 14"
  shows "sha1_of_open env escape junk old h s = Some (Closed (r, h', s')) \<Longrightarrow> same_pcr pcr n s s'"
  unfolding sha1_of_open_def Let_def
  by (auto simp: if_closed_Some same_pcr_def Option.bind_eq_Some_conv split: if_splits
      dest!: grub_read_tcg [OF env] sha1_rounds_tcg [OF env] grub_close_same [OF bios _ n])

lemma calculate_sha1_same:
  assumes env: "env_keeps_tcg env" and bios: "tcg_bios (int1a_of env) pcr" and n: "n \<noteq> 14"
  shows "calculate_sha1 env escape junk filename h s = Some (Closed (r, h', s')) \<Longrightarrow> same_pcr pcr n s s'"
  unfolding calculate_sha1_def Let_def
  by (auto simp: if_closed_Some same_pcr_def Option.bind_eq_Some_conv split: if_splits
      dest!: grub_open_tcg [OF env] sha1_of_open_same [OF env bios n] grub_close_same [OF bios _ n])

text \<open>The hash keeps its length, so that it can be extended.\<close>

lemma calculate_sha1_length:
  "calculate_sha1 env escape junk filename h s = Some (Closed (r, h', s')) \<Longrightarrow> length h' = length h"
  unfolding calculate_sha1_def sha1_of_open_def Let_def
  by (auto simp: if_closed_Some Option.bind_eq_Some_conv split: if_splits dest!: sha1_finish_length)

lemma chk_loop_same:
  assumes env: "env_keeps_tcg env" and bios: "tcg_bios (int1a_of env) pcr" and n: "n \<noteq> 14" "n \<noteq> 13"
  shows "chk_loop env escape junk data max_len cur errors hash s = Some (Closed (r, s')) \<Longrightarrow> length hash = 5 \<Longrightarrow> same_pcr pcr n s s'"
proof (induction "max_len - cur" arbitrary: cur errors hash s rule: less_induct)
  case less
  show ?case
  proof (cases "max_len \<le> cur")
    case True
    then show ?thesis using less.prems by (simp add: chk_loop.simps [of env escape junk data max_len cur] same_pcr_def)
  next
    case False
    note prem = less.prems(1) [unfolded chk_loop.simps [of env escape junk data max_len cur]]
    show ?thesis
    proof (cases "\<exists>code. chk_entry data cur = Some (Bad_Line code)")
      case True
      then show ?thesis using prem False by (auto simp: same_pcr_def)
    next
      case good: False
      obtain input name cur' where e: "chk_entry data cur = Some (Entry input name cur')"
        using prem False good by (cases "chk_entry data cur"; cases "the (chk_entry data cur)") auto
      have cur': "max_len - cur' < max_len - cur" using chk_entry_advances [OF e] False by simp
      obtain r0 hash' s1 where c: "calculate_sha1 env escape junk (takeWhile (\<lambda>c. c \<noteq> 0) name) hash s = Some (Closed (r0, hash', s1))"
        and k: "(if r0 \<noteq> 0 then Some (Closed (Inl (-1), s1))
              else Option.bind (grub_strcmp (hash_string hash' @ [0]) (input @ [0])) (\<lambda>cmp.
                if cmp \<noteq> 0 then chk_loop env escape junk data max_len cur' (errors + 1) hash' s1
                else chk_loop env escape junk data max_len cur' errors hash'
                       (if tpm_present env = 0 then s1\<lparr>tcg := snd (update_pcr (int1a_of env) PCR_CHECKFILE hash' (tcg s1))\<rparr> else s1)))
            = Some (Closed (r, s'))"
        using prem False e by (auto simp: Option.bind_eq_Some_conv if_closed_Some)
      have s1: "same_pcr pcr n s s1" and h': "length hash' = 5"
        using calculate_sha1_same [OF env bios n(1) c] calculate_sha1_length [OF c] less.prems(2) by auto
      have "pcr (snd (snd (update_pcr (int1a_of env) PCR_CHECKFILE hash' (tcg s1)))) n = pcr (snd (tcg s1)) n"
        using tcg_bios.update_pcr_law(2) [OF bios, of PCR_CHECKFILE hash' "tcg s1"] h' n by (simp add: PCR_CHECKFILE_def)
      then have s2: "same_pcr pcr n s (if tpm_present env = 0 then s1\<lparr>tcg := snd (update_pcr (int1a_of env) PCR_CHECKFILE hash' (tcg s1))\<rparr> else s1)"
        using s1 by (simp add: same_pcr_def)
      consider "r0 \<noteq> 0" "s' = s1" | errors' t where "same_pcr pcr n s t" "chk_loop env escape junk data max_len cur' errors' hash' t = Some (Closed (r, s'))"
        using k s1 s2 that by (auto simp: Option.bind_eq_Some_conv split: if_splits)
      then show ?thesis
      proof cases
        case 2
        then show ?thesis using less.hyps [OF cur'] h' same_pcr_trans by blast
      qed (use s1 in simp)
    qed
  qed
qed

lemma load_checkfile_same:
  assumes env: "env_keeps_tcg env" and bios: "tcg_bios (int1a_of env) pcr" and n: "n \<noteq> 14" "n \<noteq> 13" and junk: "length (hash_junk junk) = 5"
    and load: "load_checkfile env escape escape_end junk checkfile s = Some (Closed (r, s'))"
  shows "same_pcr pcr n s s'"
proof -
  define s0 where "s0 = (if perform_sha1 s then s\<lparr>old_perform_sha1_value := True, perform_sha1 := False\<rparr> else s)"
  have s0: "tcg s0 = tcg s" by (simp add: s0_def)
  note prem = load [unfolded load_checkfile_def Let_def, folded s0_def]
  obtain ok s1 where o: "grub_open env (fn_junk junk) checkfile s0 = Some (ok, s1)" using prem by (auto simp: Option.bind_eq_Some_conv)
  have s1: "tcg s1 = tcg s" using grub_open_tcg [OF env o] s0 by simp
  note prem1 = prem [unfolded o, simplified]
  consider (open_failed) "s' = s1" | (long) "grub_close env (escape 0) s1 = Some (Closed s')"
    | (read) x data s2 s3 r4 s4 where "grub_read env (data_junk junk) (filemax s1) s1 = Some (x, data, s2)"
        "grub_close env (escape 0) s2 = Some (Closed s3)"
        "chk_loop env escape junk data (nat (filemax s1)) 0 0 (hash_junk junk) s3 = Some (Closed (r4, s4))" "tcg s' = tcg s4"
    using prem1 by (auto simp: Option.bind_eq_Some_conv if_closed_Some split: if_splits sum.splits)
  then show ?thesis
  proof cases
    case open_failed
    then show ?thesis using s1 by (simp add: same_pcr_def)
  next
    case long
    then show ?thesis using grub_close_same [OF bios _ n(1)] s1 by (fastforce simp: same_pcr_def)
  next
    case read
    have "tcg s2 = tcg s" using grub_read_tcg [OF env read(1)] s1 by simp
    moreover have "same_pcr pcr n s2 s3" by (rule grub_close_same [OF bios read(2) n(1)])
    moreover have "same_pcr pcr n s3 s4" by (rule chk_loop_same [OF env bios n read(3) junk])
    ultimately show ?thesis using read(4) by (simp add: same_pcr_def)
  qed
qed

end
