(* ===== verification/BootFrame.thy ===== *)
theory BootFrame
  imports Boot Frame
begin

unbundle bit_operations_syntax

text \<open>
  What the loaders leave alone. The locale \<open>image_frame\<close> is the contract between \<open>load_image\<close> and the open file: a property of the file that reads,
  seeks and errors keep holds when the file is closed. Its instance for the TPM shows that the loaders change no register but 14.
\<close>

section \<open>What the loaders keep\<close>

text \<open>
  A property of the open file that reads, seeks and errors keep is kept by everything \<open>load_image\<close> does between opening and closing.
\<close>

locale image_frame =
  fixes env :: "('w, 't) shell_env" and keep :: "('w, 't) file_state \<Rightarrow> bool"
  assumes keep_read: "keep f \<Longrightarrow> grub_read (file_env_of env) buf len f = Some (r, out, f') \<Longrightarrow> keep f'"
    and keep_err: "keep f \<Longrightarrow> keep (set_ferr e f)"
    and keep_pos: "keep f \<Longrightarrow> keep (f\<lparr>filepos := p\<rparr>)"
    and keep_mem: "keep f \<Longrightarrow> keep (f\<lparr>kernel_mem := m\<rparr>)"
begin

lemma keep_serr [simp]: "keep (files s) \<Longrightarrow> keep (files (set_serr e s))"
  by (simp add: set_serr_def keep_err)

lemma keep_seek [simp]: "keep (files s) \<Longrightarrow> keep (files (seek_file a s))"
  by (simp add: seek_file_def grub_seek_def keep_pos)

lemma keep_store: "store a bs s = Some s' \<Longrightarrow> keep (files s) \<Longrightarrow> keep (files s')"
  by (auto simp: store_def split: if_splits)

lemma keep_check: "check_mem a n s = (ok, s') \<Longrightarrow> keep (files s) \<Longrightarrow> keep (files s')"
  by (auto simp: check_mem_def split: prod.splits)

lemma keep_copy: "copy_to a bs s = Some s' \<Longrightarrow> keep (files s) \<Longrightarrow> keep (files s')"
  by (auto simp: copy_to_def split: prod.splits if_splits dest: keep_check keep_store)

lemma keep_clear: "clear_mem a n s = Some s' \<Longrightarrow> keep (files s) \<Longrightarrow> keep (files s')"
  by (auto simp: clear_mem_def split: prod.splits if_splits dest: keep_check keep_store)

lemma keep_image_read: "image_read env buf len s = Some (r, out, s') \<Longrightarrow> keep (files s) \<Longrightarrow> keep (files s')"
  by (auto simp: image_read_def Let_def Option.bind_eq_Some_conv split: if_splits dest!: keep_read [rotated] intro: keep_mem)

lemma keep_local: "read_local env buf len s = Some (r, out, s') \<Longrightarrow> keep (files s) \<Longrightarrow> keep (files s')"
  by (auto simp: read_local_def Option.bind_eq_Some_conv dest: keep_image_read)

lemma keep_read_to: "read_to env a len s = Some (r, s') \<Longrightarrow> keep (files s) \<Longrightarrow> keep (files s')"
  by (auto simp: read_to_def Let_def Option.bind_eq_Some_conv split: if_splits prod.splits dest!: keep_image_read dest: keep_check keep_store)

lemmas keep_steps = keep_store keep_check keep_copy keep_clear keep_local keep_read_to

lemma files_simps [simp]:
  "files (set_cur a s) = files s" "files (advance n s) = files s" "files (set_syms n m a x s) = files s" "files (fill_mbi s) = files s"
  by (simp_all add: set_cur_def advance_def set_syms_def fill_mbi_def)

lemma keep_fail [simp]: "keep (files s) \<Longrightarrow> keep (files (fail_unless c s))"
  by (auto simp: fail_unless_def)

lemma keep_text: "load_text env img s = Some s' \<Longrightarrow> keep (files s) \<Longrightarrow> keep (files s')"
  by (auto simp: load_text_def Let_def Option.bind_eq_Some_conv split: if_splits dest!: keep_read_to keep_clear)

lemma keep_strings: "aout_strings env i s = Some (ok, s') \<Longrightarrow> keep (files s) \<Longrightarrow> keep (files s')"
  by (auto simp: aout_strings_def Let_def Option.bind_eq_Some_conv split: if_splits dest!: keep_read_to keep_local keep_store)

lemma keep_aout: "load_aout env img s = Some s' \<Longrightarrow> keep (files s) \<Longrightarrow> keep (files s')"
  by (auto simp: load_aout_def Let_def Option.bind_eq_Some_conv split: if_splits dest!: keep_text keep_strings keep_read_to keep_store)

lemma keep_load_segment: "load_segment env a n m s = Some (go, s') \<Longrightarrow> keep (files s) \<Longrightarrow> keep (files s')"
  by (auto simp: load_segment_def Let_def Option.bind_eq_Some_conv split: if_splits prod.splits dest!: keep_check keep_read_to keep_clear)

lemma keep_segment: "elf_segment env img i real s = Some (l, go, real', s') \<Longrightarrow> keep (files s) \<Longrightarrow> keep (files s')"
  by (auto simp: elf_segment_def Let_def Option.bind_eq_Some_conv split: if_splits dest!: keep_load_segment)

lemma keep_segments: "elf_segments env img is l real s = Some (l', real', s') \<Longrightarrow> keep (files s) \<Longrightarrow> keep (files s')"
  by (induction "is" arbitrary: l real s) (auto simp: Option.bind_eq_Some_conv split: if_splits dest: keep_segment)

lemma keep_section: "elf_section env table i s = Some (go, s') \<Longrightarrow> keep (files s) \<Longrightarrow> keep (files s')"
  by (auto simp: elf_section_def Let_def Option.bind_eq_Some_conv split: if_splits prod.splits dest!: keep_check keep_read_to keep_store)

lemma keep_sections: "elf_sections env table is s = Some (ok, s') \<Longrightarrow> keep (files s) \<Longrightarrow> keep (files s')"
  by (induction "is" arbitrary: s) (auto simp: Option.bind_eq_Some_conv split: if_splits dest: keep_section)

lemma keep_symbols: "elf_symbols env img s = Some s' \<Longrightarrow> keep (files s) \<Longrightarrow> keep (files s')"
  by (auto simp: elf_symbols_def Let_def Option.bind_eq_Some_conv split: if_splits dest!: keep_read_to keep_sections)

lemma keep_elf: "load_elf env img s = Some (real, s') \<Longrightarrow> keep (files s) \<Longrightarrow> keep (files s')"
  by (auto simp: load_elf_def Option.bind_eq_Some_conv split: if_splits dest!: keep_segments keep_symbols)

lemma keep_linux_cmdline: "linux_cmdline arg fl v tmp s = Some s' \<Longrightarrow> keep (files s) \<Longrightarrow> keep (files s')"
  by (auto simp: linux_cmdline_def Let_def Option.bind_eq_Some_conv dest!: keep_store)

lemma keep_linux_parts: "linux_parts env arg fl lh sects tlen s = Some s' \<Longrightarrow> keep (files s) \<Longrightarrow> keep (files s')"
  by (auto simp: linux_parts_def Let_def Option.bind_eq_Some_conv split: if_splits dest!: keep_linux_cmdline keep_read_to keep_copy keep_clear)

lemma keep_formats:
  assumes "keep (files s)"
  shows "keep (files (snd (elf_format g img s)))" "keep (files (snd (kludge_format img s)))" "keep (files (snd (aout_format img s)))"
    "find_header ie buf len s = Inr (img', s') \<Longrightarrow> keep (files s')"
proof -
  show "keep (files (snd (elf_format g img s)))" using assms by (auto simp: elf_format_def Let_def)
  show "keep (files (snd (kludge_format img s)))" using assms by (auto simp: kludge_format_def Let_def)
  show "keep (files (snd (aout_format img s)))" using assms by (auto simp: aout_format_def Let_def)
  show "find_header ie buf len s = Inr (img', s') \<Longrightarrow> keep (files s')"
    using assms by (auto simp: find_header_def match_vbe_def Let_def split: option.splits if_splits)
qed

text \<open>A result of \<open>load_image\<close> comes from closing a file with the property.\<close>

definition closed_from :: "bool \<Rightarrow> ('w, 't) shell \<Rightarrow> bool" where
  "closed_from escape s \<longleftrightarrow> (\<exists>f f'. keep f \<and> grub_close (file_env_of env) escape f = Some (Closed f') \<and> tcg (files s) = tcg f')"

lemma closed_fromI:
  "close_file env escape s = Some (Closed s1) \<Longrightarrow> keep (files s) \<Longrightarrow> tcg (files s') = tcg (files s1) \<Longrightarrow> closed_from escape s'"
  by (auto simp: close_file_def if_closed_Some Option.bind_eq_Some_conv closed_from_def)

lemma tcg_serr [simp]: "tcg (files (set_serr e s)) = tcg (files s)" "tcg (files (fail_unless c s)) = tcg (files s)"
  by (simp_all add: fail_unless_def set_serr_def set_ferr_def)

lemma closed_end: "end_image env ie g t s = Some (Closed (t', s')) \<Longrightarrow> keep (files s) \<Longrightarrow> closed_from (image_escape ie) s'"
  by (auto simp: end_image_def Option.bind_eq_Some_conv if_closed_Some split: if_splits elim!: closed_fromI)

lemma closed_sections:
  assumes run: "load_sections env ie g img s = Some (Closed (t, s'))" and k: "keep (files s)"
  shows "closed_from (image_escape ie) s'"
proof (cases "serr s = ERR_NONE")
  case False
  then show ?thesis using run k by (auto simp: load_sections_def Option.bind_eq_Some_conv if_closed_Some elim!: closed_fromI)
next
  case True
  obtain real s1 where s1: "(if exec_type img \<noteq> 0 then do { s1 \<leftarrow> load_aout env img (fill_mbi s); Some (0, s1) } else load_elf env img (fill_mbi s)) = Some (real, s1)"
    and fin: "end_image env ie g (if serr s1 = ERR_NONE then img_type img else KERNEL_TYPE_NONE)
       (if serr s1 = ERR_NONE \<and> real \<noteq> 0 then s1\<lparr>boot := (boot s1)\<lparr>entry_addr := real\<rparr>\<rparr> else s1) = Some (Closed (t, s'))"
    using run True unfolding load_sections_def by (auto simp only: Option.bind_eq_Some_conv if_True if_False not_True_eq_False simp_thms prod.case split: prod.splits)
  have "keep (files s1)" using s1 k keep_aout [of img "fill_mbi s"] keep_elf [of img "fill_mbi s"]
    by (cases "exec_type img = 0") (auto simp: Option.bind_eq_Some_conv)
  then have "keep (files (if serr s1 = ERR_NONE \<and> real \<noteq> 0 then s1\<lparr>boot := (boot s1)\<lparr>entry_addr := real\<rparr>\<rparr> else s1))" by simp
  then show ?thesis by (rule closed_end [OF fin])
qed

lemma closed_done: "linux_done env ie g big tlen s = Some (Closed (t, s')) \<Longrightarrow> keep (files s) \<Longrightarrow> if t = None then keep (files s') else closed_from (image_escape ie) s'"
  by (auto simp: linux_done_def Option.bind_eq_Some_conv if_closed_Some split: if_splits elim!: closed_fromI)

lemma closed_options:
  assumes run: "linux_options env ie arg g fl lh big sects tlen s = Some (Closed (t, s'))" and k: "keep (files s)"
  shows "if t = None then keep (files s') else closed_from (image_escape ie) s'"
proof -
  obtain v where v: "video_option arg = Some v" using run by (auto simp: linux_options_def Option.bind_eq_Some_conv)
  show ?thesis
  proof (cases v)
    case (Inl e)
    then show ?thesis using run k v by (auto simp: linux_options_def Option.bind_eq_Some_conv if_closed_Some elim!: closed_fromI)
  next
    case (Inr vid)
    then obtain s0 s1 lh' where "linux_parts env arg fl lh' sects tlen s0 = Some s1" "keep (files s0)" "linux_done env ie g big tlen s1 = Some (Closed (t, s'))"
      using run k v by (auto simp: linux_options_def Option.bind_eq_Some_conv)
    then show ?thesis using keep_linux_parts closed_done by blast
  qed
qed

lemma closed_linux:
  assumes run: "linux_image env ie arg g fl img s = Some (Closed (t, s'))" and k: "keep (files s)"
  shows "if t = None then keep (files s') else closed_from (image_escape ie) s'"
proof -
  obtain lh big real where h: "linux_header (mem_lower (boot s)) (img_buf img) = (lh, big, real)" by (metis surj_pair)
  show ?thesis using run k closed_options unfolding linux_image_def h Let_def prod.case by (fastforce split: if_splits)
qed

lemma closed_format:
  assumes run: "load_format env ie arg g fl img s = Some (Closed (t, s'))" and k: "keep (files s)"
  shows "closed_from (image_escape ie) s'"
proof -
  have sec: "closed_from (image_escape ie) s'"
    if "(case p of (img, s) \<Rightarrow> load_sections env ie g img s) = Some (Closed (t, s'))" "keep (files (snd p))" for p
    using that closed_sections by (cases p) auto
  show ?thesis
    using run sec [OF _ keep_formats(1) [OF k]] sec [OF _ keep_formats(2) [OF k]] sec [OF _ keep_formats(3) [OF k]] sec [of "(img, set_serr ERR_EXEC_FORMAT s)"] k
      closed_linux [of ie arg g fl img s] closed_sections
    unfolding load_format_def Let_def
    by (auto simp: Option.bind_eq_Some_conv if_closed_Some split: if_splits option.splits)
qed

text \<open>What \<open>load_image\<close> does after it has opened the file.\<close>

lemma closed_image:
  assumes run: "load_image env ie name g fl s = Some (Closed (t, s'))"
    and opened: "\<And>s1. open_file env name (s\<lparr>files := (files s)\<lparr>measure_kernel := True\<rparr>\<rparr>) = Some (True, s1) \<Longrightarrow> keep (files s1)"
  shows "closed_from (image_escape ie) s' \<or> open_file env name (s\<lparr>files := (files s)\<lparr>measure_kernel := True\<rparr>\<rparr>) = Some (False, s')"
proof -
  obtain ok s1 where s1: "open_file env name (s\<lparr>files := (files s)\<lparr>measure_kernel := True\<rparr>\<rparr>) = Some (ok, s1)"
    using run by (auto simp: load_image_def Option.bind_eq_Some_conv)
  show ?thesis
  proof (cases ok)
    case False
    then show ?thesis using run s1 by (auto simp: load_image_def Option.bind_eq_Some_conv)
  next
    case True
    obtain len buf s2 where s2: "read_local env (image_junk ie) (int MULTIBOOT_SEARCH) s1 = Some (len, buf, s2)"
      using run s1 True by (auto simp: load_image_def Option.bind_eq_Some_conv)
    have k: "keep (files s2)" using keep_local [OF s2] opened s1 True by simp
    show ?thesis
      using run s1 s2 k True closed_format keep_formats(4) [OF k] unfolding load_image_def
      by (auto simp: Option.bind_eq_Some_conv if_closed_Some split: if_splits sum.splits elim!: closed_fromI)
  qed
qed

end

lemma tcg_frame: "env_keeps_tcg (file_env_of env) \<Longrightarrow> image_frame env (\<lambda>f. tcg f = t)"
  by unfold_locales (auto simp: set_ferr_def dest: grub_read_tcg)

lemma store_files: "store a bs s = Some s' \<Longrightarrow> files s' = files s"
  by (auto simp: store_def split: if_splits)

lemma open_file_files: "open_file env name s = Some (ok, s') \<Longrightarrow> \<exists>f. grub_open (file_env_of env) (fn_junk (junk_of env)) name ((files s)\<lparr>kernel_mem := []\<rparr>) = Some (ok, f) \<and> files s' = f"
  by (auto simp: open_file_def Option.bind_eq_Some_conv dest!: store_files)

section \<open>Register 12\<close>

text \<open>The loaders change none of the registers but 14.\<close>

lemma closed_from_pcr:
  assumes bios: "tcg_bios (int1a_of (file_env_of env)) pcr" and n: "n \<noteq> 14" and frame: "image_frame env (\<lambda>f. tcg f = t)"
    and c: "image_frame.closed_from env (\<lambda>f. tcg f = t) escape s'"
  shows "pcr (snd (tcg (files s'))) n = pcr (snd t) n"
  using c grub_close_pcr [OF bios _ n] unfolding image_frame.closed_from_def [OF frame] by fastforce

lemma open_file_tcg: "env_keeps_tcg (file_env_of env) \<Longrightarrow> open_file env name s = Some (ok, s') \<Longrightarrow> tcg (files s') = tcg (files s)"
  using open_file_files grub_open_tcg by fastforce

lemma close_file_pcr:
  assumes "tcg_bios (int1a_of (file_env_of env)) pcr" and "n \<noteq> 14" and "close_file env escape s = Some (Closed s')"
  shows "pcr (snd (tcg (files s'))) n = pcr (snd (tcg (files s))) n"
  using assms grub_close_pcr by (fastforce simp: close_file_def if_closed_Some Option.bind_eq_Some_conv)

lemma read_to_tcg: "env_keeps_tcg (file_env_of env) \<Longrightarrow> read_to env a len s = Some (r, s') \<Longrightarrow> tcg (files s') = tcg (files s)"
  using image_frame.keep_read_to [OF tcg_frame, of env a len s r s' "tcg (files s)"] by simp

lemma load_image_pcr:
  assumes env: "env_keeps_tcg (file_env_of env)" and bios: "tcg_bios (int1a_of (file_env_of env)) pcr" and n: "n \<noteq> 14"
    and run: "load_image env ie name g fl s = Some (Closed (t, s'))"
  shows "pcr (snd (tcg (files s'))) n = pcr (snd (tcg (files s))) n"
proof -
  note frame = tcg_frame [OF env, of "tcg (files s)"]
  have "image_frame.closed_from env (\<lambda>f. tcg f = tcg (files s)) (image_escape ie) s' \<or> tcg (files s') = tcg (files s)"
    using image_frame.closed_image [OF frame run] open_file_tcg [OF env] by fastforce
  then show ?thesis using closed_from_pcr [OF bios n frame] by auto
qed

lemma load_module_pcr:
  assumes env: "env_keeps_tcg (file_env_of env)" and bios: "tcg_bios (int1a_of (file_env_of env)) pcr" and n: "n \<noteq> 14"
    and run: "load_module env ie name s = Some (Closed (ok, s'))"
  shows "pcr (snd (tcg (files s'))) n = pcr (snd (tcg (files s))) n"
  using run unfolding load_module_def Let_def
  by (auto simp: Option.bind_eq_Some_conv if_closed_Some set_cur_def set_serr_def set_ferr_def split: if_splits
      dest!: open_file_tcg [OF env] read_to_tcg [OF env] close_file_pcr [OF bios n])

lemma move_initrd_tcg:
  fixes s :: "('w, 't) shell"
  assumes "env_keeps_tcg (file_env_of (env :: ('w, 't) shell_env))" and "move_initrd lh len s = Some s'"
  shows "tcg (files s') = tcg (files s)"
proof -
  obtain a bs a' bs' s1 where "copy_to a bs s = Some s1" "store a' bs' s1 = Some s'"
    using assms(2) by (auto simp: move_initrd_def Let_def Option.bind_eq_Some_conv simp del: if_split)
  then show ?thesis using image_frame.keep_copy [OF tcg_frame [OF assms(1)], of a bs s s1 "tcg (files s)"] store_files by fastforce
qed

lemma load_initrd_pcr:
  assumes env: "env_keeps_tcg (file_env_of env)" and bios: "tcg_bios (int1a_of (file_env_of env)) pcr" and n: "n \<noteq> 14"
    and run: "load_initrd env ie name s = Some (Closed (ok, s'))"
  shows "pcr (snd (tcg (files s'))) n = pcr (snd (tcg (files s))) n"
  using run unfolding load_initrd_def Let_def
  by (auto simp: Option.bind_eq_Some_conv if_closed_Some set_unzip_def split: if_splits
      dest!: open_file_tcg [OF env] read_to_tcg [OF env] close_file_pcr [OF bios n] move_initrd_tcg [OF env])

end
