(* ===== verification/Booted.thy ===== *)
theory Booted
  imports BootFrame IsoLookup
begin

unbundle bit_operations_syntax

text \<open>
  What the loaders measure and where they put it: register 14 is extended by the hash of the whole kernel whatever its format, a Linux kernel lies in
  memory as it was measured, and so does a module of a Multiboot kernel.
\<close>

section \<open>Opening with measurement\<close>

text \<open>The boot loader before it opens a file that is measured; \<open>krn\<close> tells whether the file is a kernel.\<close>

definition ready :: "('w dev_state \<Rightarrow> bool) \<Rightarrow> bool \<Rightarrow> ('w, 't) file_state \<Rightarrow> bool" where
  "ready mounted krn f \<longleftrightarrow> mounted (dev f) \<and> perform_sha1 f \<and> measure_kernel f = krn \<and> length (buffer (my_sha1 f)) = 64"

context file_server
begin

lemma open_attempt_ready:
  assumes "ready mounted krn f" and "files p = Some content" and "length content < 2 ^ 31"
  shows "\<exists>f1. open_attempt (gunzip_env env) (p @ [0]) f = map_option (\<lambda>(ok, f2). (Some ok, f2)) (open_measured (gunzip_env env) f1)
    \<and> plain_file content (opened content) (f1\<lparr>measure_kernel := False\<rparr>) \<and> measure_kernel f1 = krn \<and> perform_sha1 f1
    \<and> filepos f1 = 0 \<and> sha1_byte_count f1 = 0 \<and> sha1_has_to_measure f1 = 0 \<and> sha1_repr (my_sha1 f1) [] \<and> tcg f1 = tcg f \<and> kernel_mem f1 = kernel_mem f"
proof -
  have i: "mounted (dev f)" "perform_sha1 f" "measure_kernel f = krn" "length (buffer (my_sha1 f)) = 64" using assms(1) by (auto simp: ready_def)
  note cur = current [OF i(1)]
  have e: "set_err ERR_NONE (dev f) = dev f" using cur by (simp add: set_err_def)
  obtain ctx where ctx: "sha1_init (Some (my_sha1 f)) = (0, Some ctx)" "sha1_repr ctx []" using sha1_init_repr [of "my_sha1 f"] i(4) by auto
  have p: "p \<noteq> []" "hd p = 0x2f" using absolute [OF assms(2)] by auto
  then have c0: "rd (p @ [0]) 0 = Some 0x2f" by (cases p) (auto simp: rd_def)
  define f2 where "f2 = f\<lparr>my_sha1 := ctx, sha1_byte_count := 0, sha1_has_to_measure := 0,
     kernel_filesize := 0, kernel_compressed_filesize := 0, compressed_file := False, filepos := 0,
     block_file := False, fsmax := uint MAXINT\<rparr>"
  obtain d' where d': "dir_func (fsys_table env ! fsys_type (dev f)) False (p @ [0]) (filemax f) (dev f) = Some (True, int (length content), d')"
    "opened content d'"
    using finds [OF i(1) assms(2)] by blast
  define f1 where "f1 = f2\<lparr>dev := d', filemax := int (length content), filepos := 0\<rparr>"
  have "open_attempt (gunzip_env env) (p @ [0]) f = map_option (\<lambda>(ok, f2). (Some ok, f2)) (open_measured (gunzip_env env) f1)"
    using ctx(1) e cur c0 d'(1) i(2) setup_part_mounted [OF i(1) assms(2)]
    by (simp add: open_attempt_def set_ferr_def Let_def) (simp add: f1_def f2_def)
  moreover have "plain_file content (opened content) (f1\<lparr>measure_kernel := False\<rparr>)"
    using d'(2) assms(3) by (auto simp: f1_def f2_def plain_file_def MAXINT_def)
  ultimately show ?thesis using i ctx(2) by (intro exI [of _ f1]) (simp add: f1_def f2_def)
qed

lemma grub_open_attempt:
  assumes "mounted (dev f)" and "files p = Some content" and "open_attempt (gunzip_env env) (p @ [0]) f = Some (Some ok, f')"
  shows "grub_open (gunzip_env env) junk p f = Some (ok, f')"
proof -
  have "p \<noteq> []" "length p < 1500" using absolute [OF assms(2)] by auto
  moreover have "ferr f = ERR_NONE" using assms(1) current by simp
  ultimately show ?thesis using assms(3) by (simp add: grub_open_def Let_def)
qed

text \<open>A kernel is read into memory and hashed when it is opened.\<close>

lemma open_kernel:
  assumes "ready mounted True f" and "files p = Some content" and "\<not> gzipped content" and "length content < 2 ^ 31"
  shows "\<exists>f'. grub_open (gunzip_env env) junk p f = Some (True, f') \<and> kernel_staged content (opened content) f' \<and> filepos f' = 0 \<and> tcg f' = tcg f
    \<and> kernel_mem f' = overlay (kernel_mem f) 0 content \<and> kernel_real_addr f' = LINUX_BZIMAGE_ADDR + 2 * of_nat (length content)"
proof -
  obtain f1 where f1: "open_attempt (gunzip_env env) (p @ [0]) f = map_option (\<lambda>(ok, f2). (Some ok, f2)) (open_measured (gunzip_env env) f1)"
    "fresh_kernel content (opened content) f1" "tcg f1 = tcg f" "kernel_mem f1 = kernel_mem f"
    using open_attempt_ready [OF assms(1,2,4)] by (auto simp: fresh_kernel_def)
  obtain f' where f': "open_measured (gunzip_env env) f1 = Some (True, f')" "kernel_staged content (opened content) f'" "filepos f' = 0" "tcg f' = tcg f1"
    "kernel_mem f' = overlay (kernel_mem f1) 0 content" "kernel_real_addr f' = LINUX_BZIMAGE_ADDR + 2 * of_nat (length content)"
    using open_measured_kernel [OF reader [OF assms(2)] f1(2) assms(3)] by blast
  have "mounted (dev f)" using assms(1) by (simp add: ready_def)
  then have "grub_open (gunzip_env env) junk p f = Some (True, f')"
    using grub_open_attempt [OF _ assms(2)] f1(1) f'(1) by simp
  then show ?thesis using f' f1 by simp
qed

text \<open>Another file is opened with nothing hashed yet.\<close>

lemma open_unhashed:
  assumes "ready mounted False f" and "files p = Some content" and "\<not> gzipped content" and "length content < 2 ^ 31"
  shows "\<exists>f'. grub_open (gunzip_env env) junk p f = Some (True, f') \<and> unhashed content (opened content) f' \<and> filepos f' = 0 \<and> tcg f' = tcg f
    \<and> kernel_mem f' = kernel_mem f \<and> \<not> measure_kernel f'"
proof -
  obtain f1 where f1: "open_attempt (gunzip_env env) (p @ [0]) f = map_option (\<lambda>(ok, f2). (Some ok, f2)) (open_measured (gunzip_env env) f1)"
    "plain_file content (opened content) (f1\<lparr>measure_kernel := False\<rparr>)" "\<not> measure_kernel f1" "perform_sha1 f1" "filepos f1 = 0"
    "sha1_byte_count f1 = 0" "sha1_has_to_measure f1 = 0" "sha1_repr (my_sha1 f1) []" "tcg f1 = tcg f" "kernel_mem f1 = kernel_mem f"
    using open_attempt_ready [OF assms(1,2,4)] by auto
  let ?f = "f1\<lparr>perform_sha1 := False, measure_kernel := False\<rparr>"
  have pf: "plain_file content (opened content) ?f" using f1(2) by (simp add: plain_file_def)
  obtain d h where t: "opened content d" "h \<in> {0, filemax f1}" "test_header env ?f = Some (True, ?f\<lparr>filepos := 0, dev := d, sha1_has_to_measure := h\<rparr>)"
    using fs_reader.test_header_plain [OF reader [OF assms(2)] pf _ _ assms(3)] f1(5,7) by auto
  define f' where "f' = f1\<lparr>filepos := 0, dev := d, sha1_has_to_measure := h\<rparr>"
  have "open_measured (gunzip_env env) f1 = Some (True, f')"
    using t(3) f1(3,4) by (simp add: open_measured_def Let_def f'_def)
  moreover have "mounted (dev f)" using assms(1) by (simp add: ready_def)
  ultimately have "grub_open (gunzip_env env) junk p f = Some (True, f')"
    using grub_open_attempt [OF _ assms(2)] f1(1) by simp
  moreover have "unhashed content (opened content) f'" using f1 t(1,2) by (auto simp: unhashed_def plain_file_def f'_def)
  ultimately show ?thesis using f1 by (auto simp: f'_def)
qed

end

section \<open>What the loaders measure\<close>

lemma sane_staged: "kernel_staged content ok f \<Longrightarrow> kernel_staged content ok (sane_filepos f)" "tcg (sane_filepos f) = tcg f"
  by (auto simp: kernel_staged_def sane_filepos_def)

lemma staged_any_read:
  assumes "kernel_staged content ok f" and "grub_read env buf len f = Some (r, out, f')"
  shows "kernel_staged content ok f' \<and> tcg f' = tcg f \<and> r = len"
  using assms sane_staged(2) [of f]
  by (auto simp: grub_read_def grub_read_body_def Let_def kernel_staged_def sane_filepos_def split: if_splits)

interpretation staged_frame: image_frame env "\<lambda>f. kernel_staged content (\<lambda>_. True) f \<and> tcg f = t" for env content t
proof unfold_locales
  fix f buf len r out f'
  assume "kernel_staged content (\<lambda>_. True) f \<and> tcg f = t" "grub_read (file_env_of env) buf len f = Some (r, out, f')"
  then show "kernel_staged content (\<lambda>_. True) f' \<and> tcg f' = t" using staged_any_read by metis
qed (auto simp: kernel_staged_def set_ferr_def)

text \<open>
  C6. A kernel that is not compressed is measured once and as a whole. Whatever the format of its image and whatever \<open>load_image\<close> makes of it, be it that it loads the kernel or
  that it fails, if the loader returns, the one change of the registers is that PCR 14 is extended by the SHA-1 hash of the file. (The copy that \<open>grub_open\<close> makes of the kernel has
  to fit into the memory. A kernel that is compressed by gzip is not covered: some are not measured.)
\<close>

theorem load_image_measures:
  assumes server: "file_server env files_of mounted opened" and bios: "tcg_bios (int1a_of env) pcr" and tpm: "tpm_present env = 0"
    and env: "file_env_of senv = gunzip_env env"
    and s: "ready mounted k (files s)" and content: "files_of name = Some content" "\<not> gzipped content" "length content < 2 ^ 31"
    and run: "load_image senv ie name suggested load_flags s = Some (Closed (type, s'))"
  shows "pcr (snd (tcg (files s'))) = (pcr (snd (tcg (files s))))(14 := tpm_extend (pcr (snd (tcg (files s))) 14) (digest_bytes (fips_sha1 content)))"
proof -
  let ?s = "s\<lparr>files := (files s)\<lparr>measure_kernel := True\<rparr>\<rparr>" and ?t = "tcg (files s)"
  have "ready mounted True ((files s)\<lparr>measure_kernel := True, kernel_mem := []\<rparr>)" using s by (simp add: ready_def)
  from file_server.open_kernel [OF server this content]
  obtain f' where f': "grub_open (gunzip_env env) (fn_junk (junk_of senv)) name ((files s)\<lparr>measure_kernel := True, kernel_mem := []\<rparr>) = Some (True, f')"
    "kernel_staged content (opened content) f'" "tcg f' = ?t" by auto
  have st: "kernel_staged content (\<lambda>_. True) f'" using f'(2) by (simp add: kernel_staged_def)
  have open_files: "ok \<and> files s1 = f'" if "open_file senv name ?s = Some (ok, s1)" for ok s1
    using open_file_files [OF that] f'(1) env by simp
  then have "image_frame.closed_from senv (\<lambda>f. kernel_staged content (\<lambda>_. True) f \<and> tcg f = ?t) (image_escape ie) s'"
    using staged_frame.closed_image [OF run, of content ?t] st f'(3) by blast
  then obtain f f'' where f: "kernel_staged content (\<lambda>_. True) f" "tcg f = ?t" "grub_close (gunzip_env env) (image_escape ie) f = Some (Closed f'')"
    "tcg (files s') = tcg f''"
    unfolding staged_frame.closed_from_def using env by auto
  show ?thesis using staged_close [OF f(1), of "gunzip_env env" pcr "image_escape ie"] bios tpm f(2-4) by auto
qed

section \<open>A Linux kernel in memory\<close>

lemma peek_poke_apart: "a + length bs \<le> b \<or> b + n \<le> a \<Longrightarrow> peek (poke m a bs) b n = peek m b n"
  by (induction bs arbitrary: m a) (auto simp: peek_def)

lemma fetch_store: "store a bs s = Some s' \<Longrightarrow> fetch a (length bs) s' = bs"
  by (auto simp: store_def fetch_def peek_poke split: if_splits)

lemma fetch_store_apart:
  "store a bs s = Some s' \<Longrightarrow> unat a + length bs \<le> unat b \<or> unat b + n \<le> unat a \<Longrightarrow> fetch b n s' = fetch b n s"
  by (auto simp: store_def fetch_def peek_poke_apart split: if_splits)

lemma store_some: "unat a + length bs \<le> 2 ^ 32 \<Longrightarrow> store a bs s = Some (s\<lparr>boot := (boot s)\<lparr>ram := poke (ram (boot s)) (unat a) bs\<rparr>\<rparr>)"
  by (simp add: store_def)

lemma fetch_take: "m \<le> n \<Longrightarrow> fetch a m s = take m (fetch a n s)"
  by (simp add: fetch_def peek_def take_map)

text \<open>Free memory above 1 MB.\<close>

definition mem_free :: "('w, 't) shell \<Rightarrow> u32 \<Rightarrow> nat \<Rightarrow> bool" where
  "mem_free s a n \<longleftrightarrow> 0x100000 \<le> unat a \<and> unat a + n \<le> 0x100000 + unat (mem_upper s) * 1024 \<and> unat (mem_upper s) * 1024 < 2 ^ 31 - 0x100000"

lemma mem_free_bound: "mem_free s a n \<Longrightarrow> unat a + n < 2 ^ 31"
  by (auto simp: mem_free_def)

lemma memcheck_free:
  assumes "mem_free s a n"
  shows "memcheck (mem_lower (boot s)) (mem_upper s) ERR_NONE a (of_nat n) = (True, ERR_NONE)"
proof -
  have a: "unat a + n < 2 ^ 31" "0x100000 \<le> unat a" using assms(1) mem_free_bound by (auto simp: mem_free_def)
  have sa: "sint a = int (unat a)" using a sint_small [of "unat a"] by simp
  then have low: "\<not> sint a < 0x1000" "\<not> sint a < 0x100000" using a(2) by linarith+
  have up: "unat (mem_upper s * 1024) = unat (mem_upper s) * 1024"
    using assms(1) by (simp add: mem_free_def unat_word_ariths)
  have "unat (a - 0x100000) = unat a - 0x100000" using a(2) by (simp add: unat_sub word_le_nat_alt)
  moreover have "unat (of_nat n :: u32) = n" using a(1) by (simp add: unat_of_nat)
  ultimately have "unat (a - 0x100000 + of_nat n) = unat a - 0x100000 + n" using a by (simp add: unat_word_ariths)
  then have "\<not> mem_upper s * 1024 < a - 0x100000 + of_nat n" using assms(1) up a by (auto simp: mem_free_def word_less_nat_alt)
  then show ?thesis using low by (simp add: memcheck_def)
qed



text \<open>A kernel that is open, with its copy in memory.\<close>

definition kernel_in_memory :: "u8 list \<Rightarrow> ('w dev_state \<Rightarrow> bool) \<Rightarrow> ('w, 't) shell \<Rightarrow> bool" where
  "kernel_in_memory content ok s \<longleftrightarrow> kernel_staged content ok (files s) \<and> serr s = ERR_NONE
     \<and> unat (kernel_real_addr (files s)) + length content \<le> 2 ^ 32 \<and> fetch (kernel_real_addr (files s)) (length content) s = content"

lemma kernel_read:
  assumes k: "kernel_in_memory content ok s" and pos: "0 \<le> filepos (files s)" "0 \<le> len" "filepos (files s) + len \<le> int (length content)"
  shows "\<exists>m. image_read env buf len s = Some (len, overlay buf 0 (slice content (filepos (files s)) len),
    s\<lparr>files := (files s)\<lparr>kernel_mem := m, filepos := filepos (files s) + len\<rparr>\<rparr>)"
proof -
  let ?f = "files s" and ?n = "nat (filepos (files s) + len)"
  have st: "kernel_staged content ok ?f" and c: "fetch (kernel_real_addr ?f) (length content) s = content"
    and kra: "unat (kernel_real_addr ?f) + length content \<le> 2 ^ 32" using k by (auto simp: kernel_in_memory_def)
  have sane: "sane_filepos ?f = ?f" using st pos by (simp add: sane_filepos_def kernel_staged_def)
  have n: "?n \<le> length content" "nat (filepos ?f) + nat len = ?n" using pos by auto
  then have m: "fetch (kernel_real_addr ?f) ?n s = take ?n content" using fetch_take [of ?n "length content" "kernel_real_addr ?f" s] unfolding c by simp
  let ?g = "?f\<lparr>kernel_mem := take ?n content\<rparr>"
  have "kernel_staged content ok ?g" using st by (simp add: kernel_staged_def)
  from staged_read [OF this, of len "file_env_of env" buf]
  have "grub_read (file_env_of env) buf len ?g = Some (len, overlay buf 0 (take (nat len) (drop (nat (filepos ?f)) (take ?n content))), ?g\<lparr>filepos := filepos ?f + len\<rparr>)"
    using pos st n by (simp add: kernel_staged_def)
  moreover have "take (nat len) (drop (nat (filepos ?f)) (take ?n content)) = slice content (filepos ?f) len"
    using n by (simp add: slice_def drop_take)
  ultimately show ?thesis
    using st kra n m by (auto simp: image_read_def Let_def sane kernel_staged_def)
qed




definition no_option :: "string \<Rightarrow> u8 list \<Rightarrow> bool" where
  "no_option opt arg \<longleftrightarrow> grub_strstr (arg @ [0]) (ascii opt @ [0]) = Some None"

lemma poke_boot_simps [simp]:
  "fetch b n (s\<lparr>files := f\<rparr>) = fetch b n s" "fetch b n (s\<lparr>boot := (boot s)\<lparr>cur_addr := a\<rparr>\<rparr>) = fetch b n s"
  by (simp_all add: fetch_def)

lemma length_le_parts [simp]: "length (le32_parts n) = 4" "length (le16_parts n) = 2"
  by (simp_all add: le32_parts_def le16_parts_def)







text \<open>What \<open>load_image\<close> does with a file of at least 8 KB: the file is copied and hashed, and the format is that of its first 8 KB.\<close>

lemma load_image_reads:
  assumes server: "file_server env files_of mounted opened" and env: "file_env_of senv = gunzip_env env" and junk: "length (image_junk ie) = 8192"
    and s: "ready mounted k (files s)" and content: "files_of name = Some content" "\<not> gzipped content"
    and n: "8192 \<le> length content" "length content < 2 ^ 28" and arg: "c_string (mb_buf s) (mb_cmdline s) = Some arg"
  shows "\<exists>s2. load_image senv ie name suggested load_flags s =
      (case find_header ie (take 8192 content) 8192 s2 of
         Inl _ \<Rightarrow> do { c \<leftarrow> close_file senv (image_escape ie) s2; if_closed c (\<lambda>s3. Some (Closed (KERNEL_TYPE_NONE, set_serr ERR_BOOT_FEATURES s3))) }
       | Inr (img, s3) \<Rightarrow> load_format senv ie arg suggested load_flags img s3)
    \<and> kernel_in_memory content (opened content) s2 \<and> kernel_real_addr (files s2) = LINUX_BZIMAGE_ADDR + 2 * of_nat (length content)
    \<and> tcg (files s2) = tcg (files s) \<and> mem_lower (boot s2) = mem_lower (boot s) \<and> mem_upper s2 = mem_upper s"
proof -
  let ?s = "s\<lparr>files := (files s)\<lparr>measure_kernel := True\<rparr>\<rparr>" and ?n = "length content" and ?buf = "take 8192 content"
  have n31: "?n < 2 ^ 31" using n by simp
  have "ready mounted True ((files s)\<lparr>measure_kernel := True, kernel_mem := []\<rparr>)" using s by (simp add: ready_def)
  from file_server.open_kernel [OF server this content n31, of "fn_junk (junk_of senv)"]
  obtain f where f: "grub_open (gunzip_env env) (fn_junk (junk_of senv)) name ((files s)\<lparr>measure_kernel := True, kernel_mem := []\<rparr>) = Some (True, f)"
    "kernel_staged content (opened content) f" "filepos f = 0" "tcg f = tcg (files s)" "kernel_mem f = content"
    and kra: "kernel_real_addr f = LINUX_BZIMAGE_ADDR + 2 * of_nat ?n"
    by (auto simp: overlay_def)
  have ukra: "unat (kernel_real_addr f) = 0x100000 + 2 * ?n"
    using n by (simp add: kra LINUX_BZIMAGE_ADDR_def unat_word_ariths unat_of_nat)
  define s1 where "s1 = s\<lparr>files := f, boot := (boot s)\<lparr>ram := poke (ram (boot s)) (unat (kernel_real_addr f)) content\<rparr>\<rparr>"
  have open1: "open_file senv name ?s = Some (True, s1)"
    using f(1,5) env ukra n by (simp add: open_file_def store_some s1_def)
  have "opened content (dev f)" using f(2) by (simp add: kernel_staged_def)
  then have err: "ferr f = ERR_NONE" using fs_reader.no_error [OF file_server.reader [OF server content(1)]] by blast
  have k1: "kernel_in_memory content (opened content) s1"
    using f(2) err ukra n peek_poke [of "ram (boot s)" "unat (kernel_real_addr f)" content]
    by (simp add: kernel_in_memory_def s1_def fetch_def)
  obtain m where m: "image_read senv (image_junk ie) 8192 s1 = Some (8192, overlay (image_junk ie) 0 (slice content 0 8192), s1\<lparr>files := f\<lparr>kernel_mem := m, filepos := 8192\<rparr>\<rparr>)"
    using kernel_read [OF k1, of 8192 senv "image_junk ie"] f(3) n by (auto simp: s1_def)
  define s2 where "s2 = s1\<lparr>files := f\<lparr>kernel_mem := m, filepos := 8192\<rparr>\<rparr>"
  have "overlay (image_junk ie) 0 (slice content 0 8192) = ?buf" using junk n by (simp add: overlay_def slice_def)
  then have local: "read_local senv (image_junk ie) (int MULTIBOOT_SEARCH) s1 = Some (8192, ?buf, s2)"
    using m k1 by (simp add: read_local_def MULTIBOOT_SEARCH_def s2_def kernel_in_memory_def)
  have k2: "kernel_in_memory content (opened content) s2"
    using k1 unfolding kernel_in_memory_def s2_def kernel_staged_def by (simp add: s1_def fetch_def)
  have "load_image senv ie name suggested load_flags s =
      (case find_header ie ?buf 8192 s2 of
         Inl _ \<Rightarrow> do { c \<leftarrow> close_file senv (image_escape ie) s2; if_closed c (\<lambda>s3. Some (Closed (KERNEL_TYPE_NONE, set_serr ERR_BOOT_FEATURES s3))) }
       | Inr (img, s3) \<Rightarrow> load_format senv ie arg suggested load_flags img s3)"
    using arg open1 local by (simp add: load_image_def)
  then show ?thesis using k2 f(4) kra by (intro exI [of _ s2]) (simp add: s2_def s1_def)
qed


section \<open>A module in memory\<close>

lemma module_read:
  assumes r: "fs_reader (file_env_of env) content ok" and f: "unhashed content ok (files s)" "filepos (files s) = 0" "\<not> measure_kernel (files s)"
    and free: "mem_free s a (length content)"
  shows "\<exists>f'. read_to env a (-1) s = Some (int (length content), s\<lparr>files := f', boot := (boot s)\<lparr>ram := poke (ram (boot s)) (unat a) content\<rparr>\<rparr>)
    \<and> measured content ok f' \<and> filepos f' = int (length content) \<and> tcg f' = tcg (files s)"
proof -
  have p: "plain_file content ok (files s)" using f(1) by (simp add: unhashed_def)
  then have fm: "filemax (files s) = int (length content)" by (simp add: plain_file_def)
  have l: "read_len (-1) (files s) = int (length content)" using f(2) fm by (simp add: read_len_def)
  have sl: "slice content 0 (int (length content)) = content" by (simp add: slice_def)
  let ?buf = "fetch a (length content) s"
  have out: "overlay ?buf 0 content = content" by (simp add: overlay_def fetch_def peek_def)
  obtain f' where f': "grub_read (file_env_of env) ?buf (-1) (files s) = Some (int (length content), content, f')" "measured content ok f'"
    "filepos f' = int (length content)" "tcg f' = tcg (files s)"
    using fs_reader.first_read [OF r f(1), of ?buf "-1"] f(2) by (auto simp: l sl out)
  have sane: "sane_filepos (files s) = files s" using f(2) fm by (simp add: sane_filepos_def)
  have "image_read env ?buf (-1) s = Some (int (length content), content, s\<lparr>files := f'\<rparr>)"
    using f'(1) f(3) by (simp add: image_read_def Let_def)
  then have "read_to env a (-1) s = Some (int (length content), s\<lparr>files := f', boot := (boot s)\<lparr>ram := poke (ram (boot s)) (unat a) content\<rparr>\<rparr>)"
    using f(2,3) fm memcheck_free [OF free] mem_free_bound [OF free] by (simp add: read_to_def Let_def sane store_some)
  then show ?thesis using f'(2-4) by blast
qed

lemma page_align_page: "page_align a AND 0xFFF = 0"
  unfolding page_align_def and.assoc by simp

lemma put_same: "c_string buf p = Some t \<Longrightarrow> put_bytes buf p t = Some buf"
proof -
  assume "c_string buf p = Some t"
  then have t: "t = string_at buf p" "p + length t < length buf" by (auto simp: c_string_def split: if_splits)
  have "t = take (length t) (drop p buf)" unfolding t(1) string_at_def by (metis takeWhile_eq_take)
  then have "overlay buf p t = buf" using t(2) unfolding overlay_def by (metis append.assoc append_take_drop_id drop_drop add.commute)
  then show ?thesis using t(2) by (simp add: put_bytes_def)
qed

text \<open>
  C8. A Multiboot module. A module that is neither empty nor compressed by gzip and has no password dialog is loaded to the next page behind what is loaded already, if this page
  is at 1 MB or above, the module ends below the end of the memory, and the memory ends below 2 GB; its entry in the list has this place, its end and the place of its command line; and PCR 14 is extended by the hash of the file.
\<close>

theorem load_module_as_measured:
  assumes server: "file_server env files_of mounted opened" and bios: "tcg_bios (int1a_of env) pcr" and tpm: "tpm_present env = 0"
    and env: "file_env_of senv = gunzip_env env"
    and s: "ready mounted False (files s)" and content: "files_of name = Some content" "\<not> gzipped content" "length content < 2 ^ 31" "content \<noteq> []"
    and arg: "c_string (mb_buf s) (mb_cmdline s) = Some arg" "no_option ''--with-password-dialog'' arg"
    and slot: "unat (mods_count (boot s)) < length (mll (boot s))"
  defines "a \<equiv> page_align (cur s)" and "n \<equiv> length content"
  assumes fits: "mem_free s a n" "unat a + n < 1024 * (1024 + unat (mem_upper s))"
  shows "\<exists>s'. load_module senv ie name s = Some (Closed (True, s')) \<and> a AND 0xFFF = 0 \<and> fetch a n s' = content \<and> cur s' = a + of_nat n
    \<and> mods_count (boot s') = mods_count (boot s) + 1
    \<and> mll (boot s') = (mll (boot s))[unat (mods_count (boot s)) := (MB_CMDLINE_BUF + of_nat (mb_cmdline s), a, a + of_nat n)]
    \<and> mbi_flags s' = mbi_flags s OR MB_INFO_MODS
    \<and> pcr (snd (tcg (files s'))) = (pcr (snd (tcg (files s))))(14 := tpm_extend (pcr (snd (tcg (files s))) 14) (digest_bytes (fips_sha1 content)))"
proof -
  have cm: "module_cmdline ie (serr s) arg = Some arg" using arg(2) by (simp add: module_cmdline_def no_option_def)
  have buf: "put_bytes (mb_buf s) (mb_cmdline s) arg = Some (mb_buf s)" by (rule put_same [OF arg(1)])
  define s0 where "s0 = set_cur a s"
  have "ready mounted False ((files s)\<lparr>kernel_mem := []\<rparr>)" using s by (simp add: ready_def)
  from file_server.open_unhashed [OF server this content(1-3), of "fn_junk (junk_of senv)"]
  obtain f where f: "grub_open (gunzip_env env) (fn_junk (junk_of senv)) name ((files s)\<lparr>kernel_mem := []\<rparr>) = Some (True, f)"
    "unhashed content (opened content) f" "filepos f = 0" "tcg f = tcg (files s)" "kernel_mem f = []" "\<not> measure_kernel f" by (auto simp: unhashed_def)
  define s1 where "s1 = s0\<lparr>files := f\<rparr>"
  have "unat (kernel_real_addr f) \<le> 2 ^ 32" by (rule order_less_imp_le) (use unsigned_less [of "kernel_real_addr f"] in simp)
  then have s1: "open_file senv name s0 = Some (True, s1)"
    using f(1,5) env by (simp add: open_file_def store_def s1_def s0_def set_cur_def)
  have c1: "cur s1 = a" "mem_upper s1 = mem_upper s" by (simp_all add: s1_def s0_def set_cur_def)
  have fm: "filemax f = int n" using f(2) by (simp add: unhashed_def plain_file_def n_def)
  have fs1: "filemax (files s1) = int n" using fm by (simp add: s1_def)
  have n0: "n \<noteq> 0" using content(4) by (simp add: n_def)
  have m: "unat (1024 * (1024 + mem_upper s)) = 1024 * (1024 + unat (mem_upper s))"
    using fits(1) by (simp add: mem_free_def unat_word_ariths)
  have un: "unat (of_nat n :: u32) = n" using content(3) by (intro unat_of_nat_below32) (simp add: n_def)
  have "unat a + n < 2 ^ 32" using mem_free_bound [OF fits(1)] by simp
  then have an: "unat (a + of_nat n) = unat a + n" by (simp add: unat_word_ariths un)
  have room: "\<not> 1024 * (1024 + mem_upper s) \<le> a + of_int (int n)"
    using fits(2) unfolding word_le_nat_alt of_int_of_nat_eq m an by simp
  have rd: "fs_reader (file_env_of senv) content (opened content)"
    using file_server.reader [OF server content(1)] env by (simp add: fs_reader_def gunzip_env_def)
  obtain f' where f': "read_to senv a (-1) s1 = Some (int n, s1\<lparr>files := f', boot := (boot s1)\<lparr>ram := poke (ram (boot s1)) (unat a) content\<rparr>\<rparr>)"
    "measured content (opened content) f'" "filepos f' = int n" "tcg f' = tcg f"
    using module_read [OF rd, of s1 a] f fits(1) by (auto simp: s1_def s0_def set_cur_def n_def mem_free_def)
  define s2 where "s2 = s1\<lparr>files := f', boot := (boot s1)\<lparr>ram := poke (ram (boot s1)) (unat a) content\<rparr>\<rparr>"
  define mods where "mods = (mll (boot s))[unat (mods_count (boot s)) := (MB_CMDLINE_BUF + of_nat (mb_cmdline s), a, a + of_nat n)]"
  have wr: "wr (mll (boot s2)) (unat (mods_count (boot s2))) (MB_CMDLINE_BUF + of_nat (mb_cmdline s2), a, a + of_int (int n)) = Some mods"
    using slot by (simp add: wr_def s2_def s1_def s0_def set_cur_def mods_def)
  have m': "perform_sha1 f'" "sha1_byte_count f' = sha1_has_to_measure f'" "sha1_repr (my_sha1 f') content"
    using f'(2,3) by (auto simp: measured_def plain_file_def n_def)
  have bios': "tcg_bios (int1a_of (gunzip_env env)) pcr" "tpm_present (gunzip_env env) = 0" using bios tpm by simp_all
  obtain f2 where f2: "grub_close (gunzip_env env) (image_escape ie) f' = Some (Closed f2)"
    "pcr (snd (tcg f2)) = (pcr (snd (tcg (files s))))(14 := tpm_extend (pcr (snd (tcg (files s))) 14) (digest_bytes (fips_sha1 content)))"
    using close_extends [OF bios' m'(3,1,2), of "image_escape ie"] f'(4) f(4) by auto
  let ?s3 = "s2\<lparr>mbi_flags := mbi_flags s2 OR MB_INFO_MODS, boot := (boot s2)\<lparr>mods_addr := mll_addr ie, cur_addr := a + of_nat n, mods_count := mods_count (boot s2) + 1, mll := mods\<rparr>\<rparr>"
  have c2: "cur s2 = a" "files s2 = f'" by (simp_all add: s2_def c1)
  have "close_file senv (image_escape ie) ?s3 = Some (Closed (?s3\<lparr>files := f2\<rparr>))"
    using f2(1) env by (simp add: close_file_def c2)
  moreover have "load_module senv ie name s = do { c \<leftarrow> close_file senv (image_escape ie) ?s3; if_closed c (\<lambda>s3. Some (Closed (True, s3))) }"
    using room f'(1) n0 wr unfolding load_module_def Let_def arg(1) bind.bind_lunit cm
    by (simp add: buf a_def [symmetric] s0_def [symmetric] s1 c1 fs1 s2_def [symmetric] c2)
  ultimately have "load_module senv ie name s = Some (Closed (True, ?s3\<lparr>files := f2\<rparr>))" by simp
  moreover have "peek (poke (ram (boot s)) (unat a) content) (unat a) n = content" unfolding n_def by (rule peek_poke)
  ultimately show ?thesis
    using f2(2) by (simp add: a_def page_align_page fetch_def s2_def s1_def s0_def set_cur_def mods_def)
qed

section \<open>A volume with a kernel\<close>

text \<open>A CD-ROM with one file, \<open>/K\<close>.\<close>

definition disc_recs :: "u8 list \<Rightarrow> iso_rec list" where
  "disc_recs content = [\<lparr>rec_extent = 3, rec_size = of_nat (length content), rec_dir = False, rec_name = [0x4B]\<rparr>]"

definition disc_image :: "u8 list \<Rightarrow> u8 list" where
  "disc_image content = replicate 4096 0 @ pad_sector (iso_dir_bytes (disc_recs content)) @ content @ replicate (55296 - length content) 0"

definition disc_device :: "u8 list \<Rightarrow> u8 list dev_state" where
  "disc_device content = (cd_device 2 (disc_image content))\<lparr>fsys_buf := poke (poke (\<lambda>_. 0) 2206 (le_bytes 2)) 2214 (le_bytes 2048)\<rparr>"

abbreviation "disc_serves content \<equiv> iso_serves cd_int13 cd_contents cd_geom (disc_image content) 0xE0 30 0 [disc_recs content] 0"
abbreviation "disc_opened content \<equiv> iso_opened cd_int13 cd_contents cd_geom (disc_image content) 0xE0 30 0 [disc_recs content] 0"
abbreviation "disc_files content \<equiv> iso_files (cd_contents (disc_image content) 0xE0) 30 0 (concat [disc_recs content])"

interpretation disc: file_server cd_base "disc_files content" "disc_serves content" "disc_opened content" for content
  by (rule cd.dev.iso_file_server) (simp_all add: cd_base_def)

lemma disc_dir: "length (iso_dir_bytes (disc_recs content)) = 35"
  by (simp add: iso_dir_bytes_def disc_recs_def iso_encode_length)

lemma disc_sectors:
  assumes "length content \<le> 55296"
  shows "slice (disc_image content) 4096 2048 = pad_sector (iso_dir_bytes (disc_recs content))" "slice (disc_image content) 6144 (int (length content)) = content"
    "length (disc_image content) = 61440"
proof -
  note l = pad_sector_length disc_dir
  show "slice (disc_image content) 4096 2048 = pad_sector (iso_dir_bytes (disc_recs content))"
    unfolding disc_image_def by (rule slice_middle) (simp_all add: l)
  have e: "disc_image content = (replicate 4096 0 @ pad_sector (iso_dir_bytes (disc_recs content))) @ content @ replicate (55296 - length content) 0"
    by (simp add: disc_image_def)
  show "slice (disc_image content) 6144 (int (length content)) = content" unfolding e by (rule slice_middle) (simp_all add: l)
  show "length (disc_image content) = 61440" using assms by (simp add: disc_image_def l)
qed

lemma disc_contents:
  assumes "length content \<le> 55296"
  shows "disc_files content [0x2f, 0x4B] = Some content"
proof -
  have ok: "iso_name_ok [0x4B]" by (simp add: iso_name_ok_def ends_name_def grub_isspace_def)
  have u: "uint (of_nat (length content) :: u32) = int (length content)"
    using assms by (simp add: uint_nat unat_of_nat_below32 flip: of_nat_eq_iff)
  show ?thesis
    using ok disc_sectors [OF assms] assms
    by (simp add: iso_files_def iso_find_def iso_base_def iso_rec_inside_def iso_content_def cd_contents_def disc_recs_def u)
qed

text \<open>No sector looks like one with an EZ-Drive partition.\<close>

lemma plain_types:
  assumes "\<And>i. i < length w \<Longrightarrow> i mod 512 \<in> {450, 466, 482, 498} \<Longrightarrow> w ! i \<noteq> 0x55"
  shows "plain_disk ram_contents w drive"
proof -
  have "ezd_free ram_contents w drive (512 * m)" if m: "0 < m" for m :: int
    unfolding ezd_free_def
  proof (intro allI impI notI)
    fix s k :: int
    let ?sl = "slice (ram_contents w drive) (s * (512 * m)) (k * (512 * m))"
    assume *: "0 \<le> s" "int (length ?sl) = k * (512 * m)" "0 < k" "is_ezd ?sl"
    define j where "j = nat (s * m)"
    have sj: "nat (s * (512 * m)) = 512 * j" using *(1) m by (simp add: j_def nat_mult_distrib)
    have "1 * 512 \<le> k * (512 * m)" using *(3) m by (intro mult_mono) auto
    then have len: "512 \<le> length ?sl" using *(2) by linarith
    then have drive: "ram_contents w drive = w" by (auto simp: ram_contents_def slice_def split: if_splits)
    obtain i where i: "i \<in> {450, 466, 482, 498}" "?sl ! i = 0x55" using *(4) by (auto simp: is_ezd_def PC_SLICE_TYPE_def)
    have il: "i < length ?sl" using i(1) len by auto
    then have "512 * j + i < length w" "w ! (512 * j + i) = 0x55"
      using i(2) by (auto simp: slice_def drive sj)
    moreover have "(512 * j + i) mod 512 \<in> {450, 466, 482, 498}" using i(1) by auto
    ultimately show False using assms by blast
  qed
  from this [of 1] this [of 4] show ?thesis by (simp add: plain_disk_def)
qed

lemma disc_image_type:
  assumes "length content \<le> 55296" and "i < length (disc_image content)" and "i mod 512 \<in> {450, 466, 482, 498}"
  shows "disc_image content ! i = (if 6144 \<le> i \<and> i < 6144 + length content then content ! (i - 6144) else 0)"
proof -
  have "pad_sector (iso_dir_bytes (disc_recs content)) ! j = 0" if "35 \<le> j" "j < 2048" for j
    using that by (simp add: pad_sector_def nth_append disc_dir)
  moreover have "\<not> (4096 \<le> i \<and> i < 4131)" using assms(3) mod_mult_self1 [of "i - 4096" 8 512] by auto
  ultimately show ?thesis
    using assms(1,2) pad_sector_length [of "iso_dir_bytes (disc_recs content)"] by (auto simp: disc_image_def nth_append disc_dir)
qed

lemma disc_device_serves:
  assumes len: "length content \<le> 55296" and plain: "\<And>i. i < length content \<Longrightarrow> i mod 512 \<in> {450, 466, 482, 498} \<Longrightarrow> content ! i \<noteq> 0x55"
  shows "disc_serves content (disc_device content)"
proof -
  have "disc_image content ! i \<noteq> 0x55" if "i < length (disc_image content)" "i mod 512 \<in> {450, 466, 482, 498}" for i
  proof -
    have "(i - 6144) mod 512 = i mod 512" if "6144 \<le> i" using mod_mult_self1 [of "i - 6144" 12 512] that by simp
    then show ?thesis using disc_image_type [OF len that] plain [of "i - 6144"] that by (auto split: if_splits)
  qed
  then have "plain_disk ram_contents (disc_image content) 0x80" by (rule plain_types)
  then have dev: "iso_dev cd_int13 cd_contents cd_geom (disc_image content) 0xE0 30 0 2048 (disc_device content)"
    using cd_device_file [of "disc_image content" 2 2] disc_sectors(3) [OF len] by (simp add: disc_device_def iso_file_def)
  have "peek (fsys_buf (disc_device content)) 2214 4 = le_bytes 2048" "peek (fsys_buf (disc_device content)) 2206 4 = le_bytes 2"
    using peek_poke [of _ 2214 "le_bytes 2048"] peek_poke [of _ 2206 "le_bytes 2"] peek_poke_other [of 2206 4 2214 "le_bytes 2048"]
    by (simp_all add: disc_device_def le_bytes_def eval_nat_numeral del: poke.simps)
  then have root: "iso32 (fsys_buf (disc_device content)) 2214 = 2048" "iso32 (fsys_buf (disc_device content)) 2206 = 2" by (simp_all add: iso32_le)
  have block: "iso_block (cd_contents (disc_image content) 0xE0) 2048 0 2 = pad_sector (iso_dir_bytes (disc_recs content))"
    using disc_sectors(1) [OF len] by (simp add: iso_block_def cd_contents_def)
  have "list_all iso_rec_ok (disc_recs content)" by (simp add: disc_recs_def iso_rec_ok_def)
  moreover have "take (length (iso_dir_bytes (disc_recs content))) (pad_sector (iso_dir_bytes (disc_recs content))) = iso_dir_bytes (disc_recs content)"
    by (simp add: pad_sector_def)
  ultimately have "iso_sectors (cd_contents (disc_image content) 0xE0) 2048 0 2 [disc_recs content]"
    unfolding iso_sectors_Cons block by (simp add: disc_dir iso_sectors_def)
  then have "iso_mounted cd_int13 cd_contents cd_geom (disc_image content) 0xE0 30 0 2048 [disc_recs content] (disc_device content)"
    using dev root by (simp add: iso_mounted_def c_int_def)
  moreover have "iso_settled 0 (disc_device content)"
    by (simp add: iso_settled_def disc_device_def cd_device_def sane_partition_def Let_def NETWORK_DRIVE_def)
  ultimately show ?thesis by (simp add: iso_serves_def)
qed

text \<open>The command line in a machine with 8 MB and this disc.\<close>

definition blank_boot :: boot_vars where
  "blank_boot = \<lparr>ram = (\<lambda>_. 0), entry_addr = 0, cur_addr = 0x200000, linux_data_real_addr = 0, linux_data_tmp_addr = 0, linux_mem_size = 0,
     linux_text_len = 0, extended_memory = 0x1C00, mem_lower = 640, vbe_mode = 0, mbi_cmdline = 0, mods_count = 0, mods_addr = 0,
     boot_device = 0, syms_num = 0, syms_size = 0, syms_addr = 0, syms_shndx = 0, mll = replicate 99 (0, 0, 0)\<rparr>"

definition blank_shell :: "(u8 list, soft_pcrs) file_state \<Rightarrow> (u8 list, soft_pcrs) shell" where
  "blank_shell f = \<lparr>files = f, vars = no_vars, kernel_type = KERNEL_TYPE_NONE, bootdev = 0, mb_cmdline = 0, mb_buf = replicate 0x6000 0, mem_upper = 0x1C00,
     saved_mem_upper = 0x1C00, mmap_length = 0, mbi_flags = 0, boot_drive = 0xE0, install_partition = 0xFFFFFF, count_lines = -1, use_pager = True,
     default_entry = 0, saved_entryno = 0, current_entryno = 0, fallback_entryno = -1, fallback_entries = replicate 8 0, grub_timeout = 0, show_menu = True,
     auth = False, password = Some (replicate 512 0), password_type = PASSWORD_PLAIN, bios_drive_map = replicate 9 0, debug_mode = False,
     config_file = [], toggles = [], var_expand_line_edit = True, boot = blank_boot\<rparr>"

definition cd_shell_env :: "(u8 list, soft_pcrs) shell_env" where
  "cd_shell_env = \<lparr>file_env_of = cd_env, junk_of = vol_junk, dump_junk = replicate 700 0, buffer_junk = replicate 1000 0, show_sha1 = False, debug_build = False\<rparr>"

definition cd_image_env :: image_env where
  "cd_image_env = \<lparr>image_escape = False, image_base = 0, image_junk = replicate 8192 0, vbe_controller = None, vbe_info = (\<lambda>_. None), module_typed = [],
     args_junk = replicate 10240 0, mll_addr = 0x1000\<rparr>"

lemma cd_image_env_fields: "length (image_junk cd_image_env) = 8192" "image_base cd_image_env = 0" "\<not> image_escape cd_image_env"
  by (simp_all add: cd_image_env_def)

abbreviation disc_shell :: "u8 list \<Rightarrow> (u8 list, soft_pcrs) shell" where
  "disc_shell content \<equiv> blank_shell ((cd_file 2 (disc_image content) 0 0)\<lparr>dev := disc_device content\<rparr>)"

lemma disc_ready:
  assumes "length content \<le> 55296" and "\<And>i. i < length content \<Longrightarrow> i mod 512 \<in> {450, 466, 482, 498} \<Longrightarrow> content ! i \<noteq> 0x55"
  shows "ready (disc_serves content) False (files (disc_shell content))"
  using disc_device_serves [OF assms] fresh_sha1_repr by (simp add: ready_def blank_shell_def cd_file_def sha1_repr_def)

lemma cd_shell_env_files: "file_env_of cd_shell_env = gunzip_env cd_base"
  by (simp add: cd_shell_env_def cd_env_def)

lemma blank_cmdline: "c_string (mb_buf (blank_shell f)) (mb_cmdline (blank_shell f)) = Some []"
  by (simp add: blank_shell_def c_string_def string_at_def)

text \<open>A kernel whose Multiboot header asks for a feature that there is not.\<close>

definition odd_kernel :: "u8 list" where
  "odd_kernel = [0x02, 0xB0, 0xAD, 0x1B, 8, 0, 0, 0, 0xF6, 0x4F, 0x52, 0xE4] @ replicate 8180 0"

lemma odd_kernel_length: "length odd_kernel = 8192"
  by (simp add: odd_kernel_def)

lemma odd_kernel_words: "le32 odd_kernel 0 = MULTIBOOT_MAGIC" "le32 odd_kernel 4 = 8" "le32 odd_kernel 8 = - MULTIBOOT_MAGIC - 8"
  by (simp_all add: odd_kernel_def le32_def MULTIBOOT_MAGIC_def)

lemma odd_kernel_header: "find_header cd_image_env odd_kernel 8192 s = Inl ()"
proof -
  have found: "mb_found (image_base cd_image_env) odd_kernel 8192 0"
    using odd_kernel_words by (simp add: mb_found_def cd_image_env_def MULTIBOOT_AOUT_KLUDGE_def MULTIBOOT_VIDEO_MODE_def)
  have "[0..<nat 8192] = 0 # [Suc 0..<nat 8192]" by (rule upt_conv_Cons) simp
  then have "List.find (mb_found (image_base cd_image_env) odd_kernel 8192) [0..<nat 8192] = Some 0" using found by (simp only: find.simps if_True)
  then show ?thesis using odd_kernel_words(2) unfolding find_header_def by (simp add: MULTIBOOT_UNSUPPORTED_def Let_def)
qed

lemma load_image_measures_witness:
  "\<exists>s'. load_image cd_shell_env cd_image_env [0x2f, 0x4B] KERNEL_TYPE_NONE 0 (disc_shell odd_kernel) = Some (Closed (KERNEL_TYPE_NONE, s'))
    \<and> soft_pcr (snd (tcg (files s'))) 14 = tpm_extend (replicate 20 0) (digest_bytes (fips_sha1 odd_kernel))"
proof -
  note len = odd_kernel_length
  have "0x55 \<notin> set odd_kernel" by (simp add: odd_kernel_def)
  then have "odd_kernel ! i \<noteq> 0x55" if "i < 8192" for i using that nth_mem [of i odd_kernel] unfolding len by metis
  then have ready: "ready (disc_serves odd_kernel) False (files (disc_shell odd_kernel))" by (intro disc_ready) (simp_all add: len)
  have plain: "\<not> gzipped odd_kernel" by (simp add: odd_kernel_def gzipped_def le16_def)
  have named: "disc_files odd_kernel [0x2f, 0x4B] = Some odd_kernel" using disc_contents [of odd_kernel] by (simp add: len)
  obtain s2 where s2: "load_image cd_shell_env cd_image_env [0x2f, 0x4B] KERNEL_TYPE_NONE 0 (disc_shell odd_kernel)
      = do { c \<leftarrow> close_file cd_shell_env False s2; if_closed c (\<lambda>s3. Some (Closed (KERNEL_TYPE_NONE, set_serr ERR_BOOT_FEATURES s3))) }"
    "kernel_in_memory odd_kernel (disc_opened odd_kernel odd_kernel) s2"
    using load_image_reads [OF disc.file_server_axioms cd_shell_env_files cd_image_env_fields(1) ready named plain _ _ blank_cmdline, of KERNEL_TYPE_NONE 0]
    by (auto simp: len odd_kernel_header cd_image_env_fields)
  obtain f where "grub_close cd_env False (files s2) = Some (Closed f)"
    using staged_close [of odd_kernel "disc_opened odd_kernel odd_kernel" "files s2" cd_env soft_pcr False] s2(2) cd_env_tpm by (auto simp: kernel_in_memory_def)
  then obtain s' where run: "load_image cd_shell_env cd_image_env [0x2f, 0x4B] KERNEL_TYPE_NONE 0 (disc_shell odd_kernel) = Some (Closed (KERNEL_TYPE_NONE, s'))"
    using s2(1) by (simp add: close_file_def cd_shell_env_def)
  show ?thesis
    using run load_image_measures [OF disc.file_server_axioms cd_base_tpm cd_shell_env_files ready named plain _ run]
    by (simp add: len) (simp add: blank_shell_def cd_file_def soft_pcr_const)
qed

lemma load_module_as_measured_witness:
  "\<exists>s'. load_module cd_shell_env cd_image_env [0x2f, 0x41] (blank_shell vol_file) = Some (Closed (True, s'))
    \<and> fetch 0x200000 3 s' = [1, 2, 3] \<and> mll (boot s') ! 0 = (MB_CMDLINE_BUF, 0x200000, 0x200003)
    \<and> soft_pcr (snd (tcg (files s'))) 14 = tpm_extend (replicate 20 0) (digest_bytes (fips_sha1 [1, 2, 3]))"
proof -
  have s: "ready vol_serves False (files (blank_shell vol_file))"
    using vol_device_serves fresh_sha1_repr by (simp add: ready_def blank_shell_def vol_file_def cd_file_def sha1_repr_def)
  have none: "no_option ''--with-password-dialog'' []" unfolding no_option_def by code_simp
  have a: "page_align (cur (blank_shell vol_file)) = 0x200000" by (simp add: page_align_def blank_shell_def blank_boot_def)
  have fields: "mods_count (boot (blank_shell vol_file)) = 0" "mll (boot (blank_shell vol_file)) = replicate 99 (0, 0, 0)" "mem_upper (blank_shell vol_file) = 0x1C00"
    "mb_cmdline (blank_shell vol_file) = 0" "soft_pcr (snd (tcg (files (blank_shell vol_file)))) = (\<lambda>_. replicate 20 0)"
    by (simp_all add: blank_shell_def blank_boot_def vol_file_def cd_file_def soft_pcr_const fun_eq_iff)
  show ?thesis
    using load_module_as_measured [OF vol.file_server_axioms cd_base_tpm cd_shell_env_files s vol_contents(1) _ _ _ blank_cmdline none, of cd_image_env]
    by (auto simp: a fields gzipped_def le16_def numeral_3_eq_3 mem_free_def)
qed





end
