(* ===== verification/Commands.thy ===== *)
theory Commands
  imports BootFrame
begin

unbundle bit_operations_syntax

text \<open>
  Commands of \<^verbatim>\<open>stage2/builtins.c\<close> on the state of the command line, and the initialisation of the configuration. What the user types is an
  argument of the commands that ask for it. \<open>Halted\<close> is also a jump into a kernel.
\<close>

section \<open>Arguments\<close>

text \<open>\<open>grub_memcmp (arg, s, n)\<close> with the length of the literal \<open>s\<close>.\<close>

definition arg_begins :: "string \<Rightarrow> u8 list \<Rightarrow> bool" where
  "arg_begins lit arg \<longleftrightarrow> grub_memcmp (arg @ [0]) (ascii lit) (length lit) = Some 0"

text \<open>\<open>safe_parse_maxint (&arg, &n)\<close>: on an error the command fails.\<close>

definition parse_arg :: "u8 list \<Rightarrow> ('w, 't) shell \<Rightarrow> (u8 list \<Rightarrow> u32 \<Rightarrow> (int \<times> ('w, 't) shell) close_result option)
    \<Rightarrow> (int \<times> ('w, 't) shell) close_result option" where
  "parse_arg arg s k =
     Option.bind (safe_parse_maxint (arg @ [0])) (\<lambda>r.
       case r of
         Inl e \<Rightarrow> Some (Closed (1, set_serr e s))
       | Inr (ptr, n) \<Rightarrow> k (takeWhile (\<lambda>c. c \<noteq> 0) ptr) n)"

definition cmd_ok :: "('w, 't) shell \<Rightarrow> (int \<times> ('w, 't) shell) close_result option" where
  "cmd_ok s = Some (Closed (0, s))"

definition cmd_fail :: "grub_error_t \<Rightarrow> ('w, 't) shell \<Rightarrow> (int \<times> ('w, 't) shell) close_result option" where
  "cmd_fail e s = Some (Closed (1, set_serr e s))"

definition first_word :: "u8 list \<Rightarrow> u8 list" where
  "first_word arg = takeWhile (\<lambda>c. \<not> grub_isspace (sint c)) arg"

text \<open>\<open>set_device\<close> on the state of the command line.\<close>

definition cmd_set_device :: "u8 list \<Rightarrow> ('w, 't) shell \<Rightarrow> (u8 list option \<times> ('w, 't) shell) option" where
  "cmd_set_device arg s =
     map_option (\<lambda>(r, d). (map_option snd r, set_dev d s)) (set_device (arg @ [0]) (dev (files s)))"

section \<open>The configuration\<close>

definition MAX_FALLBACK_ENTRIES :: nat where "MAX_FALLBACK_ENTRIES = 8"

definition init_config :: "('w, 't) shell \<Rightarrow> ('w, 't) shell" where
  "init_config s = s\<lparr>default_entry := 0, password := None, fallback_entryno := -1,
     fallback_entries := (fallback_entries s)[0 := -1], grub_timeout := -1\<rparr>"

definition default_func :: "('w, 't) command" where
  "default_func arg fl s =
     do { c \<leftarrow> grub_strcmp (arg @ [0]) (ascii ''saved'' @ [0]);
          if c = 0 then cmd_ok (s\<lparr>default_entry := saved_entryno s\<rparr>)
          else parse_arg arg s (\<lambda>_ n. cmd_ok (s\<lparr>default_entry := n\<rparr>)) }"

text \<open>
  The loop of \<open>fallback_func\<close>; \<open>i\<close> entries are stored. After a number that is in the list already the argument is not moved to the next
  word.
\<close>

lemma parse_digits_rest: "parse_digits mult n found ptr = Some (Inr (ptr', m)) \<Longrightarrow>
    \<exists>pre. ptr = pre @ ptr' \<and> ptr' \<noteq> [] \<and> (found \<or> pre \<noteq> [])"
proof (induction mult n found ptr rule: parse_digits.induct)
  case (2 mult n found c ptr)
  then show ?case by (auto simp: Let_def split: if_splits) (metis append_Cons list.distinct(1))+
qed simp

lemma safe_parse_maxint_rest: "safe_parse_maxint ptr = Some (Inr (ptr', n)) \<Longrightarrow> \<exists>pre. ptr = pre @ ptr' \<and> ptr' \<noteq> [] \<and> pre \<noteq> []"
proof -
  assume "safe_parse_maxint ptr = Some (Inr (ptr', n))"
  then consider "parse_digits 16 0 False (drop 2 ptr) = Some (Inr (ptr', n))" | "parse_digits 10 0 False ptr = Some (Inr (ptr', n))"
    by (auto simp: safe_parse_maxint_def Option.bind_eq_Some_conv split: if_splits)
  then show ?thesis
  proof cases
    case 1
    then obtain pre where "drop 2 ptr = pre @ ptr'" "ptr' \<noteq> []" "pre \<noteq> []" using parse_digits_rest by blast
    then show ?thesis by (metis append_assoc append_is_Nil_conv append_take_drop_id)
  qed (use parse_digits_rest in blast)
qed

lemma parse_rest_shorter:
  assumes "safe_parse_maxint (arg @ [0]) = Some (Inr (ptr, n))"
  shows "length (takeWhile (\<lambda>c. c \<noteq> 0) ptr) < length arg"
proof -
  obtain pre where pre: "arg @ [0] = pre @ ptr" "ptr \<noteq> []" "pre \<noteq> []" using safe_parse_maxint_rest [OF assms] by blast
  then have "last ptr = 0" by (metis last_appendR last_snoc)
  then have "0 \<in> set ptr" using pre(2) last_in_set by metis
  then have "length (takeWhile (\<lambda>c. c \<noteq> 0) ptr) < length ptr"
    by (metis (mono_tags, lifting) takeWhile_eq_all_conv length_takeWhile_le le_neq_implies_less takeWhile_eq_take take_all order_refl)
  moreover have "length arg + 1 = length pre + length ptr" using arg_cong [OF pre(1), of length] by simp
  ultimately show ?thesis using pre(3) by (cases pre) auto
qed

lemma skip_to_shorter: "length (skip_to e l) \<le> length l"
  unfolding skip_to_def Let_def by (meson length_dropWhile_le order_trans)

function fallback_loop :: "u8 list \<Rightarrow> nat \<Rightarrow> u32 list \<Rightarrow> (grub_error_t \<times> u32 list + nat \<times> u32 list) option" where
  "fallback_loop arg i entries =
     (if arg = [] then Some (Inr (i, entries))
      else case safe_parse_maxint (arg @ [0]) of
        None \<Rightarrow> None
      | Some (Inl e) \<Rightarrow> Some (Inl (e, entries))
      | Some (Inr (ptr, entry)) \<Rightarrow>
          let arg' = takeWhile (\<lambda>c. c \<noteq> 0) ptr
          in if entry \<in> set (take i entries) then fallback_loop arg' i entries
             else let entries' = entries[i := entry]
                  in if i + 1 = MAX_FALLBACK_ENTRIES then Some (Inr (i + 1, entries'))
                     else fallback_loop (skip_to False arg') (i + 1) entries')"
  by pat_completeness auto
termination
  by (relation "measure (\<lambda>(arg, i, entries). length arg)") (auto dest: parse_rest_shorter intro: le_less_trans [OF skip_to_shorter])

declare fallback_loop.simps [simp del]

definition fallback_func :: "('w, 't) command" where
  "fallback_func arg fl s =
     do { r \<leftarrow> fallback_loop arg 0 (fallback_entries s);
          case r of
            Inl (e, entries) \<Rightarrow> Some (Closed (1, set_serr e (s\<lparr>fallback_entries := entries\<rparr>)))
          | Inr (i, entries) \<Rightarrow>
              cmd_ok (s\<lparr>fallback_entries := (if i < MAX_FALLBACK_ENTRIES then entries[i := -1] else entries),
                        fallback_entryno := (if i = 0 then -1 else 0)\<rparr>) }"

definition hiddenmenu_func :: "('w, 't) command" where
  "hiddenmenu_func arg fl s = cmd_ok (s\<lparr>show_menu := False\<rparr>)"

definition timeout_func :: "('w, 't) command" where
  "timeout_func arg fl s = parse_arg arg s (\<lambda>_ n. cmd_ok (s\<lparr>grub_timeout := n\<rparr>))"

definition title_func :: "('w, 't) command" where
  "title_func arg fl s = cmd_ok s"

definition debug_func :: "('w, 't) command" where
  "debug_func arg fl s = cmd_ok (s\<lparr>debug_mode := \<not> debug_mode s\<rparr>)"

definition fstest_func :: "('w, 't) command" where
  "fstest_func arg fl s = cmd_ok (s\<lparr>files := (files s)\<lparr>disk_read_hook := \<not> disk_read_hook (files s)\<rparr>\<rparr>)"

definition pager_func :: "('w, 't) command" where
  "pager_func arg fl s =
     (if arg = [] then cmd_ok (s\<lparr>use_pager := \<not> use_pager s\<rparr>)
      else if arg_begins ''on'' arg then cmd_ok (s\<lparr>use_pager := True\<rparr>)
      else if arg_begins ''off'' arg then cmd_ok (s\<lparr>use_pager := False\<rparr>)
      else cmd_fail ERR_BAD_ARGUMENT s)"

definition uppermem_func :: "('w, 't) command" where
  "uppermem_func arg fl s =
     parse_arg arg s (\<lambda>_ n. cmd_ok (s\<lparr>mem_upper := n, mbi_flags := mbi_flags s AND NOT MB_INFO_MEM_MAP\<rparr>))"

text \<open>The result of \<^verbatim>\<open>set\<close>; an error that is pending makes its copies of strings fail.\<close>

definition set_command :: "u8 list \<Rightarrow> u8 list \<Rightarrow> ('w, 't) command" where
  "set_command stack buf arg fl s =
     do { (r, good, st) \<leftarrow> set_func (serr s = ERR_NONE) stack buf arg (vars s);
          Some (Closed (r, (if good then s else set_serr ERR_BAD_ARGUMENT s)\<lparr>vars := st\<rparr>)) }"

section \<open>Passwords\<close>

definition PASSWORD_BUFLEN :: nat where "PASSWORD_BUFLEN = 0x200"

text \<open>\<open>v\<close> are the static variables of the MD5 code; \<open>md5\<close> is whether it is compiled in.\<close>

definition check_password :: "bool \<Rightarrow> md5_vars \<Rightarrow> u8 list \<Rightarrow> u8 list \<Rightarrow> password_t \<Rightarrow> int option" where
  "check_password md5 v entered expected type =
     (case type of
        PASSWORD_PLAIN \<Rightarrow> grub_strcmp (entered @ [0]) (expected @ [0])
      | PASSWORD_MD5 \<Rightarrow> if md5 then map_option fst (md5_password v (entered @ [0]) (expected @ [0]) True) else Some 1
      | PASSWORD_UNSUPPORTED \<Rightarrow> Some 1)"

definition password_func :: "bool \<Rightarrow> md5_vars \<Rightarrow> u8 list \<Rightarrow> ('w, 't) command" where
  "password_func md5 v entered arg fl s =
     (let is_md5 = md5 \<and> arg_begins ''--md5'' arg;
          arg1 = (if is_md5 then skip_to False arg else arg);
          other = arg_begins ''--'' arg1;
          arg2 = (if other then skip_to False arg1 else arg1);
          type = (if other then PASSWORD_UNSUPPORTED else if is_md5 then PASSWORD_MD5 else PASSWORD_PLAIN)
      in if fl AND (BUILTIN_CMDLINE OR BUILTIN_SCRIPT) \<noteq> 0
         then do {
           r \<leftarrow> check_password md5 v entered (first_word arg2) type;
           if r \<noteq> 0 then cmd_fail ERR_PRIVILEGED s else cmd_ok s }
         else if PASSWORD_BUFLEN < length arg2 + 2 then cmd_fail ERR_WONT_FIT s
         else cmd_ok (s\<lparr>password := Some (arg2 @ replicate (PASSWORD_BUFLEN - length arg2) 0), password_type := type\<rparr>))"

definition lock_func :: "('w, 't) command" where
  "lock_func arg fl s = (if \<not> auth s \<and> password s \<noteq> None then cmd_fail ERR_PRIVILEGED s else cmd_ok s)"

text \<open>\<open>escape\<close> is whether the key is the escape key. The result 1 does not stop a script: only an error does.\<close>

definition pause_func :: "bool \<Rightarrow> ('w, 't) command" where
  "pause_func escape arg fl s = Some (Closed (if escape then 1 else 0, s))"

section \<open>Devices\<close>

definition DRIVE_MAP_SIZE :: nat where "DRIVE_MAP_SIZE = 8"

text \<open>The slot for a drive: its own, the first empty one, or none.\<close>

fun map_slot :: "nat \<Rightarrow> u32 \<Rightarrow> 16 word list \<Rightarrow> nat" where
  "map_slot i from [] = i"
| "map_slot i from (m # ms) = (if ucast m AND 0xff = from \<or> m = 0 then i else map_slot (i + 1) from ms)"

text \<open>The map after \<^verbatim>\<open>map\<close>; none if there is no slot left. If both drives are the same, the entry is deleted.\<close>

definition map_drives :: "u32 \<Rightarrow> u32 \<Rightarrow> 16 word list \<Rightarrow> 16 word list option" where
  "map_drives to from m =
     (let i = map_slot 0 from (take DRIVE_MAP_SIZE m)
      in if i = DRIVE_MAP_SIZE then None
         else if to = from then Some (overlay m i (take (DRIVE_MAP_SIZE - i) (drop (i + 1) m)))
         else Some (m[i := ucast (from OR push_bit 8 to)]))"

definition map_func :: "('w, 't) command" where
  "map_func arg fl s =
     do { (_, s1) \<leftarrow> cmd_set_device arg s;
          if serr s1 \<noteq> ERR_NONE then Some (Closed (1, s1))
          else do {
            let to = current_drive (dev (files s1));
            (_, s2) \<leftarrow> cmd_set_device (skip_to False arg) s1;
            if serr s2 \<noteq> ERR_NONE then Some (Closed (1, s2))
            else case map_drives to (current_drive (dev (files s2))) (bios_drive_map s2) of
                   None \<Rightarrow> cmd_fail ERR_WONT_FIT s2
                 | Some m \<Rightarrow> cmd_ok (s2\<lparr>bios_drive_map := m\<rparr>) } }"

definition hide_func :: "bool \<Rightarrow> ('w, 't) shell_env \<Rightarrow> ('w, 't) command" where
  "hide_func hidden env arg fl s =
     do { (r, s1) \<leftarrow> cmd_set_device arg s;
          case r of
            None \<Rightarrow> Some (Closed (1, s1))
          | Some _ \<Rightarrow> do {
              (ok, d) \<leftarrow> set_partition_hidden_flag (int13_of (file_env_of env)) (junk_iter (file_env_of env)) hidden (dev (files s1));
              Some (Closed (if ok then 0 else 1, set_dev d s1)) } }"

definition makeactive_func :: "('w, 't) shell_env \<Rightarrow> u8 list \<Rightarrow> ('w, 't) command" where
  "makeactive_func env mbr_junk arg fl s =
     do { (ok, d) \<leftarrow> make_saved_active (int13_of (file_env_of env)) mbr_junk (dev (files s));
          Some (Closed (if ok then 0 else 1, set_dev d s)) }"

definition real_root_func :: "('w, 't) shell_env \<Rightarrow> bool \<Rightarrow> ('w, 't) command" where
  "real_root_func env mount arg fl s =
     (let env' = file_env_of env; b = int13_of env'
      in if arg = []
         then let d = dev (files s)
              in cmd_ok (set_dev (d\<lparr>current_partition := saved_partition d, current_drive := saved_drive d\<rparr>) s)
         else do {
           (r, s1) \<leftarrow> cmd_set_device arg s;
           case r of
             None \<Rightarrow> Some (Closed (1, s1))
           | Some after \<Rightarrow> do {
               (ok, d) \<leftarrow>
                 (if mount
                  then do { (ok, d) \<leftarrow> open_device b (map mount_func (fsys_table env')) (junk_iter env') (dev (files s1));
                            Some (ok \<or> err_of d = ERR_FSYS_MOUNT, d) }
                  else do { (ok, d) \<leftarrow> open_partition b (junk_iter env') (dev (files s1));
                            if ok then do { (_, d') \<leftarrow> set_bootdev b 0 d; Some (err_of d' = ERR_NONE, d') } else Some (True, d) });
               if \<not> ok then Some (Closed (1, set_dev d s1))
               else do {
                 let d1 = (set_err ERR_NONE d)\<lparr>saved_partition := current_partition d, saved_drive := current_drive d\<rparr>;
                 if \<not> mount then cmd_ok (set_dev d1 s1)
                 else do {
                   hd \<leftarrow> safe_parse_maxint (skip_to False (takeWhile (\<lambda>c. c \<noteq> 0) after) @ [0]);
                   (bd, d2) \<leftarrow> set_bootdev b (case hd of Inr (_, n) \<Rightarrow> n | Inl _ \<Rightarrow> 0) d1;
                   Some (Closed (if err_of d2 \<noteq> ERR_NONE then 1 else 0, (set_dev d2 s1)\<lparr>bootdev := bd\<rparr>)) } } } })"

section \<open>Partition tables\<close>

text \<open>The address of a sector for the BIOS; the sectors and heads must not be 0. The result is \<open>cl\<close>, \<open>ch\<close> and \<open>dh\<close>.\<close>

definition lba_to_chs :: "geometry \<Rightarrow> u32 \<Rightarrow> (u32 \<times> u32 \<times> u32) option" where
  "lba_to_chs g lba =
     (let secs = of_int (sectors g); hds = of_int (heads g); cyls = of_int (cylinders g);
          sector = lba mod secs + 1;
          head = (lba div secs) mod hds;
          cylinder = lba div (secs * hds);
          cylinder = (if cyls \<le> cylinder then cyls - 1 else cylinder)
      in if secs = 0 \<or> hds = 0 \<or> secs * hds = 0 then None
         else Some (sector OR drop_bit 2 (cylinder AND 0x300), cylinder AND 0xFF, head))"

text \<open>The entry of a partition: flag, first sector, type, last sector, start and length.\<close>

definition new_entry :: "geometry \<Rightarrow> u32 \<Rightarrow> u32 \<Rightarrow> u32 \<Rightarrow> u8 list option" where
  "new_entry g type start len =
     do { (start_cl, start_ch, start_dh) \<leftarrow> lba_to_chs g start;
          (end_cl, end_ch, end_dh) \<leftarrow> lba_to_chs g (start + len - 1);
          Some ([0, ucast start_dh, ucast start_cl, ucast start_ch, ucast type, ucast end_dh, ucast end_cl, ucast end_ch]
                @ le32_parts start @ le32_parts len) }"

text \<open>The sector with a new entry and the signature.\<close>

definition store_entry :: "u8 list \<Rightarrow> nat \<Rightarrow> u8 list \<Rightarrow> u8 list" where
  "store_entry mbr entry e = (overlay mbr (446 + 16 * entry) e)[510 := 0x55, 511 := 0xaa]"

definition partnew_func :: "('w, 't) shell_env \<Rightarrow> u8 list \<Rightarrow> ('w, 't) command" where
  "partnew_func env mbr_junk arg fl s =
     do { (r, s1) \<leftarrow> cmd_set_device arg s;
          let d = dev (files s1);
          let p = current_partition d;
          let b = int13_of (file_env_of env);
          let entry = unat (drop_bit 16 p);
          if r = None then Some (Closed (1, s1))
          else if current_drive d AND 0x80 = 0 then cmd_fail ERR_BAD_ARGUMENT s1
          else if 3 < entry \<or> p AND 0xFFFF \<noteq> 0xFFFF then cmd_fail ERR_BAD_ARGUMENT s1
          else parse_arg (skip_to False arg) s1 (\<lambda>arg1 new_type.
            if 0xFF < new_type then cmd_fail ERR_BAD_ARGUMENT s1
            else parse_arg (skip_to False arg1) s1 (\<lambda>arg2 new_start.
              parse_arg (skip_to False arg2) s1 (\<lambda>_ new_len. do {
                (ok, mbr, st) \<leftarrow> read_sector b (current_drive d) 0 mbr_junk (disk d);
                let s2 = set_dev (d\<lparr>disk := st\<rparr>) s1;
                if \<not> ok then Some (Closed (1, s2))
                else if of_int (total_sectors (buf_geom st)) < new_start + new_len then cmd_fail ERR_GEOM s2
                else do {
                  e \<leftarrow> new_entry (buf_geom st) new_type new_start new_len;
                  (ok', st') \<leftarrow> rawwrite b (sint (current_drive d)) 0 (store_entry mbr entry e) (st\<lparr>buf_track := -1\<rparr>);
                  Some (Closed (if ok' then 0 else 1, set_dev (d\<lparr>disk := st'\<rparr>) s2)) } }))) }"

partial_function (option) parttype_loop :: "'w int13 \<Rightarrow> u8 \<Rightarrow> part_iter \<Rightarrow> 'w dev_state \<Rightarrow> (bool \<times> 'w dev_state) option" where
  "parttype_loop b new_type it s =
     Option.bind (next_partition b (current_drive s) (current_drive s) 0xFFFFFF it (bsd_evil_hack s) (disk s))
       (\<lambda>(ok, it', hack', st').
          let s1 = s\<lparr>disk := st', bsd_evil_hack := hack'\<rparr>
          in if \<not> ok then Some (False, s1)
             else if it_partition it' = current_partition s
             then Option.bind
                    (rawwrite b (sint (current_drive s)) (sint (it_offset it'))
                       ((it_buf it')[446 + 4 + 16 * nat (it_entry it') := new_type]) (st'\<lparr>buf_track := -1\<rparr>))
                    (\<lambda>(ok', st''). Some (ok', s1\<lparr>disk := st''\<rparr>))
             else parttype_loop b new_type it' s1)"

definition parttype_func :: "('w, 't) shell_env \<Rightarrow> ('w, 't) command" where
  "parttype_func env arg fl s =
     do { (r, s1) \<leftarrow> cmd_set_device arg s;
          let d = dev (files s1);
          let p = current_partition d;
          if r = None then Some (Closed (1, s1))
          else if current_drive d AND 0x80 = 0 then cmd_fail ERR_BAD_ARGUMENT s1
          else if drop_bit 16 p = 0xFF \<or> p AND 0xFFFF \<noteq> 0xFFFF then cmd_fail ERR_BAD_ARGUMENT s1
          else parse_arg (skip_to False arg) s1 (\<lambda>_ new_type.
            if 0xFF < new_type then cmd_fail ERR_BAD_ARGUMENT s1
            else do {
              (ok, d') \<leftarrow> parttype_loop (int13_of (file_env_of env)) (ucast new_type)
                            ((junk_iter (file_env_of env))\<lparr>it_partition := 0xFFFFFF\<rparr>) d;
              Some (Closed (if ok then 0 else 1, set_dev d' s1)) }) }"

section \<open>Booting\<close>

text \<open>The drive that a chain-loaded boot sector is told: the mapped drive, if the map has an entry for the root drive.\<close>

fun chain_drive :: "16 word list \<Rightarrow> u32 \<Rightarrow> u32" where
  "chain_drive [] drive = drive"
| "chain_drive (m # ms) drive =
     (if m = 0 then drive
      else if ucast m AND 0xFF = drive then drop_bit 8 (ucast m) AND 0xFF
      else chain_drive ms drive)"

text \<open>
  \<open>boot_func\<close>. \<open>vbe_ok\<close> is whether the BIOS can switch to the graphics mode of a Multiboot kernel. The functions that start a
  kernel do not return.
\<close>

definition boot_func :: "bool \<Rightarrow> ('w, 't) command" where
  "boot_func vbe_ok arg fl s =
     (case kernel_type s of
        KERNEL_TYPE_NONE \<Rightarrow> cmd_fail ERR_BOOT_COMMAND s
      | KERNEL_TYPE_MULTIBOOT \<Rightarrow>
          if mbi_flags s AND MB_INFO_VIDEO_INFO \<noteq> 0 \<and> \<not> vbe_ok then cmd_fail ERR_BOOT_COMMAND s else Some Halted
      | _ \<Rightarrow> Some Halted)"

text \<open>The options of \<^verbatim>\<open>kernel\<close>; the result none is a bad argument.\<close>

definition KERNEL_LOAD_NO_MEM_OPTION :: u32 where "KERNEL_LOAD_NO_MEM_OPTION = 1"

definition kernel_type_named :: "u8 list \<Rightarrow> kernel_t option" where
  "kernel_type_named arg =
     (if arg_begins ''netbsd'' arg then Some KERNEL_TYPE_NETBSD
      else if arg_begins ''freebsd'' arg then Some KERNEL_TYPE_FREEBSD
      else if arg_begins ''openbsd'' arg then Some KERNEL_TYPE_OPENBSD
      else if arg_begins ''linux'' arg then Some KERNEL_TYPE_LINUX
      else if arg_begins ''biglinux'' arg then Some KERNEL_TYPE_BIG_LINUX
      else if arg_begins ''multiboot'' arg then Some KERNEL_TYPE_MULTIBOOT
      else None)"

lemma skip_to_drop_shorter: "0 < n \<Longrightarrow> l \<noteq> [] \<Longrightarrow> length (skip_to e (drop n l)) < length l"
  using skip_to_shorter [of e "drop n l"] by (cases l) auto

lemma arg_begins_hd: "arg_begins (c # lit) arg \<Longrightarrow> of_char c \<noteq> (0 :: u8) \<Longrightarrow> arg \<noteq> [] \<and> hd arg = of_char c"
  by (cases arg) (auto simp: arg_begins_def ascii_def split: if_splits)

lemma skip_word_shorter: "l \<noteq> [] \<Longrightarrow> \<not> (hd l = 0x20 \<or> hd l = 9) \<Longrightarrow> length (skip_to False l) < length l"
  by (cases l) (auto simp: skip_to_def intro: le_less_trans [OF length_dropWhile_le] le_imp_less_Suc length_dropWhile_le order_trans)

function kernel_options :: "kernel_t \<Rightarrow> u32 \<Rightarrow> u8 list \<Rightarrow> (kernel_t \<times> u32 \<times> u8 list) option" where
  "kernel_options type load_flags arg =
     (if arg_begins ''--type='' arg
      then case kernel_type_named (drop 7 arg) of
             None \<Rightarrow> None
           | Some t \<Rightarrow> kernel_options t load_flags (skip_to False (drop 7 arg))
      else if arg_begins ''--no-mem-option'' arg
      then kernel_options type (load_flags OR KERNEL_LOAD_NO_MEM_OPTION) (skip_to False arg)
      else Some (type, load_flags, arg))"
  by pat_completeness auto
termination
proof (relation "measure (\<lambda>(t, f, arg). length arg)", simp_all)
  fix arg :: "u8 list"
  show "arg_begins ''--type='' arg \<Longrightarrow> length (skip_to False (drop 7 arg)) < length arg"
    using arg_begins_hd [of "CHR ''-''" "''-type=''" arg] by (intro skip_to_drop_shorter) auto
  show "arg_begins ''--no-mem-option'' arg \<Longrightarrow> length (skip_to False arg) < length arg"
    using arg_begins_hd [of "CHR ''-''" "''-no-mem-option''" arg] by (intro skip_word_shorter) auto
qed

declare kernel_options.simps [simp del]

definition MB_CMDLINE_BUFLEN :: nat where "MB_CMDLINE_BUFLEN = 0x6000"

text \<open>The kernel is loaded with measurement switched on. \<open>auto_mem\<close> is the option \<^verbatim>\<open>AUTO_LINUX_MEM_OPT\<close>.\<close>

definition measure_on :: "('w, 't) shell \<Rightarrow> ('w, 't) shell" where
  "measure_on s = s\<lparr>files := (files s)\<lparr>perform_sha1 := True\<rparr>\<rparr>"

definition copy_mb_cmdline :: "u8 list \<Rightarrow> ('w, 't) shell \<Rightarrow> ('w, 't) shell" where
  "copy_mb_cmdline arg s = (if serr s = ERR_NONE then s\<lparr>mb_buf := overlay (mb_buf s) (mb_cmdline s) (arg @ [0])\<rparr> else s)"

definition kernel_func :: "bool \<Rightarrow> ('w, 't) shell_env \<Rightarrow> image_env \<Rightarrow> ('w, 't) command" where
  "kernel_func auto_mem env ie arg fl s =
     (let s1 = measure_on s
      in case kernel_options KERNEL_TYPE_NONE (if auto_mem then 0 else KERNEL_LOAD_NO_MEM_OPTION) arg of
           None \<Rightarrow> cmd_fail ERR_BAD_ARGUMENT s1
         | Some (type, load_flags, file) \<Rightarrow>
             let s2 = s1\<lparr>mb_cmdline := 0\<rparr>
             in if MB_CMDLINE_BUFLEN < length file + 1 then cmd_fail ERR_WONT_FIT s2
                else do {
                  res \<leftarrow> load_image env ie file type load_flags (copy_mb_cmdline file s2);
                  if_closed res (\<lambda>(t, s3).
                    Some (Closed (if t = KERNEL_TYPE_NONE then (1, s3\<lparr>kernel_type := t\<rparr>)
                                  else (0, s3\<lparr>kernel_type := t, mb_cmdline := mb_cmdline s3 + length file + 1\<rparr>)))) })"

definition module_func :: "('w, 't) shell_env \<Rightarrow> image_env \<Rightarrow> ('w, 't) command" where
  "module_func env ie arg fl s =
     (let s1 = measure_on s
      in case kernel_type s1 of
           KERNEL_TYPE_MULTIBOOT \<Rightarrow>
             if MB_CMDLINE_BUFLEN < mb_cmdline s1 + length arg + 1 then cmd_fail ERR_WONT_FIT s1
             else do {
               res \<leftarrow> load_module env ie arg (copy_mb_cmdline arg s1);
               if_closed res (\<lambda>(ok, s2). Some (Closed (if ok then (0, s2\<lparr>mb_cmdline := mb_cmdline s2 + length arg + 1\<rparr>) else (1, s2)))) }
         | KERNEL_TYPE_LINUX \<Rightarrow> do { res \<leftarrow> load_initrd env ie arg s1; if_closed res (\<lambda>(ok, s2). Some (Closed (if ok then 0 else 1, s2))) }
         | KERNEL_TYPE_BIG_LINUX \<Rightarrow> do { res \<leftarrow> load_initrd env ie arg s1; if_closed res (\<lambda>(ok, s2). Some (Closed (if ok then 0 else 1, s2))) }
         | _ \<Rightarrow> cmd_fail ERR_NEED_MB_KERNEL s1)"

definition set_no_decompression :: "bool \<Rightarrow> ('w, 't) shell \<Rightarrow> ('w, 't) shell" where
  "set_no_decompression x s = s\<lparr>files := (files s)\<lparr>no_decompression := x\<rparr>\<rparr>"

definition modulenounzip_func :: "('w, 't) shell_env \<Rightarrow> image_env \<Rightarrow> ('w, 't) command" where
  "modulenounzip_func env ie arg fl s =
     do { res \<leftarrow> module_func env ie arg fl (set_no_decompression True s);
          if_closed res (\<lambda>(r, s'). Some (Closed (r, set_no_decompression False s'))) }"

definition initrd_func :: "('w, 't) shell_env \<Rightarrow> image_env \<Rightarrow> ('w, 't) command" where
  "initrd_func env ie arg fl s =
     (let s1 = measure_on s
      in if kernel_type s1 = KERNEL_TYPE_LINUX \<or> kernel_type s1 = KERNEL_TYPE_BIG_LINUX
         then do { res \<leftarrow> load_initrd env ie arg s1; if_closed res (\<lambda>(ok, s2). Some (Closed (if ok then 0 else 1, s2))) }
         else cmd_fail ERR_NEED_LX_KERNEL s1)"

text \<open>
  \<open>configfile_func\<close>: true if the boot loader is started anew with the state. Where the file cannot be opened, measurement stays
  switched off.
\<close>

definition configfile_restart :: "('w, 't) shell_env \<Rightarrow> bool \<Rightarrow> u8 list \<Rightarrow> ('w, 't) shell \<Rightarrow> (bool \<times> ('w, 't) shell) close_result option" where
  "configfile_restart env escape arg s =
     do { let f = files s;
          let f0 = (if perform_sha1 f then f\<lparr>old_perform_sha1_value := True, perform_sha1 := False\<rparr> else f);
          (ok, f1) \<leftarrow> grub_open (file_env_of env) (fn_junk (junk_of env)) arg f0;
          if \<not> ok then Some (Closed (False, s\<lparr>files := f1\<rparr>))
          else do {
            c \<leftarrow> grub_close (file_env_of env) escape f1;
            if_closed c (\<lambda>f2.
              let f3 = (if old_perform_sha1_value f2 then f2\<lparr>perform_sha1 := True\<rparr> else f2)
              in Some (Closed (True, s\<lparr>files := f3, config_file := arg, auth := False\<rparr>))) } }"

definition configfile_func :: "('w, 't) shell_env \<Rightarrow> bool \<Rightarrow> ('w, 't) command" where
  "configfile_func env escape arg fl s =
     do { res \<leftarrow> configfile_restart env escape arg s;
          if_closed res (\<lambda>(restart, s'). Some (if restart then Halted else Closed (1, s'))) }"

definition checkfile_command :: "('w, 't) shell_env \<Rightarrow> (nat \<Rightarrow> bool) \<Rightarrow> bool \<Rightarrow> ('w, 't) command" where
  "checkfile_command env escape escape_end arg fl s =
     do { res \<leftarrow> checkfile_func (file_env_of env) escape escape_end (junk_of env) arg (files s);
          if_closed res (\<lambda>(r, f). Some (Closed (r, s\<lparr>files := f\<rparr>))) }"

definition sha1_command :: "('w, 't) shell_env \<Rightarrow> (nat \<Rightarrow> bool) \<Rightarrow> ('w, 't) command" where
  "sha1_command env escape arg fl s =
     do { res \<leftarrow> sha1_func (file_env_of env) escape (junk_of env) arg (files s);
          if_closed res (\<lambda>(r, f). Some (Closed (r, s\<lparr>files := f\<rparr>))) }"

section \<open>The drive map\<close>

text \<open>The map as a function from the drive a program asks for to the drive it gets.\<close>

definition map_from :: "16 word \<Rightarrow> u32" where
  "map_from m = ucast m AND 0xff"

definition map_to :: "16 word \<Rightarrow> u32" where
  "map_to m = drop_bit 8 (ucast m) AND 0xff"

fun map_lookup :: "16 word list \<Rightarrow> u32 \<Rightarrow> u32 option" where
  "map_lookup [] d = None"
| "map_lookup (m # ms) d = (if m = 0 then None else if map_from m = d then Some (map_to m) else map_lookup ms d)"

text \<open>Nine words: distinct drives first, then zeros.\<close>

definition drive_map_inv :: "16 word list \<Rightarrow> bool" where
  "drive_map_inv m \<longleftrightarrow> (\<exists>es. m = es @ replicate (9 - length es) 0 \<and> length es \<le> 8 \<and> 0 \<notin> set es \<and> distinct (map map_from es))"

lemma chain_drive_lookup: "chain_drive m d = (case map_lookup m d of None \<Rightarrow> d | Some t \<Rightarrow> t)"
  by (induction m d rule: map_lookup.induct) (auto simp: map_from_def map_to_def)

lemma map_lookup_append:
  "0 \<notin> set es \<Longrightarrow> map_lookup (es @ replicate n 0) d = map_lookup es d"
  by (induction es) (auto simp: gr0_conv_Suc split: if_splits, (cases n; simp)+)

lemma small_take_bit: "(x :: u32) < 256 \<Longrightarrow> take_bit 8 x = x"
  using take_bit_eq_mod [of 8 x] by (simp add: unat_arith_simps)

lemma bit_small: "(x :: u32) < 256 \<Longrightarrow> bit x n \<Longrightarrow> n < 8"
  using small_take_bit [of x] by (metis bit_take_bit_iff)

lemma and_ff: "(x :: u32) AND 0xff = take_bit 8 x"
  by (simp add: take_bit_eq_mask mask_numeral)

lemma map_entry_parts:
  assumes "x < 256" "y < 256"
  shows "map_from (ucast (x OR push_bit 8 y)) = x" and "map_to (ucast (x OR push_bit 8 y)) = y"
proof -
  show "map_from (ucast (x OR push_bit 8 y)) = x"
    unfolding map_from_def and_ff by (rule bit_word_eqI) (auto simp: bit_simps dest: bit_small [OF assms(1)])
  show "map_to (ucast (x OR push_bit 8 y)) = y"
    unfolding map_to_def and_ff by (rule bit_word_eqI) (auto simp: bit_simps dest: bit_small [OF assms(1)] bit_small [OF assms(2)])
qed

lemma map_lookup_map_of: "0 \<notin> set es \<Longrightarrow> map_lookup es = map_of (map (\<lambda>m. (map_from m, map_to m)) es)"
  by (induction es) (auto simp: fun_eq_iff)

lemma map_lookup_zeros: "0 \<notin> set es \<Longrightarrow> map_lookup (es @ replicate n 0) = map_of (map (\<lambda>m. (map_from m, map_to m)) es)"
  using map_lookup_append map_lookup_map_of by (auto simp: fun_eq_iff)

lemma map_slot_new: "0 \<notin> set es \<Longrightarrow> d \<notin> map_from ` set es \<Longrightarrow> map_slot i d (es @ replicate n 0) = i + length es"
proof (induction es arbitrary: i)
  case Nil
  then show ?case by (cases n) auto
qed (auto simp: map_from_def)

lemma map_slot_old: "0 \<notin> set pre \<Longrightarrow> d \<notin> map_from ` set pre \<Longrightarrow> map_from e = d \<Longrightarrow> map_slot i d (pre @ e # post) = i + length pre"
  by (induction pre arbitrary: i) (auto simp: map_from_def)

lemma map_of_replace: "k \<notin> fst ` set xs \<Longrightarrow> map_of (xs @ (k, v) # ys) = (map_of (xs @ ys))(k \<mapsto> v)"
  by (induction xs) (auto simp: fun_eq_iff)

lemma map_entry_nonzero:
  fixes x y :: u32
  assumes "x < 256" "y < 256" "x \<noteq> y"
  shows "(ucast (x OR push_bit 8 y) :: 16 word) \<noteq> 0"
proof
  assume "(ucast (x OR push_bit 8 y) :: 16 word) = 0"
  then have "x = 0" "y = 0" using map_entry_parts [OF assms(1,2)] by (simp_all add: map_from_def map_to_def)
  then show False using assms(3) by simp
qed

lemma drive_map_invI: "0 \<notin> set es \<Longrightarrow> length es \<le> 8 \<Longrightarrow> distinct (map map_from es) \<Longrightarrow> drive_map_inv (es @ replicate (9 - length es) 0)"
  unfolding drive_map_inv_def by blast

lemma map_drives_new:
  assumes es: "0 \<notin> set es" "length es \<le> 8" "distinct (map map_from es)" and d: "x < 256" "y < 256" and new: "x \<notin> map_from ` set es"
  defines "m \<equiv> es @ replicate (9 - length es) 0" and "e \<equiv> ucast (x OR push_bit 8 y)"
  shows "map_drives y x m =
    (if length es = 8 then None else Some (if y = x then m else (es @ [e]) @ replicate (9 - length (es @ [e])) 0))"
proof -
  have "take 8 m = es @ replicate (8 - length es) 0" using es(2) by (simp add: m_def)
  then have slot: "map_slot 0 x (take 8 m) = length es" using map_slot_new [OF es(1) new, of 0] by simp
  have r: "replicate (9 - length es) (0 :: 16 word) = 0 # replicate (8 - length es) 0" using es(2) by (simp add: Suc_diff_le flip: replicate_Suc)
  have "overlay m (length es) (take (8 - length es) (drop (length es + 1) m)) = m" if "length es < 8"
    using that unfolding m_def r by (simp add: overlay_def) (simp add: Cons_replicate_eq Suc_diff_le flip: replicate_add replicate_Suc)
  moreover have "m[length es := e] = (es @ [e]) @ replicate (9 - length (es @ [e])) 0"
    unfolding m_def r by (simp add: list_update_append)
  ultimately show ?thesis using es(2) by (simp add: map_drives_def slot DRIVE_MAP_SIZE_def e_def)
qed

lemma map_drives_old:
  fixes x y :: u32
  assumes es: "0 \<notin> set (pre @ e0 # post)" "length (pre @ e0 # post) \<le> 8" "distinct (map map_from (pre @ e0 # post))" and x: "map_from e0 = x"
  defines "m \<equiv> (pre @ e0 # post) @ replicate (9 - length (pre @ e0 # post)) 0" 
  shows "map_drives y x m =
    Some (if y = x then (pre @ post) @ replicate (9 - length (pre @ post)) 0
          else (pre @ ucast (x OR push_bit 8 y) # post) @ replicate (9 - length (pre @ ucast (x OR push_bit 8 y) # post)) 0)"
proof -
  have e8: "8 - length pre = Suc (7 - length pre)" using es(2) by simp
  then have "take 8 m = pre @ e0 # post @ replicate (8 - length (pre @ e0 # post)) 0" using es(2) by (simp add: m_def)
  moreover have "x \<notin> map_from ` set pre" "0 \<notin> set pre" using es x by auto
  ultimately have slot: "map_slot 0 x (take 8 m) = length pre" using map_slot_old [of pre x e0 0] x by simp
  have len: "length pre + length post \<le> 7" using es(2) by simp
  have "overlay m (length pre) (take (8 - length pre) (drop (length pre + 1) m)) = (pre @ post) @ replicate (9 - length (pre @ post)) 0"
  proof -
    have "m = pre @ e0 # post @ replicate (8 - length pre - length post) 0" using len by (simp add: m_def)
    moreover have "drop (length pre + 1) m = post @ replicate (8 - length pre - length post) 0" by (simp add: calculation)
    moreover have "9 - (length pre + length post) = Suc (8 - (length pre + length post))" using len by simp
    ultimately show ?thesis using len e8 by (simp add: overlay_def replicate_append_same)
  qed
  moreover have "m[length pre := ucast (x OR push_bit 8 y)] = (pre @ ucast (x OR push_bit 8 y) # post) @ replicate (9 - length (pre @ ucast (x OR push_bit 8 y) # post)) 0"
    by (simp add: m_def list_update_append)
  ultimately show ?thesis using len by (simp add: map_drives_def slot DRIVE_MAP_SIZE_def)
qed

text \<open>
  C27. The drive map. \<^verbatim>\<open>map\<close> keeps a map of distinct drives, and afterwards a boot sector that would be started from the drive \<open>x\<close> is told
  the drive \<open>y\<close> while nothing changes for the other drives; mapping a drive to itself removes its entry. The command fails only if
  eight other drives are mapped.
\<close>

theorem map_drives_maps:
  assumes inv: "drive_map_inv m" and d: "x < 256" "y < 256"
  shows "case map_drives y x m of
      Some m' \<Rightarrow> drive_map_inv m' \<and> (\<forall>d. chain_drive m' d = (if d = x then y else chain_drive m d))
    | None \<Rightarrow> map_lookup m x = None \<and> card (dom (map_lookup m)) = 8"
proof -
  obtain es where m: "m = es @ replicate (9 - length es) 0" and es: "0 \<notin> set es" "length es \<le> 8" "distinct (map map_from es)"
    using inv unfolding drive_map_inv_def by blast
  define e :: "16 word" where "e = ucast (x OR push_bit 8 y)"
  note parts = map_entry_parts [OF d, folded e_def] and look = map_lookup_zeros [OF es(1), of "9 - length es", folded m]
  let ?f = "\<lambda>m. (map_from m, map_to m)"
  show ?thesis
  proof (cases "x \<in> map_from ` set es")
    case False
    note md = map_drives_new [OF es d False, folded m e_def]
    have none: "map_lookup m x = None" using False by (simp add: look map_of_eq_None_iff image_image)
    have "card (dom (map_lookup m)) = length es" using es(3) using distinct_card [OF es(3)] by (simp add: look dom_map_of_conv_image_fst image_image)
    moreover have "drive_map_inv ((es @ [e]) @ replicate (9 - length (es @ [e])) 0)
        \<and> (\<forall>d. chain_drive ((es @ [e]) @ replicate (9 - length (es @ [e])) 0) d = (if d = x then y else chain_drive m d))"
      if "length es \<noteq> 8" "y \<noteq> x"
    proof
      have nz: "0 \<notin> set (es @ [e])" using es(1) map_entry_nonzero [OF d] that(2) by (auto simp: e_def)
      then show "drive_map_inv ((es @ [e]) @ replicate (9 - length (es @ [e])) 0)"
        using es that(1) False parts by (intro drive_map_invI) auto
      show "\<forall>d. chain_drive ((es @ [e]) @ replicate (9 - length (es @ [e])) 0) d = (if d = x then y else chain_drive m d)"
        unfolding chain_drive_lookup map_lookup_zeros [OF nz] look using map_of_replace [of x "map ?f es" y "[]"] False parts
        by (auto simp: image_image)
    qed
    ultimately show ?thesis using md none inv by (auto simp: chain_drive_lookup)
  next
    case True
    then obtain pre e0 post where split: "es = pre @ e0 # post" and x: "map_from e0 = x" by (metis image_iff split_list)
    note md = map_drives_old [OF es [unfolded split] x, of y, folded e_def, folded split, folded m]
    have out: "x \<notin> map_from ` set pre" "x \<notin> map_from ` set post" using es(3) x by (auto simp: split)
    have nz': "0 \<notin> set (pre @ post)" using es(1) by (simp add: split)
    have old: "map_lookup m = (map_of (map ?f (pre @ post)))(x \<mapsto> map_to e0)"
      using look map_of_replace [of x "map ?f pre" "map_to e0" "map ?f post"] out x by (simp add: split image_image)
    have gone: "map_of (map ?f (pre @ post)) x = None" using out by (auto simp: map_of_eq_None_iff image_image)
    show ?thesis
    proof (cases "y = x")
      case True
      have "drive_map_inv ((pre @ post) @ replicate (9 - length (pre @ post)) 0)"
        using es by (intro drive_map_invI) (auto simp: split)
      moreover have "chain_drive ((pre @ post) @ replicate (9 - length (pre @ post)) 0) d = (if d = x then y else chain_drive m d)" for d
        unfolding chain_drive_lookup map_lookup_zeros [OF nz'] old using True gone by (simp del: map_append map_of_append)
      ultimately show ?thesis using md True by simp
    next
      case False
      have nz: "0 \<notin> set (pre @ e # post)" using nz' map_entry_nonzero [OF d] False by (auto simp: e_def)
      then have "drive_map_inv ((pre @ e # post) @ replicate (9 - length (pre @ e # post)) 0)"
        using es parts x by (intro drive_map_invI) (auto simp: split)
      moreover have "chain_drive ((pre @ e # post) @ replicate (9 - length (pre @ e # post)) 0) d = (if d = x then y else chain_drive m d)" for d
        unfolding chain_drive_lookup map_lookup_zeros [OF nz] old
        using map_of_replace [of x "map ?f pre" y "map ?f post"] out parts by (auto simp: image_image)
      ultimately show ?thesis using md False by simp
    qed
  qed
qed

lemma map_drives_maps_witness:
  "\<exists>m. map_drives 0x80 0x81 (replicate 9 0) = Some m \<and> chain_drive m 0x81 = 0x80 \<and> chain_drive m 0x80 = 0x80"
proof -
  have inv: "drive_map_inv (replicate 9 0)" using drive_map_invI [of "[]"] by simp
  have nine: "replicate 9 (0 :: 16 word) = 0 # replicate 8 0" by (simp flip: replicate_Suc)
  then have none: "chain_drive (replicate 9 0) d = d" and "map_lookup (replicate 9 0) = Map.empty" for d by (simp_all add: fun_eq_iff)
  then show ?thesis using map_drives_maps [OF inv, of "0x81" "0x80"] by (auto split: option.splits)
qed

section \<open>The commands behind the table\<close>

text \<open>What the commands need besides their arguments: the surroundings and what the user does.\<close>

record ('w, 't) cmd_args =
  ca_env :: "('w, 't) shell_env"
  ca_escape :: "nat \<Rightarrow> bool"
  ca_escape_end :: bool
  ca_entered :: "u8 list"
  ca_vbe_ok :: bool
  ca_md5 :: bool
  ca_md5_vars :: md5_vars
  ca_mbr_junk :: "u8 list"
  ca_var_buf :: "u8 list"
  ca_auto_mem :: bool
  ca_image :: image_env

text \<open>\<^verbatim>\<open>halt\<close>, \<^verbatim>\<open>reboot\<close> and \<^verbatim>\<open>quit\<close> do not return.\<close>

definition stop_func :: "('w, 't) command" where
  "stop_func arg fl s = Some Halted"

definition modelled_funcs :: "('w, 't) cmd_args \<Rightarrow> (string \<times> ('w, 't) command) list" where
  "modelled_funcs a =
    [(''boot'', boot_func (ca_vbe_ok a)),
     (''checkfile'', checkfile_command (ca_env a) (ca_escape a) (ca_escape_end a)),
     (''configfile'', configfile_func (ca_env a) (ca_escape a 0)),
     (''debug'', debug_func),
     (''default'', default_func),
     (''fallback'', fallback_func),
     (''fstest'', fstest_func),
     (''halt'', stop_func),
     (''hiddenmenu'', hiddenmenu_func),
     (''hide'', hide_func True (ca_env a)),
     (''initrd'', initrd_func (ca_env a) (ca_image a)),
     (''kernel'', kernel_func (ca_auto_mem a) (ca_env a) (ca_image a)),
     (''lock'', lock_func),
     (''makeactive'', makeactive_func (ca_env a) (ca_mbr_junk a)),
     (''map'', map_func),
     (''module'', module_func (ca_env a) (ca_image a)),
     (''modulenounzip'', modulenounzip_func (ca_env a) (ca_image a)),
     (''pager'', pager_func),
     (''partnew'', partnew_func (ca_env a) (ca_mbr_junk a)),
     (''parttype'', parttype_func (ca_env a)),
     (''password'', password_func (ca_md5 a) (ca_md5_vars a) (ca_entered a)),
     (''pause'', pause_func (ca_escape a 0)),
     (''quit'', stop_func),
     (''reboot'', stop_func),
     (''root'', real_root_func (ca_env a) True),
     (''rootnoverify'', real_root_func (ca_env a) False),
     (''set'', set_command (buffer_junk (ca_env a)) (ca_var_buf a)),
     (''sha1'', sha1_command (ca_env a) (ca_escape a)),
     (''timeout'', timeout_func),
     (''title'', title_func),
     (''unhide'', hide_func False (ca_env a)),
     (''uppermem'', uppermem_func)]"

text \<open>The other commands are given by \<open>others\<close>.\<close>

definition builtin_funcs :: "('w, 't) cmd_args \<Rightarrow> (string \<Rightarrow> ('w, 't) command) \<Rightarrow> string \<Rightarrow> ('w, 't) command" where
  "builtin_funcs a others n = (case map_of (modelled_funcs a) n of Some f \<Rightarrow> f | None \<Rightarrow> others n)"

section \<open>No command changes register 12\<close>

definition quiet_cmd :: "('t \<Rightarrow> u8 \<Rightarrow> u8 list) \<Rightarrow> ('w, 't) command \<Rightarrow> bool" where
  "quiet_cmd pcr f \<longleftrightarrow> (\<forall>arg fl s r s'. f arg fl s = Some (Closed (r, s')) \<longrightarrow> line_pcr pcr s' = line_pcr pcr s)"

lemma line_pcr_files: "same_pcr pcr 12 (files s) f \<Longrightarrow> line_pcr pcr (s\<lparr>files := f\<rparr>) = line_pcr pcr s"
  by (simp add: line_pcr_def same_pcr_def)

lemma cmd_set_device_pcr: "cmd_set_device arg s = Some (r, s') \<Longrightarrow> line_pcr pcr s' = line_pcr pcr s"
  by (auto simp: cmd_set_device_def)

lemma cmd_ok_conv [simp]: "cmd_ok s = Some (Closed (r, s')) \<longleftrightarrow> r = 0 \<and> s' = s"
  by (auto simp: cmd_ok_def)

lemma cmd_fail_conv [simp]: "cmd_fail e s = Some (Closed (r, s')) \<longleftrightarrow> r = 1 \<and> s' = set_serr e s"
  by (auto simp: cmd_fail_def)

lemma parse_arg_Some: "parse_arg arg s k = Some (Closed (r, s')) \<Longrightarrow>
    (\<exists>e. r = 1 \<and> s' = set_serr e s) \<or> (\<exists>arg' n. k arg' n = Some (Closed (r, s')))"
  by (auto simp: parse_arg_def split: bind_splits sum.splits)

lemma line_pcr_other [simp]:
  "line_pcr pcr (s\<lparr>kernel_type := a\<rparr>) = line_pcr pcr s" "line_pcr pcr (s\<lparr>bootdev := b\<rparr>) = line_pcr pcr s"
  "line_pcr pcr (s\<lparr>mb_cmdline := c\<rparr>) = line_pcr pcr s" "line_pcr pcr (s\<lparr>mb_buf := d\<rparr>) = line_pcr pcr s"
  "line_pcr pcr (s\<lparr>mem_upper := e\<rparr>) = line_pcr pcr s" "line_pcr pcr (s\<lparr>mbi_flags := f\<rparr>) = line_pcr pcr s"
  "line_pcr pcr (s\<lparr>use_pager := g\<rparr>) = line_pcr pcr s" "line_pcr pcr (s\<lparr>default_entry := h\<rparr>) = line_pcr pcr s"
  "line_pcr pcr (s\<lparr>fallback_entries := i\<rparr>) = line_pcr pcr s" "line_pcr pcr (s\<lparr>fallback_entryno := j\<rparr>) = line_pcr pcr s"
  "line_pcr pcr (s\<lparr>grub_timeout := k\<rparr>) = line_pcr pcr s" "line_pcr pcr (s\<lparr>show_menu := l\<rparr>) = line_pcr pcr s"
  "line_pcr pcr (s\<lparr>debug_mode := m\<rparr>) = line_pcr pcr s" "line_pcr pcr (s\<lparr>vars := v\<rparr>) = line_pcr pcr s"
  "line_pcr pcr (s\<lparr>password := p\<rparr>) = line_pcr pcr s" "line_pcr pcr (s\<lparr>password_type := q\<rparr>) = line_pcr pcr s"
  "line_pcr pcr (s\<lparr>bios_drive_map := r\<rparr>) = line_pcr pcr s"
  "line_pcr pcr (measure_on s) = line_pcr pcr s" "line_pcr pcr (set_no_decompression x s) = line_pcr pcr s"
  "line_pcr pcr (copy_mb_cmdline y s) = line_pcr pcr s"
  by (simp_all add: line_pcr_def measure_on_def set_no_decompression_def copy_mb_cmdline_def)

lemma quiet_simple:
  "quiet_cmd pcr (boot_func v)" "quiet_cmd pcr debug_func" "quiet_cmd pcr default_func" "quiet_cmd pcr fallback_func"
  "quiet_cmd pcr fstest_func" "quiet_cmd pcr stop_func" "quiet_cmd pcr hiddenmenu_func" "quiet_cmd pcr lock_func"
  "quiet_cmd pcr pager_func" "quiet_cmd pcr (password_func md5 vs entered)" "quiet_cmd pcr (pause_func esc)"
  "quiet_cmd pcr (set_command buf1 buf2)" "quiet_cmd pcr timeout_func" "quiet_cmd pcr title_func" "quiet_cmd pcr uppermem_func"
  unfolding quiet_cmd_def
  subgoal by (auto simp: boot_func_def split: kernel_t.splits if_splits)
  subgoal by (auto simp: debug_func_def)
  subgoal by (auto simp: default_func_def Option.bind_eq_Some_conv split: if_splits dest!: parse_arg_Some)
  subgoal by (auto simp: fallback_func_def split: bind_splits sum.splits if_splits)
  subgoal by (auto simp: fstest_func_def line_pcr_def)
  subgoal by (auto simp: stop_func_def)
  subgoal by (auto simp: hiddenmenu_func_def)
  subgoal by (auto simp: lock_func_def split: if_splits)
  subgoal by (auto simp: pager_func_def split: if_splits)
  subgoal by (auto simp: password_func_def Let_def Option.bind_eq_Some_conv split: if_splits)
  subgoal by (auto simp: pause_func_def)
  subgoal by (auto simp: set_command_def Option.bind_eq_Some_conv split: if_splits)
  subgoal by (auto simp: timeout_func_def dest!: parse_arg_Some)
  subgoal by (auto simp: title_func_def)
  subgoal by (auto simp: uppermem_func_def dest!: parse_arg_Some)
  done

lemma bind_Some: "Option.bind x f = Some y \<Longrightarrow> (\<And>z. x = Some z \<Longrightarrow> f z = Some y \<Longrightarrow> thesis) \<Longrightarrow> thesis"
  by (cases x) auto

lemma quiet_map: "quiet_cmd pcr map_func"
  unfolding quiet_cmd_def map_func_def Let_def
  by (auto split: if_splits option.splits elim!: bind_Some dest!: cmd_set_device_pcr [where pcr = pcr])

lemma quiet_device:
  "quiet_cmd pcr (hide_func h env)" "quiet_cmd pcr (makeactive_func env junk)"
  "quiet_cmd pcr (partnew_func env mbr)" "quiet_cmd pcr (parttype_func env)"
  unfolding quiet_cmd_def
  subgoal by (auto simp: hide_func_def split: option.splits elim!: bind_Some dest!: cmd_set_device_pcr [where pcr = pcr])
  subgoal by (auto simp: makeactive_func_def elim!: bind_Some)
  subgoal by (auto simp: partnew_func_def Let_def split: if_splits elim!: bind_Some dest!: parse_arg_Some cmd_set_device_pcr [where pcr = pcr])
  subgoal by (auto simp: parttype_func_def Let_def split: if_splits elim!: bind_Some dest!: parse_arg_Some cmd_set_device_pcr [where pcr = pcr])
  done

lemma quiet_root: "quiet_cmd pcr (real_root_func env mnt)"
  unfolding quiet_cmd_def real_root_func_def Let_def
  by (auto split: if_splits option.splits elim!: bind_Some dest!: cmd_set_device_pcr [where pcr = pcr])

lemma quiet_loaders:
  assumes env: "env_keeps_tcg (file_env_of env)" and bios: "tcg_bios (int1a_of (file_env_of env)) pcr"
  shows "quiet_cmd pcr (kernel_func am env ie)" "quiet_cmd pcr (module_func env ie)" "quiet_cmd pcr (modulenounzip_func env ie)"
    "quiet_cmd pcr (initrd_func env ie)"
proof -
  have n: "(12 :: u8) \<noteq> 14" by simp
  note loaders = load_image_pcr [OF env bios n, folded line_pcr_def] load_module_pcr [OF env bios n, folded line_pcr_def]
    load_initrd_pcr [OF env bios n, folded line_pcr_def]
  show "quiet_cmd pcr (kernel_func am env ie)" unfolding quiet_cmd_def
    by (auto simp: kernel_func_def Let_def if_closed_Some split: bind_splits option.splits if_splits dest!: loaders)
  show module: "quiet_cmd pcr (module_func env ie)" unfolding quiet_cmd_def
    by (auto simp: module_func_def Let_def if_closed_Some split: bind_splits kernel_t.splits if_splits dest!: loaders)
  show "quiet_cmd pcr (modulenounzip_func env ie)" unfolding quiet_cmd_def
  proof (intro allI impI)
    fix arg fl s r s' assume "modulenounzip_func env ie arg fl s = Some (Closed (r, s'))"
    then obtain s1 where "module_func env ie arg fl (set_no_decompression True s) = Some (Closed (r, s1))" "s' = set_no_decompression False s1"
      by (auto simp: modulenounzip_func_def if_closed_Some Option.bind_eq_Some_conv)
    then show "line_pcr pcr s' = line_pcr pcr s" using module [unfolded quiet_cmd_def] by fastforce
  qed
  show "quiet_cmd pcr (initrd_func env ie)" unfolding quiet_cmd_def
    by (auto simp: initrd_func_def Let_def if_closed_Some split: bind_splits if_splits dest!: loaders)
qed

lemma quiet_files:
  assumes env: "env_keeps_tcg (file_env_of env)" and bios: "tcg_bios (int1a_of (file_env_of env)) pcr" and junk: "length (hash_junk (junk_of env)) = 5"
  shows "quiet_cmd pcr (checkfile_command env e1 e2)" "quiet_cmd pcr (configfile_func env e3)" "quiet_cmd pcr (sha1_command env e1)"
proof -
  have n: "(12 :: u8) \<noteq> 14" "(12 :: u8) \<noteq> 13" by simp_all
  show "quiet_cmd pcr (checkfile_command env e1 e2)" unfolding quiet_cmd_def
    by (auto simp: checkfile_command_def checkfile_func_def if_closed_Some Option.bind_eq_Some_conv split: if_splits
        intro!: line_pcr_files dest!: load_checkfile_same [OF env bios n junk])
  show "quiet_cmd pcr (sha1_command env e1)" unfolding quiet_cmd_def
    by (auto simp: sha1_command_def sha1_func_def if_closed_Some Option.bind_eq_Some_conv split: if_splits
        intro!: line_pcr_files dest!: calculate_sha1_same [OF env bios n(1)])
  show "quiet_cmd pcr (configfile_func env e3)" unfolding quiet_cmd_def
    by (auto simp: configfile_func_def configfile_restart_def Let_def if_closed_Some Option.bind_eq_Some_conv split: if_splits
        intro!: line_pcr_files same_pcrI dest!: grub_open_tcg [OF env])
qed

text \<open>The table made of these commands fulfils the contract of the command line.\<close>

lemma builtin_funcs_quiet:
  assumes env: "env_keeps_tcg (file_env_of (ca_env a))" and bios: "tcg_bios (int1a_of (file_env_of (ca_env a))) pcr"
    and junk: "length (hash_junk (junk_of (ca_env a))) = 5" and others: "\<And>n. quiet_cmd pcr (others n)"
  shows "quiet_cmd pcr (builtin_funcs a others n)"
proof -
  have "\<forall>(k, f) \<in> set (modelled_funcs a). quiet_cmd pcr f"
    unfolding modelled_funcs_def
    by (simp add: quiet_simple quiet_map quiet_device quiet_root quiet_files [OF env bios junk] quiet_loaders [OF env bios])
  then show ?thesis using others by (auto simp: builtin_funcs_def split: option.splits dest!: map_of_SomeD)
qed

text \<open>The surroundings in which the contract holds.\<close>

definition shell_ok :: "('t \<Rightarrow> u8 \<Rightarrow> u8 list) \<Rightarrow> ('w, 't) cmd_args \<Rightarrow> (string \<Rightarrow> ('w, 't) command) \<Rightarrow> bool" where
  "shell_ok pcr a others \<longleftrightarrow>
     (let env = ca_env a; fenv = file_env_of env
      in tcg_bios (int1a_of fenv) pcr \<and> tpm_present fenv = 0 \<and> env_keeps_tcg fenv
         \<and> length (buffer (ctx_junk (junk_of env))) = 64 \<and> length (hash_junk (junk_of env)) = 5
         \<and> length (buffer_junk env) = 1000 \<and> length (dump_junk env) = 700 \<and> (\<forall>n. quiet_cmd pcr (others n)))"

lemma builtin_shell:
  assumes ok: "shell_ok pcr a others"
  shows "measured_shell (int1a_of (file_env_of (ca_env a))) pcr (ca_env a) (builtin_table cfg (builtin_funcs a others))"
proof -
  note ok' = ok [unfolded shell_ok_def Let_def]
  have quiet: "quiet_cmd pcr (builtin_funcs a others n)" for n using ok' by (intro builtin_funcs_quiet) auto
  have row: "\<exists>n. cmd_name b = ascii n \<and> func b = builtin_funcs a others n \<and> 0 \<notin> set (ascii n)"
    if "b \<in> set (builtin_table cfg (builtin_funcs a others))" for b
    using that rows_nonzero [of cfg] by (auto simp: builtin_table_def)
  have boot: "builtin_funcs a others ''boot'' = boot_func (ca_vbe_ok a)" by (simp add: builtin_funcs_def modelled_funcs_def)
  show ?thesis
  proof (rule measured_shell.intro)
    show "tcg_bios (int1a_of (file_env_of (ca_env a))) pcr" using ok' by simp
    show "measured_shell_axioms (int1a_of (file_env_of (ca_env a))) pcr (ca_env a) (builtin_table cfg (builtin_funcs a others))"
    proof (rule measured_shell_axioms.intro)
      fix b arg fl s r s'
      assume b: "b \<in> set (builtin_table cfg (builtin_funcs a others))"
      show "0 \<notin> set (cmd_name b)" using row [OF b] by auto
      assume run: "func b arg fl s = Some (Closed (r, s'))"
      show "line_pcr pcr s' = line_pcr pcr s" using row [OF b] quiet run unfolding quiet_cmd_def by metis
      assume "cmd_name b = ascii ''boot''"
      then have "boot_func (ca_vbe_ok a) arg fl s = Some (Closed (r, s'))" using row [OF b] run boot by auto
      then show "serr s' \<noteq> ERR_NONE" by (auto simp: boot_func_def split: kernel_t.splits if_splits)
    qed (use ok' in simp_all)
  qed
qed

section \<open>Partition entries\<close>

text \<open>What \<^verbatim>\<open>partnew\<close> stores in a sector.\<close>

lemma le32_parts_le32: "le32 (pre @ le32_parts n @ post) (length pre) = n"
proof -
  have p: "le32_parts n = [ucast n, ucast (drop_bit 8 n), ucast (drop_bit 16 n), ucast (drop_bit 24 n)]"
    by (simp add: le32_parts_def eval_nat_numeral)
  have "le32 (le32_parts n @ post) 0 = le32 (le32_parts n) 0" by (simp add: le32_def p)
  then show ?thesis by (simp add: le32_shift p le32_bytes)
qed

lemma new_entry_length: "new_entry g type start len = Some e \<Longrightarrow> length e = 16"
  by (auto simp: new_entry_def le32_parts_def Option.bind_eq_Some_conv)

text \<open>
  A new partition, from its entry and the sector that is read: the sector that \<^verbatim>\<open>partnew\<close> writes has a valid signature; the entry of the partition has the type, the start and the
  length of the command and is not active, and the three other entries are the old ones.
\<close>

lemma partnew_sector:
  assumes mbr: "length mbr = 512" and e: "new_entry g type start len = Some e" and i: "i < 4" and type: "type \<le> 0xFF"
  defines "mbr' \<equiv> store_entry mbr i e"
  shows "PC_MBR_CHECK_SIG mbr' \<and> PC_SLICE_FLAG mbr' i = 0 \<and> ucast (PC_SLICE_TYPE mbr' i) = type
    \<and> PC_SLICE_START mbr' i = start \<and> PC_SLICE_LENGTH mbr' i = len
    \<and> (\<forall>j < 4. j \<noteq> i \<longrightarrow> take 16 (drop (446 + 16 * j) mbr') = take 16 (drop (446 + 16 * j) mbr))"
proof -
  define k where "k = 446 + 16 * i"
  have k: "k + 16 \<le> 510" using i by (simp add: k_def)
  note len16 = new_entry_length [OF e]
  obtain h where h: "e = h @ le32_parts start @ le32_parts len" "length h = 8" "h ! 0 = 0" "h ! 4 = ucast type"
    using e by (auto simp: new_entry_def Option.bind_eq_Some_conv)
  have mbr': "mbr' ! n = (if n = 511 then 0xaa else if n = 510 then 0x55 else if k \<le> n \<and> n < k + 16 then e ! (n - k) else mbr ! n)"
    if "n < 512" for n
    using that mbr len16 k unfolding mbr'_def store_entry_def k_def [symmetric] by (simp add: nth_list_update overlay_nth)
  have len': "length mbr' = 512" using mbr len16 k by (simp add: mbr'_def store_entry_def k_def)
  have sig: "PC_MBR_CHECK_SIG mbr'" by (simp add: PC_MBR_CHECK_SIG_def le16_def mbr')
  have at: "mbr' ! (k + n) = e ! n" if "n < 16" for n using that k by (simp add: mbr')
  have le: "le32 mbr' (k + n) = le32 e n" if "n + 4 \<le> 16" for n
    using that at [of n] at [of "n + 1"] at [of "n + 2"] at [of "n + 3"] by (simp add: le32_def add.assoc)
  have "PC_SLICE_FLAG mbr' i = 0" using at [of 0] h by (simp add: PC_SLICE_FLAG_def k_def nth_append)
  moreover have "PC_SLICE_TYPE mbr' i = ucast type" using at [of 4] h by (simp add: PC_SLICE_TYPE_def k_def nth_append add.commute add.left_commute)
  moreover have "(ucast (ucast type :: u8) :: u32) = type"
  proof -
    have "type < 256" using type by (simp add: word_le_nat_alt word_less_nat_alt)
    then show ?thesis by (intro bit_word_eqI) (auto simp: bit_simps dest: bit_small)
  qed
  moreover have "PC_SLICE_START mbr' i = start"
    using le [of 8] le32_parts_le32 [of h start "le32_parts len"] h by (simp add: PC_SLICE_START_def k_def add.commute add.left_commute)
  moreover have "PC_SLICE_LENGTH mbr' i = len"
    using le [of 12] le32_parts_le32 [of "h @ le32_parts start" len "[]"] h
    by (simp add: PC_SLICE_LENGTH_def k_def le32_parts_def add.commute add.left_commute)
  moreover have "take 16 (drop (446 + 16 * j) mbr') = take 16 (drop (446 + 16 * j) mbr)" if "j < 4" "j \<noteq> i" for j
  proof (rule nth_equalityI)
    fix n assume n: "n < length (take 16 (drop (446 + 16 * j) mbr'))"
    then have "446 + 16 * j + n < 510" "\<not> (k \<le> 446 + 16 * j + n \<and> 446 + 16 * j + n < k + 16)"
      using that i len' by (auto simp: k_def)
    then have "mbr' ! (446 + 16 * j + n) = mbr ! (446 + 16 * j + n)" using mbr' [of "446 + 16 * j + n"] by (auto split: if_splits)
    then show "take 16 (drop (446 + 16 * j) mbr') ! n = take 16 (drop (446 + 16 * j) mbr) ! n" using n len' mbr that by simp
  qed (use len' mbr in simp)
  ultimately show ?thesis using sig by auto
qed

lemma partnew_sector_witness:
  "\<exists>e. new_entry \<lparr>cylinders = 1024, heads = 255, sectors = 63, total_sectors = 16450560, sector_size = 512, lba_flag = True, cdrom_flag = False\<rparr> 0x83 63 1000 = Some e
     \<and> PC_SLICE_START (store_entry (replicate 512 0) 1 e) 1 = 63"
proof -
  define mbr :: "u8 list" where "mbr = replicate 512 0"
  obtain e where e: "new_entry \<lparr>cylinders = 1024, heads = 255, sectors = 63, total_sectors = 16450560, sector_size = 512, lba_flag = True, cdrom_flag = False\<rparr> 0x83 63 1000 = Some e"
    by (simp add: new_entry_def lba_to_chs_def Let_def)
  have "length mbr = 512" by (simp add: mbr_def)
  from partnew_sector [OF this e, of 1] show ?thesis using e unfolding mbr_def [symmetric] by auto
qed

section \<open>Repeated fallback entries\<close>

text \<open>
  An entry that is in the list already makes the command fail if another one follows, although it is only meant to be left out: the argument
  still points behind the number, and a space is not a number.
\<close>

lemma fallback_repeated:
  assumes "length (fallback_entries s) = 8"
  shows "fallback_func (ascii ''1 1 2'') fl s = Some (Closed (1, set_serr ERR_NUMBER_PARSING (s\<lparr>fallback_entries := (fallback_entries s)[0 := 1]\<rparr>)))"
proof -
  have p: "safe_parse_maxint (ascii ''1 1 2'' @ [0]) = Some (Inr (ascii '' 1 2'' @ [0], 1))"
    "safe_parse_maxint (ascii ''1 2'' @ [0]) = Some (Inr (ascii '' 2'' @ [0], 1))"
    "safe_parse_maxint (ascii '' 2'' @ [0]) = Some (Inl ERR_NUMBER_PARSING)"
    by code_simp+
  have a: "takeWhile (\<lambda>c. c \<noteq> 0) (ascii '' 1 2'' @ [0]) = ascii '' 1 2''" "takeWhile (\<lambda>c. c \<noteq> 0) (ascii '' 2'' @ [0]) = ascii '' 2''"
    "skip_to False (ascii '' 1 2'') = ascii ''1 2''" "ascii ''1 1 2'' \<noteq> []" "ascii ''1 2'' \<noteq> []" "ascii '' 2'' \<noteq> []"
    by (simp_all add: ascii_def skip_to_def)
  have one: "1 \<in> set (take (Suc 0) ((fallback_entries s)[0 := 1]))" using assms by (cases "fallback_entries s") auto
  have "fallback_loop (ascii ''1 1 2'') 0 (fallback_entries s) = fallback_loop (ascii ''1 2'') (Suc 0) ((fallback_entries s)[0 := 1])"
    by (subst fallback_loop.simps) (simp add: p a MAX_FALLBACK_ENTRIES_def)
  also have "\<dots> = fallback_loop (ascii '' 2'') (Suc 0) ((fallback_entries s)[0 := 1])"
    using one by (subst fallback_loop.simps) (simp add: p a)
  also have "\<dots> = Some (Inl (ERR_NUMBER_PARSING, (fallback_entries s)[0 := 1]))" by (subst fallback_loop.simps) (simp add: p a)
  finally show ?thesis by (simp add: fallback_func_def)
qed

end
