(* ===== verification/Machine.thy ===== *)
theory Machine
  imports Booted Commands IsoLookup
begin

unbundle bit_operations_syntax

text \<open>
  The command line on a machine with a CD-ROM in memory and a TPM in software: the table of commands with the modelled ones interprets \<open>measured_shell\<close>.
\<close>

section \<open>Scripts with the commands of the table\<close>

text \<open>Whatever a script runs, register 12 is extended by its lines.\<close>

lemma run_script_pcr:
  assumes ok: "shell_ok pcr a others" and len: "length script < 2 ^ 32"
    and run: "run_script (ca_env a) (builtin_table cfg (builtin_funcs a others)) script s = Some (Closed (r, s'))"
  shows "\<exists>ls. line_pcr pcr s' = extend_lines (line_pcr pcr s) ls
    \<and> (if r = 0 then ls = script_lines script 0 else prefix ls (script_lines script 0 @ [ascii ''boot'']))"
proof -
  obtain s0 where s0: "init_cmdline (ca_env a) s = Some s0"
      "run_loop (ca_env a) (builtin_table cfg (builtin_funcs a others)) script 0 s0 = Some (Closed (r, s'))"
    using run by (auto simp: run_script_def Option.bind_eq_Some_conv)
  show ?thesis using measured_shell.run_loop_measures [OF builtin_shell [OF ok] s0(2) len] init_cmdline_pcr [OF s0(1)] by auto
qed

lemma run_script_guarded:
  fixes cfg :: build_config and s :: "('w, 't) shell"
  assumes ok: "shell_ok pcr a others" and len: "length script < 2 ^ 32"
  defines "table \<equiv> builtin_table cfg (builtin_funcs a others)"
  shows "run_script (ca_env a) (map (measured_before pcr (ca_env a) table (line_pcr pcr s) (script_lines script 0 @ [ascii ''boot''])) table) script s
    = run_script (ca_env a) table script s"
proof (cases "init_cmdline (ca_env a) s")
  case (Some s0)
  have "line_pcr pcr s0 = extend_lines (line_pcr pcr s) []" using init_cmdline_pcr [OF Some] by simp
  then show ?thesis
    using measured_shell.run_loop_measured_before [OF builtin_shell [OF ok] len, of s0 "line_pcr pcr s" "[]" 0] Some by (simp add: run_script_def table_def)
qed (simp add: run_script_def)

section \<open>The contract of the commands on the CD-ROM\<close>

text \<open>The command line on the machine with the CD-ROM in memory and the TPM in software.\<close>

definition cd_args :: "(u8 list, soft_pcrs) cmd_args" where
  "cd_args = \<lparr>ca_env = cd_shell_env, ca_escape = (\<lambda>_. False), ca_escape_end = False, ca_entered = [], ca_vbe_ok = True, ca_md5 = True,
     ca_md5_vars = \<lparr>state = replicate 4 0, length_counter = 0, md5_buffer = replicate 64 0\<rparr>, ca_mbr_junk = replicate 512 0,
     ca_var_buf = replicate 1500 0, ca_auto_mem = True, ca_image = cd_image_env\<rparr>"

lemma cd_shell_ok: "shell_ok soft_pcr cd_args (\<lambda>_. stop_func)"
proof -
  have env: "env_keeps_tcg cd_env" unfolding cd_env_def by (rule gunzip_env_tcg) (simp add: env_keeps_tcg_def keeps_def cd_base_def)
  have int1a: "int1a_of cd_env = soft_int1a" "tpm_present cd_env = 0" by (simp_all add: cd_env_def gunzip_env_def cd_base_def)
  show ?thesis using env int1a soft_tpm.tcg_bios_axioms by (simp add: shell_ok_def cd_args_def cd_shell_env_def vol_junk_def blank_context_def quiet_simple)
qed

interpretation cdsh: measured_shell soft_int1a soft_pcr cd_shell_env "builtin_table cfg (builtin_funcs cd_args (\<lambda>_. stop_func))" for cfg
  using builtin_shell [OF cd_shell_ok, of cfg] by (simp add: cd_args_def cd_shell_env_def cd_env_def gunzip_env_def cd_base_def)

definition cd_config :: build_config where
  "cd_config = \<lparr>SUPPORT_NETBOOT = False, GRUB_UTIL = False, USE_MD5_PASSWORDS = True, SUPPORT_SERIAL = True, SUPPORT_HERCULES = True\<rparr>"

abbreviation cd_table :: "(u8 list, soft_pcrs) builtin list" where
  "cd_table \<equiv> builtin_table cd_config (builtin_funcs cd_args (\<lambda>_. stop_func))"

definition cd_shell :: "(u8 list, soft_pcrs) shell" where
  "cd_shell = blank_shell (cd_file 1 [] 0 0)"

text \<open>A script with the line \<^verbatim>\<open>debug\<close>.\<close>

lemma cd_init: "\<exists>s. init_cmdline cd_shell_env cd_shell = Some s \<and> serr s = ERR_NONE \<and> kernel_type s = KERNEL_TYPE_NONE \<and> perform_sha1 (files s)
    \<and> auth s = auth cd_shell \<and> password s = password cd_shell"
  by (simp add: init_cmdline_def init_builtins_def Let_def set_bootdev_def set_dev_def set_err_def cd_shell_def blank_shell_def cd_file_def cd_device_def)

lemma debug_word: "command_word (ascii ''debug'') = ascii ''debug''" "ascii ''debug'' \<noteq> []" "0x24 \<notin> set (ascii ''debug'')" "length (ascii ''debug'') = 5"
  by (simp_all add: command_word_def ascii_def)

definition debug_cmd :: "(u8 list, soft_pcrs) builtin" where
  "debug_cmd = \<lparr>cmd_name = ascii ''debug'', func = debug_func, cmd_flags = 1\<rparr>"

lemma debug_row: "seek_builtin cd_table (command_word (ascii ''debug'')) = Some (Some debug_cmd)"
proof -
  have "(True, ''debug'', 1) \<in> set (builtin_rows cd_config)" by (simp add: builtin_rows_def)
  moreover have "builtin_funcs cd_args (\<lambda>_. stop_func) ''debug'' = debug_func" by (simp add: builtin_funcs_def modelled_funcs_def)
  ultimately show ?thesis
    using seek_row [of "''debug''" 1 cd_config "builtin_funcs cd_args (\<lambda>_. stop_func)"] by (simp add: debug_word(1) debug_cmd_def)
qed

lemma debug_script: "c_string (ascii ''debug'' @ [0, 0]) 0 = Some (ascii ''debug'')" "c_string (ascii ''debug'' @ [0, 0]) 6 = Some []"
  "script_lines (ascii ''debug'' @ [0, 0]) 0 = [ascii ''debug'']"
proof -
  show 1: "c_string (ascii ''debug'' @ [0, 0]) 0 = Some (ascii ''debug'')" and 2: "c_string (ascii ''debug'' @ [0, 0]) 6 = Some []"
    by (simp_all add: c_string_def string_at_def ascii_def)
  have "ascii ''debug'' = of_char (CHR ''d'') # ascii ''ebug''" by (simp add: ascii_def)
  then show "script_lines (ascii ''debug'' @ [0, 0]) 0 = [ascii ''debug'']"
    using 1 2 debug_word(4) by (simp add: script_lines.simps [of _ 0] script_lines.simps [of _ 6])
qed

lemma run_debug_script:
  assumes s: "init_cmdline cd_shell_env s0 = Some s" "serr s = ERR_NONE" "kernel_type s = KERNEL_TYPE_NONE"
    and script: "c_string script 0 = Some (ascii ''debug'')" "c_string script 6 = Some []"
  shows "\<exists>s'. run_script cd_shell_env cd_table script s0 = Some (Closed (0, s'))"
proof -
  have len: "length (ascii ''debug'') < 700" and fl: "cmd_flags debug_cmd AND BUILTIN_CMDLINE \<noteq> 0"
    by (simp_all add: debug_word BUILTIN_CMDLINE_def debug_cmd_def)
  obtain t where "let s1 = forget_buffer (s\<lparr>files := (files s)\<lparr>tcg := t\<rparr>\<rparr>)
    in line_pcr soft_pcr s1 = tpm_extend (line_pcr soft_pcr s) (digest_bytes (fips_sha1 (ascii ''debug'')))
       \<and> run_loop cd_shell_env cd_table script 0 s = Option.bind (func debug_cmd (skip_to True (ascii ''debug'')) BUILTIN_SCRIPT s1) (\<lambda>res.
           if_closed res (\<lambda>(_, s2). run_loop cd_shell_env cd_table script (0 + length (ascii ''debug'') + 1) s2))"
    using cdsh.run_plain [OF s(2) script(1) debug_word(2,3) len debug_row fl] by blast
  then have t: "run_loop cd_shell_env cd_table script 0 s =
      Option.bind (debug_func (skip_to True (ascii ''debug'')) BUILTIN_SCRIPT (forget_buffer (s\<lparr>files := (files s)\<lparr>tcg := t\<rparr>\<rparr>)))
        (\<lambda>res. if_closed res (\<lambda>(_, s2). run_loop cd_shell_env cd_table script 6 s2))"
    by (simp add: Let_def debug_word(4) debug_cmd_def)
  define s1 where "s1 = (forget_buffer (s\<lparr>files := (files s)\<lparr>tcg := t\<rparr>\<rparr>))\<lparr>debug_mode := \<not> debug_mode s\<rparr>"
  have s1: "serr s1 = ERR_NONE" "kernel_type s1 = KERNEL_TYPE_NONE" using s by (simp_all add: s1_def forget_buffer_def set_dev_def)
  have "run_loop cd_shell_env cd_table script 0 s = run_loop cd_shell_env cd_table script 6 s1"
    unfolding t by (simp add: debug_func_def cmd_ok_def s1_def forget_buffer_def set_dev_def)
  also have "\<dots> = Some (Closed (0, s1))" using s1 script(2) by (subst run_loop.simps) (simp add: print_error_def)
  finally show ?thesis using s(1) by (simp add: run_script_def)
qed

lemma run_debug: "\<exists>s'. run_script cd_shell_env cd_table (ascii ''debug'' @ [0, 0]) cd_shell = Some (Closed (0, s'))"
proof -
  obtain s where "init_cmdline cd_shell_env cd_shell = Some s" "serr s = ERR_NONE" "kernel_type s = KERNEL_TYPE_NONE" using cd_init by blast
  then show ?thesis using debug_script(1,2) by (rule run_debug_script)
qed

end
