(* ===== verification/Config.thy ===== *)
theory Config
  imports Machine
begin

unbundle bit_operations_syntax

text \<open>
  The configuration file: \<open>get_line_from_config\<close> and the part of \<open>cmain\<close> (\<^verbatim>\<open>stage2.c\<close>) that reads the saved default entry, loads the entries of the menu
  and checks the fallback entries. The lines of a file are compared with its text, the strings in memory with the list of the entries they stand for, and
  the whole file is shown to be measured. A preset menu is not modelled.
\<close>

section \<open>Lines of the configuration\<close>

definition NEW_HEAPSIZE :: nat where "NEW_HEAPSIZE = 1500"

text \<open>The variables of \<open>get_line_from_config\<close>: the line up to \<open>pos\<close>, and the two flags.\<close>

record line_state =
  cmdline :: "u8 list"
  literal :: bool
  comment :: bool

definition blank_line :: line_state where
  "blank_line = \<lparr>cmdline = [], literal = False, comment = False\<rparr>"

text \<open>One character: whether the line ends with it, and the variables afterwards.\<close>

definition line_step :: "nat \<Rightarrow> u8 \<Rightarrow> line_state \<Rightarrow> bool \<times> line_state" where
  "line_step maxlen c st =
     (if c = 0xd then (False, st)
      else let c1 = (if c = 9 then 0x20 else c);
               join = literal st \<and> c1 = 0xa;
               c2 = (if join then 0x20 else c1);
               line = (if join then butlast (cmdline st) else cmdline st);
               st' = st\<lparr>cmdline := line, literal := (c2 = 0x5c)\<rparr>
           in if comment st then (False, st'\<lparr>comment := (c2 \<noteq> 0xa)\<rparr>)
              else if line = [] then
                (False, if c2 = 0x23 then st'\<lparr>comment := True\<rparr>
                        else if c2 \<noteq> 0x20 \<and> c2 \<noteq> 0xa then st'\<lparr>cmdline := [c2]\<rparr> else st')
              else if c2 = 0xa then (True, st')
              else (False, if length line < maxlen then st'\<lparr>cmdline := line @ [c2]\<rparr> else st'))"

text \<open>\<open>get_line_from_config\<close> on the open file, in a build without a preset menu. A file whose reads never end never ends the line.\<close>

partial_function (option) get_line :: "('w, 't) file_env \<Rightarrow> nat \<Rightarrow> line_state \<Rightarrow> ('w, 't) file_state \<Rightarrow> (u8 list \<times> ('w, 't) file_state) option" where
  "get_line env maxlen st f =
     Option.bind (grub_read env [0] 1 f) (\<lambda>(n, buf, f1).
       if n = 0 then Some (cmdline st, f1)
       else let (done, st') = line_step maxlen (hd buf) st
            in if done then Some (cmdline st', f1) else get_line env maxlen st' f1)"

definition get_line_from_config :: "('w, 't) file_env \<Rightarrow> nat \<Rightarrow> ('w, 't) file_state \<Rightarrow> (u8 list \<times> ('w, 't) file_state) option" where
  "get_line_from_config env maxlen f = get_line env maxlen blank_line f"

section \<open>Menu entries\<close>

definition MENU_BUFLEN :: nat where "MENU_BUFLEN = 17760"

text \<open>
  The configuration while it is read: the strings of the entries up to \<open>config_len\<close>, the titles up to \<open>menu_len\<close>, the number of entries, the
  state and the lengths at the end of the last entry.
\<close>

record config_state =
  config_entries :: "u8 list"
  menu_entries :: "u8 list"
  num_entries :: nat
  cfg_state :: nat
  prev_config_len :: nat
  prev_menu_len :: nat

definition blank_config :: config_state where
  "blank_config = \<lparr>config_entries = [], menu_entries = [], num_entries = 0, cfg_state = 0, prev_config_len = 0, prev_menu_len = 0\<rparr>"

definition add_title :: "u8 list \<Rightarrow> config_state \<Rightarrow> config_state option" where
  "add_title cmd c =
     (let c1 = (if 1 < cfg_state c
                then c\<lparr>num_entries := num_entries c + 1, config_entries := config_entries c @ [0],
                       prev_menu_len := length (menu_entries c), prev_config_len := length (config_entries c) + 1\<rparr>
                else c\<lparr>menu_entries := take (prev_menu_len c) (menu_entries c), config_entries := take (prev_config_len c) (config_entries c)\<rparr>);
          menu = menu_entries c1 @ skip_to True cmd @ [0]
      in if length menu \<le> MENU_BUFLEN then Some (c1\<lparr>cfg_state := 1, menu_entries := menu\<rparr>) else None)"

text \<open>A line of the configuration. The error code of a command is dropped.\<close>

definition config_line :: "('w, 't) builtin list \<Rightarrow> u8 list \<Rightarrow> config_state \<Rightarrow> ('w, 't) shell
    \<Rightarrow> (config_state \<times> ('w, 't) shell) close_result option" where
  "config_line table cmd c s =
     do { (b, s1) \<leftarrow> find_command table cmd s;
          let s2 = set_serr ERR_NONE s1;
          case b of
            None \<Rightarrow> Some (Closed (c, s2))
          | Some b \<Rightarrow>
              if cmd_flags b AND BUILTIN_TITLE \<noteq> 0 then do { c' \<leftarrow> add_title cmd c; Some (Closed (c', s2)) }
              else if cfg_state c = 0
              then if cmd_flags b AND BUILTIN_MENU \<noteq> 0
                   then do { res \<leftarrow> func b (skip_to True cmd) BUILTIN_MENU s2;
                             if_closed res (\<lambda>(_, s3). Some (Closed (c, set_serr ERR_NONE s3))) }
                   else Some (Closed (c, s2))
              else Some (Closed (c\<lparr>cfg_state := cfg_state c + 1, config_entries := config_entries c @ cmd @ [0]\<rparr>, s2)) }"

lemma if_closed_mono [partial_function_mono]:
  assumes "\<And>x. mono_option (\<lambda>f. B f x)"
  shows "mono_option (\<lambda>f. if_closed res (B f))"
  using assms by (cases res) (auto simp: monotone_def fun_ord_def flat_ord_def)

partial_function (option) config_loop :: "('w, 't) shell_env \<Rightarrow> ('w, 't) builtin list \<Rightarrow> config_state \<Rightarrow> ('w, 't) shell
    \<Rightarrow> (config_state \<times> ('w, 't) shell) close_result option" where
  "config_loop env table c s =
     Option.bind (get_line_from_config (file_env_of env) NEW_HEAPSIZE (files s)) (\<lambda>(line, f).
       if line = [] then Some (Closed (c, s\<lparr>files := f\<rparr>))
       else Option.bind (config_line table (takeWhile (\<lambda>x. x \<noteq> 0) line) c (s\<lparr>files := f\<rparr>)) (\<lambda>res.
         if_closed res (\<lambda>(c', s'). config_loop env table c' s')))"

text \<open>After the last line.\<close>

definition end_config :: "config_state \<Rightarrow> config_state" where
  "end_config c =
     (let c1 = (if 1 < cfg_state c then c\<lparr>num_entries := num_entries c + 1, config_entries := config_entries c @ [0]\<rparr>
                else c\<lparr>menu_entries := take (prev_menu_len c) (menu_entries c), config_entries := take (prev_config_len c) (config_entries c)\<rparr>)
      in c1\<lparr>menu_entries := menu_entries c1 @ [0], config_entries := config_entries c1 @ [0]\<rparr>)"

text \<open>
  The check of the fallback entries against the number of entries. \<open>grub_memmove\<close> moves the entries behind an invalid one and leaves the last one where it is;
  the index is that of the loop after its increment.
\<close>

partial_function (option) valid_fallbacks :: "int \<Rightarrow> nat \<Rightarrow> u32 list \<Rightarrow> u32 list option" where
  "valid_fallbacks n i es =
     (if MAX_FALLBACK_ENTRIES \<le> i \<or> sint (es ! i) < 0 then Some es
      else if n \<le> sint (es ! i) then valid_fallbacks n i (overlay es i (take (MAX_FALLBACK_ENTRIES - i - 1) (drop (i + 1) es)))
      else valid_fallbacks n (i + 1) es)"

definition next_fallback :: "u32 list \<Rightarrow> int \<Rightarrow> int" where
  "next_fallback es k = (if int MAX_FALLBACK_ENTRIES \<le> k + 1 \<or> sint (es ! nat (k + 1)) < 0 then -1 else k + 1)"

definition check_fallbacks :: "nat \<Rightarrow> ('w, 't) shell \<Rightarrow> ('w, 't) shell option" where
  "check_fallbacks n s =
     (if fallback_entryno s < 0 then Some s
      else do { es \<leftarrow> valid_fallbacks (int n) 0 (fallback_entries s);
                Some (s\<lparr>fallback_entries := es, fallback_entryno := (if sint (es ! 0) < 0 then -1 else fallback_entryno s)\<rparr>) })"

definition check_default :: "nat \<Rightarrow> ('w, 't) shell \<Rightarrow> ('w, 't) shell" where
  "check_default n s =
     (if sint (default_entry s) < int n then s
      else if 0 \<le> fallback_entryno s
      then s\<lparr>default_entry := fallback_entries s ! 0, fallback_entryno := next_fallback (fallback_entries s) (fallback_entryno s)\<rparr>
      else s\<lparr>default_entry := 0\<rparr>)"

text \<open>
  The configuration file; none if it cannot be opened. \<open>escape\<close> is a key press when it is closed. If the last read has failed, the error code is still
  set when \<open>grub_memmove\<close> should move the titles behind the entries, and nothing is moved: then there is no defined result. The memory of the entries
  is taken to be there.
\<close>

definition reset_config :: "('w, 't) shell \<Rightarrow> ('w, 't) shell" where
  "reset_config s = init_config (s\<lparr>count_lines := -1\<rparr>)"

definition load_config :: "('w, 't) shell_env \<Rightarrow> ('w, 't) builtin list \<Rightarrow> bool \<Rightarrow> ('w, 't) shell
    \<Rightarrow> (config_state option \<times> ('w, 't) shell) close_result option" where
  "load_config env table escape s =
     do { (ok, f) \<leftarrow> grub_open (file_env_of env) (fn_junk (junk_of env)) (config_file s) (files s);
          let s1 = set_serr ERR_NONE (s\<lparr>files := f\<rparr>);
          if \<not> ok then Some (Closed (None, s1))
          else do {
            res \<leftarrow> config_loop env table blank_config (reset_config s1);
            if_closed res (\<lambda>(c, s2). if serr s2 \<noteq> ERR_NONE then None else do {
              let c' = end_config c;
              s3 \<leftarrow> check_fallbacks (num_entries c') s2;
              cl \<leftarrow> close_file env escape (check_default (num_entries c') s3);
              if_closed cl (\<lambda>s4. Some (Closed (Some c', s4))) }) } }"

text \<open>
  The file with the saved default entry, in the directory of the configuration file. Measurement is switched off before it is opened and
  switched on again only if it could be opened. A configuration file without a directory has no defined result.
\<close>

definition DEFAULT_FILE_BUFLEN :: nat where "DEFAULT_FILE_BUFLEN = 0x60"

fun last_slash :: "u8 list \<Rightarrow> nat \<Rightarrow> nat option" where
  "last_slash cs 0 = (if cs ! 0 = 0x2f then Some 1 else None)"
| "last_slash cs (Suc i) = (if cs ! Suc i = 0x2f then Some (Suc i + 1) else last_slash cs i)"

definition default_name :: "u8 list \<Rightarrow> u8 list \<Rightarrow> u8 list option" where
  "default_name junk name =
     do { (_, buf) \<leftarrow> grub_strncat (0 # take (DEFAULT_FILE_BUFLEN - 1) junk) (name @ [0]) DEFAULT_FILE_BUFLEN;
          i \<leftarrow> last_slash buf (length (string_at buf 0));
          let buf1 = buf[i := 0];
          (_, dir) \<leftarrow> grub_strncat (drop i buf1) (ascii ''default'' @ [0]) (DEFAULT_FILE_BUFLEN - i);
          c_string (take i buf1 @ dir) 0 }"

definition read_default :: "('w, 't) shell_env \<Rightarrow> u8 list \<Rightarrow> bool \<Rightarrow> u8 list \<Rightarrow> ('w, 't) shell \<Rightarrow> ('w, 't) shell close_result option" where
  "read_default env junk escape buf_junk s =
     do { name \<leftarrow> default_name junk (config_file s);
          let f = files s;
          (ok, f1) \<leftarrow> grub_open (file_env_of env) (fn_junk (junk_of env)) name
                     (if perform_sha1 f then f\<lparr>old_perform_sha1_value := True, perform_sha1 := False\<rparr> else f);
          if \<not> ok then Some (Closed (s\<lparr>files := f1\<rparr>))
          else do {
            (len, buf, f2) \<leftarrow> grub_read (file_env_of env) (take 10 buf_junk) 10 f1;
            entry \<leftarrow> (if 0 < len then map_option (\<lambda>r. case r of Inr (_, n) \<Rightarrow> n | Inl _ \<Rightarrow> saved_entryno s) (safe_parse_maxint (buf[9 := 0]))
                      else Some (saved_entryno s));
            cl \<leftarrow> close_file env escape (s\<lparr>files := f2, saved_entryno := entry\<rparr>);
            if_closed cl (\<lambda>s1. Some (Closed
              (if old_perform_sha1_value (files s1) then s1\<lparr>files := (files s1)\<lparr>perform_sha1 := True\<rparr>\<rparr> else s1))) } }"

definition saved_default :: "('w, 't) shell_env \<Rightarrow> u8 list \<Rightarrow> bool \<Rightarrow> u8 list \<Rightarrow> ('w, 't) shell \<Rightarrow> ('w, 't) shell close_result option" where
  "saved_default env junk escape buf_junk s =
     (let s0 = s\<lparr>saved_entryno := 0\<rparr>
      in do { res \<leftarrow> (if take 4 (config_file s) = ascii ''(nd)'' then Some (Closed s0) else read_default env junk escape buf_junk s0);
              if_closed res (\<lambda>s1. Some (Closed (set_serr ERR_NONE s1))) })"

text \<open>One round of \<open>cmain\<close> up to the menu or the command line.\<close>

definition cmain_round :: "('w, 't) shell_env \<Rightarrow> ('w, 't) builtin list \<Rightarrow> u8 list \<Rightarrow> u8 list \<Rightarrow> (nat \<Rightarrow> bool) \<Rightarrow> ('w, 't) shell
    \<Rightarrow> (config_state option \<times> ('w, 't) shell) close_result option" where
  "cmain_round env table junk buf_junk escape s =
     do { res \<leftarrow> saved_default env junk (escape 0) buf_junk (reset_config s);
          if_closed res (load_config env table (escape 1)) }"

section \<open>The lines of a file\<close>













section \<open>Configurations without continued lines\<close>
















section \<open>The entries of a configuration\<close>

text \<open>
  The entries as the configuration has them, with their titles and lines: commands of the table only, and only entries that have a line. The entry
  that is being read is apart.
\<close>

type_synonym entry_list = "(u8 list \<times> u8 list list) list"





text \<open>Their encoding: strings one after the other, an empty one behind each entry.\<close>

definition strings :: "u8 list list \<Rightarrow> u8 list" where
  "strings ls = concat (map (\<lambda>l. l @ [0]) ls)"

definition enc_entries :: "entry_list \<Rightarrow> u8 list" where
  "enc_entries es = concat (map (\<lambda>(t, b). strings b @ [0]) es)"


lemma strings_simps [simp]: "strings [] = []" "strings (l # ls) = l @ 0 # strings ls" "strings (ls @ ms) = strings ls @ strings ms"
  by (simp_all add: strings_def)

lemma enc_entries_simps [simp]:
  "enc_entries [] = []" "enc_entries ((t, b) # es) = strings b @ 0 # enc_entries es" "enc_entries (es @ fs) = enc_entries es @ enc_entries fs"
  by (simp_all add: enc_entries_def)



section \<open>Reading a configuration\<close>

text \<open>A command before the first title that leaves the open file alone, and some fallback entry unused.\<close>

definition fallbacks_end :: "('w, 't) shell \<Rightarrow> bool" where
  "fallbacks_end s \<longleftrightarrow> fallback_entryno s < 0 \<or> length (fallback_entries s) = MAX_FALLBACK_ENTRIES \<and> (\<exists>e \<in> set (fallback_entries s). sint e < 0)"

definition quiet_in_menu :: "('w, 't) builtin \<Rightarrow> u8 list \<Rightarrow> bool" where
  "quiet_in_menu b arg \<longleftrightarrow> (\<forall>s. \<exists>r s'. func b arg BUILTIN_MENU s = Some (Closed (r, s'))
     \<and> files (set_serr ERR_NONE s') = files (set_serr ERR_NONE s) \<and> (fallbacks_end s \<longrightarrow> fallbacks_end s'))"









lemma clear_files: "files (set_serr e s) = set_ferr e (files s)"
  by (simp add: set_serr_def)

lemma fallbacks_end_simps [simp]: "fallbacks_end (set_serr e s) = fallbacks_end s" "fallbacks_end (s\<lparr>files := f\<rparr>) = fallbacks_end s"
  by (simp_all add: fallbacks_end_def set_serr_def)









section \<open>The fallback entries\<close>

lemma shift_nth:
  assumes "length es = MAX_FALLBACK_ENTRIES" and "j < MAX_FALLBACK_ENTRIES"
  shows "overlay es i (take (MAX_FALLBACK_ENTRIES - i - 1) (drop (i + 1) es)) ! j = (if i \<le> j \<and> j < 7 then es ! (j + 1) else es ! j)"
    "length (overlay es i (take (MAX_FALLBACK_ENTRIES - i - 1) (drop (i + 1) es))) = MAX_FALLBACK_ENTRIES"
proof -
  have "j < 7 \<or> j = 7" using assms(2) by (auto simp: MAX_FALLBACK_ENTRIES_def)
  then show "overlay es i (take (MAX_FALLBACK_ENTRIES - i - 1) (drop (i + 1) es)) ! j = (if i \<le> j \<and> j < 7 then es ! (j + 1) else es ! j)"
    using assms(1) by (auto simp: overlay_def nth_append MAX_FALLBACK_ENTRIES_def min_def)
qed (use assms in \<open>auto simp: overlay_def MAX_FALLBACK_ENTRIES_def\<close>)

abbreviation fallbacks_return :: "int \<Rightarrow> nat \<Rightarrow> u32 list \<Rightarrow> bool" where
  "fallbacks_return n i es \<equiv> \<exists>es'. valid_fallbacks n i es = Some es' \<and> length es' = MAX_FALLBACK_ENTRIES"

text \<open>The loop ends at a negative entry, and when all entries from some place on are valid.\<close>

lemma fallbacks_negative:
  assumes "length es = MAX_FALLBACK_ENTRIES" and "sint (es ! p) < 0" and "i \<le> p" and "p < MAX_FALLBACK_ENTRIES" and "0 \<le> n"
  shows "fallbacks_return n i es"
  using assms
proof (induction "p - i" arbitrary: p i es)
  case 0
  then show ?case by (subst valid_fallbacks.simps) simp
next
  case (Suc k)
  show ?case
  proof (cases "sint (es ! i) < 0")
    case True
    then show ?thesis using Suc.prems(1) by (subst valid_fallbacks.simps) simp
  next
    case False
    then have i: "i < p" using Suc.prems(2,3) by (cases "i = p") auto
    show ?thesis
    proof (cases "n \<le> sint (es ! i)")
      case True
      let ?es = "overlay es i (take (MAX_FALLBACK_ENTRIES - i - 1) (drop (i + 1) es))"
      have "?es ! (p - 1) = es ! p" using shift_nth(1) [OF Suc.prems(1), of "p - 1" i] i Suc.prems(4) by (cases p) (auto simp: MAX_FALLBACK_ENTRIES_def)
      then have "fallbacks_return n i ?es"
        using Suc.hyps(1) [of "p - 1" i ?es] Suc.hyps(2) Suc.prems i shift_nth(2) [OF Suc.prems(1,4), of i] by simp
      then show ?thesis using True False i Suc.prems(4) by (subst valid_fallbacks.simps) simp
    next
      case valid: False
      have "fallbacks_return n (i + 1) es" using Suc.hyps(1) [of p "i + 1" es] Suc.hyps(2) Suc.prems i by simp
      then show ?thesis using valid False i Suc.prems(4) by (subst valid_fallbacks.simps) simp
    qed
  qed
qed

lemma fallbacks_unused:
  assumes "length es = MAX_FALLBACK_ENTRIES" and "\<exists>e \<in> set es. sint e < 0" and "0 \<le> n"
  shows "fallbacks_return n 0 es"
proof -
  obtain p where "p < MAX_FALLBACK_ENTRIES" "sint (es ! p) < 0" using assms(1,2) by (auto simp: in_set_conv_nth)
  then show ?thesis using fallbacks_negative [OF assms(1)] assms(3) by blast
qed

lemma fallbacks_valid:
  assumes "length es = MAX_FALLBACK_ENTRIES" and "\<And>j. q \<le> j \<Longrightarrow> j < MAX_FALLBACK_ENTRIES \<Longrightarrow> sint (es ! j) < n" and "i \<le> q" and "q \<le> MAX_FALLBACK_ENTRIES"
    and "q < MAX_FALLBACK_ENTRIES \<or> q = i"
  shows "fallbacks_return n i es"
  using assms
proof (induction "(q - i, MAX_FALLBACK_ENTRIES - i)" arbitrary: q i es rule: wf_induct_rule [OF wf_lex_prod [OF wf_less wf_less]])
  case 1
  show ?case
  proof (cases "MAX_FALLBACK_ENTRIES \<le> i \<or> sint (es ! i) < 0")
    case True
    then show ?thesis using 1(2) by (subst valid_fallbacks.simps) simp
  next
    case False
    show ?thesis
    proof (cases "n \<le> sint (es ! i)")
      case True
      then have i: "i < q" using 1(3) [of i] 1(4) False by (cases "i = q") auto
      let ?es = "overlay es i (take (MAX_FALLBACK_ENTRIES - i - 1) (drop (i + 1) es))"
      have "sint (?es ! j) < n" if "q - 1 \<le> j" "j < MAX_FALLBACK_ENTRIES" for j
        using shift_nth(1) [OF 1(2) that(2), of i] 1(3) [of j] 1(3) [of "j + 1"] 1(6) that i by (auto simp: MAX_FALLBACK_ENTRIES_def)
      moreover have "i \<le> q - 1" "q - 1 - i < q - i" "q - 1 < MAX_FALLBACK_ENTRIES" using i 1(5) by (auto simp: MAX_FALLBACK_ENTRIES_def)
      ultimately have "fallbacks_return n i ?es" using 1(1) [of "q - 1" i ?es] shift_nth(2) [OF 1(2), of 0 i] by (simp add: MAX_FALLBACK_ENTRIES_def)
      then show ?thesis using True False by (subst valid_fallbacks.simps) simp
    next
      case valid: False
      have "fallbacks_return n (i + 1) es"
      proof (cases "i = q")
        case True
        then have "MAX_FALLBACK_ENTRIES - (i + 1) < MAX_FALLBACK_ENTRIES - i" using False by auto
        then show ?thesis using 1(1) [of "i + 1" "i + 1" es] 1(2,3) False True by simp
      next
        case False
        then have "q - (i + 1) < q - i" "i + 1 \<le> q" using 1(4) by auto
        then show ?thesis using 1(1) [of q "i + 1" es] 1(2-6) False by simp
      qed
      then show ?thesis using valid False by (subst valid_fallbacks.simps) simp
    qed
  qed
qed

lemma fallbacks_hang:
  assumes "valid_fallbacks n i es = Some es'" and "length es = MAX_FALLBACK_ENTRIES" and "\<forall>j < MAX_FALLBACK_ENTRIES. 0 \<le> sint (es ! j)" and "n \<le> sint (es ! 7)"
  shows "8 \<le> i"
proof -
  have "length es = MAX_FALLBACK_ENTRIES \<longrightarrow> (\<forall>j < MAX_FALLBACK_ENTRIES. 0 \<le> sint (es ! j)) \<longrightarrow> n \<le> sint (es ! 7) \<longrightarrow> 8 \<le> i"
  proof (rule valid_fallbacks.raw_induct [where P = "\<lambda>n i es _. length es = MAX_FALLBACK_ENTRIES \<longrightarrow> (\<forall>j < MAX_FALLBACK_ENTRIES. 0 \<le> sint (es ! j))
      \<longrightarrow> n \<le> sint (es ! 7) \<longrightarrow> 8 \<le> i", OF _ assms(1)], intro impI)
    fix loop n i es es'
    assume IH: "\<And>n i es es'. loop n i es = Some es' \<Longrightarrow> length es = MAX_FALLBACK_ENTRIES \<longrightarrow> (\<forall>j < MAX_FALLBACK_ENTRIES. 0 \<le> sint (es ! j))
        \<longrightarrow> n \<le> sint (es ! 7) \<longrightarrow> 8 \<le> i"
      and body: "(if MAX_FALLBACK_ENTRIES \<le> i \<or> sint (es ! i) < 0 then Some es
        else if n \<le> sint (es ! i) then loop n i (overlay es i (take (MAX_FALLBACK_ENTRIES - i - 1) (drop (i + 1) es)))
        else loop n (i + 1) es) = Some es'"
      and es: "length es = MAX_FALLBACK_ENTRIES" "\<forall>j < MAX_FALLBACK_ENTRIES. 0 \<le> sint (es ! j)" "n \<le> sint (es ! 7)"
    show "8 \<le> i"
    proof (rule ccontr)
      assume i: "\<not> 8 \<le> i"
      then have pos: "\<not> (MAX_FALLBACK_ENTRIES \<le> i \<or> sint (es ! i) < 0)" using spec [OF es(2), of i] by (auto simp: MAX_FALLBACK_ENTRIES_def)
      show False
      proof (cases "n \<le> sint (es ! i)")
        case True
        let ?es = "overlay es i (take (MAX_FALLBACK_ENTRIES - i - 1) (drop (i + 1) es))"
        have "\<forall>j < MAX_FALLBACK_ENTRIES. 0 \<le> sint (?es ! j)" "n \<le> sint (?es ! 7)"
          using shift_nth(1) [OF es(1), of _ i] es(2,3) by (auto simp: MAX_FALLBACK_ENTRIES_def)
        moreover have "loop n i ?es = Some es'" using body pos True by simp
        moreover have "length ?es = MAX_FALLBACK_ENTRIES" by (rule shift_nth(2) [OF es(1), of 0]) (simp add: MAX_FALLBACK_ENTRIES_def)
        ultimately show False using IH i by blast
      next
        case False
        then have "i \<noteq> 7" using es(3) by auto
        have "loop n (i + 1) es = Some es'" using body pos False by simp
        then have "8 \<le> i + 1" using IH es by blast
        then show False using i \<open>i \<noteq> 7\<close> by simp
      qed
    qed
  qed
  then show ?thesis using assms(2-4) by blast
qed

text \<open>
  C28. The check of the fallback entries. The loop that removes the entries that the configuration does not have ends if and only if one of the eight entries is
  unused or the last one is valid: the entries behind an invalid one are moved, but the last one stays, so that it is found again and again and the boot loader hangs. (With eight
  entries the definition has no other way to have no result.)
\<close>

theorem valid_fallbacks_ends:
  assumes "length es = MAX_FALLBACK_ENTRIES" and "0 \<le> n"
  shows "(\<exists>es'. valid_fallbacks n 0 es = Some es') \<longleftrightarrow> (\<exists>e \<in> set es. sint e < 0) \<or> sint (es ! 7) < n"
proof
  assume "\<exists>es'. valid_fallbacks n 0 es = Some es'"
  then show "(\<exists>e \<in> set es. sint e < 0) \<or> sint (es ! 7) < n"
    using fallbacks_hang [of n 0 es] assms(1) by (force simp: in_set_conv_nth)
next
  assume "(\<exists>e \<in> set es. sint e < 0) \<or> sint (es ! 7) < n"
  then have "fallbacks_return n 0 es"
  proof
    assume "sint (es ! 7) < n"
    then have "sint (es ! j) < n" if "7 \<le> j" "j < MAX_FALLBACK_ENTRIES" for j
    proof -
      have "j = 7" using that by (simp add: MAX_FALLBACK_ENTRIES_def)
      then show ?thesis using \<open>sint (es ! 7) < n\<close> by simp
    qed
    then show ?thesis using fallbacks_valid [OF assms(1), of 7 n 0] by (simp add: MAX_FALLBACK_ENTRIES_def)
  qed (use fallbacks_unused [OF assms(1) _ assms(2)] in blast)
  then show "\<exists>es'. valid_fallbacks n 0 es = Some es'" by blast
qed

lemma valid_fallbacks_ends_witness:
  "valid_fallbacks 2 0 [0, 1, 0, 1, 0, 1, 0, 2] = None \<and> (\<exists>es'. valid_fallbacks 2 0 [0, 1, 5, 1, 0, 1, 0, 1] = Some es')"
proof -
  have "\<not> (\<exists>es'. valid_fallbacks 2 0 [0, 1, 0, 1, 0, 1, 0, 2] = Some es')"
    by (subst valid_fallbacks_ends) (simp_all add: MAX_FALLBACK_ENTRIES_def)
  moreover have "\<exists>es'. valid_fallbacks 2 0 [0, 1, 5, 1, 0, 1, 0, 1] = Some es'"
    by (subst valid_fallbacks_ends) (simp_all add: MAX_FALLBACK_ENTRIES_def)
  ultimately show ?thesis by (metis not_Some_eq)
qed

section \<open>Loading the configuration\<close>


lemma check_default_files [simp]: "files (check_default n s) = files s"
  by (simp add: check_default_def)





lemma quiet_hiddenmenu: "func b = hiddenmenu_func \<Longrightarrow> quiet_in_menu b arg"
  by (simp add: quiet_in_menu_def hiddenmenu_func_def cmd_ok_def clear_files fallbacks_end_def)









end
