(* ===== verification/Menu.thy ===== *)
theory Menu
  imports Config
begin

unbundle bit_operations_syntax

text \<open>
  The menu: the strings of the entries in memory, \<open>run_menu\<close> with its keys, the menu that edits an entry, the history of configurations, the loop that boots an entry
  and its fallback entries, and the loop of \<open>cmain\<close> (\<^verbatim>\<open>stage2.c\<close>). The theorems say which lines are measured when an entry is booted, that the selection stays inside
  the menu, and what a locked menu lets the user do. What is drawn on the screen has no counterpart.
\<close>

section \<open>Entries in memory\<close>

text \<open>
  \<open>get_entry\<close>: the position behind \<open>num\<close> strings, or with \<open>nested\<close> behind \<open>num\<close> sequences of strings that end with an empty one. The character behind a string is
  skipped when it is compared.
\<close>

function skip_entry :: "bool \<Rightarrow> u8 list \<Rightarrow> nat \<Rightarrow> nat option" where
  "skip_entry nested xs p =
     (case c_string xs p of
        None \<Rightarrow> None
      | Some l \<Rightarrow>
          let q = p + length l + 1
          in if \<not> nested then Some q
             else Option.bind (rd xs q) (\<lambda>c. if c \<noteq> 0 then skip_entry nested xs (q + 1) else Some (q + 1)))"
  by pat_completeness auto
termination
  by (relation "measure (\<lambda>(nested, xs, p). length xs - p)") (auto simp: c_string_def rd_def split: if_splits)

declare skip_entry.simps [simp del]

fun get_entry :: "u8 list \<Rightarrow> nat \<Rightarrow> nat \<Rightarrow> bool \<Rightarrow> nat option" where
  "get_entry xs p 0 nested = Some p"
| "get_entry xs p (Suc num) nested = Option.bind (skip_entry nested xs p) (\<lambda>q. get_entry xs q num nested)"

section \<open>Booting an entry\<close>

text \<open>
  The loop at the end of \<open>run_menu\<close>: the entry, and while it fails and there is one the next fallback entry. The result has the first line of the menu and the bar,
  which are on the last entry that was tried. \<open>config\<close> is none in the menu that edits an entry; there a fallback entry has no list to be taken from. The
  title that is printed without \<^verbatim>\<open>SHOW_SHA1\<close> has no counterpart.
\<close>

partial_function (option) boot_loop :: "('w, 't) shell_env \<Rightarrow> ('w, 't) builtin list \<Rightarrow> u8 list option \<Rightarrow> u8 list option \<Rightarrow> int \<Rightarrow> int \<Rightarrow> ('w, 't) shell
    \<Rightarrow> (int \<times> int \<times> ('w, 't) shell) close_result option" where
  "boot_loop env table config cur_entry first entry s =
     Option.bind (case cur_entry of
         Some script \<Rightarrow> Some script
       | None \<Rightarrow> Option.bind config (\<lambda>list. map_option (\<lambda>p. drop p list) (get_entry list 0 (nat (first + entry)) True))) (\<lambda>script.
     Option.bind (run_script env table script (s\<lparr>current_entryno := first + entry\<rparr>)) (\<lambda>res.
     if_closed res (\<lambda>(r, s1).
       if r = 0 \<or> fallback_entryno s1 < 0 then Some (Closed (first, entry, s1))
       else Option.bind (rd (fallback_entries s1) (nat (fallback_entryno s1))) (\<lambda>e.
         boot_loop env table config None 0 (sint e)
           (s1\<lparr>fallback_entryno := next_fallback (fallback_entries s1) (fallback_entryno s1)\<rparr>)))))"

definition boot_entry :: "('w, 't) shell_env \<Rightarrow> ('w, 't) builtin list \<Rightarrow> u8 list option \<Rightarrow> u8 list option \<Rightarrow> int \<Rightarrow> int \<Rightarrow> ('w, 't) shell
    \<Rightarrow> (int \<times> int \<times> ('w, 't) shell) close_result option" where
  "boot_entry env table config cur_entry first entry s =
     do { res \<leftarrow> boot_loop env table config cur_entry first entry (s\<lparr>files := (files s)\<lparr>perform_sha1 := True\<rparr>\<rparr>);
          if_closed res (\<lambda>(first', entry', s1). Some (Closed (first', entry', s1\<lparr>show_menu := True\<rparr>))) }"

section \<open>The entries that are booted\<close>


lemma c_string_here: "0 \<notin> set s \<Longrightarrow> c_string (pre @ s @ 0 # post) (length pre) = Some s"
  using string_atI [of "length pre" "pre @ s @ 0 # post" s post] by (simp add: c_string_def)

lemma c_string_drop: "c_string (drop p xs) q = c_string xs (p + q)"
  by (auto simp: c_string_def string_at_def ac_simps)



lemma get_entry_title:
  assumes "\<forall>t \<in> set ts. 0 \<notin> set t" and "i \<le> length ts"
  shows "get_entry (pre @ strings ts @ post) (length pre) i False = Some (length pre + length (strings (take i ts)))"
  using assms
proof (induction i arbitrary: ts pre)
  case (Suc i)
  obtain t ts' where ts: "ts = t # ts'" using Suc.prems(2) by (cases ts) auto
  have "skip_entry False (pre @ t @ 0 # strings ts' @ post) (length pre) = Some (length (pre @ t @ [0]))"
    using Suc.prems(1) ts by (subst skip_entry.simps) (simp add: c_string_here)
  then show ?case using Suc.IH [of ts' "pre @ t @ [0]"] Suc.prems by (simp add: ts)
qed simp


definition body_of :: "entry_list \<Rightarrow> int \<Rightarrow> u8 list list" where
  "body_of es i = (if nat i < length es then snd (es ! nat i) else [])"



lemma body_of_title: "i < length es \<Longrightarrow> body_of es (int i) = snd (es ! i)"
  by (simp add: body_of_def)

section \<open>What booting an entry measures\<close>









section \<open>The menu\<close>

definition CONFIG_FILE_LEN :: nat where "CONFIG_FILE_LEN = 128"
definition CONFIG_FILE_HISTORY_ENTRIES :: nat where "CONFIG_FILE_HISTORY_ENTRIES = 10"
definition SEARCH_BUF_SIZE :: nat where "SEARCH_BUF_SIZE = 20"

definition MASTER_CONFIG_FILE :: "u8 list" where "MASTER_CONFIG_FILE = ascii ''(nd)/tftpboot/m''"

text \<open>The configuration files that have been loaded, each with the selection of its menu.\<close>

record history =
  config_file_history :: "(u8 list \<times> int \<times> int) list"
  config_file_history_pos :: nat
  config_file_history_start :: nat
  config_file_history_prev_pos :: nat
  config_file_history_menu_pos :: int

definition next_slot :: "nat \<Rightarrow> nat" where
  "next_slot p = (if p + 1 = CONFIG_FILE_HISTORY_ENTRIES then 0 else p + 1)"

text \<open>The history when a configuration has been loaded.\<close>

definition save_history :: "u8 list \<Rightarrow> history \<Rightarrow> history" where
  "save_history name h =
     (let pos = config_file_history_pos h;
          h1 = h\<lparr>config_file_history := (config_file_history h)[pos := (name, snd (config_file_history h ! pos))],
                 config_file_history_prev_pos := pos, config_file_history_pos := next_slot pos\<rparr>
      in if config_file_history_start h = next_slot pos then h1\<lparr>config_file_history_start := next_slot (config_file_history_start h)\<rparr> else h1)"

text \<open>
  The variables of \<open>run_menu\<close>. \<open>menu_text\<close> are the strings of the menu up to the heap; \<open>config_text\<close> those of the configuration, or none in
  a menu that edits an entry.
\<close>

record menu_state =
  first_entry :: int
  entryno :: int
  menu_num :: int
  menu_text :: "u8 list"
  config_text :: "u8 list option"
  search_mode :: bool
  search_found :: int
  search_direction :: bool
  search_buf :: "u8 list"
  shortcut_buf :: "u8 list"

record ('w, 't) menu_env =
  me_shell :: "('w, 't) shell_env"
  me_table :: "('w, 't) builtin list"
  me_dumb :: bool
  me_sprint_buf :: "u8 list"
  me_md5 :: bool
  me_md5_vars :: md5_vars

definition selected :: "menu_state \<Rightarrow> int" where
  "selected m = first_entry m + entryno m"

definition set_bar_to :: "int \<Rightarrow> menu_state \<Rightarrow> menu_state" where
  "set_bar_to i m =
     (if i - 5 < 0 \<or> menu_num m < 13 then m\<lparr>entryno := i, first_entry := 0\<rparr>
      else if menu_num m - i < 7 then m\<lparr>first_entry := menu_num m - 12, entryno := i - (menu_num m - 12)\<rparr>
      else m\<lparr>first_entry := i - 5, entryno := 5\<rparr>)"

text \<open>The title of an entry with the variables replaced.\<close>

definition shown_entry :: "('w, 't) menu_env \<Rightarrow> ('w, 't) shell \<Rightarrow> menu_state \<Rightarrow> int \<Rightarrow> u8 list option" where
  "shown_entry me s m i =
     do { p \<leftarrow> get_entry (menu_text m) 0 (nat i) False;
          t \<leftarrow> c_string (menu_text m) p;
          buf \<leftarrow> var_sprint_buf (serr s = ERR_NONE) (vars s) (buffer_junk (me_shell me)) (me_sprint_buf me) t;
          c_string buf 0 }"

definition search_matches :: "u8 list \<Rightarrow> u8 list \<Rightarrow> bool" where
  "search_matches buf t \<longleftrightarrow> (\<exists>i < length t. prefix buf (map (\<lambda>c. of_int (grub_tolower (sint c))) (drop i t)))"

text \<open>The loop of \<open>search_menu\<close> from entry \<open>i\<close> on, once around to \<open>current\<close>; \<open>back\<close> is the direction.\<close>

partial_function (option) search_loop :: "('w, 't) menu_env \<Rightarrow> ('w, 't) shell \<Rightarrow> menu_state \<Rightarrow> bool \<Rightarrow> int \<Rightarrow> int \<Rightarrow> int option" where
  "search_loop me s m back current i =
     Option.bind (shown_entry me s m i) (\<lambda>t.
       if search_matches (search_buf m) t then Some i
       else let i' = (if back then (if i = 0 then menu_num m else i) - 1 else if i + 1 = menu_num m then 0 else i + 1)
            in if i' = current then Some (-1) else search_loop me s m back current i')"

definition search_menu :: "('w, 't) menu_env \<Rightarrow> ('w, 't) shell \<Rightarrow> bool \<Rightarrow> bool \<Rightarrow> menu_state \<Rightarrow> (int \<times> menu_state) option" where
  "search_menu me s back onward m =
     (let cur0 = selected m;
          cur1 = (if back then cur0 - 1 else cur0 + 1);
          current = (if \<not> onward then cur0 else if cur1 < 0 then menu_num m - 1 else if cur1 = menu_num m then 0 else cur1)
      in do { i \<leftarrow> search_loop me s m back current current; Some (i, if i = -1 then m else set_bar_to i m) })"

text \<open>
  The entries whose number begins with the typed digits: the bar is set to the first one, the loop ends at the second one. The array for the
  number has four bytes.
\<close>

function shortcut_loop :: "u8 list \<Rightarrow> int \<Rightarrow> nat \<Rightarrow> menu_state \<Rightarrow> (nat \<times> menu_state) option" where
  "shortcut_loop digits i matches m =
     (if menu_num m \<le> i then Some (matches, m)
      else case convert_to_ascii [0, 0, 0, 0] (CHR ''d'') (of_int i) of
        None \<Rightarrow> None
      | Some (buf, n) \<Rightarrow>
          if length buf \<le> n then None
          else if \<not> prefix digits (take n buf) then shortcut_loop digits (i + 1) matches m
          else if matches = 0 then shortcut_loop digits (i + 1) 1 (set_bar_to i m)
          else Some (matches + 1, m))"
  by pat_completeness auto
termination
  by (relation "measure (\<lambda>(digits, i, matches, m). nat (menu_num m - i))") (auto simp: set_bar_to_def)

declare shortcut_loop.simps [simp del]

text \<open>What a key makes the menu do: another key, the menu anew, the end of \<open>run_menu\<close>, booting by a key or when the time is up, the password, the editor, the command line.\<close>

datatype menu_action = Again | Restart | Leave | Boot | Timeout | Password | Edit | Commandline

text \<open>The keys that move the bar; \<open>None\<close> if the key is another one.\<close>

definition move_up :: "bool \<Rightarrow> menu_state \<Rightarrow> menu_state" where
  "move_up dumb m =
     (if 0 < entryno m then m\<lparr>entryno := entryno m - 1\<rparr>
      else if \<not> dumb \<and> 0 < first_entry m then m\<lparr>first_entry := first_entry m - 1\<rparr> else m)"

definition move_down :: "bool \<Rightarrow> menu_state \<Rightarrow> menu_state" where
  "move_down dumb m =
     (if dumb \<or> entryno m < 11 then m\<lparr>entryno := entryno m + 1\<rparr>
      else if 12 + first_entry m < menu_num m then m\<lparr>first_entry := first_entry m + 1\<rparr> else m)"

definition page_up :: "menu_state \<Rightarrow> menu_state" where
  "page_up m =
     (if 11 < first_entry m then m\<lparr>first_entry := first_entry m - 12\<rparr>
      else if first_entry m \<noteq> 0
      then m\<lparr>entryno := (if entryno m + first_entry m - 12 < 0 then 0 else first_entry m + entryno m - 12), first_entry := 0\<rparr>
      else m\<lparr>entryno := 0\<rparr>)"

definition page_down :: "menu_state \<Rightarrow> menu_state" where
  "page_down m =
     (if first_entry m + 12 < menu_num m
      then if first_entry m + 23 < menu_num m then m\<lparr>first_entry := first_entry m + 12\<rparr>
           else m\<lparr>entryno := (if menu_num m \<le> entryno m + first_entry m + 12 then 11 else entryno m + (24 + first_entry m - menu_num m)),
                  first_entry := menu_num m - 12\<rparr>
      else m\<lparr>entryno := menu_num m - first_entry m - 1\<rparr>)"

definition move_bar :: "bool \<Rightarrow> u8 \<Rightarrow> menu_state \<Rightarrow> menu_state" where
  "move_bar dumb c m =
     (if c = 16 \<or> c = 0x5e \<or> c = 0x6b then move_up dumb m
      else if (c = 14 \<or> c = 0x76 \<or> c = 0x6a) \<and> selected m + 1 < menu_num m then move_down dumb m
      else if c = 7 then page_up m
      else if c = 3 then page_down m
      else m)"

text \<open>
  The keys \<^verbatim>\<open>d\<close>, \<^verbatim>\<open>o\<close> and \<^verbatim>\<open>O\<close> of the menu that edits an entry: the selected line is removed, or a line with one space is inserted behind it or before it. The moves of memory have
  to stay below the heap.
\<close>

definition move_text :: "u8 list \<Rightarrow> nat \<Rightarrow> nat \<Rightarrow> u8 list \<Rightarrow> u8 list option" where
  "move_text t p q new = (if p \<le> length t \<and> q \<le> length t then Some (take p t @ new @ drop q t) else None)"

definition edit_lines :: "bool \<Rightarrow> u8 \<Rightarrow> menu_state \<Rightarrow> menu_state option" where
  "edit_lines dumb c m =
     (let m1 = (if c \<noteq> 0x6f then m
                else if entryno m < 11 \<or> dumb then m\<lparr>entryno := entryno m + 1\<rparr> else m\<lparr>first_entry := first_entry m + 1\<rparr>)
      in do { p \<leftarrow> get_entry (menu_text m1) 0 (nat (selected m1)) False;
              if c = 0x6f \<or> c = 0x4f
              then do { t \<leftarrow> move_text (menu_text m1) p p [0x20, 0]; Some (m1\<lparr>menu_text := t, menu_num := menu_num m1 + 1\<rparr>) }
              else if 0 < menu_num m1
              then do { q \<leftarrow> get_entry (menu_text m1) 0 (nat (selected m1 + 1)) False;
                        t \<leftarrow> move_text (menu_text m1) p q [];
                        let n = menu_num m1 - 1;
                        let e = (if n \<le> entryno m1 then entryno m1 - 1 else entryno m1);
                        let f = (if first_entry m1 \<noteq> 0 \<and> n < 12 + first_entry m1 then first_entry m1 - 1 else first_entry m1);
                        Some (m1\<lparr>menu_text := t, menu_num := n, entryno := e, first_entry := f\<rparr>) }
              else Some m1 })"

text \<open>Toggles.\<close>

definition toggle_do_block :: "toggle \<Rightarrow> ('w, 't) shell \<Rightarrow> ('w, 't) shell option" where
  "toggle_do_block t s =
     (if length (toggle_blocks t) \<le> current_block t then Some s
      else foldl (\<lambda>s' (l, val). do {
             s1 \<leftarrow> s';
             p \<leftarrow> Option.bind (rd (variable_list (vars s1)) l) fst;
             name \<leftarrow> c_string (variable_store (vars s1)) p;
             (_, v) \<leftarrow> var_set_no_copy (serr s1 = ERR_NONE) name val (vars s1);
             Some (s1\<lparr>vars := v\<rparr>) }) (Some s) (toggle_blocks t ! current_block t))"

definition toggle_find_slot :: "u8 \<Rightarrow> toggle list \<Rightarrow> nat option" where
  "toggle_find_slot c ts = List.find (\<lambda>i. toggle_key (ts ! i) = uint c) [0..<length ts]"

definition toggle_do_key :: "u8 \<Rightarrow> ('w, 't) shell \<Rightarrow> (bool \<times> ('w, 't) shell) option" where
  "toggle_do_key c s =
     (case toggle_find_slot c (toggles s) of
        None \<Rightarrow> Some (False, s)
      | Some i \<Rightarrow>
          let t = toggles s ! i;
              b = (if current_block t + 1 = length (toggle_blocks t) then 0 else current_block t + 1);
              t' = t\<lparr>current_block := b\<rparr>
          in map_option (\<lambda>s'. (True, s')) (toggle_do_block t' (s\<lparr>toggles := (toggles s)[i := t']\<rparr>)))"

text \<open>The keys while a search is typed: whether the key is done with, and the menu.\<close>

definition search_key :: "('w, 't) menu_env \<Rightarrow> u8 \<Rightarrow> ('w, 't) shell \<Rightarrow> menu_state \<Rightarrow> (bool \<times> menu_state) option" where
  "search_key me c s m =
     (if search_mode m
      then if c = 13 \<or> c = 10 \<or> c = 27 then Some (True, m\<lparr>search_mode := False\<rparr>)
           else if c \<noteq> 8 \<and> c < 0x20 then Some (False, m\<lparr>search_mode := False\<rparr>)
           else if c = 8 \<and> search_buf m = [] then Some (True, m\<lparr>search_mode := False\<rparr>)
           else let m1 = (if c = 8 then m\<lparr>search_buf := butlast (search_buf m)\<rparr>
                          else if length (search_buf m) < SEARCH_BUF_SIZE - 1 then m\<lparr>search_buf := search_buf m @ [of_int (grub_tolower (uint c))]\<rparr>
                          else m)
                in do { (i, m2) \<leftarrow> search_menu me s (search_direction m1) False m1; Some (True, m2\<lparr>search_found := i\<rparr>) }
      else Some (False, if c = 0x2f \<or> c = 0x3f then m\<lparr>search_mode := True, search_direction := (c = 0x3f), search_buf := [], search_found := 0\<rparr> else m))"

definition search_again :: "('w, 't) menu_env \<Rightarrow> u8 \<Rightarrow> ('w, 't) shell \<Rightarrow> menu_state \<Rightarrow> menu_state option" where
  "search_again me c s m =
     (if (c = 0x6e \<or> c = 0x4e) \<and> 0 \<le> search_found m
      then map_option snd (search_menu me s (if c = 0x6e then search_direction m else \<not> search_direction m) True m)
      else Some m)"

text \<open>The digits: an entry that is determined by them is booted. The shortcut has room for four digits.\<close>

definition digit_key :: "u8 \<Rightarrow> menu_state \<Rightarrow> (u8 \<times> menu_state) option" where
  "digit_key c m =
     (if 0x30 \<le> c \<and> c \<le> 0x39
      then if 4 \<le> length (shortcut_buf m) then None
           else do { let digits = shortcut_buf m @ [c];
                     (k, m1) \<leftarrow> shortcut_loop digits 0 0 m;
                     Some (if k = 1 \<and> config_text m \<noteq> None then 0xa else c, m1\<lparr>shortcut_buf := (if k \<le> 1 then [] else digits)\<rparr>) }
      else Some (c, m\<lparr>shortcut_buf := []\<rparr>))"

text \<open>A key in the menu of the configuration.\<close>

definition config_key :: "u8 \<Rightarrow> menu_state \<Rightarrow> history \<Rightarrow> ('w, 't) shell \<Rightarrow> menu_action option \<times> history \<times> ('w, 't) shell" where
  "config_key c m h s =
     (if c = 0x72 then (Some Leave, h, s)
      else if c = 10 \<or> c = 13 \<or> c = 6 \<or> c = 0x6c
      then (Some Boot, h\<lparr>config_file_history := (config_file_history h)[config_file_history_prev_pos h :=
                (fst (config_file_history h ! config_file_history_prev_pos h), entryno m, first_entry m)]\<rparr>, s)
      else let p = config_file_history_prev_pos h;
               p' = (if p = 0 then CONFIG_FILE_HISTORY_ENTRIES - 1 else p - 1)
           in if (c = 2 \<or> c = 0x68) \<and> p \<noteq> config_file_history_start h
              then (Some Leave, h\<lparr>config_file_history_pos := p', config_file_history_menu_pos := int p'\<rparr>,
                    s\<lparr>config_file := fst (config_file_history h ! p')\<rparr>)
              else (None, h, s))"

text \<open>A key in the menu that edits an entry; an \<^verbatim>\<open>o\<close> is an \<^verbatim>\<open>O\<close> from there on.\<close>

definition edit_key :: "bool \<Rightarrow> u8 \<Rightarrow> menu_state \<Rightarrow> (menu_action option \<times> menu_state) option" where
  "edit_key dumb c m =
     do { m1 \<leftarrow> (if c = 0x64 \<or> c = 0x6f \<or> c = 0x4f then edit_lines dumb c m else Some m);
          Some (if c = 27 then Some Leave else if c = 0x62 then Some Boot else None, m1) }"

text \<open>The keys that a password protects, for a boot loader that is no host program.\<close>

definition locked :: "('w, 't) shell \<Rightarrow> bool" where
  "locked s \<longleftrightarrow> \<not> auth s \<and> password s \<noteq> None"

definition protected_key :: "u8 \<Rightarrow> ('w, 't) shell \<Rightarrow> (menu_action \<times> ('w, 't) shell) option" where
  "protected_key c s =
     (if locked s then Some (if c = 0x70 then Password else Again, s)
      else if c = 0x65 then Some (Edit, s)
      else if c = 0x63 then Some (Commandline, s)
      else do { (toggled, s') \<leftarrow> toggle_do_key c s; Some (if toggled then Restart else Again, s') })"

text \<open>A key in the menu.\<close>

definition menu_key :: "('w, 't) menu_env \<Rightarrow> u8 \<Rightarrow> menu_state \<Rightarrow> history \<Rightarrow> ('w, 't) shell
    \<Rightarrow> (menu_action \<times> menu_state \<times> history \<times> ('w, 't) shell) option" where
  "menu_key me c m h s0 =
     do { let s = (if 0 \<le> sint (grub_timeout s0) then s0\<lparr>grub_timeout := -1, fallback_entryno := -1\<rparr> else s0);
          (typed, m1) \<leftarrow> search_key me c s m;
          if typed then Some (Again, m1, h, s)
          else do {
            m2 \<leftarrow> search_again me c s m1;
            (c', m3) \<leftarrow> digit_key c m2;
            let m4 = move_bar (me_dumb me) c' m3;
            if c' = 0x4d then Some (Leave, m4, h, s\<lparr>config_file := MASTER_CONFIG_FILE\<rparr>)
            else do {
              (action, m5, h', s') \<leftarrow>
                (if config_text m4 \<noteq> None
                 then let (action, h', s') = config_key c' m4 h s in Some (action, m4, h', s')
                 else map_option (\<lambda>(action, m5). (action, m5, h, s)) (edit_key (me_dumb me) c' m4));
              case action of
                Some a \<Rightarrow> Some (a, m5, h', s')
              | None \<Rightarrow> do { (a, s'') \<leftarrow> protected_key (if config_text m4 = None \<and> c' = 0x6f then 0x4f else c') s'; Some (a, m5, h', s'') } } } }"

text \<open>
  What happens while the menu waits: a second passes, a key is pressed, or a line is typed (where one is asked for).
\<close>

datatype menu_event = Second | Pressed u8 | Line input

text \<open>A second: whether the timeout has expired.\<close>

definition menu_second :: "('w, 't) shell \<Rightarrow> bool \<times> ('w, 't) shell" where
  "menu_second s =
     (if sint (grub_timeout s) < 0 then (False, s)
      else if grub_timeout s = 0 then (True, s\<lparr>grub_timeout := -1\<rparr>)
      else (False, s\<lparr>grub_timeout := grub_timeout s - 1\<rparr>))"

text \<open>The menu is hidden until the escape key is pressed; the result tells whether the default entry is to be booted.\<close>

fun hidden_menu :: "menu_event list \<Rightarrow> ('w, 't) shell \<Rightarrow> (bool option \<times> menu_event list \<times> ('w, 't) shell)" where
  "hidden_menu [] s = (None, [], s)"
| "hidden_menu (e # events) s =
     (case e of
        Pressed c \<Rightarrow> if c = 27 then (Some False, events, s\<lparr>grub_timeout := -1, show_menu := True\<rparr>) else hidden_menu events s
      | Second \<Rightarrow> (case menu_second s of (expired, s') \<Rightarrow> if expired then (Some True, events, s') else hidden_menu events s')
      | Line _ \<Rightarrow> hidden_menu events s)"

text \<open>The loop over the keys up to an action other than \<open>Again\<close>; none if the menu waits for the next event.\<close>

fun menu_wait :: "('w, 't) menu_env \<Rightarrow> menu_event list \<Rightarrow> menu_state \<Rightarrow> history \<Rightarrow> ('w, 't) shell
    \<Rightarrow> (menu_action option \<times> menu_event list \<times> menu_state \<times> history \<times> ('w, 't) shell) option" where
  "menu_wait me [] m h s = Some (None, [], m, h, s)"
| "menu_wait me (e # events) m h s =
     (case e of
        Pressed c \<Rightarrow> do { (a, m', h', s') \<leftarrow> menu_key me c m h s; if a = Again then menu_wait me events m' h' s' else Some (Some a, events, m', h', s') }
      | Second \<Rightarrow> (case menu_second s of (expired, s') \<Rightarrow> if expired then Some (Some Timeout, events, m, h, s') else menu_wait me events m h s')
      | Line _ \<Rightarrow> menu_wait me events m h s)"

text \<open>The start of the menu: the selection of the history, and the bar within twelve lines.\<close>

function scroll_bar :: "menu_state \<Rightarrow> menu_state" where
  "scroll_bar m = (if 11 < entryno m then scroll_bar (m\<lparr>first_entry := first_entry m + 1, entryno := entryno m - 1\<rparr>) else m)"
  by pat_completeness auto
termination by (relation "measure (\<lambda>m. nat (entryno m))") auto

declare scroll_bar.simps [simp del]

definition start_menu :: "bool \<Rightarrow> menu_state \<Rightarrow> history \<Rightarrow> ('w, 't) shell \<Rightarrow> menu_state \<times> history \<times> ('w, 't) shell" where
  "start_menu dumb m h s =
     (let k = config_file_history_menu_pos h;
          saved = snd (config_file_history h ! nat k);
          m1 = (if k \<noteq> -1 then m\<lparr>entryno := fst saved, first_entry := snd saved\<rparr> else m);
          m2 = (if dumb then m1 else scroll_bar m1)
      in (m2, h\<lparr>config_file_history_menu_pos := -1\<rparr>, if sint (grub_timeout s) < 0 then s\<lparr>show_menu := True\<rparr> else s))"

text \<open>
  The password that is typed. The string in \<open>password\<close> may be followed by the name of a configuration file; the space in between is overwritten. The
  result none is a wrong password.
\<close>

definition menu_password :: "('w, 't) menu_env \<Rightarrow> u8 list \<Rightarrow> ('w, 't) shell \<Rightarrow> (menu_action option \<times> ('w, 't) shell) option" where
  "menu_password me entered s =
     do { pw \<leftarrow> password s;
          let stop = (\<lambda>c. c = 0 \<or> grub_isspace (sint c));
          let n = length (takeWhile (\<lambda>c. \<not> stop c) pw);
          if length pw \<le> n then None
          else do {
            let s1 = s\<lparr>password := Some (pw[n := 0])\<rparr>;
            r \<leftarrow> check_password (me_md5 me) (me_md5_vars me) entered (take n pw) (password_type s);
            if r \<noteq> 0 then Some (None, s1)
            else do {
              name \<leftarrow> c_string (dropWhile (\<lambda>c. grub_isspace (sint c)) (drop (n + 1) pw)) 0;
              if name = [] then Some (Some Restart, s1\<lparr>auth := True\<rparr>)
              else if length name < CONFIG_FILE_LEN then Some (Some Leave, s1\<lparr>config_file := name, auth := False\<rparr>)
              else None } } }"

text \<open>The menu for the lines of an entry.\<close>

function copy_lines :: "u8 list \<Rightarrow> nat \<Rightarrow> u8 list list option" where
  "copy_lines xs p =
     (case c_string xs p of
        None \<Rightarrow> None
      | Some l \<Rightarrow> Option.bind (rd xs (p + length l + 1)) (\<lambda>c.
          if c \<noteq> 0 then map_option ((#) l) (copy_lines xs (p + length l + 1)) else Some [l]))"
  by pat_completeness auto
termination by (relation "measure (\<lambda>(xs, p). length xs - p)") (auto simp: c_string_def split: if_splits)

declare copy_lines.simps [simp del]

definition new_menu :: "int \<Rightarrow> int \<Rightarrow> u8 list \<Rightarrow> u8 list option \<Rightarrow> menu_state" where
  "new_menu entry n text config =
     \<lparr>first_entry = 0, entryno = entry, menu_num = n, menu_text = text, config_text = config, search_mode = False, search_found = 0,
      search_direction = False, search_buf = [], shortcut_buf = []\<rparr>"

definition entry_menu :: "menu_state \<Rightarrow> menu_state option" where
  "entry_menu m =
     do { list \<leftarrow> config_text m;
          p \<leftarrow> get_entry list 0 (nat (selected m)) True;
          ls \<leftarrow> copy_lines list p;
          Some (new_menu 0 (int (length ls)) (concat (map (\<lambda>l. l @ [0]) ls) @ [0]) None) }"

text \<open>The line that replaces the selected one; an empty line becomes a space.\<close>

definition edit_line :: "('w, 't) menu_env \<Rightarrow> input \<Rightarrow> menu_state \<Rightarrow> ('w, 't) shell \<Rightarrow> (menu_state \<times> ('w, 't) shell) option" where
  "edit_line me i m s =
     do { p \<leftarrow> get_entry (menu_text m) 0 (nat (selected m)) False;
          l \<leftarrow> c_string (menu_text m) p;
          let s1 = set_dev ((dev (files s))\<lparr>saved_drive := boot_drive s, saved_partition := install_partition s, current_drive := GRUB_INVALID_DRIVE\<rparr>) s;
          _ \<leftarrow> (if var_expand_line_edit s1 then map_option (\<lambda>_. ()) (var_sprint_buf (serr s1 = ERR_NONE) (vars s1) (buffer_junk (me_shell me)) (me_sprint_buf me) l)
                else Some ());
          case i of
            Escape \<Rightarrow> Some (m, s1)
          | Typed new \<Rightarrow> do {
              t \<leftarrow> move_text (menu_text m) p (p + length l + 1) ((if new = [] then [0x20] else new) @ [0]);
              Some (m\<lparr>menu_text := t\<rparr>, s1) } }"

text \<open>The inputs of the command line that is left with the escape key.\<close>

fun shell_inputs :: "menu_event list \<Rightarrow> input list \<times> menu_event list" where
  "shell_inputs (Line Escape # events) = ([Escape], events)"
| "shell_inputs (Line i # events) = (case shell_inputs events of (is, events') \<Rightarrow> (i # is, events'))"
| "shell_inputs events = ([], events)"

text \<open>
  \<open>run_menu\<close> for a sequence of events. The result tells whether it has returned or waits for the next event. A menu that edits an entry runs
  within the menu of the configuration.
\<close>

type_synonym ('w, 't) menu_result = "(bool \<times> menu_event list \<times> history \<times> ('w, 't) shell) close_result"

partial_function (option) run_menu :: "('w, 't) menu_env \<Rightarrow> menu_event list \<Rightarrow> menu_state \<Rightarrow> history \<Rightarrow> ('w, 't) shell \<Rightarrow> ('w, 't) menu_result option" where
  "run_menu me events m0 h0 s0 =
     (let (m, h, s) = start_menu (me_dumb me) m0 h0 s0;
          (expired, events1, s1) = (if show_menu s then (Some False, events, s) else hidden_menu events s)
      in if expired = None then Some (Closed (False, [], h, s1))
         else Option.bind (if expired = Some True then Some (Some Timeout, events1, m, h, s1) else menu_wait me events1 m h s1) (\<lambda>(action, ev, m', h', s').
           case action of
             None \<Rightarrow> Some (Closed (False, [], h', s'))
           | Some Leave \<Rightarrow> Some (Closed (True, ev, h', s'))
           | Some Boot \<Rightarrow>
               Option.bind (boot_entry (me_shell me) (me_table me) (config_text m') (if config_text m' = None then Some (menu_text m') else None) (first_entry m') (entryno m') s') (\<lambda>res.
                 if_closed res (\<lambda>(first, entry, s''). run_menu me ev (m'\<lparr>first_entry := first, entryno := entry\<rparr>) h' s''))
           | Some Timeout \<Rightarrow>
               Option.bind (boot_entry (me_shell me) (me_table me) (config_text m') None (first_entry m') (entryno m') s') (\<lambda>res.
                 if_closed res (\<lambda>(first, entry, s''). run_menu me ev (m'\<lparr>first_entry := first, entryno := entry\<rparr>) h' s''))
           | Some Password \<Rightarrow>
               (case ev of
                  Line i # ev' \<Rightarrow>
                    Option.bind (menu_password me (case i of Escape \<Rightarrow> [] | Typed l \<Rightarrow> take 30 l) s') (\<lambda>(a, s'').
                      if a = Some Leave then Some (Closed (True, ev', h', s''))
                      else if a = None
                      then (case ev' of Pressed _ # ev'' \<Rightarrow> run_menu me ev'' m' h' s'' | _ \<Rightarrow> Some (Closed (False, [], h', s'')))
                      else run_menu me ev' m' h' s'')
                | _ \<Rightarrow> Some (Closed (False, [], h', s')))
           | Some Edit \<Rightarrow>
               if config_text m' \<noteq> None
               then Option.bind (entry_menu m') (\<lambda>e. Option.bind (run_menu me ev e h' s') (\<lambda>res.
                      if_closed res (\<lambda>(left, ev', h'', s''). if left then run_menu me ev' m' h'' s'' else Some (Closed (False, [], h'', s'')))))
               else (case ev of
                       Line i # ev' \<Rightarrow> Option.bind (edit_line me i m' s') (\<lambda>(m'', s''). run_menu me ev' m'' h' s'')
                     | _ \<Rightarrow> Some (Closed (False, [], h', s')))
           | Some Commandline \<Rightarrow>
               (case shell_inputs ev of (is, ev') \<Rightarrow>
                  Option.bind (enter_cmdline (me_shell me) (me_table me) is s') (\<lambda>res.
                    if_closed res (\<lambda>(left, s''). if left then run_menu me ev' m' h' s'' else Some (Closed (False, [], h', s'')))))
           | Some _ \<Rightarrow> run_menu me ev m' h' s'))"

section \<open>The rounds of \<open>cmain\<close>\<close>

text \<open>What the outer loop takes from the stack and the keyboard in each round.\<close>

record cmain_env =
  cm_name_junk :: "nat \<Rightarrow> u8 list"
  cm_buf_junk :: "nat \<Rightarrow> u8 list"
  cm_escape :: "nat \<Rightarrow> nat \<Rightarrow> bool"

text \<open>
  The loop of \<open>cmain\<close> from round \<open>i\<close> on: the configuration, and the menu of its entries or the command line. It never returns; the result is that of the last event.
\<close>

partial_function (option) cmain :: "('w, 't) menu_env \<Rightarrow> cmain_env \<Rightarrow> nat \<Rightarrow> menu_event list \<Rightarrow> history \<Rightarrow> ('w, 't) shell
    \<Rightarrow> (history \<times> ('w, 't) shell) close_result option" where
  "cmain me ce i events h s =
     Option.bind (cmain_round (me_shell me) (me_table me) (cm_name_junk ce i) (cm_buf_junk ce i) (cm_escape ce i) s) (\<lambda>res. if_closed res (\<lambda>(c, s1).
       let h1 = (if c = None then h else save_history (config_file s1) h);
           n = (case c of None \<Rightarrow> 0 | Some c \<Rightarrow> num_entries c)
       in if n = 0
          then (case shell_inputs events of (is, events') \<Rightarrow>
                 Option.bind (enter_cmdline (me_shell me) (me_table me) is s1) (\<lambda>res. if_closed res (\<lambda>(left, s2).
                   if left then cmain me ce (i + 1) events' h1 s2 else Some (Closed (h1, s2)))))
          else Option.bind (run_menu me events (new_menu (sint (default_entry s1)) (int n) (menu_entries (the c)) (Some (config_entries (the c)))) h1 s1) (\<lambda>res.
                 if_closed res (\<lambda>(left, events', h2, s2). if left then cmain me ce (i + 1) events' h2 s2 else Some (Closed (h2, s2))))))"

section \<open>The selection\<close>

text \<open>The bar is on one of the twelve lines that are shown, and these are lines of the menu.\<close>

definition menu_ok :: "menu_state \<Rightarrow> bool" where
  "menu_ok m \<longleftrightarrow> 0 \<le> first_entry m \<and> 0 \<le> entryno m \<and> entryno m \<le> 11 \<and> selected m < menu_num m \<and> (first_entry m = 0 \<or> first_entry m + 12 \<le> menu_num m)"

text \<open>What a key does not change in the menu of the configuration.\<close>

definition same_menu :: "menu_state \<Rightarrow> menu_state \<Rightarrow> bool" where
  "same_menu m m' \<longleftrightarrow> menu_num m' = menu_num m \<and> menu_text m' = menu_text m \<and> config_text m' = config_text m"

lemma set_bar_ok: "0 \<le> i \<Longrightarrow> i < menu_num m \<Longrightarrow> menu_ok (set_bar_to i m)"
  by (auto simp: menu_ok_def set_bar_to_def selected_def)

lemma set_bar_same [simp]: "same_menu m (set_bar_to i m)" "menu_num (set_bar_to i m) = menu_num m"
  by (auto simp: same_menu_def set_bar_to_def)

lemma same_menu_refl [simp]: "same_menu m m"
  by (simp add: same_menu_def)

lemma same_menu_trans: "same_menu m m' \<Longrightarrow> same_menu m' m'' \<Longrightarrow> same_menu m m''"
  by (simp add: same_menu_def)

lemma search_loop_range:
  assumes "search_loop me s m back current i = Some j" and "0 \<le> i" and "i < menu_num m"
  shows "j = -1 \<or> 0 \<le> j \<and> j < menu_num m"
proof -
  have "0 \<le> i \<longrightarrow> i < menu_num m \<longrightarrow> j = -1 \<or> 0 \<le> j \<and> j < menu_num m"
  proof (rule search_loop.raw_induct [where P = "\<lambda>me s m back current i j. 0 \<le> i \<longrightarrow> i < menu_num m \<longrightarrow> j = -1 \<or> 0 \<le> j \<and> j < menu_num m", OF _ assms(1)], intro impI, goal_cases)
    case prems: (1 again env sh m bk start i j)
    obtain t where body: "(if search_matches (search_buf m) t then Some i
       else let i' = (if bk then (if i = 0 then menu_num m else i) - 1 else if i + 1 = menu_num m then 0 else i + 1)
            in if i' = start then Some (-1) else again env sh m bk start i') = Some j"
      using prems(2) unfolding Option.bind_eq_Some_conv by blast
    show ?case
    proof (cases "search_matches (search_buf m) t")
      case False
      define i' where "i' = (if bk then (if i = 0 then menu_num m else i) - 1 else if i + 1 = menu_num m then 0 else i + 1)"
      have "0 \<le> i'" "i' < menu_num m" using prems(3,4) by (auto simp: i'_def)
      moreover have "if i' = start then j = -1 else again env sh m bk start i' = Some j"
        using body False by (auto simp: Let_def simp flip: i'_def split: if_splits)
      ultimately show ?thesis using prems(1) by (metis (full_types))
    qed (use body prems(3,4) in simp)
  qed
  then show ?thesis using assms(2,3) by blast
qed

lemma search_menu_ok:
  assumes "search_menu me s back onward m = Some (i, m')"
  shows "same_menu m m' \<and> (menu_ok m \<longrightarrow> menu_ok m')"
proof -
  define c where "c = (if \<not> onward then selected m else let cur1 = (if back then selected m - 1 else selected m + 1)
      in if cur1 < 0 then menu_num m - 1 else if cur1 = menu_num m then 0 else cur1)"
  have c: "menu_ok m \<Longrightarrow> 0 \<le> c \<and> c < menu_num m" by (auto simp: c_def menu_ok_def selected_def Let_def)
  have "search_loop me s m back c c = Some i" "m' = (if i = -1 then m else set_bar_to i m)"
    using assms(1) by (auto simp: search_menu_def Let_def Option.bind_eq_Some_conv c_def split: if_splits)
  moreover from this(1) have "menu_ok m \<Longrightarrow> i = -1 \<or> 0 \<le> i \<and> i < menu_num m" using search_loop_range c by blast
  ultimately show ?thesis using set_bar_ok [of i m] by auto
qed

lemma menu_ok_upd [simp]:
  "menu_ok (m\<lparr>search_mode := a\<rparr>) = menu_ok m" "menu_ok (m\<lparr>search_found := i\<rparr>) = menu_ok m" "menu_ok (m\<lparr>search_buf := b\<rparr>) = menu_ok m"
  "menu_ok (m\<lparr>search_direction := a\<rparr>) = menu_ok m" "menu_ok (m\<lparr>shortcut_buf := b\<rparr>) = menu_ok m"
  "same_menu m (m'\<lparr>search_mode := a\<rparr>) = same_menu m m'" "same_menu m (m'\<lparr>search_found := i\<rparr>) = same_menu m m'" "same_menu m (m'\<lparr>search_buf := b\<rparr>) = same_menu m m'"
  "same_menu m (m'\<lparr>search_direction := a\<rparr>) = same_menu m m'" "same_menu m (m'\<lparr>shortcut_buf := b\<rparr>) = same_menu m m'"
  by (simp_all add: menu_ok_def selected_def same_menu_def)

lemma search_key_ok:
  assumes "search_key me c s m = Some (typed, m')"
  shows "same_menu m m' \<and> (menu_ok m \<longrightarrow> menu_ok m')"
  using assms search_menu_ok
  by (fastforce simp: search_key_def Let_def Option.bind_eq_Some_conv same_menu_def split: if_splits)

lemma search_again_ok:
  assumes "search_again me c s m = Some m'"
  shows "same_menu m m' \<and> (menu_ok m \<longrightarrow> menu_ok m')"
  using assms search_menu_ok by (fastforce simp: search_again_def split: if_splits)

lemma shortcut_ok:
  assumes "shortcut_loop digits i k m = Some (k', m')" and "0 \<le> i"
  shows "same_menu m m' \<and> (menu_ok m \<longrightarrow> menu_ok m')"
  using assms
proof (induction digits i k m rule: shortcut_loop.induct)
  case (1 digits i k m)
  show ?case
  proof (cases "menu_num m \<le> i")
    case True
    then show ?thesis using "1.prems" by (subst (asm) shortcut_loop.simps) simp
  next
    case False
    obtain buf n where n: "convert_to_ascii [0, 0, 0, 0] CHR ''d'' (of_int i) = Some (buf, n)" "\<not> length buf \<le> n"
      using "1.prems"(1) False by (subst (asm) shortcut_loop.simps) (auto split: option.splits if_splits)
    consider "\<not> prefix digits (take n buf)" | "prefix digits (take n buf)" "k = 0" | "prefix digits (take n buf)" "k \<noteq> 0" by blast
    then show ?thesis
    proof cases
      case 1
      then show ?thesis using "1.prems" False n "1.IH"(1) [OF False n(1) refl n(2)] by (subst (asm) shortcut_loop.simps) simp
    next
      case 2
      have "menu_ok (set_bar_to i m)" using set_bar_ok "1.prems"(2) False by simp
      then show ?thesis using "1.prems" False n 2 "1.IH"(2) [OF False n(1) refl n(2)] same_menu_trans [OF set_bar_same(1), of i m m']
        by (subst (asm) shortcut_loop.simps) simp
    next
      case 3
      then show ?thesis using "1.prems" False n by (subst (asm) shortcut_loop.simps) simp
    qed
  qed
qed

lemma digit_key_ok:
  assumes "digit_key c m = Some (c', m')"
  shows "same_menu m m' \<and> (menu_ok m \<longrightarrow> menu_ok m')"
  using assms shortcut_ok by (fastforce simp: digit_key_def Let_def Option.bind_eq_Some_conv split: if_splits)

lemma move_bar_ok: "menu_ok m \<Longrightarrow> menu_ok (move_bar False c m)"
  by (auto simp: menu_ok_def move_bar_def move_up_def move_down_def page_up_def page_down_def selected_def)

lemma move_bar_same: "same_menu m (move_bar dumb c m)"
  by (simp add: same_menu_def move_bar_def move_up_def move_down_def page_up_def page_down_def)

lemma second_keeps: "menu_second s = (expired, s') \<Longrightarrow> files s' = files s \<and> auth s' = auth s \<and> password s' = password s \<and> config_file s' = config_file s \<and> vars s' = vars s"
  by (auto simp: menu_second_def split: if_splits)

text \<open>A key in the menu of the configuration.\<close>

text \<open>The steps of a key that is not part of a search, up to its action.\<close>

lemma menu_key_steps:
  assumes "menu_key me c m h s = Some (a, m', h', s')" and "config_text m \<noteq> None"
  obtains (typed) t m1 where "t = (if 0 \<le> sint (grub_timeout s) then s\<lparr>grub_timeout := -1, fallback_entryno := -1\<rparr> else s)"
      "same_menu m m1" "menu_ok m \<Longrightarrow> menu_ok m1" "(a, m', h', s') = (Again, m1, h, t)"
  | (key) t m3 c' where "t = (if 0 \<le> sint (grub_timeout s) then s\<lparr>grub_timeout := -1, fallback_entryno := -1\<rparr> else s)"
      "same_menu m m3" "menu_ok m \<Longrightarrow> menu_ok m3" "m' = move_bar (me_dumb me) c' m3"
      "(a, h', s') = (Leave, h, t\<lparr>config_file := MASTER_CONFIG_FILE\<rparr>) \<or> config_key c' m' h t = (Some a, h', s')
       \<or> (\<exists>s2. config_key c' m' h t = (None, h', s2) \<and> protected_key c' s2 = Some (a, s'))"
proof -
  define t where "t = (if 0 \<le> sint (grub_timeout s) then s\<lparr>grub_timeout := -1, fallback_entryno := -1\<rparr> else s)"
  obtain fin m1 where m1: "search_key me c t m = Some (fin, m1)" using assms(1) by (auto simp: menu_key_def Let_def t_def Option.bind_eq_Some_conv)
  have s1: "same_menu m m1" "menu_ok m \<Longrightarrow> menu_ok m1" using search_key_ok [OF m1] by blast+
  show thesis
  proof (cases fin)
    case True
    then show ?thesis using assms(1) m1 s1 by (intro typed [OF t_def s1]) (simp_all add: menu_key_def t_def [symmetric] Let_def)
  next
    case False
    obtain m2 c' m3 where m2: "search_again me c t m1 = Some m2" "digit_key c m2 = Some (c', m3)"
      using assms(1) m1 False by (auto simp: menu_key_def t_def [symmetric] Let_def Option.bind_eq_Some_conv)
    have s3: "same_menu m m3" "menu_ok m \<Longrightarrow> menu_ok m3"
      using search_again_ok [OF m2(1)] digit_key_ok [OF m2(2)] s1 same_menu_trans by blast+
    let ?m = "move_bar (me_dumb me) c' m3"
    have "same_menu m ?m" using same_menu_trans [OF s3(1) move_bar_same] .
    then have cfg: "config_text ?m \<noteq> None" using assms(2) by (simp add: same_menu_def)
    obtain b h1 s2 where k: "config_key c' ?m h t = (b, h1, s2)" using prod_cases3 by blast
    have "(if c' = 0x4d then Some (Leave, ?m, h, t\<lparr>config_file := MASTER_CONFIG_FILE\<rparr>)
       else case b of Some a \<Rightarrow> Some (a, ?m, h1, s2)
            | None \<Rightarrow> Option.bind (protected_key c' s2) (\<lambda>(a, s''). Some (a, ?m, h1, s''))) = Some (a, m', h', s')"
      using assms(1) m1 m2 False cfg k unfolding menu_key_def Let_def t_def [symmetric] by (cases "c' = 0x4d"; cases b) auto
    then show ?thesis
      using k by (intro key [where c' = c', OF t_def s3]) (auto simp: Option.bind_eq_Some_conv split: if_splits option.splits)
  qed
qed

lemma menu_key_ok:
  assumes "menu_key me c m h s = Some (a, m', h', s')" and "menu_ok m" and "\<not> me_dumb me" and "config_text m \<noteq> None"
  shows "menu_ok m' \<and> same_menu m m'"
  using assms(1,4)
proof (cases rule: menu_key_steps)
  case (key t m3 c')
  then show ?thesis using move_bar_ok same_menu_trans [OF key(2) move_bar_same] assms(2,3) by simp
qed (use assms(2) in auto)

lemma menu_wait_ok:
  assumes "menu_wait me events m h s = Some (a, ev, m', h', s')" and "menu_ok m" and "\<not> me_dumb me" and "config_text m \<noteq> None"
  shows "menu_ok m' \<and> same_menu m m'"
  using assms
proof (induction me events m h s rule: menu_wait.induct)
  case (2 me e events m h s)
  show ?case
  proof (cases e)
    case Second
    then show ?thesis using 2 by (auto split: prod.splits if_splits)
  next
    case (Pressed c)
    then obtain b m1 h1 s1 where k: "menu_key me c m h s = Some (b, m1, h1, s1)" using "2.prems"(1) by (auto simp: Option.bind_eq_Some_conv)
    then have ok: "menu_ok m1 \<and> same_menu m m1" using menu_key_ok "2.prems" by blast
    show ?thesis
    proof (cases "b = Again")
      case True
      then have "menu_ok m' \<and> same_menu m1 m'"
        using 2 Pressed k ok by (simp add: same_menu_def)
      then show ?thesis using ok same_menu_trans by blast
    next
      case False
      then show ?thesis using "2.prems"(1) Pressed k ok by simp
    qed
  next
    case (Line i)
    then show ?thesis using 2 by simp
  qed
qed simp

lemma scroll_bar_ok:
  "0 \<le> first_entry m \<Longrightarrow> 0 \<le> entryno m \<Longrightarrow> selected m < menu_num m \<Longrightarrow> first_entry m = 0 \<or> 11 \<le> entryno m
    \<Longrightarrow> menu_ok (scroll_bar m) \<and> same_menu m (scroll_bar m)"
proof (induction m rule: scroll_bar.induct)
  case (1 m)
  show ?case
  proof (cases "11 < entryno m")
    case True
    let ?m = "m\<lparr>first_entry := first_entry m + 1, entryno := entryno m - 1\<rparr>"
    have "menu_ok (scroll_bar ?m) \<and> same_menu ?m (scroll_bar ?m)" using "1.IH" [OF True] "1.prems" True by (simp add: selected_def)
    then show ?thesis using True by (subst (1 2) scroll_bar.simps) (simp add: same_menu_def)
  next
    case False
    then show ?thesis using "1.prems" by (subst (1 2) scroll_bar.simps) (auto simp: menu_ok_def selected_def)
  qed
qed

text \<open>
  The selection of the menu. On a terminal that can move its cursor, whatever keys are pressed, searched or typed as digits in the menu of a configuration, the bar
  stays on one of the twelve lines that are shown, the selected entry is one of the menu, and the entries are as they were loaded.
\<close>

lemma menu_selects:
  assumes "0 \<le> d" and "d < n" and "\<not> me_dumb me" and "config_file_history_menu_pos h = -1"
    and start: "start_menu (me_dumb me) (new_menu d n titles (Some bodies)) h s = (m0, h0, s0)"
    and run: "menu_wait me events m0 h0 s0 = Some (action, ev, m, h', s')"
  shows "0 \<le> entryno m \<and> entryno m < 12 \<and> 0 \<le> selected m \<and> selected m < n \<and> menu_num m = n \<and> menu_text m = titles \<and> config_text m = Some bodies"
proof -
  let ?m = "new_menu d n titles (Some bodies)"
  have "m0 = scroll_bar ?m" using start assms(3,4) by (auto simp: start_menu_def Let_def)
  then have m0: "menu_ok m0" "same_menu ?m m0" using scroll_bar_ok [of ?m] assms(1,2) by (simp_all add: new_menu_def selected_def)
  then have "menu_ok m \<and> same_menu m0 m" using menu_wait_ok [OF run _ assms(3)] by (simp add: same_menu_def new_menu_def)
  then show ?thesis using m0(2) by (auto simp: menu_ok_def same_menu_def new_menu_def selected_def)
qed

section \<open>A locked menu\<close>

text \<open>All of the state but the configuration file, the timeout and the next fallback entry.\<close>

definition apart_from_config :: "('w, 't) shell \<Rightarrow> ('w, 't) shell" where
  "apart_from_config s = s\<lparr>config_file := [], grub_timeout := 0, fallback_entryno := 0\<rparr>"

text \<open>The configuration that was loaded before, and the configurations that a menu can be left for.\<close>

definition previous_config :: "history \<Rightarrow> u8 list" where
  "previous_config h = fst (config_file_history h ! (if config_file_history_prev_pos h = 0 then CONFIG_FILE_HISTORY_ENTRIES - 1 else config_file_history_prev_pos h - 1))"

definition known_config :: "history \<Rightarrow> ('w, 't) shell \<Rightarrow> u8 list \<Rightarrow> bool" where
  "known_config h s f \<longleftrightarrow> f \<in> {config_file s, MASTER_CONFIG_FILE, previous_config h}"

definition stays_locked :: "history \<Rightarrow> ('w, 't) shell \<Rightarrow> ('w, 't) shell \<Rightarrow> bool" where
  "stays_locked h s s' \<longleftrightarrow> apart_from_config s' = apart_from_config s \<and> known_config h s (config_file s')"

lemma apart_simps [simp]:
  "apart_from_config (s\<lparr>config_file := f\<rparr>) = apart_from_config s" "apart_from_config (s\<lparr>grub_timeout := t\<rparr>) = apart_from_config s"
  "apart_from_config (s\<lparr>fallback_entryno := e\<rparr>) = apart_from_config s"
  by (simp_all add: apart_from_config_def)

lemma apart_locked: "apart_from_config s' = apart_from_config s \<Longrightarrow> locked s \<Longrightarrow> locked s'"
proof -
  have "locked (apart_from_config x) = locked x" for x :: "('a, 'b) shell" by (simp add: apart_from_config_def locked_def)
  then show "apart_from_config s' = apart_from_config s \<Longrightarrow> locked s \<Longrightarrow> locked s'" by metis
qed

lemma config_key_keeps:
  assumes "config_key c m h s = (a, h', s')"
  shows "a \<in> {None, Some Leave, Some Boot} \<and> (a = None \<longrightarrow> h' = h \<and> s' = s) \<and> stays_locked h s s'"
  using assms by (auto simp: config_key_def Let_def stays_locked_def known_config_def previous_config_def split: if_splits)

lemma menu_key_locked:
  assumes "menu_key me c m h s = Some (a, m', h', s')" and "locked s" and "config_text m \<noteq> None"
  shows "a \<in> {Again, Leave, Boot, Password} \<and> same_menu m m' \<and> stays_locked h s s' \<and> (a = Again \<longrightarrow> h' = h \<and> config_file s' = config_file s)"
  using assms(1,3)
proof (cases rule: menu_key_steps)
  case (typed t m1)
  then show ?thesis by (simp add: stays_locked_def known_config_def)
next
  case (key t m3 c')
  have same: "same_menu m m'" using same_menu_trans [OF key(2) move_bar_same] key(4) by simp
  have t: "apart_from_config t = apart_from_config s" "config_file t = config_file s" using key(1) by simp_all
  then have locked: "locked t" using apart_locked assms(2) by blast
  have "a \<in> {Again, Leave, Boot, Password} \<and> stays_locked h t s' \<and> (a = Again \<longrightarrow> h' = h \<and> config_file s' = config_file t)"
    using key(5)
  proof (elim disjE exE conjE)
    fix s2 assume k: "config_key c' m' h t = (None, h', s2)" "protected_key c' s2 = Some (a, s')"
    have "h' = h" "s2 = t" using config_key_keeps [OF k(1)] by auto
    then show ?thesis using k(2) locked by (auto simp: protected_key_def stays_locked_def known_config_def split: if_splits)
  next
    assume "config_key c' m' h t = (Some a, h', s')"
    then show ?thesis using config_key_keeps by fastforce
  qed (simp add: stays_locked_def known_config_def)
  then show ?thesis using t same by (simp add: stays_locked_def known_config_def)
qed

lemma menu_wait_locked:
  assumes "menu_wait me events m h s = Some (a, ev, m', h', s')" and "locked s" and "config_text m \<noteq> None"
  shows "a \<in> {None, Some Leave, Some Boot, Some Timeout, Some Password} \<and> same_menu m m' \<and> stays_locked h s s'"
  using assms
proof (induction me events m h s rule: menu_wait.induct)
  case (2 me e events m h s)
  have lock: "locked s2" if "stays_locked h s s2" for s2 using that "2.prems"(2) apart_locked by (auto simp: stays_locked_def)
  have trans: "stays_locked h s s'" if "stays_locked h s s2" "config_file s2 = config_file s" "stays_locked h s2 s'" for s2
    using that by (simp add: stays_locked_def known_config_def)
  show ?case
  proof (cases e)
    case Second
    obtain x s2 where x: "menu_second s = (x, s2)" by (metis surj_pair)
    then have s2: "stays_locked h s s2" "config_file s2 = config_file s"
      by (auto simp: menu_second_def stays_locked_def known_config_def split: if_splits)
    show ?thesis
    proof (cases x)
      case False
      then show ?thesis using 2 Second x lock [OF s2(1)] trans [OF s2] by simp
    qed (use "2.prems"(1) Second x s2 in simp)
  next
    case (Pressed c)
    then obtain b m1 h1 s1 where k: "menu_key me c m h s = Some (b, m1, h1, s1)" using "2.prems"(1) by (auto simp: Option.bind_eq_Some_conv)
    note kl = menu_key_locked [OF k "2.prems"(2,3)]
    show ?thesis
    proof (cases "b = Again")
      case True
      then have "a \<in> {None, Some Leave, Some Boot, Some Timeout, Some Password} \<and> same_menu m1 m' \<and> stays_locked h s1 s'"
        using 2 Pressed k kl lock by (simp add: same_menu_def)
      then show ?thesis using kl trans [of s1] True same_menu_trans [of m m1 m'] by blast
    next
      case False
      then show ?thesis using "2.prems"(1) Pressed k kl by auto
    qed
  next
    case (Line i)
    then show ?thesis using 2 by simp
  qed
qed (simp add: stays_locked_def known_config_def)

text \<open>
  C40. A locked menu. As long as there is a password and the user has not entered it, the menu of a configuration lets nobody edit an entry, use the command line or
  switch variables, whatever keys are pressed: it can only boot an entry as it was loaded, ask for the password, or be left for the configuration that was loaded before it or for the
  one on the network. But for that configuration, the timeout and the next fallback entry the boot loader is as it was before.
\<close>

theorem menu_locked:
  assumes "locked s" and "config_text m \<noteq> None" and "menu_wait me events m h s = Some (action, ev, m', h', s')"
  shows "action \<in> {None, Some Leave, Some Boot, Some Timeout, Some Password} \<and> same_menu m m' \<and> apart_from_config s' = apart_from_config s
    \<and> config_file s' \<in> {config_file s, MASTER_CONFIG_FILE, previous_config h}"
  using menu_wait_locked [OF assms(3,1,2)] by (simp add: stays_locked_def known_config_def)

text \<open>The menu of the configuration with one entry, locked by a password.\<close>

definition cd_menu_env :: "(u8 list, soft_pcrs) menu_env" where
  "cd_menu_env = \<lparr>me_shell = cd_shell_env, me_table = cd_table, me_dumb = False, me_sprint_buf = replicate 1500 0, me_md5 = True,
     me_md5_vars = ca_md5_vars cd_args\<rparr>"

definition small_menu :: menu_state where
  "small_menu = new_menu 0 1 (ascii ''A'' @ [0, 0]) (Some (ascii ''debug'' @ [0, 0, 0]))"

definition no_history :: history where
  "no_history = \<lparr>config_file_history = replicate 10 (replicate 128 0, 0, 0), config_file_history_pos = 1, config_file_history_start = 0,
     config_file_history_prev_pos = 0, config_file_history_menu_pos = -1\<rparr>"

lemma menu_locked_witness:
  "\<exists>m' s'. menu_wait cd_menu_env [Pressed 0x65, Pressed 0x63, Pressed 0x70] small_menu no_history cd_shell = Some (Some Password, [], m', no_history, s')
     \<and> same_menu small_menu m' \<and> apart_from_config s' = apart_from_config cd_shell"
proof -
  have l: "locked cd_shell" by (simp add: locked_def cd_shell_def blank_shell_def)
  have m: "config_text small_menu \<noteq> None" by (simp add: small_menu_def new_menu_def)
  define t where "t = cd_shell\<lparr>grub_timeout := -1, fallback_entryno := -1\<rparr>"
  have t: "(if 0 \<le> sint (grub_timeout s) then s\<lparr>grub_timeout := -1, fallback_entryno := -1\<rparr> else s) = t" if "s \<in> {cd_shell, t}" for s
    using that by (auto simp: t_def cd_shell_def blank_shell_def)
  have lt: "locked t" using l by (simp add: t_def locked_def)
  have m': "\<not> search_mode small_menu" "small_menu\<lparr>shortcut_buf := []\<rparr> = small_menu" by (simp_all add: small_menu_def new_menu_def)
  have h: "config_file_history_prev_pos no_history = 0" "config_file_history_start no_history = 0" by (simp_all add: no_history_def)
  have key: "menu_key cd_menu_env c small_menu no_history s = Some (if c = 0x70 then Password else Again, small_menu, no_history, t)"
    if "s \<in> {cd_shell, t}" "c = 0x65 \<or> c = 0x63 \<or> c = 0x70" for c s
    unfolding menu_key_def t [OF that(1)] Let_def
    using that(2) m m' h lt
    by (elim disjE) (simp_all add: search_key_def search_again_def digit_key_def move_bar_def config_key_def protected_key_def)
  have run: "menu_wait cd_menu_env [Pressed 0x65, Pressed 0x63, Pressed 0x70] small_menu no_history cd_shell = Some (Some Password, [], small_menu, no_history, t)"
    using key [of cd_shell "0x65"] key [of t "0x63"] key [of t "0x70"] by simp
  show ?thesis using run menu_locked [OF l m run] by auto
qed

section \<open>A terminal without cursor\<close>

text \<open>
  Paging down on a dumb terminal. There the bar is on any line and the first one stays the first one of the menu, as the comment in \<open>run_menu\<close> says; but the key for
  the next page moves the first line by twelve or more, so that the selected entry can be one that the menu does not have.
\<close>

lemma dumb_page_down_leaves:
  assumes dumb: "me_dumb me" and m: "config_text m \<noteq> None" "\<not> search_mode m" "first_entry m = 0" "23 < menu_num m"
    and last: "menu_num m - 12 \<le> entryno m" "entryno m < menu_num m" and s: "toggles s = []"
  shows "\<exists>m' h' s'. menu_wait me [Pressed 3, Pressed 13] m h s = Some (Some Boot, [], m', h', s') \<and> menu_num m \<le> selected m'"
proof -
  define t where "t = (if 0 \<le> sint (grub_timeout s) then s\<lparr>grub_timeout := -1, fallback_entryno := -1\<rparr> else s)"
  have t: "toggles t = []" "\<not> 0 \<le> sint (grub_timeout t)" using s by (auto simp: t_def)
  let ?m = "m\<lparr>shortcut_buf := [], first_entry := 12\<rparr>"
  have "protected_key 3 t = Some (Again, t)" using t(1) by (simp add: protected_key_def toggle_do_key_def toggle_find_slot_def)
  then have down: "menu_key me 3 m h s = Some (Again, ?m, h, t)"
    using dumb m unfolding menu_key_def Let_def t_def [symmetric]
    by (simp add: search_key_def search_again_def digit_key_def move_bar_def page_down_def config_key_def)
  have "\<exists>h'. menu_key me 13 ?m h t = Some (Boot, ?m, h', t)"
    using t(2) m unfolding menu_key_def Let_def if_not_P [OF t(2)]
    by (simp add: search_key_def search_again_def digit_key_def move_bar_def config_key_def)
  then show ?thesis using down last by (auto simp: selected_def)
qed

end
