(* ===== verification/Spec2Isabelle.thy ===== *)
theory Spec2Isabelle
  imports Measure Md5 DiskIo Partition FileIo Iso9660 IsoLookup Variables Cmdline Machine Config Menu
begin

unbundle bit_operations_syntax

text \<open>
  A verification development for TrustedGRUB, the boot loader GRUB 0.97 with the extension that measures
  what it loads into the platform configuration registers (PCRs) of a TPM.

  \<^bold>\<open>The program.\<close> Stage 2 reads sectors through the BIOS (\<^verbatim>\<open>src/stage2/bios.c\<close>), keeps one track in a
  buffer, finds partitions, opens files through file system drivers (\<^verbatim>\<open>src/stage2/disk_io.c\<close>,
  \<^verbatim>\<open>src/stage2/fsys_*.c\<close>), and runs commands and a menu. The extension hashes every byte read from a
  file while \<open>perform_sha1\<close> is set (\<^verbatim>\<open>src/stage2/sha1.c\<close>), compares the number of bytes with the size of
  the file when it is closed, and extends PCR 14; command lines go into PCR 12. The utilities of
  \<^verbatim>\<open>src/util\<close> recompute the value of a register from the files.

  \<^bold>\<open>The theories.\<close>
  \<^item> \<open>Prelude\<close>: words of the sizes of the code, memory accesses that may fail, lemmas on lists and words,
    and the contract \<open>stream_hash\<close> of a hash that is fed in pieces.
  \<^item> \<open>Sha1\<close> and \<open>Sha1_Fips\<close>: \<^verbatim>\<open>stage2/sha1.c\<close> and \<^verbatim>\<open>util/sha1.c\<close>, macro by macro, for every width of
    \<open>t_U32\<close> from 32 bits on, and the proof that the code computes the function of FIPS 180-1.
  \<^item> \<open>Measure\<close>: \<open>update_pcr\<close> of \<^verbatim>\<open>stage2/boot.c\<close>, \<open>extend_cmdline_into_pcr\<close> of \<^verbatim>\<open>stage2/cmdline.c\<close>, and the
    utilities \<^verbatim>\<open>create_sha1\<close> and \<^verbatim>\<open>verify_pcr\<close>. The locale \<open>tcg_bios\<close> is what the TCG specification
    promises of the interrupt; a TPM in software interprets it.
  \<^item> \<open>CString\<close>: strings, numbers and memory of \<^verbatim>\<open>stage2/char_io.c\<close>.
  \<^item> \<open>Md5\<close>: \<^verbatim>\<open>stage2/md5.c\<close>, against RFC 1321, and the password check.
  \<^item> \<open>Bios\<close>: LBA and CHS access and the probing of a drive's geometry. The interrupt INT 13 is a parameter.
  \<^item> \<open>DiskIo\<close>: the track buffer, reads relative to a partition, writes. The locale \<open>sector_device\<close> is what
    the buffer relies on, \<open>firmware\<close> what the documentation promises of INT 13; it provides
    \<open>sector_device\<close> through the code of \<open>Bios\<close>. A disk in memory interprets both.
  \<^item> \<open>Partition\<close>: PC slices and BSD labels, device names, the active and the hidden flag.
  \<^item> \<open>FileIo\<close>: opening, reading, seeking and closing with the measurement. The locale \<open>fs_reader\<close> is what
    \<open>grub_read\<close> relies on in a file system driver.
  \<^item> \<open>Inflate\<close> and \<open>Gunzip\<close>: \<^verbatim>\<open>stage2/gunzip.c\<close>. The decompressor is written over a source of bytes (\<open>byte_source\<close>); the file that
    is open interprets it, and \<open>gunzip_env\<close> ties it into the file layer.
  \<^item> \<open>Iso9660\<close>: \<^verbatim>\<open>stage2/fsys_iso9660.c\<close>, a driver that provides \<open>fs_reader\<close>, on a CD-ROM in memory; \<open>IsoLookup\<close>: its lookups
    in the root directory, by which it provides \<open>file_server\<close>.
  \<^item> \<open>Checkfile\<close>: \<open>calculate_sha1\<close> and \<open>load_checkfile\<close>, over the contract \<open>file_server\<close> of a file system that finds files by
    their names.
  \<^item> \<open>Variables\<close>: the variables of \<^verbatim>\<open>stage2/builtins.c\<close>, byte by byte, and their abstraction to a map.
  \<^item> \<open>Cmdline\<close>: \<^verbatim>\<open>stage2/cmdline.c\<close> and the table of commands. The locale \<open>measured_shell\<close> is what the measurement of command
    lines relies on: commands that leave register 12 alone.
  \<^item> \<open>Frame\<close>: the file layer leaves the registers alone, but for 14 when a file is closed.
  \<^item> \<open>Boot\<close>: \<open>load_image\<close>, \<open>load_module\<close> and \<open>load_initrd\<close> of \<^verbatim>\<open>stage2/boot.c\<close> on the memory of the machine (\<open>ram\<close>). \<open>BootFrame\<close>: the contract
    \<open>image_frame\<close> between \<open>load_image\<close> and the open file, and the registers; \<open>Booted\<close>: what is measured and what lies in memory afterwards, over
    \<open>file_server\<close>, on a CD-ROM with a kernel.
  \<^item> \<open>Commands\<close>: 32 commands of \<^verbatim>\<open>stage2/builtins.c\<close>, and that they leave register 12 alone.
  \<^item> \<open>Machine\<close>: the table with these commands interprets \<open>measured_shell\<close> on the machine with the CD-ROM and the TPM in software.
  \<^item> \<open>Config\<close>: the configuration file in \<^verbatim>\<open>stage2/stage2.c\<close>: \<open>get_line_from_config\<close> and the part of \<open>cmain\<close> that loads the entries of the menu.
  \<^item> \<open>Menu\<close>: \<open>run_menu\<close> and the rounds of \<open>cmain\<close> over a list of events (keys, seconds, typed lines), and the loop that boots an entry.
  \<^item> This theory: scripts and typed lines are measured.

  \<^bold>\<open>State and errors.\<close> Global variables are the fields of a record per layer: \<open>disk_state\<close> (track buffer and
  error code), \<open>dev_state\<close> (drive, partition, file system), \<open>file_state\<close> (open file and running hash), \<open>shell\<close> (command line and
  configuration); every layer contains the one below; \<open>boot_vars\<close> holds the memory and the variables of the loaders. An operation returns the changed state. The error code \<open>errnum\<close> is a
  field; the value \<open>None\<close> stands for what the C program has no defined result for: an access outside
  an array, a null pointer, a division by zero, or a loop that does not end. \<open>Halted\<close> is the end of the boot loader: it stops the
  machine, enters a kernel or starts anew. Loops with an evident bound are recursive
  functions with a measure; the others are partial functions in the option type, for which the theorems show
  that they return, or that they do not. No fuel is used.

  \<^bold>\<open>What is proved.\<close> The two hashes agree with their standards however the input is cut. \<open>update_pcr\<close> extends exactly the register it
  is given. The bytes a successful read delivers are those of the disk, through the
  track buffer and across writes. A file that is read to its end is measured as a whole, also the part that was
  skipped, and \<^verbatim>\<open>verify_pcr\<close> predicts the register; a file of which less is read leaves the registers
  alone. A kernel that is not compressed is read from the copy in memory that was measured: whatever its format, register 14 is extended by the hash of
  the whole file, and a big Linux kernel and the modules of a Multiboot kernel lie in memory as they were measured. A gzip file of stored blocks with less than 32 KB of data is read back and
  measured as it is on the disk, but for the files whose last piece has at most 8 bytes. The check file extends PCR 13 by the files that
  match. No command of a script runs before PCR 12 has been extended by its line, and PCR 12 is extended by the lines of a script and by the typed lines; \<^verbatim>\<open>lock\<close> ends a script.
  The configuration file is measured and its entries are stored as they are written; booting an entry measures its lines and those of the fallback entries; a locked menu
  lets nobody edit or type commands. Partitions, device names, directory lookups, variables, the table of commands, the drive map, numbers, memory and passwords have theorems
  of their own. Some theorems state what goes wrong: one half of a file read twice, cyclic partition tables, fallback entries that are checked forever,
  Rock Ridge entries of length 0, the addresses of the ISO 9660 driver on hard disks.

  \<^bold>\<open>Not modelled.\<close> The other file systems (they enter through \<open>file_env\<close>), the remaining
  commands (an argument of the command table, which has to leave register 12 alone), the hand-over to a kernel (\<open>bsd_boot\<close> and assembler), the drawing of the menu, a preset menu,
  terminals, network boot, the emulation on a host, and the code in assembler. Pictures of the screen, debugging output and the progress display have no
  counterpart. The check of \<open>grub_memmove\<close> against the size of the memory is left out for arrays of the boot loader, for the copy of a kernel when it is opened and for
  the entries of the menu, which are taken to fit. Integers of the disk layer are mathematical where the C code cannot overflow for the sizes of
  an \<open>int\<close> file offset, and 32-bit where it can.
\<close>

section \<open>Which lines are measured\<close>

text \<open>
  C11. The commands of a boot entry. No command runs before it has been measured: a script has the same result, also one that boots or stops the machine and does not come
  back, when every command is without a result unless register 12 has just been extended by the lines of the script up to the one that names this command with this argument.
  If the script comes back, register 12 is in the end extended by its lines, in their order and as they are in the configuration: by all of them if it succeeds, otherwise
  by a first part of them that may be followed by the implicit \<^verbatim>\<open>boot\<close>. The modelled commands are proved to leave register 12 alone; the others are assumed to.
\<close>

theorem run_script_measures:
  fixes cfg :: build_config and s :: "('w, 't) shell"
  assumes ok: "shell_ok pcr a others" and len: "length script < 2 ^ 32"
  defines "table \<equiv> builtin_table cfg (builtin_funcs a others)" and "before \<equiv> line_pcr pcr s"
  shows "run_script (ca_env a) (map (measured_before pcr (ca_env a) table before (script_lines script 0 @ [ascii ''boot''])) table) script s
      = run_script (ca_env a) table script s
    \<and> (\<forall>r s'. run_script (ca_env a) table script s = Some (Closed (r, s'))
        \<longrightarrow> (\<exists>ls. line_pcr pcr s' = extend_lines before ls
              \<and> (if r = 0 then ls = script_lines script 0 else prefix ls (script_lines script 0 @ [ascii ''boot'']))))"
  using run_script_guarded [OF ok len] run_script_pcr [OF ok len] by (auto simp: table_def before_def)

text \<open>
  C12. The interactive command line. Register 12 is extended by exactly the typed lines that name a command for the command line, in their
  order and before the command runs, up to the escape key.
\<close>

theorem enter_cmdline_measures:
  assumes ok: "shell_ok pcr a others" and len: "\<forall>l. Typed l \<in> set inputs \<longrightarrow> length l < 2 ^ 32"
    and run: "enter_cmdline (ca_env a) (builtin_table cfg (builtin_funcs a others)) inputs s = Some (Closed (ended, s'))"
  shows "line_pcr pcr s' = extend_lines (line_pcr pcr s) (executed (builtin_table cfg (builtin_funcs a others)) inputs)"
proof -
  obtain s0 where s0: "init_cmdline (ca_env a) s = Some s0"
      "cmdline_loop (ca_env a) (builtin_table cfg (builtin_funcs a others)) inputs s0 = Some (Closed (ended, s'))"
    using run by (auto simp: enter_cmdline_def Option.bind_eq_Some_conv)
  show ?thesis using measured_shell.cmdline_loop_measures [OF builtin_shell [OF ok] s0(2) len] init_cmdline_pcr [OF s0(1)] by simp
qed

text \<open>
  C13. A locked entry. If there is a password and the user has not entered it, a script that reaches the line \<^verbatim>\<open>lock\<close> ends there: the boot
  loader stops if files are measured, and otherwise the script fails; nothing behind the line is measured or run.
\<close>

theorem lock_ends_script:
  assumes ok: "shell_ok pcr a others" and line: "c_string script pos = Some (ascii ''lock'')" and s: "serr s = ERR_NONE"
    and locked: "\<not> auth s" "password s \<noteq> None"
  shows "if perform_sha1 (files s)
    then run_loop (ca_env a) (builtin_table cfg (builtin_funcs a others)) script pos s = Some Halted
    else \<exists>s'. run_loop (ca_env a) (builtin_table cfg (builtin_funcs a others)) script pos s = Some (Closed (1, s'))
      \<and> line_pcr pcr s' = extend_lines (line_pcr pcr s) [ascii ''lock'']"
proof -
  let ?table = "builtin_table cfg (builtin_funcs a others)"
  define b where "b = \<lparr>cmd_name = ascii ''lock'', func = builtin_funcs a others ''lock'', cmd_flags = 1\<rparr>"
  have "(True, ''lock'', 1) \<in> set (builtin_rows cfg)" by (simp add: builtin_rows_def)
  then have b: "seek_builtin ?table (ascii ''lock'') = Some (Some b)" using seek_row by (fastforce simp: b_def)
  have f: "func b = lock_func" by (simp add: b_def builtin_funcs_def modelled_funcs_def)
  have l: "command_word (ascii ''lock'') = ascii ''lock''" "ascii ''lock'' \<noteq> []" "0x24 \<notin> set (ascii ''lock'')" "length (ascii ''lock'') = 4"
    by (simp_all add: command_word_def ascii_def)
  have fl: "cmd_flags b AND BUILTIN_CMDLINE \<noteq> 0" by (simp add: b_def BUILTIN_CMDLINE_def)
  have "length (ascii ''lock'') < 700" by (simp add: l(4))
  note rp = measured_shell.run_plain [OF builtin_shell [OF ok] s line l(2,3) this, unfolded l(1), OF b fl]
  obtain t where t: "let s1 = forget_buffer (s\<lparr>files := (files s)\<lparr>tcg := t\<rparr>\<rparr>)
    in line_pcr pcr s1 = tpm_extend (line_pcr pcr s) (digest_bytes (fips_sha1 (ascii ''lock'')))
       \<and> run_loop (ca_env a) ?table script pos s = Option.bind (func b (skip_to True (ascii ''lock'')) BUILTIN_SCRIPT s1) (\<lambda>res.
           if_closed res (\<lambda>(_, s2). run_loop (ca_env a) ?table script (pos + length (ascii ''lock'') + 1) s2))"
    using rp by blast
  define s1 where "s1 = forget_buffer (s\<lparr>files := (files s)\<lparr>tcg := t\<rparr>\<rparr>)"
  have "auth s1 = auth s" "password s1 = password s" "perform_sha1 (files s1) = perform_sha1 (files s)"
    by (simp_all add: s1_def forget_buffer_def set_dev_def)
  then have "run_loop (ca_env a) ?table script pos s = run_loop (ca_env a) ?table script (5 + pos) (set_serr ERR_PRIVILEGED s1)"
    using t locked f l(4) unfolding Let_def s1_def [symmetric] by (simp add: lock_func_def cmd_fail_def)
  also have "\<dots> = (if perform_sha1 (files s) then Some Halted else Some (Closed (1, set_serr ERR_NONE (set_serr ERR_PRIVILEGED s1))))"
    using \<open>perform_sha1 (files s1) = perform_sha1 (files s)\<close>
    by (subst run_loop.simps) (simp add: print_error_def MAX_ERR_NUM_def set_serr_def set_ferr_def set_err_def)
  finally show ?thesis using t unfolding Let_def s1_def [symmetric] by simp
qed

lemma run_script_measures_witness:
  "\<exists>s'. run_script cd_shell_env cd_table (ascii ''debug'' @ [0, 0]) cd_shell = Some (Closed (0, s'))
     \<and> line_pcr soft_pcr s' = extend_lines (line_pcr soft_pcr cd_shell) [ascii ''debug'']
     \<and> run_script cd_shell_env (map (measured_before soft_pcr cd_shell_env cd_table (line_pcr soft_pcr cd_shell) [ascii ''debug'', ascii ''boot'']) cd_table)
         (ascii ''debug'' @ [0, 0]) cd_shell = Some (Closed (0, s'))"
proof -
  obtain s' where run: "run_script cd_shell_env cd_table (ascii ''debug'' @ [0, 0]) cd_shell = Some (Closed (0, s'))" using run_debug by blast
  have len: "length (ascii ''debug'' @ [0, 0]) < 2 ^ 32" by (simp add: ascii_def)
  have env: "ca_env cd_args = cd_shell_env" by (simp add: cd_args_def)
  show ?thesis using run run_script_measures [OF cd_shell_ok len, of cd_config cd_shell] unfolding env debug_script(3) by auto
qed

lemma enter_cmdline_measures_witness:
  "\<exists>s'. enter_cmdline cd_shell_env cd_table [Typed (ascii ''debug''), Escape] cd_shell = Some (Closed (True, s'))
     \<and> line_pcr soft_pcr s' = extend_lines (line_pcr soft_pcr cd_shell) [ascii ''debug'']"
proof -
  obtain s where s: "init_cmdline cd_shell_env cd_shell = Some s" "serr s = ERR_NONE" using cd_init by blast
  have len: "length (ascii ''debug'') < 2 ^ 32" by (simp add: ascii_def)
  define s3 where "s3 = (let s2 = forget_buffer (set_serr ERR_NONE s) in if use_pager s2 then s2\<lparr>count_lines := 0\<rparr> else s2)"
  obtain s4 where s4: "extend_line cd_shell_env (ascii ''debug'') s3 = Some s4" "serr s4 = serr s3" using cdsh.extend_line_measures [OF len] by blast
  have "serr s3 = ERR_NONE" by (simp add: s3_def Let_def forget_buffer_def set_dev_def set_serr_def set_ferr_def set_err_def)
  then have "\<exists>s'. cmdline_loop cd_shell_env cd_table [Typed (ascii ''debug''), Escape] s = Some (Closed (True, s'))"
    using s(2) s4 debug_row debug_word(2)
    by (simp add: cmdline_loop.simps [of _ _ "_ # _"] print_error_def find_command_def Let_def debug_cmd_def BUILTIN_CMDLINE_def debug_func_def cmd_ok_def
        s3_def [unfolded Let_def, symmetric])
  then obtain s' where run: "enter_cmdline cd_shell_env cd_table [Typed (ascii ''debug''), Escape] cd_shell = Some (Closed (True, s'))"
    using s(1) by (auto simp: enter_cmdline_def)
  then have run': "enter_cmdline (ca_env cd_args) cd_table [Typed (ascii ''debug''), Escape] cd_shell = Some (Closed (True, s'))" by (simp add: cd_args_def)
  have inputs: "\<forall>l. Typed l \<in> set [Typed (ascii ''debug''), Escape] \<longrightarrow> length l < 2 ^ 32" using len by simp
  have "executed cd_table [Typed (ascii ''debug''), Escape] = [ascii ''debug'']"
    using debug_row debug_word(2) by (simp add: runs_in_cmdline_def debug_cmd_def BUILTIN_CMDLINE_def)
  then show ?thesis using run enter_cmdline_measures [OF cd_shell_ok inputs run'] by simp
qed

text \<open>Without the password the machine stops at \<^verbatim>\<open>lock\<close>.\<close>

lemma lock_ends_script_witness:
  "\<exists>s. init_cmdline cd_shell_env cd_shell = Some s
     \<and> run_loop cd_shell_env cd_table (ascii ''lock'' @ [0] @ ascii ''debug'' @ [0, 0]) 0 s = Some Halted"
proof -
  obtain s where s: "init_cmdline cd_shell_env cd_shell = Some s" "serr s = ERR_NONE" "perform_sha1 (files s)"
    "auth s = auth cd_shell" "password s = password cd_shell" using cd_init by blast
  have locked: "\<not> auth s" "password s \<noteq> None" using s(4,5) by (simp_all add: cd_shell_def blank_shell_def)
  have c: "c_string (ascii ''lock'' @ [0] @ ascii ''debug'' @ [0, 0]) 0 = Some (ascii ''lock'')"
    by (simp add: c_string_def string_at_def ascii_def)
  show ?thesis using s(1,3) lock_ends_script [OF cd_shell_ok c s(2) locked, of cd_config] by (simp add: cd_args_def)
qed

end
